(* ===== verification/Prelude.thy ===== *)
theory Prelude
  imports Main "HOL-Library.Char_ord" "HOL-Library.List_Lexorder"
begin

text \<open>
  Shared vocabulary of the development: the JavaScript values the components exchange, the
  parts of the JavaScript standard library they use (insertion-ordered sets, object access,
  truthiness, canonical UTC timestamps, UUID syntax), results with thrown errors, and the generic
  list lemmas the component proofs use.

  Values are finite trees of plain objects and dense arrays. An object is the list of its own
  properties in insertion order; a well-formed object has distinct keys. A finite number that is
  not an integer is kept as its shortest decimal \<open>m * 10 ^ (- k)\<close>.
\<close>

subsection \<open>JavaScript values\<close>

datatype js =
    JUndef
  | JNull
  | JBool bool
  | JNum int
  | JFrac int nat
  | JNaN
  | JInf bool
  | JStr string
  | JFun
  | JArr "js list"
  | JObj "(string \<times> js) list"

type_synonym fields = "(string \<times> js) list"

fun js_truthy :: "js \<Rightarrow> bool" where
  "js_truthy JUndef = False"
| "js_truthy JNull = False"
| "js_truthy (JBool b) = b"
| "js_truthy (JNum n) = (n \<noteq> 0)"
| "js_truthy JNaN = False"
| "js_truthy (JStr s) = (s \<noteq> [])"
| "js_truthy _ = True"

fun is_obj :: "js \<Rightarrow> bool" where
  "is_obj (JObj _) = True"
| "is_obj _ = False"

fun is_str :: "js \<Rightarrow> bool" where
  "is_str (JStr _) = True"
| "is_str _ = False"

fun is_text :: "js \<Rightarrow> bool" where
  "is_text (JStr s) = (s \<noteq> [])"
| "is_text _ = False"

fun is_bool :: "js \<Rightarrow> bool" where
  "is_bool (JBool _) = True"
| "is_bool _ = False"

fun is_str_array :: "js \<Rightarrow> bool" where
  "is_str_array (JArr xs) = list_all is_str xs"
| "is_str_array _ = False"

fun is_int_ge :: "int \<Rightarrow> js \<Rightarrow> bool" where
  "is_int_ge m (JNum n) = (m \<le> n)"
| "is_int_ge m _ = False"

fun own_fields :: "js \<Rightarrow> fields" where
  "own_fields (JObj fs) = fs"
| "own_fields _ = []"

fun js_items :: "js \<Rightarrow> js list" where
  "js_items (JArr xs) = xs"
| "js_items _ = []"

fun js_text :: "js \<Rightarrow> string" where
  "js_text (JStr s) = s"
| "js_text _ = []"

definition js_get :: "js \<Rightarrow> string \<Rightarrow> js" where
  "js_get v k = (case map_of (own_fields v) k of None \<Rightarrow> JUndef | Some x \<Rightarrow> x)"

lemma js_get_JObj: "js_get (JObj fs) k = (case map_of fs k of None \<Rightarrow> JUndef | Some x \<Rightarrow> x)"
  by (simp add: js_get_def)

definition js_keys :: "js \<Rightarrow> string list" where
  "js_keys v = map fst (own_fields v)"

definition has_own :: "js \<Rightarrow> string \<Rightarrow> bool" where
  "has_own v k \<longleftrightarrow> k \<in> set (js_keys v)"

definition str_list :: "js \<Rightarrow> string list" where
  "str_list v = map js_text (js_items v)"

text \<open>Assignment \<open>o[k] = v\<close> keeps the position of an existing key and appends a new one.\<close>

fun put_field :: "fields \<Rightarrow> string \<Rightarrow> js \<Rightarrow> fields" where
  "put_field [] k v = [(k, v)]"
| "put_field ((k', v') # fs) k v = (if k' = k then (k, v) # fs else (k', v') # put_field fs k v)"

definition del_field :: "fields \<Rightarrow> string \<Rightarrow> fields" where
  "del_field fs k = filter (\<lambda>kv. fst kv \<noteq> k) fs"

lemma map_of_put_field [simp]: "map_of (put_field fs k v) = (map_of fs)(k \<mapsto> v)"
  by (induction fs) (auto simp: fun_eq_iff)

lemma keys_put_field [simp]: "fst ` set (put_field fs k v) = insert k (fst ` set fs)"
  by (induction fs k v rule: put_field.induct) (auto simp: insert_commute)

lemma distinct_put_field [simp]:
  "distinct (map fst fs) \<Longrightarrow> distinct (map fst (put_field fs k v))"
proof (induction fs)
  case (Cons f fs)
  then show ?case
    by (cases f) auto
qed simp

lemma map_of_del_field [simp]: "map_of (del_field fs k) = (map_of fs)(k := None)"
  unfolding del_field_def by (induction fs) (auto simp: fun_eq_iff)

lemma distinct_del_field [simp]:
  "distinct (map fst fs) \<Longrightarrow> distinct (map fst (del_field fs k))"
  unfolding del_field_def by (induction fs) auto

subsection \<open>Printing values\<close>

text \<open>\<open>String(v)\<close>, as template literals use it. The source text of a function is not modelled.\<close>

definition dchar :: "nat \<Rightarrow> char" where
  "dchar n = char_of (48 + n mod 10)"

fun dec_nat :: "nat \<Rightarrow> string" where
  "dec_nat n = (if n < 10 then [dchar n] else dec_nat (n div 10) @ [dchar n])"

declare dec_nat.simps [simp del]

definition dec_int :: "int \<Rightarrow> string" where
  "dec_int i = (if i < 0 then ''-'' @ dec_nat (nat (- i)) else dec_nat (nat i))"

lemma dec_nat_nonempty [simp]: "dec_nat n \<noteq> []"
  by (subst dec_nat.simps) simp

definition dec_frac :: "int \<Rightarrow> nat \<Rightarrow> string" where
  "dec_frac m k =
     (let ds = dec_nat (nat \<bar>m\<bar>); ps = replicate (Suc k - length ds) (CHR ''0'') @ ds
      in (if m < 0 then ''-'' else []) @ take (length ps - k) ps @ ''.'' @ drop (length ps - k) ps)"

fun js_show :: "js \<Rightarrow> string"
  and js_show_items :: "js list \<Rightarrow> string" where
  "js_show JUndef = ''undefined''"
| "js_show JNull = ''null''"
| "js_show (JBool b) = (if b then ''true'' else ''false'')"
| "js_show (JNum i) = dec_int i"
| "js_show (JFrac m k) = dec_frac m k"
| "js_show JNaN = ''NaN''"
| "js_show (JInf b) = (if b then ''Infinity'' else ''-Infinity'')"
| "js_show (JStr s) = s"
| "js_show JFun = ''function''"
| "js_show (JObj fs) = ''[object Object]''"
| "js_show (JArr xs) = js_show_items xs"
| "js_show_items [] = []"
| "js_show_items (x # xs) =
     (if x = JUndef \<or> x = JNull then [] else js_show x) @
     (if xs = [] then [] else CHR '','' # js_show_items xs)"

subsection \<open>Insertion-ordered sets\<close>

text \<open>\<open>[...new Set(xs)]\<close> keeps the first occurrence of every element, in order.\<close>

fun uniq :: "'a list \<Rightarrow> 'a list" where
  "uniq [] = []"
| "uniq (x # xs) = x # filter (\<lambda>y. y \<noteq> x) (uniq xs)"

lemma find_append: "find P (xs @ ys) = (case find P xs of None \<Rightarrow> find P ys | Some x \<Rightarrow> Some x)"
  by (induction xs) auto

lemma set_uniq [simp]: "set (uniq xs) = set xs"
  by (induction xs) auto

lemma distinct_uniq [simp]: "distinct (uniq xs)"
  by (induction xs) auto

lemma uniq_distinct [simp]: "distinct xs \<Longrightarrow> uniq xs = xs"
  by (induction xs) (auto intro!: filter_True)

lemma uniq_uniq [simp]: "uniq (uniq xs) = uniq xs"
  by simp

lemma length_uniq: "length (uniq xs) = card (set xs)"
  using distinct_card [OF distinct_uniq, of xs] by simp

lemma length_uniq_eq_iff: "length (uniq xs) = length xs \<longleftrightarrow> distinct xs"
  by (metis card_distinct distinct_card length_uniq)

subsection \<open>Results of code that may throw\<close>

record jserr =
  err_code :: string
  err_message :: string
  err_retryable :: bool

type_synonym 'a res = "jserr + 'a"

definition mk_err :: "string \<Rightarrow> string \<Rightarrow> jserr" where
  "mk_err c m = \<lparr>err_code = c, err_message = m, err_retryable = False\<rparr>"

lemma mk_err_sel [simp]:
  "err_code (mk_err c m) = c" "err_message (mk_err c m) = m" "err_retryable (mk_err c m) = False"
  by (simp_all add: mk_err_def)

text \<open>\<open>xs.map(f)\<close> where \<open>f\<close> may throw: the first throw wins.\<close>

fun map_res :: "('a \<Rightarrow> 'e + 'b) \<Rightarrow> 'a list \<Rightarrow> 'e + 'b list" where
  "map_res f [] = Inr []"
| "map_res f (x # xs) =
     (case f x of
        Inl e \<Rightarrow> Inl e
      | Inr y \<Rightarrow> (case map_res f xs of Inl e \<Rightarrow> Inl e | Inr ys \<Rightarrow> Inr (y # ys)))"

text \<open>\<open>for (const x of xs) check(x)\<close> where \<open>check\<close> only throws or returns.\<close>

fun each_res :: "('a \<Rightarrow> 'e + unit) \<Rightarrow> 'a list \<Rightarrow> 'e + unit" where
  "each_res f [] = Inr ()"
| "each_res f (x # xs) = (case f x of Inl e \<Rightarrow> Inl e | Inr _ \<Rightarrow> each_res f xs)"

definition check_that :: "bool \<Rightarrow> 'e \<Rightarrow> 'e + unit" where
  "check_that b e = (if b then Inr () else Inl e)"

definition bind_res :: "'e + 'a \<Rightarrow> ('a \<Rightarrow> 'e + 'b) \<Rightarrow> 'e + 'b" where
  "bind_res m f = (case m of Inl e \<Rightarrow> Inl e | Inr x \<Rightarrow> f x)"

lemma check_that_Inr [simp]: "check_that b e = Inr u \<longleftrightarrow> b"
  by (simp add: check_that_def)

lemma check_that_Inl [simp]: "check_that b e = Inl e' \<longleftrightarrow> \<not> b \<and> e' = e"
  by (auto simp: check_that_def)

lemma bind_res_Inr [simp]: "bind_res m f = Inr y \<longleftrightarrow> (\<exists>x. m = Inr x \<and> f x = Inr y)"
  by (simp add: bind_res_def split: sum.split)

lemma bind_res_simps: "bind_res (Inl e) f = Inl e" "bind_res (Inr x) f = f x"
  by (simp_all add: bind_res_def)

lemma bind_check [simp]:
  "bind_res (check_that True e) f = f ()" "bind_res (check_that False e) f = Inl e"
  by (simp_all add: check_that_def bind_res_def)

lemma each_res_Inr [simp]: "each_res f xs = Inr u \<longleftrightarrow> (\<forall>x \<in> set xs. f x = Inr ())"
  by (induction xs) (auto split: sum.split)

lemma map_res_Inr_iff:
  "map_res f xs = Inr ys \<longleftrightarrow> list_all2 (\<lambda>x y. f x = Inr y) xs ys"
proof (induction xs arbitrary: ys)
  case Nil
  then show ?case by auto
next
  case (Cons x xs)
  show ?case
  proof (cases "f x")
    case (Inl e)
    then show ?thesis by (auto simp: list_all2_Cons1)
  next
    case (Inr y)
    then show ?thesis
      using Cons.IH by (cases "map_res f xs") (auto simp: list_all2_Cons1)
  qed
qed

lemma map_res_length: "map_res f xs = Inr ys \<Longrightarrow> length ys = length xs"
  by (auto simp: map_res_Inr_iff dest: list_all2_lengthD)

lemma map_res_set:
  "map_res f xs = Inr ys \<Longrightarrow> y \<in> set ys \<Longrightarrow> \<exists>x \<in> set xs. f x = Inr y"
  unfolding map_res_Inr_iff by (induction xs ys rule: list_all2_induct) auto

lemma map_res_all_Inr:
  "(\<forall>x \<in> set xs. f x = Inr (g x)) \<Longrightarrow> map_res f xs = Inr (map g xs)"
  by (induction xs) auto

lemma not_isl_Inr: "isl x = False \<Longrightarrow> \<exists>y. x = Inr y"
  by (cases x) auto

subsection \<open>Canonical UTC timestamps and UUIDs\<close>

definition digit :: "char \<Rightarrow> bool" where
  "digit c \<longleftrightarrow> CHR ''0'' \<le> c \<and> c \<le> CHR ''9''"

definition hex_digit :: "char \<Rightarrow> bool" where
  "hex_digit c \<longleftrightarrow> digit c \<or> (CHR ''a'' \<le> c \<and> c \<le> CHR ''f'') \<or> (CHR ''A'' \<le> c \<and> c \<le> CHR ''F'')"

definition dval :: "char \<Rightarrow> nat" where
  "dval c = of_char c - 48"

definition dnum :: "string \<Rightarrow> nat" where
  "dnum s = foldl (\<lambda>n c. 10 * n + dval c) 0 s"

definition leap :: "nat \<Rightarrow> bool" where
  "leap y \<longleftrightarrow> (y mod 4 = 0 \<and> y mod 100 \<noteq> 0) \<or> y mod 400 = 0"

definition days_in :: "nat \<Rightarrow> nat \<Rightarrow> nat" where
  "days_in y m = (if m = 2 then (if leap y then 29 else 28) else if m \<in> {4, 6, 9, 11} then 30 else 31)"

text \<open>
  The pattern \<open>YYYY-MM-DDTHH:MM:SS.mmmZ\<close> together with the round trip through \<open>Date\<close>:
  exactly the strings whose parts are a real calendar date and time of day.
\<close>

fun canonical_utc :: "string \<Rightarrow> bool" where
  "canonical_utc [y1, y2, y3, y4, s1, m1, m2, s2, d1, d2, t, h1, h2, c1, i1, i2, c2, x1, x2, p, f1, f2, f3, z] =
     (list_all digit [y1, y2, y3, y4, m1, m2, d1, d2, h1, h2, i1, i2, x1, x2, f1, f2, f3] \<and>
      s1 = CHR ''-'' \<and> s2 = CHR ''-'' \<and> t = CHR ''T'' \<and> c1 = CHR '':'' \<and> c2 = CHR '':'' \<and>
      p = CHR ''.'' \<and> z = CHR ''Z'' \<and>
      1 \<le> dnum [m1, m2] \<and> dnum [m1, m2] \<le> 12 \<and> 1 \<le> dnum [d1, d2] \<and>
      dnum [d1, d2] \<le> days_in (dnum [y1, y2, y3, y4]) (dnum [m1, m2]) \<and>
      dnum [h1, h2] < 24 \<and> dnum [i1, i2] < 60 \<and> dnum [x1, x2] < 60)"
| "canonical_utc _ = False"

definition uuid_like :: "string \<Rightarrow> bool" where
  "uuid_like s \<longleftrightarrow> length s = 36 \<and>
     list_all (\<lambda>i. s ! i = CHR ''-'') [8, 13, 18, 23] \<and>
     list_all (\<lambda>i. i \<in> {8, 13, 18, 23} \<or> hex_digit (s ! i)) [0..<36]"

text \<open>
  \<open>Date.prototype.toISOString\<close>: four digits for the years 0000 to 9999, otherwise a sign and
  six digits.
\<close>

definition digit_at :: "int \<Rightarrow> int \<Rightarrow> char" where
  "digit_at n place = dchar (nat (n div place mod 10))"

definition pad2 :: "int \<Rightarrow> string" where
  "pad2 n = map (digit_at n) [10, 1]"

definition pad3 :: "int \<Rightarrow> string" where
  "pad3 n = map (digit_at n) [100, 10, 1]"

definition pad4 :: "int \<Rightarrow> string" where
  "pad4 n = map (digit_at n) [1000, 100, 10, 1]"

definition iso_year :: "int \<Rightarrow> string" where
  "iso_year y =
     (if 0 \<le> y \<and> y \<le> 9999 then pad4 y
      else (if y < 0 then ''-'' else ''+'') @ pad3 (\<bar>y\<bar> div 1000) @ pad3 \<bar>y\<bar>)"

definition civil_of_days :: "int \<Rightarrow> int \<times> int \<times> int" where
  "civil_of_days z0 =
     (let z = z0 + 719468; era = z div 146097; doe = z - era * 146097;
          yoe = (doe - doe div 1460 + doe div 36524 - doe div 146096) div 365;
          doy = doe - (365 * yoe + yoe div 4 - yoe div 100);
          mp = (5 * doy + 2) div 153;
          d = doy - (153 * mp + 2) div 5 + 1;
          m = (if mp < 10 then mp + 3 else mp - 9);
          y = yoe + era * 400 + (if m \<le> 2 then 1 else 0)
      in (y, m, d))"

definition iso_of_ms :: "int \<Rightarrow> string" where
  "iso_of_ms ms =
     (let (y, m, d) = civil_of_days (ms div 86400000); r = ms mod 86400000
      in iso_year y @ ''-'' @ pad2 m @ ''-'' @ pad2 d @ ''T'' @
         pad2 (r div 3600000) @ '':'' @ pad2 (r div 60000 mod 60) @ '':'' @
         pad2 (r div 1000 mod 60) @ ''.'' @ pad3 (r mod 1000) @ ''Z'')"

end
