(* ===== verification/PolicyLattice.thy ===== *)
theory PolicyLattice
  imports Prelude "HOL-Library.Product_Lexorder" "HOL-Library.Multiset"
begin

text \<open>
  The permission lattice of \<open>packages/agent-policy-lattice/index.js\<close>: evaluation of a set of
  rules by stage and source precedence, the merge of configuration entries by kind, and the
  derivation of a child's authority from its parent's. Rules and entries arrive as untrusted
  values and are normalised as the code does. \<open>localeCompare\<close> is represented by the collation
  key \<open>collate\<close> it compares.
\<close>

subsection \<open>Precedence tables and checks\<close>

definition SOURCE_PRECEDENCE :: "string list" where
  "SOURCE_PRECEDENCE = [''runtime_default'', ''synced_plugin'', ''installed_plugin'', ''project'',
     ''user'', ''managed'', ''enterprise'']"

definition STAGE_PRECEDENCE :: "string list" where
  "STAGE_PRECEDENCE = [''constitutional'', ''mandatory_hook'', ''deny'', ''ask'',
     ''execution_mode'', ''allow'', ''provider_callback'', ''governed_dispatch'']"

definition DECISIONS :: "string list" where
  "DECISIONS = [''abstain'', ''allow'', ''ask'', ''deny'']"

definition EXECUTION_MODES :: "string list" where
  "EXECUTION_MODES = [''default'', ''bypass'', ''plan'']"

definition RULE_STAGES :: "string list" where
  "RULE_STAGES = [''constitutional'', ''mandatory_hook'', ''deny'', ''ask'', ''allow'']"

definition lattice_error :: "string \<Rightarrow> jserr" where
  "lattice_error m = mk_err ''AGENT_POLICY_LATTICE_INVALID'' m"

definition widening_error :: "string \<Rightarrow> jserr" where
  "widening_error m = mk_err ''AGENT_AUTHORITY_WIDENING'' m"

fun index_of :: "'a list \<Rightarrow> 'a \<Rightarrow> nat option" where
  "index_of [] x = None"
| "index_of (y # ys) x = (if y = x then Some 0 else map_option Suc (index_of ys x))"

definition one_of :: "string list \<Rightarrow> js \<Rightarrow> bool" where
  "one_of xs v \<longleftrightarrow> is_str v \<and> js_text v \<in> set xs"

definition bounded_text :: "nat \<Rightarrow> js \<Rightarrow> bool" where
  "bounded_text n v \<longleftrightarrow> is_text v \<and> length (js_text v) \<le> n"

definition assertRecord :: "js \<Rightarrow> string \<Rightarrow> unit res" where
  "assertRecord v label = check_that (is_obj v) (lattice_error (label @ '' must be an object''))"

definition normalizeSource :: "js \<Rightarrow> nat res" where
  "normalizeSource source =
     (case (if is_str source then index_of SOURCE_PRECEDENCE (js_text source) else None) of
        None \<Rightarrow> Inl (lattice_error (''unknown policy source: '' @ js_show source))
      | Some rank \<Rightarrow> Inr rank)"

definition normalizeDecision :: "js \<Rightarrow> string \<Rightarrow> string res" where
  "normalizeDecision v label =
     (if one_of DECISIONS v then Inr (js_text v)
      else Inl (lattice_error (label @ '' returned an invalid decision'')))"

record policy_rule =
  rule_id :: string
  rule_source :: string
  source_rank :: nat
  rule_stage :: string
  stage_rank :: nat
  rule_decision :: string
  rule_reason :: string

definition fixed_decision_ok :: "string \<Rightarrow> string \<Rightarrow> bool" where
  "fixed_decision_ok stage decision \<longleftrightarrow>
     stage \<notin> {''deny'', ''ask'', ''allow''} \<or> decision \<in> {''abstain'', stage}"

definition protective_decision_ok :: "string \<Rightarrow> string \<Rightarrow> bool" where
  "protective_decision_ok stage decision \<longleftrightarrow>
     stage \<notin> {''constitutional'', ''mandatory_hook''} \<or> decision \<in> {''abstain'', ''ask'', ''deny''}"

definition normalizeRule :: "nat \<times> js \<Rightarrow> policy_rule res" where
  "normalizeRule ir = (let index = fst ir; rule = snd ir; label = ''rule '' @ js_text (js_get rule ''id'') in
     bind_res (assertRecord rule (''rule '' @ dec_nat index)) (\<lambda>_.
     bind_res (check_that (bounded_text 256 (js_get rule ''id''))
                 (lattice_error (''rule '' @ dec_nat index @ '' has an invalid id''))) (\<lambda>_.
     bind_res (check_that (one_of RULE_STAGES (js_get rule ''stage''))
                 (lattice_error (label @ '' has an invalid stage''))) (\<lambda>_.
     bind_res (normalizeDecision (js_get rule ''decision'') label) (\<lambda>decision.
     let stage = js_text (js_get rule ''stage'') in
     bind_res (check_that (fixed_decision_ok stage decision)
                 (lattice_error (label @ '' has a decision incompatible with its stage''))) (\<lambda>_.
     bind_res (check_that (protective_decision_ok stage decision)
                 (lattice_error (label @ '' cannot grant authority from a protective stage''))) (\<lambda>_.
     bind_res (normalizeSource (js_get rule ''source'')) (\<lambda>rank.
     Inr \<lparr>rule_id = js_text (js_get rule ''id''),
          rule_source = js_text (js_get rule ''source''),
          source_rank = rank,
          rule_stage = stage,
          stage_rank = (case index_of STAGE_PRECEDENCE stage of None \<Rightarrow> 0 | Some i \<Rightarrow> i),
          rule_decision = decision,
          rule_reason = take 2048 (js_text (js_get rule ''reason''))\<rparr>))))))))"

subsection \<open>Evaluation of the permission lattice\<close>

record trace_entry =
  tr_stage :: string
  tr_source :: string
  tr_rule_id :: string
  tr_decision :: string

record lattice_result =
  lr_decision :: string
  dispatch_allowed :: bool
  deciding_rule_id :: "string option"
  lr_trace :: "trace_entry list"

datatype callback = NoCallback | NotCallable | Returns js | Throws jserr

definition rule_order :: "(string \<Rightarrow> string) \<Rightarrow> policy_rule \<Rightarrow> nat \<times> int \<times> string" where
  "rule_order collate r = (stage_rank r, - int (source_rank r), collate (rule_id r))"

definition order_rules :: "(string \<Rightarrow> string) \<Rightarrow> policy_rule list \<Rightarrow> policy_rule list" where
  "order_rules collate rs = sort_key (rule_order collate) rs"

definition traceRule :: "policy_rule \<Rightarrow> trace_entry" where
  "traceRule r = \<lparr>tr_stage = rule_stage r, tr_source = rule_source r, tr_rule_id = rule_id r,
                 tr_decision = rule_decision r\<rparr>"

definition mode_decision :: "string \<Rightarrow> string" where
  "mode_decision m = (if m = ''bypass'' then ''allow'' else if m = ''plan'' then ''ask'' else ''abstain'')"

definition first_deny :: "policy_rule list \<Rightarrow> policy_rule option" where
  "first_deny rs = find (\<lambda>r. rule_decision r = ''deny'') rs"

definition first_ask :: "policy_rule list \<Rightarrow> policy_rule option" where
  "first_ask rs = find (\<lambda>r. rule_decision r = ''ask'') rs"

definition first_allow :: "policy_rule list \<Rightarrow> policy_rule option" where
  "first_allow rs = find (\<lambda>r. rule_stage r = ''allow'' \<and> rule_decision r = ''allow'') rs"

definition base_decision :: "policy_rule list \<Rightarrow> string \<Rightarrow> string" where
  "base_decision ordered mode =
     (if first_deny ordered \<noteq> None then ''deny''
      else if first_ask ordered \<noteq> None then ''ask''
      else if mode_decision mode = ''ask'' then ''ask''
      else if first_allow ordered \<noteq> None \<or> mode_decision mode = ''allow'' then ''allow''
      else ''ask'')"

definition deciding_rule :: "policy_rule list \<Rightarrow> policy_rule option" where
  "deciding_rule ordered =
     (case first_deny ordered of Some r \<Rightarrow> Some r
      | None \<Rightarrow> (case first_ask ordered of Some r \<Rightarrow> Some r | None \<Rightarrow> first_allow ordered))"

definition base_trace :: "policy_rule list \<Rightarrow> string \<Rightarrow> trace_entry list" where
  "base_trace ordered mode =
     map traceRule (filter (\<lambda>r. rule_stage r \<noteq> ''allow'') ordered) @
     [\<lparr>tr_stage = ''execution_mode'', tr_source = ''runtime_default'',
       tr_rule_id = ''mode:'' @ mode, tr_decision = mode_decision mode\<rparr>] @
     map traceRule (filter (\<lambda>r. rule_stage r = ''allow'') ordered)"

definition runtime_trace :: "string \<Rightarrow> string \<Rightarrow> string \<Rightarrow> trace_entry" where
  "runtime_trace stage rid decision =
     \<lparr>tr_stage = stage, tr_source = ''runtime_default'', tr_rule_id = rid, tr_decision = decision\<rparr>"

definition finish_lattice ::
    "string \<Rightarrow> policy_rule option \<Rightarrow> trace_entry list \<Rightarrow> lattice_result" where
  "finish_lattice decision rule trace =
     \<lparr>lr_decision = decision, dispatch_allowed = (decision = ''allow''),
      deciding_rule_id = map_option rule_id rule,
      lr_trace = trace @ [runtime_trace ''governed_dispatch'' ''dispatch:governed''
                            (if decision = ''allow'' then ''allow'' else ''deny'')]\<rparr>"

definition apply_callback ::
    "string \<Rightarrow> policy_rule option \<Rightarrow> trace_entry list \<Rightarrow> callback \<Rightarrow> lattice_result res" where
  "apply_callback decision rule trace cb =
     (if decision \<noteq> ''allow'' then Inr (finish_lattice decision rule trace)
      else case cb of
        NoCallback \<Rightarrow> Inr (finish_lattice decision rule trace)
      | NotCallable \<Rightarrow> Inl (lattice_error ''provider_callback must be a function'')
      | Throws e \<Rightarrow> Inl e
      | Returns v \<Rightarrow>
          bind_res (normalizeDecision v ''provider callback'') (\<lambda>pd.
          let trace' = trace @ [runtime_trace ''provider_callback'' ''provider:callback'' pd] in
          if pd \<noteq> ''abstain'' then Inr (finish_lattice pd None trace')
          else Inr (finish_lattice decision rule trace')))"

definition evaluatePermissionLattice ::
    "(string \<Rightarrow> string) \<Rightarrow> js \<Rightarrow> string \<Rightarrow> callback \<Rightarrow> lattice_result res" where
  "evaluatePermissionLattice collate rules mode cb =
     (case rules of
        JArr rs \<Rightarrow>
          (if mode \<notin> set EXECUTION_MODES then Inl (lattice_error ''execution_mode is invalid'')
           else bind_res (map_res normalizeRule (enumerate 0 rs)) (\<lambda>normalized.
             if length (uniq (map rule_id normalized)) \<noteq> length normalized
             then Inl (lattice_error ''rule ids must be unique'')
             else let ordered = order_rules collate normalized in
               apply_callback (base_decision ordered mode) (deciding_rule ordered)
                 (base_trace ordered mode) cb))
      | _ \<Rightarrow> Inl (lattice_error ''rules must be an array''))"

subsection \<open>Configuration merge\<close>

record config_entry =
  ce_key :: string
  ce_source :: string
  ce_rank :: nat
  ce_kind :: js
  ce_value :: js

definition normalize_entry :: "nat \<times> js \<Rightarrow> config_entry res" where
  "normalize_entry ie = (let index = fst ie; entry = snd ie in
     bind_res (assertRecord entry (''configuration entry '' @ dec_nat index)) (\<lambda>_.
     bind_res (check_that (bounded_text 256 (js_get entry ''key'') \<and>
                 js_text (js_get entry ''key'') \<notin> {''__proto__'', ''prototype'', ''constructor''})
                 (lattice_error ''configuration key is invalid'')) (\<lambda>_.
     bind_res (normalizeSource (js_get entry ''source'')) (\<lambda>rank.
     Inr \<lparr>ce_key = js_text (js_get entry ''key''), ce_source = js_text (js_get entry ''source''),
          ce_rank = rank,
          ce_kind = (if js_truthy (js_get entry ''kind'') then js_get entry ''kind'' else JStr ''replace''),
          ce_value = js_get entry ''value''\<rparr>))))"

definition string_array_ok :: "js \<Rightarrow> bool" where
  "string_array_ok v \<longleftrightarrow> (case v of JArr xs \<Rightarrow> list_all (bounded_text 1024) xs | _ \<Rightarrow> False)"

definition assertStringArray :: "js \<Rightarrow> string \<Rightarrow> unit res" where
  "assertStringArray v label =
     check_that (string_array_ok v) (lattice_error (label @ '' must be an array of bounded strings''))"

text \<open>Finite numbers in decimal form, and \<open>Math.min\<close> over them.\<close>

fun dec_parts :: "js \<Rightarrow> int \<times> nat" where
  "dec_parts (JNum n) = (n, 0)"
| "dec_parts (JFrac m k) = (m, k)"
| "dec_parts _ = (0, 0)"

definition num_le :: "js \<Rightarrow> js \<Rightarrow> bool" where
  "num_le a b = (fst (dec_parts a) * 10 ^ snd (dec_parts b) \<le> fst (dec_parts b) * 10 ^ snd (dec_parts a))"

fun finite_nonneg :: "js \<Rightarrow> bool" where
  "finite_nonneg (JNum n) = (0 \<le> n)"
| "finite_nonneg (JFrac m k) = (0 \<le> m)"
| "finite_nonneg _ = False"

fun min_num :: "js list \<Rightarrow> js" where
  "min_num [] = JInf True"
| "min_num [x] = x"
| "min_num (x # y # ys) = (let m = min_num (y # ys) in if num_le x m then x else m)"

text \<open>\<open>structuredClone\<close> copies plain data and refuses functions.\<close>

fun has_fun :: "js \<Rightarrow> bool"
  and has_fun_list :: "js list \<Rightarrow> bool"
  and has_fun_fields :: "fields \<Rightarrow> bool" where
  "has_fun JFun = True"
| "has_fun (JArr xs) = has_fun_list xs"
| "has_fun (JObj fs) = has_fun_fields fs"
| "has_fun _ = False"
| "has_fun_list [] = False"
| "has_fun_list (x # xs) = (has_fun x \<or> has_fun_list xs)"
| "has_fun_fields [] = False"
| "has_fun_fields ((k, v) # fs) = (has_fun v \<or> has_fun_fields fs)"

definition structuredClone :: "js \<Rightarrow> js res" where
  "structuredClone v =
     (if has_fun v then Inl (mk_err ''DataCloneError'' ''value could not be cloned'') else Inr v)"

definition strings_js :: "string list \<Rightarrow> js" where
  "strings_js xs = JArr (map JStr xs)"

definition merge_candidates :: "string \<Rightarrow> config_entry list \<Rightarrow> js res" where
  "merge_candidates key cs =
     (let kind = ce_kind (hd cs) in
      if kind = JStr ''replace'' then structuredClone (ce_value (hd cs))
      else if kind = JStr ''deny_union'' then
        bind_res (each_res (\<lambda>e. assertStringArray (ce_value e) (key @ '' deny list'')) cs) (\<lambda>_.
          Inr (strings_js (sort (uniq (concat (map (\<lambda>e. str_list (ce_value e)) cs))))))
      else if kind = JStr ''allow_intersection'' then
        bind_res (each_res (\<lambda>e. assertStringArray (ce_value e) (key @ '' allow list'')) cs) (\<lambda>_.
          Inr (strings_js (sort (filter (\<lambda>v. list_all (\<lambda>e. v \<in> set (str_list (ce_value e))) cs)
                 (uniq (str_list (ce_value (hd cs))))))))
      else if kind = JStr ''limit_min'' then
        (if \<not> list_all (\<lambda>e. finite_nonneg (ce_value e)) cs
         then Inl (lattice_error (key @ '' limits must be finite non-negative numbers''))
         else Inr (min_num (map ce_value cs)))
      else Inl (lattice_error (''configuration key '' @ key @ '' has an unknown merge kind'')))"

definition candidates_of :: "config_entry list \<Rightarrow> string \<Rightarrow> config_entry list" where
  "candidates_of ordered key =
     sort_key (\<lambda>e. - int (ce_rank e)) (filter (\<lambda>e. ce_key e = key) ordered)"

definition resolve_key :: "config_entry list \<Rightarrow> string \<Rightarrow> (string \<times> js \<times> string list) res" where
  "resolve_key ordered key =
     (let cs = candidates_of ordered key in
      if length (uniq (map ce_kind cs)) \<noteq> 1
      then Inl (lattice_error (''configuration key '' @ key @ '' has incompatible merge kinds''))
      else bind_res (merge_candidates key cs) (\<lambda>v. Inr (key, v, map ce_source cs)))"

definition resolveConfiguration :: "js \<Rightarrow> (string \<times> js \<times> string list) list res" where
  "resolveConfiguration entries =
     (case entries of
        JArr es \<Rightarrow>
          bind_res (map_res normalize_entry (enumerate 0 es)) (\<lambda>ordered.
            if length (uniq (map (\<lambda>e. ce_key e @ CHR 0x00 # ce_source e) ordered)) \<noteq> length ordered
            then Inl (lattice_error ''a configuration source may define each key only once'')
            else map_res (resolve_key ordered) (uniq (map ce_key ordered)))
      | _ \<Rightarrow> Inl (lattice_error ''configuration entries must be an array''))"

subsection \<open>Child authority\<close>

record authority =
  capabilities :: "string list"
  max_effects :: int

definition max_safe :: int where
  "max_safe = 9007199254740991"

fun safe_nonneg :: "js \<Rightarrow> bool" where
  "safe_nonneg (JNum n) = (0 \<le> n \<and> n \<le> max_safe)"
| "safe_nonneg _ = False"

fun int_of :: "js \<Rightarrow> int" where
  "int_of (JNum n) = n"
| "int_of _ = 0"

definition deriveChildAuthority :: "js \<Rightarrow> js \<Rightarrow> authority res" where
  "deriveChildAuthority parent requested =
     bind_res (assertRecord parent ''parent authority'') (\<lambda>_.
     bind_res (assertRecord requested ''requested child authority'') (\<lambda>_.
     bind_res (assertStringArray (js_get parent ''capabilities'') ''parent capabilities'') (\<lambda>_.
     bind_res (assertStringArray (js_get requested ''capabilities'') ''requested child capabilities'') (\<lambda>_.
     let parentCapabilities = str_list (js_get parent ''capabilities'');
         requestedCapabilities = uniq (str_list (js_get requested ''capabilities''));
         widened = filter (\<lambda>c. c \<notin> set parentCapabilities) requestedCapabilities;
         parentLimit = js_get parent ''max_effects'';
         requestedLimit = js_get requested ''max_effects''
     in if widened \<noteq> [] then Inl (widening_error ''child authority exceeds its parent'')
        else if \<not> safe_nonneg parentLimit \<or> \<not> safe_nonneg requestedLimit
        then Inl (lattice_error ''authority limits must be non-negative safe integers'')
        else if int_of requestedLimit > int_of parentLimit
        then Inl (widening_error ''child effect limit exceeds its parent'')
        else Inr \<lparr>capabilities = sort requestedCapabilities, max_effects = int_of requestedLimit\<rparr>))))"

definition authority_js :: "authority \<Rightarrow> js" where
  "authority_js a = JObj [(''capabilities'', strings_js (capabilities a)), (''max_effects'', JNum (max_effects a))]"

subsection \<open>Sorted search and stable sorting\<close>

lemma find_sort_key_min:
  assumes "find P (sort_key f xs) = Some x"
  shows "x \<in> set xs \<and> P x \<and> (\<forall>y \<in> set xs. P y \<longrightarrow> f x \<le> f y)"
proof -
  from assms obtain i where i: "i < length xs" "P (sort_key f xs ! i)" "x = sort_key f xs ! i"
    and least: "\<forall>j < i. \<not> P (sort_key f xs ! j)"
    by (auto simp: find_Some_iff)
  have "f x \<le> f y" if y: "y \<in> set xs" "P y" for y
  proof -
    from y(1) obtain j where j: "j < length xs" "y = sort_key f xs ! j"
      by (metis in_set_conv_nth length_sort set_sort)
    with least y(2) have "i \<le> j" by (metis not_le_imp_less)
    with j i show ?thesis
      using sorted_nth_mono [OF sorted_sort_key [of f xs], of i j] by simp
  qed
  moreover have "x \<in> set xs"
    using i by (metis length_sort nth_mem set_sort)
  ultimately show ?thesis using i by blast
qed

lemma find_None_set: "find P xs = None \<longleftrightarrow> (\<forall>x \<in> set xs. \<not> P x)"
  by (auto simp: find_None_iff)

lemma sort_key_mset_cong:
  assumes "mset xs = mset ys" "inj_on f (set xs)"
  shows "sort_key f xs = sort_key f ys"
proof (rule properties_for_sort_key)
  show "mset (sort_key f ys) = mset xs" using assms(1) by simp
  have inj: "inj_on f (set ys)" using assms by (metis set_mset_mset)
  show "filter (\<lambda>x. f k = f x) (sort_key f ys) = filter (\<lambda>x. f k = f x) xs"
    if "k \<in> set (sort_key f ys)" for k
  proof -
    from that have "k \<in> set ys" by simp
    then have eqs: "\<And>x. x \<in> set ys \<Longrightarrow> (f k = f x) = (x = k)"
      using inj by (auto dest: inj_onD)
    have 1: "filter (\<lambda>x. f k = f x) (sort_key f ys) = filter (\<lambda>x. x = k) (sort_key f ys)"
      by (rule filter_cong) (auto simp: eqs)
    have 2: "filter (\<lambda>x. f k = f x) xs = filter (\<lambda>x. x = k) xs"
      by (rule filter_cong) (use eqs assms(1) in \<open>auto dest: mset_eq_setD\<close>)
    have 3: "filter (\<lambda>x. x = k) zs = replicate (count (mset zs) k) k" for zs
      by (induction zs) auto
    show ?thesis unfolding 1 2 3 using assms(1) by simp
  qed
qed simp

subsection \<open>Normalised rules\<close>

lemma index_of_Some: "index_of xs x = Some i \<Longrightarrow> i < length xs \<and> xs ! i = x"
  by (induction xs arbitrary: i) (auto split: if_splits)

lemma normalizeRule_sound:
  assumes "normalizeRule ir = Inr r"
  shows "js_get (snd ir) ''decision'' = JStr (rule_decision r)"
    and "js_get (snd ir) ''id'' = JStr (rule_id r)"
    and "rule_decision r = ''allow'' \<Longrightarrow> rule_stage r = ''allow''"
    and "rule_decision r \<in> set DECISIONS"
proof -
  from assms have d: "one_of DECISIONS (js_get (snd ir) ''decision'')"
      "rule_decision r = js_text (js_get (snd ir) ''decision'')"
    and i: "bounded_text 256 (js_get (snd ir) ''id'')" "rule_id r = js_text (js_get (snd ir) ''id'')"
    and s: "one_of RULE_STAGES (js_get (snd ir) ''stage'')"
      "rule_stage r = js_text (js_get (snd ir) ''stage'')"
    and ok: "fixed_decision_ok (rule_stage r) (rule_decision r)"
      "protective_decision_ok (rule_stage r) (rule_decision r)"
    by (auto simp: normalizeRule_def Let_def normalizeDecision_def split: if_splits)
  show "js_get (snd ir) ''decision'' = JStr (rule_decision r)"
    using d by (cases "js_get (snd ir) ''decision''") (auto simp: one_of_def)
  show "js_get (snd ir) ''id'' = JStr (rule_id r)"
    using i by (cases "js_get (snd ir) ''id''") (auto simp: bounded_text_def)
  show "rule_decision r \<in> set DECISIONS"
    using d by (auto simp: one_of_def)
  show "rule_stage r = ''allow''" if "rule_decision r = ''allow''"
  proof -
    have "rule_stage r \<in> set RULE_STAGES" using s by (auto simp: one_of_def)
    with that ok show ?thesis
      by (auto simp: RULE_STAGES_def fixed_decision_ok_def protective_decision_ok_def)
  qed
qed

lemma normalizeRule_index: "normalizeRule (i, v) = Inr r \<Longrightarrow> normalizeRule (j, v) = Inr r"
  by (auto simp: normalizeRule_def Let_def assertRecord_def)

definition rule_says :: "js list \<Rightarrow> string \<Rightarrow> bool" where
  "rule_says rs d \<longleftrightarrow> (\<exists>r \<in> set rs. js_get r ''decision'' = JStr d)"

lemma set_snd_enumerate: "snd ` set (enumerate n rs) = set rs"
  by (metis list.set_map map_snd_enumerate)

lemma map_res_enumerate_says:
  assumes "map_res normalizeRule (enumerate 0 rs) = Inr ns"
  shows "rule_says rs d \<longleftrightarrow> (\<exists>r \<in> set ns. rule_decision r = d)"
proof -
  have l: "list_all2 (\<lambda>x y. normalizeRule x = Inr y) (enumerate 0 rs) ns"
    using assms by (simp add: map_res_Inr_iff)
  have "list_all2 (\<lambda>x y. js_get (snd x) ''decision'' = JStr (rule_decision y)) (enumerate 0 rs) ns"
    using l by (rule list_all2_mono) (auto dest: normalizeRule_sound)
  then have "(\<exists>x \<in> set (enumerate 0 rs). js_get (snd x) ''decision'' = JStr d) \<longleftrightarrow>
      (\<exists>r \<in> set ns. rule_decision r = d)"
    by (induction rule: list_all2_induct) auto
  moreover have "rule_says rs d \<longleftrightarrow> (\<exists>x \<in> set (enumerate 0 rs). js_get (snd x) ''decision'' = JStr d)"
    unfolding rule_says_def set_snd_enumerate [of 0 rs, symmetric] by auto
  ultimately show ?thesis by simp
qed

lemma evaluate_Inr:
  assumes "evaluatePermissionLattice collate (JArr rs) mode cb = Inr res"
  obtains ns where "map_res normalizeRule (enumerate 0 rs) = Inr ns"
    "mode \<in> set EXECUTION_MODES" "distinct (map rule_id ns)"
    "apply_callback (base_decision (order_rules collate ns) mode)
       (deciding_rule (order_rules collate ns)) (base_trace (order_rules collate ns) mode) cb = Inr res"
  using assms
  by (auto simp: evaluatePermissionLattice_def Let_def length_uniq_eq_iff
      length_uniq_eq_iff [of "map rule_id _", simplified] split: if_splits)

lemma apply_callback_allowed:
  "apply_callback d r t cb = Inr res \<Longrightarrow>
     dispatch_allowed res \<longleftrightarrow> d = ''allow'' \<and>
       (cb = NoCallback \<or> cb = Returns (JStr ''abstain'') \<or> cb = Returns (JStr ''allow''))"
  by (cases cb)
    (auto simp: apply_callback_def finish_lattice_def normalizeDecision_def one_of_def Let_def
       split: if_splits elim!: is_str.elims)

lemma base_decision_allow_iff:
  assumes "map_res normalizeRule (enumerate 0 rs) = Inr ns"
  shows "base_decision (order_rules collate ns) mode = ''allow'' \<longleftrightarrow>
     \<not> rule_says rs ''deny'' \<and> \<not> rule_says rs ''ask'' \<and> mode \<noteq> ''plan'' \<and>
     (mode = ''bypass'' \<or> rule_says rs ''allow'')"
proof -
  have stage: "rule_stage r = ''allow''" if "r \<in> set ns" "rule_decision r = ''allow''" for r
    using map_res_set [OF assms that(1)] that(2) by (auto dest: normalizeRule_sound(3))
  show ?thesis
    unfolding map_res_enumerate_says [OF assms]
    by (auto simp: base_decision_def first_deny_def first_ask_def first_allow_def order_rules_def
        find_None_set mode_decision_def dest: stage)
qed

text \<open>
  C9. A governed dispatch is allowed exactly when no rule of any source denies or asks, the mode
  is not \<open>plan\<close>, an allow rule or the bypass mode grants it, and the provider callback, if
  present, abstains or allows. In particular neither the bypass mode nor a callback overrides a
  deny or an ask.
\<close>

theorem lattice_dispatch_iff:
  assumes "evaluatePermissionLattice collate (JArr rs) mode cb = Inr res"
  shows "dispatch_allowed res \<longleftrightarrow>
     \<not> rule_says rs ''deny'' \<and> \<not> rule_says rs ''ask'' \<and> mode \<noteq> ''plan'' \<and>
     (mode = ''bypass'' \<or> rule_says rs ''allow'') \<and>
     (cb = NoCallback \<or> cb = Returns (JStr ''abstain'') \<or> cb = Returns (JStr ''allow''))"
  using assms
  by (elim evaluate_Inr) (auto simp: apply_callback_allowed base_decision_allow_iff)

definition demo_rules :: "js list" where
  "demo_rules =
     [JObj [(''id'', JStr ''r1''), (''source'', JStr ''project''), (''stage'', JStr ''allow''),
            (''decision'', JStr ''allow'')],
      JObj [(''id'', JStr ''r2''), (''source'', JStr ''user''), (''stage'', JStr ''deny''),
            (''decision'', JStr ''deny'')],
      JObj [(''id'', JStr ''r3''), (''source'', JStr ''enterprise''), (''stage'', JStr ''deny''),
            (''decision'', JStr ''deny'')]]"

definition demo_lattice :: "string \<Rightarrow> lattice_result res" where
  "demo_lattice mode = evaluatePermissionLattice id (JArr demo_rules) mode NoCallback"

lemma demo_lattice_Inr: "isl (demo_lattice ''bypass'') = False"
  by code_simp

theorem lattice_dispatch_iff_witness:
  "\<exists>res. evaluatePermissionLattice id (JArr demo_rules) ''bypass'' NoCallback = Inr res \<and>
     \<not> dispatch_allowed res"
proof -
  obtain res where r: "evaluatePermissionLattice id (JArr demo_rules) ''bypass'' NoCallback = Inr res"
    using demo_lattice_Inr unfolding demo_lattice_def
    by (cases "evaluatePermissionLattice id (JArr demo_rules) ''bypass'' NoCallback") auto
  have "rule_says demo_rules ''deny''"
    by (simp add: rule_says_def demo_rules_def js_get_def)
  with lattice_dispatch_iff [OF r] r show ?thesis by auto
qed

text \<open>
  A deny from any source wins: the decision is \<open>deny\<close>, and the deciding rule is a
  denying rule that no other denying rule precedes in the order of stage, then source
  precedence, then collated identifier.
\<close>

theorem lattice_deny_wins:
  assumes "evaluatePermissionLattice collate (JArr rs) mode cb = Inr res"
    and "map_res normalizeRule (enumerate 0 rs) = Inr ns"
    and "rule_says rs ''deny''"
  shows "lr_decision res = ''deny'' \<and>
     (\<exists>r \<in> set ns. deciding_rule_id res = Some (rule_id r) \<and> rule_decision r = ''deny'' \<and>
        (\<forall>r' \<in> set ns. rule_decision r' = ''deny'' \<longrightarrow> rule_order collate r \<le> rule_order collate r'))"
proof -
  have "\<exists>r \<in> set ns. rule_decision r = ''deny''"
    using assms(3) map_res_enumerate_says [OF assms(2)] by simp
  then obtain r where r: "first_deny (order_rules collate ns) = Some r"
    by (cases "first_deny (order_rules collate ns)")
      (auto simp: first_deny_def order_rules_def find_None_set)
  then have min: "r \<in> set ns" "rule_decision r = ''deny''"
      "\<forall>r' \<in> set ns. rule_decision r' = ''deny'' \<longrightarrow> rule_order collate r \<le> rule_order collate r'"
    unfolding first_deny_def order_rules_def by (auto dest: find_sort_key_min)
  from assms(1,2) have "apply_callback (base_decision (order_rules collate ns) mode)
      (deciding_rule (order_rules collate ns)) (base_trace (order_rules collate ns) mode) cb = Inr res"
    by (elim evaluate_Inr) simp
  then have "res = finish_lattice ''deny'' (Some r) (base_trace (order_rules collate ns) mode)"
    using r by (simp add: apply_callback_def base_decision_def deciding_rule_def)
  with min show ?thesis by (auto simp: finish_lattice_def)
qed

definition demo_normalized :: "policy_rule list res" where
  "demo_normalized = map_res normalizeRule (enumerate 0 demo_rules)"

theorem lattice_deny_wins_witness:
  "\<exists>res. evaluatePermissionLattice id (JArr demo_rules) ''bypass'' NoCallback = Inr res \<and>
     lr_decision res = ''deny'' \<and> deciding_rule_id res \<noteq> None"
proof -
  obtain res where r: "evaluatePermissionLattice id (JArr demo_rules) ''bypass'' NoCallback = Inr res"
    using demo_lattice_Inr unfolding demo_lattice_def
    by (cases "evaluatePermissionLattice id (JArr demo_rules) ''bypass'' NoCallback") auto
  then obtain ns where n: "map_res normalizeRule (enumerate 0 demo_rules) = Inr ns"
    by (elim evaluate_Inr)
  have "rule_says demo_rules ''deny''"
    by (simp add: rule_says_def demo_rules_def js_get_def)
  from lattice_deny_wins [OF r n this] r show ?thesis by auto
qed

lemma map_res_mset:
  assumes "map_res f xs = Inr ys" "mset xs = mset xs'"
  obtains ys' where "map_res f xs' = Inr ys'" "mset ys' = mset ys"
proof -
  define g where "g x = projr (f x)" for x
  have fg: "f x = Inr (g x)" if "x \<in> set xs" for x
  proof -
    have "list_all2 (\<lambda>x y. f x = Inr y) xs ys" using assms(1) by (simp add: map_res_Inr_iff)
    then show ?thesis using that unfolding g_def by (induction rule: list_all2_induct) auto
  qed
  have "ys = map g xs"
    using assms(1) map_res_all_Inr [of xs f g] fg by simp
  moreover have "map_res f xs' = Inr (map g xs')"
    using fg mset_eq_setD [OF assms(2)] by (intro map_res_all_Inr) simp
  ultimately show ?thesis using that assms(2) by (metis mset_map)
qed

lemma map_res_enumerate_iff:
  "map_res normalizeRule (enumerate n rs) = Inr ns \<longleftrightarrow> map_res (\<lambda>v. normalizeRule (0, v)) rs = Inr ns"
proof (induction rs arbitrary: n ns)
  case (Cons r rs)
  have eq: "normalizeRule (n, r) = Inr x \<longleftrightarrow> normalizeRule (0, r) = Inr x" for x
    using normalizeRule_index by blast
  show ?case
    unfolding map_res_Inr_iff enumerate_simps list_all2_Cons1
    using Cons.IH by (simp add: eq map_res_Inr_iff)
qed simp

lemma inj_rule_order:
  assumes "inj collate" "distinct (map rule_id ns)"
  shows "inj_on (rule_order collate) (set ns)"
proof (rule inj_onI)
  fix x y
  assume xy: "x \<in> set ns" "y \<in> set ns" and "rule_order collate x = rule_order collate y"
  then have "rule_id x = rule_id y"
    using assms(1) by (simp add: rule_order_def inj_eq)
  with xy assms(2) show "x = y"
    unfolding distinct_map by (blast dest: inj_onD)
qed

text \<open>
  The outcome of an evaluation does not depend on the order in which the rules are supplied:
  any permutation of the rules that evaluates gives the same decision, deciding rule and trace.
\<close>

theorem lattice_order_independent:
  assumes "evaluatePermissionLattice collate (JArr rs) mode cb = Inr res"
    and "mset rs = mset rs'" and "inj collate"
  shows "evaluatePermissionLattice collate (JArr rs') mode cb = Inr res"
proof -
  obtain ns where n: "map_res normalizeRule (enumerate 0 rs) = Inr ns" "mode \<in> set EXECUTION_MODES"
      "distinct (map rule_id ns)"
    and a: "apply_callback (base_decision (order_rules collate ns) mode)
       (deciding_rule (order_rules collate ns)) (base_trace (order_rules collate ns) mode) cb = Inr res"
    using assms(1) by (elim evaluate_Inr)
  from n(1) have "map_res (\<lambda>v. normalizeRule (0, v)) rs = Inr ns"
    by (simp add: map_res_enumerate_iff)
  from map_res_mset [OF this assms(2)]
  obtain ns' where n': "map_res (\<lambda>v. normalizeRule (0, v)) rs' = Inr ns'" "mset ns' = mset ns"
    by blast
  have d': "distinct (map rule_id ns')"
    using n(3) n'(2) by (metis mset_eq_imp_distinct_iff mset_map)
  have "order_rules collate ns = order_rules collate ns'"
    unfolding order_rules_def using n'(2) inj_rule_order [OF assms(3) n(3)]
    by (intro sort_key_mset_cong) simp_all
  moreover have "length (uniq (map rule_id ns')) = length ns'"
    using d' length_uniq_eq_iff [of "map rule_id ns'"] by simp
  ultimately show ?thesis
    using a n'(1) n(2) unfolding evaluatePermissionLattice_def
    by (simp add: map_res_enumerate_iff bind_res_simps Let_def)
qed

theorem lattice_order_independent_witness:
  "\<exists>res. evaluatePermissionLattice id (JArr (rev demo_rules)) ''bypass'' NoCallback = Inr res"
proof -
  obtain res where r: "evaluatePermissionLattice id (JArr demo_rules) ''bypass'' NoCallback = Inr res"
    using demo_lattice_Inr unfolding demo_lattice_def
    by (cases "evaluatePermissionLattice id (JArr demo_rules) ''bypass'' NoCallback") auto
  from lattice_order_independent [OF r, of "rev demo_rules"] show ?thesis by auto
qed

subsection \<open>Child authority never widens\<close>

lemma string_array_ok_strings_js [simp]:
  "string_array_ok (strings_js xs) \<longleftrightarrow> (\<forall>x \<in> set xs. x \<noteq> [] \<and> length x \<le> 1024)"
  by (auto simp: string_array_ok_def strings_js_def list_all_iff bounded_text_def)

lemma str_list_strings_js [simp]: "str_list (strings_js xs) = xs"
  by (simp add: str_list_def strings_js_def comp_def)

lemma authority_js_get [simp]:
  "js_get (authority_js a) ''capabilities'' = strings_js (capabilities a)"
  "js_get (authority_js a) ''max_effects'' = JNum (max_effects a)" "is_obj (authority_js a)"
  by (simp_all add: authority_js_def js_get_def)

lemma string_array_ok_items:
  "string_array_ok v \<Longrightarrow> x \<in> set (str_list v) \<Longrightarrow> x \<noteq> [] \<and> length x \<le> 1024"
  by (cases v) (auto simp: string_array_ok_def str_list_def list_all_iff bounded_text_def
      dest!: bspec elim!: is_text.elims)

lemma safe_nonneg_JNum: "safe_nonneg v \<longleftrightarrow> (\<exists>n. v = JNum n \<and> 0 \<le> n \<and> n \<le> max_safe)"
  by (cases v) auto

lemma derive_Inr:
  "deriveChildAuthority p r = Inr a \<longleftrightarrow>
     is_obj p \<and> is_obj r \<and> string_array_ok (js_get p ''capabilities'') \<and>
     string_array_ok (js_get r ''capabilities'') \<and>
     set (str_list (js_get r ''capabilities'')) \<subseteq> set (str_list (js_get p ''capabilities'')) \<and>
     safe_nonneg (js_get p ''max_effects'') \<and> safe_nonneg (js_get r ''max_effects'') \<and>
     int_of (js_get r ''max_effects'') \<le> int_of (js_get p ''max_effects'') \<and>
     a = \<lparr>capabilities = sort (uniq (str_list (js_get r ''capabilities''))),
          max_effects = int_of (js_get r ''max_effects'')\<rparr>"
  by (auto simp: deriveChildAuthority_def assertRecord_def assertStringArray_def Let_def
      filter_empty_conv split: if_splits)

text \<open>
  C36. Deriving authority down a chain never widens it: a grandchild derived from a derived child
  holds only capabilities of the original parent and no larger effect limit, and a derived
  authority can be derived again unchanged.
\<close>

theorem child_authority_chain:
  assumes "deriveChildAuthority parent req1 = Inr child"
    and "deriveChildAuthority (authority_js child) req2 = Inr grandchild"
  shows "set (capabilities grandchild) \<subseteq> set (str_list (js_get parent ''capabilities'')) \<and>
     max_effects grandchild \<le> int_of (js_get parent ''max_effects'') \<and> 0 \<le> max_effects grandchild \<and>
     sorted (capabilities grandchild) \<and> distinct (capabilities grandchild) \<and>
     deriveChildAuthority (authority_js child) (authority_js child) = Inr child"
proof -
  have "deriveChildAuthority (authority_js child) (authority_js child) = Inr child"
    using assms(1) unfolding derive_Inr
    by (auto simp: safe_nonneg_JNum sorted_sort_id dest: string_array_ok_items)
  moreover have "set (capabilities grandchild) \<subseteq> set (str_list (js_get parent ''capabilities''))"
    using assms unfolding derive_Inr by auto
  moreover have "max_effects grandchild \<le> int_of (js_get parent ''max_effects'')"
      "0 \<le> max_effects grandchild"
    using assms unfolding derive_Inr by (auto simp: safe_nonneg_JNum)
  moreover have "sorted (capabilities grandchild) \<and> distinct (capabilities grandchild)"
    using assms(2) unfolding derive_Inr by auto
  ultimately show ?thesis by blast
qed

definition demo_authority :: "string list \<Rightarrow> int \<Rightarrow> js" where
  "demo_authority cs n = authority_js \<lparr>capabilities = cs, max_effects = n\<rparr>"

theorem child_authority_chain_witness:
  "\<exists>child grandchild.
     deriveChildAuthority (demo_authority [''read'', ''write''] 5) (demo_authority [''read''] 3) = Inr child \<and>
     deriveChildAuthority (authority_js child) (demo_authority [''read''] 2) = Inr grandchild \<and>
     max_effects grandchild \<le> 5"
proof -
  have 1: "deriveChildAuthority (demo_authority [''read'', ''write''] 5) (demo_authority [''read''] 3) =
      Inr \<lparr>capabilities = [''read''], max_effects = 3\<rparr>"
    by (simp add: derive_Inr demo_authority_def max_safe_def)
  have 2: "deriveChildAuthority (authority_js \<lparr>capabilities = [''read''], max_effects = 3\<rparr>)
      (demo_authority [''read''] 2) = Inr \<lparr>capabilities = [''read''], max_effects = 2\<rparr>"
    by (simp add: derive_Inr demo_authority_def max_safe_def)
  show ?thesis
    using 1 2 child_authority_chain [OF 1 2] by (auto simp: demo_authority_def)
qed

subsection \<open>Configuration merge is restrictive\<close>

lemma num_le_trans:
  assumes "num_le a b" "num_le b c"
  shows "num_le a c"
proof -
  obtain m k n l p j where d: "dec_parts a = (m, k)" "dec_parts b = (n, l)" "dec_parts c = (p, j)"
    by (metis surj_pair)
  have 1: "m * 10 ^ l \<le> n * 10 ^ k" and 2: "n * 10 ^ j \<le> p * 10 ^ l"
    using assms d by (simp_all add: num_le_def)
  have "(m * 10 ^ j) * 10 ^ l \<le> (n * 10 ^ j) * 10 ^ k"
    using mult_right_mono [OF 1, of "10 ^ j"] by (simp add: mult.commute mult.left_commute)
  also have "\<dots> \<le> (p * 10 ^ k) * 10 ^ l"
    using mult_right_mono [OF 2, of "10 ^ k"] by (simp add: mult.commute mult.left_commute)
  finally show ?thesis
    using d by (simp add: num_le_def)
qed

lemma num_le_refl [simp]: "num_le a a"
  by (simp add: num_le_def)

lemma num_le_total: "num_le a b \<or> num_le b a"
  by (simp add: num_le_def) linarith

lemma min_num_lower: "x \<in> set xs \<Longrightarrow> num_le (min_num xs) x"
proof (induction xs rule: min_num.induct)
  case (3 x' y ys)
  show ?case
  proof (cases "x = x'")
    case True
    then show ?thesis using num_le_total [of x' "min_num (y # ys)"] by (auto simp: Let_def)
  next
    case False
    with 3 have "num_le (min_num (y # ys)) x" by simp
    then show ?thesis using num_le_trans by (auto simp: Let_def)
  qed
qed simp_all

lemma normalize_entry_sound:
  assumes "normalize_entry ie = Inr e"
  shows "js_get (snd ie) ''key'' = JStr (ce_key e)" "js_get (snd ie) ''source'' = JStr (ce_source e)"
    "ce_value e = js_get (snd ie) ''value''"
    "js_truthy (js_get (snd ie) ''kind'') \<Longrightarrow> ce_kind e = js_get (snd ie) ''kind''"
    "index_of SOURCE_PRECEDENCE (ce_source e) = Some (ce_rank e)"
  using assms
  by (auto simp: normalize_entry_def Let_def bounded_text_def normalizeSource_def
      elim!: is_text.elims is_str.elims split: option.splits if_splits)

lemma set_candidates_of [simp]: "set (candidates_of es k) = {e \<in> set es. ce_key e = k}"
  by (simp add: candidates_of_def)

lemma uniform_kind:
  assumes "length (uniq (map ce_kind cs)) = 1" "e \<in> set cs"
  shows "ce_kind (hd cs) = ce_kind e"
proof -
  obtain k where "uniq (map ce_kind cs) = [k]"
    using assms(1) by (metis One_nat_def Suc_length_conv length_0_conv)
  then have "ce_kind ` set cs = {k}"
    by (metis list.set(1) list.set(2) list.set_map set_uniq)
  moreover have "hd cs \<in> set cs" using assms(2) by (cases cs) auto
  ultimately show ?thesis using assms(2) by (metis imageI singletonD)
qed

lemma resolve_key_Inr:
  assumes "resolve_key es key = Inr (k, v, src)"
  shows "k = key" "merge_candidates key (candidates_of es key) = Inr v"
    "src = map ce_source (candidates_of es key)"
    "e \<in> set es \<Longrightarrow> ce_key e = key \<Longrightarrow> ce_kind (hd (candidates_of es key)) = ce_kind e"
  using assms uniform_kind [of "candidates_of es key" e]
  by (auto simp: resolve_key_def Let_def split: if_splits)

definition restricts :: "js \<Rightarrow> js \<Rightarrow> js \<Rightarrow> bool" where
  "restricts kind v w \<longleftrightarrow>
     (kind = JStr ''deny_union'' \<longrightarrow> set (str_list w) \<subseteq> set (str_list v)) \<and>
     (kind = JStr ''allow_intersection'' \<longrightarrow> set (str_list v) \<subseteq> set (str_list w)) \<and>
     (kind = JStr ''limit_min'' \<longrightarrow> num_le v w)"

lemma merge_restricts:
  assumes "merge_candidates key cs = Inr v" "e \<in> set cs" "ce_kind (hd cs) = ce_kind e"
  shows "restricts (ce_kind e) v (ce_value e)"
  using assms
  by (auto simp: restricts_def merge_candidates_def Let_def list_all_iff min_num_lower split: if_splits)

lemma resolveConfiguration_Inr:
  assumes "resolveConfiguration (JArr es) = Inr out" "(k, v, src) \<in> set out"
  obtains ordered where "map_res normalize_entry (enumerate 0 es) = Inr ordered"
    "resolve_key ordered k = Inr (k, v, src)"
proof -
  obtain ordered where o: "map_res normalize_entry (enumerate 0 es) = Inr ordered"
    and m: "map_res (resolve_key ordered) (uniq (map ce_key ordered)) = Inr out"
    using assms(1) by (auto simp: resolveConfiguration_def split: if_splits)
  from map_res_set [OF m assms(2)] obtain k' where "resolve_key ordered k' = Inr (k, v, src)"
    by blast
  with resolve_key_Inr(1) [OF this] o that show ?thesis by simp
qed

lemma normalized_member:
  assumes "map_res normalize_entry (enumerate 0 es) = Inr ordered" "e \<in> set es"
  obtains i n where "n \<in> set ordered" "normalize_entry (i, e) = Inr n"
proof -
  obtain x where x: "x \<in> set (enumerate 0 es)" "snd x = e"
    using assms(2) set_snd_enumerate [of 0 es] by (metis imageE)
  have "list_all2 (\<lambda>x y. normalize_entry x = Inr y) (enumerate 0 es) ordered"
    using assms(1) by (simp add: map_res_Inr_iff)
  then obtain n where "n \<in> set ordered" "normalize_entry x = Inr n"
    using x(1) by (induction rule: list_all2_induct) auto
  with x(2) that show ?thesis by (metis prod.collapse)
qed

text \<open>
  Merging configuration never loses a restriction of any source: for a key merged by
  \<open>deny_union\<close> every entry's denials are in the result, by \<open>allow_intersection\<close> the
  result is within every entry's list, and by \<open>limit_min\<close> the result is at most every
  entry's limit, whatever the precedence of the sources.
\<close>

theorem configuration_restricts:
  assumes "resolveConfiguration (JArr es) = Inr out" and "(k, v, src) \<in> set out"
    and "e \<in> set es" and "js_get e ''key'' = JStr k" and "js_truthy (js_get e ''kind'')"
  shows "restricts (js_get e ''kind'') v (js_get e ''value'')"
proof -
  obtain ordered where o: "map_res normalize_entry (enumerate 0 es) = Inr ordered"
    and r: "resolve_key ordered k = Inr (k, v, src)"
    using assms(1,2) by (elim resolveConfiguration_Inr)
  obtain i n where n: "n \<in> set ordered" "normalize_entry (i, e) = Inr n"
    using normalized_member [OF o assms(3)] by blast
  have key: "ce_key n = k" and kind: "ce_kind n = js_get e ''kind''" and val: "ce_value n = js_get e ''value''"
    using normalize_entry_sound [OF n(2)] assms(4,5) by auto
  have "restricts (ce_kind n) v (ce_value n)"
    using resolve_key_Inr(2) [OF r] resolve_key_Inr(4) [OF r, of n] n(1) key by (intro merge_restricts) auto
  then show ?thesis using kind val by simp
qed

definition demo_entry :: "string \<Rightarrow> int \<Rightarrow> js" where
  "demo_entry src n = JObj [(''key'', JStr ''limit''), (''source'', JStr src),
     (''kind'', JStr ''limit_min''), (''value'', JNum n)]"

definition demo_entries :: "js list" where
  "demo_entries = [demo_entry ''enterprise'' 9, demo_entry ''user'' 4]"

lemma demo_entries_resolve:
  "resolveConfiguration (JArr demo_entries) = Inr [(''limit'', JNum 4, [''enterprise'', ''user''])]"
  by code_simp

theorem configuration_restricts_witness:
  "restricts (JStr ''limit_min'') (JNum 4) (JNum 9) \<and>
   resolveConfiguration (JArr demo_entries) = Inr [(''limit'', JNum 4, [''enterprise'', ''user''])]"
  using configuration_restricts [where es = demo_entries and k = "''limit''" and v = "JNum 4"
      and src = "[''enterprise'', ''user'']" and e = "demo_entry ''enterprise'' 9",
      OF demo_entries_resolve] demo_entries_resolve
  by (simp add: demo_entries_def demo_entry_def js_get_def)

text \<open>
  For a key merged by \<open>replace\<close> the value is that of an entry whose source has the
  highest precedence among the entries of the key.
\<close>

theorem configuration_replace_highest:
  assumes "resolveConfiguration (JArr es) = Inr out" and "(k, v, src) \<in> set out"
    and "e \<in> set es" and "js_get e ''key'' = JStr k" and "js_get e ''kind'' = JStr ''replace''"
  shows "\<exists>w \<in> set es. js_get w ''key'' = JStr k \<and> v = js_get w ''value'' \<and>
     (\<forall>i j. index_of SOURCE_PRECEDENCE (js_text (js_get e ''source'')) = Some i \<longrightarrow>
            index_of SOURCE_PRECEDENCE (js_text (js_get w ''source'')) = Some j \<longrightarrow> i \<le> j)"
proof -
  obtain ordered where o: "map_res normalize_entry (enumerate 0 es) = Inr ordered"
    and r: "resolve_key ordered k = Inr (k, v, src)"
    using assms(1,2) by (elim resolveConfiguration_Inr)
  obtain i n where n: "n \<in> set ordered" "normalize_entry (i, e) = Inr n"
    using normalized_member [OF o assms(3)] by blast
  have key: "ce_key n = k" and kind: "ce_kind n = JStr ''replace''"
    using normalize_entry_sound [OF n(2)] assms(4,5) by auto
  define h where "h = hd (candidates_of ordered k)"
  have ne: "candidates_of ordered k \<noteq> []"
    using n(1) key set_candidates_of [of ordered k] by fastforce
  have hk: "ce_kind h = JStr ''replace''" and hm: "merge_candidates k (candidates_of ordered k) = Inr v"
    using resolve_key_Inr(2) [OF r] resolve_key_Inr(4) [OF r, of n] n(1) key kind by (auto simp: h_def)
  then have v: "v = ce_value h"
    by (auto simp: merge_candidates_def h_def Let_def structuredClone_def split: if_splits)
  have h_in: "h \<in> set (candidates_of ordered k)" unfolding h_def using ne by (rule hd_in_set)
  then have h: "h \<in> set ordered" "ce_key h = k" by auto
  have "sorted (map (\<lambda>e. - int (ce_rank e)) (candidates_of ordered k))"
    by (simp add: candidates_of_def)
  moreover have "n \<in> set (candidates_of ordered k)"
    using n(1) key by simp
  ultimately have rank: "ce_rank n \<le> ce_rank h"
    using ne unfolding h_def by (cases "candidates_of ordered k") auto
  obtain x where x: "x \<in> set (enumerate 0 es)" "normalize_entry x = Inr h"
    using map_res_set [OF o h(1)] by blast
  have "snd x \<in> set es" using x(1) set_snd_enumerate [of 0 es] by blast
  with normalize_entry_sound [OF x(2)] normalize_entry_sound [OF n(2)] rank h v show ?thesis
    by (intro bexI [of _ "snd x"]) auto
qed

definition demo_replace :: "js list" where
  "demo_replace =
     [JObj [(''key'', JStr ''k''), (''source'', JStr ''user''), (''kind'', JStr ''replace''), (''value'', JNum 1)],
      JObj [(''key'', JStr ''k''), (''source'', JStr ''managed''), (''kind'', JStr ''replace''), (''value'', JNum 2)]]"

lemma demo_replace_resolve:
  "resolveConfiguration (JArr demo_replace) = Inr [(''k'', JNum 2, [''managed'', ''user''])]"
  by code_simp

theorem configuration_replace_highest_witness:
  "\<exists>w \<in> set demo_replace. js_get w ''key'' = JStr ''k'' \<and> JNum 2 = js_get w ''value''"
  using configuration_replace_highest [where es = demo_replace and k = "''k''" and v = "JNum 2"
      and src = "[''managed'', ''user'']" and e = "demo_replace ! 0", OF demo_replace_resolve]
  by (auto simp: demo_replace_def js_get_def)

end
