(* ===== verification/Envelope.thy ===== *)
theory Envelope
  imports Prelude
begin

text \<open>
  The canonical result envelope of governed execution
  (\<open>packages/governed-execution/canonical-envelope.js\<close>): how a result or a thrown value
  becomes an envelope, and the structural check every envelope passes before it is handed on.
\<close>

subsection \<open>Thrown values\<close>

text \<open>
  What a \<open>catch\<close> may receive: an \<open>Error\<close> object with its name and its further properties, the message
  among them, or any other value. Objects here have no \<open>toString\<close> or \<open>valueOf\<close> of their own.
\<close>

datatype thrown = TErr js fields | TVal js

fun thrown_get :: "thrown \<Rightarrow> string \<Rightarrow> js" where
  "thrown_get (TErr n fs) k = (if k = ''name'' then n else js_get (JObj fs) k)"
| "thrown_get (TVal v) k = js_get v k"

definition nil_thrown :: "thrown \<Rightarrow> bool" where
  "nil_thrown t \<longleftrightarrow> t = TVal JUndef \<or> t = TVal JNull"

text \<open>\<open>String(error)\<close>: an \<open>Error\<close> prints its name, by default \<open>Error\<close>, and its message.\<close>

definition show_or :: "string \<Rightarrow> js \<Rightarrow> string" where
  "show_or absent v = (if v = JUndef then absent else js_show v)"

fun string_of_thrown :: "thrown \<Rightarrow> string" where
  "string_of_thrown (TErr n fs) =
     (let name = show_or ''Error'' n; message = show_or [] (js_get (JObj fs) ''message'') in
      if name = [] then message else if message = [] then name else name @ '': '' @ message)"
| "string_of_thrown (TVal v) = js_show v"

definition thrown_of :: "jserr \<Rightarrow> thrown" where
  "thrown_of e = TErr (JStr ''GovernedExecutionError'')
     [(''code'', JStr (err_code e)), (''message'', JStr (err_message e)), (''retryable'', JBool (err_retryable e))]"

lemma thrown_get_thrown_of [simp]:
  "thrown_get (thrown_of e) ''code'' = JStr (err_code e)" "thrown_get (thrown_of e) ''message'' = JStr (err_message e)"
  "thrown_get (thrown_of e) ''retryable'' = JBool (err_retryable e)"
  by (simp_all add: thrown_of_def js_get_JObj)

lemma thrown_of_not_nil [simp]: "\<not> nil_thrown (thrown_of e)"
  by (simp add: nil_thrown_def thrown_of_def)

subsection \<open>Envelopes\<close>

record envelope =
  env_ok :: bool
  env_data :: js
  env_error :: js
  env_evidence :: "string list"
  env_warnings :: "string list"

definition executionEnvelope :: "bool \<Rightarrow> js \<Rightarrow> js \<Rightarrow> string list \<Rightarrow> string list \<Rightarrow> envelope" where
  "executionEnvelope ok data error evidence warnings =
     \<lparr>env_ok = ok, env_data = data, env_error = error,
      env_evidence = uniq evidence, env_warnings = uniq warnings\<rparr>"

definition failureEnvelope ::
    "thrown \<Rightarrow> string option \<Rightarrow> string list \<Rightarrow> string list \<Rightarrow> envelope" where
  "failureEnvelope error operationId evidence warnings =
     (let code = thrown_get error ''code'';
          message = thrown_get error ''message'';
          fallbackMessage = (if nil_thrown error then ''Execution failed'' else string_of_thrown error)
      in executionEnvelope False JNull
           (JObj [(''code'', if is_text code then code else JStr ''EXECUTION_FAILED''),
                  (''message'', if is_text message then message else JStr fallbackMessage),
                  (''operation_id'', case operationId of None \<Rightarrow> JNull | Some i \<Rightarrow> JStr i),
                  (''retryable'', JBool (js_truthy (thrown_get error ''retryable'')))])
           evidence warnings)"

definition env_js :: "envelope \<Rightarrow> js" where
  "env_js e = JObj
     [(''schema_version'', JNum 1), (''ok'', JBool (env_ok e)), (''data'', env_data e),
      (''error'', env_error e), (''evidence'', JArr (map JStr (env_evidence e))),
      (''warnings'', JArr (map JStr (env_warnings e)))]"

definition success_data :: "string \<Rightarrow> js \<Rightarrow> bool \<Rightarrow> js" where
  "success_data opid result replayed =
     JObj [(''operation_id'', JStr opid), (''result'', result), (''replayed'', JBool replayed)]"

subsection \<open>The structural check\<close>

definition join_nul :: "string list \<Rightarrow> string" where
  "join_nul ks = (case ks of [] \<Rightarrow> [] | k # ks' \<Rightarrow> k @ concat (map (\<lambda>x. CHR 0x00 # x) ks'))"

definition sorted_keys_are :: "js \<Rightarrow> string list \<Rightarrow> bool" where
  "sorted_keys_are v ks \<longleftrightarrow> join_nul (sort (js_keys v)) = join_nul ks"

definition distinct_strings :: "js \<Rightarrow> bool" where
  "distinct_strings v \<longleftrightarrow> is_str_array v \<and> length (uniq (js_items v)) = length (js_items v)"

definition envelope_error :: "string \<Rightarrow> jserr" where
  "envelope_error m = mk_err ''EXECUTION_ENVELOPE_INVALID'' m"

definition valid_success :: "js \<Rightarrow> bool" where
  "valid_success outcome \<longleftrightarrow>
     (let data = js_get outcome ''data'' in
      is_obj data \<and> sorted_keys_are data [''operation_id'', ''replayed'', ''result''] \<and>
      is_text (js_get data ''operation_id'') \<and> is_bool (js_get data ''replayed'') \<and>
      js_get outcome ''error'' = JNull)"

definition valid_failure :: "js \<Rightarrow> bool" where
  "valid_failure outcome \<longleftrightarrow>
     (let error = js_get outcome ''error'' in
      js_get outcome ''data'' = JNull \<and> is_obj error \<and>
      is_text (js_get error ''code'') \<and> is_text (js_get error ''message'') \<and>
      is_bool (js_get error ''retryable'') \<and>
      sorted_keys_are error [''code'', ''message'', ''operation_id'', ''retryable''] \<and>
      (js_get error ''operation_id'' = JNull \<or> is_text (js_get error ''operation_id'')))"

definition assertCanonicalEnvelope :: "js \<Rightarrow> js res" where
  "assertCanonicalEnvelope outcome =
     (if \<not> is_obj outcome then Inl (envelope_error ''Execution port returned an invalid envelope'')
      else if \<not> sorted_keys_are outcome
                [''data'', ''error'', ''evidence'', ''ok'', ''schema_version'', ''warnings'']
      then Inl (envelope_error ''Execution port returned a non-canonical envelope'')
      else if js_get outcome ''schema_version'' \<noteq> JNum 1 \<or> \<not> is_bool (js_get outcome ''ok'') \<or>
              \<not> distinct_strings (js_get outcome ''evidence'') \<or>
              \<not> distinct_strings (js_get outcome ''warnings'')
      then Inl (envelope_error ''Execution port returned an invalid envelope'')
      else if js_truthy (js_get outcome ''ok'') then
        (if valid_success outcome then Inr outcome
         else Inl (envelope_error ''Execution port returned an invalid success envelope''))
      else if valid_failure outcome then Inr outcome
      else Inl (envelope_error ''Execution port returned an invalid failure envelope''))"

subsection \<open>What the constructors produce\<close>

lemma distinct_strings_map_JStr [simp]: "distinct_strings (JArr (map JStr xs)) \<longleftrightarrow> distinct xs"
  using length_uniq_eq_iff [of "map JStr xs"]
  by (simp add: distinct_strings_def list_all_iff distinct_map inj_on_def)

lemma env_js_get [simp]:
  "js_get (env_js e) ''schema_version'' = JNum 1"
  "js_get (env_js e) ''ok'' = JBool (env_ok e)"
  "js_get (env_js e) ''data'' = env_data e"
  "js_get (env_js e) ''error'' = env_error e"
  "js_get (env_js e) ''evidence'' = JArr (map JStr (env_evidence e))"
  "js_get (env_js e) ''warnings'' = JArr (map JStr (env_warnings e))"
  by (simp_all add: env_js_def js_get_def)

lemma env_js_keys [simp]:
  "sorted_keys_are (env_js e)
     [''data'', ''error'', ''evidence'', ''ok'', ''schema_version'', ''warnings'']"
  by (simp add: sorted_keys_are_def env_js_def js_keys_def)

lemma is_obj_env_js [simp]: "is_obj (env_js e)"
  by (simp add: env_js_def)

lemma assertCanonicalEnvelope_env_js:
  "assertCanonicalEnvelope (env_js e) =
     (if \<not> distinct (env_evidence e) \<or> \<not> distinct (env_warnings e)
      then Inl (envelope_error ''Execution port returned an invalid envelope'')
      else if env_ok e then
        (if valid_success (env_js e) then Inr (env_js e)
         else Inl (envelope_error ''Execution port returned an invalid success envelope''))
      else if valid_failure (env_js e) then Inr (env_js e)
      else Inl (envelope_error ''Execution port returned an invalid failure envelope''))"
  by (simp add: assertCanonicalEnvelope_def)

lemma failureEnvelope_sel [simp]:
  "env_ok (failureEnvelope t i ev w) = False"
  "env_data (failureEnvelope t i ev w) = JNull"
  "env_evidence (failureEnvelope t i ev w) = uniq ev"
  "env_warnings (failureEnvelope t i ev w) = uniq w"
  by (simp_all add: failureEnvelope_def executionEnvelope_def Let_def)

definition failure_code :: "envelope \<Rightarrow> string" where
  "failure_code e = js_text (js_get (env_error e) ''code'')"

lemma failure_code_thrown_of [simp]:
  "err_code e \<noteq> [] \<Longrightarrow> failure_code (failureEnvelope (thrown_of e) i ev w) = err_code e"
  by (simp add: failure_code_def failureEnvelope_def executionEnvelope_def js_get_JObj Let_def)

definition failure_message :: "thrown \<Rightarrow> string" where
  "failure_message t =
     (if is_text (thrown_get t ''message'') then js_text (thrown_get t ''message'')
      else if nil_thrown t then ''Execution failed'' else string_of_thrown t)"

lemma failure_error:
  "env_error (failureEnvelope t i ev w) =
     JObj [(''code'', if is_text (thrown_get t ''code'') then thrown_get t ''code''
                      else JStr ''EXECUTION_FAILED''),
           (''message'', JStr (failure_message t)),
           (''operation_id'', case i of None \<Rightarrow> JNull | Some j \<Rightarrow> JStr j),
           (''retryable'', JBool (js_truthy (thrown_get t ''retryable'')))]"
  by (cases "thrown_get t ''message''")
    (auto simp: failureEnvelope_def executionEnvelope_def failure_message_def Let_def)

lemma failure_error_keys:
  "sorted_keys_are (JObj [(''code'', a), (''message'', b), (''operation_id'', c), (''retryable'', d)])
     [''code'', ''message'', ''operation_id'', ''retryable'']"
  by (simp add: sorted_keys_are_def js_keys_def)

lemma success_data_keys:
  "sorted_keys_are (JObj [(''operation_id'', a), (''result'', b), (''replayed'', c)])
     [''operation_id'', ''replayed'', ''result'']"
  by (simp add: sorted_keys_are_def js_keys_def)

lemma valid_failure_failureEnvelope:
  "valid_failure (env_js (failureEnvelope t i ev w)) \<longleftrightarrow> failure_message t \<noteq> [] \<and> i \<noteq> Some []"
  by (simp add: valid_failure_def failure_error failure_error_keys js_get_JObj Let_def
      split: option.split)

text \<open>What prints as the empty text: an empty string, and an array with nothing to print.\<close>

fun prints_empty :: "js \<Rightarrow> bool" where
  "prints_empty (JStr s) \<longleftrightarrow> s = []"
| "prints_empty (JArr xs) \<longleftrightarrow> xs = [] \<or> xs = [JUndef] \<or> xs = [JNull] \<or> (\<exists>x \<in> set xs. xs = [x] \<and> prints_empty x)"
| "prints_empty _ \<longleftrightarrow> False"

lemma dec_int_nonempty [simp]: "dec_int i \<noteq> []"
  by (simp add: dec_int_def)

lemma dec_frac_nonempty [simp]: "dec_frac m k \<noteq> []"
  by (simp add: dec_frac_def Let_def)

lemma js_show_empty_iff [simp]: "js_show v = [] \<longleftrightarrow> prints_empty v"
proof (induction v rule: prints_empty.induct)
  case (2 xs)
  then show ?case by (cases xs rule: js_show_items.cases) (auto simp: neq_Nil_conv)
qed simp_all

lemma js_show_items_empty_iff [simp]: "js_show_items xs = [] \<longleftrightarrow> prints_empty (JArr xs)"
  using js_show_empty_iff[of "JArr xs"] by (simp only: js_show.simps)

text \<open>The thrown values without a text for the message.\<close>

definition wordless :: "thrown \<Rightarrow> bool" where
  "wordless t \<longleftrightarrow>
     (case t of
        TErr name fs \<Rightarrow> prints_empty name \<and> (js_get (JObj fs) ''message'' = JUndef \<or> prints_empty (js_get (JObj fs) ''message''))
      | TVal v \<Rightarrow> prints_empty v)"

lemma failure_message_empty_iff: "failure_message t = [] \<longleftrightarrow> wordless t"
proof (cases t)
  case (TErr n fs)
  have "\<not> prints_empty m \<and> m \<noteq> JUndef \<and> js_text m \<noteq> []" if "is_text m" for m using that by (cases m) auto
  then show ?thesis
    by (auto simp: TErr failure_message_def wordless_def nil_thrown_def show_or_def Let_def split: if_splits)
next
  case (TVal v)
  have "is_obj v" if "is_text (js_get v ''message'')" using that by (cases v) (auto simp: js_get_def)
  moreover have "js_text m \<noteq> []" if "is_text m" for m using that by (cases m) auto
  ultimately show ?thesis
    by (cases v) (auto simp: TVal failure_message_def wordless_def nil_thrown_def)
qed

text \<open>
  The envelope built for a thrown value passes the canonical check exactly when the operation identifier is absent
  or not empty and the value has words: it is neither an empty string, nor an array that prints as nothing, nor an
  error whose name and message both print as nothing. So every failure reported with a governed error that has a
  message is canonical, while a thrown empty string or an empty array is not.
\<close>

theorem failure_envelope_canonical_iff:
  "(\<exists>v. assertCanonicalEnvelope (env_js (failureEnvelope t i ev w)) = Inr v) \<longleftrightarrow> \<not> wordless t \<and> i \<noteq> Some []"
  using failure_message_empty_iff[of t] by (simp add: assertCanonicalEnvelope_env_js valid_failure_failureEnvelope)

lemma governed_failure_canonical:
  "err_message e \<noteq> [] \<Longrightarrow> i \<noteq> Some [] \<Longrightarrow>
     assertCanonicalEnvelope (env_js (failureEnvelope (thrown_of e) i ev w)) =
       Inr (env_js (failureEnvelope (thrown_of e) i ev w))"
  by (simp add: assertCanonicalEnvelope_env_js valid_failure_failureEnvelope failure_message_def)

lemma success_canonical:
  "opid \<noteq> [] \<Longrightarrow>
     assertCanonicalEnvelope (env_js (executionEnvelope True (success_data opid r b) JNull ev w)) =
       Inr (env_js (executionEnvelope True (success_data opid r b) JNull ev w))"
  by (simp add: assertCanonicalEnvelope_env_js valid_success_def executionEnvelope_def
      success_data_def success_data_keys js_get_JObj Let_def)

end
