(* ===== verification/StrictJson.thy ===== *)
theory StrictJson
  imports Prelude "HOL-Library.Multiset"
begin

text \<open>
  Canonical and strict JSON, as the event registry, the event ledger, the approval store and the
  governed runtime each use it. A JSON text produced by \<open>stableJson\<close> is represented by the
  canonical value it denotes: the text determines the value and, keys being sorted, the value
  determines the text, so comparing texts is comparing canonical values, and \<open>JSON.parse\<close>
  of a stored text returns that value.
\<close>

subsection \<open>Canonical values\<close>

fun stableValue :: "js \<Rightarrow> js"
  and stable_items :: "js list \<Rightarrow> js list"
  and stable_fields :: "fields \<Rightarrow> fields" where
  "stableValue (JArr xs) = JArr (stable_items xs)"
| "stableValue (JObj fs) = JObj (sort_key fst (stable_fields fs))"
| "stableValue v = v"
| "stable_items [] = []"
| "stable_items (x # xs) = stableValue x # stable_items xs"
| "stable_fields [] = []"
| "stable_fields ((k, v) # fs) = (k, stableValue v) # stable_fields fs"

lemma stable_items_map: "stable_items xs = map stableValue xs"
  by (induction xs) auto

lemma stable_fields_map: "stable_fields fs = map (\<lambda>(k, v). (k, stableValue v)) fs"
  by (induction fs) auto

text \<open>Well-formed values: every object has distinct keys.\<close>

fun wf_js :: "js \<Rightarrow> bool"
  and wf_items :: "js list \<Rightarrow> bool"
  and wf_fields :: "fields \<Rightarrow> bool" where
  "wf_js (JArr xs) = wf_items xs"
| "wf_js (JObj fs) = (distinct (map fst fs) \<and> wf_fields fs)"
| "wf_js v = True"
| "wf_items [] = True"
| "wf_items (x # xs) = (wf_js x \<and> wf_items xs)"
| "wf_fields [] = True"
| "wf_fields ((k, v) # fs) = (wf_js v \<and> wf_fields fs)"

subsection \<open>Strict JSON\<close>

text \<open>
  \<open>assertStrictJson\<close>: only null, booleans, strings, finite numbers, arrays and plain objects.
  The error constructor is a parameter because every component throws its own class.
\<close>

fun strict_json :: "(string \<Rightarrow> jserr) \<Rightarrow> string \<Rightarrow> js \<Rightarrow> unit res"
  and strict_items :: "(string \<Rightarrow> jserr) \<Rightarrow> string \<Rightarrow> nat \<Rightarrow> js list \<Rightarrow> unit res"
  and strict_fields :: "(string \<Rightarrow> jserr) \<Rightarrow> string \<Rightarrow> fields \<Rightarrow> unit res" where
  "strict_json mk path JUndef = Inl (mk (path @ '' contains a non-JSON value''))"
| "strict_json mk path JFun = Inl (mk (path @ '' contains a non-JSON value''))"
| "strict_json mk path JNaN = Inl (mk (path @ '' contains a non-finite number''))"
| "strict_json mk path (JInf b) = Inl (mk (path @ '' contains a non-finite number''))"
| "strict_json mk path (JArr xs) = strict_items mk path 0 xs"
| "strict_json mk path (JObj fs) = strict_fields mk path fs"
| "strict_json mk path v = Inr ()"
| "strict_items mk path i [] = Inr ()"
| "strict_items mk path i (x # xs) =
     (case strict_json mk (path @ ''['' @ dec_nat i @ '']'') x of
        Inl e \<Rightarrow> Inl e | Inr _ \<Rightarrow> strict_items mk path (Suc i) xs)"
| "strict_fields mk path [] = Inr ()"
| "strict_fields mk path ((k, v) # fs) =
     (case strict_json mk (path @ ''.'' @ k) v of
        Inl e \<Rightarrow> Inl e | Inr _ \<Rightarrow> strict_fields mk path fs)"

fun is_strict :: "js \<Rightarrow> bool"
  and is_strict_items :: "js list \<Rightarrow> bool"
  and is_strict_fields :: "fields \<Rightarrow> bool" where
  "is_strict JUndef = False"
| "is_strict JFun = False"
| "is_strict JNaN = False"
| "is_strict (JInf b) = False"
| "is_strict (JArr xs) = is_strict_items xs"
| "is_strict (JObj fs) = is_strict_fields fs"
| "is_strict v = True"
| "is_strict_items [] = True"
| "is_strict_items (x # xs) = (is_strict x \<and> is_strict_items xs)"
| "is_strict_fields [] = True"
| "is_strict_fields ((k, v) # fs) = (is_strict v \<and> is_strict_fields fs)"

lemma strict_json_iff:
  "strict_json mk path v = Inr u \<longleftrightarrow> is_strict v"
  "strict_items mk path i xs = Inr u \<longleftrightarrow> is_strict_items xs"
  "strict_fields mk path fs = Inr u \<longleftrightarrow> is_strict_fields fs"
  by (induction mk path v and mk path i xs and mk path fs
      rule: strict_json_strict_items_strict_fields.induct)
    (auto split: sum.splits)

lemma is_strict_items_iff: "is_strict_items xs \<longleftrightarrow> (\<forall>x \<in> set xs. is_strict x)"
  by (induction xs) auto

lemma is_strict_fields_iff: "is_strict_fields fs \<longleftrightarrow> (\<forall>kv \<in> set fs. is_strict (snd kv))"
  by (induction fs) auto

lemma wf_items_iff: "wf_items xs \<longleftrightarrow> (\<forall>x \<in> set xs. wf_js x)"
  by (induction xs) auto

lemma wf_fields_iff: "wf_fields fs \<longleftrightarrow> (\<forall>kv \<in> set fs. wf_js (snd kv))"
  by (induction fs) auto

lemma stable_strict [simp]:
  "is_strict (stableValue v) \<longleftrightarrow> is_strict v"
  "is_strict_items (stable_items xs) \<longleftrightarrow> is_strict_items xs"
  "is_strict_fields (stable_fields fs) \<longleftrightarrow> is_strict_fields fs"
  by (induction v and xs and fs rule: stableValue_stable_items_stable_fields.induct)
    (auto simp: is_strict_fields_iff)

lemma keys_stable_fields [simp]: "map fst (stable_fields fs) = map fst fs"
  by (induction fs) auto

lemma stable_is_obj [simp]: "is_obj (stableValue v) = is_obj v"
  by (cases v) auto

lemma set_keys_stable [simp]: "set (js_keys (stableValue v)) = set (js_keys v)"
proof (cases v)
  case (JObj fs)
  have "fst ` set (stable_fields fs) = fst ` set fs"
    by (metis keys_stable_fields list.set_map)
  then show ?thesis by (simp add: js_keys_def JObj)
qed (simp_all add: js_keys_def)

lemma distinct_map_sort_key: "distinct (map fst (sort_key f xs)) \<longleftrightarrow> distinct (map fst xs)"
  by (metis mset_eq_imp_distinct_iff mset_map mset_sort)

lemma map_of_sort_key_fst:
  "distinct (map fst fs) \<Longrightarrow> map_of (sort_key f fs) = map_of fs"
  by (rule map_of_eqI) (auto simp: distinct_map_sort_key map_of_eq_Some_iff)

lemma map_of_stable_fields: "map_of (stable_fields fs) k = map_option stableValue (map_of fs k)"
  by (induction fs) auto

lemma js_get_stable_obj:
  "distinct (map fst fs) \<Longrightarrow> js_get (stableValue (JObj fs)) k = stableValue (js_get (JObj fs) k)"
  by (simp add: js_get_def map_of_sort_key_fst map_of_stable_fields split: option.split)

lemma js_get_stable:
  assumes "wf_js v"
  shows "js_get (stableValue v) k = stableValue (js_get v k)"
proof (cases v)
  case (JObj fs)
  with assms have "distinct (map fst (stable_fields fs))" by simp
  then show ?thesis
    by (auto simp: JObj js_get_def map_of_sort_key_fst map_of_stable_fields split: option.split)
qed (simp_all add: js_get_def)

lemma stable_idem [simp]:
  "stableValue (stableValue v) = stableValue v"
  "stable_items (stable_items xs) = stable_items xs"
  "stable_fields (stable_fields fs) = stable_fields fs"
proof (induction v and xs and fs rule: stableValue_stable_items_stable_fields.induct)
  case (2 fs)
  have "stable_fields (sort_key fst xs) = sort_key fst (stable_fields xs)" for xs
  proof (rule properties_for_sort_key [symmetric])
    show "mset (stable_fields (sort_key fst xs)) = mset (stable_fields xs)"
      by (simp add: stable_fields_map)
    show "sorted (map fst (stable_fields (sort_key fst xs)))" by simp
    show "filter (\<lambda>x. fst k = fst x) (stable_fields (sort_key fst xs)) =
        filter (\<lambda>x. fst k = fst x) (stable_fields xs)"
      if "k \<in> set (stable_fields (sort_key fst xs))" for k
      using sort_key_stable [where f = fst and k = "fst k" and xs = xs]
      by (simp add: stable_fields_map filter_map comp_def case_prod_beta eq_commute)
  qed
  with 2 show ?case by (simp add: sort_key_id_if_sorted)
qed auto

lemma stable_wf [simp]:
  "wf_js (stableValue v) \<longleftrightarrow> wf_js v"
  "wf_items (stable_items xs) \<longleftrightarrow> wf_items xs"
  "wf_fields (stable_fields fs) \<longleftrightarrow> wf_fields fs"
  by (induction v and xs and fs rule: stableValue_stable_items_stable_fields.induct)
    (auto simp: distinct_map_sort_key wf_fields_iff)

subsection \<open>Sensitive keys\<close>

definition lower :: "char \<Rightarrow> bool" where
  "lower c \<longleftrightarrow> CHR ''a'' \<le> c \<and> c \<le> CHR ''z''"

definition upper :: "char \<Rightarrow> bool" where
  "upper c \<longleftrightarrow> CHR ''A'' \<le> c \<and> c \<le> CHR ''Z''"

definition alnum :: "char \<Rightarrow> bool" where
  "alnum c \<longleftrightarrow> lower c \<or> upper c \<or> digit c"

fun split_camel :: "string \<Rightarrow> string" where
  "split_camel [] = []"
| "split_camel [a] = [a]"
| "split_camel (a # b # s) =
     a # (if (lower a \<or> digit a) \<and> upper b then ''_'' else []) @ split_camel (b # s)"

fun squash :: "bool \<Rightarrow> string \<Rightarrow> string" where
  "squash inrun [] = []"
| "squash inrun (c # s) =
     (if alnum c then c # squash False s
      else if inrun then squash True s else CHR ''_'' # squash True s)"

definition strip_underscores :: "string \<Rightarrow> string" where
  "strip_underscores s =
     rev (dropWhile (\<lambda>c. c = CHR ''_'') (rev (dropWhile (\<lambda>c. c = CHR ''_'') s)))"

definition to_lower :: "char \<Rightarrow> char" where
  "to_lower c = (if upper c then char_of (of_char c + 32 :: nat) else c)"

definition normalizeKey :: "string \<Rightarrow> string" where
  "normalizeKey key = map to_lower (strip_underscores (squash False (split_camel key)))"

definition ends_with :: "string \<Rightarrow> string \<Rightarrow> bool" where
  "ends_with s w \<longleftrightarrow> length w \<le> length s \<and> drop (length s - length w) s = w"

text \<open>The pattern \<open>(?:^|_)(?:credential|credentials|password|secret|token)$\<close>.\<close>

definition sensitive_suffix :: "string \<Rightarrow> bool" where
  "sensitive_suffix key \<longleftrightarrow>
     list_ex (\<lambda>w. key = w \<or> ends_with key (CHR ''_'' # w))
       [''credential'', ''credentials'', ''password'', ''secret'', ''token'']"

definition sensitive_key :: "string list \<Rightarrow> string \<Rightarrow> bool" where
  "sensitive_key keys key \<longleftrightarrow>
     normalizeKey key \<in> set keys \<or> sensitive_suffix (normalizeKey key)"

text \<open>A value in which no object, at any depth, has a sensitive key.\<close>

fun clean :: "string list \<Rightarrow> js \<Rightarrow> bool"
  and clean_items :: "string list \<Rightarrow> js list \<Rightarrow> bool"
  and clean_fields :: "string list \<Rightarrow> fields \<Rightarrow> bool" where
  "clean keys (JArr xs) = clean_items keys xs"
| "clean keys (JObj fs) = clean_fields keys fs"
| "clean keys v = True"
| "clean_items keys [] = True"
| "clean_items keys (x # xs) = (clean keys x \<and> clean_items keys xs)"
| "clean_fields keys [] = True"
| "clean_fields keys ((k, v) # fs) = (\<not> sensitive_key keys k \<and> clean keys v \<and> clean_fields keys fs)"

lemma clean_fields_iff:
  "clean_fields keys fs \<longleftrightarrow> (\<forall>kv \<in> set fs. \<not> sensitive_key keys (fst kv) \<and> clean keys (snd kv))"
  by (induction fs) auto

lemma stable_clean [simp]:
  "clean keys (stableValue v) \<longleftrightarrow> clean keys v"
  "clean_items keys (stable_items xs) \<longleftrightarrow> clean_items keys xs"
  "clean_fields keys (stable_fields fs) \<longleftrightarrow> clean_fields keys fs"
  by (induction v and xs and fs rule: stableValue_stable_items_stable_fields.induct)
    (auto simp: clean_fields_iff)

end
