(* ===== verification/EventRegistry.thy ===== *)
theory EventRegistry
  imports StrictJson
begin

text \<open>
  The fail-closed event registry of \<open>tools/lib/governed-execution/event-registry.js\<close>:
  registration of versioned payload schemas with declarative upcasters, the check of a new fact
  before it is appended, the upcasting read, and the registry of the execution lifecycle facts.
  The keys of \<open>versions\<close> and \<open>upcasters\<close> are the integers they denote; \<open>None\<close> is
  a key that denotes no integer. \<open>localeCompare\<close> compares the collation keys \<open>collate\<close>.
\<close>

subsection \<open>Errors and checks\<close>

definition schema_error :: "string \<Rightarrow> jserr" where
  "schema_error m = mk_err ''EXECUTION_EVENT_SCHEMA_INVALID'' m"

definition payload_error :: "string \<Rightarrow> jserr" where
  "payload_error m = mk_err ''EXECUTION_EVENT_PAYLOAD_INVALID'' m"

definition upcast_error :: "string \<Rightarrow> jserr" where
  "upcast_error m = mk_err ''EXECUTION_EVENT_UPCAST_INVALID'' m"

definition type_error :: jserr where
  "type_error = mk_err ''TypeError'' ''Cannot read properties of undefined''"

definition assertPlainObject :: "js \<Rightarrow> string \<Rightarrow> unit res" where
  "assertPlainObject v label = check_that (is_obj v) (schema_error (label @ '' must be an object''))"

definition registry_assertStrictJson :: "js \<Rightarrow> unit res" where
  "registry_assertStrictJson v = strict_json schema_error ''payload'' v"

definition canonicalClone :: "js \<Rightarrow> js res" where
  "canonicalClone v = bind_res (registry_assertStrictJson v) (\<lambda>_. Inr (stableValue v))"

definition or_else :: "js \<Rightarrow> js \<Rightarrow> js" where
  "or_else v d = (if js_truthy v then v else d)"

subsection \<open>Upcasters\<close>

record upcaster =
  up_rename :: "(string \<times> string) list"
  up_add :: fields
  up_remove :: "string list"

definition version_label :: "string \<Rightarrow> int \<Rightarrow> string" where
  "version_label eventType version = eventType @ '' v'' @ dec_int version"

definition normalizeUpcaster :: "string \<Rightarrow> int \<Rightarrow> js \<Rightarrow> upcaster res" where
  "normalizeUpcaster eventType version up =
     (let label = version_label eventType version;
          rename = or_else (js_get up ''rename'') (JObj []);
          add = or_else (js_get up ''add'') (JObj []);
          remove = or_else (js_get up ''remove'') (JArr [])
      in
      bind_res (assertPlainObject up (label @ '' upcaster'')) (\<lambda>_.
      bind_res (check_that (filter (\<lambda>k. k \<notin> {''add'', ''remove'', ''rename''}) (js_keys up) = [])
                  (upcast_error (''Unsupported upcaster operation for '' @ label))) (\<lambda>_.
      bind_res (assertPlainObject rename (label @ '' upcaster.rename'')) (\<lambda>_.
      bind_res (assertPlainObject add (label @ '' upcaster.add'')) (\<lambda>_.
      bind_res (check_that (case remove of JArr xs \<Rightarrow> list_all is_text xs | _ \<Rightarrow> False)
                  (upcast_error (''Invalid remove operation for '' @ label))) (\<lambda>_.
      bind_res (check_that (list_all (\<lambda>(from, to). from \<noteq> [] \<and> is_text to) (own_fields rename))
                  (upcast_error (''Invalid rename operation for '' @ label))) (\<lambda>_.
      bind_res (canonicalClone rename) (\<lambda>rename'.
      bind_res (canonicalClone add) (\<lambda>add'.
      Inr \<lparr>up_rename = map (\<lambda>(from, to). (from, js_text to)) (own_fields rename'),
           up_add = own_fields add',
           up_remove = sort (uniq (str_list remove))\<rparr>)))))))))"

definition precondition_error :: "string \<Rightarrow> jserr" where
  "precondition_error m = mk_err ''EXECUTION_EVENT_UPCAST_PRECONDITION_FAILED'' m"

fun rename_fields :: "(string \<times> string) list \<Rightarrow> fields \<Rightarrow> fields res" where
  "rename_fields [] fs = Inr fs"
| "rename_fields ((from, to) # rs) fs =
     (case map_of fs from of
        None \<Rightarrow> Inl (precondition_error ''Upcaster rename precondition failed'')
      | Some v \<Rightarrow>
          (if from \<noteq> to \<and> to \<in> set (map fst fs)
           then Inl (precondition_error ''Upcaster rename precondition failed'')
           else let fs' = put_field fs to v
                in rename_fields rs (if from \<noteq> to then del_field fs' from else fs')))"

fun add_fields :: "fields \<Rightarrow> fields \<Rightarrow> fields res" where
  "add_fields [] fs = Inr fs"
| "add_fields ((k, v) # as) fs =
     (if k \<in> set (map fst fs) then Inl (precondition_error ''Upcaster add precondition failed'')
      else bind_res (canonicalClone v) (\<lambda>v'. add_fields as (put_field fs k v')))"

definition applyDeclarativeUpcaster :: "(string \<Rightarrow> string) \<Rightarrow> js \<Rightarrow> upcaster \<Rightarrow> js res" where
  "applyDeclarativeUpcaster collate payload up =
     bind_res (canonicalClone payload) (\<lambda>result.
     bind_res (rename_fields (sort_key (\<lambda>ft. collate (fst ft)) (up_rename up)) (own_fields result)) (\<lambda>fs.
     bind_res (add_fields (sort_key (\<lambda>kv. collate (fst kv)) (up_add up))
                 (foldl del_field fs (up_remove up))) (\<lambda>fs'.
     Inr (JObj fs'))))"

subsection \<open>Registration\<close>

record event_schema =
  allowed_fields :: "string list"
  required_fields :: "string list"
  schema_validate :: "(js \<Rightarrow> unit res) option"

record event_definition =
  ed_event_type :: string
  ed_current :: int
  ed_versions :: "(int \<times> event_schema) list"
  ed_upcasters :: "(int \<times> upcaster) list"

record registry =
  reg_definitions :: "(string \<times> event_definition) list"
  reg_sealed :: bool

record raw_schema =
  rs_allowed :: "string list option"
  rs_required :: "string list option"
  rs_classifications :: fields
  rs_validate :: "(js \<Rightarrow> unit res) option"

record raw_definition =
  rd_event_type :: js
  rd_current :: js
  rd_versions :: "(int option \<times> raw_schema) list"
  rd_upcasters :: "(int \<times> js) list"

definition validatePayload :: "string \<Rightarrow> int \<Rightarrow> event_schema \<Rightarrow> js \<Rightarrow> unit res" where
  "validatePayload eventType version schema payload =
     bind_res (assertPlainObject payload (version_label eventType version @ '' payload'')) (\<lambda>_.
     let unknown = filter (\<lambda>k. k \<notin> set (allowed_fields schema)) (js_keys payload);
         missing = filter (\<lambda>k. \<not> has_own payload k) (required_fields schema)
     in if unknown \<noteq> [] \<or> missing \<noteq> []
        then Inl (payload_error (''Payload does not match '' @ version_label eventType version))
        else case schema_validate schema of
               None \<Rightarrow> Inr ()
             | Some validate \<Rightarrow> bind_res (canonicalClone payload) validate)"

definition normalize_version ::
    "string \<Rightarrow> int option \<times> raw_schema \<Rightarrow> (int \<times> event_schema) res" where
  "normalize_version eventType vs =
     (case (fst vs, rs_allowed (snd vs), rs_required (snd vs)) of
        (Some version, Some allowed, Some required) \<Rightarrow>
          (if version < 1 then Inl (schema_error (''Invalid schema registration for '' @ eventType))
           else if \<not> list_all (\<lambda>f. is_str (js_get (JObj (rs_classifications (snd vs))) f)) allowed
           then Inl (mk_err ''EXECUTION_EVENT_FIELD_UNCLASSIFIED''
                       (''Every '' @ version_label eventType version @ '' field requires a data classification''))
           else Inr (version, \<lparr>allowed_fields = uniq allowed, required_fields = uniq required,
                               schema_validate = rs_validate (snd vs)\<rparr>))
      | _ \<Rightarrow> Inl (schema_error (''Invalid schema registration for '' @ eventType)))"

definition chain_complete :: "(int \<times> event_schema) list \<Rightarrow> (int \<times> js) list \<Rightarrow> int \<Rightarrow> bool" where
  "chain_complete versions ups current \<longleftrightarrow>
     list_all (\<lambda>v. v \<in> set (map fst versions) \<and>
                  (case map_of ups v of None \<Rightarrow> False | Some u \<Rightarrow> js_truthy u)) [1..current - 1]"

definition register :: "registry \<Rightarrow> raw_definition \<Rightarrow> registry res" where
  "register reg d =
     (if reg_sealed reg then Inl (mk_err ''EXECUTION_EVENT_REGISTRY_SEALED'' ''Event registry is sealed'')
      else if \<not> is_text (rd_event_type d) \<or> \<not> is_int_ge 1 (rd_current d)
      then Inl (schema_error ''Event definition requires event_type and a positive current_version'')
      else let eventType = js_text (rd_event_type d);
               current = (case rd_current d of JNum n \<Rightarrow> n | _ \<Rightarrow> 0)
      in if eventType \<in> set (map fst (reg_definitions reg))
         then Inl (mk_err ''EXECUTION_EVENT_SCHEMA_DUPLICATE'' (''Event type already registered: '' @ eventType))
         else bind_res (map_res (normalize_version eventType) (rd_versions d)) (\<lambda>versions.
           if current \<notin> set (map fst versions)
           then Inl (schema_error (''Current schema is missing for '' @ version_label eventType current))
           else if \<not> chain_complete versions (rd_upcasters d) current
           then Inl (schema_error (''Missing deterministic upcaster for '' @ eventType))
           else bind_res (map_res (\<lambda>(v, u). bind_res (normalizeUpcaster eventType v u) (\<lambda>u'. Inr (v, u')))
                            (rd_upcasters d)) (\<lambda>ups.
             Inr (reg\<lparr>reg_definitions := reg_definitions reg @
               [(eventType, \<lparr>ed_event_type = eventType, ed_current = current,
                             ed_versions = versions, ed_upcasters = ups\<rparr>)]\<rparr>))))"

definition seal :: "registry \<Rightarrow> registry" where
  "seal reg = reg\<lparr>reg_sealed := True\<rparr>"

fun register_all :: "registry \<Rightarrow> raw_definition list \<Rightarrow> registry res" where
  "register_all reg [] = Inr reg"
| "register_all reg (d # ds) = bind_res (register reg d) (\<lambda>reg'. register_all reg' ds)"

definition new_registry :: "raw_definition list \<Rightarrow> registry res" where
  "new_registry ds = register_all \<lparr>reg_definitions = [], reg_sealed = False\<rparr> ds"

definition definition_of :: "registry \<Rightarrow> string \<Rightarrow> event_definition res" where
  "definition_of reg eventType =
     (case map_of (reg_definitions reg) eventType of
        None \<Rightarrow> Inl (mk_err ''EXECUTION_EVENT_TYPE_UNREGISTERED'' (''Unregistered event type: '' @ eventType))
      | Some d \<Rightarrow> Inr d)"

subsection \<open>Writing and reading facts\<close>

definition validate_version :: "event_definition \<Rightarrow> int \<Rightarrow> js \<Rightarrow> unit res" where
  "validate_version d version payload =
     (case map_of (ed_versions d) version of
        None \<Rightarrow> Inl type_error
      | Some schema \<Rightarrow> validatePayload (ed_event_type d) version schema payload)"

definition validateForAppend :: "registry \<Rightarrow> js \<Rightarrow> js res" where
  "validateForAppend reg event =
     bind_res (assertPlainObject event ''event'') (\<lambda>_.
     bind_res (definition_of reg (js_text (js_get event ''event_type''))) (\<lambda>d.
     bind_res (check_that (js_get event ''schema_version'' = JNum (ed_current d))
                 (mk_err ''EXECUTION_EVENT_SCHEMA_NOT_CURRENT''
                    (''New '' @ ed_event_type d @ '' facts must use schema v'' @ dec_int (ed_current d)))) (\<lambda>_.
     bind_res (validate_version d (ed_current d) (js_get event ''payload'')) (\<lambda>_.
     Inr event))))"

fun upcast_chain :: "(string \<Rightarrow> string) \<Rightarrow> event_definition \<Rightarrow> nat \<Rightarrow> int \<Rightarrow> js \<Rightarrow> js res" where
  "upcast_chain collate d 0 version payload = Inr payload"
| "upcast_chain collate d (Suc n) version payload =
     (case map_of (ed_upcasters d) version of
        None \<Rightarrow> Inl type_error
      | Some up \<Rightarrow>
          bind_res (applyDeclarativeUpcaster collate payload up) (\<lambda>payload'.
          bind_res (validate_version d (version + 1) payload') (\<lambda>_.
          upcast_chain collate d n (version + 1) payload')))"

definition deserialize ::
    "(string \<Rightarrow> string) \<Rightarrow> registry \<Rightarrow> string \<Rightarrow> int \<Rightarrow> js \<Rightarrow> (int \<times> js) res" where
  "deserialize collate reg eventType version payload =
     bind_res (definition_of reg eventType) (\<lambda>d.
     bind_res (check_that (version \<in> set (map fst (ed_versions d)))
                 (mk_err ''EXECUTION_EVENT_SCHEMA_UNSUPPORTED''
                    (''Unsupported '' @ eventType @ '' schema v'' @ dec_int version))) (\<lambda>_.
     bind_res (canonicalClone payload) (\<lambda>payload'.
     bind_res (validate_version d version payload') (\<lambda>_.
     bind_res (upcast_chain collate d (nat (ed_current d - version)) version payload') (\<lambda>payload''.
     Inr (max version (ed_current d), payload''))))))"

definition describe :: "(string \<Rightarrow> string) \<Rightarrow> registry \<Rightarrow> (string \<times> int \<times> int list) list" where
  "describe collate reg =
     sort_key (\<lambda>x. collate (fst x))
       (map (\<lambda>(t, d). (ed_event_type d, ed_current d, sort (map fst (ed_versions d)))) (reg_definitions reg))"

subsection \<open>The execution lifecycle\<close>

definition requireStringFields :: "string list \<Rightarrow> js \<Rightarrow> unit res" where
  "requireStringFields fs payload =
     each_res (\<lambda>f. check_that (is_text (js_get payload f)) (payload_error (f @ '' must be a non-empty string''))) fs"

definition combineValidators :: "(js \<Rightarrow> unit res) list \<Rightarrow> js \<Rightarrow> unit res" where
  "combineValidators vs payload = each_res (\<lambda>v. v payload) vs"

definition requirePositiveIntegers :: "string list \<Rightarrow> js \<Rightarrow> unit res" where
  "requirePositiveIntegers fs payload =
     each_res (\<lambda>f. check_that (is_int_ge 1 (js_get payload f)) (payload_error (f @ '' must be a positive integer''))) fs"

definition requireOptionalStrings :: "string list \<Rightarrow> js \<Rightarrow> unit res" where
  "requireOptionalStrings fs payload =
     each_res (\<lambda>f. check_that (has_own payload f \<longrightarrow> is_text (js_get payload f))
                     (payload_error (f @ '' must be a non-empty string''))) fs"

definition requireObjectField :: "string \<Rightarrow> js \<Rightarrow> unit res" where
  "requireObjectField f payload = assertPlainObject (js_get payload f) f"

definition requireStringArrayField :: "string \<Rightarrow> js \<Rightarrow> unit res" where
  "requireStringArrayField f payload =
     check_that (is_str_array (js_get payload f)) (payload_error (f @ '' must be an array of strings''))"

definition validateError :: "js \<Rightarrow> unit res" where
  "validateError payload =
     (let error = js_get payload ''error'' in
      bind_res (assertPlainObject error ''error'') (\<lambda>_.
      bind_res (check_that (list_all (\<lambda>k. k \<in> {''code'', ''message'', ''retryable''}) (js_keys error))
                  (payload_error ''error contains an unknown field'')) (\<lambda>_.
      bind_res (requireStringFields [''code'', ''message''] error) (\<lambda>_.
      check_that (is_bool (js_get error ''retryable'')) (payload_error ''error.retryable must be a boolean'')))))"

record lifecycle_item =
  li_type :: string
  li_fields :: "string list"
  li_required :: "string list"
  li_strings :: "string list"
  li_validate :: "js \<Rightarrow> unit res"

definition item :: "string \<Rightarrow> string list \<Rightarrow> string list \<Rightarrow> string list \<Rightarrow> (js \<Rightarrow> unit res) list \<Rightarrow> lifecycle_item" where
  "item t fs req strs vs = \<lparr>li_type = t, li_fields = fs, li_required = req, li_strings = strs,
                           li_validate = combineValidators vs\<rparr>"

definition lifecycle :: "lifecycle_item list" where
  "lifecycle =
     [item ''ExecutionAuthorized''
        [''tool'', ''capability'', ''input_schema_version'', ''output_schema_version'', ''reversibility'',
         ''policy_version'', ''deadline'', ''cancellation_policy'', ''idempotency_key'', ''resource_scope'',
         ''input_digest'', ''approval_id'', ''warnings'']
        [''tool'', ''capability'', ''input_schema_version'', ''output_schema_version'', ''reversibility'',
         ''policy_version'', ''deadline'', ''cancellation_policy'', ''idempotency_key'', ''resource_scope'',
         ''input_digest'', ''warnings'']
        [''tool'', ''capability'', ''reversibility'', ''policy_version'', ''deadline'', ''cancellation_policy'',
         ''idempotency_key'', ''input_digest'']
        [requirePositiveIntegers [''input_schema_version'', ''output_schema_version''],
         requireObjectField ''resource_scope'', requireOptionalStrings [''approval_id''],
         requireStringArrayField ''warnings''],
      item ''ExecutionStarted''
        [''tool'', ''provider'', ''idempotency_key'', ''dispatch_attempt'', ''deadline'']
        [''tool'', ''provider'', ''idempotency_key'', ''dispatch_attempt'', ''deadline'']
        [''tool'', ''provider'', ''idempotency_key'', ''deadline'']
        [requirePositiveIntegers [''dispatch_attempt'']],
      item ''ExecutionSucceeded''
        [''result'', ''output_schema_version'', ''provider_receipt_ref'', ''warnings'']
        [''result'', ''output_schema_version'', ''warnings''] []
        [requirePositiveIntegers [''output_schema_version''], requireOptionalStrings [''provider_receipt_ref''],
         requireStringArrayField ''warnings''],
      item ''ExecutionFailed''
        [''error'', ''provider_receipt_ref'', ''warnings''] [''error'', ''warnings''] []
        [validateError, requireOptionalStrings [''provider_receipt_ref''], requireStringArrayField ''warnings''],
      item ''ExecutionCancelled''
        [''reason'', ''phase'', ''provider_receipt_ref'', ''warnings''] [''reason'', ''phase'', ''warnings'']
        [''reason'', ''phase'']
        [requireOptionalStrings [''provider_receipt_ref''], requireStringArrayField ''warnings''],
      item ''ExecutionOutcomeUncertain''
        [''reason'', ''provider_receipt_ref'', ''warnings''] [''reason'', ''warnings''] [''reason'']
        [requireOptionalStrings [''provider_receipt_ref''], requireStringArrayField ''warnings''],
      item ''ExecutionCompensated''
        [''prior_outcome_event_id'', ''compensation_receipt_ref'']
        [''prior_outcome_event_id'', ''compensation_receipt_ref'']
        [''prior_outcome_event_id'', ''compensation_receipt_ref''] [],
      item ''ExecutionCompensationFailed''
        [''prior_outcome_event_id'', ''error'', ''compensation_receipt_ref'']
        [''prior_outcome_event_id'', ''error''] [''prior_outcome_event_id'']
        [validateError, requireOptionalStrings [''compensation_receipt_ref'']]]"

definition lifecycle_definition :: "lifecycle_item \<Rightarrow> raw_definition" where
  "lifecycle_definition i =
     \<lparr>rd_event_type = JStr (li_type i), rd_current = JNum 1,
      rd_versions = [(Some 1, \<lparr>rs_allowed = Some (li_fields i), rs_required = Some (li_required i),
         rs_classifications = map (\<lambda>f. (f, JStr (if ends_with f ''_ref'' then ''reference'' else ''operational'')))
           (li_fields i),
         rs_validate = Some (combineValidators [requireStringFields (li_strings i), li_validate i])\<rparr>)],
      rd_upcasters = []\<rparr>"

definition createExecutionEventRegistry :: "registry res" where
  "createExecutionEventRegistry =
     bind_res (new_registry (map lifecycle_definition lifecycle)) (\<lambda>reg. Inr (seal reg))"

definition execution_registry :: registry where
  "execution_registry = (case createExecutionEventRegistry of Inr reg \<Rightarrow> reg
     | Inl _ \<Rightarrow> \<lparr>reg_definitions = [], reg_sealed = True\<rparr>)"

subsection \<open>Invariant of the registry\<close>

definition definition_ok :: "event_definition \<Rightarrow> bool" where
  "definition_ok d \<longleftrightarrow> 1 \<le> ed_current d \<and> ed_current d \<in> set (map fst (ed_versions d)) \<and>
     (\<forall>v. 1 \<le> v \<longrightarrow> v < ed_current d \<longrightarrow>
        v \<in> set (map fst (ed_versions d)) \<and> v \<in> set (map fst (ed_upcasters d))) \<and>
     (\<forall>v \<in> set (map fst (ed_versions d)). 1 \<le> v)"

definition registry_ok :: "registry \<Rightarrow> bool" where
  "registry_ok reg \<longleftrightarrow> distinct (map fst (reg_definitions reg)) \<and>
     (\<forall>(t, d) \<in> set (reg_definitions reg). ed_event_type d = t \<and> definition_ok d)"

lemma normalize_version_Inr:
  "normalize_version t vs = Inr (v, s) \<Longrightarrow> fst vs = Some v \<and> 1 \<le> v"
  by (auto simp: normalize_version_def split: prod.splits option.splits if_splits)

lemma is_int_geE: "is_int_ge m v \<Longrightarrow> \<exists>n. v = JNum n \<and> m \<le> n"
  by (cases v) auto

lemma upcaster_keys:
  assumes "map_res (\<lambda>(v, u). bind_res (normalizeUpcaster t v u) (\<lambda>u'. Inr (v, u'))) us = Inr ups"
  shows "map fst ups = map fst us"
proof -
  have "list_all2 (\<lambda>x y. (case x of (v, u) \<Rightarrow> bind_res (normalizeUpcaster t v u) (\<lambda>u'. Inr (v, u'))) = Inr y) us ups"
    using assms by (simp add: map_res_Inr_iff)
  then have "list_all2 (\<lambda>x y. fst x = fst y) us ups"
    by (rule list_all2_mono) auto
  then show ?thesis by (induction rule: list_all2_induct) auto
qed

lemma chain_complete_keys:
  "chain_complete versions ups current \<Longrightarrow> 1 \<le> v \<Longrightarrow> v < current \<Longrightarrow>
     v \<in> fst ` set versions \<and> v \<in> fst ` set ups"
  unfolding chain_complete_def list_all_iff
  by (drule bspec [of _ _ v]) (auto split: option.splits intro: map_of_SomeD rev_image_eqI)

lemma register_Inr:
  assumes "register reg d = Inr reg'"
  shows "\<exists>cur versions ups. \<not> reg_sealed reg \<and> rd_current d = JNum cur \<and> 1 \<le> cur \<and>
     js_text (rd_event_type d) \<notin> fst ` set (reg_definitions reg) \<and>
     map_res (normalize_version (js_text (rd_event_type d))) (rd_versions d) = Inr versions \<and>
     cur \<in> fst ` set versions \<and> chain_complete versions (rd_upcasters d) cur \<and>
     map_res (\<lambda>(v, u). bind_res (normalizeUpcaster (js_text (rd_event_type d)) v u) (\<lambda>u'. Inr (v, u')))
       (rd_upcasters d) = Inr ups \<and>
     reg' = reg\<lparr>reg_definitions := reg_definitions reg @
        [(js_text (rd_event_type d), \<lparr>ed_event_type = js_text (rd_event_type d), ed_current = cur,
           ed_versions = versions, ed_upcasters = ups\<rparr>)]\<rparr>"
proof -
  from assms have "is_int_ge 1 (rd_current d)" by (auto simp: register_def split: if_splits)
  then obtain cur where "rd_current d = JNum cur" "1 \<le> cur" using is_int_geE by blast
  with assms show ?thesis
    by (simp add: register_def Let_def split: if_splits) blast
qed

lemma register_ok:
  assumes "register reg d = Inr reg'" "registry_ok reg"
  shows "registry_ok reg' \<and> \<not> reg_sealed reg \<and>
     (\<exists>e. reg_definitions reg' = reg_definitions reg @ [(js_text (rd_event_type d), e)])"
proof -
  define t where "t = js_text (rd_event_type d)"
  obtain cur versions ups where ns: "\<not> reg_sealed reg" and c: "rd_current d = JNum cur" "1 \<le> cur"
    and fresh: "t \<notin> fst ` set (reg_definitions reg)"
    and vs: "map_res (normalize_version t) (rd_versions d) = Inr versions"
    and curin: "cur \<in> fst ` set versions" and ch: "chain_complete versions (rd_upcasters d) cur"
    and us: "map_res (\<lambda>(v, u). bind_res (normalizeUpcaster t v u) (\<lambda>u'. Inr (v, u'))) (rd_upcasters d) = Inr ups"
    and reg': "reg' = reg\<lparr>reg_definitions := reg_definitions reg @
        [(t, \<lparr>ed_event_type = t, ed_current = cur, ed_versions = versions, ed_upcasters = ups\<rparr>)]\<rparr>"
    using assms(1) register_Inr [of reg d reg'] unfolding t_def by blast
  have ge1: "1 \<le> v" if "v \<in> fst ` set versions" for v
    using that map_res_set [OF vs] by (fastforce dest: normalize_version_Inr)
  have keys: "fst ` set ups = fst ` set (rd_upcasters d)"
    using upcaster_keys [OF us] by (metis list.set_map)
  have "definition_ok \<lparr>ed_event_type = t, ed_current = cur, ed_versions = versions, ed_upcasters = ups\<rparr>"
    using c(2) curin ge1 chain_complete_keys [OF ch] keys by (simp add: definition_ok_def)
  with assms(2) fresh ns reg' show ?thesis by (auto simp: registry_ok_def t_def)
qed

lemma register_all_ok: "register_all reg ds = Inr reg' \<Longrightarrow> registry_ok reg \<Longrightarrow> registry_ok reg'"
  by (induction ds arbitrary: reg) (auto dest: register_ok)

lemma seal_ok [simp]: "registry_ok (seal reg) = registry_ok reg"
  by (simp add: seal_def registry_ok_def)

lemma new_registry_ok: "new_registry ds = Inr reg \<Longrightarrow> registry_ok reg"
  unfolding new_registry_def by (erule register_all_ok) (simp add: registry_ok_def)

lemma createExecutionEventRegistry_Inr: "createExecutionEventRegistry = Inr execution_registry"
proof -
  have "isl createExecutionEventRegistry = False" by code_simp
  then obtain reg where reg: "createExecutionEventRegistry = Inr reg" using not_isl_Inr by blast
  show ?thesis unfolding execution_registry_def reg by simp
qed

lemma execution_registry_ok: "registry_ok execution_registry"
proof -
  obtain reg where reg: "new_registry (map lifecycle_definition lifecycle) = Inr reg"
      "execution_registry = seal reg"
    using createExecutionEventRegistry_Inr by (auto simp: createExecutionEventRegistry_def)
  show ?thesis unfolding reg(2) using new_registry_ok [OF reg(1)] by simp
qed

lemma definition_of_Inr:
  "definition_of reg t = Inr d \<Longrightarrow> registry_ok reg \<Longrightarrow> definition_ok d \<and> ed_event_type d = t"
  by (fastforce simp: definition_of_def registry_ok_def split: option.splits dest: map_of_SomeD)

subsection \<open>Reads are upcast to a valid payload of the current version\<close>

lemma validate_version_defined:
  "v \<in> fst ` set (ed_versions d) \<Longrightarrow> validate_version d v p = Inl e \<Longrightarrow>
     \<exists>s. map_of (ed_versions d) v = Some s \<and> validatePayload (ed_event_type d) v s p = Inl e"
  by (auto simp: validate_version_def split: option.splits simp: map_of_eq_None_iff)

lemma upcast_chain_valid:
  assumes "definition_ok d" "1 \<le> v" "upcast_chain collate d n v p = Inr q"
    "int n = ed_current d - v" "validate_version d v p = Inr ()"
  shows "validate_version d (ed_current d) q = Inr ()"
  using assms
proof (induction n arbitrary: v p)
  case (Suc n)
  then show ?case by (auto split: option.splits)
qed simp

text \<open>
  Whatever the schema version a stored fact was written with, a successful read returns the
  current version of its event type (or the fact's own, if newer) and a payload the schema of
  that version accepts.
\<close>

theorem deserialize_current:
  assumes "registry_ok reg" and "deserialize collate reg t v p = Inr (v', p')"
  shows "\<exists>d. definition_of reg t = Inr d \<and> v' = max v (ed_current d) \<and>
     validate_version d v' p' = Inr ()"
proof -
  obtain d q where d: "definition_of reg t = Inr d" and v: "v \<in> fst ` set (ed_versions d)"
    and q: "canonicalClone p = Inr q" "validate_version d v q = Inr ()"
    and u: "upcast_chain collate d (nat (ed_current d - v)) v q = Inr p'"
    and v': "v' = max v (ed_current d)"
    using assms(2) by (auto simp: deserialize_def)
  have ok: "definition_ok d" using definition_of_Inr [OF d assms(1)] by simp
  have "validate_version d v' p' = Inr ()"
  proof (cases "v < ed_current d")
    case True
    then show ?thesis using upcast_chain_valid [OF ok _ u _ q(2)] ok v v' by (auto simp: definition_ok_def)
  next
    case False
    then show ?thesis using u q(2) v' by simp
  qed
  with d v' show ?thesis by blast
qed

definition demo_started :: js where
  "demo_started = JObj [(''tool'', JStr ''t''), (''provider'', JStr ''p''), (''idempotency_key'', JStr ''k''),
     (''dispatch_attempt'', JNum 1), (''deadline'', JStr ''d'')]"

lemma demo_started_read:
  "\<exists>v p. deserialize id execution_registry ''ExecutionStarted'' 1 demo_started = Inr (v, p)"
proof -
  have "isl (deserialize id execution_registry ''ExecutionStarted'' 1 demo_started) = False"
    by code_simp
  then show ?thesis
    by (cases "deserialize id execution_registry ''ExecutionStarted'' 1 demo_started") auto
qed

theorem deserialize_current_witness:
  "\<exists>d v p. deserialize id execution_registry ''ExecutionStarted'' 1 demo_started = Inr (v, p) \<and>
     validate_version d v p = Inr ()"
proof -
  obtain v p where "deserialize id execution_registry ''ExecutionStarted'' 1 demo_started = Inr (v, p)"
    using demo_started_read by blast
  from deserialize_current [OF execution_registry_ok this] this show ?thesis by blast
qed

lemma canonicalClone_Inr: "canonicalClone v = Inr w \<longleftrightarrow> is_strict v \<and> w = stableValue v"
  by (auto simp: canonicalClone_def registry_assertStrictJson_def strict_json_iff)

lemma canonicalClone_strict: "is_strict v \<Longrightarrow> canonicalClone v = Inr (stableValue v)"
  by (simp add: canonicalClone_Inr)

lemma validatePayload_stable:
  assumes "is_strict p" "validatePayload t v s p = Inr ()"
  shows "validatePayload t v s (stableValue p) = Inr ()"
proof -
  have sp: "canonicalClone p = Inr (stableValue p)" "canonicalClone (stableValue p) = Inr (stableValue p)"
    using assms(1) by (simp_all add: canonicalClone_strict)
  have keys: "filter (\<lambda>k. k \<notin> A) (js_keys (stableValue p)) = [] \<longleftrightarrow> filter (\<lambda>k. k \<notin> A) (js_keys p) = []" for A
    by (simp add: filter_empty_conv)
  show ?thesis
    using assms(2) sp
    by (simp add: validatePayload_def Let_def has_own_def keys assertPlainObject_def bind_res_simps
        split: option.splits if_splits)
qed

lemma deserialize_strict:
  "deserialize collate reg t v (stableValue p) = Inr r \<Longrightarrow> is_strict p"
  by (auto simp: deserialize_def canonicalClone_Inr)

lemma accepted_read_back:
  assumes "registry_ok reg" and "validateForAppend reg event = Inr event'"
    and "is_strict (js_get event ''payload'')"
  shows "\<exists>v. js_get event ''schema_version'' = JNum v \<and>
     deserialize collate reg (js_text (js_get event ''event_type'')) v (stableValue (js_get event ''payload'')) =
       Inr (v, stableValue (js_get event ''payload''))"
proof -
  define p where "p = js_get event ''payload''"
  obtain d where d: "definition_of reg (js_text (js_get event ''event_type'')) = Inr d"
    and ver: "js_get event ''schema_version'' = JNum (ed_current d)"
    and val: "validate_version d (ed_current d) p = Inr ()"
    using assms(2) by (auto simp: validateForAppend_def p_def)
  have ok: "definition_ok d" using definition_of_Inr [OF d assms(1)] by simp
  have "validate_version d (ed_current d) (stableValue p) = Inr ()"
    using val validatePayload_stable assms(3)
    by (auto simp: validate_version_def p_def split: option.splits)
  then show ?thesis
    using d ok ver assms(3) canonicalClone_strict [of "stableValue p"]
    by (simp add: deserialize_def p_def [symmetric] definition_ok_def bind_res_simps check_that_def)
qed

text \<open>
  C35. A fact the registry accepts for appending is read back exactly when its payload is strict JSON:
  reading the canonical form of the payload at the fact's own version then succeeds and returns it
  unchanged, and of a payload that is not strict JSON (which a schema without a validator lets through)
  nothing is ever read.
\<close>

theorem append_then_read:
  assumes "registry_ok reg" and "validateForAppend reg event = Inr event'"
  shows "\<exists>v. js_get event ''schema_version'' = JNum v \<and>
     (\<forall>r. deserialize collate reg (js_text (js_get event ''event_type'')) v (stableValue (js_get event ''payload'')) = Inr r \<longleftrightarrow>
        is_strict (js_get event ''payload'') \<and> r = (v, stableValue (js_get event ''payload'')))"
proof (cases "is_strict (js_get event ''payload'')")
  case True
  then show ?thesis using accepted_read_back [OF assms True, of collate] by auto
next
  case False
  obtain v where "js_get event ''schema_version'' = JNum v"
    using assms(2) by (auto simp: validateForAppend_def)
  then show ?thesis using False deserialize_strict by auto
qed

definition demo_fact :: js where
  "demo_fact = JObj [(''event_type'', JStr ''ExecutionStarted''), (''schema_version'', JNum 1),
     (''payload'', demo_started)]"

lemma demo_fact_ok: "validateForAppend execution_registry demo_fact = Inr demo_fact"
proof -
  have "isl (validateForAppend execution_registry demo_fact) = False" by code_simp
  then show ?thesis
    by (cases "validateForAppend execution_registry demo_fact") (auto simp: validateForAppend_def)
qed

theorem append_then_read_witness:
  "deserialize id execution_registry ''ExecutionStarted'' 1 (stableValue demo_started) =
     Inr (1, stableValue demo_started)"
  using append_then_read [OF execution_registry_ok demo_fact_ok, of id]
  by (auto simp: demo_fact_def js_get_def demo_started_def)

lemma validateForAppend_Inr: "validateForAppend reg e = Inr e' \<Longrightarrow> e' = e"
  by (auto simp: validateForAppend_def)

text \<open>
  A sealed registry accepts no further definition, and every definition accepted before
  sealing leaves the registry with a complete chain of schemas and upcasters for each event type.
\<close>

theorem registration_chain_complete:
  assumes "registry_ok reg" and "register reg d = Inr reg'"
  shows "registry_ok reg' \<and> (\<exists>e. register (seal reg) d2 = Inl e \<and> err_code e = ''EXECUTION_EVENT_REGISTRY_SEALED'') \<and>
     (\<forall>t \<in> set (map fst (reg_definitions reg')). \<exists>e. definition_of reg' t = Inr e \<and> definition_ok e)"
proof -
  have ok: "registry_ok reg'" using register_ok [OF assms(2,1)] by blast
  have "\<exists>e. definition_of reg' t = Inr e \<and> definition_ok e" if tin: "t \<in> set (map fst (reg_definitions reg'))" for t
  proof -
    obtain e where "map_of (reg_definitions reg') t = Some e"
      using tin by (cases "map_of (reg_definitions reg') t") (auto simp: map_of_eq_None_iff)
    then show ?thesis using definition_of_Inr [OF _ ok, of t e] by (simp add: definition_of_def)
  qed
  then show ?thesis using ok by (simp add: register_def seal_def)
qed

definition empty_registry :: registry where
  "empty_registry = \<lparr>reg_definitions = [], reg_sealed = False\<rparr>"

theorem registration_chain_complete_witness:
  "\<exists>reg'. register empty_registry (lifecycle_definition (lifecycle ! 1)) = Inr reg' \<and> registry_ok reg'"
proof -
  have "isl (register empty_registry (lifecycle_definition (lifecycle ! 1))) = False" by code_simp
  then obtain reg' where r: "register empty_registry (lifecycle_definition (lifecycle ! 1)) = Inr reg'"
    by (cases "register empty_registry (lifecycle_definition (lifecycle ! 1))") auto
  have "registry_ok empty_registry" by (simp add: registry_ok_def empty_registry_def)
  from registration_chain_complete [OF this r] r show ?thesis by blast
qed

subsection \<open>The definitions of the lifecycle registry\<close>

definition lifecycle_entry :: "lifecycle_item \<Rightarrow> event_definition" where
  "lifecycle_entry i =
     \<lparr>ed_event_type = li_type i, ed_current = 1,
      ed_versions = [(1, \<lparr>allowed_fields = uniq (li_fields i), required_fields = uniq (li_required i),
        schema_validate = Some (combineValidators [requireStringFields (li_strings i), li_validate i])\<rparr>)],
      ed_upcasters = []\<rparr>"

lemma register_lifecycle:
  "register reg (lifecycle_definition i) = Inr reg' \<Longrightarrow>
     reg_definitions reg' = reg_definitions reg @ [(li_type i, lifecycle_entry i)]"
  by (drule register_Inr)
    (auto simp: lifecycle_definition_def normalize_version_def lifecycle_entry_def split: if_splits)

lemma register_all_lifecycle:
  "register_all reg (map lifecycle_definition is) = Inr reg' \<Longrightarrow>
     reg_definitions reg' = reg_definitions reg @ map (\<lambda>i. (li_type i, lifecycle_entry i)) is"
  by (induction "is" arbitrary: reg) (auto split: sum.splits dest!: register_lifecycle)

lemma execution_definitions:
  "reg_definitions execution_registry = map (\<lambda>i. (li_type i, lifecycle_entry i)) lifecycle"
proof -
  obtain reg where "register_all \<lparr>reg_definitions = [], reg_sealed = False\<rparr> (map lifecycle_definition lifecycle) = Inr reg"
    and e: "execution_registry = seal reg"
    using createExecutionEventRegistry_Inr by (auto simp: createExecutionEventRegistry_def new_registry_def)
  then show ?thesis
    using register_all_lifecycle by (fastforce simp: e seal_def)
qed

lemma execution_definition:
  assumes "i \<in> set lifecycle"
  shows "definition_of execution_registry (li_type i) = Inr (lifecycle_entry i)"
proof -
  have "distinct (map li_type lifecycle)" by code_simp
  then have "map_of (map (\<lambda>i. (li_type i, lifecycle_entry i)) lifecycle) (li_type i) = Some (lifecycle_entry i)"
    using assms by (intro map_of_is_SomeI) (auto simp: comp_def)
  then show ?thesis by (simp add: definition_of_def execution_definitions)
qed

text \<open>What the registry demands of a fact of the lifecycle.\<close>

lemma validateForAppend_lifecycle:
  assumes "i \<in> set lifecycle" "js_get e ''event_type'' = JStr (li_type i)" "validateForAppend execution_registry e = Inr e'"
  shows "requireStringFields (li_strings i) (stableValue (js_get e ''payload'')) = Inr () \<and>
         li_validate i (stableValue (js_get e ''payload'')) = Inr ()"
  using assms(3) execution_definition[OF assms(1)] assms(2)
  by (auto simp: validateForAppend_def validate_version_def lifecycle_entry_def validatePayload_def Let_def
      canonicalClone_Inr combineValidators_def split: if_splits sum.splits)

end
