(* ===== verification/Ledger.thy ===== *)
theory Ledger
  imports EventRegistry
begin

text \<open>
  The append-only event ledger of \<open>tools/mcp-project-state/lib/execution-event-ledger.js\<close>.
  The table \<open>execution_events\<close> is the list of its rows in insertion order; \<open>position\<close> is
  the autoincrement key. The table's own protections (the catalog of registered event types, the
  uniqueness of event identifiers and of stream positions, declared in the migrations) are part
  of \<open>insert_row\<close>. A transaction that throws leaves the rows unchanged. Timing metrics are
  not modelled.
\<close>

subsection \<open>Validation of an event\<close>

definition SENSITIVE_KEYS :: "string list" where
  "SENSITIVE_KEYS = [''access_token'', ''api_key'', ''approval_token'', ''auth'', ''authentication'',
     ''authorization'', ''client_secret'', ''cookie'', ''credential'', ''credentials'', ''password'',
     ''private_key'', ''refresh_token'', ''secret'', ''session_cookie'', ''set_cookie'', ''token'']"

definition invalid_event :: "string \<Rightarrow> jserr" where
  "invalid_event m = mk_err ''EXECUTION_EVENT_INVALID'' m"

definition ledger_assertStrictJson :: "js \<Rightarrow> string \<Rightarrow> unit res" where
  "ledger_assertStrictJson v path = strict_json invalid_event path v"

fun assertNoSensitivePayload :: "string \<Rightarrow> js \<Rightarrow> unit res"
  and no_sensitive_items :: "string \<Rightarrow> nat \<Rightarrow> js list \<Rightarrow> unit res"
  and no_sensitive_fields :: "string \<Rightarrow> fields \<Rightarrow> unit res" where
  "assertNoSensitivePayload path (JArr xs) = no_sensitive_items path 0 xs"
| "assertNoSensitivePayload path (JObj fs) = no_sensitive_fields path fs"
| "assertNoSensitivePayload path v = Inr ()"
| "no_sensitive_items path i [] = Inr ()"
| "no_sensitive_items path i (x # xs) =
     (case assertNoSensitivePayload (path @ ''['' @ dec_nat i @ '']'') x of
        Inl e \<Rightarrow> Inl e | Inr _ \<Rightarrow> no_sensitive_items path (Suc i) xs)"
| "no_sensitive_fields path [] = Inr ()"
| "no_sensitive_fields path ((k, v) # fs) =
     (if sensitive_key SENSITIVE_KEYS k
      then Inl (invalid_event (''Sensitive field is forbidden in event payload: '' @ path @ ''.'' @ k))
      else case assertNoSensitivePayload (path @ ''.'' @ k) v of
             Inl e \<Rightarrow> Inl e | Inr _ \<Rightarrow> no_sensitive_fields path fs)"

definition requireString :: "js \<Rightarrow> string \<Rightarrow> bool \<Rightarrow> unit res" where
  "requireString v label nullable =
     check_that ((nullable \<and> v = JNull) \<or> is_text v)
       (invalid_event (label @ '' must be a non-empty string'' @ (if nullable then '' or null'' else [])))"

record row =
  r_position :: nat
  r_event_id :: string
  r_event_type :: string
  r_aggregate_id :: string
  r_aggregate_type :: string
  r_sequence :: nat
  r_schema_version :: int
  r_occurred_at :: string
  r_correlation_id :: string
  r_causation_id :: string
  r_actor :: js
  r_operation_id :: "string option"
  r_payload :: js
  r_evidence_refs :: js

type_synonym stream = "string \<times> string"

definition stream_of :: "row \<Rightarrow> stream" where
  "stream_of r = (r_aggregate_type r, r_aggregate_id r)"

definition event_text :: "js \<Rightarrow> string \<Rightarrow> string" where
  "event_text event k = js_text (js_get event k)"

definition event_evidence :: "js \<Rightarrow> js" where
  "event_evidence event =
     (if js_get event ''evidence_refs'' = JUndef then JArr [] else js_get event ''evidence_refs'')"

definition check_event_header :: "js \<Rightarrow> string \<Rightarrow> unit res" where
  "check_event_header event aggregate_type =
     bind_res (check_that (is_obj event) (invalid_event ''Each event must be an object'')) (\<lambda>_.
     bind_res (requireString (js_get event ''event_id'') ''event_id'' False) (\<lambda>_.
     bind_res (check_that (uuid_like (event_text event ''event_id'')) (invalid_event ''event_id must be a UUID'')) (\<lambda>_.
     bind_res (requireString (js_get event ''event_type'') ''event_type'' False) (\<lambda>_.
     bind_res (requireString (js_get event ''occurred_at'') ''occurred_at'' False) (\<lambda>_.
     bind_res (requireString (js_get event ''correlation_id'') ''correlation_id'' False) (\<lambda>_.
     bind_res (requireString (js_get event ''causation_id'') ''causation_id'' False) (\<lambda>_.
     bind_res (requireString (js_get event ''operation_id'') ''operation_id'' (aggregate_type \<noteq> ''execution'')) (\<lambda>_.
     bind_res (check_that (is_int_ge 1 (js_get event ''schema_version''))
                 (invalid_event ''schema_version must be a positive integer'')) (\<lambda>_.
     check_that (canonical_utc (event_text event ''occurred_at''))
       (invalid_event ''occurred_at must be a canonical UTC timestamp with millisecond precision''))))))))))"

definition check_event_body :: "js \<Rightarrow> unit res" where
  "check_event_body event =
     bind_res (check_that (is_obj (js_get event ''actor'')) (invalid_event ''actor must be an object'')) (\<lambda>_.
     bind_res (check_that (js_get event ''payload'' \<noteq> JUndef) (invalid_event ''payload is required'')) (\<lambda>_.
     bind_res (check_that (is_str_array (event_evidence event))
                 (invalid_event ''evidence_refs must be an array of strings'')) (\<lambda>_.
     bind_res (ledger_assertStrictJson (js_get event ''actor'') ''actor'') (\<lambda>_.
     bind_res (ledger_assertStrictJson (js_get event ''payload'') ''payload'') (\<lambda>_.
     bind_res (assertNoSensitivePayload ''actor'' (js_get event ''actor'')) (\<lambda>_.
     assertNoSensitivePayload ''payload'' (js_get event ''payload'')))))))"

definition normalizeEvent :: "js \<Rightarrow> stream \<Rightarrow> nat \<Rightarrow> row res" where
  "normalizeEvent event stream sequence =
     bind_res (check_event_header event (fst stream)) (\<lambda>_.
     bind_res (check_event_body event) (\<lambda>_.
     Inr \<lparr>r_position = 0,
          r_event_id = event_text event ''event_id'',
          r_event_type = event_text event ''event_type'',
          r_aggregate_id = snd stream,
          r_aggregate_type = fst stream,
          r_sequence = sequence,
          r_schema_version = (case js_get event ''schema_version'' of JNum n \<Rightarrow> n | _ \<Rightarrow> 0),
          r_occurred_at = event_text event ''occurred_at'',
          r_correlation_id = event_text event ''correlation_id'',
          r_causation_id = event_text event ''causation_id'',
          r_actor = stableValue (js_get event ''actor''),
          r_operation_id = (case js_get event ''operation_id'' of JStr s \<Rightarrow> Some s | _ \<Rightarrow> None),
          r_payload = stableValue (js_get event ''payload''),
          r_evidence_refs = stableValue (event_evidence event)\<rparr>))"

definition samePersistedEvent :: "row \<Rightarrow> row \<Rightarrow> bool" where
  "samePersistedEvent r c \<longleftrightarrow>
     r_event_type r = r_event_type c \<and> r_aggregate_id r = r_aggregate_id c \<and>
     r_aggregate_type r = r_aggregate_type c \<and> r_sequence r = r_sequence c \<and>
     r_schema_version r = r_schema_version c \<and> r_occurred_at r = r_occurred_at c \<and>
     r_correlation_id r = r_correlation_id c \<and> r_causation_id r = r_causation_id c \<and>
     r_actor r = r_actor c \<and> r_operation_id r = r_operation_id c \<and>
     r_payload r = r_payload c \<and> r_evidence_refs r = r_evidence_refs c"

subsection \<open>The table\<close>

record ledger_metrics =
  append_count :: nat
  append_count_by :: "string \<Rightarrow> nat"
  events_appended :: nat
  events_appended_by :: "string \<Rightarrow> nat"
  concurrency_conflicts :: nat
  concurrency_conflicts_by :: "string \<Rightarrow> nat"
  event_id_conflicts :: nat
  idempotent_replays :: nat

record ledger =
  led_rows :: "row list"
  led_catalog :: "(string \<times> int) list"
  led_metrics :: ledger_metrics

definition new_ledger :: "(string \<times> int) list \<Rightarrow> ledger" where
  "new_ledger catalog =
     \<lparr>led_rows = [], led_catalog = catalog,
      led_metrics = \<lparr>append_count = 0, append_count_by = (\<lambda>_. 0), events_appended = 0,
        events_appended_by = (\<lambda>_. 0), concurrency_conflicts = 0, concurrency_conflicts_by = (\<lambda>_. 0),
        event_id_conflicts = 0, idempotent_replays = 0\<rparr>\<rparr>"

datatype ledger_error =
    ConcurrencyConflict string jserr
  | DuplicateEvent jserr
  | TableError jserr

fun error_of :: "ledger_error \<Rightarrow> jserr" where
  "error_of (ConcurrencyConflict t e) = e"
| "error_of (DuplicateEvent e) = e"
| "error_of (TableError e) = e"

definition conflict_error :: "stream \<Rightarrow> nat \<Rightarrow> nat \<Rightarrow> ledger_error" where
  "conflict_error s expected current =
     ConcurrencyConflict (fst s) (mk_err ''EXECUTION_STREAM_VERSION_CONFLICT''
       (''Expected '' @ fst s @ ''/'' @ snd s @ '' at version '' @ dec_nat expected @
        '', current version is '' @ dec_nat current))"

definition duplicate_error :: ledger_error where
  "duplicate_error = DuplicateEvent (mk_err ''EXECUTION_EVENT_ID_CONFLICT''
     ''Event identifiers already exist with different or partial content'')"

definition select_stream :: "row list \<Rightarrow> stream \<Rightarrow> row list" where
  "select_stream rows s = filter (\<lambda>r. stream_of r = s) rows"

definition select_version :: "row list \<Rightarrow> stream \<Rightarrow> nat" where
  "select_version rows s = foldr (\<lambda>r v. max (r_sequence r) v) (select_stream rows s) 0"

definition select_by_id :: "row list \<Rightarrow> string \<Rightarrow> row option" where
  "select_by_id rows i = find (\<lambda>r. r_event_id r = i) rows"

definition insert_row :: "(string \<times> int) list \<Rightarrow> row list \<Rightarrow> row \<Rightarrow> ledger_error + row list" where
  "insert_row catalog rows c =
     (if (r_event_type c, r_schema_version c) \<notin> set catalog
      then Inl (TableError (mk_err ''SQLITE_CONSTRAINT_TRIGGER'' ''execution event type/schema is not registered''))
      else if list_ex (\<lambda>r. r_event_id r = r_event_id c \<or>
                          (stream_of r = stream_of c \<and> r_sequence r = r_sequence c)) rows
      then Inl (TableError (mk_err ''SQLITE_CONSTRAINT_TRIGGER'' ''execution_events identity is immutable''))
      else Inr (rows @ [c\<lparr>r_position := Suc (length rows)\<rparr>]))"

fun insert_rows :: "(string \<times> int) list \<Rightarrow> row list \<Rightarrow> row list \<Rightarrow> ledger_error + row list" where
  "insert_rows catalog rows [] = Inr rows"
| "insert_rows catalog rows (c # cs) =
     (case insert_row catalog rows c of Inl e \<Rightarrow> Inl e | Inr rows' \<Rightarrow> insert_rows catalog rows' cs)"

record append_result =
  ar_events :: "row list"
  ar_version :: nat
  ar_idempotent :: bool

definition append_rows ::
    "(string \<times> int) list \<Rightarrow> row list \<Rightarrow> stream \<Rightarrow> nat \<Rightarrow> row list \<Rightarrow> ledger_error + (row list \<times> append_result)" where
  "append_rows catalog rows s expected candidates =
     (let existing = map (\<lambda>c. select_by_id rows (r_event_id c)) candidates in
      if list_ex (\<lambda>e. e \<noteq> None) existing then
        (if list_all2 (\<lambda>e c. case e of None \<Rightarrow> False | Some r \<Rightarrow> samePersistedEvent r c) existing candidates
         then Inr (rows, \<lparr>ar_events = map the existing, ar_version = select_version rows s, ar_idempotent = True\<rparr>)
         else Inl duplicate_error)
      else if select_version rows s \<noteq> expected
      then Inl (conflict_error s expected (select_version rows s))
      else case insert_rows catalog rows candidates of
             Inl e \<Rightarrow> Inl e
           | Inr rows' \<Rightarrow>
               Inr (rows', \<lparr>ar_events = map (\<lambda>c. the (select_by_id rows' (r_event_id c))) candidates,
                           ar_version = expected + length candidates, ar_idempotent = False\<rparr>))"

subsection \<open>Operations of the ledger\<close>

record append_request =
  rq_aggregate_id :: js
  rq_aggregate_type :: js
  rq_expected_version :: js
  rq_events :: js

record prepared =
  pr_stream :: stream
  pr_expected :: nat
  pr_candidates :: "row list"

definition prepareAppend :: "registry \<Rightarrow> append_request \<Rightarrow> prepared res" where
  "prepareAppend reg rq =
     bind_res (requireString (rq_aggregate_id rq) ''aggregate_id'' False) (\<lambda>_.
     bind_res (requireString (rq_aggregate_type rq) ''aggregate_type'' False) (\<lambda>_.
     bind_res (check_that (is_int_ge 0 (rq_expected_version rq))
                 (invalid_event ''expected_version must be a non-negative integer'')) (\<lambda>_.
     bind_res (check_that (case rq_events rq of JArr xs \<Rightarrow> xs \<noteq> [] | _ \<Rightarrow> False)
                 (invalid_event ''events must be a non-empty array'')) (\<lambda>_.
     let s = (js_text (rq_aggregate_type rq), js_text (rq_aggregate_id rq));
         expected = (case rq_expected_version rq of JNum n \<Rightarrow> nat n | _ \<Rightarrow> 0);
         events = js_items (rq_events rq) in
     bind_res (if fst s = ''execution'' then map_res (validateForAppend reg) events else Inr events) (\<lambda>_.
     bind_res (map_res (\<lambda>(i, e). normalizeEvent e s (expected + i + 1)) (enumerate 0 events)) (\<lambda>candidates.
     if length (uniq (map r_event_id candidates)) \<noteq> length candidates
     then Inl (invalid_event ''event_id values must be unique within an append'')
     else Inr \<lparr>pr_stream = s, pr_expected = expected, pr_candidates = candidates\<rparr>))))))"

definition bump :: "(string \<Rightarrow> nat) \<Rightarrow> string \<Rightarrow> nat \<Rightarrow> string \<Rightarrow> nat" where
  "bump f t n = f(t := f t + n)"

definition recordAttempt :: "string \<Rightarrow> ledger_metrics \<Rightarrow> ledger_metrics" where
  "recordAttempt t m = m\<lparr>append_count := append_count m + 1, append_count_by := bump (append_count_by m) t 1\<rparr>"

definition recordResult :: "string \<Rightarrow> append_result \<Rightarrow> ledger_metrics \<Rightarrow> ledger_metrics" where
  "recordResult t r m =
     (if ar_idempotent r then m\<lparr>idempotent_replays := idempotent_replays m + 1\<rparr>
      else m\<lparr>events_appended := events_appended m + length (ar_events r),
             events_appended_by := bump (events_appended_by m) t (length (ar_events r))\<rparr>)"

fun recordError :: "ledger_error \<Rightarrow> ledger_metrics \<Rightarrow> ledger_metrics" where
  "recordError (ConcurrencyConflict t e) m =
     m\<lparr>concurrency_conflicts := concurrency_conflicts m + 1,
       concurrency_conflicts_by := bump (concurrency_conflicts_by m) t 1\<rparr>"
| "recordError (DuplicateEvent e) m = m\<lparr>event_id_conflicts := event_id_conflicts m + 1\<rparr>"
| "recordError (TableError e) m = m"

definition ledger_append :: "registry \<Rightarrow> ledger \<Rightarrow> append_request \<Rightarrow> ledger \<times> append_result res" where
  "ledger_append reg l rq =
     (case prepareAppend reg rq of
        Inl e \<Rightarrow> (l, Inl e)
      | Inr p \<Rightarrow>
          let t = fst (pr_stream p); l1 = l\<lparr>led_metrics := recordAttempt t (led_metrics l)\<rparr> in
          case append_rows (led_catalog l) (led_rows l) (pr_stream p) (pr_expected p) (pr_candidates p) of
            Inl e \<Rightarrow> (l1\<lparr>led_metrics := recordError e (led_metrics l1)\<rparr>, Inl (error_of e))
          | Inr (rows, r) \<Rightarrow>
              (l1\<lparr>led_rows := rows, led_metrics := recordResult t r (led_metrics l1)\<rparr>, Inr r))"

fun append_prepared ::
    "(string \<times> int) list \<Rightarrow> row list \<Rightarrow> prepared list \<Rightarrow> ledger_error + (row list \<times> append_result list)" where
  "append_prepared catalog rows [] = Inr (rows, [])"
| "append_prepared catalog rows (p # ps) =
     (case append_rows catalog rows (pr_stream p) (pr_expected p) (pr_candidates p) of
        Inl e \<Rightarrow> Inl e
      | Inr (rows1, r) \<Rightarrow>
          (case append_prepared catalog rows1 ps of
             Inl e \<Rightarrow> Inl e
           | Inr (rows2, rs) \<Rightarrow> Inr (rows2, r # rs)))"

definition appendBatch ::
    "registry \<Rightarrow> ledger \<Rightarrow> append_request list \<Rightarrow> ledger \<times> append_result list res" where
  "appendBatch reg l rqs =
     (if rqs = [] then (l, Inl (invalid_event ''append batch must be a non-empty array''))
      else case map_res (prepareAppend reg) rqs of
        Inl e \<Rightarrow> (l, Inl e)
      | Inr ps \<Rightarrow>
          let m1 = fold (\<lambda>p m. recordAttempt (fst (pr_stream p)) m) ps (led_metrics l) in
          case append_prepared (led_catalog l) (led_rows l) ps of
            Inl e \<Rightarrow> (l\<lparr>led_metrics := recordError e m1\<rparr>, Inl (error_of e))
          | Inr (rows, rs) \<Rightarrow>
              (l\<lparr>led_rows := rows,
                 led_metrics := fold (\<lambda>(p, r) m. recordResult (fst (pr_stream p)) r m) (zip ps rs) m1\<rparr>,
               Inr rs))"

definition getVersion :: "ledger \<Rightarrow> js \<Rightarrow> js \<Rightarrow> nat res" where
  "getVersion l t i =
     bind_res (requireString t ''aggregate_type'' False) (\<lambda>_.
     bind_res (requireString i ''aggregate_id'' False) (\<lambda>_.
     Inr (select_version (led_rows l) (js_text t, js_text i))))"

definition readStream :: "ledger \<Rightarrow> js \<Rightarrow> js \<Rightarrow> int \<Rightarrow> int \<Rightarrow> row list res" where
  "readStream l t i from_version to_version =
     bind_res (requireString t ''aggregate_type'' False) (\<lambda>_.
     bind_res (requireString i ''aggregate_id'' False) (\<lambda>_.
     if from_version < 1 \<or> to_version < from_version
     then Inl (invalid_event ''Invalid stream version range'')
     else Inr (sort_key r_sequence
            (filter (\<lambda>r. from_version \<le> int (r_sequence r) \<and> int (r_sequence r) \<le> to_version)
               (select_stream (led_rows l) (js_text t, js_text i))))))"

definition cursor_ok :: "int \<Rightarrow> int \<Rightarrow> bool" where
  "cursor_ok after limit \<longleftrightarrow> 0 \<le> after \<and> 1 \<le> limit \<and> limit \<le> 1000"

definition readGlobal :: "ledger \<Rightarrow> int \<Rightarrow> int \<Rightarrow> js \<Rightarrow> row list res" where
  "readGlobal l after limit aggregate_type =
     (if \<not> cursor_ok after limit then Inl (invalid_event ''Invalid global stream cursor or limit'')
      else if aggregate_type = JUndef
      then Inr (take (nat limit) (sort_key r_position (filter (\<lambda>r. after < int (r_position r)) (led_rows l))))
      else bind_res (requireString aggregate_type ''aggregate_type'' False) (\<lambda>_.
        Inr (take (nat limit) (sort_key r_position
               (filter (\<lambda>r. after < int (r_position r) \<and> r_aggregate_type r = js_text aggregate_type) (led_rows l))))))"

definition readAggregates :: "ledger \<Rightarrow> int \<Rightarrow> int \<Rightarrow> (js \<times> js) list \<Rightarrow> row list res" where
  "readAggregates l after limit aggregates =
     (if \<not> cursor_ok after limit then Inl (invalid_event ''Invalid global stream cursor or limit'')
      else bind_res (map_res (\<lambda>(t, i).
              bind_res (requireString t ''aggregate_type'' False) (\<lambda>_.
              bind_res (requireString i ''aggregate_id'' False) (\<lambda>_.
              Inr (take (nat limit) (sort_key r_position
                (filter (\<lambda>r. after < int (r_position r)) (select_stream (led_rows l) (js_text t, js_text i)))))))) aggregates)
           (\<lambda>parts. Inr (take (nat limit) (sort_key r_position (concat parts)))))"

subsection \<open>Invariant of the table\<close>

definition rows_ok :: "row list \<Rightarrow> bool" where
  "rows_ok rows \<longleftrightarrow> map r_position rows = [1..<Suc (length rows)] \<and>
     distinct (map r_event_id rows) \<and>
     (\<forall>s. map r_sequence (select_stream rows s) = [1..<Suc (length (select_stream rows s))])"

definition row_clean :: "row \<Rightarrow> bool" where
  "row_clean r \<longleftrightarrow> clean SENSITIVE_KEYS (r_actor r) \<and> clean SENSITIVE_KEYS (r_payload r) \<and>
     is_strict (r_actor r) \<and> is_strict (r_payload r) \<and> canonical_utc (r_occurred_at r) \<and>
     uuid_like (r_event_id r)"

definition ledger_ok :: "ledger \<Rightarrow> bool" where
  "ledger_ok l \<longleftrightarrow> rows_ok (led_rows l) \<and> (\<forall>r \<in> set (led_rows l). row_clean r)"

lemma select_stream_simps [simp]:
  "select_stream [] s = []"
  "select_stream (r # rows) s = (if stream_of r = s then r # select_stream rows s else select_stream rows s)"
  "select_stream (xs @ ys) s = select_stream xs s @ select_stream ys s"
  by (simp_all add: select_stream_def)

lemma foldr_max_upt: "foldr (\<lambda>r v. max (f r) v) rs 0 = n"
  if "map f rs = [1..<Suc n]" for f :: "'a \<Rightarrow> nat"
proof -
  have "foldr (\<lambda>r v. max (f r) v) rs 0 = foldr max (map f rs) 0"
    by (induction rs) auto
  also have "\<dots> = foldr max [1..<Suc n] 0" using that by simp
  also have "\<dots> = n"
  proof (induction n)
    case (Suc n)
    have "foldr max xs a = max (foldr max xs 0) a" for xs and a :: nat
      by (induction xs) (auto simp: max.assoc)
    from this [of "[1..<Suc n]" "Suc n"] show ?case using Suc by simp
  qed simp
  finally show ?thesis .
qed

lemma select_version_length:
  "rows_ok rows \<Longrightarrow> select_version rows s = length (select_stream rows s)"
  unfolding select_version_def rows_ok_def by (intro foldr_max_upt) blast

lemma select_by_id_iff:
  "distinct (map r_event_id rows) \<Longrightarrow> select_by_id rows i = Some r \<longleftrightarrow> r \<in> set rows \<and> r_event_id r = i"
  unfolding select_by_id_def by (induction rows) auto

lemma select_by_id_None: "select_by_id rows i = None \<longleftrightarrow> i \<notin> r_event_id ` set rows"
  by (auto simp: select_by_id_def find_None_iff)

subsection \<open>Insertion\<close>

fun place :: "nat \<Rightarrow> row list \<Rightarrow> row list" where
  "place n [] = []"
| "place n (c # cs) = c\<lparr>r_position := Suc n\<rparr> # place (Suc n) cs"

lemma stream_of_place [simp]: "stream_of (c\<lparr>r_position := n\<rparr>) = stream_of c"
  by (simp add: stream_of_def)

lemma place_simps [simp]:
  "length (place n cs) = length cs"
  "map r_event_id (place n cs) = map r_event_id cs"
  "map r_sequence (place n cs) = map r_sequence cs"
  "map stream_of (place n cs) = map stream_of cs"
  by (induction cs arbitrary: n) auto

lemma set_place: "p \<in> set (place n cs) \<Longrightarrow> \<exists>c \<in> set cs. \<exists>m. p = c\<lparr>r_position := m\<rparr>"
  by (induction cs arbitrary: n) auto

lemma insert_row_Inr:
  "insert_row catalog rows c = Inr rows' \<Longrightarrow>
     rows' = rows @ [c\<lparr>r_position := Suc (length rows)\<rparr>] \<and> r_event_id c \<notin> r_event_id ` set rows \<and>
     (r_event_type c, r_schema_version c) \<in> set catalog"
  by (auto simp: insert_row_def list_ex_iff split: if_splits)

lemma insert_rows_Inr:
  "insert_rows catalog rows cs = Inr rows' \<Longrightarrow> rows' = rows @ place (length rows) cs"
proof (induction cs arbitrary: rows)
  case (Cons c cs)
  then obtain rows1 where "insert_row catalog rows c = Inr rows1" "insert_rows catalog rows1 cs = Inr rows'"
    by (auto split: sum.splits)
  with Cons.IH [of rows1] show ?case by (auto dest!: insert_row_Inr)
qed simp

definition numbered :: "stream \<Rightarrow> nat \<Rightarrow> row list \<Rightarrow> bool" where
  "numbered s n cs \<longleftrightarrow> (\<forall>c \<in> set cs. stream_of c = s) \<and> map r_sequence cs = [Suc n..<Suc (n + length cs)]"

lemma numbered_Cons:
  "numbered s n (c # cs) \<longleftrightarrow> stream_of c = s \<and> r_sequence c = Suc n \<and> numbered s (Suc n) cs"
  by (auto simp: numbered_def upt_conv_Cons)

lemma insert_row_ok:
  assumes "rows_ok rows" "insert_row catalog rows c = Inr rows'"
    "r_sequence c = Suc (length (select_stream rows (stream_of c)))"
  shows "rows_ok rows'"
  using assms(1,3) insert_row_Inr [OF assms(2)] by (auto simp: rows_ok_def)

lemma insert_rows_ok:
  assumes "rows_ok rows" "insert_rows catalog rows cs = Inr rows'"
    "numbered s (length (select_stream rows s)) cs"
  shows "rows_ok rows'"
  using assms
proof (induction cs arbitrary: rows)
  case (Cons c cs)
  from Cons.prems(3) have c: "stream_of c = s" "r_sequence c = Suc (length (select_stream rows s))"
      "numbered s (Suc (length (select_stream rows s))) cs"
    by (simp_all add: numbered_Cons)
  obtain rows1 where r: "insert_row catalog rows c = Inr rows1" "insert_rows catalog rows1 cs = Inr rows'"
    using Cons.prems(2) by (auto split: sum.splits)
  have "rows_ok rows1" using insert_row_ok [OF Cons.prems(1) r(1)] c by simp
  moreover have "length (select_stream rows1 s) = Suc (length (select_stream rows s))"
    using insert_row_Inr [OF r(1)] c(1) by simp
  ultimately show ?case using Cons.IH r(2) c(3) by metis
qed simp

lemma insert_rows_registered:
  "insert_rows catalog rows cs = Inr rows' \<Longrightarrow> c \<in> set cs \<Longrightarrow>
     (r_event_type c, r_schema_version c) \<in> set catalog"
  by (induction cs arbitrary: rows) (auto split: sum.splits dest!: insert_row_Inr)

subsection \<open>One append\<close>

definition prepared_ok :: "prepared \<Rightarrow> bool" where
  "prepared_ok p \<longleftrightarrow> pr_candidates p \<noteq> [] \<and> distinct (map r_event_id (pr_candidates p)) \<and>
     numbered (pr_stream p) (pr_expected p) (pr_candidates p) \<and> (\<forall>c \<in> set (pr_candidates p). row_clean c)"

lemma no_sensitive_clean:
  "assertNoSensitivePayload path v = Inr u \<longleftrightarrow> clean SENSITIVE_KEYS v"
  "no_sensitive_items path i xs = Inr u \<longleftrightarrow> clean_items SENSITIVE_KEYS xs"
  "no_sensitive_fields path fs = Inr u \<longleftrightarrow> clean_fields SENSITIVE_KEYS fs"
  by (induction path v and path i xs and path fs
      rule: assertNoSensitivePayload_no_sensitive_items_no_sensitive_fields.induct)
    (auto split: sum.splits)

lemma normalizeEvent_Inr:
  assumes "normalizeEvent e s n = Inr c"
  shows "stream_of c = s" "r_sequence c = n" "row_clean c" "r_event_id c = event_text e ''event_id''"
    "r_event_type c = event_text e ''event_type''" "r_payload c = stableValue (js_get e ''payload'')"
    "r_actor c = stableValue (js_get e ''actor'')" "r_correlation_id c = event_text e ''correlation_id''"
    "r_causation_id c = event_text e ''causation_id''"
  using assms
  by (auto simp: normalizeEvent_def stream_of_def row_clean_def check_event_header_def
      check_event_body_def no_sensitive_clean ledger_assertStrictJson_def strict_json_iff)

lemma normalized_numbered:
  "map_res (\<lambda>(i, e). normalizeEvent e s (n + i + 1)) (enumerate m es) = Inr cs \<Longrightarrow>
     numbered s (n + m) cs \<and> length cs = length es"
proof (induction es arbitrary: m cs)
  case Nil
  then show ?case by (simp add: numbered_def)
next
  case (Cons e es)
  from Cons.prems obtain c cs' where c: "normalizeEvent e s (n + m + 1) = Inr c"
    and cs: "cs = c # cs'" "map_res (\<lambda>(i, e). normalizeEvent e s (n + i + 1)) (enumerate (Suc m) es) = Inr cs'"
    by (auto split: sum.splits)
  show ?case
    using Cons.IH [OF cs(2)] normalizeEvent_Inr [OF c] cs(1) by (simp add: numbered_Cons)
qed

lemma prepareAppend_ok:
  assumes "prepareAppend reg rq = Inr p"
  shows "prepared_ok p" "length (pr_candidates p) = length (js_items (rq_events rq))"
    "pr_stream p = (js_text (rq_aggregate_type rq), js_text (rq_aggregate_id rq))"
    "rq_expected_version rq = JNum (int (pr_expected p))"
proof -
  obtain es cs where e: "rq_events rq = JArr es" "es \<noteq> []"
    and v: "is_int_ge 0 (rq_expected_version rq)"
    and cs: "map_res (\<lambda>(i, e). normalizeEvent e (js_text (rq_aggregate_type rq), js_text (rq_aggregate_id rq))
        ((case rq_expected_version rq of JNum n \<Rightarrow> nat n | _ \<Rightarrow> 0) + i + 1)) (enumerate 0 es) = Inr cs"
    and d: "length (uniq (map r_event_id cs)) = length cs"
    and p: "p = \<lparr>pr_stream = (js_text (rq_aggregate_type rq), js_text (rq_aggregate_id rq)),
       pr_expected = (case rq_expected_version rq of JNum n \<Rightarrow> nat n | _ \<Rightarrow> 0), pr_candidates = cs\<rparr>"
    using assms by (auto simp: prepareAppend_def Let_def split: js.splits if_splits)
  show "pr_stream p = (js_text (rq_aggregate_type rq), js_text (rq_aggregate_id rq))" using p by simp
  show "rq_expected_version rq = JNum (int (pr_expected p))"
    using v p by (cases "rq_expected_version rq") auto
  from normalized_numbered [OF cs] have n: "numbered (pr_stream p) (pr_expected p) cs" "length cs = length es"
    using p by simp_all
  then show "length (pr_candidates p) = length (js_items (rq_events rq))" using p e by simp
  have "row_clean c" if "c \<in> set cs" for c
    using map_res_set [OF cs that] by (auto dest: normalizeEvent_Inr)
  moreover have "distinct (map r_event_id cs)"
    using d length_uniq_eq_iff [of "map r_event_id cs"] by simp
  ultimately show "prepared_ok p" using n p e by (auto simp: prepared_ok_def)
qed

lemma select_stream_place:
  "(\<forall>c \<in> set cs. stream_of c = s) \<Longrightarrow>
     select_stream (place n cs) s' = (if s' = s then place n cs else [])"
  by (induction cs arbitrary: n) auto

lemma find_placed:
  assumes "distinct (map r_event_id (rows @ place n cs))"
  shows "map (\<lambda>c. the (select_by_id (rows @ place n cs) (r_event_id c))) cs = place n cs"
proof (rule nth_equalityI)
  fix i assume "i < length (map (\<lambda>c. the (select_by_id (rows @ place n cs) (r_event_id c))) cs)"
  then have i: "i < length cs" by simp
  have id: "r_event_id (place n cs ! i) = r_event_id (cs ! i)"
    using i by (metis nth_map place_simps(1,2))
  have "select_by_id (rows @ place n cs) (r_event_id (cs ! i)) = Some (place n cs ! i)"
    unfolding select_by_id_iff [OF assms] using i id by simp
  then show "map (\<lambda>c. the (select_by_id (rows @ place n cs) (r_event_id c))) cs ! i = place n cs ! i"
    using i by simp
qed simp

lemma append_rows_fresh:
  assumes "rows_ok rows" "prepared_ok p"
    "append_rows catalog rows (pr_stream p) (pr_expected p) (pr_candidates p) = Inr (rows', r)"
    "\<not> ar_idempotent r"
  shows "pr_expected p = length (select_stream rows (pr_stream p))"
    "rows' = rows @ place (length rows) (pr_candidates p)" "rows_ok rows'"
    "ar_events r = place (length rows) (pr_candidates p)"
    "ar_version r = pr_expected p + length (pr_candidates p)"
    "set (map r_event_id (pr_candidates p)) \<inter> r_event_id ` set rows = {}"
proof -
  define cs where "cs = pr_candidates p"
  have none: "\<not> list_ex (\<lambda>e. e \<noteq> None) (map (\<lambda>c. select_by_id rows (r_event_id c)) cs)"
    and ver: "select_version rows (pr_stream p) = pr_expected p"
    and ins: "insert_rows catalog rows cs = Inr rows'"
    and r: "r = \<lparr>ar_events = map (\<lambda>c. the (select_by_id rows' (r_event_id c))) cs,
        ar_version = pr_expected p + length cs, ar_idempotent = False\<rparr>"
    using assms(3,4) unfolding append_rows_def Let_def cs_def by (auto split: if_splits sum.splits)
  show ex: "pr_expected p = length (select_stream rows (pr_stream p))"
    using ver select_version_length [OF assms(1)] by simp
  show rows': "rows' = rows @ place (length rows) (pr_candidates p)"
    using insert_rows_Inr [OF ins] by (simp add: cs_def)
  show ok: "rows_ok rows'"
    using insert_rows_ok [OF assms(1) ins, of "pr_stream p"] assms(2) ex
    by (simp add: prepared_ok_def cs_def)
  show "ar_version r = pr_expected p + length (pr_candidates p)" using r by (simp add: cs_def)
  show "ar_events r = place (length rows) (pr_candidates p)"
    using find_placed [of rows "length rows" cs] ok rows' r by (simp add: rows_ok_def cs_def)
  show "set (map r_event_id (pr_candidates p)) \<inter> r_event_id ` set rows = {}"
    using none by (auto simp: list_ex_iff select_by_id_None cs_def)
qed

lemma append_rows_idempotent:
  assumes "append_rows catalog rows s n cs = Inr (rows', r)" "ar_idempotent r"
  shows "rows' = rows \<and> ar_version r = select_version rows s"
  using assms unfolding append_rows_def Let_def by (auto split: if_splits sum.splits)

lemma append_rows_ok:
  assumes "rows_ok rows" "prepared_ok p"
    "append_rows catalog rows (pr_stream p) (pr_expected p) (pr_candidates p) = Inr (rows', r)"
  shows "rows_ok rows' \<and> (\<exists>n. rows' = rows @ n \<and> (\<forall>x \<in> set n. row_clean x))"
proof (cases "ar_idempotent r")
  case True
  then show ?thesis using append_rows_idempotent [OF assms(3)] assms(1) by auto
next
  case False
  have "row_clean x" if "x \<in> set (place (length rows) (pr_candidates p))" for x
    using set_place [OF that] assms(2) by (auto simp: prepared_ok_def row_clean_def)
  then show ?thesis using append_rows_fresh(2,3) [OF assms False] by blast
qed

lemma append_prepared_ok:
  "append_prepared catalog rows ps = Inr (rows', rs) \<Longrightarrow> rows_ok rows \<Longrightarrow> \<forall>p \<in> set ps. prepared_ok p \<Longrightarrow>
     rows_ok rows' \<and> (\<exists>n. rows' = rows @ n \<and> (\<forall>x \<in> set n. row_clean x)) \<and> length rs = length ps"
proof (induction ps arbitrary: rows rs)
  case (Cons p ps)
  obtain rows1 r rs' where a: "append_rows catalog rows (pr_stream p) (pr_expected p) (pr_candidates p) = Inr (rows1, r)"
    and b: "append_prepared catalog rows1 ps = Inr (rows', rs')" "rs = r # rs'"
    using Cons.prems(1) by (auto split: sum.splits)
  from append_rows_ok [OF Cons.prems(2) _ a] Cons.prems(3)
  obtain n where n: "rows_ok rows1" "rows1 = rows @ n" "\<forall>x \<in> set n. row_clean x" by auto
  with Cons.IH [OF b(1)] Cons.prems(3) obtain m where
    "rows_ok rows'" "rows' = rows1 @ m" "\<forall>x \<in> set m. row_clean x" "length rs' = length ps" by auto
  with n b(2) show ?case by auto
qed auto

subsection \<open>Guarantees of the ledger\<close>

lemma ledger_append_cases:
  assumes "ledger_append reg l rq = (l', res)"
  shows "(\<exists>e. res = Inl e \<and> led_rows l' = led_rows l \<and> led_catalog l' = led_catalog l) \<or>
     (\<exists>p r. res = Inr r \<and> prepareAppend reg rq = Inr p \<and> led_catalog l' = led_catalog l \<and>
        append_rows (led_catalog l) (led_rows l) (pr_stream p) (pr_expected p) (pr_candidates p) =
          Inr (led_rows l', r))"
  using assms by (auto simp: ledger_append_def Let_def split: sum.splits)

lemma ledger_append_Inr:
  assumes "ledger_append reg l rq = (l', Inr r)"
  obtains p where "prepareAppend reg rq = Inr p" "prepared_ok p" "led_catalog l' = led_catalog l"
    "append_rows (led_catalog l) (led_rows l) (pr_stream p) (pr_expected p) (pr_candidates p) =
       Inr (led_rows l', r)"
  using ledger_append_cases [OF assms] prepareAppend_ok(1) by auto

lemma ledger_append_ok:
  assumes "ledger_ok l" "ledger_append reg l rq = (l', res)"
  shows "ledger_ok l' \<and> (\<exists>n. led_rows l' = led_rows l @ n)"
proof (cases res)
  case (Inl e)
  then show ?thesis using ledger_append_cases [OF assms(2)] assms(1) by (auto simp: ledger_ok_def)
next
  case (Inr r)
  then obtain p where "prepared_ok p" "append_rows (led_catalog l) (led_rows l) (pr_stream p)
      (pr_expected p) (pr_candidates p) = Inr (led_rows l', r)"
    using assms(2) by (auto elim: ledger_append_Inr)
  with append_rows_ok assms(1) show ?thesis unfolding ledger_ok_def by fastforce
qed

lemma appendBatch_cases:
  assumes "appendBatch reg l rqs = (l', res)"
  shows "(\<exists>e. res = Inl e \<and> led_rows l' = led_rows l) \<or>
     (\<exists>ps rs. res = Inr rs \<and> map_res (prepareAppend reg) rqs = Inr ps \<and>
        append_prepared (led_catalog l) (led_rows l) ps = Inr (led_rows l', rs))"
  using assms by (auto simp: appendBatch_def Let_def split: sum.splits if_splits)

lemma appendBatch_ok:
  assumes "ledger_ok l" "appendBatch reg l rqs = (l2, res2)"
  shows "ledger_ok l2 \<and> (\<exists>n. led_rows l2 = led_rows l @ n)"
  using appendBatch_cases [OF assms(2)]
proof (elim disjE exE conjE)
  fix ps rs assume ps: "map_res (prepareAppend reg) rqs = Inr ps"
    and a: "append_prepared (led_catalog l) (led_rows l) ps = Inr (led_rows l2, rs)"
  have "\<forall>p \<in> set ps. prepared_ok p"
    using map_res_set [OF ps] prepareAppend_ok(1) by blast
  with append_prepared_ok [OF a] assms(1) show ?thesis unfolding ledger_ok_def by fastforce
qed (use assms(1) in \<open>simp add: ledger_ok_def\<close>)

text \<open>
  C7. Appends and batches keep the table well formed and only ever extend it: positions count
  the rows, event identifiers stay unique, every stream is numbered 1, 2, 3 and so on without a
  gap, no stored row is changed or removed, and no stored actor or payload has, at any depth, a
  key that names a credential.
\<close>

theorem ledger_append_only:
  assumes "ledger_ok l"
  shows "ledger_ok (fst (ledger_append reg l rq)) \<and>
     (\<exists>n. led_rows (fst (ledger_append reg l rq)) = led_rows l @ n) \<and>
     ledger_ok (fst (appendBatch reg l rqs)) \<and>
     (\<exists>n. led_rows (fst (appendBatch reg l rqs)) = led_rows l @ n)"
proof -
  obtain l1 r1 l2 r2 where "ledger_append reg l rq = (l1, r1)" "appendBatch reg l rqs = (l2, r2)"
    by (metis surj_pair)
  with ledger_append_ok [OF assms] appendBatch_ok [OF assms] show ?thesis by simp
qed

lemma new_ledger_ok [simp]: "ledger_ok (new_ledger catalog)"
  by (simp add: ledger_ok_def rows_ok_def new_ledger_def)

definition demo_append :: append_request where
  "demo_append = \<lparr>rq_aggregate_id = JStr ''op-1'', rq_aggregate_type = JStr ''execution'',
     rq_expected_version = JNum 0, rq_events = JArr [JObj
       [(''event_id'', JStr ''00000000-0000-4000-8000-000000000001''),
        (''event_type'', JStr ''ExecutionStarted''), (''schema_version'', JNum 1),
        (''occurred_at'', JStr ''2026-01-01T00:00:00.000Z''), (''correlation_id'', JStr ''c''),
        (''causation_id'', JStr ''d''), (''actor'', JObj [(''id'', JStr ''a'')]),
        (''operation_id'', JStr ''op-1''), (''payload'', demo_started)]]\<rparr>"

definition demo_catalog :: "(string \<times> int) list" where
  "demo_catalog = map (\<lambda>i. (li_type i, 1)) lifecycle"

definition demo_ledger :: ledger where
  "demo_ledger = fst (ledger_append execution_registry (new_ledger demo_catalog) demo_append)"

theorem ledger_append_only_witness:
  "ledger_ok (new_ledger demo_catalog) \<and> ledger_ok demo_ledger"
  using ledger_append_only [OF new_ledger_ok, of execution_registry demo_catalog demo_append]
  by (simp add: demo_ledger_def)

lemma demo_ledger_length: "length (led_rows demo_ledger) = 1"
  by code_simp

text \<open>
  A successful append that is not a replay happens only at the expected version: it puts
  the new facts, numbered consecutively, at the end of their own stream, reports the new
  version, and leaves every other stream as it was.
\<close>

theorem append_extends_stream:
  assumes "ledger_ok l" and "ledger_append reg l rq = (l', Inr r)" and "\<not> ar_idempotent r"
    and "s = (js_text (rq_aggregate_type rq), js_text (rq_aggregate_id rq))"
  shows "rq_expected_version rq = JNum (int (length (select_stream (led_rows l) s))) \<and>
     select_stream (led_rows l') s = select_stream (led_rows l) s @ ar_events r \<and>
     length (ar_events r) = length (js_items (rq_events rq)) \<and>
     ar_version r = length (select_stream (led_rows l') s) \<and>
     (\<forall>s'. s' \<noteq> s \<longrightarrow> select_stream (led_rows l') s' = select_stream (led_rows l) s')"
proof -
  obtain p where p: "prepareAppend reg rq = Inr p" "prepared_ok p"
    and a: "append_rows (led_catalog l) (led_rows l) (pr_stream p) (pr_expected p) (pr_candidates p) =
       Inr (led_rows l', r)"
    using assms(2) by (elim ledger_append_Inr)
  have ok: "rows_ok (led_rows l)" using assms(1) by (simp add: ledger_ok_def)
  note f = append_rows_fresh [OF ok p(2) a assms(3)] and q = prepareAppend_ok [OF p(1)]
  have "\<forall>c \<in> set (pr_candidates p). stream_of c = pr_stream p"
    using p(2) by (simp add: prepared_ok_def numbered_def)
  note sp = select_stream_place [OF this]
  show ?thesis using f q assms(4) by (simp add: sp)
qed

theorem append_extends_stream_witness:
  "\<exists>r. ledger_append execution_registry (new_ledger demo_catalog) demo_append = (demo_ledger, Inr r) \<and>
     select_stream (led_rows demo_ledger) (''execution'', ''op-1'') = ar_events r"
proof -
  have x: "(case snd (ledger_append execution_registry (new_ledger demo_catalog) demo_append) of
      Inl _ \<Rightarrow> False | Inr r \<Rightarrow> \<not> ar_idempotent r)" by code_simp
  then obtain r where r: "ledger_append execution_registry (new_ledger demo_catalog) demo_append = (demo_ledger, Inr r)"
      "\<not> ar_idempotent r"
    unfolding demo_ledger_def by (auto split: sum.splits simp: prod_eq_iff)
  from append_extends_stream [OF new_ledger_ok r refl] r show ?thesis
    by (simp add: demo_append_def new_ledger_def)
qed

lemma samePersistedEvent_placed [simp]: "samePersistedEvent (c\<lparr>r_position := n\<rparr>) c"
  by (simp add: samePersistedEvent_def)

lemma list_all2_placed: "list_all2 (\<lambda>p c. samePersistedEvent p c) (place n cs) cs"
  by (induction cs arbitrary: n) auto

lemma append_rows_retry:
  assumes "rows_ok rows" "prepared_ok p"
    "append_rows catalog rows (pr_stream p) (pr_expected p) (pr_candidates p) = Inr (rows', r)"
  shows "append_rows catalog rows' (pr_stream p) (pr_expected p) (pr_candidates p) =
     Inr (rows', r\<lparr>ar_idempotent := True\<rparr>)"
proof (cases "ar_idempotent r")
  case True
  with append_rows_idempotent [OF assms(3)] assms(3) show ?thesis by simp
next
  case False
  define cs where "cs = pr_candidates p"
  note f = append_rows_fresh [OF assms False]
  have d: "distinct (map r_event_id (rows @ place (length rows) cs))"
    using f(2,3) by (simp add: rows_ok_def cs_def)
  have ex: "map (\<lambda>c. select_by_id rows' (r_event_id c)) cs = map Some (place (length rows) cs)"
  proof (rule nth_equalityI)
    fix i assume "i < length (map (\<lambda>c. select_by_id rows' (r_event_id c)) cs)"
    then have i: "i < length cs" by simp
    have "r_event_id (place (length rows) cs ! i) = r_event_id (cs ! i)"
      using i by (metis nth_map place_simps(1,2))
    then show "map (\<lambda>c. select_by_id rows' (r_event_id c)) cs ! i = map Some (place (length rows) cs) ! i"
      using i f(2) select_by_id_iff [OF d] by (simp add: cs_def)
  qed simp
  have ne: "cs \<noteq> []" using assms(2) by (simp add: prepared_ok_def cs_def)
  have ver: "select_version rows' (pr_stream p) = ar_version r"
    using f assms(2) select_version_length [OF f(3)]
      select_stream_place [of "pr_candidates p" "pr_stream p" "length rows" "pr_stream p"]
    by (simp add: prepared_ok_def numbered_def)
  show ?thesis
    unfolding append_rows_def Let_def cs_def [symmetric] ex
    using list_all2_placed [of "length rows" cs] f(4) ver ne
    by (cases cs) (simp_all add: list_all2_map1 comp_def cs_def)
qed

text \<open>
  Appends are idempotent by event identifier: repeating an append that succeeded, even after
  it succeeded as a replay, succeeds again as a replay, returns the same facts and version, and
  adds no row.
\<close>

theorem append_retry_idempotent:
  assumes "ledger_ok l" and "ledger_append reg l rq = (l1, Inr r)"
  shows "\<exists>l2. ledger_append reg l1 rq = (l2, Inr (r\<lparr>ar_idempotent := True\<rparr>)) \<and> led_rows l2 = led_rows l1"
proof -
  obtain p where p: "prepareAppend reg rq = Inr p" "prepared_ok p" "led_catalog l1 = led_catalog l"
    and a: "append_rows (led_catalog l) (led_rows l) (pr_stream p) (pr_expected p) (pr_candidates p) =
       Inr (led_rows l1, r)"
    using assms(2) by (elim ledger_append_Inr)
  have "rows_ok (led_rows l)" using assms(1) by (simp add: ledger_ok_def)
  from append_rows_retry [OF this p(2) a] p(1,3) show ?thesis
    by (simp add: ledger_append_def Let_def)
qed

lemma demo_append_Inr:
  "\<exists>r. ledger_append execution_registry (new_ledger demo_catalog) demo_append = (demo_ledger, Inr r)"
proof -
  have "isl (snd (ledger_append execution_registry (new_ledger demo_catalog) demo_append)) = False"
    by code_simp
  then show ?thesis unfolding demo_ledger_def using not_isl_Inr by (metis prod.collapse)
qed

theorem append_retry_idempotent_witness:
  "\<exists>l2 r. ledger_append execution_registry demo_ledger demo_append = (l2, Inr r) \<and>
     ar_idempotent r \<and> led_rows l2 = led_rows demo_ledger"
proof -
  obtain r where "ledger_append execution_registry (new_ledger demo_catalog) demo_append = (demo_ledger, Inr r)"
    using demo_append_Inr by blast
  from append_retry_idempotent [OF new_ledger_ok this] show ?thesis by fastforce
qed

subsection \<open>The interface clients of the ledger rely on\<close>

text \<open>
  An event log with optimistic concurrency: \<open>put s k n es\<close> writes \<open>es\<close> to stream
  \<open>k\<close> when the stream holds exactly \<open>n\<close> events and otherwise fails.
\<close>

locale event_log =
  fixes ok :: "'s \<Rightarrow> bool"
    and stream_read :: "'s \<Rightarrow> 'k \<Rightarrow> 'r list"
    and put :: "'s \<Rightarrow> 'k \<Rightarrow> nat \<Rightarrow> 'e list \<Rightarrow> 's option"
  assumes put_ok: "ok s \<Longrightarrow> put s k n es = Some s' \<Longrightarrow> ok s'"
    and put_version: "ok s \<Longrightarrow> put s k n es = Some s' \<Longrightarrow> length (stream_read s k) = n"
    and put_length: "ok s \<Longrightarrow> put s k n es = Some s' \<Longrightarrow> length (stream_read s' k) = n + length es"
    and put_prefix: "ok s \<Longrightarrow> put s k n es = Some s' \<Longrightarrow> take n (stream_read s' k) = stream_read s k"
    and put_frame: "ok s \<Longrightarrow> put s k n es = Some s' \<Longrightarrow> k' \<noteq> k \<Longrightarrow> stream_read s' k' = stream_read s k'"
    and put_nonempty: "put s k n es = Some s' \<Longrightarrow> es \<noteq> []"
begin

fun put_all :: "'s \<Rightarrow> ('k \<times> nat \<times> 'e list) list \<Rightarrow> 's" where
  "put_all s [] = s"
| "put_all s ((k, n, es) # ws) = put_all (case put s k n es of None \<Rightarrow> s | Some s' \<Rightarrow> s') ws"

lemma put_step:
  assumes "ok s"
  shows "ok (case put s k n es of None \<Rightarrow> s | Some s' \<Rightarrow> s')"
    and "\<exists>ys. stream_read (case put s k n es of None \<Rightarrow> s | Some s' \<Rightarrow> s') j = stream_read s j @ ys"
proof -
  show "ok (case put s k n es of None \<Rightarrow> s | Some s' \<Rightarrow> s')"
    using assms put_ok by (auto split: option.split)
  show "\<exists>ys. stream_read (case put s k n es of None \<Rightarrow> s | Some s' \<Rightarrow> s') j = stream_read s j @ ys"
  proof (cases "put s k n es")
    case (Some s')
    then show ?thesis
      using put_frame [OF assms Some, of j] put_prefix [OF assms Some]
        append_take_drop_id [of n "stream_read s' k"]
      by (cases "j = k") (auto, metis)
  qed simp
qed

lemma put_all_grows:
  "ok s \<Longrightarrow> ok (put_all s ws) \<and> (\<exists>ys. stream_read (put_all s ws) j = stream_read s j @ ys)"
proof (induction s ws rule: put_all.induct)
  case (2 s k n es ws)
  from 2(2) put_step(1) [OF 2(2), of k n es] put_step(2) [OF 2(2), of k n es j] 2(1)
  show ?case by fastforce
qed simp

text \<open>Once a write at version \<open>n\<close> has succeeded, no later write of any order succeeds there.\<close>

lemma put_at_most_once:
  assumes "ok s" "put s k n es = Some s'"
  shows "put (put_all s' ws) k n es' = None"
proof (rule ccontr)
  assume "put (put_all s' ws) k n es' \<noteq> None"
  then obtain t where t: "put (put_all s' ws) k n es' = Some t" by blast
  have ok': "ok s'" by (rule put_ok [OF assms])
  obtain ys where "ok (put_all s' ws)" "stream_read (put_all s' ws) k = stream_read s' k @ ys"
    using put_all_grows [OF ok', of ws k] by blast
  with put_version [OF _ t] put_length [OF assms] put_nonempty [OF assms(2)] show False by simp
qed

end

definition log_request :: "stream \<Rightarrow> nat \<Rightarrow> js list \<Rightarrow> append_request" where
  "log_request s n es = \<lparr>rq_aggregate_id = JStr (snd s), rq_aggregate_type = JStr (fst s),
     rq_expected_version = JNum (int n), rq_events = JArr es\<rparr>"

definition log_put :: "registry \<Rightarrow> ledger \<Rightarrow> stream \<Rightarrow> nat \<Rightarrow> js list \<Rightarrow> ledger option" where
  "log_put reg l s n es =
     (case ledger_append reg l (log_request s n es) of
        (l', Inr r) \<Rightarrow> if ar_idempotent r then None else Some l'
      | (l', Inl e) \<Rightarrow> None)"

definition log_read :: "ledger \<Rightarrow> stream \<Rightarrow> row list" where
  "log_read l s = select_stream (led_rows l) s"

lemma log_put_Some:
  assumes "log_put reg l s n es = Some l'"
  obtains r where "ledger_append reg l (log_request s n es) = (l', Inr r)" "\<not> ar_idempotent r"
  using assms by (auto simp: log_put_def split: prod.splits sum.splits if_splits)

lemma log_put_extends:
  assumes "ledger_ok l" "log_put reg l s n es = Some l'"
  shows "length (log_read l s) = n" "length (log_read l' s) = n + length es"
    "take n (log_read l' s) = log_read l s" "s' \<noteq> s \<Longrightarrow> log_read l' s' = log_read l s'" "ledger_ok l'"
    "es \<noteq> []"
proof -
  obtain r where a: "ledger_append reg l (log_request s n es) = (l', Inr r)" "\<not> ar_idempotent r"
    using assms(2) by (rule log_put_Some)
  obtain p where p: "prepareAppend reg (log_request s n es) = Inr p" "prepared_ok p"
    and ar: "append_rows (led_catalog l) (led_rows l) (pr_stream p) (pr_expected p) (pr_candidates p) =
       Inr (led_rows l', r)"
    using a(1) by (elim ledger_append_Inr)
  have ok: "rows_ok (led_rows l)" using assms(1) by (simp add: ledger_ok_def)
  have "\<forall>c \<in> set (pr_candidates p). stream_of c = pr_stream p"
    using p(2) by (simp add: prepared_ok_def numbered_def)
  note sp = select_stream_place [OF this] and f = append_rows_fresh [OF ok p(2) ar a(2)]
    and q = prepareAppend_ok [OF p(1)]
  have n: "pr_expected p = n" "pr_stream p = s" "length (pr_candidates p) = length es"
    using q by (simp_all add: log_request_def)
  show "length (log_read l s) = n" "length (log_read l' s) = n + length es"
    "take n (log_read l' s) = log_read l s" "s' \<noteq> s \<Longrightarrow> log_read l' s' = log_read l s'"
    using f n by (simp_all add: log_read_def sp)
  show "ledger_ok l'" using ledger_append_ok [OF assms(1) a(1)] by simp
  show "es \<noteq> []" using p(2) n by (auto simp: prepared_ok_def)
qed

interpretation led: event_log ledger_ok log_read "log_put reg" for reg
proof
  fix s k n es s'
  assume p: "log_put reg s k n es = Some s'"
  show "es \<noteq> []"
    using p by (auto simp: log_put_def ledger_append_def prepareAppend_def log_request_def
        split: prod.splits sum.splits if_splits)
qed (auto dest: log_put_extends)

text \<open>
  C6. Optimistic concurrency: once a writer has appended to a stream at some version, no later
  append to that stream at the same version adds facts, whatever other appends succeed or fail
  in between.
\<close>

theorem append_at_version_once:
  assumes "ledger_ok l" and "log_put reg l s n es = Some l'"
  shows "log_put reg (led.put_all reg l' ws) s n es' = None"
  using assms by (rule led.put_at_most_once)

lemma demo_log_put:
  "\<exists>l'. log_put execution_registry (new_ledger demo_catalog) (''execution'', ''op-1'') 0
     (js_items (rq_events demo_append)) = Some l'"
proof -
  have "log_put execution_registry (new_ledger demo_catalog) (''execution'', ''op-1'') 0
     (js_items (rq_events demo_append)) \<noteq> None" by code_simp
  then show ?thesis by blast
qed

theorem append_at_version_once_witness:
  "\<exists>l'. log_put execution_registry (new_ledger demo_catalog) (''execution'', ''op-1'') 0
     (js_items (rq_events demo_append)) = Some l' \<and>
     log_put execution_registry l' (''execution'', ''op-1'') 0 [JNull] = None"
proof -
  obtain l' where l: "log_put execution_registry (new_ledger demo_catalog) (''execution'', ''op-1'') 0
     (js_items (rq_events demo_append)) = Some l'" using demo_log_put by blast
  from append_at_version_once [OF new_ledger_ok l, of "[]" "[JNull]"] l show ?thesis by simp
qed

subsection \<open>Batches and reads\<close>

fun append_each :: "registry \<Rightarrow> ledger \<Rightarrow> append_request list \<Rightarrow> ledger \<times> append_result list res" where
  "append_each reg l [] = (l, Inr [])"
| "append_each reg l (rq # rqs) =
     (case ledger_append reg l rq of
        (l1, Inl e) \<Rightarrow> (l1, Inl e)
      | (l1, Inr r) \<Rightarrow>
          (case append_each reg l1 rqs of
             (l2, Inl e) \<Rightarrow> (l2, Inl e)
           | (l2, Inr rs) \<Rightarrow> (l2, Inr (r # rs))))"

lemma append_each_prepared:
  assumes "map_res (prepareAppend reg) rqs = Inr ps"
    "append_prepared catalog rows ps = Inr (rows', rs)" "led_rows l = rows" "led_catalog l = catalog"
  shows "\<exists>l'. append_each reg l rqs = (l', Inr rs) \<and> led_rows l' = rows'"
  using assms
proof (induction rqs arbitrary: l ps rows rs)
  case (Cons rq rqs)
  obtain p ps' where p: "prepareAppend reg rq = Inr p" "map_res (prepareAppend reg) rqs = Inr ps'" "ps = p # ps'"
    using Cons.prems(1) by (auto split: sum.splits)
  obtain rows1 r rs' where a: "append_rows catalog rows (pr_stream p) (pr_expected p) (pr_candidates p) = Inr (rows1, r)"
    "append_prepared catalog rows1 ps' = Inr (rows', rs')" "rs = r # rs'"
    using Cons.prems(2) p(3) by (auto split: sum.splits)
  obtain l1 where l1: "ledger_append reg l rq = (l1, Inr r)" "led_rows l1 = rows1" "led_catalog l1 = catalog"
    using p(1) a(1) Cons.prems(3,4) by (simp add: ledger_append_def Let_def)
  obtain l' where "append_each reg l1 rqs = (l', Inr rs')" "led_rows l' = rows'"
    using Cons.IH [OF p(2) a(2) l1(2,3)] by blast
  with l1(1) a(3) show ?case by simp
qed simp

text \<open>
  C34. A batch is all or nothing: when it fails no row changes, and when it succeeds it leaves
  the same rows and returns the same results as appending its requests one by one.
\<close>

theorem batch_atomic:
  "case appendBatch reg l rqs of
     (l', Inl e) \<Rightarrow> led_rows l' = led_rows l
   | (l', Inr rs) \<Rightarrow> (\<exists>l2. append_each reg l rqs = (l2, Inr rs) \<and> led_rows l2 = led_rows l')"
proof -
  obtain l' res where b: "appendBatch reg l rqs = (l', res)" by fastforce
  show ?thesis
    using appendBatch_cases [OF b] append_each_prepared [of reg rqs _ "led_catalog l" "led_rows l" _ _ l] b
    by fastforce
qed

lemma sort_key_id: "sorted (map f xs) \<Longrightarrow> sort_key f xs = xs"
  by (rule sort_key_id_if_sorted)

lemma rows_sorted: "rows_ok rows \<Longrightarrow> sorted (map r_position rows)"
  by (metis rows_ok_def sorted_upt)

lemma stream_sorted: "rows_ok rows \<Longrightarrow> sorted (map r_sequence (select_stream rows s))"
  by (metis rows_ok_def sorted_upt)

text \<open>
  Reading a stream returns exactly its facts with sequence numbers in the requested range, in
  the order they were appended, numbered consecutively from the start of the range.
\<close>

theorem read_stream_slice:
  assumes "ledger_ok l" and "t \<noteq> []" and "i \<noteq> []" and "1 \<le> a" and "a \<le> b"
  shows "readStream l (JStr t) (JStr i) (int a) (int b) =
     Inr (take (Suc b - a) (drop (a - 1) (select_stream (led_rows l) (t, i))))"
proof -
  define rs where "rs = select_stream (led_rows l) (t, i)"
  have seq: "map r_sequence rs = [1..<Suc (length rs)]"
    using assms(1) by (simp add: ledger_ok_def rows_ok_def rs_def)
  have gen: "filter (\<lambda>r. a \<le> f r \<and> f r \<le> b) xs = take (Suc b - max a m) (drop (a - m) xs)"
    if "map f xs = [m..<m + length xs]" for f :: "row \<Rightarrow> nat" and m xs
    using that
  proof (induction xs arbitrary: m)
    case (Cons x xs)
    have "[m..<m + length (x # xs)] = m # [Suc m..<Suc m + length xs]"
      by (simp add: upt_conv_Cons del: upt_Suc)
    with Cons.prems have x: "f x = m" "map f xs = [Suc m..<Suc m + length xs]" by simp_all
    show ?case
    proof (cases "m < a")
      case True
      then obtain d where "a = Suc (m + d)" using less_imp_Suc_add by blast
      then show ?thesis using Cons.IH [OF x(2)] x(1) by (simp add: max_def)
    next
      case False
      then show ?thesis using Cons.IH [OF x(2)] x(1)
        by (cases "m \<le> b") (auto simp: max_def Suc_diff_le)
    qed
  qed simp
  have "sorted (map r_sequence (filter (\<lambda>r. a \<le> r_sequence r \<and> r_sequence r \<le> b) rs))"
    using seq sorted_filter [of r_sequence rs] by (metis sorted_upt)
  moreover have "filter (\<lambda>r. a \<le> r_sequence r \<and> r_sequence r \<le> b) rs = take (Suc b - a) (drop (a - 1) rs)"
    using gen [of r_sequence rs 1] seq assms(4) by simp
  ultimately show ?thesis
    using assms(2-5) by (simp add: readStream_def requireString_def rs_def [symmetric] sort_key_id)
qed

theorem read_stream_slice_witness:
  "readStream demo_ledger (JStr ''execution'') (JStr ''op-1'') 1 5 =
     Inr (take 5 (drop 0 (select_stream (led_rows demo_ledger) (''execution'', ''op-1''))))"
proof -
  have "ledger_ok demo_ledger"
    using demo_append_Inr ledger_append_ok [OF new_ledger_ok] by blast
  from read_stream_slice [OF this, of "''execution''" "''op-1''" 1 5] show ?thesis by simp
qed

subsection \<open>What a successful append records\<close>

text \<open>The stored row \<open>r\<close> holds the event \<open>e\<close>.\<close>

definition holds_event :: "row \<Rightarrow> js \<Rightarrow> bool" where
  "holds_event r e \<longleftrightarrow>
     r_event_id r = event_text e ''event_id'' \<and> r_event_type r = event_text e ''event_type'' \<and>
     JNum (r_schema_version r) = js_get e ''schema_version'' \<and>
     JStr (r_correlation_id r) = js_get e ''correlation_id'' \<and>
     JStr (r_causation_id r) = js_get e ''causation_id'' \<and>
     r_operation_id r = (case js_get e ''operation_id'' of JStr s \<Rightarrow> Some s | _ \<Rightarrow> None) \<and>
     r_actor r = stableValue (js_get e ''actor'') \<and> r_payload r = stableValue (js_get e ''payload'') \<and>
     r_evidence_refs r = stableValue (event_evidence e)"

lemma list_all2_left: "list_all2 P xs ys \<Longrightarrow> x \<in> set xs \<Longrightarrow> \<exists>y \<in> set ys. P x y"
  by (induction rule: list_all2_induct) auto

lemma list_all2_right: "list_all2 P xs ys \<Longrightarrow> y \<in> set ys \<Longrightarrow> \<exists>x \<in> set xs. P x y"
  by (induction rule: list_all2_induct) auto

lemma requireString_Inr: "requireString v f False = Inr u \<longleftrightarrow> is_text v"
  by (auto simp: requireString_def)

lemma is_textE: "is_text v \<Longrightarrow> \<exists>s. v = JStr s"
  by (cases v) auto

lemma normalizeEvent_holds:
  assumes "normalizeEvent e s n = Inr c"
  shows "holds_event c e"
proof -
  have h: "check_event_header e (fst s) = Inr ()" using assms by (auto simp: normalizeEvent_def)
  obtain a b v where "js_get e ''correlation_id'' = JStr a" "js_get e ''causation_id'' = JStr b"
      "js_get e ''schema_version'' = JNum v"
    using h by (fastforce simp: check_event_header_def requireString_Inr dest!: is_textE is_int_geE)
  then show ?thesis
    using assms by (auto simp: normalizeEvent_def holds_event_def event_text_def)
qed

lemma map_res_enumerate_all2:
  "map_res (\<lambda>(i, e). f e (n + i + 1)) (enumerate m es) = Inr cs \<Longrightarrow>
     (\<And>e k c. f e k = Inr c \<Longrightarrow> P c e) \<Longrightarrow> list_all2 P cs es"
proof (induction es arbitrary: m cs)
  case (Cons e es)
  from Cons.prems(1) obtain c cs' where "f e (n + m + 1) = Inr c" "cs = c # cs'"
    "map_res (\<lambda>(i, e). f e (n + i + 1)) (enumerate (Suc m) es) = Inr cs'"
    by (auto split: sum.splits)
  with Cons.IH[of "Suc m" cs'] Cons.prems(2) show ?case by auto
qed simp

lemma prepareAppend_holds:
  assumes "prepareAppend reg rq = Inr p"
  shows "list_all2 holds_event (pr_candidates p) (js_items (rq_events rq))"
proof -
  obtain cs where "map_res (\<lambda>(i, e). normalizeEvent e (js_text (rq_aggregate_type rq), js_text (rq_aggregate_id rq))
        ((case rq_expected_version rq of JNum n \<Rightarrow> nat n | _ \<Rightarrow> 0) + i + 1)) (enumerate 0 (js_items (rq_events rq))) = Inr cs"
    and "pr_candidates p = cs"
    using assms by (auto simp: prepareAppend_def Let_def split: if_splits)
  then show ?thesis
    using map_res_enumerate_all2[where P = holds_event] normalizeEvent_holds by metis
qed

lemma holds_event_placed [simp]: "holds_event (c\<lparr>r_position := n\<rparr>) e \<longleftrightarrow> holds_event c e"
  by (simp add: holds_event_def)

lemma place_holds: "list_all2 holds_event cs es \<Longrightarrow> list_all2 holds_event (place n cs) es"
  by (induction cs es arbitrary: n rule: list_all2_induct) auto

lemma append_fresh_not_idempotent:
  assumes "append_rows catalog rows s n cs = Inr (rows', r)"
    "set (map r_event_id cs) \<inter> r_event_id ` set rows = {}"
  shows "\<not> ar_idempotent r"
proof -
  have "\<not> list_ex (\<lambda>e. e \<noteq> None) (map (\<lambda>c. select_by_id rows (r_event_id c)) cs)"
    using assms(2) by (auto simp: list_ex_iff select_by_id_None)
  then show ?thesis
    using assms(1) unfolding append_rows_def Let_def by (auto split: if_splits sum.splits)
qed

lemma ledger_append_new:
  assumes "ledger_ok l" "ledger_append reg l (log_request s n es) = (l', Inr r)"
    "\<forall>e \<in> set es. event_text e ''event_id'' \<notin> r_event_id ` set (led_rows l)"
  shows "length (log_read l s) = n"
    "\<exists>rs. led_rows l' = led_rows l @ rs \<and> log_read l' s = log_read l s @ rs \<and> list_all2 holds_event rs es"
proof -
  obtain p where p: "prepareAppend reg (log_request s n es) = Inr p" "prepared_ok p"
    and a: "append_rows (led_catalog l) (led_rows l) (pr_stream p) (pr_expected p) (pr_candidates p) =
       Inr (led_rows l', r)"
    using assms(2) by (elim ledger_append_Inr)
  have h: "list_all2 holds_event (pr_candidates p) es"
    using prepareAppend_holds[OF p(1)] by (simp add: log_request_def)
  have "r_event_id c \<notin> r_event_id ` set (led_rows l)" if "c \<in> set (pr_candidates p)" for c
    using list_all2_left[OF h that] assms(3) unfolding holds_event_def by metis
  then have f: "\<not> ar_idempotent r"
    by (intro append_fresh_not_idempotent[OF a]) auto
  have ok: "rows_ok (led_rows l)" using assms(1) by (simp add: ledger_ok_def)
  note g = append_rows_fresh[OF ok p(2) a f]
  have s: "pr_stream p = s" "pr_expected p = n"
    using prepareAppend_ok(3,4)[OF p(1)] by (simp_all add: log_request_def)
  have st: "\<forall>c \<in> set (pr_candidates p). stream_of c = s"
    using p(2) s by (simp add: prepared_ok_def numbered_def)
  show "length (log_read l s) = n" using g(1) s by (simp add: log_read_def)
  show "\<exists>rs. led_rows l' = led_rows l @ rs \<and> log_read l' s = log_read l s @ rs \<and> list_all2 holds_event rs es"
    using g(2) select_stream_place[OF st] place_holds[OF h] by (auto simp: log_read_def)
qed

text \<open>Whether it is new or a retry, a successful append leaves every given event in its stream.\<close>

lemma ledger_append_durable:
  assumes "ledger_ok l" "ledger_append reg l (log_request s n es) = (l', Inr r)" "e \<in> set es"
  shows "\<exists>row \<in> set (log_read l' s). holds_event row e"
proof (cases "ar_idempotent r")
  case False
  obtain p where p: "prepareAppend reg (log_request s n es) = Inr p" "prepared_ok p"
    and a: "append_rows (led_catalog l) (led_rows l) (pr_stream p) (pr_expected p) (pr_candidates p) =
       Inr (led_rows l', r)"
    using assms(2) by (elim ledger_append_Inr)
  have ok: "rows_ok (led_rows l)" using assms(1) by (simp add: ledger_ok_def)
  note g = append_rows_fresh(6)[OF ok p(2) a False]
  have h: "list_all2 holds_event (pr_candidates p) es"
    using prepareAppend_holds[OF p(1)] by (simp add: log_request_def)
  have "event_text e ''event_id'' \<notin> r_event_id ` set (led_rows l)" if "e \<in> set es" for e
    using g list_all2_right[OF h that] by (auto simp: holds_event_def)
  with ledger_append_new(2)[OF assms(1,2)] obtain rs where
    "log_read l' s = log_read l s @ rs" "list_all2 holds_event rs es" by blast
  with assms(3) show ?thesis using list_all2_right by fastforce
next
  case True
  obtain p where p: "prepareAppend reg (log_request s n es) = Inr p" "prepared_ok p"
    and a: "append_rows (led_catalog l) (led_rows l) (pr_stream p) (pr_expected p) (pr_candidates p) =
       Inr (led_rows l', r)"
    using assms(2) by (elim ledger_append_Inr)
  have all2: "list_all2 (\<lambda>e c. case e of None \<Rightarrow> False | Some r \<Rightarrow> samePersistedEvent r c)
      (map (\<lambda>c. select_by_id (led_rows l) (r_event_id c)) (pr_candidates p)) (pr_candidates p)"
    using a True unfolding append_rows_def Let_def by (auto split: if_splits sum.splits)
  have h: "list_all2 holds_event (pr_candidates p) es"
    using prepareAppend_holds[OF p(1)] by (simp add: log_request_def)
  then obtain c where c: "c \<in> set (pr_candidates p)" "holds_event c e"
    using list_all2_right[OF _ assms(3)] by blast
  then obtain q where q: "select_by_id (led_rows l) (r_event_id c) = Some q" "samePersistedEvent q c"
    using all2 by (fastforce simp: list_all2_conv_all_nth in_set_conv_nth split: option.splits)
  have q': "q \<in> set (led_rows l)" "r_event_id q = r_event_id c"
    using q(1) by (auto simp: select_by_id_def find_Some_iff)
  have "stream_of c = s"
    using p(2) c(1) prepareAppend_ok(3)[OF p(1)] by (simp add: prepared_ok_def numbered_def log_request_def)
  then have "stream_of q = s" using q(2) by (simp add: samePersistedEvent_def stream_of_def)
  moreover have "holds_event q e"
    using c(2) q(2) q'(2) by (simp add: holds_event_def samePersistedEvent_def)
  moreover have "led_rows l' = led_rows l" using append_rows_idempotent[OF a True] by simp
  ultimately show ?thesis using q'(1) by (auto simp: log_read_def select_stream_def)
qed

text \<open>Reading a whole stream with the default bounds.\<close>

lemma readStream_all:
  assumes "ledger_ok l" "t \<noteq> []" "i \<noteq> []" "1 \<le> b" "int (length (log_read l (t, i))) \<le> b"
  shows "readStream l (JStr t) (JStr i) 1 b = Inr (log_read l (t, i))"
proof -
  define rs where "rs = log_read l (t, i)"
  have seq: "map r_sequence rs = [1..<Suc (length rs)]"
    using assms(1) by (simp add: ledger_ok_def rows_ok_def rs_def log_read_def)
  have "1 \<le> r_sequence r \<and> r_sequence r \<le> length rs" if "r \<in> set rs" for r
  proof -
    have "r_sequence r \<in> set (map r_sequence rs)" using that by simp
    then show ?thesis unfolding seq by (auto simp del: upt_Suc)
  qed
  then have "filter (\<lambda>r. 1 \<le> int (r_sequence r) \<and> int (r_sequence r) \<le> b) rs = rs"
    using assms(5) by (fastforce simp: filter_id_conv rs_def)
  moreover have "sort_key r_sequence rs = rs"
    using seq by (intro sort_key_id) (metis sorted_upt)
  ultimately show ?thesis
    using assms(2-4) by (simp add: readStream_def requireString_def rs_def log_read_def)
qed

end
