(* ===== verification/ApprovalStore.thy ===== *)
theory ApprovalStore
  imports Ledger
begin

text \<open>
  The approval store of \<open>tools/mcp-project-state/lib/execution-approval-store.js\<close>: approvals are
  issued once, never changed, and consumed at most once, in the transaction that appends the start
  facts of the execution they authorise. The two SQLite tables are lists of rows; the triggers of
  migration 007 that reject an existing identity are part of the inserts. \<open>consume\<close> runs its
  callback on the ledger inside the transaction: an error restores every table row, while the
  in-memory metrics of the ledger keep what the callback counted.
\<close>

subsection \<open>Validation\<close>

definition APPROVAL_SENSITIVE_KEYS :: "string list" where
  "APPROVAL_SENSITIVE_KEYS =
     [''access_token'', ''api_key'', ''approval_token'', ''authorization'', ''client_secret'', ''cookie'',
      ''credential'', ''credentials'', ''password'', ''private_key'', ''refresh_token'', ''secret'',
      ''session_cookie'', ''token'']"

definition approval_error :: "string \<Rightarrow> jserr" where
  "approval_error msg = mk_err ''EXECUTION_APPROVAL_INVALID'' msg"

definition approval_sensitive :: "string \<Rightarrow> string \<Rightarrow> jserr" where
  "approval_sensitive path key =
     mk_err ''EXECUTION_APPROVAL_SENSITIVE_DATA'' (''Sensitive field is forbidden in '' @ path @ '': '' @ key)"

fun approval_assertStrictJson :: "string \<Rightarrow> js \<Rightarrow> unit res"
  and approval_strict_items :: "string \<Rightarrow> nat \<Rightarrow> js list \<Rightarrow> unit res"
  and approval_strict_fields :: "string \<Rightarrow> fields \<Rightarrow> unit res" where
  "approval_assertStrictJson path JUndef = Inl (approval_error (path @ '' contains a non-JSON value''))"
| "approval_assertStrictJson path JFun = Inl (approval_error (path @ '' contains a non-JSON value''))"
| "approval_assertStrictJson path JNaN = Inl (approval_error (path @ '' contains a non-finite number''))"
| "approval_assertStrictJson path (JInf b) = Inl (approval_error (path @ '' contains a non-finite number''))"
| "approval_assertStrictJson path (JArr xs) = approval_strict_items path 0 xs"
| "approval_assertStrictJson path (JObj fs) = approval_strict_fields path fs"
| "approval_assertStrictJson path v = Inr ()"
| "approval_strict_items path i [] = Inr ()"
| "approval_strict_items path i (x # xs) =
     (case approval_assertStrictJson (path @ ''['' @ dec_nat i @ '']'') x of
        Inl e \<Rightarrow> Inl e | Inr _ \<Rightarrow> approval_strict_items path (Suc i) xs)"
| "approval_strict_fields path [] = Inr ()"
| "approval_strict_fields path ((k, v) # fs) =
     (if sensitive_key APPROVAL_SENSITIVE_KEYS k then Inl (approval_sensitive path k)
      else case approval_assertStrictJson (path @ ''.'' @ k) v of
        Inl e \<Rightarrow> Inl e | Inr _ \<Rightarrow> approval_strict_fields path fs)"

definition approval_stableJson :: "js \<Rightarrow> string \<Rightarrow> js res" where
  "approval_stableJson v field =
     bind_res (check_that (is_obj v) (approval_error (field @ '' must be an object''))) (\<lambda>_.
     bind_res (approval_assertStrictJson field v) (\<lambda>_. Inr (stableValue v)))"

definition requireText :: "js \<Rightarrow> string \<Rightarrow> unit res" where
  "requireText v field = check_that (is_text v) (approval_error (field @ '' must be a non-empty string''))"

definition requireTimestamp :: "js \<Rightarrow> string \<Rightarrow> unit res" where
  "requireTimestamp v field =
     bind_res (requireText v field) (\<lambda>_.
     check_that (canonical_utc (js_text v)) (approval_error (field @ '' must be a canonical UTC timestamp'')))"

subsection \<open>Tables and operations\<close>

record approval =
  a_id :: string
  a_operation :: string
  a_authorizer :: js
  a_scope :: js
  a_issued :: string
  a_expires :: string
  a_decision :: string
  a_policy :: string
  a_evidence :: string

record approval_use =
  u_approval :: string
  u_operation :: string
  u_at :: string

record approvals =
  ap_rows :: "approval list"
  ap_uses :: "approval_use list"

definition new_approvals :: approvals where
  "new_approvals = \<lparr>ap_rows = [], ap_uses = []\<rparr>"

definition select_approval :: "approvals \<Rightarrow> string \<Rightarrow> approval option" where
  "select_approval st i = find (\<lambda>a. a_id a = i) (ap_rows st)"

definition select_use :: "approvals \<Rightarrow> string \<Rightarrow> string \<Rightarrow> approval_use option" where
  "select_use st i op = find (\<lambda>u. u_approval u = i \<or> u_operation u = op) (ap_uses st)"

definition insert_approval :: "approvals \<Rightarrow> approval \<Rightarrow> approvals res" where
  "insert_approval st a =
     (if select_approval st (a_id a) \<noteq> None
      then Inl (mk_err ''SQLITE_CONSTRAINT_TRIGGER'' ''execution_approvals identity is immutable'')
      else Inr (st\<lparr>ap_rows := ap_rows st @ [a]\<rparr>))"

definition insert_use :: "approvals \<Rightarrow> approval_use \<Rightarrow> approvals res" where
  "insert_use st u =
     (if select_use st (u_approval u) (u_operation u) \<noteq> None
      then Inl (mk_err ''SQLITE_CONSTRAINT_TRIGGER'' ''execution_approval_uses identity is immutable'')
      else Inr (st\<lparr>ap_uses := ap_uses st @ [u]\<rparr>))"

definition approval_get :: "approvals \<Rightarrow> js \<Rightarrow> approval option res" where
  "approval_get st i = bind_res (requireText i ''approval_id'') (\<lambda>_. Inr (select_approval st (js_text i)))"

text \<open>The record given to \<open>issue\<close>, validated and with its JSON columns in canonical form.\<close>

definition approval_of :: "js \<Rightarrow> approval res" where
  "approval_of v =
     bind_res (check_that (is_obj v) (approval_error ''Approval must be an object'')) (\<lambda>_.
     bind_res (each_res (\<lambda>f. requireText (js_get v f) f)
                 [''approval_id'', ''operation_id'', ''policy_version'', ''evidence_ref'']) (\<lambda>_.
     bind_res (requireTimestamp (js_get v ''issued_at'') ''issued_at'') (\<lambda>_.
     bind_res (requireTimestamp (js_get v ''expires_at'') ''expires_at'') (\<lambda>_.
     bind_res (check_that (js_get v ''decision'' \<in> {JStr ''approved'', JStr ''denied''})
                 (approval_error ''decision must be approved or denied'')) (\<lambda>_.
     bind_res (check_that (js_text (js_get v ''issued_at'') < js_text (js_get v ''expires_at''))
                 (approval_error ''expires_at must be after issued_at'')) (\<lambda>_.
     bind_res (approval_stableJson (js_get v ''authorizer'') ''authorizer'') (\<lambda>authorizer.
     bind_res (approval_stableJson (js_get v ''resource_scope'') ''resource_scope'') (\<lambda>scope.
     bind_res (each_res (\<lambda>f. requireText (js_get (js_get v ''authorizer'') f) (''authorizer.'' @ f))
                 [''id'', ''type'']) (\<lambda>_.
     bind_res (check_that (js_keys (js_get v ''resource_scope'') \<noteq> [])
                 (approval_error ''resource_scope must not be empty'')) (\<lambda>_.
     Inr \<lparr>a_id = js_text (js_get v ''approval_id''), a_operation = js_text (js_get v ''operation_id''),
          a_authorizer = authorizer, a_scope = scope,
          a_issued = js_text (js_get v ''issued_at''), a_expires = js_text (js_get v ''expires_at''),
          a_decision = js_text (js_get v ''decision''), a_policy = js_text (js_get v ''policy_version''),
          a_evidence = js_text (js_get v ''evidence_ref'')\<rparr>))))))))))"

definition issue :: "approvals \<Rightarrow> js \<Rightarrow> approvals \<times> approval option res" where
  "issue st v =
     (case approval_of v of
        Inl e \<Rightarrow> (st, Inl e)
      | Inr a \<Rightarrow>
          (case insert_approval st a of
             Inl e \<Rightarrow>
               (st, Inl (if err_code e = ''SQLITE_CONSTRAINT_PRIMARYKEY''
                         then mk_err ''EXECUTION_APPROVAL_DUPLICATE'' ''Approval identifier already exists''
                         else e))
           | Inr st' \<Rightarrow> (st', approval_get st' (JStr (a_id a)))))"

record consume_request =
  cq_approval :: js
  cq_operation :: js
  cq_scope :: js
  cq_policy :: js
  cq_now :: js

definition check_consume :: "approvals \<Rightarrow> string \<Rightarrow> string \<Rightarrow> string \<Rightarrow> js \<Rightarrow> string \<Rightarrow> approval res" where
  "check_consume st i op policy scope now =
     (case select_approval st i of
        None \<Rightarrow> Inl (mk_err ''EXECUTION_APPROVAL_NOT_FOUND'' ''Approval not found'')
      | Some a \<Rightarrow>
          bind_res (check_that (select_use st i op = None)
            (mk_err ''EXECUTION_APPROVAL_REUSED'' ''Approval or operation authorization was already consumed'')) (\<lambda>_.
          bind_res (check_that (a_decision a = ''approved'')
            (mk_err ''EXECUTION_APPROVAL_DENIED'' ''Approval decision is not approved'')) (\<lambda>_.
          bind_res (check_that (a_operation a = op)
            (mk_err ''EXECUTION_APPROVAL_SCOPE_MISMATCH'' ''Approval operation scope mismatch'')) (\<lambda>_.
          bind_res (check_that (a_policy a = policy)
            (mk_err ''EXECUTION_APPROVAL_POLICY_MISMATCH'' ''Approval policy version mismatch'')) (\<lambda>_.
          bind_res (check_that (a_scope a = scope)
            (mk_err ''EXECUTION_APPROVAL_SCOPE_MISMATCH'' ''Approval resource scope mismatch'')) (\<lambda>_.
          bind_res (check_that (\<not> now < a_issued a)
            (mk_err ''EXECUTION_APPROVAL_NOT_ACTIVE'' ''Approval is not active yet'')) (\<lambda>_.
          bind_res (check_that (\<not> a_expires a \<le> now)
            (mk_err ''EXECUTION_APPROVAL_EXPIRED'' ''Approval expired'')) (\<lambda>_. Inr a))))))))"

type_synonym on_consumed = "(ledger \<Rightarrow> ledger \<times> append_result res) option"

definition consume_transaction ::
    "approvals \<Rightarrow> ledger \<Rightarrow> string \<Rightarrow> string \<Rightarrow> string \<Rightarrow> js \<Rightarrow> string \<Rightarrow> on_consumed \<Rightarrow> (approvals \<times> ledger) \<times> approval res" where
  "consume_transaction st l i op policy scope now onConsumed =
     (case check_consume st i op policy scope now of
        Inl e \<Rightarrow> ((st, l), Inl e)
      | Inr a \<Rightarrow>
          (case insert_use st \<lparr>u_approval = i, u_operation = op, u_at = now\<rparr> of
             Inl e \<Rightarrow> ((st, l), Inl e)
           | Inr st' \<Rightarrow>
               (case onConsumed of
                  None \<Rightarrow> ((st', l), Inr a)
                | Some f \<Rightarrow>
                    (case f l of
                       (l', Inl e) \<Rightarrow> ((st, l'\<lparr>led_rows := led_rows l\<rparr>), Inl e)
                     | (l', Inr _) \<Rightarrow> ((st', l'), Inr a)))))"

definition consume :: "approvals \<Rightarrow> ledger \<Rightarrow> consume_request \<Rightarrow> on_consumed \<Rightarrow> (approvals \<times> ledger) \<times> approval res" where
  "consume st l q onConsumed =
     (case bind_res (each_res (\<lambda>(f, v). requireText v f)
              [(''approval_id'', cq_approval q), (''operation_id'', cq_operation q), (''policy_version'', cq_policy q)]) (\<lambda>_.
           bind_res (requireTimestamp (cq_now q) ''now'') (\<lambda>_.
           approval_stableJson (cq_scope q) ''resource_scope'')) of
        Inl e \<Rightarrow> ((st, l), Inl e)
      | Inr scope \<Rightarrow>
          consume_transaction st l (js_text (cq_approval q)) (js_text (cq_operation q)) (js_text (cq_policy q))
            scope (js_text (cq_now q)) onConsumed)"


subsection \<open>Invariant of the tables\<close>

definition approval_wf :: "approval \<Rightarrow> bool" where
  "approval_wf a \<longleftrightarrow>
     a_id a \<noteq> [] \<and> a_operation a \<noteq> [] \<and> a_issued a < a_expires a \<and>
     a_decision a \<in> {''approved'', ''denied''} \<and>
     clean APPROVAL_SENSITIVE_KEYS (a_authorizer a) \<and> clean APPROVAL_SENSITIVE_KEYS (a_scope a)"

definition use_ok :: "approvals \<Rightarrow> approval_use \<Rightarrow> bool" where
  "use_ok st u \<longleftrightarrow>
     (case select_approval st (u_approval u) of
        None \<Rightarrow> False
      | Some a \<Rightarrow> a_decision a = ''approved'' \<and> a_operation a = u_operation u \<and>
                  a_issued a \<le> u_at u \<and> u_at u < a_expires a)"

definition approvals_ok :: "approvals \<Rightarrow> bool" where
  "approvals_ok st \<longleftrightarrow>
     distinct (map a_id (ap_rows st)) \<and> list_all approval_wf (ap_rows st) \<and>
     distinct (map u_approval (ap_uses st)) \<and> distinct (map u_operation (ap_uses st)) \<and>
     list_all (use_ok st) (ap_uses st)"

lemma approval_strict_clean:
  "approval_assertStrictJson path v = Inr u \<Longrightarrow> is_strict v \<and> clean APPROVAL_SENSITIVE_KEYS v"
  "approval_strict_items path i xs = Inr u \<Longrightarrow> is_strict_items xs \<and> clean_items APPROVAL_SENSITIVE_KEYS xs"
  "approval_strict_fields path fs = Inr u \<Longrightarrow> is_strict_fields fs \<and> clean_fields APPROVAL_SENSITIVE_KEYS fs"
  by (induction path v and path i xs and path fs
      rule: approval_assertStrictJson_approval_strict_items_approval_strict_fields.induct)
    (auto split: sum.splits if_splits)

lemma approval_stableJson_Inr:
  assumes "approval_stableJson v field = Inr w"
  shows "w = stableValue v \<and> is_obj v \<and> clean APPROVAL_SENSITIVE_KEYS w"
  using assms approval_strict_clean(1)[of field v] by (auto simp: approval_stableJson_def)

lemma requireText_Inr [simp]: "requireText v f = Inr u \<longleftrightarrow> is_text v"
  by (simp add: requireText_def)

lemma requireTimestamp_Inr [simp]: "requireTimestamp v f = Inr u \<longleftrightarrow> is_text v \<and> canonical_utc (js_text v)"
  by (simp add: requireTimestamp_def)

lemma is_text_js_text: "is_text v \<longleftrightarrow> (v = JStr (js_text v) \<and> js_text v \<noteq> [])"
  by (cases v) auto

lemma approval_of_wf: "approval_of v = Inr a \<Longrightarrow> approval_wf a"
  by (auto simp: approval_of_def approval_wf_def is_text_js_text simp del: each_res.simps
      dest!: approval_stableJson_Inr)

lemma select_approval_Some: "select_approval st i = Some a \<Longrightarrow> a \<in> set (ap_rows st) \<and> a_id a = i"
  by (auto simp: select_approval_def find_Some_iff)

lemma select_approval_None: "select_approval st i = None \<longleftrightarrow> i \<notin> a_id ` set (ap_rows st)"
  by (auto simp: select_approval_def find_None_iff)

lemma select_use_None:
  "select_use st i op = None \<longleftrightarrow> i \<notin> u_approval ` set (ap_uses st) \<and> op \<notin> u_operation ` set (ap_uses st)"
  by (auto simp: select_use_def find_None_iff)

lemma select_approval_insert:
  "select_approval (st\<lparr>ap_rows := ap_rows st @ [a]\<rparr>) i =
     (case select_approval st i of None \<Rightarrow> if a_id a = i then Some a else None | Some b \<Rightarrow> Some b)"
  by (auto simp: select_approval_def find_append split: option.splits)

lemma select_approval_uses [simp]: "select_approval (st\<lparr>ap_uses := us\<rparr>) i = select_approval st i"
  by (simp add: select_approval_def)

lemma check_consume_Inr:
  "check_consume st i op policy scope now = Inr a \<longleftrightarrow>
     select_approval st i = Some a \<and> select_use st i op = None \<and> a_decision a = ''approved'' \<and>
     a_operation a = op \<and> a_policy a = policy \<and> a_scope a = scope \<and> a_issued a \<le> now \<and> now < a_expires a"
  by (auto simp: check_consume_def not_less not_le split: option.splits)

lemma issue_Inr:
  assumes "issue st v = (st', Inr r)"
  obtains a where "approval_of v = Inr a" "select_approval st (a_id a) = None"
    "st' = st\<lparr>ap_rows := ap_rows st @ [a]\<rparr>" "r = Some a" "approval_wf a"
proof -
  obtain a where a: "approval_of v = Inr a" and ins: "insert_approval st a = Inr st'"
    and r: "approval_get st' (JStr (a_id a)) = Inr r"
    using assms by (auto simp: issue_def split: sum.splits)
  have n: "select_approval st (a_id a) = None" and st': "st' = st\<lparr>ap_rows := ap_rows st @ [a]\<rparr>"
    using ins by (auto simp: insert_approval_def split: if_splits)
  have "r = Some a"
    using r n by (auto simp: approval_get_def st' select_approval_insert)
  then show thesis
    using that a n st' approval_of_wf[OF a] by blast
qed

lemma issue_keeps: "issue st v = (st', Inl e) \<Longrightarrow> st' = st"
  by (auto simp: issue_def insert_approval_def approval_get_def requireText_def check_that_def
      bind_res_def approval_wf_def split: sum.splits if_splits dest!: approval_of_wf)

lemma issue_ok:
  assumes "issue st v = (st', r)" "approvals_ok st"
  shows "approvals_ok st'"
proof (cases r)
  case (Inl e)
  then show ?thesis using assms issue_keeps by blast
next
  case (Inr b)
  obtain a where a: "select_approval st (a_id a) = None" "approval_wf a"
      "st' = st\<lparr>ap_rows := ap_rows st @ [a]\<rparr>"
    using assms(1) unfolding Inr by (rule issue_Inr)
  have "use_ok st' u" if "use_ok st u" for u
    using that by (auto simp: use_ok_def a(3) select_approval_insert split: option.splits)
  then show ?thesis
    using a assms(2) by (auto simp: approvals_ok_def select_approval_None list_all_iff)
qed

lemma consume_transaction_Inr:
  assumes "consume_transaction st l i op policy scope now f = ((st', l'), Inr a)"
  shows "check_consume st i op policy scope now = Inr a"
    and "st' = st\<lparr>ap_uses := ap_uses st @ [\<lparr>u_approval = i, u_operation = op, u_at = now\<rparr>]\<rparr>"
    and "(f = None \<and> l' = l) \<or> (\<exists>g r. f = Some g \<and> g l = (l', Inr r))"
  using assms
  by (auto simp: consume_transaction_def insert_use_def split: sum.splits option.splits prod.splits if_splits)

lemma consume_transaction_Inl:
  assumes "consume_transaction st l i op policy scope now f = ((st', l'), Inl e)"
  shows "st' = st \<and> led_rows l' = led_rows l"
  using assms
  by (auto simp: consume_transaction_def insert_use_def split: sum.splits option.splits prod.splits if_splits)

lemma consume_transaction_ok:
  assumes "consume_transaction st l i op policy scope now f = ((st', l'), r)" "approvals_ok st"
  shows "approvals_ok st'"
proof (cases r)
  case (Inl e)
  then show ?thesis using assms consume_transaction_Inl by blast
next
  case (Inr a)
  note c = consume_transaction_Inr[OF assms(1)[unfolded Inr]]
  have "use_ok st' u" if "use_ok st u" for u
    using that by (simp add: use_ok_def c(2))
  then show ?thesis
    using c(1) assms(2) unfolding c(2)
    by (auto simp: approvals_ok_def list_all_iff check_consume_Inr use_ok_def select_use_None)
qed

lemma consume_cases:
  assumes "consume st l q f = (s', r)"
  obtains e where "s' = (st, l)" "r = Inl e"
  | scope where "is_text (cq_approval q)" "is_text (cq_operation q)" "is_text (cq_policy q)"
      "is_text (cq_now q)" "canonical_utc (js_text (cq_now q))"
      "approval_stableJson (cq_scope q) ''resource_scope'' = Inr scope"
      "consume_transaction st l (js_text (cq_approval q)) (js_text (cq_operation q)) (js_text (cq_policy q))
         scope (js_text (cq_now q)) f = (s', r)"
  using assms by (auto simp: consume_def simp del: each_res.simps split: sum.splits)

lemma consume_ok: "consume st l q f = ((st', l'), r) \<Longrightarrow> approvals_ok st \<Longrightarrow> approvals_ok st'"
  by (erule consume_cases) (auto dest: consume_transaction_ok)


lemma approval_strict_iff:
  "approval_assertStrictJson path v = Inr u \<longleftrightarrow> is_strict v \<and> clean APPROVAL_SENSITIVE_KEYS v"
  "approval_strict_items path i xs = Inr u \<longleftrightarrow> is_strict_items xs \<and> clean_items APPROVAL_SENSITIVE_KEYS xs"
  "approval_strict_fields path fs = Inr u \<longleftrightarrow> is_strict_fields fs \<and> clean_fields APPROVAL_SENSITIVE_KEYS fs"
  by (induction path v and path i xs and path fs
      rule: approval_assertStrictJson_approval_strict_items_approval_strict_fields.induct)
    (auto split: sum.splits if_splits)

lemma approval_stableJson_iff:
  "approval_stableJson v field = Inr w \<longleftrightarrow>
     w = stableValue v \<and> is_obj v \<and> is_strict v \<and> clean APPROVAL_SENSITIVE_KEYS v"
  by (auto simp: approval_stableJson_def approval_strict_iff)

subsection \<open>What consuming an approval requires and does\<close>

definition consume_well_formed :: "consume_request \<Rightarrow> bool" where
  "consume_well_formed q \<longleftrightarrow>
     is_text (cq_approval q) \<and> is_text (cq_operation q) \<and> is_text (cq_policy q) \<and>
     is_text (cq_now q) \<and> canonical_utc (js_text (cq_now q)) \<and>
     is_obj (cq_scope q) \<and> is_strict (cq_scope q) \<and> clean APPROVAL_SENSITIVE_KEYS (cq_scope q)"

lemma consume_well_formed_run:
  "consume_well_formed q \<Longrightarrow>
     consume st l q f = consume_transaction st l (js_text (cq_approval q)) (js_text (cq_operation q))
       (js_text (cq_policy q)) (stableValue (cq_scope q)) (js_text (cq_now q)) f"
  by (simp add: consume_def consume_well_formed_def requireText_def requireTimestamp_def check_that_def
      bind_res_def approval_stableJson_iff[THEN iffD2] split: sum.splits)

text \<open>
  Consuming an approval with a callback grants approval \<open>a\<close> exactly when the request is well
  formed, \<open>a\<close> is the stored approval of that id, neither the approval nor the operation was used
  before, the decision is \<open>approved\<close>, operation, policy version and canonical resource scope match,
  the time lies in the half-open interval from issue to expiry, and the callback succeeds.
\<close>

theorem consume_grants_iff:
  "(\<exists>s'. consume st l q (Some g) = (s', Inr a)) \<longleftrightarrow>
     consume_well_formed q \<and>
     select_approval st (js_text (cq_approval q)) = Some a \<and>
     js_text (cq_approval q) \<notin> u_approval ` set (ap_uses st) \<and>
     js_text (cq_operation q) \<notin> u_operation ` set (ap_uses st) \<and>
     a_decision a = ''approved'' \<and>
     a_operation a = js_text (cq_operation q) \<and>
     a_policy a = js_text (cq_policy q) \<and>
     a_scope a = stableValue (cq_scope q) \<and>
     a_issued a \<le> js_text (cq_now q) \<and> js_text (cq_now q) < a_expires a \<and>
     (\<exists>l' r. g l = (l', Inr r))"
  (is "?L \<longleftrightarrow> ?R")
proof
  assume ?L
  then obtain s' where s': "consume st l q (Some g) = (s', Inr a)" by blast
  have wf: "consume_well_formed q"
    using s' by (rule consume_cases) (auto simp: consume_well_formed_def approval_stableJson_iff)
  obtain st' l' where "s' = (st', l')" by (cases s')
  then have "consume_transaction st l (js_text (cq_approval q)) (js_text (cq_operation q))
       (js_text (cq_policy q)) (stableValue (cq_scope q)) (js_text (cq_now q)) (Some g) = ((st', l'), Inr a)"
    using s' consume_well_formed_run[OF wf] by simp
  note t = consume_transaction_Inr[OF this]
  show ?R
    using wf t(1,3) by (auto simp: check_consume_Inr select_use_None)
next
  assume R: ?R
  then have "check_consume st (js_text (cq_approval q)) (js_text (cq_operation q)) (js_text (cq_policy q))
      (stableValue (cq_scope q)) (js_text (cq_now q)) = Inr a"
    by (simp add: check_consume_Inr select_use_None)
  then show ?L
    using R by (auto simp: consume_well_formed_run consume_transaction_def insert_use_def select_use_None)
qed

lemma consume_Inl: "consume st l q f = ((st', l'), Inl e) \<Longrightarrow> st' = st \<and> led_rows l' = led_rows l"
  by (erule consume_cases) (auto dest: consume_transaction_Inl)

lemma consume_Inr:
  assumes "consume st l q f = ((st', l'), Inr a)"
  shows "st' = st\<lparr>ap_uses := ap_uses st @
           [\<lparr>u_approval = js_text (cq_approval q), u_operation = js_text (cq_operation q), u_at = js_text (cq_now q)\<rparr>]\<rparr>"
    and "(f = None \<and> l' = l) \<or> (\<exists>g r. f = Some g \<and> g l = (l', Inr r))"
    and "a_id a = js_text (cq_approval q)"
proof -
  obtain scope where t: "consume_transaction st l (js_text (cq_approval q)) (js_text (cq_operation q))
      (js_text (cq_policy q)) scope (js_text (cq_now q)) f = ((st', l'), Inr a)"
    using assms by (rule consume_cases) auto
  show "st' = st\<lparr>ap_uses := ap_uses st @
           [\<lparr>u_approval = js_text (cq_approval q), u_operation = js_text (cq_operation q), u_at = js_text (cq_now q)\<rparr>]\<rparr>"
    and "(f = None \<and> l' = l) \<or> (\<exists>g r. f = Some g \<and> g l = (l', Inr r))"
    using consume_transaction_Inr(2,3)[OF t] by auto
  show "a_id a = js_text (cq_approval q)"
    using consume_transaction_Inr(1)[OF t] by (auto simp: check_consume_Inr dest: select_approval_Some)
qed

text \<open>
  Consumption is atomic: when it fails, whatever the failing step (the callback included), no
  approval, use or ledger row has changed; when it succeeds, exactly one use is added and the ledger is
  the one the callback left.
\<close>

theorem consume_atomic:
  "case consume st l q f of
     ((st', l'), Inl e) \<Rightarrow> st' = st \<and> led_rows l' = led_rows l
   | ((st', l'), Inr a) \<Rightarrow>
       ap_rows st' = ap_rows st \<and>
       ap_uses st' = ap_uses st @
         [\<lparr>u_approval = js_text (cq_approval q), u_operation = js_text (cq_operation q), u_at = js_text (cq_now q)\<rparr>] \<and>
       (case f of None \<Rightarrow> l' = l | Some g \<Rightarrow> fst (g l) = l' \<and> \<not> isl (snd (g l)))"
proof -
  obtain st' l' r where c: "consume st l q f = ((st', l'), r)" by (metis prod.exhaust)
  show ?thesis
  proof (cases r)
    case (Inl e)
    then show ?thesis using consume_Inl[of st l q f st' l' e] c by simp
  next
    case (Inr a)
    then show ?thesis using consume_Inr(1,2)[of st l q f st' l' a] c by auto
  qed
qed

subsection \<open>Runs of the store\<close>

datatype approval_command = Issue js | Consume consume_request on_consumed

fun approval_step :: "approvals \<Rightarrow> ledger \<Rightarrow> approval_command \<Rightarrow> (approvals \<times> ledger) \<times> (string \<times> string) list" where
  "approval_step st l (Issue v) = ((fst (issue st v), l), [])"
| "approval_step st l (Consume q f) =
     (case consume st l q f of
        (s', Inl e) \<Rightarrow> (s', [])
      | (s', Inr a) \<Rightarrow> (s', [(a_id a, js_text (cq_operation q))]))"

fun approval_run :: "approvals \<Rightarrow> ledger \<Rightarrow> approval_command list \<Rightarrow> (approvals \<times> ledger) \<times> (string \<times> string) list" where
  "approval_run st l [] = ((st, l), [])"
| "approval_run st l (c # cs) =
     (case approval_step st l c of
        ((st1, l1), g1) \<Rightarrow> (case approval_run st1 l1 cs of (s2, g2) \<Rightarrow> (s2, g1 @ g2)))"

lemma approval_step_grows:
  assumes "approval_step st l c = ((st', l'), gs)" "approvals_ok st"
  shows "approvals_ok st' \<and> (\<exists>as. ap_rows st' = ap_rows st @ as) \<and>
         map (\<lambda>u. (u_approval u, u_operation u)) (ap_uses st') =
           map (\<lambda>u. (u_approval u, u_operation u)) (ap_uses st) @ gs"
proof (cases c)
  case (Issue v)
  obtain s1 r where i: "issue st v = (s1, r)" by (cases "issue st v")
  have e: "s1 = st'" "gs = []" using assms(1) by (auto simp: Issue i)
  show ?thesis
  proof (cases r)
    case (Inl x)
    then show ?thesis using i e assms(2) issue_keeps[of st v s1 x] by simp
  next
    case (Inr x)
    obtain a where "s1 = st\<lparr>ap_rows := ap_rows st @ [a]\<rparr>"
      using i unfolding Inr by (rule issue_Inr)
    then show ?thesis
      using issue_ok[OF i assms(2)] unfolding e by simp
  qed
next
  case (Consume q f)
  obtain s1 l1 r where i: "consume st l q f = ((s1, l1), r)" by (metis prod.exhaust)
  have ok: "approvals_ok s1" using consume_ok[OF i assms(2)] .
  show ?thesis
  proof (cases r)
    case (Inl x)
    then show ?thesis
      using assms ok i consume_Inl[of st l q f s1 l1 x] by (simp add: Consume)
  next
    case (Inr a)
    then show ?thesis
      using assms(1) ok i consume_Inr[of st l q f s1 l1 a] by (auto simp: Consume)
  qed
qed

lemma approval_run_grows:
  assumes "approval_run st l cs = ((st', l'), gs)" "approvals_ok st"
  shows "approvals_ok st' \<and> (\<exists>as. ap_rows st' = ap_rows st @ as) \<and>
         map (\<lambda>u. (u_approval u, u_operation u)) (ap_uses st') =
           map (\<lambda>u. (u_approval u, u_operation u)) (ap_uses st) @ gs"
  using assms
proof (induction cs arbitrary: st l gs)
  case Nil
  then show ?case by simp
next
  case (Cons c cs)
  obtain st1 l1 g1 where s: "approval_step st l c = ((st1, l1), g1)" by (metis prod.exhaust)
  obtain g2 where r: "approval_run st1 l1 cs = ((st', l'), g2)" and gs: "gs = g1 @ g2"
    using Cons.prems(1) s by (auto split: prod.splits)
  show ?case
    using approval_step_grows[OF s Cons.prems(2)] Cons.IH[OF r] gs by auto
qed

lemma new_approvals_ok [simp]: "approvals_ok new_approvals"
  by (simp add: approvals_ok_def new_approvals_def)


text \<open>
  C8. In any run of issues and consumptions that starts with empty tables, no approval is granted
  twice and no operation is granted twice, and every grant is for an approval on record whose decision
  is \<open>approved\<close> and whose operation is the granted one.
\<close>

theorem approval_single_use:
  assumes "approval_run new_approvals l cs = ((st, l'), grants)"
  shows "distinct (map fst grants) \<and> distinct (map snd grants) \<and>
         (\<forall>(i, op) \<in> set grants. \<exists>a \<in> set (ap_rows st).
            a_id a = i \<and> a_operation a = op \<and> a_decision a = ''approved'')"
proof -
  have ok: "approvals_ok st" and u: "map (\<lambda>u. (u_approval u, u_operation u)) (ap_uses st) = grants"
    using approval_run_grows[OF assms new_approvals_ok] by (auto simp: new_approvals_def)
  have "map fst grants = map u_approval (ap_uses st)" "map snd grants = map u_operation (ap_uses st)"
    unfolding u[symmetric] by (simp_all add: comp_def)
  moreover have "\<exists>a \<in> set (ap_rows st). a_id a = u_approval x \<and> a_operation a = u_operation x \<and> a_decision a = ''approved''"
    if x: "x \<in> set (ap_uses st)" for x
  proof -
    have "use_ok st x" using ok x by (auto simp: approvals_ok_def list_all_iff)
    then show ?thesis by (auto simp: use_ok_def split: option.splits dest!: select_approval_Some)
  qed
  ultimately show ?thesis
    using ok unfolding u[symmetric] by (auto simp: approvals_ok_def comp_def)
qed

definition demo_approval :: "string \<Rightarrow> js" where
  "demo_approval i = JObj
     [(''approval_id'', JStr i), (''operation_id'', JStr ''op-1''), (''policy_version'', JStr ''p1''),
      (''evidence_ref'', JStr ''ev''), (''issued_at'', JStr ''2024-01-01T00:00:00.000Z''),
      (''expires_at'', JStr ''2024-01-02T00:00:00.000Z''), (''decision'', JStr ''approved''),
      (''authorizer'', JObj [(''id'', JStr ''u''), (''type'', JStr ''human'')]),
      (''resource_scope'', JObj [(''path'', JStr ''/tmp'')])]"

definition demo_consume :: "string \<Rightarrow> string \<Rightarrow> consume_request" where
  "demo_consume i now = \<lparr>cq_approval = JStr i, cq_operation = JStr ''op-1'',
     cq_scope = JObj [(''path'', JStr ''/tmp'')], cq_policy = JStr ''p1'', cq_now = JStr now\<rparr>"

definition demo_commands :: "approval_command list" where
  "demo_commands =
     [Issue (demo_approval ''a1''), Issue (demo_approval ''a2''),
      Consume (demo_consume ''a1'' ''2024-01-02T00:00:00.000Z'') None,
      Consume (demo_consume ''a1'' ''2024-01-01T12:00:00.000Z'') None,
      Consume (demo_consume ''a1'' ''2024-01-01T13:00:00.000Z'') None,
      Consume (demo_consume ''a2'' ''2024-01-01T13:00:00.000Z'') None]"

lemma demo_commands_grants:
  "snd (approval_run new_approvals (new_ledger []) demo_commands) = [(''a1'', ''op-1'')]"
  by code_simp

theorem approval_single_use_witness:
  "\<exists>st l' grants. approval_run new_approvals (new_ledger []) demo_commands = ((st, l'), grants) \<and>
     grants = [(''a1'', ''op-1'')] \<and> distinct (map fst grants) \<and> distinct (map snd grants) \<and>
     (\<exists>a \<in> set (ap_rows st). a_id a = ''a1'' \<and> a_operation a = ''op-1'' \<and> a_decision a = ''approved'')"
proof -
  obtain st l' grants where r: "approval_run new_approvals (new_ledger []) demo_commands = ((st, l'), grants)"
    by (metis prod.exhaust)
  then have "grants = [(''a1'', ''op-1'')]" using demo_commands_grants by simp
  then show ?thesis using r approval_single_use[OF r] by auto
qed

subsection \<open>Issued approvals are immutable\<close>

lemma select_approval_append:
  "ap_rows st' = ap_rows st @ as \<Longrightarrow> select_approval st i = Some a \<Longrightarrow> select_approval st' i = Some a"
  by (simp add: select_approval_def find_append)

text \<open>
  A successful \<open>issue\<close> returns the validated record with its authorizer and resource scope in
  canonical form, and every later \<open>get\<close> of that identifier returns the same approval, whatever
  issues and consumptions happen in between.
\<close>

theorem issued_approval_immutable:
  assumes "approvals_ok st" "issue st v = (st1, Inr r)" "approval_run st1 l cs = ((st2, l2), grants)"
  shows "\<exists>a. r = Some a \<and> approval_of v = Inr a \<and>
           a_scope a = stableValue (js_get v ''resource_scope'') \<and>
           a_authorizer a = stableValue (js_get v ''authorizer'') \<and>
           approval_get st2 (js_get v ''approval_id'') = Inr r"
proof -
  obtain a where a: "approval_of v = Inr a" "select_approval st (a_id a) = None"
      "st1 = st\<lparr>ap_rows := ap_rows st @ [a]\<rparr>" "r = Some a"
    using assms(2) by (rule issue_Inr)
  have f: "js_get v ''approval_id'' = JStr (a_id a)" "a_id a \<noteq> []"
      "a_scope a = stableValue (js_get v ''resource_scope'')" "a_authorizer a = stableValue (js_get v ''authorizer'')"
    using a(1) by (auto simp: approval_of_def is_text_js_text approval_stableJson_iff simp del: each_res.simps)
  obtain as where "ap_rows st2 = ap_rows st1 @ as"
    using approval_run_grows[OF assms(3) issue_ok[OF assms(2,1)]] by blast
  moreover have "select_approval st1 (a_id a) = Some a"
    using a(2) by (simp add: a(3) select_approval_insert)
  ultimately have "select_approval st2 (a_id a) = Some a"
    by (rule select_approval_append)
  then show ?thesis
    using a f by (simp add: approval_get_def requireText_def check_that_def)
qed

lemma demo_issue: "isl (snd (issue new_approvals (demo_approval ''a1''))) = False"
  by code_simp

theorem issued_approval_immutable_witness:
  "\<exists>st1 st2 l2 r grants. issue new_approvals (demo_approval ''a1'') = (st1, Inr r) \<and>
     approval_run st1 (new_ledger []) demo_commands = ((st2, l2), grants) \<and>
     approval_get st2 (js_get (demo_approval ''a1'') ''approval_id'') = Inr r"
proof -
  obtain st1 r where i: "issue new_approvals (demo_approval ''a1'') = (st1, Inr r)"
    using not_isl_Inr[OF demo_issue] by (metis prod.collapse)
  obtain st2 l2 grants where run: "approval_run st1 (new_ledger []) demo_commands = ((st2, l2), grants)"
    by (metis prod.exhaust)
  show ?thesis
    using issued_approval_immutable[OF new_approvals_ok i run] i run by blast
qed

text \<open>
  Issuing an approval whose identifier exists changes nothing and fails with the error of the
  table's insert trigger, never with \<open>EXECUTION_APPROVAL_DUPLICATE\<close>: the code translates only a
  primary-key violation, and the trigger fires before the primary key is checked.
\<close>

theorem reissue_error:
  assumes "approval_of v = Inr a" "a_id a \<in> a_id ` set (ap_rows st)"
  shows "issue st v = (st, Inl (mk_err ''SQLITE_CONSTRAINT_TRIGGER'' ''execution_approvals identity is immutable''))"
  using assms by (simp add: issue_def insert_approval_def select_approval_None)

theorem reissue_error_witness:
  "issue (fst (issue new_approvals (demo_approval ''a1''))) (demo_approval ''a1'') =
     (fst (issue new_approvals (demo_approval ''a1'')),
      Inl (mk_err ''SQLITE_CONSTRAINT_TRIGGER'' ''execution_approvals identity is immutable''))"
proof -
  obtain st1 r where i: "issue new_approvals (demo_approval ''a1'') = (st1, Inr r)"
    using not_isl_Inr[OF demo_issue] by (metis prod.collapse)
  obtain a where "approval_of (demo_approval ''a1'') = Inr a"
      "st1 = new_approvals\<lparr>ap_rows := ap_rows new_approvals @ [a]\<rparr>"
    using i by (rule issue_Inr)
  then show ?thesis using reissue_error[of "demo_approval ''a1''" a st1] i by simp
qed

end
