(* ===== verification/Runtime.thy ===== *)
theory Runtime
  imports Envelope ApprovalStore
begin

text \<open>
  The governed execution runtime of \<open>packages/governed-execution/runtime.js\<close> over the event ledger
  and the approval store. A request is admitted (contract, provider, input, actor, scope), authorised,
  checked by policy, replayed when its stream exists, approved when its contract demands it, started
  (two facts, at version 0 of its stream, in one transaction with the use of the approval), dispatched to
  its provider, and settled by one terminal fact at version 2.

  The asynchronous method is cut at its suspension points: \<open>begin_execution\<close> runs up to the approval
  resolver or the provider, \<open>approve_execution\<close> from the resolver's answer to the provider, and
  \<open>settle\<close> from the provider's outcome to the end. No shared state is read before the policy's
  answer, so the authority's and the policy's answers are arguments of \<open>begin_execution\<close>. What
  comes from outside (contract registry, authority, policy, approval resolver, providers, clock, event
  identifiers, hashes, projector) is a parameter or an argument.
\<close>

subsection \<open>Contracts, requests and operations\<close>

record contract =
  c_name :: string
  c_capability :: string
  c_input_version :: int
  c_output_version :: int
  c_reversibility :: string
  c_policy_version :: string
  c_cancellation :: string
  c_provider :: string
  c_timeout_ms :: int
  c_requires_approval :: bool
  c_accepts_idempotency :: bool
  c_failure_mode :: string

datatype signal = NoSignal | BadSignal | GoodSignal

record request =
  q_tool :: js
  q_input :: js
  q_actor :: js
  q_scope :: js
  q_key :: js
  q_correlation :: js
  q_causation :: js
  q_signal :: signal

datatype provider_lookup = LookupThrows | ProviderMissing | ProviderFound

record runtime =
  rt_registry :: registry
  rt_resolve :: "js \<Rightarrow> thrown + contract"
  rt_validate_input :: "contract \<Rightarrow> js \<Rightarrow> thrown + js"
  rt_validate_output :: "contract \<Rightarrow> js \<Rightarrow> js res"
  rt_provider :: "string \<Rightarrow> provider_lookup"
  rt_digest :: "js \<Rightarrow> string"
  rt_hash :: "string \<Rightarrow> string"
  rt_collate :: "string \<Rightarrow> string"
  rt_has_approvals :: bool
  rt_has_projector :: bool

record operation =
  op_id :: string
  op_tool :: string
  op_capability :: string
  op_actor :: js
  op_scope :: js
  op_key :: string
  op_correlation :: js
  op_causation :: js
  op_deadline :: string

definition TERMINAL_EVENTS :: "string list" where
  "TERMINAL_EVENTS = [''ExecutionSucceeded'', ''ExecutionFailed'', ''ExecutionCancelled'', ''ExecutionOutcomeUncertain'']"

definition deterministicOperationId :: "(string \<Rightarrow> string) \<Rightarrow> string \<Rightarrow> string \<Rightarrow> string" where
  "deterministicOperationId sha256 tool key =
     (let hex = sha256 (tool @ [CHR 0x00] @ key); slice = (\<lambda>a b. take (b - a) (drop a hex)) in
      slice 0 8 @ ''-'' @ slice 8 12 @ ''-5'' @ slice 13 16 @ ''-8'' @ slice 17 20 @ ''-'' @ slice 20 32)"

definition canonicalTime :: "int option \<Rightarrow> string res" where
  "canonicalTime now =
     (case now of
        None \<Rightarrow> Inl (mk_err ''EXECUTION_GOVERNANCE_FAILED'' ''Clock returned an invalid timestamp'')
      | Some ms \<Rightarrow> Inr (iso_of_ms ms))"

definition deadline_of :: "int \<Rightarrow> int \<Rightarrow> string res" where
  "deadline_of ms timeout =
     (if \<bar>ms + timeout\<bar> > 8640000000000000 then Inl (mk_err [] ''Invalid time value'')
      else Inr (iso_of_ms (ms + timeout)))"

definition governed :: "string \<Rightarrow> string \<Rightarrow> thrown" where
  "governed code msg = thrown_of (mk_err code msg)"

definition raised :: "'a res \<Rightarrow> thrown + 'a" where
  "raised r = (case r of Inl e \<Rightarrow> Inl (thrown_of e) | Inr x \<Rightarrow> Inr x)"

definition or_text :: "js \<Rightarrow> string \<Rightarrow> js" where
  "or_text v s = (if js_truthy v then v else JStr s)"

definition str_arr :: "string list \<Rightarrow> js" where
  "str_arr xs = JArr (map JStr xs)"

subsection \<open>Admission, authority and policy\<close>

definition actor_identified :: "js \<Rightarrow> bool" where
  "actor_identified actor \<longleftrightarrow> is_text (js_get actor ''id'') \<and> is_text (js_get actor ''type'')"

definition closed_failure_mode :: "contract \<Rightarrow> thrown + unit" where
  "closed_failure_mode c = check_that (c_failure_mode c = ''fail_closed'')
     (governed ''EXECUTION_FAILURE_MODE_NOT_IMPLEMENTED''
        (''Failure mode '' @ c_failure_mode c @ '' is reserved but not implemented by execution runtime v1''))"

definition admit :: "runtime \<Rightarrow> request option \<Rightarrow> thrown + (request \<times> contract \<times> js)" where
  "admit rt q0 =
     (case q0 of
        None \<Rightarrow> Inl (governed ''EXECUTION_REQUEST_INVALID'' ''Execution request must be an object'')
      | Some q \<Rightarrow>
          bind_res (rt_resolve rt (q_tool q)) (\<lambda>c.
          bind_res (closed_failure_mode c) (\<lambda>_.
          bind_res (check_that (rt_provider rt (c_provider c) \<noteq> LookupThrows)
            (governed ''EXECUTION_PROVIDER_RESOLUTION_FAILED'' ''Provider registry lookup failed'')) (\<lambda>_.
          bind_res (check_that (rt_provider rt (c_provider c) \<noteq> ProviderMissing)
            (governed ''EXECUTION_PROVIDER_NOT_FOUND'' ''Provider is unavailable'')) (\<lambda>_.
          bind_res (rt_validate_input rt c (q_input q)) (\<lambda>input.
          bind_res (check_that (is_obj (q_actor q))
            (governed ''EXECUTION_REQUEST_INVALID'' ''actor must be an object'')) (\<lambda>_.
          bind_res (check_that (actor_identified (q_actor q))
            (governed ''EXECUTION_REQUEST_INVALID'' ''actor must declare non-empty id and type'')) (\<lambda>_.
          bind_res (check_that (is_obj (q_scope q))
            (governed ''EXECUTION_REQUEST_INVALID'' ''resource_scope must be an object'')) (\<lambda>_.
          bind_res (check_that (js_keys (q_scope q) \<noteq> [])
            (governed ''EXECUTION_REQUEST_INVALID'' ''resource_scope must not be empty'')) (\<lambda>_.
          bind_res (check_that (q_signal q \<noteq> BadSignal)
            (governed ''EXECUTION_REQUEST_INVALID'' ''signal must implement the AbortSignal contract'')) (\<lambda>_.
          Inr (q, c, input))))))))))))"

definition admit_cancellation :: "runtime \<Rightarrow> request option \<Rightarrow> thrown + (request \<times> contract \<times> js)" where
  "admit_cancellation rt q0 =
     (case q0 of
        None \<Rightarrow> Inl (governed ''EXECUTION_REQUEST_INVALID'' ''Execution request must be an object'')
      | Some q \<Rightarrow>
          bind_res (rt_resolve rt (q_tool q)) (\<lambda>c.
          bind_res (closed_failure_mode c) (\<lambda>_.
          bind_res (check_that (c_cancellation c = ''cooperative'')
            (governed ''EXECUTION_CANCELLATION_REFUSED'' ''Tool contract does not permit cancellation'')) (\<lambda>_.
          bind_res (rt_validate_input rt c (q_input q)) (\<lambda>input.
          bind_res (check_that (is_obj (q_actor q) \<and> actor_identified (q_actor q))
            (governed ''EXECUTION_REQUEST_INVALID'' ''actor must declare non-empty id and type'')) (\<lambda>_.
          bind_res (check_that (is_obj (q_scope q) \<and> js_keys (q_scope q) \<noteq> [])
            (governed ''EXECUTION_REQUEST_INVALID'' ''resource_scope must be a non-empty object'')) (\<lambda>_.
          Inr (q, c, input))))))))"

text \<open>
  The answers of the authority and of the policy (a value, or what the call threw), and what the
  runtime keeps of them: the policy's warnings and whether it demands an approval.
\<close>

definition decide :: "string \<Rightarrow> contract \<Rightarrow> thrown + js \<Rightarrow> thrown + js \<Rightarrow> thrown + (string list \<times> bool)" where
  "decide action c authority policy =
     bind_res authority (\<lambda>a.
     bind_res (check_that (js_truthy a \<and> js_get a ''allowed'' = JBool True)
       (governed ''EXECUTION_AUTHORITY_DENIED'' (''Authority evaluation denied '' @ action))) (\<lambda>_.
     bind_res policy (\<lambda>p.
     bind_res (check_that (js_truthy p \<and> js_get p ''allowed'' = JBool True)
       (governed ''EXECUTION_POLICY_DENIED'' (''Policy evaluation denied '' @ action))) (\<lambda>_.
     bind_res (check_that (js_get p ''policy_version'' = JStr (c_policy_version c))
       (governed ''EXECUTION_POLICY_VERSION_MISMATCH'' ''Policy version does not match the tool contract'')) (\<lambda>_.
     bind_res (check_that ((js_get p ''requires_approval'' = JUndef \<or> is_bool (js_get p ''requires_approval'')) \<and>
                           (js_get p ''warnings'' = JUndef \<or> is_str_array (js_get p ''warnings'')))
       (governed ''EXECUTION_POLICY_DECISION_INVALID'' ''Policy decision has an invalid shape'')) (\<lambda>_.
     Inr (str_list (js_get p ''warnings''), js_get p ''requires_approval'' = JBool True)))))))"

subsection \<open>Facts\<close>

definition exec_fact ::
    "runtime \<Rightarrow> operation \<Rightarrow> string \<Rightarrow> string \<Rightarrow> int option \<Rightarrow> js \<Rightarrow> string list \<Rightarrow> js res" where
  "exec_fact rt op type event_id now payload evidence =
     bind_res (canonicalTime now) (\<lambda>at.
     validateForAppend (rt_registry rt)
       (JObj [(''event_id'', JStr event_id), (''event_type'', JStr type), (''schema_version'', JNum 1),
              (''occurred_at'', JStr at), (''correlation_id'', op_correlation op),
              (''causation_id'', op_causation op), (''actor'', op_actor op),
              (''operation_id'', JStr (op_id op)), (''payload'', payload),
              (''evidence_refs'', str_arr evidence)]))"

definition execution_stream :: "string \<Rightarrow> stream" where
  "execution_stream i = (''execution'', i)"

definition appendOutcome ::
    "runtime \<Rightarrow> ledger \<Rightarrow> operation \<Rightarrow> string \<Rightarrow> string \<Rightarrow> int option \<Rightarrow> js \<Rightarrow> string list \<Rightarrow> ledger \<times> append_result res" where
  "appendOutcome rt l op type event_id now payload evidence =
     (case exec_fact rt op type event_id now payload evidence of
        Inl e \<Rightarrow> (l, Inl e)
      | Inr f \<Rightarrow> ledger_append (rt_registry rt) l (log_request (execution_stream (op_id op)) 2 [f]))"

definition persistOutcome ::
    "runtime \<Rightarrow> ledger \<Rightarrow> operation \<Rightarrow> string \<Rightarrow> string \<Rightarrow> int option \<Rightarrow> fields \<Rightarrow> string list \<Rightarrow> string list \<Rightarrow> ledger \<times> jserr option" where
  "persistOutcome rt l op type event_id now payload evidence warnings =
     (case appendOutcome rt l op type event_id now (JObj (put_field payload ''warnings'' (str_arr warnings))) evidence of
        (l', Inl e) \<Rightarrow> (l', Some e)
      | (l', Inr r) \<Rightarrow> (l', None))"

definition cause_text :: "jserr \<Rightarrow> string" where
  "cause_text e = (if err_code e = [] then err_message e else err_code e)"

definition terminalPersistenceFailure :: "string \<Rightarrow> string list \<Rightarrow> string list \<Rightarrow> jserr \<Rightarrow> envelope" where
  "terminalPersistenceFailure i evidence warnings cause =
     failureEnvelope
       (governed ''EXECUTION_OUTCOME_IN_DOUBT''
          ''Provider dispatch began but the terminal outcome could not be persisted; automatic replay is prohibited'')
       (Some i) evidence (warnings @ [''terminal_append_failed:'' @ cause_text cause])"

definition reconcile :: "runtime \<Rightarrow> jserr option \<Rightarrow> string list \<Rightarrow> string list" where
  "reconcile rt failure warnings =
     (case failure of
        Some e \<Rightarrow> if rt_has_projector rt then warnings @ [''projection_reconcile_failed:'' @ cause_text e] else warnings
      | None \<Rightarrow> warnings)"


subsection \<open>Replay\<close>

definition MAX_SAFE :: int where
  "MAX_SAFE = 9007199254740991"

definition read_events :: "runtime \<Rightarrow> ledger \<Rightarrow> string \<Rightarrow> row list res" where
  "read_events rt l i =
     bind_res (readStream l (JStr ''execution'') (JStr i) 1 MAX_SAFE)
       (map_res (\<lambda>r. bind_res (deserialize (rt_collate rt) (rt_registry rt) (r_event_type r) (r_schema_version r) (r_payload r))
          (\<lambda>(v, p). Inr (r\<lparr>r_schema_version := v, r_payload := p\<rparr>))))"

definition same_scope :: "operation \<Rightarrow> string \<Rightarrow> contract \<Rightarrow> row list \<Rightarrow> row option \<Rightarrow> bool" where
  "same_scope op digest c existing authorized \<longleftrightarrow>
     list_all (\<lambda>r. r_operation_id r = Some (op_id op) \<and> JStr (r_correlation_id r) = op_correlation op \<and>
                  JStr (r_causation_id r) = op_causation op) existing \<and>
     (case authorized of
        None \<Rightarrow> False
      | Some a \<Rightarrow>
          js_get (r_payload a) ''tool'' = JStr (op_tool op) \<and>
          js_get (r_payload a) ''idempotency_key'' = JStr (op_key op) \<and>
          js_get (r_payload a) ''input_digest'' = JStr digest \<and>
          js_get (r_payload a) ''capability'' = JStr (c_capability c) \<and>
          js_get (r_payload a) ''policy_version'' = JStr (c_policy_version c) \<and>
          js_get (r_payload a) ''input_schema_version'' = JNum (c_input_version c) \<and>
          js_get (r_payload a) ''output_schema_version'' = JNum (c_output_version c) \<and>
          stableValue (js_get (r_payload a) ''resource_scope'') = stableValue (op_scope op) \<and>
          stableValue (r_actor a) = stableValue (op_actor op) \<and>
          JStr (r_correlation_id a) = op_correlation op \<and> JStr (r_causation_id a) = op_causation op)"

definition first_truthy :: "js list \<Rightarrow> js" where
  "first_truthy vs = (case filter js_truthy vs of [] \<Rightarrow> JUndef | v # _ \<Rightarrow> v)"

definition replay_error :: "row \<Rightarrow> thrown" where
  "replay_error terminal =
     (let p = r_payload terminal; err = js_get p ''error'';
          code = (if r_event_type terminal = ''ExecutionFailed'' then (if js_truthy err then js_get err ''code'' else err)
                  else if r_event_type terminal = ''ExecutionCancelled'' then JStr ''EXECUTION_CANCELLED''
                  else JStr ''EXECUTION_OUTCOME_IN_DOUBT'')
      in TErr (JStr ''GovernedExecutionError'')
           [(''code'', or_text code ''EXECUTION_FAILED''),
            (''message'', first_truthy [js_get p ''reason'', if js_truthy err then js_get err ''message'' else err,
                          JStr ''Execution did not succeed'']),
            (''retryable'', JBool (r_event_type terminal = ''ExecutionFailed'' \<and> js_truthy (js_get err ''retryable'')))])"

definition readExisting :: "runtime \<Rightarrow> ledger \<Rightarrow> operation \<Rightarrow> string \<Rightarrow> contract \<Rightarrow> envelope option res" where
  "readExisting rt l op digest c =
     bind_res (read_events rt l (op_id op)) (\<lambda>existing.
     if existing = [] then Inr None
     else let authorized = find (\<lambda>r. r_event_type r = ''ExecutionAuthorized'') existing in
       if \<not> same_scope op digest c existing authorized
       then Inl (mk_err ''EXECUTION_IDEMPOTENCY_SCOPE_CONFLICT''
                   ''Idempotency key is already bound to a different operation scope'')
       else let evidence = concat (map (\<lambda>r. str_list (r_evidence_refs r)) existing);
                terminal = find (\<lambda>r. r_event_type r \<in> set TERMINAL_EVENTS) (rev existing) in
         Inr (Some (case terminal of
             None \<Rightarrow>
               failureEnvelope
                 (governed ''EXECUTION_OUTCOME_IN_DOUBT''
                    ''Execution started without a durable terminal fact; automatic replay is prohibited'')
                 (Some (op_id op)) evidence (str_list (js_get (r_payload (the authorized)) ''warnings''))
           | Some t \<Rightarrow>
               let warnings = str_list (js_get (r_payload t) ''warnings'') in
               if r_event_type t = ''ExecutionSucceeded''
               then executionEnvelope True (success_data (op_id op) (js_get (r_payload t) ''result'') True) JNull evidence warnings
               else failureEnvelope (replay_error t) (Some (op_id op)) evidence warnings)))"

subsection \<open>From the request to the provider\<close>

text \<open>The local variables of one execution that live across its suspension points.\<close>

record exec =
  x_contract :: contract
  x_policy :: js
  x_input :: js
  x_op :: operation
  x_deadline_ms :: int
  x_digest :: string
  x_warnings :: "string list"
  x_requires :: bool
  x_evidence :: "string list"
  x_signal :: signal

text \<open>
  The shared state: the two databases, and the log of calls of \<open>provider.execute\<close> with the approval
  each was made under.
\<close>

record world =
  w_ledger :: ledger
  w_approvals :: approvals
  w_dispatched :: "(exec \<times> string option) list"

datatype phase =
    Finished envelope
  | AwaitApproval exec
  | AwaitProvider exec

record begin_answers =
  ba_authority :: "thrown + js"
  ba_policy :: "thrown + js"
  ba_uuid :: string
  ba_started :: "int option"

record dispatch_answers =
  da_auth_id :: string
  da_auth_at :: "int option"
  da_start_id :: string
  da_start_at :: "int option"
  da_consume_at :: "int option"
  da_aborted :: bool
  da_dispatch_at :: "int option"
  da_cancel_id :: string
  da_cancel_at :: "int option"
  da_reconcile :: "jserr option"

definition operation_for :: "contract \<Rightarrow> request \<Rightarrow> string \<Rightarrow> string \<Rightarrow> string \<Rightarrow> string \<Rightarrow> operation" where
  "operation_for c q key i causation deadline =
     \<lparr>op_id = i, op_tool = c_name c, op_capability = c_capability c, op_actor = q_actor q,
      op_scope = q_scope q, op_key = key, op_correlation = or_text (q_correlation q) i,
      op_causation = or_text (q_causation q) (causation @ i), op_deadline = deadline\<rparr>"

definition needs_approval :: "contract \<Rightarrow> bool \<Rightarrow> bool" where
  "needs_approval c policy_demand \<longleftrightarrow>
     c_requires_approval c \<or> c_reversibility c = ''irreversible_mutation'' \<or>
     (c_reversibility c \<noteq> ''read_only'' \<and> \<not> c_accepts_idempotency c) \<or> policy_demand"

definition authorized_payload :: "contract \<Rightarrow> operation \<Rightarrow> string \<Rightarrow> string list \<Rightarrow> string option \<Rightarrow> js" where
  "authorized_payload c op digest warnings approval =
     JObj ([(''tool'', JStr (c_name c)), (''capability'', JStr (c_capability c)),
            (''input_schema_version'', JNum (c_input_version c)),
            (''output_schema_version'', JNum (c_output_version c)),
            (''reversibility'', JStr (c_reversibility c)), (''policy_version'', JStr (c_policy_version c)),
            (''deadline'', JStr (op_deadline op)), (''cancellation_policy'', JStr (c_cancellation c)),
            (''idempotency_key'', JStr (op_key op)), (''resource_scope'', op_scope op),
            (''input_digest'', JStr digest), (''warnings'', str_arr warnings)] @
           (case approval of None \<Rightarrow> [] | Some i \<Rightarrow> [(''approval_id'', JStr i)]))"

definition started_payload :: "contract \<Rightarrow> operation \<Rightarrow> js" where
  "started_payload c op =
     JObj [(''tool'', JStr (c_name c)), (''provider'', JStr (c_provider c)),
           (''idempotency_key'', JStr (op_key op)), (''dispatch_attempt'', JNum 1),
           (''deadline'', JStr (op_deadline op))]"

definition start_facts :: "runtime \<Rightarrow> exec \<Rightarrow> string option \<Rightarrow> string list \<Rightarrow> dispatch_answers \<Rightarrow> js list res" where
  "start_facts rt x approval evidence da =
     bind_res (exec_fact rt (x_op x) ''ExecutionAuthorized'' (da_auth_id da) (da_auth_at da)
                 (authorized_payload (x_contract x) (x_op x) (x_digest x) (x_warnings x) approval) evidence) (\<lambda>authorized.
     bind_res (exec_fact rt (x_op x) ''ExecutionStarted'' (da_start_id da) (da_start_at da)
                 (started_payload (x_contract x) (x_op x)) []) (\<lambda>started.
     Inr [authorized, started]))"

definition appendStartFacts :: "runtime \<Rightarrow> string \<Rightarrow> js list \<Rightarrow> ledger \<Rightarrow> ledger \<times> append_result res" where
  "appendStartFacts rt i facts l = ledger_append (rt_registry rt) l (log_request (execution_stream i) 0 facts)"

text \<open>The start facts become durable, together with the use of the approval when one is required.\<close>

definition commit_start :: "runtime \<Rightarrow> world \<Rightarrow> exec \<Rightarrow> string option \<Rightarrow> dispatch_answers \<Rightarrow> world \<times> string list res" where
  "commit_start rt w x approval da =
     (let i = op_id (x_op x);
          known = (case approval of None \<Rightarrow> None | Some a \<Rightarrow> select_approval (w_approvals w) a);
          evidence0 = (case known of None \<Rightarrow> [] | Some a \<Rightarrow> [a_evidence a])
      in case start_facts rt x approval evidence0 da of
           Inl e \<Rightarrow> (w, Inl e)
         | Inr facts \<Rightarrow>
             (case approval of
                None \<Rightarrow>
                  (case appendStartFacts rt i facts (w_ledger w) of
                     (l', Inl e) \<Rightarrow> (w\<lparr>w_ledger := l'\<rparr>, Inl e)
                   | (l', Inr _) \<Rightarrow> (w\<lparr>w_ledger := l'\<rparr>, Inr []))
              | Some a \<Rightarrow>
                  (case canonicalTime (da_consume_at da) of
                     Inl e \<Rightarrow> (w, Inl e)
                   | Inr now \<Rightarrow>
                       (case consume (w_approvals w) (w_ledger w)
                               \<lparr>cq_approval = JStr a, cq_operation = JStr i, cq_scope = op_scope (x_op x),
                                cq_policy = JStr (c_policy_version (x_contract x)), cq_now = JStr now\<rparr>
                               (Some (appendStartFacts rt i facts)) of
                          ((ap', l'), Inl e) \<Rightarrow> (w\<lparr>w_ledger := l', w_approvals := ap'\<rparr>, Inl e)
                        | ((ap', l'), Inr g) \<Rightarrow> (w\<lparr>w_ledger := l', w_approvals := ap'\<rparr>, Inr [a_evidence g])))))"

text \<open>A cancellation recorded before the provider is called.\<close>

definition cancel_before_dispatch ::
    "runtime \<Rightarrow> world \<Rightarrow> exec \<Rightarrow> string list \<Rightarrow> dispatch_answers \<Rightarrow> string \<Rightarrow> thrown \<Rightarrow> world \<times> phase" where
  "cancel_before_dispatch rt w x evidence da reason error =
     (let i = op_id (x_op x) in
      case persistOutcome rt (w_ledger w) (x_op x) ''ExecutionCancelled'' (da_cancel_id da) (da_cancel_at da)
             [(''reason'', JStr reason), (''phase'', JStr ''pre_dispatch'')] [] (x_warnings x) of
        (l', Some e) \<Rightarrow> (w\<lparr>w_ledger := l'\<rparr>, Finished (terminalPersistenceFailure i evidence (x_warnings x) e))
      | (l', None) \<Rightarrow>
          (w\<lparr>w_ledger := l'\<rparr>,
           Finished (failureEnvelope error (Some i) evidence (reconcile rt (da_reconcile da) (x_warnings x)))))"

definition deadline_error :: jserr where
  "deadline_error = mk_err ''EXECUTION_DEADLINE_EXCEEDED'' ''Provider did not settle before the execution deadline''"

definition dispatch :: "runtime \<Rightarrow> world \<Rightarrow> exec \<Rightarrow> string option \<Rightarrow> dispatch_answers \<Rightarrow> world \<times> phase" where
  "dispatch rt w x approval da =
     (let i = op_id (x_op x) in
      case commit_start rt w x approval da of
        (w', Inl e) \<Rightarrow> (w', Finished (failureEnvelope (thrown_of e) (Some i) [] (x_warnings x)))
      | (w', Inr evidence) \<Rightarrow>
          if x_signal x = GoodSignal \<and> da_aborted da \<and> c_cancellation (x_contract x) = ''cooperative''
          then cancel_before_dispatch rt w' x evidence da ''cancelled before provider dispatch''
                 (governed ''EXECUTION_CANCELLED'' ''Execution cancelled'')
          else case da_dispatch_at da of
              None \<Rightarrow>
                (w', Finished (failureEnvelope
                   (governed ''EXECUTION_GOVERNANCE_FAILED'' ''Clock returned an invalid timestamp'') (Some i) [] (x_warnings x)))
            | Some now \<Rightarrow>
                if x_deadline_ms x - now \<le> 0
                then cancel_before_dispatch rt w' x evidence da ''execution deadline expired before provider dispatch''
                       (thrown_of deadline_error)
                else let y = x\<lparr>x_evidence := evidence\<rparr>
                     in (w'\<lparr>w_dispatched := w_dispatched w' @ [(y, approval)]\<rparr>, AwaitProvider y))"

definition begin_execution ::
    "runtime \<Rightarrow> world \<Rightarrow> request option \<Rightarrow> begin_answers \<Rightarrow> dispatch_answers \<Rightarrow> world \<times> phase" where
  "begin_execution rt w q0 ba da =
     (case bind_res (admit rt q0) (\<lambda>(q, c, input).
           bind_res (decide ''execution'' c (ba_authority ba) (ba_policy ba)) (\<lambda>(ws, demand).
           Inr (q, c, input, ws, demand))) of
        Inl t \<Rightarrow> (w, Finished (failureEnvelope t None [] []))
      | Inr (q, c, input, ws, demand) \<Rightarrow>
          let key0 = (if q_key q = JUndef then JStr (ba_uuid ba) else q_key q) in
          if \<not> is_text key0
          then (w, Finished (failureEnvelope
                 (governed ''EXECUTION_REQUEST_INVALID'' ''idempotency_key must be a non-empty string'') None [] ws))
          else let key = js_text key0; i = deterministicOperationId (rt_hash rt) (c_name c) key;
                   fail = (\<lambda>t. (w, Finished (failureEnvelope t (Some i) [] ws))) in
            case ba_started ba of
              None \<Rightarrow> fail (governed ''EXECUTION_GOVERNANCE_FAILED'' ''Clock returned an invalid timestamp'')
            | Some now \<Rightarrow>
              (case deadline_of now (c_timeout_ms c) of
                 Inl e \<Rightarrow> fail (thrown_of e)
               | Inr deadline \<Rightarrow>
                   let op = operation_for c q key i ''request:'' deadline; digest = rt_digest rt (stableValue input) in
                   case readExisting rt (w_ledger w) op digest c of
                     Inl e \<Rightarrow> fail (thrown_of e)
                   | Inr (Some env) \<Rightarrow> (w, Finished env)
                   | Inr None \<Rightarrow>
                       let x = \<lparr>x_contract = c, x_policy = (case ba_policy ba of Inr p \<Rightarrow> p | Inl t \<Rightarrow> JUndef), x_input = input, x_op = op, x_deadline_ms = now + c_timeout_ms c,
                                x_digest = digest, x_warnings = ws, x_requires = needs_approval c demand,
                                x_evidence = [], x_signal = q_signal q\<rparr> in
                       if x_requires x then
                         (if \<not> rt_has_approvals rt
                          then fail (governed ''EXECUTION_APPROVAL_REQUIRED''
                                 ''Explicit approval is required but no approval boundary is available'')
                          else (w, AwaitApproval x))
                       else dispatch rt w x None da))"

definition approve_execution ::
    "runtime \<Rightarrow> world \<Rightarrow> exec \<Rightarrow> thrown + js \<Rightarrow> dispatch_answers \<Rightarrow> world \<times> phase" where
  "approve_execution rt w x answer da =
     (let fail = (\<lambda>t. (w, Finished (failureEnvelope t (Some (op_id (x_op x))) [] (x_warnings x)))) in
      case answer of
        Inl t \<Rightarrow> fail t
      | Inr v \<Rightarrow>
          if \<not> is_text v then fail (governed ''EXECUTION_APPROVAL_REQUIRED'' ''Explicit approval is required'')
          else dispatch rt w x (Some (js_text v)) da)"


subsection \<open>Settling the provider's outcome\<close>

text \<open>
  What the race between the provider and the deadline yields: a value, or a thrown value together with
  whether the deadline had passed.
\<close>

datatype provider_outcome = Returned js | Threw thrown bool

record settle_answers =
  se_id :: string
  se_at :: "int option"
  se_reconcile :: "jserr option"

definition providerError :: "thrown \<Rightarrow> jserr" where
  "providerError t =
     \<lparr>err_code = (if is_str (thrown_get t ''code'') then js_text (thrown_get t ''code'') else ''PROVIDER_EXECUTION_FAILED''),
      err_message = (if is_str (thrown_get t ''message'') then js_text (thrown_get t ''message'') else ''Provider execution failed''),
      err_retryable = js_truthy (thrown_get t ''retryable'')\<rparr>"

definition error_js :: "jserr \<Rightarrow> js" where
  "error_js e = JObj [(''code'', JStr (err_code e)), (''message'', JStr (err_message e)), (''retryable'', JBool (err_retryable e))]"

definition result_invalid :: "string \<Rightarrow> jserr" where
  "result_invalid msg = mk_err ''EXECUTION_PROVIDER_RESULT_INVALID'' msg"

definition providerMetadata :: "js \<Rightarrow> (string list \<times> string list) res" where
  "providerMetadata result =
     bind_res (each_res (\<lambda>f. check_that (js_get result f = JUndef \<or> is_str_array (js_get result f))
                 (result_invalid (''Provider '' @ f @ '' must be an array of strings''))) [''evidence'', ''warnings'']) (\<lambda>_.
     bind_res (check_that (js_get result ''receipt_ref'' = JUndef \<or> is_text (js_get result ''receipt_ref''))
                 (result_invalid ''Provider receipt_ref must be a non-empty string'')) (\<lambda>_.
     Inr (str_list (js_get result ''evidence'') @ (if js_truthy (js_get result ''receipt_ref'') then [js_text (js_get result ''receipt_ref'')] else []),
          str_list (js_get result ''warnings''))))"

definition receipt_fields :: "string option \<Rightarrow> fields" where
  "receipt_fields r = (case r of None \<Rightarrow> [] | Some s \<Rightarrow> [(''provider_receipt_ref'', JStr s)])"

text \<open>Names every object inherits: \<open>typeByOutcome[name]\<close> finds a built-in, not an event type.\<close>

definition object_prototype_names :: "string list" where
  "object_prototype_names =
     [''constructor'', ''__defineGetter__'', ''__defineSetter__'', ''hasOwnProperty'', ''__lookupGetter__'',
      ''__lookupSetter__'', ''isPrototypeOf'', ''propertyIsEnumerable'', ''toString'', ''valueOf'',
      ''__proto__'', ''toLocaleString'']"

definition outcome_type :: "string \<Rightarrow> string" where
  "outcome_type outcome =
     (if outcome = ''cancelled'' then ''ExecutionCancelled''
      else if outcome = ''failed'' then ''ExecutionFailed''
      else if outcome \<in> set object_prototype_names then outcome
      else ''ExecutionOutcomeUncertain'')"

definition settle_threw :: "runtime \<Rightarrow> world \<Rightarrow> exec \<Rightarrow> thrown \<Rightarrow> bool \<Rightarrow> settle_answers \<Rightarrow> world \<times> envelope" where
  "settle_threw rt w x t late se =
     (let i = op_id (x_op x); normalized = providerError t;
          receipt = (if is_text (thrown_get t ''receipt_ref'') then Some (js_text (thrown_get t ''receipt_ref'')) else None);
          warnings = x_warnings x @ (if thrown_get t ''receipt_ref'' \<noteq> JUndef \<and> receipt = None
                                     then [''provider_error_receipt_ref_invalid''] else []);
          outcome = (if late then ''uncertain''
                     else if js_truthy (thrown_get t ''outcome'') then js_show (thrown_get t ''outcome'')
                     else if c_reversibility (x_contract x) = ''read_only'' then ''failed'' else ''uncertain'');
          receipts = (case receipt of None \<Rightarrow> [] | Some r \<Rightarrow> [r]);
          type = outcome_type outcome;
          reason = (if late then ''provider deadline exceeded after dispatch began'' else err_message normalized);
          payload = (if type = ''ExecutionCancelled''
                     then [(''reason'', JStr (err_message normalized)), (''phase'', JStr ''dispatch'')] @ receipt_fields receipt
                     else if type = ''ExecutionFailed'' then (''error'', error_js normalized) # receipt_fields receipt
                     else if type = ''ExecutionOutcomeUncertain'' then (''reason'', JStr reason) # receipt_fields receipt
                     else []);
          evidence = x_evidence x @ receipts
      in case persistOutcome rt (w_ledger w) (x_op x) type (se_id se) (se_at se) payload receipts warnings of
           (l', Some e) \<Rightarrow> (w\<lparr>w_ledger := l'\<rparr>, terminalPersistenceFailure i evidence warnings e)
         | (l', None) \<Rightarrow>
             (w\<lparr>w_ledger := l'\<rparr>,
              failureEnvelope
                (thrown_of (if type = ''ExecutionOutcomeUncertain'' then mk_err ''EXECUTION_OUTCOME_IN_DOUBT'' reason
                            else if type = ''ExecutionCancelled'' then mk_err ''EXECUTION_CANCELLED'' (err_message normalized)
                            else normalized\<lparr>err_retryable := type = ''ExecutionFailed'' \<and> err_retryable normalized\<rparr>))
                (Some i) evidence (reconcile rt (se_reconcile se) warnings)))"

text \<open>
  An unusable result: uncertain for a mutation, failed for a read; \<open>reason\<close> is what an uncertain
  outcome records.
\<close>

definition settle_unusable ::
    "runtime \<Rightarrow> world \<Rightarrow> exec \<Rightarrow> jserr \<Rightarrow> fields \<Rightarrow> string list \<Rightarrow> string list \<Rightarrow> string list \<Rightarrow> settle_answers \<Rightarrow> world \<times> envelope" where
  "settle_unusable rt w x e reason refs evidence warnings se =
     (let i = op_id (x_op x); uncertain = (c_reversibility (x_contract x) \<noteq> ''read_only'') in
      case persistOutcome rt (w_ledger w) (x_op x)
             (if uncertain then ''ExecutionOutcomeUncertain'' else ''ExecutionFailed'') (se_id se) (se_at se)
             (if uncertain then reason else [(''error'', error_js (e\<lparr>err_retryable := False\<rparr>))]) refs warnings of
        (l', Some pe) \<Rightarrow> (w\<lparr>w_ledger := l'\<rparr>, terminalPersistenceFailure i evidence warnings pe)
      | (l', None) \<Rightarrow>
          (w\<lparr>w_ledger := l'\<rparr>,
           failureEnvelope (governed (if uncertain then ''EXECUTION_OUTCOME_IN_DOUBT'' else err_code e) (err_message e))
             (Some i) evidence (reconcile rt (se_reconcile se) warnings)))"

definition settle_returned :: "runtime \<Rightarrow> world \<Rightarrow> exec \<Rightarrow> js \<Rightarrow> settle_answers \<Rightarrow> world \<times> envelope" where
  "settle_returned rt w x result se =
     (let i = op_id (x_op x); unusable = (\<lambda>e. settle_unusable rt w x e [(''reason'', JStr (err_message e))] [] (x_evidence x) (x_warnings x) se) in
      if \<not> has_own result ''data'' then unusable (result_invalid ''Provider result must contain data'')
      else case providerMetadata result of
          Inl e \<Rightarrow> unusable e
        | Inr (meta_evidence, meta_warnings) \<Rightarrow>
            let evidence = x_evidence x @ meta_evidence; warnings = x_warnings x @ meta_warnings;
                receipt = (if js_truthy (js_get result ''receipt_ref'') then Some (js_text (js_get result ''receipt_ref'')) else None) in
            case rt_validate_output rt (x_contract x) (js_get result ''data'') of
              Inl e \<Rightarrow>
                settle_unusable rt w x e
                  ((''reason'', JStr ''provider completed but output schema validation failed'') # receipt_fields receipt)
                  (case receipt of None \<Rightarrow> [] | Some r \<Rightarrow> [r]) evidence warnings se
            | Inr output \<Rightarrow>
                (case persistOutcome rt (w_ledger w) (x_op x) ''ExecutionSucceeded'' (se_id se) (se_at se)
                        ([(''result'', output), (''output_schema_version'', JNum (c_output_version (x_contract x)))] @
                         receipt_fields receipt) evidence warnings of
                   (l', Some e) \<Rightarrow> (w\<lparr>w_ledger := l'\<rparr>, terminalPersistenceFailure i evidence warnings e)
                 | (l', None) \<Rightarrow>
                     (w\<lparr>w_ledger := l'\<rparr>,
                      executionEnvelope True (success_data i output False) JNull evidence
                        (reconcile rt (se_reconcile se) warnings))))"

definition settle :: "runtime \<Rightarrow> world \<Rightarrow> exec \<Rightarrow> provider_outcome \<Rightarrow> settle_answers \<Rightarrow> world \<times> envelope" where
  "settle rt w x outcome se =
     (case outcome of
        Returned v \<Rightarrow> settle_returned rt w x v se
      | Threw t late \<Rightarrow> settle_threw rt w x t late se)"

subsection \<open>Cancellation of a queued request\<close>

record cancel_answers =
  ca_begin :: begin_answers
  ca_auth_id :: string
  ca_auth_at :: "int option"
  ca_start_id :: string
  ca_start_at :: "int option"
  ca_cancel_id :: string
  ca_cancel_at :: "int option"
  ca_reconcile :: "jserr option"

definition cancel_facts :: "runtime \<Rightarrow> contract \<Rightarrow> operation \<Rightarrow> string \<Rightarrow> string list \<Rightarrow> cancel_answers \<Rightarrow> js list res" where
  "cancel_facts rt c op digest ws ca =
     bind_res (exec_fact rt op ''ExecutionAuthorized'' (ca_auth_id ca) (ca_auth_at ca)
                 (authorized_payload c op digest ws None) []) (\<lambda>authorized.
     bind_res (exec_fact rt op ''ExecutionStarted'' (ca_start_id ca) (ca_start_at ca) (started_payload c op) []) (\<lambda>started.
     bind_res (exec_fact rt op ''ExecutionCancelled'' (ca_cancel_id ca) (ca_cancel_at ca)
                 (JObj [(''reason'', JStr ''cancelled by governed scheduler before provider dispatch''),
                        (''phase'', JStr ''scheduler_queue''), (''warnings'', str_arr ws)]) []) (\<lambda>cancelled.
     Inr [authorized, started, cancelled])))"

definition cancelQueued :: "runtime \<Rightarrow> world \<Rightarrow> request option \<Rightarrow> cancel_answers \<Rightarrow> world \<times> envelope" where
  "cancelQueued rt w q0 ca =
     (case bind_res (admit_cancellation rt q0) (\<lambda>(q, c, input).
           bind_res (decide ''cancellation'' c (ba_authority (ca_begin ca)) (ba_policy (ca_begin ca))) (\<lambda>(ws, demand).
           Inr (q, c, input, ws))) of
        Inl t \<Rightarrow> (w, failureEnvelope t None [] [])
      | Inr (q, c, input, ws) \<Rightarrow>
          if \<not> is_text (q_key q)
          then (w, failureEnvelope
                 (governed ''EXECUTION_REQUEST_INVALID'' ''Queued cancellation requires its original idempotency key'') None [] ws)
          else let key = js_text (q_key q); i = deterministicOperationId (rt_hash rt) (c_name c) key;
                   fail = (\<lambda>w' t. (w', failureEnvelope t (Some i) [] ws)) in
            case ba_started (ca_begin ca) of
              None \<Rightarrow> fail w (governed ''EXECUTION_GOVERNANCE_FAILED'' ''Clock returned an invalid timestamp'')
            | Some now \<Rightarrow>
              (case deadline_of now (c_timeout_ms c) of
                 Inl e \<Rightarrow> fail w (thrown_of e)
               | Inr deadline \<Rightarrow>
                   let op = operation_for c q key i ''scheduler-cancel:'' deadline; digest = rt_digest rt (stableValue input) in
                   case readExisting rt (w_ledger w) op digest c of
                     Inl e \<Rightarrow> fail w (thrown_of e)
                   | Inr (Some env) \<Rightarrow> (w, env)
                   | Inr None \<Rightarrow>
                       (case cancel_facts rt c op digest ws ca of
                          Inl e \<Rightarrow> fail w (thrown_of e)
                        | Inr facts \<Rightarrow>
                            (case ledger_append (rt_registry rt) (w_ledger w) (log_request (execution_stream i) 0 facts) of
                               (l', Inl e) \<Rightarrow> fail (w\<lparr>w_ledger := l'\<rparr>) (thrown_of e)
                             | (l', Inr _) \<Rightarrow>
                                 (w\<lparr>w_ledger := l'\<rparr>,
                                  failureEnvelope (governed ''EXECUTION_CANCELLED'' ''Execution cancelled before provider dispatch'')
                                    (Some i) [] (reconcile rt (ca_reconcile ca) ws))))))"

subsection \<open>How the shared state evolves\<close>

text \<open>
  The tables only grow: the ledger keeps its invariant and every stream is extended at its end, and
  approvals and uses are only added.
\<close>

definition ledger_grows :: "ledger \<Rightarrow> ledger \<Rightarrow> bool" where
  "ledger_grows l l' \<longleftrightarrow> ledger_ok l' \<and> (\<exists>n. led_rows l' = led_rows l @ n)"

definition approvals_grow :: "approvals \<Rightarrow> approvals \<Rightarrow> bool" where
  "approvals_grow st st' \<longleftrightarrow> approvals_ok st' \<and> (\<exists>n. ap_rows st' = ap_rows st @ n) \<and> (\<exists>n. ap_uses st' = ap_uses st @ n)"

lemma ledger_grows_refl: "ledger_ok l \<Longrightarrow> ledger_grows l l"
  by (simp add: ledger_grows_def)

lemma ledger_grows_trans: "ledger_grows l l1 \<Longrightarrow> ledger_grows l1 l2 \<Longrightarrow> ledger_grows l l2"
  by (auto simp: ledger_grows_def)

lemma approvals_grow_refl: "approvals_ok st \<Longrightarrow> approvals_grow st st"
  by (simp add: approvals_grow_def)

lemma approvals_grow_trans: "approvals_grow a b \<Longrightarrow> approvals_grow b c \<Longrightarrow> approvals_grow a c"
  by (auto simp: approvals_grow_def)

lemma ledger_append_grows: "ledger_ok l \<Longrightarrow> ledger_append reg l rq = (l', r) \<Longrightarrow> ledger_grows l l'"
  using ledger_append_ok by (auto simp: ledger_grows_def)

lemma ledger_grows_stream:
  "ledger_grows l l' \<Longrightarrow> \<exists>ys. log_read l' s = log_read l s @ ys"
  by (auto simp: ledger_grows_def log_read_def select_stream_def)

lemma ledger_grows_same_rows: "ledger_grows l l' \<Longrightarrow> ledger_grows l (l'\<lparr>led_rows := led_rows l\<rparr>) \<longleftrightarrow> ledger_ok l"
  by (auto simp: ledger_grows_def ledger_ok_def)

lemma appendOutcome_grows:
  "ledger_ok l \<Longrightarrow> appendOutcome rt l op t i at p ev = (l', r) \<Longrightarrow> ledger_grows l l'"
  by (auto simp: appendOutcome_def split: sum.splits dest: ledger_append_grows ledger_grows_refl)

lemma persistOutcome_grows:
  "ledger_ok l \<Longrightarrow> persistOutcome rt l op t i at p ev ws = (l', r) \<Longrightarrow> ledger_grows l l'"
  by (auto simp: persistOutcome_def split: prod.splits sum.splits dest: appendOutcome_grows)

definition world_ok :: "world \<Rightarrow> bool" where
  "world_ok w \<longleftrightarrow> ledger_ok (w_ledger w) \<and> approvals_ok (w_approvals w)"

definition world_grows :: "world \<Rightarrow> world \<Rightarrow> bool" where
  "world_grows w w' \<longleftrightarrow> ledger_grows (w_ledger w) (w_ledger w') \<and> approvals_grow (w_approvals w) (w_approvals w')"

lemma world_grows_refl: "world_ok w \<Longrightarrow> world_grows w w"
  by (simp add: world_ok_def world_grows_def ledger_grows_refl approvals_grow_refl)

lemma world_grows_trans: "world_grows a b \<Longrightarrow> world_grows b c \<Longrightarrow> world_grows a c"
  unfolding world_grows_def using ledger_grows_trans approvals_grow_trans by blast

lemma world_grows_ok: "world_grows w w' \<Longrightarrow> world_ok w'"
  by (simp add: world_grows_def world_ok_def ledger_grows_def approvals_grow_def)

lemma world_grows_ledger:
  "world_ok w \<Longrightarrow> ledger_grows (w_ledger w) l' \<Longrightarrow> world_grows w (w\<lparr>w_ledger := l'\<rparr>)"
  by (simp add: world_grows_def world_ok_def approvals_grow_refl)

lemma consume_grows:
  assumes "consume st l q (Some g) = ((st', l'), r)" "ledger_ok l" "approvals_ok st"
    "\<And>l' r. g l = (l', r) \<Longrightarrow> ledger_grows l l'"
  shows "ledger_grows l l' \<and> approvals_grow st st'"
proof (cases r)
  case (Inl e)
  show ?thesis
    using consume_Inl[OF assms(1)[unfolded Inl]] assms(2,3)
    by (simp add: ledger_grows_def ledger_ok_def approvals_grow_refl)
next
  case (Inr a)
  note c = consume_Inr[OF assms(1)[unfolded Inr]]
  show ?thesis
    using c(2) assms(4) consume_ok[OF assms(1,3)] by (auto simp: approvals_grow_def c(1))
qed

definition start_consumption :: "exec \<Rightarrow> string \<Rightarrow> string \<Rightarrow> consume_request" where
  "start_consumption x a now =
     \<lparr>cq_approval = JStr a, cq_operation = JStr (op_id (x_op x)), cq_scope = op_scope (x_op x),
      cq_policy = JStr (c_policy_version (x_contract x)), cq_now = JStr now\<rparr>"

lemma commit_start_cases:
  assumes "commit_start rt w x ap da = (w', r)"
  obtains (refused) e where "w' = w" "r = Inl e"
  | (plain) facts l' q where "ap = None" "start_facts rt x None [] da = Inr facts"
      "appendStartFacts rt (op_id (x_op x)) facts (w_ledger w) = (l', q)" "w' = w\<lparr>w_ledger := l'\<rparr>"
      "isl r = isl q"
  | (approved) a ev0 facts now st' l' q where "ap = Some a" "start_facts rt x ap ev0 da = Inr facts"
      "consume (w_approvals w) (w_ledger w) (start_consumption x a now)
         (Some (appendStartFacts rt (op_id (x_op x)) facts)) = ((st', l'), q)"
      "w' = w\<lparr>w_ledger := l', w_approvals := st'\<rparr>" "isl r = isl q"
proof (cases ap)
  case None
  then show thesis
    using assms refused plain
    by (fastforce simp: commit_start_def Let_def split: sum.splits prod.splits)
next
  case (Some a)
  define ev0 where "ev0 = (case select_approval (w_approvals w) a of None \<Rightarrow> [] | Some b \<Rightarrow> [a_evidence b])"
  show thesis
  proof (cases "start_facts rt x ap ev0 da")
    case (Inl e)
    then show thesis using assms refused Some by (auto simp: commit_start_def Let_def ev0_def)
  next
    case (Inr facts)
    show thesis
    proof (cases "canonicalTime (da_consume_at da)")
      case (Inl e)
      then show thesis using assms refused Some Inr \<open>start_facts rt x ap ev0 da = Inr facts\<close>
        by (auto simp: commit_start_def Let_def ev0_def)
    next
      case now: (Inr now)
      obtain st' l' q where c: "consume (w_approvals w) (w_ledger w) (start_consumption x a now)
          (Some (appendStartFacts rt (op_id (x_op x)) facts)) = ((st', l'), q)"
        by (metis prod.exhaust)
      have "w' = w\<lparr>w_ledger := l', w_approvals := st'\<rparr> \<and> isl r = isl q"
        using assms Some Inr now c
        by (cases q) (auto simp: commit_start_def Let_def ev0_def start_consumption_def)
      then show thesis using approved Some Inr c by blast
    qed
  qed
qed

lemma commit_start_grows:
  assumes "commit_start rt w x ap da = (w', r)" "world_ok w"
  shows "world_grows w w' \<and> w_dispatched w' = w_dispatched w"
proof -
  have l: "ledger_ok (w_ledger w)" "approvals_ok (w_approvals w)" using assms(2) by (auto simp: world_ok_def)
  have g: "appendStartFacts rt i fs (w_ledger w) = (l', r') \<Longrightarrow> ledger_grows (w_ledger w) l'" for i fs l' r'
    using ledger_append_grows[OF l(1)] by (simp add: appendStartFacts_def)
  from assms(1) show ?thesis
  proof (cases rule: commit_start_cases)
    case refused
    then show ?thesis using world_grows_refl[OF assms(2)] by simp
  next
    case (plain facts l' q)
    then show ?thesis using world_grows_ledger[OF assms(2) g] by simp
  next
    case (approved a ev0 facts now st' l' q)
    then show ?thesis using consume_grows[OF approved(3) l g] by (simp add: world_grows_def)
  qed
qed

lemma cancel_before_dispatch_grows:
  assumes "cancel_before_dispatch rt w x ev da reason e = (w', p)" "world_ok w"
  shows "world_grows w w' \<and> w_dispatched w' = w_dispatched w \<and> (\<exists>env. p = Finished env)"
  using assms persistOutcome_grows[of "w_ledger w"] world_grows_ledger[OF assms(2)]
  by (auto simp: cancel_before_dispatch_def Let_def world_ok_def split: prod.splits option.splits)

subsection \<open>Start facts and dispatch\<close>

text \<open>Identifiers the event factory has not handed out before.\<close>

definition fresh_ids :: "ledger \<Rightarrow> string list \<Rightarrow> bool" where
  "fresh_ids l ids \<longleftrightarrow> set ids \<inter> r_event_id ` set (led_rows l) = {}"

definition start_ids :: "dispatch_answers \<Rightarrow> string list" where
  "start_ids da = [da_auth_id da, da_start_id da]"

lemma fact_Inr:
  assumes "exec_fact rt op t i at p ev = Inr f"
  shows "event_text f ''event_id'' = i" "event_text f ''event_type'' = t"
    "js_get f ''payload'' = p" "js_get f ''correlation_id'' = op_correlation op"
    "js_get f ''causation_id'' = op_causation op" "js_get f ''actor'' = op_actor op"
    "js_get f ''operation_id'' = JStr (op_id op)" "js_get f ''schema_version'' = JNum 1"
    "event_evidence f = str_arr ev"
  using assms
  by (auto simp: exec_fact_def event_text_def js_get_JObj event_evidence_def str_arr_def dest!: validateForAppend_Inr)

lemma start_facts_Inr:
  assumes "start_facts rt x ap ev da = Inr facts"
  obtains a s where "facts = [a, s]"
    "exec_fact rt (x_op x) ''ExecutionAuthorized'' (da_auth_id da) (da_auth_at da)
       (authorized_payload (x_contract x) (x_op x) (x_digest x) (x_warnings x) ap) ev = Inr a"
    "exec_fact rt (x_op x) ''ExecutionStarted'' (da_start_id da) (da_start_at da)
       (started_payload (x_contract x) (x_op x)) [] = Inr s"
  using assms by (auto simp: start_facts_def)

lemma appendStartFacts_Inr:
  assumes "ledger_ok l" "start_facts rt x ap ev da = Inr facts" "fresh_ids l (start_ids da)"
    "appendStartFacts rt i facts l = (l', Inr q)"
  shows "log_read l (execution_stream i) = []"
    "map r_event_type (log_read l' (execution_stream i)) = [''ExecutionAuthorized'', ''ExecutionStarted'']"
    "list_all2 holds_event (log_read l' (execution_stream i)) facts"
proof -
  obtain a s where f: "facts = [a, s]"
    and a: "exec_fact rt (x_op x) ''ExecutionAuthorized'' (da_auth_id da) (da_auth_at da)
       (authorized_payload (x_contract x) (x_op x) (x_digest x) (x_warnings x) ap) ev = Inr a"
    and s: "exec_fact rt (x_op x) ''ExecutionStarted'' (da_start_id da) (da_start_at da)
       (started_payload (x_contract x) (x_op x)) [] = Inr s"
    using assms(2) by (rule start_facts_Inr)
  have ap: "ledger_append (rt_registry rt) l (log_request (execution_stream i) 0 facts) = (l', Inr q)"
    using assms(4) by (simp add: appendStartFacts_def)
  have fr: "\<forall>e \<in> set facts. event_text e ''event_id'' \<notin> r_event_id ` set (led_rows l)"
    using assms(3) f fact_Inr(1)[OF a] fact_Inr(1)[OF s] by (auto simp: fresh_ids_def start_ids_def)
  note n = ledger_append_new[OF assms(1) ap fr]
  show e: "log_read l (execution_stream i) = []" using n(1) by simp
  obtain rs where rs: "log_read l' (execution_stream i) = rs" "list_all2 holds_event rs facts"
    using n(2) e by auto
  show "list_all2 holds_event (log_read l' (execution_stream i)) facts" using rs by simp
  show "map r_event_type (log_read l' (execution_stream i)) = [''ExecutionAuthorized'', ''ExecutionStarted'']"
    using rs f fact_Inr(2)[OF a] fact_Inr(2)[OF s] by (auto simp: holds_event_def list_all2_Cons2)
qed

text \<open>The approval \<open>a\<close> was used for the operation of \<open>x\<close> and covers it.\<close>

definition covered :: "approvals \<Rightarrow> exec \<Rightarrow> string option \<Rightarrow> bool" where
  "covered st x ap \<longleftrightarrow>
     (case ap of
        None \<Rightarrow> False
      | Some i \<Rightarrow> (\<exists>a u. select_approval st i = Some a \<and> u \<in> set (ap_uses st) \<and> u_approval u = i \<and>
           u_operation u = op_id (x_op x) \<and> a_operation a = op_id (x_op x) \<and> a_decision a = ''approved'' \<and>
           a_policy a = c_policy_version (x_contract x) \<and> a_scope a = stableValue (op_scope (x_op x)) \<and>
           a_issued a \<le> u_at u \<and> u_at u < a_expires a))"

lemma covered_grows:
  assumes "covered st x ap" "approvals_grow st st'"
  shows "covered st' x ap"
proof -
  obtain i where i: "ap = Some i" using assms(1) by (cases ap) (auto simp: covered_def)
  obtain as us where g: "ap_rows st' = ap_rows st @ as" "ap_uses st' = ap_uses st @ us"
    using assms(2) by (auto simp: approvals_grow_def)
  show ?thesis
    using assms(1) select_approval_append[OF g(1)] g(2) unfolding covered_def i by fastforce
qed

lemma consume_covers:
  assumes "consume st l (start_consumption x i now) f = ((st', l'), Inr a)"
  shows "covered st' x (Some i)"
proof -
  obtain scope where sc: "approval_stableJson (op_scope (x_op x)) ''resource_scope'' = Inr scope"
    and t: "consume_transaction st l i (op_id (x_op x)) (c_policy_version (x_contract x)) scope now f = ((st', l'), Inr a)"
    using assms by (rule consume_cases) (auto simp: start_consumption_def)
  note c = consume_transaction_Inr[OF t]
  show ?thesis
    using c(1) sc unfolding covered_def c(2) by (auto simp: check_consume_Inr approval_stableJson_iff)
qed

text \<open>
  A successful start: with fresh identifiers the stream was empty and now holds exactly the two start
  facts, and the approval, when one is given, is used and covers the operation.
\<close>

lemma commit_start_Inr:
  assumes "commit_start rt w x ap da = (w', Inr ev)" "world_ok w" "fresh_ids (w_ledger w) (start_ids da)"
  shows "log_read (w_ledger w) (execution_stream (op_id (x_op x))) = []"
    "map r_event_type (log_read (w_ledger w') (execution_stream (op_id (x_op x)))) =
       [''ExecutionAuthorized'', ''ExecutionStarted'']"
    "ap \<noteq> None \<Longrightarrow> covered (w_approvals w') x ap"
proof -
  have l: "ledger_ok (w_ledger w)" using assms(2) by (simp add: world_ok_def)
  have "log_read (w_ledger w) (execution_stream (op_id (x_op x))) = [] \<and>
     map r_event_type (log_read (w_ledger w') (execution_stream (op_id (x_op x)))) =
       [''ExecutionAuthorized'', ''ExecutionStarted''] \<and> (ap \<noteq> None \<longrightarrow> covered (w_approvals w') x ap)"
    using assms(1)
  proof (cases rule: commit_start_cases)
    case (plain facts l' q)
    then obtain r where "q = Inr r" by (cases q) auto
    then show ?thesis using appendStartFacts_Inr(1,2)[OF l plain(2) assms(3)] plain by simp
  next
    case (approved a ev0 facts now st' l' q)
    then obtain g where q: "q = Inr g" by (cases q) auto
    note c = approved(3)[unfolded q]
    obtain r where "appendStartFacts rt (op_id (x_op x)) facts (w_ledger w) = (l', Inr r)"
      using consume_Inr(2)[OF c] by auto
    then show ?thesis
      using appendStartFacts_Inr(1,2)[OF l approved(2) assms(3)] consume_covers[OF c] approved by simp
  qed auto
  then show "log_read (w_ledger w) (execution_stream (op_id (x_op x))) = []"
    "map r_event_type (log_read (w_ledger w') (execution_stream (op_id (x_op x)))) =
       [''ExecutionAuthorized'', ''ExecutionStarted'']"
    "ap \<noteq> None \<Longrightarrow> covered (w_approvals w') x ap"
    by auto
qed

lemma dispatch_cases:
  assumes "dispatch rt w x ap da = (w', p)" "world_ok w"
  obtains (ended) env where "p = Finished env" "world_grows w w'" "w_dispatched w' = w_dispatched w"
  | (sent) w1 ev where "commit_start rt w x ap da = (w1, Inr ev)" "p = AwaitProvider (x\<lparr>x_evidence := ev\<rparr>)"
      "w' = w1\<lparr>w_dispatched := w_dispatched w1 @ [(x\<lparr>x_evidence := ev\<rparr>, ap)]\<rparr>"
proof -
  obtain w1 r where c: "commit_start rt w x ap da = (w1, r)" by (cases "commit_start rt w x ap da")
  note g = commit_start_grows[OF c assms(2)]
  show thesis
  proof (cases r)
    case (Inl e)
    then show thesis using ended assms(1) c g by (auto simp: dispatch_def Let_def)
  next
    case (Inr ev)
    have cancel: "cancel_before_dispatch rt w1 x ev da reason e = (w', p) \<Longrightarrow> thesis" for reason e
      using cancel_before_dispatch_grows[OF _ world_grows_ok, of rt w1 x ev da reason e w' p w] g ended
      by (auto dest: world_grows_trans)
    show thesis
      using assms(1) c g Inr cancel sent ended
      by (auto simp: dispatch_def Let_def split: if_splits option.splits)
  qed
qed

lemma settle_grows:
  assumes "settle rt w x out se = (w', env)" "world_ok w"
  shows "world_grows w w' \<and> w_dispatched w' = w_dispatched w"
proof -
  have p: "persistOutcome rt (w_ledger w) op t i at pl ev ws = (l', r) \<Longrightarrow>
      world_grows w (w\<lparr>w_ledger := l'\<rparr>)" for op t i at pl ev ws l' r
    using persistOutcome_grows world_grows_ledger[OF assms(2)] assms(2) by (auto simp: world_ok_def)
  have u: "settle_unusable rt w x e rs refs ev ws se = (w', env) \<Longrightarrow>
      world_grows w w' \<and> w_dispatched w' = w_dispatched w" for e rs refs ev ws
    using p by (auto simp: settle_unusable_def Let_def split: prod.splits option.splits)
  show ?thesis
    using assms(1) p u
    by (cases out) (auto simp: settle_def settle_returned_def settle_threw_def Let_def
        split: prod.splits option.splits sum.splits if_splits)
qed

definition exec_ok :: "exec \<Rightarrow> bool" where
  "exec_ok x \<longleftrightarrow>
     (c_requires_approval (x_contract x) \<or> c_reversibility (x_contract x) = ''irreversible_mutation'' \<or>
      (c_reversibility (x_contract x) \<noteq> ''read_only'' \<and> \<not> c_accepts_idempotency (x_contract x)) \<or>
      js_get (x_policy x) ''requires_approval'' = JBool True \<longrightarrow> x_requires x)"

lemma decide_demand: "decide action c authority policy = Inr (ws, demand) \<Longrightarrow>
    \<exists>p. policy = Inr p \<and> demand = (js_get p ''requires_approval'' = JBool True)"
  by (auto simp: decide_def)

lemma begin_execution_cases:
  assumes "begin_execution rt w q ba da = (w', p)"
  obtains (ended) env where "p = Finished env" "w' = w"
  | (waiting) x where "p = AwaitApproval x" "w' = w" "x_requires x"
  | (dispatched) x where "dispatch rt w x None da = (w', p)" "\<not> x_requires x" "exec_ok x"
proof -
  show thesis
    using assms ended waiting
    by (auto simp: begin_execution_def Let_def split: sum.splits prod.splits if_splits option.splits)
      (erule dispatched; auto simp: exec_ok_def needs_approval_def dest!: decide_demand)+
qed

lemma approve_execution_cases:
  assumes "approve_execution rt w x ans da = (w', p)"
  obtains (ended) env where "p = Finished env" "w' = w"
  | (dispatched) i where "dispatch rt w x (Some i) da = (w', p)"
  using assms that by (auto simp: approve_execution_def Let_def split: sum.splits if_splits)

lemma cancelQueued_grows:
  assumes "cancelQueued rt w q ca = (w', env)" "world_ok w"
  shows "world_grows w w' \<and> w_dispatched w' = w_dispatched w"
proof -
  have p: "ledger_append (rt_registry rt) (w_ledger w) rq = (l', r) \<Longrightarrow>
      world_grows w (w\<lparr>w_ledger := l'\<rparr>)" for rq l' r
    using ledger_append_grows world_grows_ledger[OF assms(2)] assms(2) by (auto simp: world_ok_def)
  show ?thesis
    using assms(1) p world_grows_refl[OF assms(2)]
    by (auto simp: cancelQueued_def Let_def split: sum.splits prod.splits if_splits option.splits)
qed

end
