(* ===== verification/GovernedSystem.thy ===== *)
theory GovernedSystem
  imports Runtime
begin

text \<open>
  Concurrent governed executions over one database, as a step relation whose steps are the parts of
  \<open>GovernedExecutionRuntime\<close> between two suspension points, its reachable states and their
  invariant, and the guarantees of the runtime that follow: at-most-once dispatch, approvals before
  mutations, durable outcomes and faithful replay.
\<close>

subsection \<open>Concurrent executions over one database\<close>

text \<open>
  Any number of executions, each between two suspension points, over the shared state; at every step one
  of them runs to its next suspension point, a request is submitted, a queued request is cancelled, or an
  operator issues an approval. The event factory hands out identifiers that are not yet in the ledger.
\<close>

datatype proc = Requested "request option" | Waiting exec | Running exec | Done envelope

fun proc_of :: "phase \<Rightarrow> proc" where
  "proc_of (Finished env) = Done env"
| "proc_of (AwaitApproval x) = Waiting x"
| "proc_of (AwaitProvider x) = Running x"

record system =
  sys_world :: world
  sys_procs :: "proc list"

inductive system_step :: "runtime \<Rightarrow> system \<Rightarrow> system \<Rightarrow> bool" for rt where
  submit: "system_step rt s (s\<lparr>sys_procs := sys_procs s @ [Requested q]\<rparr>)"
| start: "i < length (sys_procs s) \<Longrightarrow> sys_procs s ! i = Requested q \<Longrightarrow>
    fresh_ids (w_ledger (sys_world s)) (start_ids da) \<Longrightarrow>
    begin_execution rt (sys_world s) q ba da = (w', p) \<Longrightarrow>
    system_step rt s \<lparr>sys_world = w', sys_procs = (sys_procs s)[i := proc_of p]\<rparr>"
| approve: "i < length (sys_procs s) \<Longrightarrow> sys_procs s ! i = Waiting x \<Longrightarrow>
    fresh_ids (w_ledger (sys_world s)) (start_ids da) \<Longrightarrow>
    approve_execution rt (sys_world s) x ans da = (w', p) \<Longrightarrow>
    system_step rt s \<lparr>sys_world = w', sys_procs = (sys_procs s)[i := proc_of p]\<rparr>"
| finish: "i < length (sys_procs s) \<Longrightarrow> sys_procs s ! i = Running x \<Longrightarrow>
    settle rt (sys_world s) x out se = (w', env) \<Longrightarrow>
    system_step rt s \<lparr>sys_world = w', sys_procs = (sys_procs s)[i := Done env]\<rparr>"
| cancel: "cancelQueued rt (sys_world s) q ca = (w', env) \<Longrightarrow>
    system_step rt s \<lparr>sys_world = w', sys_procs = sys_procs s @ [Done env]\<rparr>"
| grant: "issue (w_approvals (sys_world s)) v = (st', r) \<Longrightarrow>
    system_step rt s (s\<lparr>sys_world := (sys_world s)\<lparr>w_approvals := st'\<rparr>\<rparr>)"

definition new_system :: "(string \<times> int) list \<Rightarrow> system" where
  "new_system catalog =
     \<lparr>sys_world = \<lparr>w_ledger = new_ledger catalog, w_approvals = new_approvals, w_dispatched = []\<rparr>, sys_procs = []\<rparr>"

inductive reachable :: "runtime \<Rightarrow> (string \<times> int) list \<Rightarrow> system \<Rightarrow> bool" for rt catalog where
  initial: "reachable rt catalog (new_system catalog)"
| further: "reachable rt catalog s \<Longrightarrow> system_step rt s s' \<Longrightarrow> reachable rt catalog s'"

definition dispatched_id :: "exec \<times> string option \<Rightarrow> string" where
  "dispatched_id d = op_id (x_op (fst d))"

definition started :: "ledger \<Rightarrow> string \<Rightarrow> bool" where
  "started l i \<longleftrightarrow> take 2 (map r_event_type (log_read l (execution_stream i))) = [''ExecutionAuthorized'', ''ExecutionStarted'']"

definition dispatch_ok :: "world \<Rightarrow> exec \<times> string option \<Rightarrow> bool" where
  "dispatch_ok w d \<longleftrightarrow> started (w_ledger w) (dispatched_id d) \<and> exec_ok (fst d) \<and>
     (x_requires (fst d) \<longrightarrow> covered (w_approvals w) (fst d) (snd d))"

definition dispatches_ok :: "world \<Rightarrow> bool" where
  "dispatches_ok w \<longleftrightarrow> world_ok w \<and> distinct (map dispatched_id (w_dispatched w)) \<and>
     (\<forall>d \<in> set (w_dispatched w). dispatch_ok w d)"

lemma started_grows:
  assumes "started l i" "ledger_grows l l'"
  shows "started l' i"
proof -
  obtain ys where "log_read l' (execution_stream i) = log_read l (execution_stream i) @ ys"
    using ledger_grows_stream[OF assms(2)] by blast
  moreover have "length (take 2 (map r_event_type (log_read l (execution_stream i)))) = 2"
    using assms(1) unfolding started_def by (simp only:) simp
  ultimately show ?thesis using assms(1) by (simp add: started_def)
qed

lemma dispatch_ok_grows: "dispatch_ok w d \<Longrightarrow> world_grows w w' \<Longrightarrow> dispatch_ok w' d"
  unfolding dispatch_ok_def world_grows_def using started_grows covered_grows by blast

lemma dispatches_ok_grows:
  "dispatches_ok w \<Longrightarrow> world_grows w w' \<Longrightarrow> w_dispatched w' = w_dispatched w \<Longrightarrow> dispatches_ok w'"
  unfolding dispatches_ok_def using world_grows_ok dispatch_ok_grows by auto

lemma dispatches_ok_add:
  assumes "dispatches_ok w" "dispatch_ok w d" "dispatched_id d \<notin> dispatched_id ` set (w_dispatched w)"
  shows "dispatches_ok (w\<lparr>w_dispatched := w_dispatched w @ [d]\<rparr>)"
proof -
  have "dispatch_ok (w\<lparr>w_dispatched := w_dispatched w @ [d]\<rparr>) e \<longleftrightarrow> dispatch_ok w e" for e
    by (simp add: dispatch_ok_def)
  then show ?thesis using assms by (auto simp: dispatches_ok_def world_ok_def)
qed

lemma dispatch_keeps:
  assumes "dispatch rt w x ap da = (w', p)" "dispatches_ok w" "fresh_ids (w_ledger w) (start_ids da)"
    "exec_ok x" "x_requires x \<Longrightarrow> ap \<noteq> None"
  shows "dispatches_ok w' \<and> (\<forall>y. p = AwaitProvider y \<longrightarrow> y \<in> fst ` set (w_dispatched w')) \<and>
     (\<exists>ds. w_dispatched w' = w_dispatched w @ ds)"
proof -
  have ok: "world_ok w" using assms(2) by (simp add: dispatches_ok_def)
  from assms(1) ok show ?thesis
  proof (cases rule: dispatch_cases)
    case (ended env)
    then show ?thesis using dispatches_ok_grows[OF assms(2)] by simp
  next
    case (sent w1 ev)
    note c = commit_start_Inr[OF sent(1) ok assms(3)] and g = commit_start_grows[OF sent(1) ok]
    let ?d = "(x\<lparr>x_evidence := ev\<rparr>, ap)"
    have w1: "dispatches_ok w1" using dispatches_ok_grows[OF assms(2)] g by simp
    have new: "dispatched_id d \<noteq> dispatched_id ?d" if "d \<in> set (w_dispatched w)" for d
      using assms(2) that c(1) by (auto simp: dispatches_ok_def dispatch_ok_def started_def dispatched_id_def)
    have "covered (w_approvals w1) (x\<lparr>x_evidence := ev\<rparr>) ap \<longleftrightarrow> covered (w_approvals w1) x ap"
      by (cases ap) (simp_all add: covered_def)
    then have d: "dispatch_ok w1 ?d"
      using c assms(4,5) by (auto simp: dispatch_ok_def started_def dispatched_id_def exec_ok_def)
    have "dispatched_id ?d \<notin> dispatched_id ` set (w_dispatched w1)" using new g by (metis imageE)
    then have "dispatches_ok w'"
      unfolding sent(3) using w1 d by (rule dispatches_ok_add[rotated 2])
    then show ?thesis using sent g by simp
  qed
qed

fun proc_ok :: "world \<Rightarrow> proc \<Rightarrow> bool" where
  "proc_ok w (Running x) = (x \<in> fst ` set (w_dispatched w))"
| "proc_ok w (Waiting x) = x_requires x"
| "proc_ok w _ = True"

definition system_ok :: "system \<Rightarrow> bool" where
  "system_ok s \<longleftrightarrow> dispatches_ok (sys_world s) \<and> (\<forall>p \<in> set (sys_procs s). proc_ok (sys_world s) p)"

lemma proc_ok_grows: "proc_ok w p \<Longrightarrow> w_dispatched w' = w_dispatched w @ ds \<Longrightarrow> proc_ok w' p"
  by (cases p) auto

lemma system_ok_update:
  assumes "system_ok s" "dispatches_ok w'" "\<exists>ds. w_dispatched w' = w_dispatched (sys_world s) @ ds" "proc_ok w' p"
  shows "system_ok \<lparr>sys_world = w', sys_procs = (sys_procs s)[i := p]\<rparr>"
    and "system_ok \<lparr>sys_world = w', sys_procs = sys_procs s @ [p]\<rparr>"
proof -
  have "proc_ok w' x" if "x \<in> set (sys_procs s)" for x
    using assms(1,3) that proc_ok_grows unfolding system_ok_def by blast
  then show "system_ok \<lparr>sys_world = w', sys_procs = (sys_procs s)[i := p]\<rparr>"
    and "system_ok \<lparr>sys_world = w', sys_procs = sys_procs s @ [p]\<rparr>"
    using assms(2,4) set_update_subset_insert[of "sys_procs s" i p] by (auto simp: system_ok_def)
qed

lemma system_step_ok: "system_step rt s s' \<Longrightarrow> system_ok s \<Longrightarrow> system_ok s'"
proof (induction rule: system_step.induct)
  case (submit s q)
  then show ?case by (simp add: system_ok_def)
next
  case (start i s q da ba w' p)
  note d = \<open>system_ok s\<close>[unfolded system_ok_def, THEN conjunct1]
  from start(4) show ?case
  proof (cases rule: begin_execution_cases)
    case (dispatched x)
    then show ?thesis
      using dispatch_keeps[OF dispatched(1) d start(3)] system_ok_update(1)[OF start(5), of w' "proc_of p" i]
        dispatch_cases[OF dispatched(1)] d
      by (cases p) (auto simp: dispatches_ok_def)
  qed (use start(5) d system_ok_update(1)[OF start(5), of w' "proc_of p" i] in auto)
next
  case (approve i s x da ans w' p)
  note d = \<open>system_ok s\<close>[unfolded system_ok_def, THEN conjunct1]
  have x: "x_requires x" using approve(1,2,5) unfolding system_ok_def by (force dest: nth_mem)
  from approve(4) show ?case
  proof (cases rule: approve_execution_cases)
    case (dispatched j)
    then show ?thesis
      using dispatch_keeps[OF dispatched(1) d approve(3)] system_ok_update(1)[OF approve(5), of w' "proc_of p" i]
        dispatch_cases[OF dispatched(1)] d x
      by (cases p) (auto simp: dispatches_ok_def exec_ok_def)
  qed (use approve(5) d system_ok_update(1)[OF approve(5), of w' "proc_of p" i] in auto)
next
  case (finish i s x out se w' env)
  note d = \<open>system_ok s\<close>[unfolded system_ok_def, THEN conjunct1]
  note g = settle_grows[OF finish(3)]
  show ?case
    using system_ok_update(1)[OF finish(4), of w' "Done env" i] g dispatches_ok_grows[OF d] d
    by (auto simp: dispatches_ok_def)
next
  case (cancel s q ca w' env)
  note d = \<open>system_ok s\<close>[unfolded system_ok_def, THEN conjunct1]
  note g = cancelQueued_grows[OF cancel(1)]
  show ?case
    using system_ok_update(2)[OF cancel(2), of w' "Done env"] g dispatches_ok_grows[OF d] d
    by (auto simp: dispatches_ok_def)
next
  case (grant s v st' r)
  note d = \<open>system_ok s\<close>[unfolded system_ok_def, THEN conjunct1]
  have st: "approvals_ok (w_approvals (sys_world s))" "ledger_ok (w_ledger (sys_world s))"
    using d by (auto simp: dispatches_ok_def world_ok_def)
  have "approvals_grow (w_approvals (sys_world s)) st'"
  proof (cases r)
    case (Inl e)
    then show ?thesis using issue_keeps grant(1) st(1) approvals_grow_refl by blast
  next
    case (Inr a)
    obtain b where "st' = (w_approvals (sys_world s))\<lparr>ap_rows := ap_rows (w_approvals (sys_world s)) @ [b]\<rparr>"
      using grant(1) unfolding Inr by (rule issue_Inr)
    then show ?thesis using issue_ok[OF grant(1) st(1)] by (simp add: approvals_grow_def)
  qed
  then have "world_grows (sys_world s) ((sys_world s)\<lparr>w_approvals := st'\<rparr>)"
    using st by (simp add: world_grows_def ledger_grows_refl)
  then show ?case
    using grant(2) dispatches_ok_grows[OF d] proc_ok_grows[of "sys_world s" _ _ "[]"] by (simp add: system_ok_def)
qed

lemma reachable_ok: "reachable rt catalog s \<Longrightarrow> system_ok s"
proof (induction rule: reachable.induct)
  case initial
  show ?case by (simp add: system_ok_def new_system_def dispatches_ok_def world_ok_def)
next
  case (further s s')
  then show ?case by (blast intro: system_step_ok)
qed

text \<open>
  C1. At most once: in every interleaving of any number of executions, cancellations and approvals over
  one database, the provider is called at most once for each operation identifier, and only after the
  authorisation and start facts of that operation are durable at the head of its stream.
\<close>

theorem dispatch_at_most_once:
  assumes "reachable rt catalog s"
  shows "distinct (map dispatched_id (w_dispatched (sys_world s))) \<and>
         (\<forall>d \<in> set (w_dispatched (sys_world s)). started (w_ledger (sys_world s)) (dispatched_id d))"
  using reachable_ok[OF assms] by (simp add: system_ok_def dispatches_ok_def dispatch_ok_def)

text \<open>
  C2. No ungoverned mutation: whenever the provider was called for an operation whose contract requires an
  approval, is irreversible, or mutates without idempotency support, or for which the policy decision of that
  execution demanded one, an issued approval with decision \<open>approved\<close>, for this operation, this policy version
  and this resource scope, was used for it within its validity interval.
\<close>

theorem mutation_needs_approval:
  assumes "reachable rt catalog s" "(x, ap) \<in> set (w_dispatched (sys_world s))"
    "c_requires_approval (x_contract x) \<or> c_reversibility (x_contract x) = ''irreversible_mutation'' \<or>
     (c_reversibility (x_contract x) \<noteq> ''read_only'' \<and> \<not> c_accepts_idempotency (x_contract x)) \<or>
     js_get (x_policy x) ''requires_approval'' = JBool True"
  shows "covered (w_approvals (sys_world s)) x ap"
  using reachable_ok[OF assms(1)] assms(2,3)
  by (auto simp: system_ok_def dispatches_ok_def dispatch_ok_def exec_ok_def)

definition demo_contract :: "bool \<Rightarrow> contract" where
  "demo_contract needs = \<lparr>c_name = ''t'', c_capability = ''cap'', c_input_version = 1, c_output_version = 1,
     c_reversibility = ''reversible_mutation'', c_policy_version = ''p1'', c_cancellation = ''cooperative'',
     c_provider = ''pr'', c_timeout_ms = 1000, c_requires_approval = needs, c_accepts_idempotency = True,
     c_failure_mode = ''fail_closed''\<rparr>"

definition demo_rt :: "bool \<Rightarrow> runtime" where
  "demo_rt needs = \<lparr>rt_registry = execution_registry, rt_resolve = (\<lambda>_. Inr (demo_contract needs)),
     rt_validate_input = (\<lambda>_ v. Inr v), rt_validate_output = (\<lambda>_ v. Inr v),
     rt_provider = (\<lambda>_. ProviderFound), rt_digest = (\<lambda>_. ''digest''), rt_hash = (\<lambda>_. ''hash''),
     rt_collate = id, rt_has_approvals = True, rt_has_projector = False\<rparr>"

definition demo_request :: request where
  "demo_request = \<lparr>q_tool = JStr ''t'', q_input = JObj [], q_actor = JObj [(''id'', JStr ''u''), (''type'', JStr ''human'')],
     q_scope = JObj [(''path'', JStr ''/tmp'')], q_key = JStr ''k'', q_correlation = JUndef, q_causation = JUndef,
     q_signal = NoSignal\<rparr>"

definition demo_begin :: begin_answers where
  "demo_begin = \<lparr>ba_authority = Inr (JObj [(''allowed'', JBool True)]),
     ba_policy = Inr (JObj [(''allowed'', JBool True), (''policy_version'', JStr ''p1'')]),
     ba_uuid = ''u'', ba_started = Some 0\<rparr>"

definition demo_dispatch :: dispatch_answers where
  "demo_dispatch = \<lparr>da_auth_id = ''00000000-0000-4000-8000-00000000000a'', da_auth_at = Some 0,
     da_start_id = ''00000000-0000-4000-8000-00000000000b'', da_start_at = Some 0, da_consume_at = Some 0,
     da_aborted = False, da_dispatch_at = Some 1, da_cancel_id = [], da_cancel_at = None, da_reconcile = None\<rparr>"

definition demo_world :: world where
  "demo_world = sys_world (new_system demo_catalog)"

lemma fresh_ids_empty: "led_rows l = [] \<Longrightarrow> fresh_ids l ids"
  by (simp add: fresh_ids_def)

lemma demo_dispatched:
  "map dispatched_id (w_dispatched (fst (begin_execution (demo_rt False) demo_world (Some demo_request) demo_begin demo_dispatch)))
     = [''hash--5-8-'']"
  by code_simp

lemma reach_start:
  assumes "begin_execution rt (sys_world (new_system catalog)) q ba da = (w', p)"
  shows "reachable rt catalog \<lparr>sys_world = w', sys_procs = [proc_of p]\<rparr>"
proof -
  let ?s = "(new_system catalog)\<lparr>sys_procs := sys_procs (new_system catalog) @ [Requested q]\<rparr>"
  have "reachable rt catalog ?s"
    by (rule reachable.further[OF reachable.initial system_step.submit])
  moreover have "system_step rt ?s \<lparr>sys_world = w', sys_procs = (sys_procs ?s)[0 := proc_of p]\<rparr>"
    using assms
    by (intro system_step.start) (auto simp: new_system_def new_ledger_def fresh_ids_empty)
  ultimately show ?thesis
    using reachable.further by (fastforce simp: new_system_def)
qed

theorem dispatch_at_most_once_witness:
  "\<exists>s. reachable (demo_rt False) demo_catalog s \<and>
     map dispatched_id (w_dispatched (sys_world s)) = [''hash--5-8-''] \<and>
     started (w_ledger (sys_world s)) ''hash--5-8-''"
proof -
  obtain w p where w: "begin_execution (demo_rt False) demo_world (Some demo_request) demo_begin demo_dispatch = (w, p)"
    by fastforce
  let ?s = "\<lparr>sys_world = w, sys_procs = [proc_of p]\<rparr>"
  have r: "reachable (demo_rt False) demo_catalog ?s"
    using reach_start w by (simp add: demo_world_def)
  have m: "map dispatched_id (w_dispatched w) = [''hash--5-8-'']"
    using demo_dispatched w by simp
  obtain d where "w_dispatched w = [d]" "dispatched_id d = ''hash--5-8-''"
    using m by (cases "w_dispatched w") auto
  then have "started (w_ledger w) ''hash--5-8-''"
    using dispatch_at_most_once[OF r] by force
  then show ?thesis using r m by (intro exI[of _ ?s]) simp
qed

definition demo_waiting :: "world \<times> phase" where
  "demo_waiting = begin_execution (demo_rt True) demo_world (Some demo_request) demo_begin demo_dispatch"

definition demo_grant :: js where
  "demo_grant = JObj
     [(''approval_id'', JStr ''a1''), (''operation_id'', JStr ''hash--5-8-''), (''policy_version'', JStr ''p1''),
      (''evidence_ref'', JStr ''ev''), (''issued_at'', JStr ''1970-01-01T00:00:00.000Z''),
      (''expires_at'', JStr ''1970-01-01T00:00:01.000Z''), (''decision'', JStr ''approved''),
      (''authorizer'', JObj [(''id'', JStr ''u''), (''type'', JStr ''human'')]),
      (''resource_scope'', JObj [(''path'', JStr ''/tmp'')])]"

definition demo_granted :: world where
  "demo_granted = (fst demo_waiting)\<lparr>w_approvals := fst (issue (w_approvals (fst demo_waiting)) demo_grant)\<rparr>"

fun demo_resume :: "phase \<Rightarrow> world \<times> phase" where
  "demo_resume (AwaitApproval x) = approve_execution (demo_rt True) demo_granted x (Inr (JStr ''a1'')) demo_dispatch"
| "demo_resume p = (demo_granted, p)"

lemma demo_waits: "(case snd demo_waiting of AwaitApproval x \<Rightarrow> True | _ \<Rightarrow> False)" "led_rows (w_ledger (fst demo_waiting)) = []"
  by code_simp+

lemma demo_resumed:
  "map (\<lambda>d. (dispatched_id d, c_requires_approval (x_contract (fst d)), snd d)) (w_dispatched (fst (demo_resume (snd demo_waiting)))) =
     [(''hash--5-8-'', True, Some ''a1'')]"
  by code_simp

theorem mutation_needs_approval_witness:
  "\<exists>s x. reachable (demo_rt True) demo_catalog s \<and> (x, Some ''a1'') \<in> set (w_dispatched (sys_world s)) \<and>
     c_requires_approval (x_contract x) \<and> covered (w_approvals (sys_world s)) x (Some ''a1'')"
proof -
  obtain x where x: "snd demo_waiting = AwaitApproval x"
    using demo_waits(1) by (cases "snd demo_waiting") auto
  have r1: "reachable (demo_rt True) demo_catalog \<lparr>sys_world = fst demo_waiting, sys_procs = [Waiting x]\<rparr>"
    using reach_start[of "demo_rt True" demo_catalog "Some demo_request" demo_begin demo_dispatch "fst demo_waiting" "snd demo_waiting"] x
    by (simp add: demo_waiting_def demo_world_def)
  have r2: "reachable (demo_rt True) demo_catalog \<lparr>sys_world = demo_granted, sys_procs = [Waiting x]\<rparr>"
    using reachable.further[OF r1 system_step.grant[OF surjective_pairing]] by (simp add: demo_granted_def)
  obtain w p where w: "approve_execution (demo_rt True) demo_granted x (Inr (JStr ''a1'')) demo_dispatch = (w, p)"
    by fastforce
  have "fresh_ids (w_ledger demo_granted) (start_ids demo_dispatch)"
    using demo_waits(2) by (simp add: demo_granted_def fresh_ids_empty)
  then have r3: "reachable (demo_rt True) demo_catalog \<lparr>sys_world = w, sys_procs = [proc_of p]\<rparr>"
    using reachable.further[OF r2 system_step.approve[of 0 _ x demo_dispatch _ "Inr (JStr ''a1'')" w p]] w by simp
  have "map (\<lambda>d. (dispatched_id d, c_requires_approval (x_contract (fst d)), snd d)) (w_dispatched w) =
     [(''hash--5-8-'', True, Some ''a1'')]"
    using demo_resumed x w by simp
  then obtain y where y: "(y, Some ''a1'') \<in> set (w_dispatched w)" "c_requires_approval (x_contract y)"
    by (cases "w_dispatched w") auto
  show ?thesis
    using mutation_needs_approval[OF r3, of y "Some ''a1''"] r3 y by fastforce
qed

subsection \<open>Durable outcomes\<close>

definition terminal_fact :: "ledger \<Rightarrow> operation \<Rightarrow> string \<Rightarrow> js \<Rightarrow> string list \<Rightarrow> bool" where
  "terminal_fact l op t payload evidence \<longleftrightarrow>
     (\<exists>row \<in> set (log_read l (execution_stream (op_id op))).
        r_event_type row = t \<and> r_payload row = stableValue payload \<and> r_evidence_refs row = str_arr evidence \<and>
        r_operation_id row = Some (op_id op))"

lemma stable_str_arr [simp]: "stableValue (str_arr xs) = str_arr xs"
  by (induction xs) (auto simp: str_arr_def)

lemma appendOutcome_Inr:
  assumes "appendOutcome rt l op t i at payload ev = (l', Inr r)" "ledger_ok l"
  shows "terminal_fact l' op t payload ev"
proof -
  obtain f where f: "exec_fact rt op t i at payload ev = Inr f"
    and a: "ledger_append (rt_registry rt) l (log_request (execution_stream (op_id op)) 2 [f]) = (l', Inr r)"
    using assms(1) by (auto simp: appendOutcome_def split: sum.splits)
  obtain row where "row \<in> set (log_read l' (execution_stream (op_id op)))" "holds_event row f"
    using ledger_append_durable[OF assms(2) a, of f] by auto
  then show ?thesis
    using fact_Inr[OF f] by (auto simp: terminal_fact_def holds_event_def)
qed

lemma persistOutcome_None:
  assumes "persistOutcome rt l op t i at payload ev ws = (l', None)" "ledger_ok l"
  shows "terminal_fact l' op t (JObj (put_field payload ''warnings'' (str_arr ws))) ev"
  using assms appendOutcome_Inr by (auto simp: persistOutcome_def split: prod.splits sum.splits)

lemma terminal_type:
  "terminal_fact l op t payload ev \<Longrightarrow> \<exists>row \<in> set (log_read l (execution_stream (op_id op))). r_event_type row = t"
  by (auto simp: terminal_fact_def)

lemma terminalPersistenceFailure_code [simp]:
  "failure_code (terminalPersistenceFailure i ev ws e) = ''EXECUTION_OUTCOME_IN_DOUBT''"
  "\<not> env_ok (terminalPersistenceFailure i ev ws e)"
  by (simp_all add: terminalPersistenceFailure_def governed_def failureEnvelope_def executionEnvelope_def Let_def
      failure_code_def js_get_JObj thrown_of_def mk_err_def)

lemma prototype_unregistered:
  "t \<in> set object_prototype_names \<Longrightarrow> isl (definition_of execution_registry t)"
proof -
  have "list_all (\<lambda>t. isl (definition_of execution_registry t)) object_prototype_names" by code_simp
  then show "t \<in> set object_prototype_names \<Longrightarrow> isl (definition_of execution_registry t)"
    by (simp add: list_all_iff)
qed

lemma persist_registered:
  assumes "persistOutcome rt l op t i at payload ev ws = (l', None)" "rt_registry rt = execution_registry"
  shows "t \<notin> set object_prototype_names"
proof
  assume "t \<in> set object_prototype_names"
  then obtain e where "definition_of execution_registry t = Inl e"
    using prototype_unregistered by (fastforce simp: isl_def)
  then have "exec_fact rt op t i at p ev = Inr f \<Longrightarrow> False" for p f
    using assms(2) by (auto simp: exec_fact_def validateForAppend_def js_get_JObj)
  then show False
    using assms(1) by (auto simp: persistOutcome_def appendOutcome_def split: prod.splits sum.splits)
qed

lemma outcome_type_cases:
  "outcome_type n \<in> {''ExecutionCancelled'', ''ExecutionFailed'', ''ExecutionOutcomeUncertain''} \<or>
   outcome_type n \<in> set object_prototype_names"
  by (auto simp: outcome_type_def)

definition unsuccessful :: "string list" where
  "unsuccessful = [''ExecutionFailed'', ''ExecutionCancelled'', ''ExecutionOutcomeUncertain'']"

definition failed_durably :: "ledger \<Rightarrow> operation \<Rightarrow> envelope \<Rightarrow> bool" where
  "failed_durably l op env \<longleftrightarrow> \<not> env_ok env \<and>
     (failure_code env = ''EXECUTION_OUTCOME_IN_DOUBT'' \<or>
      (\<exists>row \<in> set (log_read l (execution_stream (op_id op))). r_event_type row \<in> set unsuccessful))"

lemma persist_report:
  assumes "(case persistOutcome rt (w_ledger w) op t i at payload refs ws of
              (l', Some e) \<Rightarrow> (w\<lparr>w_ledger := l'\<rparr>, terminalPersistenceFailure j ev ws' e)
            | (l', None) \<Rightarrow> (w\<lparr>w_ledger := l'\<rparr>, failureEnvelope thr k ev' ws'')) = (w', env)"
    "ledger_ok (w_ledger w)"
    "\<And>l'. persistOutcome rt (w_ledger w) op t i at payload refs ws = (l', None) \<Longrightarrow> t \<in> set unsuccessful"
  shows "failed_durably (w_ledger w') op env"
proof -
  obtain l' r where p: "persistOutcome rt (w_ledger w) op t i at payload refs ws = (l', r)" by fastforce
  show ?thesis
  proof (cases r)
    case None
    then show ?thesis
      using assms(1) p assms(3) terminal_type[OF persistOutcome_None[OF p[unfolded None] assms(2)]]
      by (auto simp: failed_durably_def)
  next
    case (Some e)
    then show ?thesis using assms(1) p by (auto simp: failed_durably_def)
  qed
qed

lemma settle_unusable_durable:
  assumes "settle_unusable rt w x e rs refs ev ws se = (w', env)" "ledger_ok (w_ledger w)"
  shows "failed_durably (w_ledger w') (x_op x) env"
  using assms unfolding settle_unusable_def Let_def
  by (rule persist_report) (simp add: unsuccessful_def)

lemma outcome_type_unsuccessful:
  assumes "persistOutcome rt l op (outcome_type n) i at payload refs ws = (l', None)" "rt_registry rt = execution_registry"
  shows "outcome_type n \<in> set unsuccessful"
  using outcome_type_cases[of n] persist_registered[OF assms] by (auto simp: unsuccessful_def)

lemma settle_threw_durable:
  assumes "settle_threw rt w x t late se = (w', env)" "ledger_ok (w_ledger w)" "rt_registry rt = execution_registry"
  shows "failed_durably (w_ledger w') (x_op x) env"
  using assms(1,2) unfolding settle_threw_def Let_def
  by (rule persist_report) (rule outcome_type_unsuccessful[OF _ assms(3)])

text \<open>The two ways a settlement ends: a durable success that is reported as such, or a reported failure.\<close>

definition succeeded_durably :: "ledger \<Rightarrow> exec \<Rightarrow> envelope \<Rightarrow> bool" where
  "succeeded_durably l x env \<longleftrightarrow>
     (\<exists>row \<in> set (log_read l (execution_stream (op_id (x_op x)))). \<exists>output.
        r_event_type row = ''ExecutionSucceeded'' \<and>
        js_get (r_payload row) ''result'' = stableValue output \<and>
        env_data env = success_data (op_id (x_op x)) output False \<and> env_error env = JNull \<and>
        env_evidence env = uniq (str_list (r_evidence_refs row)) \<and>
        set (str_list (js_get (r_payload row) ''warnings'')) \<subseteq> set (env_warnings env))"

lemma str_list_str_arr [simp]: "str_list (str_arr xs) = xs"
  by (induction xs) (auto simp: str_arr_def str_list_def)

lemma reconcile_set: "set ws \<subseteq> set (reconcile rt f ws)"
  by (auto simp: reconcile_def split: option.splits)

definition success_fields :: "exec \<Rightarrow> js \<Rightarrow> string option \<Rightarrow> fields" where
  "success_fields x outp receipt =
     [(''result'', outp), (''output_schema_version'', JNum (c_output_version (x_contract x)))] @ receipt_fields receipt"

lemma settle_returned_cases:
  assumes "settle_returned rt w x v se = (w', env)"
  obtains (unusable) e rs refs ev ws where "settle_unusable rt w x e rs refs ev ws se = (w', env)"
  | (lost) i ev ws e where "env = terminalPersistenceFailure i ev ws e"
  | (success) outp receipt ev ws where
      "persistOutcome rt (w_ledger w) (x_op x) ''ExecutionSucceeded'' (se_id se) (se_at se)
         (success_fields x outp receipt) ev ws = (w_ledger w', None)"
      "env = executionEnvelope True (success_data (op_id (x_op x)) outp False) JNull ev (reconcile rt (se_reconcile se) ws)"
  using assms unfolding settle_returned_def success_fields_def[symmetric] Let_def
  by (auto split: if_splits sum.splits prod.splits option.splits simp flip: success_fields_def)

lemma success_payload_get:
  "js_get (stableValue (JObj (put_field (success_fields x outp receipt) ''warnings'' (str_arr ws)))) ''result'' = stableValue outp"
  "js_get (stableValue (JObj (put_field (success_fields x outp receipt) ''warnings'' (str_arr ws)))) ''warnings'' = str_arr ws"
  unfolding success_fields_def
  by (cases receipt; simp add: js_get_stable_obj js_get_JObj receipt_fields_def)+

lemma settle_returned_durable:
  assumes "settle_returned rt w x v se = (w', env)" "ledger_ok (w_ledger w)"
  shows "if env_ok env then succeeded_durably (w_ledger w') x env else failed_durably (w_ledger w') (x_op x) env"
  using assms(1)
proof (cases rule: settle_returned_cases)
  case (unusable e rs refs ev ws)
  then show ?thesis using settle_unusable_durable[OF _ assms(2)] by (fastforce simp: failed_durably_def)
next
  case (lost i ev ws e)
  then show ?thesis by (simp add: failed_durably_def)
next
  case (success outp receipt ev ws)
  obtain row where row: "row \<in> set (log_read (w_ledger w') (execution_stream (op_id (x_op x))))"
      "r_event_type row = ''ExecutionSucceeded''" "r_evidence_refs row = str_arr ev"
      "r_payload row = stableValue (JObj (put_field (success_fields x outp receipt) ''warnings'' (str_arr ws)))"
    using persistOutcome_None[OF success(1) assms(2)] unfolding terminal_fact_def by blast
  have "succeeded_durably (w_ledger w') x env"
    unfolding succeeded_durably_def
    by (rule bexI[OF exI[of _ outp] row(1)])
      (simp only: row success(2) success_payload_get, use reconcile_set[of ws] in \<open>simp add: executionEnvelope_def\<close>)
  then show ?thesis using success(2) by (simp add: executionEnvelope_def)
qed

subsection \<open>Replay of recorded executions\<close>

text \<open>The row holds a fact this runtime made for the operation.\<close>

definition recorded :: "runtime \<Rightarrow> operation \<Rightarrow> row \<Rightarrow> bool" where
  "recorded rt op r \<longleftrightarrow> (\<exists>t j at p ev f. exec_fact rt op t j at p ev = Inr f \<and> holds_event r f)"

lemma recordedI: "exec_fact rt op t j at p ev = Inr f \<Longrightarrow> holds_event r f \<Longrightarrow> recorded rt op r"
  unfolding recorded_def by blast

lemma fact_accepted: "exec_fact rt op t i at p ev = Inr f \<Longrightarrow> validateForAppend (rt_registry rt) f = Inr f"
  by (auto simp: exec_fact_def dest: validateForAppend_Inr)

text \<open>A row that holds a fact of this runtime reads back as itself.\<close>

lemma row_reads_back:
  assumes "registry_ok (rt_registry rt)" "exec_fact rt op t i at p ev = Inr f" "holds_event r f" "row_clean r"
  shows "deserialize (rt_collate rt) (rt_registry rt) (r_event_type r) (r_schema_version r) (r_payload r) =
     Inr (r_schema_version r, r_payload r)"
proof -
  note f = fact_Inr[OF assms(2)]
  have r: "r_event_type r = js_text (js_get f ''event_type'')" "JNum (r_schema_version r) = js_get f ''schema_version''"
    "r_payload r = stableValue (js_get f ''payload'')"
    using assms(3) by (auto simp: holds_event_def event_text_def)
  have "is_strict (js_get f ''payload'')"
    using assms(4) r(3) by (simp add: row_clean_def)
  from accepted_read_back[OF assms(1) fact_accepted[OF assms(2)] this, of "rt_collate rt"] r
  show ?thesis by auto
qed

lemma map_res_id: "(\<And>x. x \<in> set xs \<Longrightarrow> f x = Inr x) \<Longrightarrow> map_res f xs = Inr xs"
  by (induction xs) auto

lemma read_events_all:
  assumes "registry_ok (rt_registry rt)" "ledger_ok l" "i \<noteq> []"
    "log_read l (execution_stream i) = rows" "length rows \<le> 3"
    "\<And>r. r \<in> set rows \<Longrightarrow> recorded rt op r"
  shows "read_events rt l i = Inr rows"
proof -
  have "row_clean r" if "r \<in> set rows" for r
    using assms(2,4) that by (auto simp: ledger_ok_def log_read_def select_stream_def)
  then have d: "bind_res (deserialize (rt_collate rt) (rt_registry rt) (r_event_type r) (r_schema_version r) (r_payload r))
          (\<lambda>(v, p). Inr (r\<lparr>r_schema_version := v, r_payload := p\<rparr>)) = Inr r" if "r \<in> set rows" for r
    using row_reads_back[OF assms(1)] assms(6)[OF that] that by (fastforce simp: bind_res_def recorded_def)
  have "readStream l (JStr ''execution'') (JStr i) 1 MAX_SAFE = Inr rows"
    using readStream_all[OF assms(2), of "''execution''" i MAX_SAFE] assms(3-5)
    by (simp add: execution_stream_def MAX_SAFE_def)
  then show ?thesis
    using map_res_id[of rows, OF d] by (simp add: read_events_def bind_res_def)
qed

lemma authorized_payload_get:
  "js_get (stableValue (authorized_payload c op digest ws ap)) k = stableValue (js_get (authorized_payload c op digest ws ap) k)"
  unfolding authorized_payload_def by (rule js_get_stable_obj) (auto split: option.split)

lemma same_scope_own:
  assumes "exec_fact rt op ''ExecutionAuthorized'' i at (authorized_payload c op digest ws ap) ev = Inr f"
    "holds_event a f" "op_tool op = c_name c"
    "\<And>r. r \<in> set rows \<Longrightarrow> recorded rt op r"
  shows "same_scope op digest c rows (Some a)"
proof -
  have r: "r_operation_id r = Some (op_id op)" "JStr (r_correlation_id r) = op_correlation op"
    "JStr (r_causation_id r) = op_causation op"
    if "exec_fact rt op t j at p ev = Inr f" "holds_event r f" for r t j at p ev f
    using that(2) fact_Inr[OF that(1)] by (auto simp: holds_event_def)
  have "list_all (\<lambda>r. r_operation_id r = Some (op_id op) \<and> JStr (r_correlation_id r) = op_correlation op \<and>
      JStr (r_causation_id r) = op_causation op) rows"
    unfolding list_all_iff using assms(4) r unfolding recorded_def by metis
  moreover have "r_payload a = stableValue (authorized_payload c op digest ws ap)" "r_actor a = stableValue (op_actor op)"
    using assms(2) fact_Inr[OF assms(1)] by (auto simp: holds_event_def)
  ultimately show ?thesis
    using r[OF assms(1,2)] assms(3)
    by (simp add: same_scope_def authorized_payload_get) (simp add: authorized_payload_def js_get_JObj)
qed

lemma persistOutcome_new:
  assumes "persistOutcome rt l op t i at payload ev ws = (l', None)" "ledger_ok l" "fresh_ids l [i]"
  obtains f row where "exec_fact rt op t i at (JObj (put_field payload ''warnings'' (str_arr ws))) ev = Inr f"
    "log_read l' (execution_stream (op_id op)) = log_read l (execution_stream (op_id op)) @ [row]" "holds_event row f"
proof -
  obtain f r where f: "exec_fact rt op t i at (JObj (put_field payload ''warnings'' (str_arr ws))) ev = Inr f"
    and a: "ledger_append (rt_registry rt) l (log_request (execution_stream (op_id op)) 2 [f]) = (l', Inr r)"
    using assms(1) by (auto simp: persistOutcome_def appendOutcome_def split: prod.splits sum.splits)
  have "\<forall>e \<in> set [f]. event_text e ''event_id'' \<notin> r_event_id ` set (led_rows l)"
    using assms(3) fact_Inr(1)[OF f] by (auto simp: fresh_ids_def)
  from ledger_append_new(2)[OF assms(2) a this] show thesis
    using that[OF f] by (auto simp: list_all2_Cons2)
qed

lemma commit_start_rows:
  assumes "commit_start rt w x ap da = (w', Inr ev)" "world_ok w" "fresh_ids (w_ledger w) (start_ids da)"
  obtains ev0 fa fs ra rs where
    "exec_fact rt (x_op x) ''ExecutionAuthorized'' (da_auth_id da) (da_auth_at da)
       (authorized_payload (x_contract x) (x_op x) (x_digest x) (x_warnings x) ap) ev0 = Inr fa"
    "exec_fact rt (x_op x) ''ExecutionStarted'' (da_start_id da) (da_start_at da) (started_payload (x_contract x) (x_op x)) [] = Inr fs"
    "log_read (w_ledger w') (execution_stream (op_id (x_op x))) = [ra, rs]" "holds_event ra fa" "holds_event rs fs"
proof -
  have l: "ledger_ok (w_ledger w)" using assms(2) by (simp add: world_ok_def)
  have "\<exists>ev0 facts. start_facts rt x ap ev0 da = Inr facts \<and>
      list_all2 holds_event (log_read (w_ledger w') (execution_stream (op_id (x_op x)))) facts"
    using assms(1)
  proof (cases rule: commit_start_cases)
    case (plain facts l' q)
    then obtain r where "q = Inr r" by (cases q) auto
    then show ?thesis using appendStartFacts_Inr(3)[OF l plain(2) assms(3)] plain by fastforce
  next
    case (approved a ev0 facts now st' l' q)
    then obtain g where q: "q = Inr g" by (cases q) auto
    obtain r where "appendStartFacts rt (op_id (x_op x)) facts (w_ledger w) = (l', Inr r)"
      using consume_Inr(2)[OF approved(3)[unfolded q]] by auto
    then show ?thesis using appendStartFacts_Inr(3)[OF l approved(2) assms(3)] approved by fastforce
  qed auto
  then obtain ev0 facts where s: "start_facts rt x ap ev0 da = Inr facts"
    and h: "list_all2 holds_event (log_read (w_ledger w') (execution_stream (op_id (x_op x)))) facts" by blast
  from s obtain fa fs where "facts = [fa, fs]"
    "exec_fact rt (x_op x) ''ExecutionAuthorized'' (da_auth_id da) (da_auth_at da)
       (authorized_payload (x_contract x) (x_op x) (x_digest x) (x_warnings x) ap) ev0 = Inr fa"
    "exec_fact rt (x_op x) ''ExecutionStarted'' (da_start_id da) (da_start_at da) (started_payload (x_contract x) (x_op x)) [] = Inr fs"
    by (rule start_facts_Inr)
  then show thesis using that h by (auto simp: list_all2_Cons2)
qed

text \<open>A settled execution replays: the value read back from its three facts.\<close>

lemma replay_value:
  assumes "registry_ok (rt_registry rt)" "world_ok w" "op_id (x_op x) \<noteq> []" "op_tool (x_op x) = c_name (x_contract x)"
    "commit_start rt w x ap da = (w1, Inr ev)" "fresh_ids (w_ledger w) (start_ids da)"
    "settle rt w1 (x\<lparr>x_evidence := ev\<rparr>) out se = (w2, env)" "env_ok env" "fresh_ids (w_ledger w1) [se_id se]"
    "ledger_ok l" "log_read l (execution_stream (op_id (x_op x))) = log_read (w_ledger w2) (execution_stream (op_id (x_op x)))"
  shows "\<exists>outp ev2 ws2. env_data env = success_data (op_id (x_op x)) outp False \<and>
     readExisting rt l (x_op x) (x_digest x) (x_contract x) =
       Inr (Some (executionEnvelope True (success_data (op_id (x_op x)) (stableValue outp) True) JNull ev2 ws2)) \<and>
     set (env_evidence env) \<subseteq> set ev2"
proof -
  let ?op = "x_op x" and ?s = "execution_stream (op_id (x_op x))"
  obtain ev0 fa fs ra rs where fa: "exec_fact rt ?op ''ExecutionAuthorized'' (da_auth_id da) (da_auth_at da)
       (authorized_payload (x_contract x) ?op (x_digest x) (x_warnings x) ap) ev0 = Inr fa"
    and fs: "exec_fact rt ?op ''ExecutionStarted'' (da_start_id da) (da_start_at da) (started_payload (x_contract x) ?op) [] = Inr fs"
    and rows1: "log_read (w_ledger w1) ?s = [ra, rs]" and h: "holds_event ra fa" "holds_event rs fs"
    using assms(5,2,6) by (rule commit_start_rows)
  have ok1: "ledger_ok (w_ledger w1)"
    using commit_start_grows[OF assms(5,2)] world_grows_ok by (auto simp: world_ok_def)
  obtain v where out: "settle_returned rt w1 (x\<lparr>x_evidence := ev\<rparr>) v se = (w2, env)"
  proof (cases out)
    case (Threw t late)
    then show thesis
      using assms(7,8) by (auto simp: settle_def settle_threw_def Let_def split: prod.splits option.splits)
  qed (use assms(7) that in \<open>auto simp: settle_def\<close>)
  obtain outp receipt ev' ws where p: "persistOutcome rt (w_ledger w1) ?op ''ExecutionSucceeded'' (se_id se) (se_at se)
         (success_fields (x\<lparr>x_evidence := ev\<rparr>) outp receipt) ev' ws = (w_ledger w2, None)"
    and env: "env = executionEnvelope True (success_data (op_id ?op) outp False) JNull ev' (reconcile rt (se_reconcile se) ws)"
    using out
  proof (cases rule: settle_returned_cases)
    case (unusable e rs refs ev ws)
    then show thesis using settle_unusable_durable[OF unusable ok1] assms(8) by (simp add: failed_durably_def)
  qed (use assms(8) that in \<open>auto simp: executionEnvelope_def\<close>)
  obtain ft row where ft: "exec_fact rt ?op ''ExecutionSucceeded'' (se_id se) (se_at se)
       (JObj (put_field (success_fields (x\<lparr>x_evidence := ev\<rparr>) outp receipt) ''warnings'' (str_arr ws))) ev' = Inr ft"
    and rows: "log_read (w_ledger w2) ?s = log_read (w_ledger w1) ?s @ [row]" and ht: "holds_event row ft"
    using p ok1 assms(9) by (rule persistOutcome_new)
  have l: "log_read l ?s = [ra, rs, row]" using assms(11) rows rows1 by simp
  have facts: "recorded rt ?op r" if "r \<in> set [ra, rs, row]" for r
    using that recordedI[OF fa h(1)] recordedI[OF fs h(2)] recordedI[OF ft ht] by auto
  have re: "read_events rt l (op_id ?op) = Inr [ra, rs, row]"
    by (rule read_events_all[OF assms(1,10,3) l _ facts]) simp_all
  have t: "r_event_type ra = ''ExecutionAuthorized''" "r_event_type row = ''ExecutionSucceeded''"
    using h ht fact_Inr(2)[OF fa] fact_Inr(2)[OF ft] by (auto simp: holds_event_def)
  have sc: "same_scope ?op (x_digest x) (x_contract x) [ra, rs, row] (Some ra)"
    using same_scope_own[OF fa h(1) assms(4) facts] .
  have pr: "r_payload row = stableValue (js_get ft ''payload'')" using ht by (simp add: holds_event_def)
  have pl: "js_get (r_payload row) ''result'' = stableValue outp"
    by (simp only: pr fact_Inr(3)[OF ft] success_payload_get)
  have ev: "r_evidence_refs row = str_arr ev'" using ht fact_Inr(9)[OF ft] by (simp add: holds_event_def)
  have "readExisting rt l ?op (x_digest x) (x_contract x) =
      Inr (Some (executionEnvelope True (success_data (op_id ?op) (stableValue outp) True) JNull
        (str_list (r_evidence_refs ra) @ str_list (r_evidence_refs rs) @ ev') (str_list (js_get (r_payload row) ''warnings''))))"
    using re t sc pl ev by (simp add: readExisting_def bind_res_def TERMINAL_EVENTS_def)
  moreover have "env_data env = success_data (op_id ?op) outp False" "set (env_evidence env) = set ev'"
    using env by (simp_all add: executionEnvelope_def)
  ultimately show ?thesis by (intro exI[of _ outp] exI conjI) auto
qed

text \<open>
  C5. Outcomes are durable before they are reported: when a settlement reports success, the stream of
  the operation holds an \<open>ExecutionSucceeded\<close> fact with the canonical form of the reported result and
  the reported evidence; when it reports a failure other than an outcome in doubt, the stream holds a
  failed, cancelled or uncertain fact.
\<close>

theorem settle_durable:
  assumes "ledger_ok (w_ledger w)" "rt_registry rt = execution_registry" "settle rt w x out se = (w', env)"
  shows "if env_ok env then succeeded_durably (w_ledger w') x env else failed_durably (w_ledger w') (x_op x) env"
proof (cases out)
  case (Returned v)
  then show ?thesis using settle_returned_durable assms by (simp add: settle_def)
next
  case (Threw t late)
  then have "failed_durably (w_ledger w') (x_op x) env"
    using settle_threw_durable assms by (simp add: settle_def)
  then show ?thesis by (simp add: failed_durably_def)
qed

definition demo_settle :: settle_answers where
  "demo_settle = \<lparr>se_id = ''00000000-0000-4000-8000-00000000000c'', se_at = Some 2, se_reconcile = None\<rparr>"

definition demo_exec :: exec where
  "demo_exec =
     \<lparr>x_contract = demo_contract False, x_policy = JUndef, x_input = JObj [],
      x_op = operation_for (demo_contract False) demo_request ''k'' ''hash--5-8-'' ''request:'' ''1970-01-01T00:00:01.000Z'',
      x_deadline_ms = 1000, x_digest = ''digest'', x_warnings = [], x_requires = False, x_evidence = [], x_signal = NoSignal\<rparr>"

definition demo_committed :: world where
  "demo_committed = fst (commit_start (demo_rt False) demo_world demo_exec None demo_dispatch)"

definition demo_settled :: "world \<times> envelope" where
  "demo_settled = settle (demo_rt False) demo_committed demo_exec (Returned (JObj [(''data'', JNum 7)])) demo_settle"

lemma demo_commit: "snd (commit_start (demo_rt False) demo_world demo_exec None demo_dispatch) = Inr []"
  by code_simp

lemma demo_world_ok: "world_ok demo_world"
  by (simp add: world_ok_def demo_world_def new_system_def)

lemma demo_settled_ok:
  "env_ok (snd demo_settled) \<and> env_data (snd demo_settled) = success_data ''hash--5-8-'' (JNum 7) False"
  by code_simp

lemma demo_commit_eq: "commit_start (demo_rt False) demo_world demo_exec None demo_dispatch = (demo_committed, Inr [])"
  using demo_commit by (simp add: demo_committed_def prod_eq_iff)

theorem settle_durable_witness:
  "env_ok (snd demo_settled) \<and> succeeded_durably (w_ledger (fst demo_settled)) demo_exec (snd demo_settled)"
proof -
  have "ledger_ok (w_ledger demo_committed)"
    using commit_start_grows[OF demo_commit_eq demo_world_ok] world_grows_ok by (auto simp: world_ok_def)
  from settle_durable[OF this, of "demo_rt False" demo_exec "Returned (JObj [(''data'', JNum 7)])" demo_settle]
  show ?thesis using demo_settled_ok by (simp add: demo_rt_def demo_settled_def prod_eq_iff)
qed

text \<open>
  Idempotent replay: after an execution was started and settled with success, reading its stream
  again with the same operation, contract and input digest, at any later time at which that stream is
  unchanged, returns a success with the canonical form of the same result, marked as replayed, carrying
  all the evidence of the original outcome, and calls no provider.
\<close>

theorem replay_after_success:
  assumes "registry_ok (rt_registry rt)" "world_ok w" "op_id (x_op x) \<noteq> []" "op_tool (x_op x) = c_name (x_contract x)"
    "commit_start rt w x ap da = (w1, Inr ev)" "fresh_ids (w_ledger w) (start_ids da)"
    "settle rt w1 (x\<lparr>x_evidence := ev\<rparr>) out se = (w2, env)" "env_ok env" "fresh_ids (w_ledger w1) [se_id se]"
    "ledger_ok l" "log_read l (execution_stream (op_id (x_op x))) = log_read (w_ledger w2) (execution_stream (op_id (x_op x)))"
  shows "\<exists>outp ev2 ws2. env_data env = success_data (op_id (x_op x)) outp False \<and>
     readExisting rt l (x_op x) (x_digest x) (x_contract x) =
       Inr (Some (executionEnvelope True (success_data (op_id (x_op x)) (stableValue outp) True) JNull ev2 ws2)) \<and>
     set (env_evidence env) \<subseteq> set ev2"
  using replay_value[OF assms] .

lemma demo_settle_fresh: "list_all (\<lambda>r. r_event_id r \<noteq> se_id demo_settle) (led_rows (w_ledger demo_committed))"
  by code_simp

theorem replay_after_success_witness:
  "\<exists>ev2 ws2. readExisting (demo_rt False) (w_ledger (fst demo_settled)) (x_op demo_exec) ''digest'' (demo_contract False) =
     Inr (Some (executionEnvelope True (success_data ''hash--5-8-'' (JNum 7) True) JNull ev2 ws2))"
proof -
  have x: "demo_exec\<lparr>x_evidence := []\<rparr> = demo_exec" "op_id (x_op demo_exec) = ''hash--5-8-''"
    "op_tool (x_op demo_exec) = c_name (x_contract demo_exec)" "x_contract demo_exec = demo_contract False"
    "x_digest demo_exec = ''digest''"
    by (simp_all add: demo_exec_def operation_for_def)
  have reg: "registry_ok (rt_registry (demo_rt False))" by (simp add: demo_rt_def execution_registry_ok)
  have c: "world_ok demo_committed"
    using commit_start_grows[OF demo_commit_eq demo_world_ok] world_grows_ok by auto
  have s: "settle (demo_rt False) demo_committed (demo_exec\<lparr>x_evidence := []\<rparr>) (Returned (JObj [(''data'', JNum 7)])) demo_settle =
      (fst demo_settled, snd demo_settled)"
    by (simp add: x(1) demo_settled_def)
  have l: "ledger_ok (w_ledger (fst demo_settled))"
    using settle_grows[OF s c] world_grows_ok by (auto simp: world_ok_def)
  have f: "fresh_ids (w_ledger demo_world) (start_ids demo_dispatch)" "fresh_ids (w_ledger demo_committed) [se_id demo_settle]"
    using demo_settle_fresh
    by (auto simp: fresh_ids_empty demo_world_def new_system_def new_ledger_def) (auto simp: fresh_ids_def list_all_iff)
  have "op_id (x_op demo_exec) \<noteq> []" by (simp add: x)
  from replay_after_success[OF reg demo_world_ok this x(3) demo_commit_eq f(1) s _ f(2) l refl] demo_settled_ok x
  show ?thesis by (auto simp: success_data_def)
qed

text \<open>
  A provider error without text: when a provider fails with an error whose message is the empty
  string (as \<open>new Error()\<close> has), before the deadline and with no explicit outcome, even a read-only
  operation is not recorded as failed: the registry refuses the fact, no row is written, and the caller
  is told that the outcome is in doubt.
\<close>

theorem empty_message_in_doubt:
  assumes "rt_registry rt = execution_registry" "c_reversibility (x_contract x) = ''read_only''"
    "thrown_get t ''message'' = JStr []" "\<not> js_truthy (thrown_get t ''outcome'')"
    "settle rt w x (Threw t False) se = (w', env)"
  shows "failure_code env = ''EXECUTION_OUTCOME_IN_DOUBT'' \<and> led_rows (w_ledger w') = led_rows (w_ledger w)"
proof -
  have it: "\<exists>i \<in> set lifecycle. li_type i = ''ExecutionFailed'' \<and> (\<forall>p. li_validate i p = Inr () \<longrightarrow> validateError p = Inr ())"
    by (simp add: lifecycle_def item_def combineValidators_def del: each_res.simps)
  have no: "exec_fact rt (x_op x) ''ExecutionFailed'' i at
      (JObj (put_field ((''error'', error_js (providerError t)) # receipt_fields r) ''warnings'' ws)) ev = Inr f \<Longrightarrow> False" for i at r ws ev f
  proof -
    let ?p = "JObj (put_field ((''error'', error_js (providerError t)) # receipt_fields r) ''warnings'' ws)"
    assume f: "exec_fact rt (x_op x) ''ExecutionFailed'' i at ?p ev = Inr f"
    obtain i where i: "i \<in> set lifecycle" "li_type i = ''ExecutionFailed''" "\<forall>p. li_validate i p = Inr () \<longrightarrow> validateError p = Inr ()"
      using it by blast
    have "js_get f ''event_type'' = JStr (li_type i)"
      using f i(2) by (auto simp: exec_fact_def js_get_JObj dest!: validateForAppend_Inr)
    from validateForAppend_lifecycle[OF i(1) this] fact_accepted[OF f] assms(1) i(3)
    have "validateError (stableValue ?p) = Inr ()" using fact_Inr(3)[OF f] by auto
    moreover have "js_get (stableValue ?p) ''error'' = stableValue (error_js (providerError t))"
      by (cases r) (simp_all add: js_get_stable_obj js_get_JObj receipt_fields_def)
    moreover have "js_get (stableValue (error_js (providerError t))) ''message'' = JStr []"
      unfolding error_js_def by (subst js_get_stable_obj) (simp_all add: js_get_JObj providerError_def assms(3))
    ultimately show False
      by (simp add: validateError_def requireStringFields_def Let_def del: each_res.simps)
  qed
  obtain pl evd ws e where env: "env = terminalPersistenceFailure pl evd ws e" "w' = w\<lparr>w_ledger := w_ledger w\<rparr>"
    using assms(2,4,5) no
    by (fastforce simp: settle_def settle_threw_def Let_def outcome_type_def persistOutcome_def appendOutcome_def
        split: prod.splits option.splits sum.splits)
  then show ?thesis by simp
qed

definition demo_read_only :: exec where
  "demo_read_only = demo_exec\<lparr>x_contract := (demo_contract False)\<lparr>c_reversibility := ''read_only''\<rparr>\<rparr>"

theorem empty_message_in_doubt_witness:
  "failure_code (snd (settle (demo_rt False) demo_committed demo_read_only
      (Threw (TErr (JStr ''Error'') [(''message'', JStr [])]) False) demo_settle)) = ''EXECUTION_OUTCOME_IN_DOUBT''"
  using empty_message_in_doubt[of "demo_rt False" demo_read_only "TErr (JStr ''Error'') [(''message'', JStr [])]" demo_committed demo_settle]
  by (cases "settle (demo_rt False) demo_committed demo_read_only (Threw (TErr (JStr ''Error'') [(''message'', JStr [])]) False) demo_settle")
    (simp add: demo_read_only_def demo_rt_def js_get_JObj)

end
