(* ===== verification/Scheduler.thy ===== *)
theory Scheduler
  imports Runtime
begin

text \<open>
  The governed execution scheduler of \<open>packages/governed-execution/scheduler.js\<close>: a bounded FIFO
  queue in front of the execution port, with exclusive items, cancellation of queued items through the
  port (a barrier until it is durable), closing, draining and halting.

  An item lives in the queue, then in the set of active items, then nowhere: its result has been
  delivered to its promise (\<open>sc_results\<close>). The promise chains of the code are cut where they
  suspend: \<open>run_result\<close> and \<open>cancel_outcome\<close> are the continuations that receive the port's
  answer, \<open>run_finally\<close> and \<open>cancel_finally\<close> the ones that release the item.
  \<open>sc_log\<close> records the identifiers in the order their items were started.
\<close>

subsection \<open>Items and state\<close>

datatype item_state = Queued | Running | Cancelling

datatype external = NoExternal | Live | Aborted

record sched_item =
  it_id :: nat
  it_operation :: "string option"
  it_exclusive :: bool
  it_cancellable :: bool
  it_cancelled :: bool
  it_aborted :: bool
  it_external :: external
  it_state :: item_state
  it_result :: "js option"

record sched_metrics =
  m_cancellation_refused :: nat
  m_cancelled :: nat
  m_completed :: nat
  m_failed :: nat
  m_rejected :: nat
  m_started :: nat

record scheduler =
  sc_max_concurrency :: nat
  sc_max_queue :: nat
  sc_queue :: "sched_item list"
  sc_active :: "sched_item list"
  sc_barriers :: nat
  sc_exclusive :: bool
  sc_accepting :: bool
  sc_waiters :: nat
  sc_drained :: nat
  sc_metrics :: sched_metrics
  sc_next :: nat
  sc_log :: "nat list"
  sc_results :: "(nat \<times> js) list"

definition scheduler_error :: "string \<Rightarrow> string \<Rightarrow> bool \<Rightarrow> thrown" where
  "scheduler_error msg code retryable = thrown_of \<lparr>err_code = code, err_message = msg, err_retryable = retryable\<rparr>"

definition new_scheduler :: "int \<Rightarrow> int \<Rightarrow> string + scheduler" where
  "new_scheduler max_concurrency max_queue =
     (if max_concurrency < 1 then Inl ''maxConcurrency must be a positive integer''
      else if max_queue < 1 then Inl ''maxQueue must be a positive integer''
      else Inr \<lparr>sc_max_concurrency = nat max_concurrency, sc_max_queue = nat max_queue, sc_queue = [], sc_active = [],
             sc_barriers = 0, sc_exclusive = False, sc_accepting = True, sc_waiters = 0, sc_drained = 0,
             sc_metrics = \<lparr>m_cancellation_refused = 0, m_cancelled = 0, m_completed = 0, m_failed = 0, m_rejected = 0, m_started = 0\<rparr>,
             sc_next = 0, sc_log = [], sc_results = []\<rparr>)"

definition refuse :: "scheduler \<Rightarrow> scheduler" where
  "refuse s = s\<lparr>sc_metrics := (sc_metrics s)\<lparr>m_cancellation_refused := Suc (m_cancellation_refused (sc_metrics s))\<rparr>\<rparr>"

definition count_cancelled :: "scheduler \<Rightarrow> scheduler" where
  "count_cancelled s = s\<lparr>sc_metrics := (sc_metrics s)\<lparr>m_cancelled := Suc (m_cancelled (sc_metrics s))\<rparr>\<rparr>"

definition count_completed :: "scheduler \<Rightarrow> scheduler" where
  "count_completed s = s\<lparr>sc_metrics := (sc_metrics s)\<lparr>m_completed := Suc (m_completed (sc_metrics s))\<rparr>\<rparr>"

definition count_failed :: "scheduler \<Rightarrow> scheduler" where
  "count_failed s = s\<lparr>sc_metrics := (sc_metrics s)\<lparr>m_failed := Suc (m_failed (sc_metrics s))\<rparr>\<rparr>"

definition count_rejected :: "scheduler \<Rightarrow> scheduler" where
  "count_rejected s = s\<lparr>sc_metrics := (sc_metrics s)\<lparr>m_rejected := Suc (m_rejected (sc_metrics s))\<rparr>\<rparr>"

definition without :: "sched_item list \<Rightarrow> nat \<Rightarrow> sched_item list" where
  "without xs i = filter (\<lambda>x. it_id x \<noteq> i) xs"

definition find_item :: "sched_item list \<Rightarrow> nat \<Rightarrow> sched_item option" where
  "find_item xs i = find (\<lambda>x. it_id x = i) xs"

definition change :: "nat \<Rightarrow> (sched_item \<Rightarrow> sched_item) \<Rightarrow> sched_item list \<Rightarrow> sched_item list" where
  "change i f xs = map (\<lambda>x. if it_id x = i then f x else x) xs"

subsection \<open>Starting and draining\<close>

definition resolveDrain :: "scheduler \<Rightarrow> scheduler" where
  "resolveDrain s =
     (if sc_queue s \<noteq> [] \<or> sc_active s \<noteq> [] then s
      else s\<lparr>sc_drained := sc_drained s + sc_waiters s, sc_waiters := 0\<rparr>)"

definition start_item :: "scheduler \<Rightarrow> sched_item \<Rightarrow> scheduler" where
  "start_item s x =
     s\<lparr>sc_active := sc_active s @ [x\<lparr>it_state := Running\<rparr>],
       sc_exclusive := sc_exclusive s \<or> it_exclusive x,
       sc_metrics := (sc_metrics s)\<lparr>m_started := Suc (m_started (sc_metrics s))\<rparr>,
       sc_log := sc_log s @ [it_id x]\<rparr>"

function pump_loop :: "scheduler \<Rightarrow> scheduler" where
  "pump_loop s =
     (case sc_queue s of
        [] \<Rightarrow> resolveDrain s
      | next # rest \<Rightarrow>
          if it_exclusive next then
            (if sc_active s \<noteq> [] then s else start_item (s\<lparr>sc_queue := rest\<rparr>) next)
          else if sc_max_concurrency s \<le> length (sc_active s) then s
          else pump_loop (start_item (s\<lparr>sc_queue := rest\<rparr>) next))"
  by auto

termination
  by (relation "measure (\<lambda>s. length (sc_queue s))") (auto simp: start_item_def)

declare pump_loop.simps [simp del]

definition pump :: "scheduler \<Rightarrow> scheduler" where
  "pump s = (if sc_exclusive s \<or> 0 < sc_barriers s then s else pump_loop s)"

subsection \<open>Cancellation of queued items\<close>

definition cancel_queued :: "scheduler \<Rightarrow> nat \<Rightarrow> bool \<Rightarrow> scheduler \<times> bool" where
  "cancel_queued s i do_pump =
     (case find_item (sc_queue s) i of
        None \<Rightarrow> (s, False)
      | Some x \<Rightarrow>
          let s1 = count_cancelled (s\<lparr>sc_queue := without (sc_queue s) i,
                 sc_active := sc_active s @ [x\<lparr>it_cancelled := True, it_state := Cancelling, it_aborted := True\<rparr>],
                 sc_barriers := Suc (sc_barriers s)\<rparr>)
          in (if do_pump then pump s1 else s1, True))"

text \<open>\<open>cancelFromSignal\<close>: the external signal of an item aborts.\<close>

definition cancel_from_signal :: "scheduler \<Rightarrow> nat \<Rightarrow> scheduler" where
  "cancel_from_signal s i =
     (case find_item (sc_queue s) i of
        None \<Rightarrow> s
      | Some x \<Rightarrow> if \<not> it_cancellable x then refuse s else fst (cancel_queued s i True))"

definition signal_fired :: "scheduler \<Rightarrow> nat \<Rightarrow> scheduler" where
  "signal_fired s i =
     cancel_from_signal
       (s\<lparr>sc_queue := change i (\<lambda>x. x\<lparr>it_external := Aborted\<rparr>) (sc_queue s),
          sc_active := change i (\<lambda>x. x\<lparr>it_external := Aborted\<rparr>) (sc_active s)\<rparr>) i"

text \<open>A signal aborts at most once, and only an item with an external signal that is still live.\<close>

definition external_abort :: "scheduler \<Rightarrow> nat \<Rightarrow> scheduler" where
  "external_abort s i =
     (case find_item (sc_queue s @ sc_active s) i of
        None \<Rightarrow> s
      | Some x \<Rightarrow> if it_external x = Live then signal_fired s i else s)"

subsection \<open>Admission\<close>

text \<open>
  A request as the scheduler sees it: whether it is an object that names a tool, the validity and state
  of its signal, and the operation identifier its tool and key determine.
\<close>

datatype sched_signal = SNone | SInvalid | SLive | SAborted

record sched_request =
  sr_valid :: bool
  sr_tool :: js
  sr_key :: js
  sr_signal :: sched_signal

definition operationIdFor :: "(string \<Rightarrow> string) \<Rightarrow> sched_request \<Rightarrow> string option" where
  "operationIdFor sha256 q =
     (if is_text (sr_tool q) \<and> is_text (sr_key q)
      then Some (deterministicOperationId sha256 (js_text (sr_tool q)) (js_text (sr_key q))) else None)"

datatype handle = Rejected envelope | Accepted nat

definition reject :: "scheduler \<Rightarrow> string option \<Rightarrow> thrown \<Rightarrow> scheduler \<times> handle" where
  "reject s opid e = (count_rejected s, Rejected (failureEnvelope e opid [] []))"

definition enqueue :: "(string \<Rightarrow> string) \<Rightarrow> scheduler \<Rightarrow> sched_request \<Rightarrow> (bool \<times> bool) option \<Rightarrow> scheduler \<times> handle" where
  "enqueue sha256 s q contract =
     (let opid = operationIdFor sha256 q in
      if \<not> sr_valid q \<or> \<not> is_str (sr_tool q)
      then reject s opid (scheduler_error ''Scheduler request must identify a tool'' ''EXECUTION_REQUEST_INVALID'' False)
      else if \<not> sc_accepting s
      then reject s opid (scheduler_error ''Scheduler is closed'' ''EXECUTION_SCHEDULER_CLOSED'' False)
      else if sr_signal q = SInvalid
      then reject s opid (scheduler_error ''Scheduler signal must implement the AbortSignal contract'' ''EXECUTION_REQUEST_INVALID'' False)
      else if sc_max_queue s \<le> length (sc_queue s)
      then reject s opid (scheduler_error ''Scheduler queue capacity is exhausted'' ''EXECUTION_SCHEDULER_CAPACITY'' True)
      else let (exclusive, cancellable) = (case contract of None \<Rightarrow> (True, True) | Some c \<Rightarrow> c);
               i = sc_next s;
               x = \<lparr>it_id = i, it_operation = opid, it_exclusive = exclusive, it_cancellable = cancellable,
                    it_cancelled = False, it_aborted = False,
                    it_external = (case sr_signal q of SNone \<Rightarrow> NoExternal | SAborted \<Rightarrow> Aborted | _ \<Rightarrow> Live),
                    it_state = Queued, it_result = None\<rparr>;
               s1 = s\<lparr>sc_queue := sc_queue s @ [x], sc_next := Suc i\<rparr>;
               s2 = (if sr_signal q = SAborted then cancel_from_signal s1 i else s1);
               s3 = (if find_item (sc_queue s2) i \<noteq> None then pump s2 else s2)
           in (s3, Accepted i))"

subsection \<open>Completion of running items\<close>

definition deliver :: "scheduler \<Rightarrow> nat \<Rightarrow> js \<Rightarrow> scheduler" where
  "deliver s i env =
     s\<lparr>sc_active := change i (\<lambda>x. x\<lparr>it_result := Some env\<rparr>) (sc_active s), sc_results := sc_results s @ [(i, env)]\<rparr>"

text \<open>The port's answer to a running item: a value or a thrown value.\<close>

definition failed_js :: "thrown \<Rightarrow> string option \<Rightarrow> js" where
  "failed_js t opid = env_js (failureEnvelope t opid [] [])"

definition run_result :: "scheduler \<Rightarrow> sched_item \<Rightarrow> thrown + js \<Rightarrow> scheduler" where
  "run_result s x answer =
     (case bind_res answer (\<lambda>v. raised (assertCanonicalEnvelope v)) of
        Inl t \<Rightarrow> deliver (count_failed s) (it_id x) (failed_js t (it_operation x))
      | Inr v \<Rightarrow> deliver (if js_truthy (js_get v ''ok'') then count_completed s else count_failed s) (it_id x) v)"

definition run_finally :: "scheduler \<Rightarrow> sched_item \<Rightarrow> scheduler" where
  "run_finally s x =
     pump (s\<lparr>sc_active := without (sc_active s) (it_id x),
             sc_exclusive := (if it_exclusive x then False else sc_exclusive s)\<rparr>)"

subsection \<open>Completion of cancelling items\<close>

definition thrown_text :: "thrown \<Rightarrow> string" where
  "thrown_text t = js_show (if js_truthy (thrown_get t ''code'') then thrown_get t ''code'' else thrown_get t ''message'')"

definition halted :: "thrown \<Rightarrow> sched_item \<Rightarrow> js" where
  "halted cause x =
     failed_js (scheduler_error (''Scheduler halted after durable cancellation failure: '' @ thrown_text cause)
       ''EXECUTION_SCHEDULER_HALTED'' False) (it_operation x)"

text \<open>
  \<open>_halt\<close>: every queued item is rejected with the cause. Reading a property of a null cause throws
  at the first queued item, which is counted but not answered, as are the items behind it.
\<close>

definition halt :: "scheduler \<Rightarrow> thrown \<Rightarrow> scheduler" where
  "halt s cause =
     (let items = sc_queue s; s1 = s\<lparr>sc_accepting := False, sc_queue := []\<rparr> in
      if nil_thrown cause then (case items of [] \<Rightarrow> s1 | x # _ \<Rightarrow> count_rejected s1)
      else s1\<lparr>sc_metrics := (sc_metrics s1)\<lparr>m_rejected := m_rejected (sc_metrics s1) + length items\<rparr>,
              sc_results := sc_results s1 @ map (\<lambda>x. (it_id x, halted cause x)) items\<rparr>)"

definition cancellation_invalid :: thrown where
  "cancellation_invalid =
     scheduler_error ''Governed port did not persist queued cancellation'' ''EXECUTION_CANCELLATION_INVALID'' False"

definition check_cancellation :: "thrown + js \<Rightarrow> thrown + js" where
  "check_cancellation answer =
     bind_res answer (\<lambda>v.
     bind_res (raised (assertCanonicalEnvelope v)) (\<lambda>_.
     if js_truthy (js_get v ''ok'') \<or> js_get (js_get v ''error'') ''code'' \<noteq> JStr ''EXECUTION_CANCELLED''
     then Inl cancellation_invalid else Inr v))"

definition cancel_outcome :: "scheduler \<Rightarrow> sched_item \<Rightarrow> thrown + js \<Rightarrow> scheduler" where
  "cancel_outcome s x answer =
     (case check_cancellation answer of
        Inr v \<Rightarrow> deliver s (it_id x) v
      | Inl t \<Rightarrow> halt (deliver (count_failed s) (it_id x) (failed_js t (it_operation x))) t)"

definition cancel_finally :: "scheduler \<Rightarrow> sched_item \<Rightarrow> scheduler" where
  "cancel_finally s x =
     (let s1 = s\<lparr>sc_active := without (sc_active s) (it_id x), sc_barriers := sc_barriers s - 1\<rparr>
      in if sc_accepting s1 then pump s1 else resolveDrain s1)"

subsection \<open>Handles, closing and draining\<close>

definition abort_running :: "sched_item \<Rightarrow> sched_item" where
  "abort_running x = x\<lparr>it_cancelled := True, it_aborted := True\<rparr>"

definition handle_cancel :: "scheduler \<Rightarrow> nat \<Rightarrow> scheduler \<times> bool" where
  "handle_cancel s i =
     (case find_item (sc_queue s @ sc_active s) i of
        None \<Rightarrow> (s, False)
      | Some x \<Rightarrow>
          if it_cancelled x \<or> it_aborted x then (s, False)
          else if \<not> it_cancellable x then (refuse s, False)
          else if it_state x = Queued then cancel_queued s i True
          else (count_cancelled (s\<lparr>sc_active := change i abort_running (sc_active s)\<rparr>), True))"

fun cancel_all_queued :: "scheduler \<Rightarrow> sched_item list \<Rightarrow> scheduler" where
  "cancel_all_queued s [] = s"
| "cancel_all_queued s (x # xs) =
     cancel_all_queued (if it_cancelled x then s else if \<not> it_cancellable x then refuse s
                        else fst (cancel_queued s (it_id x) False)) xs"

fun cancel_all_running :: "scheduler \<Rightarrow> sched_item list \<Rightarrow> scheduler" where
  "cancel_all_running s [] = s"
| "cancel_all_running s (x # xs) =
     cancel_all_running (if it_cancelled x then s else if \<not> it_cancellable x then refuse s
                         else count_cancelled (s\<lparr>sc_active := change (it_id x) abort_running (sc_active s)\<rparr>)) xs"

definition drain :: "scheduler \<Rightarrow> scheduler" where
  "drain s = (if sc_queue s = [] \<and> sc_active s = [] then s\<lparr>sc_drained := Suc (sc_drained s)\<rparr>
              else s\<lparr>sc_waiters := Suc (sc_waiters s)\<rparr>)"

definition close_scheduler :: "scheduler \<Rightarrow> bool \<Rightarrow> bool \<Rightarrow> scheduler" where
  "close_scheduler s queued running =
     (let s1 = s\<lparr>sc_accepting := False\<rparr>;
          s2 = (if queued then pump (cancel_all_queued s1 (sc_queue s1)) else s1);
          s3 = (if running then cancel_all_running s2 (sc_active s2) else s2)
      in drain s3)"

record sched_snapshot =
  sn_accepting :: bool
  sn_active :: nat
  sn_exclusive_running :: bool
  sn_max_concurrency :: nat
  sn_max_queue :: nat
  sn_queued :: nat
  sn_totals :: sched_metrics

definition snapshot :: "scheduler \<Rightarrow> sched_snapshot" where
  "snapshot s = \<lparr>sn_accepting = sc_accepting s, sn_active = length (sc_active s),
     sn_exclusive_running = (sc_exclusive s \<or> 0 < sc_barriers s),
     sn_max_concurrency = sc_max_concurrency s, sn_max_queue = sc_max_queue s, sn_queued = length (sc_queue s), sn_totals = sc_metrics s\<rparr>"

lemma external_abort_cases: "external_abort s i = s \<or> external_abort s i = signal_fired s i"
  by (simp add: external_abort_def split: option.split)

subsection \<open>Steps and reachable states\<close>

inductive sched_step :: "(string \<Rightarrow> string) \<Rightarrow> scheduler \<Rightarrow> scheduler \<Rightarrow> bool" for sha256 where
  s_enqueue: "enqueue sha256 s q c = (s', h) \<Longrightarrow> sched_step sha256 s s'"
| s_abort: "sched_step sha256 s (external_abort s i)"
| s_cancel: "handle_cancel s i = (s', b) \<Longrightarrow> sched_step sha256 s s'"
| s_close: "sched_step sha256 s (close_scheduler s queued running)"
| s_drain: "sched_step sha256 s (drain s)"
| s_result: "x \<in> set (sc_active s) \<Longrightarrow> it_state x = Running \<Longrightarrow> it_result x = None \<Longrightarrow>
    sched_step sha256 s (run_result s x answer)"
| s_finally: "x \<in> set (sc_active s) \<Longrightarrow> it_state x = Running \<Longrightarrow> it_result x \<noteq> None \<Longrightarrow>
    sched_step sha256 s (run_finally s x)"
| s_outcome: "x \<in> set (sc_active s) \<Longrightarrow> it_state x = Cancelling \<Longrightarrow> it_result x = None \<Longrightarrow>
    sched_step sha256 s (cancel_outcome s x answer)"
| s_released: "x \<in> set (sc_active s) \<Longrightarrow> it_state x = Cancelling \<Longrightarrow> it_result x \<noteq> None \<Longrightarrow>
    sched_step sha256 s (cancel_finally s x)"

inductive sched_reachable :: "(string \<Rightarrow> string) \<Rightarrow> scheduler \<Rightarrow> scheduler \<Rightarrow> bool" for sha256 s0 where
  sched_initial: "sched_reachable sha256 s0 s0"
| sched_further: "sched_reachable sha256 s0 s \<Longrightarrow> sched_step sha256 s s' \<Longrightarrow> sched_reachable sha256 s0 s'"

subsection \<open>Invariant\<close>

definition running :: "scheduler \<Rightarrow> sched_item list" where
  "running s = filter (\<lambda>x. it_state x = Running) (sc_active s)"

definition cancelling :: "scheduler \<Rightarrow> sched_item list" where
  "cancelling s = filter (\<lambda>x. it_state x = Cancelling) (sc_active s)"

definition fresh_item :: "sched_item \<Rightarrow> bool" where
  "fresh_item x \<longleftrightarrow> it_state x = Queued \<and> it_result x = None \<and> \<not> it_cancelled x"

definition items_ok :: "scheduler \<Rightarrow> bool" where
  "items_ok s \<longleftrightarrow>
     distinct (map it_id (sc_queue s @ sc_active s)) \<and> list_all fresh_item (sc_queue s) \<and>
     list_all (\<lambda>x. it_state x \<noteq> Queued) (sc_active s) \<and>
     list_all (\<lambda>x. it_id x < sc_next s) (sc_queue s @ sc_active s)"

definition limits_ok :: "scheduler \<Rightarrow> bool" where
  "limits_ok s \<longleftrightarrow>
     1 \<le> sc_max_concurrency s \<and> length (sc_queue s) \<le> sc_max_queue s \<and>
     length (running s) \<le> sc_max_concurrency s \<and>
     (sc_exclusive s \<longleftrightarrow> list_ex it_exclusive (running s)) \<and> (sc_exclusive s \<longrightarrow> length (running s) = 1) \<and>
     sc_barriers s = length (cancelling s)"

definition order_ok :: "scheduler \<Rightarrow> bool" where
  "order_ok s \<longleftrightarrow> sorted_wrt (<) (sc_log s @ map it_id (sc_queue s)) \<and> list_all (\<lambda>i. i < sc_next s) (sc_log s) \<and>
     m_started (sc_metrics s) = length (sc_log s)"

definition sched_ok :: "scheduler \<Rightarrow> bool" where
  "sched_ok s \<longleftrightarrow> items_ok s \<and> limits_ok s \<and> order_ok s"

lemmas ok_defs = sched_ok_def items_ok_def limits_ok_def order_ok_def running_def cancelling_def list_all_iff list_ex_iff

text \<open>Updates of the counters that matter to nobody else.\<close>

lemma counters_ok [simp]:
  "sched_ok (refuse s) = sched_ok s" "sched_ok (count_cancelled s) = sched_ok s"
  "sched_ok (count_completed s) = sched_ok s" "sched_ok (count_failed s) = sched_ok s"
  "sched_ok (count_rejected s) = sched_ok s"
  "sched_ok (s\<lparr>sc_waiters := n\<rparr>) = sched_ok s" "sched_ok (s\<lparr>sc_drained := n\<rparr>) = sched_ok s"
  "sched_ok (s\<lparr>sc_accepting := b\<rparr>) = sched_ok s" "sched_ok (s\<lparr>sc_results := rs\<rparr>) = sched_ok s"
  by (simp_all add: ok_defs refuse_def count_cancelled_def count_completed_def count_failed_def count_rejected_def)

lemma resolveDrain_ok [simp]: "sched_ok (resolveDrain s) = sched_ok s"
  by (simp add: resolveDrain_def)

lemma drain_ok [simp]: "sched_ok (drain s) = sched_ok s"
  by (simp add: drain_def)

lemma start_item_ok:
  assumes "sched_ok s" "sc_queue s = x # rest" "\<not> sc_exclusive s" "length (running s) < sc_max_concurrency s"
    "it_exclusive x \<Longrightarrow> running s = []"
  shows "sched_ok (start_item (s\<lparr>sc_queue := rest\<rparr>) x)"
proof -
  have "items_ok (start_item (s\<lparr>sc_queue := rest\<rparr>) x)"
    using assms(1,2) by (auto simp: ok_defs start_item_def)
  moreover have "limits_ok (start_item (s\<lparr>sc_queue := rest\<rparr>) x)"
    using assms by (auto simp: ok_defs start_item_def)
  moreover have "order_ok (start_item (s\<lparr>sc_queue := rest\<rparr>) x)"
    using assms(1,2) by (auto simp: ok_defs start_item_def sorted_wrt_append)
  ultimately show ?thesis by (simp add: sched_ok_def)
qed

lemma running_le_active: "length (running s) \<le> length (sc_active s)"
  by (simp add: running_def)

lemma pump_loop_ok: "sched_ok s \<Longrightarrow> \<not> sc_exclusive s \<Longrightarrow> sched_ok (pump_loop s)"
proof (induction s rule: pump_loop.induct)
  case (1 s)
  show ?case
  proof (cases "sc_queue s")
    case Nil
    then show ?thesis using 1 by (simp add: pump_loop.simps)
  next
    case (Cons x rest)
    show ?thesis
    proof (cases "it_exclusive x")
      case True
      then show ?thesis
        using 1(2,3) Cons start_item_ok[OF 1(2) Cons 1(3)]
        by (auto simp: pump_loop.simps[of s] running_def sched_ok_def limits_ok_def)
    next
      case False
      have "sched_ok (start_item (s\<lparr>sc_queue := rest\<rparr>) x)" if "length (sc_active s) < sc_max_concurrency s"
        using start_item_ok[OF 1(2) Cons 1(3)] that running_le_active[of s] False by auto
      moreover have "\<not> sc_exclusive (start_item (s\<lparr>sc_queue := rest\<rparr>) x)"
        using 1(3) False by (simp add: start_item_def)
      ultimately show ?thesis
        using 1 Cons False by (auto simp: pump_loop.simps[of s])
    qed
  qed
qed

lemma pump_ok: "sched_ok s \<Longrightarrow> sched_ok (pump s)"
  by (simp add: pump_def pump_loop_ok)

lemma find_item_Some: "find_item xs i = Some x \<Longrightarrow> x \<in> set xs \<and> it_id x = i"
  by (auto simp: find_item_def find_Some_iff)

lemma sorted_wrt_filter_ids: "sorted_wrt (<) (xs @ map it_id q) \<Longrightarrow> sorted_wrt (<) (xs @ map it_id (filter P q))"
  by (auto simp: sorted_wrt_append sorted_wrt_map intro: sorted_wrt_filter)

lemma cancel_queued_step:
  assumes "sched_ok s" "find_item (sc_queue s) i = Some x"
  shows "sched_ok (s\<lparr>sc_queue := without (sc_queue s) i,
     sc_active := sc_active s @ [x\<lparr>it_cancelled := True, it_state := Cancelling, it_aborted := True\<rparr>],
     sc_barriers := Suc (sc_barriers s)\<rparr>)" (is "sched_ok ?t")
proof -
  have x: "x \<in> set (sc_queue s)" "it_id x = i" using find_item_Some[OF assms(2)] by auto
  have "distinct (map it_id (without (sc_queue s) i))"
    using assms(1) by (auto simp: ok_defs without_def distinct_map intro: inj_on_subset)
  then have "items_ok ?t"
    using assms(1) x by (auto simp: ok_defs without_def)
  moreover have "limits_ok ?t"
    using assms(1) by (auto simp: ok_defs without_def intro: order_trans[OF length_filter_le])
  moreover have "order_ok ?t"
    using assms(1) sorted_wrt_filter_ids by (auto simp: ok_defs without_def)
  ultimately show ?thesis by (simp add: sched_ok_def)
qed

lemma cancel_queued_ok: "sched_ok s \<Longrightarrow> sched_ok (fst (cancel_queued s i p))"
  using cancel_queued_step[of s i] by (auto simp: cancel_queued_def Let_def pump_ok split: option.split)

lemma change_filter:
  assumes "\<And>x. P (f x) = P x"
  shows "filter P (change i f xs) = change i f (filter P xs)"
  unfolding change_def by (induction xs) (auto simp: assms)

text \<open>Changing an active item without touching what the invariant reads.\<close>

definition harmless :: "(sched_item \<Rightarrow> sched_item) \<Rightarrow> bool" where
  "harmless f \<longleftrightarrow> (\<forall>x. it_id (f x) = it_id x \<and> it_state (f x) = it_state x \<and> it_exclusive (f x) = it_exclusive x)"

lemma change_ok:
  assumes "sched_ok s" "harmless f"
  shows "sched_ok (s\<lparr>sc_active := change i f (sc_active s)\<rparr>)"
proof -
  have f: "it_id (f x) = it_id x" "it_state (f x) = it_state x" "it_exclusive (f x) = it_exclusive x" for x
    using assms(2) by (auto simp: harmless_def)
  have "filter (\<lambda>x. it_state x = c) (change i f xs) = change i f (filter (\<lambda>x. it_state x = c) xs)" for c xs
    by (rule change_filter) (simp add: f)
  moreover have "(\<exists>x \<in> set (change i f xs). it_exclusive x) \<longleftrightarrow> (\<exists>x \<in> set xs. it_exclusive x)" for xs
    by (simp add: change_def f if_distrib[of it_exclusive] del: if_image_distrib)
  moreover have ids: "map it_id (change i f xs) = map it_id xs" for xs
    by (simp add: change_def f)
  moreover have "length (change i f xs) = length xs" "it_id ` set (change i f xs) = it_id ` set xs" for xs
    using arg_cong[OF ids, of length] arg_cong[OF ids, of set] by simp_all
  moreover have "\<forall>x \<in> set (change i f (sc_active s)). it_state x \<noteq> Queued \<and> it_id x < sc_next s"
    using assms(1) by (auto simp: ok_defs change_def f)
  ultimately show ?thesis
    using assms(1) by (auto simp: ok_defs)
qed

lemma change_queue_ok:
  assumes "sched_ok s" "\<And>x. it_id (f x) = it_id x" "\<And>x. fresh_item x \<Longrightarrow> fresh_item (f x)"
  shows "sched_ok (s\<lparr>sc_queue := change i f (sc_queue s)\<rparr>)"
proof -
  have ids: "map it_id (change i f xs) = map it_id xs" for xs
    by (simp add: change_def assms(2))
  have "length (change i f xs) = length xs" "it_id ` set (change i f xs) = it_id ` set xs" for xs
    using arg_cong[OF ids, of length] arg_cong[OF ids, of set] by simp_all
  moreover have "\<forall>x \<in> set (change i f (sc_queue s)). fresh_item x \<and> it_id x < sc_next s"
    using assms(1,3) by (auto simp: ok_defs change_def assms(2))
  ultimately show ?thesis
    using assms(1) ids by (auto simp: ok_defs)
qed

lemma deliver_ok: "sched_ok s \<Longrightarrow> sched_ok (deliver s i v)"
  using change_ok[of s "\<lambda>x. x\<lparr>it_result := Some v\<rparr>" i] counters_ok(9)
  by (simp add: deliver_def harmless_def)

lemma count_without:
  assumes "distinct (map it_id xs)" "x \<in> set xs"
  shows "length (filter P (without xs (it_id x))) = length (filter P xs) - (if P x then 1 else 0)"
  using assms
proof (induction xs)
  case (Cons y ys)
  show ?case
  proof (cases "y = x")
    case True
    have "without ys (it_id x) = ys"
      using Cons.prems True by (auto simp: without_def filter_id_conv image_iff)
    then show ?thesis using True by (simp add: without_def)
  next
    case False
    then have x: "x \<in> set ys" "it_id y \<noteq> it_id x" using Cons.prems by auto
    then have "P x \<Longrightarrow> 0 < length (filter P ys)" by (auto simp: filter_empty_conv)
    then show ?thesis using Cons x by (auto simp: without_def)
  qed
qed simp

lemma set_without: "distinct (map it_id xs) \<Longrightarrow> x \<in> set xs \<Longrightarrow> set (without xs (it_id x)) = set xs - {x}"
  by (auto simp: without_def distinct_map inj_on_def)

lemma release_running_ok:
  assumes "sched_ok s" "x \<in> set (sc_active s)" "it_state x = Running"
  shows "sched_ok (s\<lparr>sc_active := without (sc_active s) (it_id x),
            sc_exclusive := (if it_exclusive x then False else sc_exclusive s)\<rparr>)" (is "sched_ok ?t")
proof -
  have d: "distinct (map it_id (sc_active s))" using assms(1) by (simp add: ok_defs)
  note c = count_without[OF d assms(2)] and w = set_without[OF d assms(2)]
  have dw: "distinct (map it_id (without (sc_active s) (it_id x)))"
    using d by (auto simp: without_def distinct_map intro: inj_on_subset)
  have items: "items_ok ?t"
    using assms(1) dw w by (auto simp: ok_defs)
  have one: "sc_exclusive s \<Longrightarrow> running s = [x]"
  proof -
    assume "sc_exclusive s"
    then obtain y where y: "running s = [y]"
      using assms(1) by (auto simp: sched_ok_def limits_ok_def length_Suc_conv)
    moreover have "x \<in> set (running s)" using assms(2,3) by (simp add: running_def)
    ultimately show "running s = [x]" by simp
  qed
  have "limits_ok ?t"
  proof (cases "sc_exclusive s")
    case True
    then have r: "filter (\<lambda>y. it_state y = Running) (without (sc_active s) (it_id x)) = []"
      using c[of "\<lambda>y. it_state y = Running"] one assms(3) by (simp add: running_def)
    have "it_exclusive x"
      using True one assms(1) by (auto simp: sched_ok_def limits_ok_def)
    then show ?thesis
      using assms(1,3) r c[of "\<lambda>y. it_state y = Cancelling"] by (simp add: sched_ok_def limits_ok_def running_def cancelling_def)
  next
    case False
    then show ?thesis
      using assms(1,3) c w by (auto simp: sched_ok_def limits_ok_def running_def cancelling_def list_ex_iff)
  qed
  moreover have "order_ok ?t" using assms(1) by (simp add: sched_ok_def order_ok_def)
  ultimately show ?thesis using items by (simp add: sched_ok_def)
qed

lemma release_cancelling_ok:
  assumes "sched_ok s" "x \<in> set (sc_active s)" "it_state x = Cancelling"
  shows "sched_ok (s\<lparr>sc_active := without (sc_active s) (it_id x), sc_barriers := sc_barriers s - 1\<rparr>)" (is "sched_ok ?t")
proof -
  have d: "distinct (map it_id (sc_active s))" using assms(1) by (simp add: ok_defs)
  note c = count_without[OF d assms(2)] and w = set_without[OF d assms(2)]
  have dw: "distinct (map it_id (without (sc_active s) (it_id x)))"
    using d by (auto simp: without_def distinct_map intro: inj_on_subset)
  have "items_ok ?t" using assms(1) dw w by (auto simp: ok_defs)
  moreover have "limits_ok ?t"
    using assms(1,3) c w by (auto simp: sched_ok_def limits_ok_def running_def cancelling_def list_ex_iff)
  moreover have "order_ok ?t" using assms(1) by (simp add: sched_ok_def order_ok_def)
  ultimately show ?thesis by (simp add: sched_ok_def)
qed

lemma halt_ok: "sched_ok s \<Longrightarrow> sched_ok (halt s t)"
proof -
  assume "sched_ok s"
  then have "sched_ok (s\<lparr>sc_accepting := False, sc_queue := []\<rparr>)"
    by (auto simp: ok_defs sorted_wrt_append)
  then show ?thesis
    by (auto simp: halt_def Let_def split: list.split) (simp add: ok_defs)
qed

lemma push_ok:
  assumes "sched_ok s" "length (sc_queue s) < sc_max_queue s" "it_id x = sc_next s" "fresh_item x"
  shows "sched_ok (s\<lparr>sc_queue := sc_queue s @ [x], sc_next := Suc (sc_next s)\<rparr>)" (is "sched_ok ?t")
proof -
  have "items_ok ?t" using assms by (auto simp: ok_defs less_Suc_eq)
  moreover have "limits_ok ?t" using assms(1,2) by (simp add: sched_ok_def limits_ok_def running_def cancelling_def)
  moreover have "order_ok ?t" using assms by (auto simp: ok_defs sorted_wrt_append less_Suc_eq)
  ultimately show ?thesis by (simp add: sched_ok_def)
qed

lemma enqueue_ok:
  assumes "sched_ok s" "enqueue sha s q c = (s', h)"
  shows "sched_ok s'"
proof (cases "\<exists>e. h = Rejected e")
  case True
  then show ?thesis
    using assms by (auto simp: enqueue_def reject_def Let_def split: if_splits prod.splits)
next
  case False
  then have room: "length (sc_queue s) < sc_max_queue s"
    using assms(2) by (auto simp: enqueue_def reject_def Let_def split: if_splits)
  have sig: "sched_ok t \<Longrightarrow> sched_ok (cancel_from_signal t i)" for t i
    by (simp add: cancel_from_signal_def cancel_queued_ok split: option.split)
  show ?thesis
    using assms(2) False push_ok[OF assms(1) room] sig pump_ok
    by (auto simp: enqueue_def reject_def Let_def fresh_item_def split: if_splits prod.splits)
qed

lemma cancel_all_queued_ok: "sched_ok s \<Longrightarrow> sched_ok (cancel_all_queued s xs)"
  by (induction xs arbitrary: s) (auto simp: cancel_queued_ok)

lemma abort_running_ok: "sched_ok s \<Longrightarrow> sched_ok (s\<lparr>sc_active := change i abort_running (sc_active s)\<rparr>)"
  by (rule change_ok) (auto simp: harmless_def abort_running_def)

lemma cancel_all_running_ok: "sched_ok s \<Longrightarrow> sched_ok (cancel_all_running s xs)"
  by (induction xs arbitrary: s) (auto simp: abort_running_ok)

lemma cancel_from_signal_ok: "sched_ok s \<Longrightarrow> sched_ok (cancel_from_signal s i)"
  by (simp add: cancel_from_signal_def cancel_queued_ok split: option.split)

lemma sched_step_ok: "sched_step sha s s' \<Longrightarrow> sched_ok s \<Longrightarrow> sched_ok s'"
proof (induction rule: sched_step.induct)
  case (s_enqueue s q c s' h)
  then show ?case using enqueue_ok by blast
next
  case (s_abort s i)
  let ?f = "\<lambda>x. x\<lparr>it_external := Aborted\<rparr>"
  have "sched_ok (s\<lparr>sc_queue := change i ?f (sc_queue s)\<rparr>)"
    using s_abort by (intro change_queue_ok) (auto simp: fresh_item_def)
  from change_ok[OF this, of ?f i] have "sched_ok (signal_fired s i)"
    unfolding signal_fired_def by (intro cancel_from_signal_ok) (simp add: harmless_def)
  then show ?case using s_abort external_abort_cases[of s i] by auto
next
  case (s_cancel s i s' b)
  then show ?case
    using cancel_queued_ok[of s i True] abort_running_ok[of s i]
    by (auto simp: handle_cancel_def split: option.splits if_splits)
next
  case (s_close s queued running)
  then show ?case
    by (simp add: close_scheduler_def Let_def pump_ok cancel_all_queued_ok cancel_all_running_ok)
next
  case (s_drain s)
  then show ?case by simp
next
  case (s_result x s answer)
  then show ?case by (simp add: run_result_def deliver_ok split: sum.split)
next
  case (s_finally x s)
  then show ?case using pump_ok release_running_ok by (simp add: run_finally_def)
next
  case (s_outcome x s answer)
  then show ?case by (simp add: cancel_outcome_def deliver_ok halt_ok split: sum.split)
next
  case (s_released x s)
  then show ?case using pump_ok release_cancelling_ok by (simp add: cancel_finally_def Let_def)
qed

lemma new_scheduler_ok: "new_scheduler m n = Inr s \<Longrightarrow> sched_ok s"
  by (auto simp: new_scheduler_def ok_defs split: if_splits)

lemma sched_reachable_ok: "sched_reachable sha s0 s \<Longrightarrow> sched_ok s0 \<Longrightarrow> sched_ok s"
  by (induction rule: sched_reachable.induct) (auto intro: sched_step_ok)

text \<open>
  C24. Limits and order: in every reachable state at most \<open>maxConcurrency\<close> items run, an exclusive item
  runs with no other running item, at most \<open>maxQueue\<close> items wait, the barrier counts exactly the
  cancellations in progress, and items have been started in the order they were enqueued, all of them
  before any item that still waits.
\<close>

theorem scheduler_limits:
  assumes "new_scheduler m n = Inr s0" "sched_reachable sha s0 s"
  shows "length (running s) \<le> sc_max_concurrency s \<and> length (sc_queue s) \<le> sc_max_queue s \<and>
     (\<forall>x \<in> set (running s). it_exclusive x \<longrightarrow> running s = [x]) \<and>
     sc_barriers s = length (cancelling s) \<and>
     sorted_wrt (<) (sc_log s @ map it_id (sc_queue s)) \<and> m_started (sc_metrics s) = length (sc_log s)"
proof -
  have ok: "sched_ok s" using sched_reachable_ok[OF assms(2) new_scheduler_ok[OF assms(1)]] .
  have "running s = [x]" if x: "x \<in> set (running s)" "it_exclusive x" for x
  proof -
    have "length (running s) = 1" using ok that by (auto simp: sched_ok_def limits_ok_def list_ex_iff)
    then show ?thesis using x(1) by (auto simp: length_Suc_conv)
  qed
  then show ?thesis using ok by (auto simp: sched_ok_def limits_ok_def order_ok_def)
qed

subsection \<open>Work conservation\<close>

text \<open>There is a reason why the head of the queue is not running.\<close>

definition blocked :: "scheduler \<Rightarrow> bool" where
  "blocked s \<longleftrightarrow> sc_queue s = [] \<or> sc_exclusive s \<or> 0 < sc_barriers s \<or>
     (it_exclusive (hd (sc_queue s)) \<and> sc_active s \<noteq> []) \<or> sc_max_concurrency s \<le> length (sc_active s)"

lemma pump_loop_blocked: "blocked (pump_loop s)"
proof (induction s rule: pump_loop.induct)
  case (1 s)
  show ?case
  proof (cases "sc_queue s")
    case Nil
    then show ?thesis by (simp add: pump_loop.simps[of s] resolveDrain_def blocked_def)
  next
    case (Cons x rest)
    then show ?thesis
      using 1 by (auto simp: pump_loop.simps[of s] blocked_def start_item_def)
  qed
qed

lemma pump_blocked: "blocked (pump s)"
  using pump_loop_blocked by (auto simp: pump_def blocked_def)

lemma blocked_counters [simp]:
  "blocked (refuse s) = blocked s" "blocked (count_cancelled s) = blocked s"
  "blocked (count_completed s) = blocked s" "blocked (count_failed s) = blocked s"
  "blocked (count_rejected s) = blocked s" "blocked (drain s) = blocked s"
  by (simp_all add: blocked_def refuse_def count_cancelled_def count_completed_def count_failed_def
      count_rejected_def drain_def)

lemma change_Nil [simp]: "change i f xs = [] \<longleftrightarrow> xs = []"
  by (simp add: change_def)

lemma change_length [simp]: "length (change i f xs) = length xs"
  by (simp add: change_def)

lemma change_hd: "xs \<noteq> [] \<Longrightarrow> (\<And>x. it_exclusive (f x) = it_exclusive x) \<Longrightarrow> it_exclusive (hd (change i f xs)) = it_exclusive (hd xs)"
  by (cases xs) (auto simp: change_def)

lemma blocked_change_active [simp]: "blocked (s\<lparr>sc_active := change i f (sc_active s)\<rparr>) = blocked s"
  by (simp add: blocked_def)

lemma deliver_blocked [simp]: "blocked (deliver s i v) = blocked s"
  by (simp add: deliver_def blocked_def)

lemma cancel_queued_blocked: "blocked s \<Longrightarrow> blocked (fst (cancel_queued s i p))"
  using pump_blocked by (auto simp: cancel_queued_def Let_def split: option.split) (simp add: blocked_def count_cancelled_def)

lemma cancel_from_signal_blocked: "blocked s \<Longrightarrow> blocked (cancel_from_signal s i)"
  using cancel_queued_blocked by (simp add: cancel_from_signal_def split: option.split)

lemma cancel_queued_barrier: "find_item (sc_queue s) i = Some x \<Longrightarrow> blocked (fst (cancel_queued s i True))"
  using pump_blocked by (simp add: cancel_queued_def Let_def)

lemma find_item_last: "find_item (xs @ [x]) i = None \<longleftrightarrow> find_item xs i = None \<and> it_id x \<noteq> i"
  by (auto simp: find_item_def find_None_iff)

lemma find_item_new: "it_id x = i \<Longrightarrow> \<exists>y. find_item (xs @ [x]) i = Some y"
  using find_item_last[of xs x i] by auto

lemma enqueue_blocked:
  assumes "enqueue sha s q c = (s', h)" "blocked s"
  shows "blocked s'"
proof -
  have late: "blocked (cancel_from_signal t i)"
    if "find_item (sc_queue (cancel_from_signal t i)) i = None" "find_item (sc_queue t) i \<noteq> None" for t i
    using that by (auto simp: cancel_from_signal_def cancel_queued_barrier refuse_def split: option.splits)
  show ?thesis
    using assms pump_blocked
    by (auto simp: enqueue_def reject_def Let_def find_item_last split: if_splits prod.splits intro!: late find_item_new)
qed

lemma pump_loop_accepting: "sc_accepting (pump_loop s) = sc_accepting s"
proof (induction s rule: pump_loop.induct)
  case (1 s)
  then show ?case by (auto simp: pump_loop.simps[of s] resolveDrain_def start_item_def split: list.split)
qed

lemma accepting_simps [simp]:
  "sc_accepting (pump s) = sc_accepting s"
  "sc_accepting (refuse s) = sc_accepting s" "sc_accepting (count_cancelled s) = sc_accepting s"
  "sc_accepting (count_completed s) = sc_accepting s" "sc_accepting (count_failed s) = sc_accepting s"
  "sc_accepting (count_rejected s) = sc_accepting s" "sc_accepting (deliver s i v) = sc_accepting s"
  "sc_accepting (drain s) = sc_accepting s" "\<not> sc_accepting (halt s t)"
  by (auto simp: pump_def pump_loop_accepting refuse_def count_cancelled_def count_completed_def count_failed_def
      count_rejected_def deliver_def drain_def halt_def Let_def split: list.split)

lemma cancel_queued_accepting [simp]: "sc_accepting (fst (cancel_queued s i p)) = sc_accepting s"
  by (simp add: cancel_queued_def Let_def split: option.split)

lemma cancel_from_signal_accepting [simp]: "sc_accepting (cancel_from_signal s i) = sc_accepting s"
  by (simp add: cancel_from_signal_def split: option.split)

lemma cancel_all_accepting [simp]:
  "sc_accepting (cancel_all_queued s xs) = sc_accepting s" "sc_accepting (cancel_all_running s xs) = sc_accepting s"
  by (induction xs arbitrary: s) auto

lemma sched_step_blocked:
  "sched_step sha s s' \<Longrightarrow> (sc_accepting s \<Longrightarrow> blocked s) \<Longrightarrow> sc_accepting s' \<Longrightarrow> blocked s'"
proof (induction rule: sched_step.induct)
  case (s_enqueue s q c s' h)
  have "sc_accepting s \<or> s' = count_rejected s"
    using s_enqueue(1) by (auto simp: enqueue_def reject_def Let_def split: if_splits prod.splits)
  then show ?case using s_enqueue enqueue_blocked by (auto simp: count_rejected_def)
next
  case (s_abort s i)
  have "blocked (s\<lparr>sc_queue := change i (\<lambda>x. x\<lparr>it_external := Aborted\<rparr>) (sc_queue s),
       sc_active := change i (\<lambda>x. x\<lparr>it_external := Aborted\<rparr>) (sc_active s)\<rparr>)" if "blocked s"
    using that by (auto simp: blocked_def change_hd)
  then have "blocked (signal_fired s i)" if "blocked s"
    using that unfolding signal_fired_def by (intro cancel_from_signal_blocked) auto
  moreover have "sc_accepting (signal_fired s i) = sc_accepting s" by (simp add: signal_fired_def)
  ultimately show ?case using s_abort external_abort_cases[of s i] by auto
next
  case (s_cancel s i s' b)
  have "s' = s \<or> s' = refuse s \<or> s' = fst (cancel_queued s i True) \<or>
      s' = count_cancelled (s\<lparr>sc_active := change i abort_running (sc_active s)\<rparr>)"
    using s_cancel(1) by (auto simp: handle_cancel_def split: option.splits if_splits)
  then show ?case using s_cancel(2,3) cancel_queued_blocked by auto
next
  case (s_close s queued running)
  then show ?case by (auto simp: close_scheduler_def Let_def split: if_splits)
next
  case (s_drain s)
  then show ?case by simp
next
  case (s_result x s answer)
  then show ?case by (auto simp: run_result_def split: sum.splits if_splits)
next
  case (s_finally x s)
  then show ?case using pump_blocked by (simp add: run_finally_def)
next
  case (s_outcome x s answer)
  then show ?case by (auto simp: cancel_outcome_def split: sum.splits)
next
  case (s_released x s)
  then show ?case using pump_blocked by (simp add: cancel_finally_def Let_def resolveDrain_def split: if_splits)
qed

text \<open>
  C39. Work conservation: as long as the scheduler accepts requests, the head of its queue waits only
  for a reason (an exclusive item runs, a cancellation is in progress, the head is exclusive and items
  are active, or the concurrency limit is reached); in particular, when nothing is active nothing waits.
\<close>

theorem scheduler_work_conserving:
  assumes "new_scheduler m n = Inr s0" "sched_reachable sha s0 s" "sc_accepting s"
  shows "blocked s \<and> (sc_active s = [] \<longrightarrow> sc_queue s = [])"
proof -
  have "sched_reachable sha s0 s \<Longrightarrow> sc_accepting s \<Longrightarrow> blocked s" for s
  proof (induction rule: sched_reachable.induct)
    case sched_initial
    show ?case using assms(1) by (auto simp: new_scheduler_def blocked_def split: if_splits)
  next
    case (sched_further s s')
    then show ?case using sched_step_blocked by blast
  qed
  then have b: "blocked s" using assms(2,3) by blast
  have ok: "sched_ok s" using sched_reachable_ok[OF assms(2) new_scheduler_ok[OF assms(1)]] .
  have "sc_queue s = []" if "sc_active s = []"
    using b ok that by (auto simp: blocked_def sched_ok_def limits_ok_def running_def cancelling_def)
  then show ?thesis using b by blast
qed

subsection \<open>A lost wake-up after closing\<close>

definition plain_request :: sched_request where
  "plain_request = \<lparr>sr_valid = True, sr_tool = JStr ''t'', sr_key = JUndef, sr_signal = SNone\<rparr>"

definition cancelled_answer :: js where
  "cancelled_answer = env_js (failureEnvelope (governed ''EXECUTION_CANCELLED'' ''Execution cancelled before provider dispatch'') None [] [])"

definition first_active :: "scheduler \<Rightarrow> sched_item" where
  "first_active s = hd (sc_active s)"

definition lost_0 :: scheduler where
  "lost_0 = (case new_scheduler 1 4 of Inr s \<Rightarrow> s)"

definition lost_1 :: "scheduler" where
  "lost_1 = fold (\<lambda>_ s. fst (enqueue id s plain_request (Some (False, True)))) [1::nat, 2, 3] lost_0"

definition lost_2 :: scheduler where
  "lost_2 = close_scheduler (fst (handle_cancel lost_1 2)) False False"

definition lost_3 :: scheduler where
  "lost_3 = (let s = run_result lost_2 (first_active lost_2) (Inr cancelled_answer) in run_finally s (first_active s))"

definition lost_4 :: scheduler where
  "lost_4 = (let s = cancel_outcome lost_3 (first_active lost_3) (Inr cancelled_answer) in cancel_finally s (first_active s))"

lemma lost_2_active: "map (\<lambda>x. (it_id x, it_state x, it_result x)) (sc_active lost_2) = [(0, Running, None), (2, Cancelling, None)]"
  by code_simp

lemma lost_3_active: "map (\<lambda>x. (it_id x, it_state x, it_result x)) (sc_active lost_3) = [(2, Cancelling, None)]"
  by code_simp

lemma lost_4_stuck: "map it_id (sc_queue lost_4) = [1] \<and> sc_active lost_4 = [] \<and> sc_waiters lost_4 = 1"
  by code_simp

lemma enqueue_reachable:
  "sched_reachable sha s0 s \<Longrightarrow> sched_reachable sha s0 (fst (enqueue sha s q c))"
  by (cases "enqueue sha s q c") (auto intro: sched_further s_enqueue)

lemma handle_cancel_reachable: "sched_reachable sha s0 s \<Longrightarrow> sched_reachable sha s0 (fst (handle_cancel s i))"
  by (cases "handle_cancel s i") (auto intro: sched_further s_cancel)

lemma change_first: "sc_active s = x # xs \<Longrightarrow> first_active (deliver s (it_id x) v) = x\<lparr>it_result := Some v\<rparr>"
  by (simp add: first_active_def deliver_def change_def)

lemma run_reachable:
  assumes "sched_reachable sha s0 s" "sc_active s = x # xs" "it_state x = Running" "it_result x = None"
  shows "sched_reachable sha s0 (run_finally (run_result s x a) (first_active (run_result s x a)))"
proof -
  have r: "sched_reachable sha s0 (run_result s x a)"
    by (rule sched_further[OF assms(1) s_result]) (simp_all add: assms)
  have "first_active (run_result s x a) \<in> set (sc_active (run_result s x a)) \<and>
      it_state (first_active (run_result s x a)) = Running \<and> it_result (first_active (run_result s x a)) \<noteq> None"
    using assms(2,3)
    by (auto simp: run_result_def first_active_def deliver_def change_def count_failed_def count_completed_def split: sum.split)
  then show ?thesis by (intro sched_further[OF r s_finally]) auto
qed

lemma cancel_reachable:
  assumes "sched_reachable sha s0 s" "sc_active s = x # xs" "it_state x = Cancelling" "it_result x = None"
  shows "sched_reachable sha s0 (cancel_finally (cancel_outcome s x a) (first_active (cancel_outcome s x a)))"
proof -
  have r: "sched_reachable sha s0 (cancel_outcome s x a)"
    by (rule sched_further[OF assms(1) s_outcome]) (simp_all add: assms)
  have "first_active (cancel_outcome s x a) \<in> set (sc_active (cancel_outcome s x a)) \<and>
      it_state (first_active (cancel_outcome s x a)) = Cancelling \<and> it_result (first_active (cancel_outcome s x a)) \<noteq> None"
    using assms(2,3)
    by (auto simp: cancel_outcome_def first_active_def deliver_def change_def count_failed_def count_rejected_def halt_def Let_def
        split: sum.split list.split)
  then show ?thesis by (intro sched_further[OF r s_released]) auto
qed

text \<open>
  Closing can hang: there is a reachable state of a scheduler in which nothing is active, an item
  waits, the scheduler is closed and the promise of \<open>close\<close> is pending. No completion is left that
  could start the item or resolve the promise: the release of the last cancellation, once the scheduler
  is closed, only tries to resolve the drain and does not look at the queue.
\<close>

theorem closing_can_hang:
  "\<exists>s0 s. new_scheduler 1 4 = Inr s0 \<and> sched_reachable id s0 s \<and> \<not> sc_accepting s \<and>
     sc_queue s \<noteq> [] \<and> sc_active s = [] \<and> 0 < sc_waiters s"
proof -
  have "sched_reachable id lost_0 lost_1"
    unfolding lost_1_def by (simp add: enqueue_reachable sched_initial)
  then have r2: "sched_reachable id lost_0 lost_2"
    unfolding lost_2_def by (intro sched_further[OF handle_cancel_reachable s_close])
  obtain x xs where x: "sc_active lost_2 = x # xs" "it_state x = Running" "it_result x = None"
    using lost_2_active by (cases "sc_active lost_2") auto
  have r3: "sched_reachable id lost_0 lost_3"
    using run_reachable[OF r2 x] x(1) by (simp add: lost_3_def Let_def first_active_def)
  obtain y ys where y: "sc_active lost_3 = y # ys" "it_state y = Cancelling" "it_result y = None"
    using lost_3_active by (cases "sc_active lost_3") auto
  have r4: "sched_reachable id lost_0 lost_4"
    using cancel_reachable[OF r3 y] y(1) by (simp add: lost_4_def Let_def first_active_def)
  have "new_scheduler 1 4 = Inr lost_0" by (simp add: lost_0_def new_scheduler_def)
  moreover have "\<not> sc_accepting lost_4" by code_simp
  ultimately show ?thesis using r4 lost_4_stuck by (intro exI[of _ lost_0] exI[of _ lost_4]) auto
qed

subsection \<open>Every accepted item is answered once\<close>

definition answered :: "scheduler \<Rightarrow> nat set" where
  "answered s = fst ` set (sc_results s)"

definition held :: "scheduler \<Rightarrow> nat set" where
  "held s = it_id ` set (sc_queue s) \<union> it_id ` set (sc_active s)"

definition results_ok :: "scheduler \<Rightarrow> bool" where
  "results_ok s \<longleftrightarrow>
     distinct (map fst (sc_results s)) \<and> (\<forall>i \<in> answered s. i < sc_next s) \<and>
     (\<forall>x \<in> set (sc_queue s). it_result x = None \<and> it_id x \<notin> answered s) \<and>
     (\<forall>x \<in> set (sc_active s). it_result x = None \<longleftrightarrow> it_id x \<notin> answered s)"

definition accounted :: "scheduler \<Rightarrow> bool" where
  "accounted s \<longleftrightarrow> (\<forall>i < sc_next s. i \<in> held s \<union> answered s)"

lemmas acc_defs = results_ok_def accounted_def answered_def held_def

text \<open>Steps that keep the results, the identifiers and the held items keep both.\<close>

definition same_account :: "scheduler \<Rightarrow> scheduler \<Rightarrow> bool" where
  "same_account s t \<longleftrightarrow> sc_results t = sc_results s \<and> sc_next t = sc_next s \<and>
     (\<lambda>x. (it_id x, it_result x)) ` (set (sc_queue t) \<union> set (sc_active t)) =
       (\<lambda>x. (it_id x, it_result x)) ` (set (sc_queue s) \<union> set (sc_active s)) \<and>
     it_id ` set (sc_queue t) \<subseteq> it_id ` set (sc_queue s)"

lemma results_pairs:
  "results_ok s \<longleftrightarrow> distinct (map fst (sc_results s)) \<and> (\<forall>i \<in> answered s. i < sc_next s) \<and>
     (\<forall>i \<in> it_id ` set (sc_queue s). i \<notin> answered s) \<and>
     (\<forall>p \<in> (\<lambda>x. (it_id x, it_result x)) ` (set (sc_queue s) \<union> set (sc_active s)). snd p = None \<longleftrightarrow> fst p \<notin> answered s)"
  by (auto simp: results_ok_def)

lemma held_pairs: "held s = fst ` (\<lambda>x. (it_id x, it_result x)) ` (set (sc_queue s) \<union> set (sc_active s))"
  by (auto simp: held_def image_iff)

lemma same_account_keeps:
  assumes "same_account s t"
  shows "results_ok s \<Longrightarrow> results_ok t" "accounted t = accounted s"
proof -
  have a: "answered t = answered s" using assms by (simp add: same_account_def answered_def)
  have h: "held t = held s" using assms unfolding held_pairs same_account_def by simp
  show "accounted t = accounted s" using assms a h by (simp add: accounted_def same_account_def)
  show "results_ok s \<Longrightarrow> results_ok t"
    using assms a unfolding results_pairs same_account_def by (auto simp: subset_iff)
qed

lemma same_account_trans: "same_account a b \<Longrightarrow> same_account b c \<Longrightarrow> same_account a c"
  unfolding same_account_def by (metis order_trans)

lemma same_account_refl [simp]: "same_account s s"
  by (simp add: same_account_def)

lemma same_account_counters [simp]:
  "same_account s (refuse t) = same_account s t" "same_account s (count_cancelled t) = same_account s t"
  "same_account s (count_completed t) = same_account s t" "same_account s (count_failed t) = same_account s t"
  "same_account s (count_rejected t) = same_account s t" "same_account s (resolveDrain t) = same_account s t"
  "same_account s (drain t) = same_account s t" "same_account s (t\<lparr>sc_accepting := b\<rparr>) = same_account s t"
  by (auto simp: same_account_def refuse_def count_cancelled_def count_completed_def count_failed_def
      count_rejected_def resolveDrain_def drain_def)

lemma same_account_start: "sc_queue s = x # rest \<Longrightarrow> same_account s (start_item (s\<lparr>sc_queue := rest\<rparr>) x)"
  by (auto simp: same_account_def start_item_def)

lemma same_account_pump_loop: "same_account s (pump_loop s)"
proof (induction s rule: pump_loop.induct)
  case (1 s)
  then show ?case
    by (cases "sc_queue s")
      (auto simp: pump_loop.simps[of s] same_account_start intro: same_account_trans[OF same_account_start])
qed

lemma same_account_pump [simp]: "same_account s t \<Longrightarrow> same_account s (pump t)"
  using same_account_pump_loop same_account_trans by (auto simp: pump_def)

lemma same_account_cancel_queued:
  assumes "sched_ok s"
  shows "same_account s (fst (cancel_queued s i p))"
proof (cases "find_item (sc_queue s) i")
  case (Some x)
  have x: "x \<in> set (sc_queue s)" "it_id x = i" using find_item_Some[OF Some] by auto
  have "distinct (map it_id (sc_queue s))" using assms by (simp add: ok_defs)
  then have w: "set (without (sc_queue s) i) = set (sc_queue s) - {x}" using set_without x by blast
  have "same_account s (s\<lparr>sc_queue := without (sc_queue s) i,
     sc_active := sc_active s @ [x\<lparr>it_cancelled := True, it_state := Cancelling, it_aborted := True\<rparr>],
     sc_barriers := Suc (sc_barriers s)\<rparr>)"
    using x(1) by (auto simp: same_account_def w image_iff)
  then show ?thesis by (simp add: cancel_queued_def Some Let_def)
qed (simp add: cancel_queued_def)

lemma same_account_change:
  assumes "\<And>x. it_id (f x) = it_id x" "\<And>x. it_result (f x) = it_result x"
  shows "same_account s (s\<lparr>sc_queue := change i f (sc_queue s), sc_active := change i f (sc_active s)\<rparr>)"
    and "same_account s (s\<lparr>sc_active := change i f (sc_active s)\<rparr>)"
proof -
  have "(\<lambda>x. (it_id x, it_result x)) ` set (change i f xs) = (\<lambda>x. (it_id x, it_result x)) ` set xs" for xs
    unfolding change_def set_map image_image using assms by (intro image_cong) auto
  moreover have "it_id ` set (change i f xs) = it_id ` set xs" for xs
    unfolding change_def set_map image_image using assms by (intro image_cong) auto
  ultimately show "same_account s (s\<lparr>sc_queue := change i f (sc_queue s), sc_active := change i f (sc_active s)\<rparr>)"
    and "same_account s (s\<lparr>sc_active := change i f (sc_active s)\<rparr>)"
    by (simp_all add: same_account_def image_Un)
qed

lemma same_account_cancel_from_signal: "sched_ok s \<Longrightarrow> same_account s (cancel_from_signal s i)"
  by (simp add: cancel_from_signal_def same_account_cancel_queued split: option.split)

lemma same_account_cancel_all_queued: "sched_ok s \<Longrightarrow> same_account s (cancel_all_queued s xs)"
proof (induction xs arbitrary: s)
  case (Cons x xs)
  let ?s = "if it_cancelled x then s else if \<not> it_cancellable x then refuse s else fst (cancel_queued s (it_id x) False)"
  have "same_account s ?s" "sched_ok ?s"
    using Cons.prems by (simp_all add: same_account_cancel_queued cancel_queued_ok)
  with Cons.IH show ?case by (auto intro: same_account_trans simp del: same_account_counters)
qed simp

lemma same_account_cancel_all_running: "same_account s (cancel_all_running s xs)"
proof (induction xs arbitrary: s)
  case (Cons x xs)
  let ?s = "if it_cancelled x then s else if \<not> it_cancellable x then refuse s
            else count_cancelled (s\<lparr>sc_active := change (it_id x) abort_running (sc_active s)\<rparr>)"
  have "same_account s ?s" by (simp add: same_account_change(2) abort_running_def)
  with Cons.IH show ?case by (auto intro: same_account_trans simp del: same_account_counters)
qed simp

lemma deliver_account:
  assumes "sched_ok s" "results_ok s" "x \<in> set (sc_active s)" "it_result x = None"
  shows "results_ok (deliver s (it_id x) v)" "accounted (deliver s (it_id x) v) = accounted s"
proof -
  have d: "\<forall>y \<in> set (sc_queue s). it_id y \<noteq> it_id x" "it_id x < sc_next s"
    using assms(1,3) by (auto simp: ok_defs)
  have n: "it_id x \<notin> answered s" using assms(2-4) by (auto simp: results_ok_def)
  have ids: "it_id ` set (change i (\<lambda>x. x\<lparr>it_result := Some v\<rparr>) xs) = it_id ` set xs" for i xs
    unfolding change_def set_map image_image by (intro image_cong) auto
  have a: "answered (deliver s (it_id x) v) = insert (it_id x) (answered s)" by (simp add: answered_def deliver_def)
  have ac: "it_result y = None \<longleftrightarrow> it_id y \<notin> insert (it_id x) (answered s)"
    if "y \<in> set (sc_active (deliver s (it_id x) v))" for y
    using that assms(2) by (auto simp: deliver_def change_def results_ok_def split: if_splits)
  have dr: "distinct (map fst (sc_results (deliver s (it_id x) v)))"
    using n assms(2) by (simp add: deliver_def results_ok_def answered_def)
  have q: "sc_queue (deliver s (it_id x) v) = sc_queue s" "sc_next (deliver s (it_id x) v) = sc_next s"
    by (simp_all add: deliver_def)
  show "results_ok (deliver s (it_id x) v)"
    unfolding results_ok_def a q using dr ac d assms(2) by (auto simp: results_ok_def)
  have h: "held (deliver s (it_id x) v) = held s" by (simp add: held_def deliver_def ids)
  have "it_id x \<in> held s" using assms(3) by (simp add: held_def)
  then show "accounted (deliver s (it_id x) v) = accounted s"
    unfolding accounted_def a h q by auto
qed

lemma release_account:
  assumes "sched_ok s" "results_ok s" "x \<in> set (sc_active s)" "it_result x \<noteq> None"
    "sc_results t = sc_results s" "sc_next t = sc_next s" "sc_queue t = sc_queue s" "sc_active t = without (sc_active s) (it_id x)"
  shows "results_ok t" "accounted s \<Longrightarrow> accounted t"
proof -
  have "distinct (map it_id (sc_active s))" using assms(1) by (simp add: ok_defs)
  then have w: "set (sc_active t) = set (sc_active s) - {x}" using set_without assms(3,8) by simp
  show "results_ok t" using assms(2,5-7) w by (auto simp: results_ok_def answered_def)
  have "it_id x \<in> answered s" using assms(2-4) by (auto simp: results_ok_def)
  moreover have "held s \<subseteq> insert (it_id x) (held t)" using assms(7) w by (auto simp: held_def)
  moreover have "answered t = answered s" using assms(5) by (simp add: answered_def)
  ultimately show "accounted s \<Longrightarrow> accounted t" using assms(6) by (auto simp: accounted_def)
qed

definition account_ok :: "scheduler \<Rightarrow> bool" where
  "account_ok s \<longleftrightarrow> results_ok s \<and> (sc_accepting s \<longrightarrow> accounted s)"

lemma same_account_ok:
  "same_account s t \<Longrightarrow> (sc_accepting t \<longrightarrow> sc_accepting s) \<Longrightarrow> account_ok s \<Longrightarrow> account_ok t"
  using same_account_keeps by (auto simp: account_ok_def)

lemma resolveDrain_accepting [simp]: "sc_accepting (resolveDrain s) = sc_accepting s"
  by (simp add: resolveDrain_def)

lemma counters_active [simp]:
  "sc_active (count_failed s) = sc_active s" "sc_active (count_completed s) = sc_active s"
  by (simp_all add: count_failed_def count_completed_def)

text \<open>Halting answers the queued items, none of which had been answered.\<close>

lemma halt_account:
  assumes "sched_ok s" "results_ok s"
  shows "account_ok (halt s t)"
proof -
  let ?ids = "it_id ` set (sc_queue s)"
  have d: "distinct (map it_id (sc_queue s))" "\<forall>x \<in> set (sc_active s). it_id x \<notin> ?ids" "\<forall>i \<in> ?ids. i < sc_next s"
    using assms(1) by (auto simp: ok_defs)
  have r: "\<forall>i \<in> ?ids. i \<notin> answered s" using assms(2) by (auto simp: results_ok_def)
  have "results_ok (halt s t)"
  proof (cases "nil_thrown t")
    case True
    then show ?thesis
      using assms(2) by (auto simp: halt_def Let_def results_ok_def answered_def count_rejected_def split: list.split)
  next
    case False
    have a: "answered (halt s t) = answered s \<union> ?ids"
      using False by (simp add: halt_def Let_def answered_def image_Un image_image)
    have "map fst (sc_results (halt s t)) = map fst (sc_results s) @ map it_id (sc_queue s)"
      using False by (simp add: halt_def Let_def o_def)
    moreover have "set (map fst (sc_results s)) = answered s" by (simp add: answered_def)
    ultimately have "distinct (map fst (sc_results (halt s t)))"
      using d(1) r assms(2) by (auto simp: results_ok_def)
    moreover have "sc_queue (halt s t) = []" "sc_active (halt s t) = sc_active s" "sc_next (halt s t) = sc_next s"
      using False by (simp_all add: halt_def Let_def)
    ultimately show ?thesis unfolding results_ok_def a using d assms(2) by (auto simp: results_ok_def)
  qed
  then show ?thesis by (simp add: account_ok_def)
qed

lemma enqueue_account:
  assumes "sched_ok s" "account_ok s" "enqueue sha s q c = (s', h)"
  shows "account_ok s'"
proof (cases "\<exists>e. h = Rejected e")
  case True
  then have "s' = count_rejected s"
    using assms(3) by (auto simp: enqueue_def reject_def Let_def split: if_splits prod.splits)
  then show ?thesis using assms(2) same_account_ok[of s s'] by simp
next
  case False
  define push where "push x = s\<lparr>sc_queue := sc_queue s @ [x], sc_next := Suc (sc_next s)\<rparr>" for x
  have room: "length (sc_queue s) < sc_max_queue s"
    using assms(3) False by (auto simp: enqueue_def reject_def Let_def split: if_splits)
  have ok: "sched_ok (push x)" if "it_id x = sc_next s" "fresh_item x" for x
    using push_ok[OF assms(1) room that] by (simp add: push_def)
  have acc: "account_ok (push x)" if "it_id x = sc_next s" "fresh_item x" for x
    using assms(2) that by (auto simp: push_def account_ok_def acc_defs fresh_item_def less_Suc_eq)
  have "\<exists>x b. it_id x = sc_next s \<and> fresh_item x \<and>
      (s' = (if b then cancel_from_signal (push x) (it_id x) else push x) \<or>
       s' = pump (if b then cancel_from_signal (push x) (it_id x) else push x))"
  proof -
    obtain e k where ek: "(case c of None \<Rightarrow> (True, True) | Some c \<Rightarrow> c) = (e, k)" by fastforce
    let ?x = "\<lparr>it_id = sc_next s, it_operation = operationIdFor sha q, it_exclusive = e, it_cancellable = k,
       it_cancelled = False, it_aborted = False,
       it_external = (case sr_signal q of SNone \<Rightarrow> NoExternal | SAborted \<Rightarrow> Aborted | _ \<Rightarrow> Live),
       it_state = Queued, it_result = None\<rparr>"
    show ?thesis
      using assms(3) False ek
      by (intro exI[of _ ?x] exI[of _ "sr_signal q = SAborted"])
        (auto simp: enqueue_def reject_def Let_def fresh_item_def push_def split: if_splits)
  qed
  then obtain x b where x: "it_id x = sc_next s" "fresh_item x"
    and s': "s' = (if b then cancel_from_signal (push x) (it_id x) else push x) \<or>
       s' = pump (if b then cancel_from_signal (push x) (it_id x) else push x)" by blast
  have "same_account (push x) s'"
    using s' same_account_cancel_from_signal[OF ok[OF x]] by auto
  moreover have "sc_accepting s' = sc_accepting (push x)" using s' by (cases b) auto
  ultimately show ?thesis using acc[OF x] same_account_ok by blast
qed

lemma run_result_account:
  assumes "sched_ok s" "account_ok s" "x \<in> set (sc_active s)" "it_result x = None"
  shows "account_ok (run_result s x a)"
proof -
  have d: "account_ok (deliver t (it_id x) v)"
    if "sched_ok t" "account_ok t" "sc_active t = sc_active s" for t v
    using deliver_account[of t x v] assms(3,4) that by (simp add: account_ok_def)
  have c: "account_ok (count_failed s)" "account_ok (count_completed s)"
    using assms(2) by (auto intro: same_account_ok[of s])
  show ?thesis
    using assms(1) c by (simp add: run_result_def d split: sum.split)
qed

lemma cancel_outcome_account:
  assumes "sched_ok s" "account_ok s" "x \<in> set (sc_active s)" "it_result x = None"
  shows "account_ok (cancel_outcome s x a)"
proof -
  have c: "results_ok (count_failed s)"
    using assms(2) same_account_keeps(1)[of s "count_failed s"] by (simp add: account_ok_def)
  have f: "results_ok (deliver (count_failed s) (it_id x) v)" "sched_ok (deliver (count_failed s) (it_id x) v)" for v
    using deliver_account(1)[of "count_failed s" x v] deliver_ok[of "count_failed s"] assms c by simp_all
  show ?thesis
    using assms deliver_account[of s x] halt_account[OF f(2,1)]
    by (simp add: cancel_outcome_def account_ok_def split: sum.split)
qed

lemma sched_step_account: "sched_step sha s s' \<Longrightarrow> sched_ok s \<Longrightarrow> account_ok s \<Longrightarrow> account_ok s'"
proof (induction rule: sched_step.induct)
  case (s_enqueue s q c s' h)
  then show ?case using enqueue_account by blast
next
  case (s_abort s i)
  let ?f = "\<lambda>x. x\<lparr>it_external := Aborted\<rparr>"
  let ?t = "s\<lparr>sc_queue := change i ?f (sc_queue s), sc_active := change i ?f (sc_active s)\<rparr>"
  have "sched_ok (s\<lparr>sc_queue := change i ?f (sc_queue s)\<rparr>)"
    using s_abort by (intro change_queue_ok) (auto simp: fresh_item_def)
  from change_ok[OF this, of ?f i] have "sched_ok ?t" by (simp add: harmless_def)
  then have "same_account s (signal_fired s i)"
    unfolding signal_fired_def
    by (intro same_account_trans[OF same_account_change(1) same_account_cancel_from_signal]) simp_all
  moreover have "sc_accepting (signal_fired s i) = sc_accepting s" by (simp add: signal_fired_def)
  ultimately show ?case
    using same_account_ok[of s "signal_fired s i"] external_abort_cases[of s i] s_abort by auto
next
  case (s_cancel s i s' b)
  have "s' = s \<or> s' = refuse s \<or> s' = fst (cancel_queued s i True) \<or>
      s' = count_cancelled (s\<lparr>sc_active := change i abort_running (sc_active s)\<rparr>)"
    using s_cancel(1) by (auto simp: handle_cancel_def split: option.splits if_splits)
  moreover have "same_account s (s\<lparr>sc_active := change i abort_running (sc_active s)\<rparr>)"
    by (rule same_account_change(2)) (simp_all add: abort_running_def)
  ultimately have "same_account s s'" "sc_accepting s' = sc_accepting s"
    using same_account_cancel_queued[OF s_cancel(2)] by auto
  then show ?case using s_cancel(3) same_account_ok by blast
next
  case (s_close s queued running)
  let ?c = "s\<lparr>sc_accepting := False\<rparr>"
  have q: "same_account ?c (if queued then pump (cancel_all_queued ?c (sc_queue ?c)) else ?c)"
    using s_close by (simp add: same_account_cancel_all_queued)
  have "same_account s ?c" by simp
  from same_account_trans[OF this q] have "same_account s (close_scheduler s queued running)"
    using same_account_trans[OF _ same_account_cancel_all_running] by (simp add: close_scheduler_def Let_def)
  moreover have "\<not> sc_accepting (close_scheduler s queued running)"
    by (simp add: close_scheduler_def Let_def)
  ultimately show ?case using same_account_ok[of s "close_scheduler s queued running"] s_close by blast
next
  case (s_drain s)
  then show ?case by (intro same_account_ok[of s "drain s"]) simp_all
next
  case (s_result x s answer)
  then show ?case using run_result_account by blast
next
  case (s_finally x s)
  let ?t = "s\<lparr>sc_active := without (sc_active s) (it_id x), sc_exclusive := (if it_exclusive x then False else sc_exclusive s)\<rparr>"
  have "account_ok ?t" using s_finally release_account[of s x ?t] by (simp add: account_ok_def)
  then show ?case unfolding run_finally_def by (rule same_account_ok[rotated 2]) simp_all
next
  case (s_outcome x s answer)
  then show ?case using cancel_outcome_account by blast
next
  case (s_released x s)
  let ?t = "s\<lparr>sc_active := without (sc_active s) (it_id x), sc_barriers := sc_barriers s - 1\<rparr>"
  have t: "account_ok ?t" using s_released release_account[of s x ?t] by (simp add: account_ok_def)
  show ?case
    unfolding cancel_finally_def Let_def
    by (rule same_account_ok[OF _ _ t]) simp_all
qed

text \<open>
  C23. Every accepted request is answered at most once, and none is forgotten: in every reachable state
  the identifiers of the delivered results are distinct, an item that still waits has no result, and as
  long as the scheduler accepts requests every accepted item is waiting, active or answered.
\<close>

theorem scheduler_answers_once:
  assumes "new_scheduler m n = Inr s0" "sched_reachable sha s0 s"
  shows "distinct (map fst (sc_results s)) \<and> (\<forall>x \<in> set (sc_queue s). it_id x \<notin> fst ` set (sc_results s)) \<and>
     (sc_accepting s \<longrightarrow> (\<forall>i < sc_next s. i \<in> it_id ` set (sc_queue s @ sc_active s) \<union> fst ` set (sc_results s)))"
proof -
  have "account_ok s"
    using assms(2)
  proof (induction rule: sched_reachable.induct)
    case sched_initial
    show ?case using assms(1) by (auto simp: new_scheduler_def account_ok_def acc_defs split: if_splits)
  next
    case (sched_further s s')
    then show ?case
      using sched_step_account sched_reachable_ok[OF _ new_scheduler_ok[OF assms(1)]] by blast
  qed
  then show ?thesis by (auto simp: account_ok_def acc_defs)
qed

text \<open>Witnesses: a scheduler for one running item, with three requests enqueued.\<close>

lemma lost_0_new: "new_scheduler 1 4 = Inr lost_0"
  by (simp add: lost_0_def new_scheduler_def)

lemma lost_1_reachable: "sched_reachable id lost_0 lost_1"
  unfolding lost_1_def by (simp add: enqueue_reachable sched_initial)

lemma lost_1_state: "map it_id (running lost_1) = [0] \<and> map it_id (sc_queue lost_1) = [1, 2] \<and> sc_accepting lost_1"
proof -
  have "map it_id (sc_queue lost_1) = [1, 2]" by code_simp
  moreover have "map (\<lambda>x. (it_id x, it_state x)) (sc_active lost_1) = [(0, Running)]" by code_simp
  moreover have "sc_accepting lost_1" by code_simp
  ultimately show ?thesis by (auto simp: running_def)
qed

theorem scheduler_limits_witness: "length (running lost_1) \<le> sc_max_concurrency lost_1 \<and> sc_queue lost_1 \<noteq> []"
  using scheduler_limits[OF lost_0_new lost_1_reachable] lost_1_state by auto

theorem scheduler_work_conserving_witness: "blocked lost_1 \<and> map it_id (sc_queue lost_1) = [1, 2]"
  using scheduler_work_conserving[OF lost_0_new lost_1_reachable] lost_1_state by simp

theorem scheduler_answers_once_witness: "distinct (map fst (sc_results lost_1)) \<and> sc_accepting lost_1"
  using scheduler_answers_once[OF lost_0_new lost_1_reachable] lost_1_state by simp

end
