(* ===== verification/JsonText.thy ===== *)
theory JsonText
  imports StrictJson
begin

text \<open>
  JSON as text, where a component compares, measures or hashes the text itself: \<open>JSON.stringify\<close> of
  a primitive value, \<open>JSON.parse\<close>, and the recursive printer with sorted keys that
  \<open>packages/agent-session-store/replay.js\<close> (\<open>canonicalJson\<close>) and
  \<open>packages/agent-runtime-contracts/compaction-contracts.js\<close> (\<open>canonicalToolJson\<close>) share.

  A string is the list of its UTF-8 bytes, so \<open>Buffer.byteLength\<close> is its length. Numbers are
  exact decimals: the model agrees with the language for integers below \<open>2 ^ 53\<close> and for
  decimals of at most fifteen significant digits in the range printed without an exponent.
\<close>

subsection \<open>Printing\<close>

definition hex_char :: "nat \<Rightarrow> char" where
  "hex_char n = (if n < 10 then char_of (48 + n) else char_of (87 + n))"

definition escape_char :: "char \<Rightarrow> string" where
  "escape_char c =
     (if c = CHR 0x22 then [CHR 0x5C, CHR 0x22]
      else if c = CHR 0x5C then [CHR 0x5C, CHR 0x5C]
      else if c = CHR 0x08 then [CHR 0x5C, CHR ''b'']
      else if c = CHR 0x0C then [CHR 0x5C, CHR ''f'']
      else if c = CHR 0x0A then [CHR 0x5C, CHR ''n'']
      else if c = CHR 0x0D then [CHR 0x5C, CHR ''r'']
      else if c = CHR 0x09 then [CHR 0x5C, CHR ''t'']
      else if (of_char c :: nat) < 32
      then [CHR 0x5C, CHR ''u'', CHR ''0'', CHR ''0'', hex_char (of_char c div 16), hex_char (of_char c mod 16)]
      else [c])"

definition quote_json :: "string \<Rightarrow> string" where
  "quote_json s = CHR 0x22 # concat (map escape_char s) @ [CHR 0x22]"

fun join_comma :: "string list \<Rightarrow> string" where
  "join_comma [] = []"
| "join_comma [x] = x"
| "join_comma (x # xs) = x @ CHR '','' # join_comma xs"

definition member_text :: "string \<times> string \<Rightarrow> string" where
  "member_text kt = quote_json (fst kt) @ CHR '':'' # snd kt"

fun canonicalJson :: "js \<Rightarrow> string"
  and canonical_items :: "js list \<Rightarrow> string list"
  and canonical_fields :: "fields \<Rightarrow> (string \<times> string) list" where
  "canonicalJson (JArr xs) = CHR ''['' # join_comma (canonical_items xs) @ '']''"
| "canonicalJson (JObj fs) = CHR ''{'' # join_comma (map member_text (sort_key fst (canonical_fields fs))) @ ''}''"
| "canonicalJson (JStr s) = quote_json s"
| "canonicalJson JUndef = ''undefined''"
| "canonicalJson JFun = ''undefined''"
| "canonicalJson JNaN = ''null''"
| "canonicalJson (JInf b) = ''null''"
| "canonicalJson v = js_show v"
| "canonical_items [] = []"
| "canonical_items (x # xs) = (if x = JUndef \<or> x = JFun then [] else canonicalJson x) # canonical_items xs"
| "canonical_fields [] = []"
| "canonical_fields ((k, v) # fs) = (k, canonicalJson v) # canonical_fields fs"

subsection \<open>Parsing\<close>

definition json_space :: "char \<Rightarrow> bool" where
  "json_space c \<longleftrightarrow> c = CHR '' '' \<or> c = CHR 0x09 \<or> c = CHR 0x0A \<or> c = CHR 0x0D"

definition skip_space :: "string \<Rightarrow> string" where
  "skip_space s = dropWhile json_space s"

definition hex_value :: "char \<Rightarrow> nat" where
  "hex_value c = (if digit c then of_char c - 48 else if CHR ''a'' \<le> c then of_char c - 87 else of_char c - 55)"

definition hex4 :: "char \<Rightarrow> char \<Rightarrow> char \<Rightarrow> char \<Rightarrow> nat option" where
  "hex4 a b c d =
     (if list_all hex_digit [a, b, c, d]
      then Some (((hex_value a * 16 + hex_value b) * 16 + hex_value c) * 16 + hex_value d) else None)"

definition utf8 :: "nat \<Rightarrow> string" where
  "utf8 n =
     (if n < 128 then [char_of n]
      else if n < 2048 then [char_of (192 + n div 64), char_of (128 + n mod 64)]
      else if n < 65536 then [char_of (224 + n div 4096), char_of (128 + n div 64 mod 64), char_of (128 + n mod 64)]
      else [char_of (240 + n div 262144), char_of (128 + n div 4096 mod 64), char_of (128 + n div 64 mod 64), char_of (128 + n mod 64)])"

fun simple_escape :: "char \<Rightarrow> char option" where
  "simple_escape c =
     (if c \<in> {CHR 0x22, CHR 0x5C, CHR ''/''} then Some c
      else if c = CHR ''b'' then Some (CHR 0x08)
      else if c = CHR ''f'' then Some (CHR 0x0C)
      else if c = CHR ''n'' then Some (CHR 0x0A)
      else if c = CHR ''r'' then Some (CHR 0x0D)
      else if c = CHR ''t'' then Some (CHR 0x09)
      else None)"

definition cons_text :: "string \<Rightarrow> (string \<times> string) option \<Rightarrow> (string \<times> string) option" where
  "cons_text t r = map_option (\<lambda>(s, rest). (t @ s, rest)) r"

text \<open>The unit that follows a high surrogate, when it is a low one.\<close>

fun low_surrogate :: "string \<Rightarrow> (nat \<times> string) option" where
  "low_surrogate (a # b # c # d # e # f # s) =
     (if a = CHR 0x5C \<and> b = CHR ''u''
      then (case hex4 c d e f of None \<Rightarrow> None | Some n \<Rightarrow> if 56320 \<le> n \<and> n < 57344 then Some (n, s) else None)
      else None)"
| "low_surrogate _ = None"

lemma low_surrogate_shorter: "low_surrogate s = Some (n, r) \<Longrightarrow> length r < length s"
  by (induction s rule: low_surrogate.induct) (auto split: if_splits option.splits)

text \<open>The rest of a string literal, after its opening quote.\<close>

function parse_string :: "string \<Rightarrow> (string \<times> string) option" where
  "parse_string [] = None"
| "parse_string [c] = (if c = CHR 0x22 then Some ([], []) else None)"
| "parse_string (c # d # s) =
     (if c = CHR 0x22 then Some ([], d # s)
      else if (of_char c :: nat) < 32 then None
      else if c \<noteq> CHR 0x5C then cons_text [c] (parse_string (d # s))
      else if d \<noteq> CHR ''u''
      then (case simple_escape d of None \<Rightarrow> None | Some e \<Rightarrow> cons_text [e] (parse_string s))
      else (case s of
              h1 # h2 # h3 # h4 # r \<Rightarrow>
                (case hex4 h1 h2 h3 h4 of
                   None \<Rightarrow> None
                 | Some n \<Rightarrow>
                     (case (if 55296 \<le> n \<and> n < 56320 then low_surrogate r else None) of
                        None \<Rightarrow> cons_text (utf8 n) (parse_string r)
                      | Some (m, r') \<Rightarrow> cons_text (utf8 (65536 + (n - 55296) * 1024 + (m - 56320))) (parse_string r')))
            | _ \<Rightarrow> None))"
  by pat_completeness auto

termination
  by (relation "measure length") (auto dest!: low_surrogate_shorter split: if_splits)

text \<open>Numbers: sign, integer digits without a leading zero, fraction, exponent.\<close>

function mk_decimal :: "int \<Rightarrow> nat \<Rightarrow> js" where
  "mk_decimal m k = (if k = 0 then JNum m else if m mod 10 = 0 then mk_decimal (m div 10) (k - 1) else JFrac m k)"
  by auto

termination
  by (relation "measure snd") auto

declare mk_decimal.simps [simp del]

definition parse_fraction :: "string \<Rightarrow> (string \<times> string) option" where
  "parse_fraction s =
     (case s of
        c # r \<Rightarrow> if c = CHR ''.'' then (if takeWhile digit r = [] then None else Some (takeWhile digit r, dropWhile digit r))
                 else Some ([], s)
      | [] \<Rightarrow> Some ([], []))"

definition parse_exponent :: "string \<Rightarrow> (int \<times> string) option" where
  "parse_exponent s =
     (case s of
        c # r \<Rightarrow>
          if c = CHR ''e'' \<or> c = CHR ''E''
          then (let sg = (case r of d # _ \<Rightarrow> if d = CHR ''-'' then - 1 else 1 | [] \<Rightarrow> 1);
                    r' = (case r of d # q \<Rightarrow> if d = CHR ''-'' \<or> d = CHR ''+'' then q else r | [] \<Rightarrow> r)
                in if takeWhile digit r' = [] then None
                   else Some (sg * int (dnum (takeWhile digit r')), dropWhile digit r'))
          else Some (0, s)
      | [] \<Rightarrow> Some (0, []))"

definition parse_unsigned :: "string \<Rightarrow> ((nat \<times> int) \<times> string) option" where
  "parse_unsigned s =
     (let ds = takeWhile digit s in
      if ds = [] \<or> (hd ds = CHR ''0'' \<and> 1 < length ds) then None
      else (case parse_fraction (dropWhile digit s) of
              None \<Rightarrow> None
            | Some (fs, r) \<Rightarrow>
                (case parse_exponent r of
                   None \<Rightarrow> None
                 | Some (e, r') \<Rightarrow> Some ((dnum (ds @ fs), e - int (length fs)), r'))))"

definition decimal_value :: "int \<Rightarrow> int \<Rightarrow> js" where
  "decimal_value m e = (if 0 \<le> e then JNum (m * 10 ^ nat e) else mk_decimal m (nat (- e)))"

definition parse_number :: "string \<Rightarrow> (js \<times> string) option" where
  "parse_number s =
     (case s of
        [] \<Rightarrow> None
      | c # r \<Rightarrow>
          if c = CHR ''-'' then map_option (\<lambda>((m, e), q). (decimal_value (- int m) e, q)) (parse_unsigned r)
          else map_option (\<lambda>((m, e), q). (decimal_value (int m) e, q)) (parse_unsigned s))"

definition literal :: "string \<Rightarrow> js \<Rightarrow> string \<Rightarrow> (js \<times> string) option" where
  "literal w v s = (if take (length w) s = w then Some (v, drop (length w) s) else None)"

text \<open>
  Values, by fuel: a nested value, element or member starts after at least one more character, so twice the length of
  the text is enough.
\<close>

fun parse_value :: "nat \<Rightarrow> string \<Rightarrow> (js \<times> string) option"
  and parse_items :: "nat \<Rightarrow> js list \<Rightarrow> string \<Rightarrow> (js \<times> string) option"
  and parse_members :: "nat \<Rightarrow> fields \<Rightarrow> string \<Rightarrow> (js \<times> string) option" where
  "parse_value 0 s = None"
| "parse_value (Suc n) s =
     (case skip_space s of
        [] \<Rightarrow> None
      | c # r \<Rightarrow>
          if c = CHR 0x22 then map_option (\<lambda>(t, q). (JStr t, q)) (parse_string r)
          else if c = CHR ''['' then
            (case skip_space r of
               d # q \<Rightarrow> if d = CHR '']'' then Some (JArr [], q) else parse_items n [] r
             | [] \<Rightarrow> None)
          else if c = CHR ''{'' then
            (case skip_space r of
               d # q \<Rightarrow> if d = CHR ''}'' then Some (JObj [], q) else parse_members n [] r
             | [] \<Rightarrow> None)
          else if c = CHR ''t'' then literal ''true'' (JBool True) (c # r)
          else if c = CHR ''f'' then literal ''false'' (JBool False) (c # r)
          else if c = CHR ''n'' then literal ''null'' JNull (c # r)
          else parse_number (c # r))"
| "parse_items 0 acc s = None"
| "parse_items (Suc n) acc s =
     (case parse_value n s of
        None \<Rightarrow> None
      | Some (v, r) \<Rightarrow>
          (case skip_space r of
             d # q \<Rightarrow>
               if d = CHR '']'' then Some (JArr (acc @ [v]), q)
               else if d = CHR '','' then parse_items n (acc @ [v]) q
               else None
           | [] \<Rightarrow> None))"
| "parse_members 0 acc s = None"
| "parse_members (Suc n) acc s =
     (case skip_space s of
        [] \<Rightarrow> None
      | c # r \<Rightarrow>
          if c \<noteq> CHR 0x22 then None
          else (case parse_string r of
                  None \<Rightarrow> None
                | Some (k, r1) \<Rightarrow>
                    (case skip_space r1 of
                       [] \<Rightarrow> None
                     | d # r2 \<Rightarrow>
                         if d \<noteq> CHR '':'' then None
                         else (case parse_value n r2 of
                                 None \<Rightarrow> None
                               | Some (v, r3) \<Rightarrow>
                                   (case skip_space r3 of
                                      e # r4 \<Rightarrow>
                                        if e = CHR ''}'' then Some (JObj (put_field acc k v), r4)
                                        else if e = CHR '','' then parse_members n (put_field acc k v) r4
                                        else None
                                    | [] \<Rightarrow> None)))))"

definition parse_json :: "string \<Rightarrow> js option" where
  "parse_json s =
     (case parse_value (Suc (2 * length s)) s of
        Some (v, r) \<Rightarrow> if skip_space r = [] then Some v else None
      | None \<Rightarrow> None)"

subsection \<open>Strings\<close>

lemma parse_string_plain:
  assumes "c \<noteq> CHR 0x22" "c \<noteq> CHR 0x5C" "\<not> (of_char c :: nat) < 32" "s \<noteq> []"
  shows "parse_string (c # s) = cons_text [c] (parse_string s)"
  using assms by (cases s) auto

lemma low_control:
  assumes "(of_char c :: nat) < 32"
  shows "hex4 (CHR ''0'') (CHR ''0'') (hex_char (of_char c div 16)) (hex_char (of_char c mod 16)) = Some (of_char c)"
proof -
  have "list_all (\<lambda>n. hex4 (CHR ''0'') (CHR ''0'') (hex_char (n div 16)) (hex_char (n mod 16)) = Some n) [0..<32]"
    by code_simp
  then show ?thesis using assms by (simp add: list_all_iff)
qed

lemma parse_string_escaped:
  assumes "s \<noteq> []"
  shows "parse_string (escape_char c @ s) = cons_text [c] (parse_string s)"
proof (cases "c \<in> {CHR 0x22, CHR 0x5C, CHR 0x08, CHR 0x0C, CHR 0x0A, CHR 0x0D, CHR 0x09}")
  case True
  then show ?thesis by (auto simp: escape_char_def)
next
  case False
  show ?thesis
  proof (cases "(of_char c :: nat) < 32")
    case True
    then have "utf8 (of_char c) = [c]" by (simp add: utf8_def)
    then show ?thesis using False True low_control[OF True] by (auto simp: escape_char_def)
  next
    case large: False
    then show ?thesis using False assms parse_string_plain[of c s] by (auto simp: escape_char_def)
  qed
qed

lemma parse_string_quoted: "parse_string (concat (map escape_char s) @ CHR 0x22 # rest) = Some (s, rest)"
proof (induction s)
  case Nil
  show ?case by (cases rest) auto
next
  case (Cons c s)
  then show ?case by (simp add: parse_string_escaped cons_text_def)
qed

subsection \<open>Numbers\<close>

lemma of_char_dchar: "(of_char (dchar n) :: nat) = 48 + n mod 10"
  by (simp add: dchar_def)

lemma digit_dchar [simp]: "digit (dchar n)"
  by (simp add: digit_def less_eq_char_def of_char_dchar)

lemma dval_dchar [simp]: "dval (dchar n) = n mod 10"
  by (simp add: dval_def of_char_dchar)

lemma dnum_snoc [simp]: "dnum (s @ [c]) = 10 * dnum s + dval c"
  by (simp add: dnum_def)

lemma dnum_dec_nat [simp]: "dnum (dec_nat n) = n"
proof (induction n rule: dec_nat.induct)
  case (1 n)
  show ?case
  proof (cases "n < 10")
    case True
    then show ?thesis by (simp add: dec_nat.simps[of n] dnum_def)
  next
    case False
    then show ?thesis using 1 by (simp add: dec_nat.simps[of n])
  qed
qed

lemma digits_dec_nat: "list_all digit (dec_nat n)"
proof (induction n rule: dec_nat.induct)
  case (1 n)
  then show ?case by (cases "n < 10") (simp_all add: dec_nat.simps[of n])
qed

lemma lead_dec_nat: "0 < n \<Longrightarrow> hd (dec_nat n) \<noteq> CHR ''0''"
proof (induction n rule: dec_nat.induct)
  case (1 n)
  show ?case
  proof (cases "n < 10")
    case True
    have "dchar n = CHR ''0'' \<Longrightarrow> n = 0" using True of_char_dchar[of n] by simp
    then show ?thesis using 1(2) True by (auto simp: dec_nat.simps[of n])
  next
    case False
    then show ?thesis using 1(1) by (simp add: dec_nat.simps[of n] hd_append)
  qed
qed

lemma dec_nat_0 [simp]: "dec_nat 0 = ''0''"
  by code_simp

lemma dec_nat_plain: "\<not> (hd (dec_nat n) = CHR ''0'' \<and> 1 < length (dec_nat n))"
  using lead_dec_nat[of n] by (cases "n = 0") auto

lemma takeWhile_digits:
  assumes "list_all digit ds" "rest = [] \<or> \<not> digit (hd rest)"
  shows "takeWhile digit (ds @ rest) = ds" "dropWhile digit (ds @ rest) = rest"
proof -
  have "takeWhile digit rest = []" "dropWhile digit rest = rest" using assms(2) by (cases rest; auto)+
  then show "takeWhile digit (ds @ rest) = ds" "dropWhile digit (ds @ rest) = rest"
    using assms(1) by (auto simp: list_all_iff takeWhile_append2 dropWhile_append2)
qed

text \<open>What may follow a value inside a JSON text.\<close>

definition follows :: "string \<Rightarrow> bool" where
  "follows rest \<longleftrightarrow> rest = [] \<or> hd rest \<in> {CHR '','', CHR '']'', CHR ''}''}"

lemma follows_stop:
  assumes "follows rest"
  shows "rest = [] \<or> \<not> digit (hd rest)" "parse_fraction rest = Some ([], rest)" "parse_exponent rest = Some (0, rest)"
  using assms
  by (cases rest; auto simp: follows_def digit_def parse_fraction_def parse_exponent_def less_eq_char_def)+

lemma parse_unsigned_nat:
  assumes "follows rest"
  shows "parse_unsigned (dec_nat n @ rest) = Some ((n, 0), rest)"
  using takeWhile_digits[OF digits_dec_nat follows_stop(1)[OF assms], of n] follows_stop(2,3)[OF assms] dec_nat_plain[of n]
  by (simp add: parse_unsigned_def Let_def)

lemma dec_nat_head:
  obtains c s where "dec_nat n = c # s" "digit c" "c \<noteq> CHR ''-''"
proof -
  obtain c s where c: "dec_nat n = c # s" by (cases "dec_nat n") auto
  then have "digit c" using digits_dec_nat[of n] by simp
  moreover have "c \<noteq> CHR ''-''" using \<open>digit c\<close> by (auto simp: digit_def less_eq_char_def)
  ultimately show ?thesis using c that by blast
qed

lemma parse_number_int:
  assumes "follows rest"
  shows "parse_number (dec_int i @ rest) = Some (JNum i, rest)"
proof (cases "i < 0")
  case True
  then show ?thesis
    using parse_unsigned_nat[OF assms, of "nat (- i)"] by (simp add: dec_int_def parse_number_def decimal_value_def)
next
  case False
  obtain c s where c: "dec_nat (nat i) = c # s" "c \<noteq> CHR ''-''" by (rule dec_nat_head)
  then show ?thesis
    using False parse_unsigned_nat[OF assms, of "nat i"]
    by (simp add: dec_int_def parse_number_def decimal_value_def)
qed

lemma dnum_append_zero: "dnum (replicate n (CHR ''0'') @ s) = dnum s"
  by (induction n) (simp_all add: dnum_def dval_def)

lemma mk_decimal_reduced: "0 < k \<Longrightarrow> m mod 10 \<noteq> 0 \<Longrightarrow> mk_decimal m k = JFrac m k"
  by (simp add: mk_decimal.simps)

text \<open>The digits of a fraction: at least one before the point, exactly \<open>k\<close> after it.\<close>

definition frac_digits :: "nat \<Rightarrow> nat \<Rightarrow> string" where
  "frac_digits m k = replicate (Suc k - length (dec_nat m)) (CHR ''0'') @ dec_nat m"

lemma frac_digits_props:
  shows "list_all digit (frac_digits m k)" "dnum (frac_digits m k) = m" "Suc k \<le> length (frac_digits m k)"
    "take (length (frac_digits m k) - k) (frac_digits m k) \<noteq> []"
    "\<not> (hd (take (length (frac_digits m k) - k) (frac_digits m k)) = CHR ''0'' \<and>
        1 < length (take (length (frac_digits m k) - k) (frac_digits m k)))"
proof -
  have "digit (CHR ''0'')" by (simp add: digit_def)
  then show "list_all digit (frac_digits m k)" using digits_dec_nat[of m] by (auto simp: frac_digits_def list_all_iff)
  show "dnum (frac_digits m k) = m" by (simp add: frac_digits_def dnum_append_zero)
  show l: "Suc k \<le> length (frac_digits m k)" by (simp add: frac_digits_def)
  then show "take (length (frac_digits m k) - k) (frac_digits m k) \<noteq> []" by auto
  show "\<not> (hd (take (length (frac_digits m k) - k) (frac_digits m k)) = CHR ''0'' \<and>
        1 < length (take (length (frac_digits m k) - k) (frac_digits m k)))"
  proof (cases "length (dec_nat m) \<le> Suc k")
    case True
    then have "length (frac_digits m k) = Suc k" by (simp add: frac_digits_def)
    then show ?thesis by simp
  next
    case False
    then have f: "frac_digits m k = dec_nat m" by (simp add: frac_digits_def)
    have "hd (take n (dec_nat m)) = hd (dec_nat m)" if "0 < n" for n using that by (simp add: hd_take)
    then show ?thesis using dec_nat_plain[of m] False by (auto simp: f)
  qed
qed

lemma parse_unsigned_frac:
  assumes "follows rest" "0 < k"
  shows "parse_unsigned (take (length (frac_digits m k) - k) (frac_digits m k) @ CHR ''.'' #
           drop (length (frac_digits m k) - k) (frac_digits m k) @ rest) = Some ((m, - int k), rest)"
proof -
  let ?ps = "frac_digits m k"
  let ?a = "take (length ?ps - k) ?ps" and ?b = "drop (length ?ps - k) ?ps"
  have d: "list_all digit ?a" "list_all digit ?b"
    using frac_digits_props(1)[of m k] by (metis append_take_drop_id list_all_append)+
  have nd: "\<not> digit (CHR ''.'')" by (simp add: digit_def less_eq_char_def)
  have lb: "length ?b = k" using frac_digits_props(3)[of k m] by simp
  then have "?b \<noteq> []" using assms(2) by auto
  then have fr: "parse_fraction (CHR ''.'' # ?b @ rest) = Some (?b, rest)"
    using takeWhile_digits[OF d(2) follows_stop(1)[OF assms(1)]] by (simp add: parse_fraction_def)
  have "dnum (?a @ ?b) = m" using frac_digits_props(2)[of m k] by simp
  then show ?thesis
    using takeWhile_digits[OF d(1), of "CHR ''.'' # ?b @ rest"] nd fr lb frac_digits_props(4,5)[of m k]
      follows_stop(3)[OF assms(1)]
    by (simp add: parse_unsigned_def Let_def)
qed

lemma parse_number_frac:
  assumes "follows rest" "0 < k" "m mod 10 \<noteq> 0"
  shows "parse_number (dec_frac m k @ rest) = Some (JFrac m k, rest)"
proof -
  let ?n = "nat \<bar>m\<bar>"
  let ?t = "take (length (frac_digits ?n k) - k) (frac_digits ?n k) @ CHR ''.'' #
           drop (length (frac_digits ?n k) - k) (frac_digits ?n k) @ rest"
  have u: "parse_unsigned ?t = Some ((?n, - int k), rest)" by (rule parse_unsigned_frac[OF assms(1,2)])
  have t: "dec_frac m k @ rest = (if m < 0 then CHR ''-'' # ?t else ?t)"
    by (simp add: dec_frac_def Let_def frac_digits_def)
  have "hd ?t \<in> set (frac_digits ?n k)"
    using frac_digits_props(4)[of ?n k] by (metis hd_append2 hd_in_set in_set_takeD)
  then have h: "hd ?t \<noteq> CHR ''-''"
    using frac_digits_props(1)[of ?n k] by (auto simp: list_all_iff digit_def less_eq_char_def)
  have v: "decimal_value m (- int k) = JFrac m k"
    using assms(2,3) by (simp add: decimal_value_def mk_decimal_reduced)
  show ?thesis
  proof (cases "m < 0")
    case True
    then show ?thesis unfolding t using u v by (simp add: parse_number_def)
  next
    case False
    obtain c s where c: "?t = c # s" by (cases ?t) auto
    have "parse_number ?t = map_option (\<lambda>((m, e), q). (decimal_value (int m) e, q)) (parse_unsigned ?t)"
      using h unfolding c by (simp add: parse_number_def)
    then show ?thesis unfolding t using False u v by simp
  qed
qed

subsection \<open>The round trip\<close>

text \<open>The values JSON can carry: strict, with distinct keys and reduced decimals.\<close>

fun reduced :: "js \<Rightarrow> bool"
  and reduced_items :: "js list \<Rightarrow> bool"
  and reduced_fields :: "fields \<Rightarrow> bool" where
  "reduced (JFrac m k) = (0 < k \<and> m mod 10 \<noteq> 0)"
| "reduced (JArr xs) = reduced_items xs"
| "reduced (JObj fs) = reduced_fields fs"
| "reduced v = True"
| "reduced_items [] = True"
| "reduced_items (x # xs) = (reduced x \<and> reduced_items xs)"
| "reduced_fields [] = True"
| "reduced_fields ((k, v) # fs) = (reduced v \<and> reduced_fields fs)"

definition json_ok :: "js \<Rightarrow> bool" where
  "json_ok v \<longleftrightarrow> is_strict v \<and> wf_js v \<and> reduced v"

lemma reduced_items_iff: "reduced_items xs \<longleftrightarrow> (\<forall>x \<in> set xs. reduced x)"
  by (induction xs) auto

lemma reduced_fields_iff: "reduced_fields fs \<longleftrightarrow> (\<forall>kv \<in> set fs. reduced (snd kv))"
  by (induction fs) auto

text \<open>\<open>join\<close> prints an absent element as the empty text.\<close>

definition element_text :: "js \<Rightarrow> string" where
  "element_text x = (if x = JUndef \<or> x = JFun then [] else canonicalJson x)"

lemma canonical_items_elements: "canonical_items xs = map element_text xs"
  by (induction xs) (auto simp: element_text_def)

lemma json_ok_proper: "json_ok x \<Longrightarrow> x \<noteq> JUndef" "json_ok x \<Longrightarrow> x \<noteq> JFun"
  by (auto simp: json_ok_def)

lemma element_text_ok [simp]: "json_ok x \<Longrightarrow> element_text x = canonicalJson x"
  by (auto simp: element_text_def json_ok_def)

lemma canonical_items_map: "(\<forall>x \<in> set xs. json_ok x) \<Longrightarrow> canonical_items xs = map canonicalJson xs"
  by (simp add: canonical_items_elements)

lemma canonical_fields_map: "canonical_fields fs = map (\<lambda>(k, v). (k, canonicalJson v)) fs"
  by (induction fs) auto

lemma sort_key_map_fst:
  assumes "\<And>kv. fst (h kv) = fst kv"
  shows "sort_key fst (map h fs) = map h (sort_key fst fs)"
proof (rule properties_for_sort_key)
  show "mset (map h (sort_key fst fs)) = mset (map h fs)" by simp
  show "sorted (map fst (map h (sort_key fst fs)))" using assms by (simp add: comp_def)
  show "filter (\<lambda>y. fst k = fst y) (map h (sort_key fst fs)) = filter (\<lambda>y. fst k = fst y) (map h fs)"
    if "k \<in> set (map h (sort_key fst fs))" for k
    using sort_key_stable[where f = fst and k = "fst k" and xs = fs]
    by (simp add: filter_map comp_def assms eq_commute)
qed

lemma canonical_fields_sort:
  "sort_key fst (canonical_fields fs) = map (\<lambda>(k, v). (k, canonicalJson v)) (sort_key fst fs)"
  unfolding canonical_fields_map by (rule sort_key_map_fst) auto

lemma stable_fields_sort: "sort_key fst (stable_fields fs) = map (\<lambda>(k, v). (k, stableValue v)) (sort_key fst fs)"
  unfolding stable_fields_map by (rule sort_key_map_fst) auto

lemma put_field_new: "k \<notin> fst ` set fs \<Longrightarrow> put_field fs k v = fs @ [(k, v)]"
  by (induction fs k v rule: put_field.induct) auto

lemma skip_space_start: "\<not> json_space c \<Longrightarrow> skip_space (c # s) = c # s"
  by (simp add: skip_space_def)

definition parses :: "js \<Rightarrow> bool" where
  "parses v \<longleftrightarrow> (\<forall>n rest. 2 * length (canonicalJson v) < n \<longrightarrow> follows rest \<longrightarrow>
     parse_value n (canonicalJson v @ rest) = Some (stableValue v, rest))"

lemma follows_simps [simp]: "follows []" "follows (CHR '','' # s)" "follows (CHR '']'' # s)" "follows (CHR ''}'' # s)"
  by (simp_all add: follows_def)

lemma json_space_simps [simp]:
  "\<not> json_space (CHR '','')" "\<not> json_space (CHR '']'')" "\<not> json_space (CHR ''}'')" "\<not> json_space (CHR ''['')"
  "\<not> json_space (CHR ''{'')" "\<not> json_space (CHR '':'')" "\<not> json_space (CHR 0x22)"
  by (simp_all add: json_space_def)

text \<open>A printed value starts with a character that is neither white space nor a closing bracket.\<close>

definition starts :: "string \<Rightarrow> bool" where
  "starts s \<longleftrightarrow> (case s of [] \<Rightarrow> False | c # _ \<Rightarrow> \<not> json_space c \<and> c \<noteq> CHR '']'')"

lemma dec_int_starts: "starts (dec_int i @ s)"
proof (cases "i < 0")
  case False
  obtain c r where "dec_nat (nat i) = c # r" "digit c" by (rule dec_nat_head)
  then show ?thesis using False
    by (auto simp: dec_int_def starts_def json_space_def digit_def less_eq_char_def)
qed (simp add: dec_int_def starts_def json_space_def)

lemma number_head:
  assumes "parse_number s = Some r" "s \<noteq> []"
  shows "digit (hd s) \<or> hd s = CHR ''-''"
proof (rule ccontr)
  assume n: "\<not> ?thesis"
  then obtain c t where c: "s = c # t" "\<not> digit c" "c \<noteq> CHR ''-''" using assms(2) by (cases s) auto
  then show False using assms(1) by (simp add: parse_number_def parse_unsigned_def)
qed

lemma parse_value_number:
  assumes "parse_number s = Some r" "s \<noteq> []"
  shows "parse_value (Suc n) s = Some r"
proof -
  obtain c t where s: "s = c # t" using assms(2) by (cases s) auto
  have "digit c \<or> c = CHR ''-''" using number_head[OF assms] s by simp
  then have "\<not> json_space c \<and> c \<noteq> CHR 0x22 \<and> c \<noteq> CHR ''['' \<and> c \<noteq> CHR ''{'' \<and> c \<noteq> CHR ''t'' \<and> c \<noteq> CHR ''f'' \<and> c \<noteq> CHR ''n''"
    by (auto simp: digit_def less_eq_char_def json_space_def)
  then show ?thesis using assms(1) by (simp add: s skip_space_start)
qed

lemma canonical_starts:
  assumes "is_strict v" "reduced v"
  shows "starts (canonicalJson v @ s)"
proof (cases v)
  case (JFrac m k)
  then have "parse_number (dec_frac m k @ []) = Some (JFrac m k, [])"
    using assms by (intro parse_number_frac) auto
  then have "digit (hd (dec_frac m k)) \<or> hd (dec_frac m k) = CHR ''-''" "dec_frac m k \<noteq> []"
    using number_head[of "dec_frac m k"] by (auto simp: dec_frac_def Let_def)
  then show ?thesis
    by (cases "dec_frac m k") (auto simp: JFrac starts_def json_space_def digit_def less_eq_char_def)
next
  case (JNum i)
  then show ?thesis using dec_int_starts by simp
next
  case (JBool b)
  then show ?thesis by (simp add: starts_def json_space_def)
qed (use assms in \<open>auto simp: starts_def json_space_def quote_json_def\<close>)

lemma parse_items_join:
  assumes "\<forall>x \<in> set xs. parses x" "xs \<noteq> []" "2 * length (join_comma (map canonicalJson xs)) + 1 < n"
  shows "parse_items n acc (join_comma (map canonicalJson xs) @ CHR '']'' # rest) = Some (JArr (acc @ map stableValue xs), rest)"
  using assms
proof (induction xs arbitrary: acc n)
  case (Cons x xs)
  obtain k where n: "n = Suc k" using Cons.prems(3) by (cases n) auto
  show ?case
  proof (cases xs)
    case Nil
    have "parse_value k (canonicalJson x @ CHR '']'' # rest) = Some (stableValue x, CHR '']'' # rest)"
      using Cons.prems n Nil by (simp add: parses_def)
    then show ?thesis by (simp add: n Nil skip_space_start)
  next
    case (Cons y ys)
    let ?t = "join_comma (map canonicalJson xs) @ CHR '']'' # rest"
    have j: "join_comma (map canonicalJson (x # xs)) = canonicalJson x @ CHR '','' # join_comma (map canonicalJson xs)"
      by (simp add: Cons)
    have "parse_value k (canonicalJson x @ CHR '','' # ?t) = Some (stableValue x, CHR '','' # ?t)"
      using Cons.prems n j by (simp add: parses_def)
    moreover have "parse_items k (acc @ [stableValue x]) ?t = Some (JArr ((acc @ [stableValue x]) @ map stableValue xs), rest)"
      using Cons.prems n j Cons by (intro Cons.IH) auto
    ultimately show ?thesis unfolding j n by (simp add: skip_space_start)
  qed
qed simp

lemma parse_members_join:
  assumes "\<forall>kv \<in> set fs. parses (snd kv)" "fs \<noteq> []" "distinct (map fst (acc @ fs))"
    "2 * length (join_comma (map member_text (map (\<lambda>(k, v). (k, canonicalJson v)) fs))) + 1 < n"
  shows "parse_members n acc (join_comma (map member_text (map (\<lambda>(k, v). (k, canonicalJson v)) fs)) @ CHR ''}'' # rest) =
    Some (JObj (acc @ map (\<lambda>(k, v). (k, stableValue v)) fs), rest)"
  using assms
proof (induction fs arbitrary: acc n)
  case (Cons f fs)
  obtain key v where f: "f = (key, v)" by fastforce
  obtain k where n: "n = Suc k" using Cons.prems(4) by (cases n) auto
  have new: "key \<notin> fst ` set acc" using Cons.prems(3) by (auto simp: f)
  let ?q = "\<lambda>s. CHR 0x22 # concat (map escape_char key) @ CHR 0x22 # CHR '':'' # canonicalJson v @ s"
  show ?case
  proof (cases fs)
    case Nil
    have "parse_value k (canonicalJson v @ CHR ''}'' # rest) = Some (stableValue v, CHR ''}'' # rest)"
      using Cons.prems n by (simp add: parses_def f Nil member_text_def quote_json_def)
    then show ?thesis
      by (simp add: n Nil f member_text_def quote_json_def skip_space_start parse_string_quoted put_field_new[OF new])
  next
    case (Cons g gs)
    let ?j = "join_comma (map member_text (map (\<lambda>(k, v). (k, canonicalJson v)) fs))"
    let ?t = "?j @ CHR ''}'' # rest"
    have j: "join_comma (map member_text (map (\<lambda>(k, v). (k, canonicalJson v)) (f # fs))) = ?q (CHR '','' # ?j)"
      by (simp add: Cons f member_text_def quote_json_def)
    have "parse_value k (canonicalJson v @ CHR '','' # ?t) = Some (stableValue v, CHR '','' # ?t)"
      using Cons.prems n j by (simp add: parses_def f)
    moreover have "parse_members k (acc @ [(key, stableValue v)]) ?t =
        Some (JObj ((acc @ [(key, stableValue v)]) @ map (\<lambda>(k, v). (k, stableValue v)) fs), rest)"
      using Cons.prems(1,3,4) n j Cons by (intro Cons.IH) (auto simp: f)
    ultimately show ?thesis
      unfolding j n by (simp add: skip_space_start parse_string_quoted put_field_new[OF new] f)
  qed
qed simp

lemma json_okD:
  "json_ok (JArr xs) \<Longrightarrow> \<forall>x \<in> set xs. json_ok x"
  "json_ok (JObj fs) \<Longrightarrow> distinct (map fst fs) \<and> (\<forall>kv \<in> set fs. json_ok (snd kv))"
  by (auto simp: json_ok_def is_strict_items_iff wf_items_iff reduced_items_iff is_strict_fields_iff wf_fields_iff
      reduced_fields_iff)

lemma parses_array:
  assumes "\<forall>x \<in> set xs. parses x" "\<forall>x \<in> set xs. json_ok x"
  shows "parses (JArr xs)"
  unfolding parses_def
proof (intro allI impI)
  fix n rest
  assume n: "2 * length (canonicalJson (JArr xs)) < n"
  then obtain k where k: "n = Suc k" by (cases n) auto
  have len: "2 * length (join_comma (map canonicalJson xs)) + 1 < k"
    using n by (simp add: k canonical_items_map[OF assms(2)])
  show "parse_value n (canonicalJson (JArr xs) @ rest) = Some (stableValue (JArr xs), rest)"
  proof (cases xs)
    case Nil
    then show ?thesis by (simp add: k skip_space_start)
  next
    case (Cons x ys)
    have "starts (join_comma (map canonicalJson xs) @ CHR '']'' # rest)"
      using canonical_starts[of x] assms(2) by (cases ys) (simp_all add: Cons json_ok_def)
    then obtain c t where c: "join_comma (map canonicalJson xs) @ CHR '']'' # rest = c # t" "\<not> json_space c" "c \<noteq> CHR '']''"
      by (auto simp: starts_def split: list.splits)
    have i: "parse_items k [] (join_comma (map canonicalJson xs) @ CHR '']'' # rest) = Some (JArr ([] @ map stableValue xs), rest)"
      using len assms(1) Cons by (intro parse_items_join) blast+
    show ?thesis
      using i c by (simp add: k skip_space_start canonical_items_map[OF assms(2)] stable_items_map)
  qed
qed

lemma parses_object:
  assumes "\<forall>kv \<in> set fs. parses (snd kv)" "distinct (map fst fs)"
  shows "parses (JObj fs)"
  unfolding parses_def
proof (intro allI impI)
  fix n rest
  assume n: "2 * length (canonicalJson (JObj fs)) < n"
  then obtain k where k: "n = Suc k" by (cases n) auto
  let ?gs = "sort_key fst fs"
  let ?j = "join_comma (map member_text (map (\<lambda>(k, v). (k, canonicalJson v)) ?gs))"
  show "parse_value n (canonicalJson (JObj fs) @ rest) = Some (stableValue (JObj fs), rest)"
  proof (cases "fs = []")
    case True
    then show ?thesis by (simp add: k skip_space_start)
  next
    case False
    then have ne: "?gs \<noteq> []" by (metis set_empty set_sort)
    then obtain g hs where g: "?gs = g # hs" by (cases ?gs) auto
    have "\<exists>t. ?j @ CHR ''}'' # rest = CHR 0x22 # t"
      by (cases hs) (auto simp: g member_text_def quote_json_def split: prod.splits)
    then obtain t where t: "?j @ CHR ''}'' # rest = CHR 0x22 # t" by blast
    have m: "parse_members k [] (?j @ CHR ''}'' # rest) = Some (JObj ([] @ map (\<lambda>(k, v). (k, stableValue v)) ?gs), rest)"
      using n assms ne by (intro parse_members_join) (auto simp: k distinct_map_sort_key canonical_fields_sort)
    show ?thesis
      using m t by (simp add: k skip_space_start canonical_fields_sort stable_fields_sort)
  qed
qed

lemma parses_leaf: "parses (JStr t)" "parses JNull" "parses (JBool b)" "parses (JNum i)"
proof -
  have "parse_value n (canonicalJson (JStr t) @ rest) = Some (JStr t, rest)" if "0 < n" for n rest
    using that by (cases n) (simp_all add: quote_json_def skip_space_start parse_string_quoted)
  then show "parses (JStr t)" by (simp add: parses_def)
  have "parse_value n (''null'' @ rest) = Some (JNull, rest)" if "0 < n" for n rest
    using that by (cases n) (simp_all add: skip_space_start json_space_def literal_def)
  then show "parses JNull" by (simp add: parses_def)
  have "parse_value n (js_show (JBool b) @ rest) = Some (JBool b, rest)" if "0 < n" for n rest
    using that by (cases n; cases b) (simp_all add: skip_space_start json_space_def literal_def)
  then show "parses (JBool b)" by (simp add: parses_def)
  have "parse_value n (dec_int i @ rest) = Some (JNum i, rest)" if "0 < n" "follows rest" for n rest
    using that parse_value_number[OF parse_number_int[OF that(2), of i]] by (cases n) (simp_all add: dec_int_def)
  then show "parses (JNum i)" by (simp add: parses_def)
qed

lemma parses_frac:
  assumes "json_ok (JFrac m k)"
  shows "parses (JFrac m k)"
proof -
  have "parse_value n (dec_frac m k @ rest) = Some (JFrac m k, rest)" if "0 < n" "follows rest" for n rest
    using that assms parse_value_number[OF parse_number_frac[OF that(2), of k m]]
    by (cases n) (simp_all add: dec_frac_def Let_def json_ok_def)
  then show ?thesis by (simp add: parses_def)
qed

lemma parses_value: "json_ok v \<Longrightarrow> parses v"
  "(\<forall>x \<in> set xs. json_ok x) \<Longrightarrow> (\<forall>x \<in> set xs. parses x)"
  "(\<forall>kv \<in> set (fs :: fields). json_ok (snd kv)) \<Longrightarrow> (\<forall>kv \<in> set fs. parses (snd kv))"
proof (induction v and xs and fs rule: canonicalJson_canonical_items_canonical_fields.induct)
  case (1 xs)
  then show ?case using json_okD(1)[of xs] parses_array by blast
next
  case (2 fs)
  then show ?case using json_okD(2)[of fs] parses_object by blast
qed (simp_all add: parses_leaf parses_frac json_ok_proper, simp_all add: json_ok_def)

lemma parse_canonical: "json_ok v \<Longrightarrow> parse_json (canonicalJson v) = Some (stableValue v)"
  using parses_value(1)[of v] unfolding parses_def
  by (auto simp: parse_json_def skip_space_def dest!: spec[of _ "Suc (2 * length (canonicalJson v))"] spec[of _ "[]"])

lemma canonical_stable:
  "canonicalJson (stableValue v) = canonicalJson v"
  "canonical_items (stable_items xs) = canonical_items xs"
  "canonical_fields (stable_fields fs) = canonical_fields fs"
proof (induction v and xs and fs rule: stableValue_stable_items_stable_fields.induct)
  case (2 fs)
  have "canonical_fields (sort_key fst (stable_fields fs)) = sort_key fst (canonical_fields (stable_fields fs))"
    using canonical_fields_sort[of "stable_fields fs"] canonical_fields_map[of "sort_key fst (stable_fields fs)"] by (metis (no_types, lifting))
  then show ?case using 2 by (simp add: sort_key_id_if_sorted)
next
  case (5 x xs)
  have "stableValue x = JUndef \<longleftrightarrow> x = JUndef" "stableValue x = JFun \<longleftrightarrow> x = JFun" by (cases x; simp)+
  then show ?case using 5 by simp
qed auto

lemma canonical_eq_iff:
  assumes "json_ok v" "json_ok w"
  shows "canonicalJson v = canonicalJson w \<longleftrightarrow> stableValue v = stableValue w"
  using parse_canonical[OF assms(1)] parse_canonical[OF assms(2)] canonical_stable(1) by (metis option.inject)

subsection \<open>What parsing returns\<close>

lemma mk_decimal_ok: "json_ok (mk_decimal m k)"
proof (induction m k rule: mk_decimal.induct)
  case (1 m k)
  then show ?case by (simp add: mk_decimal.simps[of m k]) (simp add: json_ok_def)
qed

lemma parse_number_ok: "parse_number s = Some (v, r) \<Longrightarrow> json_ok v"
  by (auto simp: parse_number_def decimal_value_def mk_decimal_ok split: list.splits if_splits)
    (simp_all add: json_ok_def)

lemma json_ok_simps [simp]:
  "json_ok JNull" "json_ok (JBool b)" "json_ok (JNum i)" "json_ok (JStr s)"
  "json_ok (JArr xs) \<longleftrightarrow> (\<forall>x \<in> set xs. json_ok x)"
  "json_ok (JObj fs) \<longleftrightarrow> distinct (map fst fs) \<and> (\<forall>kv \<in> set fs. json_ok (snd kv))"
  "\<not> json_ok JUndef"
  by (auto simp: json_ok_def is_strict_items_iff wf_items_iff reduced_items_iff is_strict_fields_iff wf_fields_iff
      reduced_fields_iff)

lemma literal_ok: "literal w v s = Some (u, r) \<Longrightarrow> u = v"
  by (simp add: literal_def split: if_splits)

lemma put_field_ok:
  "\<forall>kv \<in> set fs. json_ok (snd kv) \<Longrightarrow> json_ok v \<Longrightarrow> \<forall>kv \<in> set (put_field fs k v). json_ok (snd kv)"
  by (induction fs k v rule: put_field.induct) auto

lemma parse_ok:
  "parse_value n s = Some (v, r) \<Longrightarrow> json_ok v"
  "parse_items n acc s = Some (v, r) \<Longrightarrow> json_ok (JArr acc) \<Longrightarrow> json_ok v"
  "parse_members n fs s = Some (v, r) \<Longrightarrow> json_ok (JObj fs) \<Longrightarrow> json_ok v"
proof (induction n s and n acc s and n fs s arbitrary: v r and v r and v r
    rule: parse_value_parse_items_parse_members.induct)
  case (2 n s)
  then show ?case
    by (auto split: list.splits if_splits dest: literal_ok parse_number_ok)
next
  case (4 n acc s)
  then show ?case by (fastforce split: option.splits prod.splits list.splits if_splits)
next
  case (6 n acc s)
  obtain c r0 where c: "skip_space s = c # r0" "c = CHR 0x22"
    using 6(3) by (auto split: list.splits if_splits)
  obtain k r1 where k: "parse_string r0 = Some (k, r1)"
    using 6(3) c by (auto split: option.splits)
  obtain d r2 where d: "skip_space r1 = d # r2" "d = CHR '':''"
    using 6(3) c k by (auto split: list.splits if_splits)
  obtain w r3 where w: "parse_value n r2 = Some (w, r3)"
    using 6(3) c k d by (auto split: option.splits)
  obtain e r4 where e: "skip_space r3 = e # r4"
    using 6(3) c k d w by (auto split: list.splits)
  have "json_ok w" using 6(1) c k d w by auto
  then have o: "json_ok (JObj (put_field acc k w))"
    using 6(4) put_field_ok[of acc w k] by simp
  show ?case
  proof (cases "e = CHR ''}''")
    case True
    then show ?thesis using 6(3) c k d w e o by auto
  next
    case False
    then have "e = CHR '',''" "parse_members n (put_field acc k w) r4 = Some (v, r)"
      using 6(3) c k d w e by (auto split: if_splits)
    then show ?thesis using 6(2)[OF c(1)] c(2) k d w e False o by auto
  qed
qed simp_all

lemma parse_json_ok: "parse_json s = Some v \<Longrightarrow> json_ok v"
  using parse_ok(1) by (auto simp: parse_json_def simp del: parse_value.simps split: option.splits if_splits)

text \<open>
  C33. Canonical JSON is faithful: a value that JSON can carry is printed to a text that parses back to
  it, keys sorted, and two such values print the same text exactly when they are the same up to the order
  of keys, so comparing texts compares values.
\<close>

theorem canonical_json_roundtrip:
  assumes "json_ok v" "json_ok w"
  shows "parse_json (canonicalJson v) = Some (stableValue v) \<and>
     (canonicalJson v = canonicalJson w \<longleftrightarrow> stableValue v = stableValue w)"
  using parse_canonical[OF assms(1)] canonical_eq_iff[OF assms] by blast

definition sample_a :: js where
  "sample_a = JObj [(''b'', JArr [JNum (-12), JFrac 25 3, JBool True]), (''a'', JStr [CHR 0x22, CHR 0x0A, CHR ''x''])]"

definition sample_b :: js where
  "sample_b = JObj [(''a'', JStr [CHR 0x22, CHR 0x0A, CHR ''x'']), (''b'', JArr [JNum (-12), JFrac 25 3, JBool True])]"

theorem canonical_json_roundtrip_witness:
  "parse_json (canonicalJson sample_a) = Some (stableValue sample_a) \<and> canonicalJson sample_a = canonicalJson sample_b"
proof -
  have "json_ok sample_a" "json_ok sample_b" by (simp_all add: sample_a_def sample_b_def) (simp_all add: json_ok_def)
  moreover have "stableValue sample_a = stableValue sample_b" by code_simp
  ultimately show ?thesis using canonical_json_roundtrip[of sample_a sample_b] by blast
qed

end
