(* ===== verification/ToolStub.thy ===== *)
theory ToolStub
  imports JsonText
begin

text \<open>
  The pruned tool-result stub of \<open>packages/agent-runtime-contracts/compaction-contracts.js\<close>: how a
  tool message is replaced by a stub that keeps its status, references, error contract and digest, and
  the check that a replacement is that stub.
\<close>

definition canonicalToolJson :: "js \<Rightarrow> string" where
  "canonicalToolJson v = canonicalJson v"

definition toolResultDigest :: "(string \<Rightarrow> string) \<Rightarrow> js \<Rightarrow> string" where
  "toolResultDigest sha256 v = ''sha256:'' @ sha256 (canonicalToolJson v)"

definition PRUNED_STUB_KEYS :: "string list" where
  "PRUNED_STUB_KEYS = [''status'', ''evidence_refs'', ''warnings'', ''error'', ''sha256'', ''path'', ''result_digest'', ''pruned'']"

fun is_object :: "js \<Rightarrow> bool" where
  "is_object (JObj _) = True"
| "is_object (JArr _) = True"
| "is_object _ = False"

fun is_array :: "js \<Rightarrow> bool" where
  "is_array (JArr _) = True"
| "is_array _ = False"

definition picked_fields :: "js \<Rightarrow> string list \<Rightarrow> fields" where
  "picked_fields v ks = map (\<lambda>k. (k, js_get v k)) (filter (\<lambda>k. js_get v k \<noteq> JUndef) ks)"

definition nextActionMetadata :: "js \<Rightarrow> fields" where
  "nextActionMetadata result =
     (let error = js_get result ''error''; body = js_get result ''result'' in
      (if is_object error then [(''error'', JObj (picked_fields error [''code'', ''message'', ''retryable'']))] else []) @
      (if is_object body \<and> is_str (js_get body ''sha256'') then [(''sha256'', js_get body ''sha256'')] else []) @
      (if is_object body \<and> is_str (js_get body ''path'') then [(''path'', js_get body ''path'')] else []))"

definition array_or_empty :: "js \<Rightarrow> js" where
  "array_or_empty v = (if is_array v then v else JArr [])"

definition stub_body :: "(string \<Rightarrow> string) \<Rightarrow> js \<Rightarrow> js" where
  "stub_body sha256 content =
     (let result = (case parse_json (js_text content) of None \<Rightarrow> JNull | Some v \<Rightarrow> v) in
      JObj ([(''status'', if js_truthy (js_get result ''status'') then js_get result ''status'' else JStr ''unknown''),
             (''evidence_refs'', array_or_empty (js_get result ''evidence_refs'')),
             (''warnings'', array_or_empty (js_get result ''warnings''))] @
            nextActionMetadata result @
            [(''result_digest'', JStr (toolResultDigest sha256 content)), (''pruned'', JBool True)]))"

definition prune_type_error :: jserr where
  "prune_type_error = mk_err ''TypeError'' ''tool_result_prune accepts only tool messages''"

definition pruneToolMessage :: "(string \<Rightarrow> string) \<Rightarrow> js \<Rightarrow> js res" where
  "pruneToolMessage sha256 message =
     (if js_get message ''role'' \<noteq> JStr ''tool'' then Inl prune_type_error
      else Inr (JObj ([(''role'', JStr ''tool'')] @
             (if js_truthy (js_get message ''name'') then [(''name'', js_get message ''name'')] else []) @
             [(''tool_call_id'', js_get message ''tool_call_id''),
              (''content'', JStr (canonicalToolJson (stub_body sha256 (js_get message ''content''))))])))"

definition differs :: "js \<Rightarrow> js \<Rightarrow> string \<Rightarrow> bool" where
  "differs stub expected key \<longleftrightarrow> canonicalToolJson (js_get stub key) \<noteq> canonicalToolJson (js_get expected key)"

definition stub_violation :: "js \<Rightarrow> js \<Rightarrow> string option" where
  "stub_violation stub expected =
     (if \<not> is_obj stub then Some ''stub is not an object''
      else if js_get stub ''pruned'' \<noteq> JBool True then Some ''stub is not marked pruned''
      else if list_ex (\<lambda>k. k \<notin> set PRUNED_STUB_KEYS) (js_keys stub) then Some ''stub carries a body field''
      else if js_get stub ''result_digest'' \<noteq> js_get expected ''result_digest'' then Some ''stub digest differs from the original result''
      else (case find (differs stub expected) [''status'', ''error'', ''sha256'', ''path''] of
              Some key \<Rightarrow> Some (''stub '' @ key @ '' differs from the original result'')
            | None \<Rightarrow>
                (case find (differs stub expected) [''evidence_refs'', ''warnings''] of
                   Some key \<Rightarrow> Some (''stub '' @ key @ '' differs from the original outcome'')
                 | None \<Rightarrow> None)))"

definition prunedStubViolation :: "(string \<Rightarrow> string) \<Rightarrow> js \<Rightarrow> js \<Rightarrow> string option res" where
  "prunedStubViolation sha256 source replacement =
     (case parse_json (js_text (js_get replacement ''content'')) of
        None \<Rightarrow> Inr (Some ''stub is not valid JSON'')
      | Some stub \<Rightarrow>
          bind_res (pruneToolMessage sha256 source) (\<lambda>p.
          case parse_json (js_text (js_get p ''content'')) of
            None \<Rightarrow> Inl (mk_err ''SyntaxError'' ''Unexpected token'')
          | Some expected \<Rightarrow> Inr (stub_violation stub expected)))"

subsection \<open>The stub is a JSON value\<close>

lemma json_ok_get: "json_ok v \<Longrightarrow> js_get v k \<noteq> JUndef \<Longrightarrow> json_ok (js_get v k)"
  by (cases v) (auto simp: js_get_def dest!: map_of_SomeD split: option.splits)

lemma truthy_defined: "js_truthy v \<Longrightarrow> v \<noteq> JUndef" "is_str v \<Longrightarrow> v \<noteq> JUndef" "is_array v \<Longrightarrow> v \<noteq> JUndef" "is_object v \<Longrightarrow> v \<noteq> JUndef"
  by auto

lemma picked_ok: "json_ok v \<Longrightarrow> distinct ks \<Longrightarrow> json_ok (JObj (picked_fields v ks))"
  by (auto simp: picked_fields_def o_def json_ok_get)

lemma metadata_ok: "json_ok v \<Longrightarrow> \<forall>kv \<in> set (nextActionMetadata v). json_ok (snd kv)"
proof -
  assume v: "json_ok v"
  have o: "json_ok (js_get v k)" if "is_object (js_get v k)" for k
    using json_ok_get[OF v] truthy_defined(4)[OF that] by blast
  have s: "is_str x \<Longrightarrow> json_ok x" for x by (cases x) auto
  have "json_ok (JObj (picked_fields (js_get v ''error'') [''code'', ''message'', ''retryable'']))" if "is_object (js_get v ''error'')"
    using picked_ok[OF o[OF that], of "[''code'', ''message'', ''retryable'']"] by simp
  then show ?thesis using s by (auto simp: nextActionMetadata_def Let_def simp del: json_ok_simps(6))
qed

lemma stub_body_ok: "json_ok (stub_body sha content)"
proof -
  let ?r = "case parse_json (js_text content) of None \<Rightarrow> JNull | Some v \<Rightarrow> v"
  have r: "json_ok ?r" by (auto simp: parse_json_ok split: option.split)
  have a: "json_ok (array_or_empty (js_get ?r k))" for k
    using json_ok_get[OF r, of k] truthy_defined(3)[of "js_get ?r k"] by (auto simp: array_or_empty_def)
  have st: "json_ok (if js_truthy (js_get ?r ''status'') then js_get ?r ''status'' else JStr ''unknown'')"
    using json_ok_get[OF r] truthy_defined(1) by auto
  have d: "distinct (map fst (own_fields (stub_body sha content)))"
    by (simp add: stub_body_def Let_def nextActionMetadata_def)
  have f: "\<forall>kv \<in> set (own_fields (stub_body sha content)). json_ok (snd kv)"
    using metadata_ok[OF r] a st by (simp add: stub_body_def Let_def)
  show ?thesis using d f by (simp add: stub_body_def Let_def)
qed

lemma stub_body_keys: "set (js_keys (stub_body sha content)) \<subseteq> set PRUNED_STUB_KEYS"
  by (auto simp: js_keys_def stub_body_def Let_def nextActionMetadata_def PRUNED_STUB_KEYS_def)

subsection \<open>The stub is unique\<close>

lemma stable_object_eqI:
  assumes "json_ok (JObj fs)" "json_ok (JObj gs)" "\<And>k. stableValue (js_get (JObj fs) k) = stableValue (js_get (JObj gs) k)"
  shows "stableValue (JObj fs) = stableValue (JObj gs)"
proof -
  let ?f = "stable_fields fs" and ?g = "stable_fields gs"
  have d: "distinct (map fst ?f)" "distinct (map fst ?g)" using assms(1,2) by simp_all
  have u: "stableValue v = JUndef \<longleftrightarrow> v = JUndef" for v by (cases v) auto
  have df: "map_of hs k \<noteq> Some JUndef" if "json_ok (JObj hs)" for hs k
    using that by (auto dest!: map_of_SomeD)
  have "map_of ?f k = map_of ?g k" for k
    using assms(3)[of k] df[OF assms(1), of k] df[OF assms(2), of k]
    by (auto simp: map_of_stable_fields js_get_def u split: option.splits dest: sym)
  then have "map_of ?f = map_of ?g" by blast
  then have "set ?f = set ?g" using d by (metis map_of_inject_set)
  moreover have "inj_on fst (set ?f)" "inj_on fst (set ?g)" using d by (auto simp only: distinct_map)
  ultimately have "sort_key fst ?f = sort_key fst ?g"
    using d by (intro map_sorted_distinct_set_unique[of fst]) (simp_all add: distinct_map_sort_key)
  then show ?thesis by simp
qed

lemma stub_fields:
  "js_get (stub_body sha content) ''pruned'' = JBool True"
  "js_get (stub_body sha content) ''result_digest'' = JStr (toolResultDigest sha content)"
  "is_obj (stub_body sha content)"
  by (simp_all add: js_get_def stub_body_def Let_def nextActionMetadata_def)

lemma undefined_text: "json_ok v \<Longrightarrow> canonicalJson v \<noteq> ''undefined''"
proof
  assume v: "json_ok v" and u: "canonicalJson v = ''undefined''"
  have "parse_json ''undefined'' = None" by code_simp
  then show False using parse_canonical[OF v] u by simp
qed

lemma text_eq_iff:
  assumes "json_ok v \<or> v = JUndef" "json_ok w \<or> w = JUndef"
  shows "canonicalJson v = canonicalJson w \<longleftrightarrow> stableValue v = stableValue w"
proof -
  have u: "stableValue x = JUndef \<longleftrightarrow> x = JUndef" for x by (cases x) auto
  show ?thesis
    using assms canonical_eq_iff[of v w] undefined_text[of v] undefined_text[of w] u[of v] u[of w] by auto
qed

lemma json_ok_get_or: "json_ok v \<Longrightarrow> json_ok (js_get v k) \<or> js_get v k = JUndef"
  using json_ok_get by blast

lemma js_get_outside: "k \<notin> set (js_keys v) \<Longrightarrow> js_get v k = JUndef"
  using map_of_eq_None_iff[of "own_fields v" k] by (simp add: js_keys_def js_get_def)

lemma json_ok_wf: "json_ok v \<Longrightarrow> wf_js v"
  by (simp add: json_ok_def)

lemma json_ok_stable [simp]: "json_ok v \<Longrightarrow> json_ok (stableValue v)"
  using parse_json_ok parse_canonical by blast

lemma stub_violation_iff:
  assumes "json_ok stub" "expected = stableValue (stub_body sha content)"
  shows "stub_violation stub expected = None \<longleftrightarrow> stableValue stub = expected"
proof
  assume n: "stub_violation stub expected = None"
  have e: "json_ok expected" using stub_body_ok assms(2) by simp
  obtain fs where fs: "stub = JObj fs" using n by (cases stub) (auto simp: stub_violation_def)
  have "is_obj expected" using stub_fields(3) assms(2) by simp
  then obtain gs where gs: "expected = JObj gs" by (cases expected) auto
  have ek: "set (js_keys expected) \<subseteq> set PRUNED_STUB_KEYS" using stub_body_keys assms(2) by simp
  have sk: "set (js_keys stub) \<subseteq> set PRUNED_STUB_KEYS"
    using n by (auto simp: stub_violation_def list_ex_iff split: if_splits)
  have ep: "js_get expected ''pruned'' = JBool True"
    using stub_fields(1)[of sha content] js_get_stable[OF json_ok_wf[OF stub_body_ok]] assms(2) by simp
  have p: "js_get stub ''pruned'' = JBool True" "js_get stub ''result_digest'' = js_get expected ''result_digest''"
    using n by (auto simp: stub_violation_def split: if_splits)
  have "find (differs stub expected) [''status'', ''error'', ''sha256'', ''path''] = None"
    "find (differs stub expected) [''evidence_refs'', ''warnings''] = None"
    using n unfolding stub_violation_def by (auto split: if_splits option.splits simp del: find.simps)
  then have same: "canonicalJson (js_get stub k) = canonicalJson (js_get expected k)"
    if "k \<in> {''status'', ''error'', ''sha256'', ''path'', ''evidence_refs'', ''warnings''}" for k
    using that unfolding find_None_iff differs_def canonicalToolJson_def by auto
  have "stableValue (js_get stub k) = stableValue (js_get expected k)" for k
  proof (cases "k \<in> set PRUNED_STUB_KEYS")
    case True
    then consider "k = ''pruned''" | "k = ''result_digest''" | "k \<in> {''status'', ''error'', ''sha256'', ''path'', ''evidence_refs'', ''warnings''}"
      unfolding PRUNED_STUB_KEYS_def set_simps insert_iff empty_iff by argo
    then show ?thesis
    proof cases
      case 3
      from same[OF 3] show ?thesis
        using text_eq_iff[OF json_ok_get_or[OF assms(1)] json_ok_get_or[OF e]] by blast
    qed (use p ep in simp_all)
  next
    case False
    then have "k \<notin> set (js_keys stub)" "k \<notin> set (js_keys expected)" using sk ek by blast+
    then show ?thesis by (simp add: js_get_outside)
  qed
  then have "stableValue stub = stableValue expected"
    using stable_object_eqI[of fs gs] assms(1) e fs gs by simp
  then show "stableValue stub = expected" using assms(2) by simp
next
  assume s: "stableValue stub = expected"
  have o: "is_obj stub" using s stub_fields(3)[of sha content] assms(2) by (metis stable_is_obj)
  have k: "set (js_keys stub) \<subseteq> set PRUNED_STUB_KEYS"
    using s assms(2) stub_body_keys by (metis set_keys_stable)
  have g: "stableValue (js_get stub k) = js_get expected k" for k
    using js_get_stable[OF json_ok_wf[OF assms(1)]] s by metis
  have b: "js_get expected k = stableValue (js_get (stub_body sha content) k)" for k
    using js_get_stable[OF json_ok_wf[OF stub_body_ok]] assms(2) by metis
  have atom: "stableValue v = JBool b \<longleftrightarrow> v = JBool b" "stableValue v = JStr t \<longleftrightarrow> v = JStr t" for v b t
    by (cases v; auto)+
  have p: "js_get stub ''pruned'' = JBool True" "js_get stub ''result_digest'' = js_get expected ''result_digest''"
    using g[of "''pruned''"] g[of "''result_digest''"] b stub_fields[of sha content] atom by auto
  have nd: "\<not> differs stub expected k" for k
    using g[of k] canonical_stable(1)[of "js_get stub k"] by (simp add: differs_def canonicalToolJson_def)
  then have "find (differs stub expected) ks = None" for ks by (simp add: find_None_iff)
  moreover have "\<not> list_ex (\<lambda>k. k \<notin> set PRUNED_STUB_KEYS) (js_keys stub)" using k by (auto simp: list_ex_iff)
  ultimately show "stub_violation stub expected = None"
    using o p nd by (simp add: stub_violation_def)
qed

lemma prune_content:
  "js_get message ''role'' = JStr ''tool'' \<Longrightarrow> \<exists>p. pruneToolMessage sha message = Inr p \<and>
     js_get p ''content'' = JStr (canonicalJson (stub_body sha (js_get message ''content'')))"
  by (simp add: pruneToolMessage_def js_get_def canonicalToolJson_def)

text \<open>
  C32. The pruned stub is unique: for a tool message, the check accepts a replacement exactly when its
  content is a JSON text of the stub that pruning produces, up to the order of keys; in particular it
  accepts the message pruning returns, and a stub with another digest, status, error or reference, or
  with a body field, is refused.
\<close>

theorem pruned_stub_exact:
  assumes "js_get source ''role'' = JStr ''tool''"
  shows "(prunedStubViolation sha source replacement = Inr None \<longleftrightarrow>
      (\<exists>stub. parse_json (js_text (js_get replacement ''content'')) = Some stub \<and>
         stableValue stub = stableValue (stub_body sha (js_get source ''content'')))) \<and>
    (\<exists>p. pruneToolMessage sha source = Inr p \<and> prunedStubViolation sha source p = Inr None)"
proof -
  let ?e = "stableValue (stub_body sha (js_get source ''content''))"
  obtain p where p: "pruneToolMessage sha source = Inr p"
    "js_get p ''content'' = JStr (canonicalJson (stub_body sha (js_get source ''content'')))"
    using prune_content[OF assms] by blast
  have e: "parse_json (js_text (js_get p ''content'')) = Some ?e" using p(2) parse_canonical[OF stub_body_ok] by simp
  have iff: "prunedStubViolation sha source r = Inr None \<longleftrightarrow>
      (\<exists>stub. parse_json (js_text (js_get r ''content'')) = Some stub \<and> stableValue stub = ?e)" for r
    using p(1) e stub_violation_iff[OF parse_json_ok refl, of _ _ sha "js_get source ''content''"]
    by (auto simp: prunedStubViolation_def bind_res_def split: option.splits)
  moreover have "prunedStubViolation sha source p = Inr None" unfolding iff using e by simp
  ultimately show ?thesis using p(1) by blast
qed

definition sample_source :: js where
  "sample_source = JObj [(''role'', JStr ''tool''), (''tool_call_id'', JStr ''c1''),
     (''content'', JStr (canonicalJson (JObj [(''status'', JStr ''succeeded''), (''result'', JObj [(''path'', JStr ''a.txt'')])])))]"

theorem pruned_stub_exact_witness:
  "\<exists>p. pruneToolMessage id sample_source = Inr p \<and> prunedStubViolation id sample_source p = Inr None"
proof -
  have "js_get sample_source ''role'' = JStr ''tool''" by code_simp
  from pruned_stub_exact[OF this, of id p for p] show ?thesis by blast
qed

end
