(* ===== verification/Replay.thy ===== *)
theory Replay
  imports ToolStub
begin

text \<open>
  The session reducer of \<open>packages/agent-session-store/replay.js\<close>: the durable state of an agent
  session is the fold of its event stream, and every event is checked against the state before it.

  An event is the value the schema returns: its type, identity, sequence, time and payload, a JSON
  object. The documents the reducer only compares and copies (specification, requests, messages,
  budgets, definitions, outcomes) stay JSON values; what it builds itself is typed. Objects used as maps
  are lists of entries in insertion order. They inherit the property \<open>constructor\<close>, which is a
  valid identifier: the presence checks of the code see it (\<open>present\<close>); a lookup that reads it is
  answered as absent, which throws as the code does, except that the code accepts a first context
  compaction of a turn of that name.

  The schema library and SHA-256 are parameters. A tool execution is one object reachable from its turn
  and from the session: the turn holds the invocation identifier that leads to it.
\<close>

subsection \<open>Helpers\<close>

fun js_int :: "js \<Rightarrow> int" where
  "js_int (JNum n) = n"
| "js_int _ = 0"

definition ftext :: "js \<Rightarrow> string \<Rightarrow> string" where
  "ftext v k = js_text (js_get v k)"

definition fint :: "js \<Rightarrow> string \<Rightarrow> int" where
  "fint v k = js_int (js_get v k)"

definition fitems :: "js \<Rightarrow> string \<Rightarrow> js list" where
  "fitems v k = js_items (js_get v k)"

definition ftexts :: "js \<Rightarrow> string \<Rightarrow> string list" where
  "ftexts v k = map js_text (fitems v k)"

definition str_array :: "string list \<Rightarrow> js" where
  "str_array xs = JArr (map JStr xs)"

definition last_or_undef :: "js list \<Rightarrow> js" where
  "last_or_undef xs = (if xs = [] then JUndef else last xs)"

definition last_opt :: "'a list \<Rightarrow> 'a option" where
  "last_opt xs = (if xs = [] then None else Some (last xs))"

text \<open>Assignment to a property of an object used as a map.\<close>

fun assign :: "(string \<times> 'a) list \<Rightarrow> string \<Rightarrow> 'a \<Rightarrow> (string \<times> 'a) list" where
  "assign [] k v = [(k, v)]"
| "assign ((k', v') # m) k v = (if k' = k then (k, v) # m else (k', v') # assign m k v)"

definition present :: "(string \<times> 'a) list \<Rightarrow> string \<Rightarrow> bool" where
  "present m k \<longleftrightarrow> map_of m k \<noteq> None \<or> k = ''constructor''"

text \<open>A sequence of statements \<open>if (condition) throw error\<close>.\<close>

fun guards :: "(bool \<times> jserr) list \<Rightarrow> unit res" where
  "guards [] = Inr ()"
| "guards ((bad, e) # gs) = (if bad then Inl e else guards gs)"

definition replay_error :: "string \<Rightarrow> string \<Rightarrow> jserr" where
  "replay_error message code = mk_err code message"

definition digest :: "(string \<Rightarrow> string) \<Rightarrow> js \<Rightarrow> string" where
  "digest sha256 v = ''sha256:'' @ sha256 (canonicalJson v)"

definition same_json :: "js \<Rightarrow> js \<Rightarrow> bool" where
  "same_json a b \<longleftrightarrow> canonicalJson a = canonicalJson b"

definition compactionStats :: "js list \<Rightarrow> js" where
  "compactionStats messages =
     (let bytes = int (length (canonicalJson (JArr messages))) in
      JObj [(''message_count'', JNum (int (length messages))), (''bytes'', JNum bytes), (''tokens'', JNum bytes)])"

subsection \<open>Events and state\<close>

record session_event =
  ev_id :: string
  ev_session :: string
  ev_sequence :: int
  ev_at :: string
  ev_type :: string
  ev_payload :: js

record execution =
  ex_turn :: string
  ex_step :: string
  ex_invocation :: string
  ex_call :: string
  ex_name :: string
  ex_input :: js
  ex_key :: string
  ex_started_event :: string
  ex_outcome :: "js option"
  ex_completed_event :: "string option"
  ex_completed_sequence :: int
  ex_uncertain :: "(js \<times> string option) option"

record model_step =
  st_id :: string
  st_request :: js
  st_request_event :: string
  st_sources :: "string list"
  st_events :: "js list"
  st_event_ids :: "string list"
  st_bytes :: int
  st_terminal_event :: "string option"
  st_revision :: "(string \<times> string) option"

record turn =
  tn_id :: string
  tn_input :: js
  tn_input_event :: string
  tn_input_sequence :: int
  tn_request :: "js option"
  tn_request_event :: string
  tn_source_refs :: "string list"
  tn_budget :: "js option"
  tn_events :: "js list"
  tn_event_ids :: "string list"
  tn_event_sequences :: "int list"
  tn_steps :: "model_step list"
  tn_tools :: "(string \<times> string) list"
  tn_context_compaction :: "js option"
  tn_tool_compactions :: "js list"
  tn_pending :: "js option"

record revision =
  rw_revision :: int
  rw_digest :: string
  rw_definition :: js
  rw_event :: string

record reservation =
  rv_workflow :: string
  rv_digest :: string
  rv_claim_id :: string
  rv_expires :: string
  rv_steps :: int
  rv_children :: "string list"
  rv_event :: string
  rv_claim_ref :: string
  rv_released :: "(string \<times> string) option"
  rv_revision :: "int option"
  rv_revisions :: "revision list"

record workflow =
  wf_digest :: string
  wf_phases :: "string list"

record session =
  ss_id :: "string option"
  ss_spec :: js
  ss_status :: string
  ss_sequence :: int
  ss_parent :: "js option"
  ss_turns :: "(string \<times> turn) list"
  ss_turn_order :: "string list"
  ss_operations :: "string list"
  ss_children :: "string list"
  ss_subagent :: "js option"
  ss_compactions :: "js list"
  ss_checkpoints :: "js list"
  ss_workflows :: "(string \<times> workflow) list"
  ss_reservations :: "(string \<times> reservation) list"
  ss_cancellation :: "js option"
  ss_invocations :: "(string \<times> execution) list"
  ss_terminal :: "session_event option"
  ss_reserved_tokens :: int
  ss_reports :: "string list"
  ss_seen :: "string list"

definition empty_session :: session where
  "empty_session = \<lparr>ss_id = None, ss_spec = JNull, ss_status = ''empty'', ss_sequence = 0, ss_parent = None,
     ss_turns = [], ss_turn_order = [], ss_operations = [], ss_children = [], ss_subagent = None,
     ss_compactions = [], ss_checkpoints = [], ss_workflows = [], ss_reservations = [], ss_cancellation = None,
     ss_invocations = [], ss_terminal = None, ss_reserved_tokens = 0, ss_reports = [], ss_seen = []\<rparr>"

definition limit_of :: "session \<Rightarrow> string \<Rightarrow> int" where
  "limit_of s name = fint (js_get (ss_spec s) ''limits'') name"

definition event_ref :: "string \<Rightarrow> string" where
  "event_ref i = ''session-event://'' @ i"

definition put_turn :: "session \<Rightarrow> string \<Rightarrow> turn \<Rightarrow> session" where
  "put_turn s i t = s\<lparr>ss_turns := assign (ss_turns s) i t\<rparr>"

definition requireTurn :: "session \<Rightarrow> string \<Rightarrow> session_event \<Rightarrow> turn res" where
  "requireTurn s i e =
     (case map_of (ss_turns s) i of
        None \<Rightarrow> Inl (replay_error (ev_type e @ '' references an unknown turn'') ''AGENT_SESSION_TURN_NOT_STARTED'')
      | Some t \<Rightarrow> Inr t)"

subsection \<open>Model streams and tool calls\<close>

definition stream_type :: "js \<Rightarrow> string" where
  "stream_type e = ftext e ''event_type''"

definition is_terminal :: "js \<Rightarrow> bool" where
  "is_terminal e \<longleftrightarrow> stream_type e \<in> {''completed'', ''failed''}"

definition finished_with :: "js list \<Rightarrow> string \<Rightarrow> bool" where
  "finished_with events reason \<longleftrightarrow>
     (let terminal = last_or_undef events in
      stream_type terminal = ''completed'' \<and> ftext (js_get terminal ''payload'') ''finish_reason'' = reason)"

definition content_text :: "js list \<Rightarrow> string" where
  "content_text events =
     concat (map (\<lambda>e. ftext (js_get e ''payload'') ''text'') (filter (\<lambda>e. stream_type e = ''content.delta'') events))"

record tool_call =
  tc_id :: string
  tc_name :: string
  tc_input :: js

definition call_js :: "tool_call \<Rightarrow> js" where
  "call_js c = JObj [(''tool_call_id'', JStr (tc_id c)), (''name'', JStr (tc_name c)), (''input'', tc_input c)]"

definition tool_call_error :: "string \<Rightarrow> jserr" where
  "tool_call_error message = replay_error message ''AGENT_SESSION_TOOL_CALL_INVALID''"

fun collect_calls :: "(string \<times> string option \<times> string) list \<Rightarrow> js list \<Rightarrow> (string \<times> string option \<times> string) list res" where
  "collect_calls calls [] = Inr calls"
| "collect_calls calls (e # es) =
     (if stream_type e \<noteq> ''tool_call.delta'' then collect_calls calls es
      else let p = js_get e ''payload''; i = ftext p ''tool_call_id'';
               (name, arguments) = (case map_of calls i of None \<Rightarrow> (None, []) | Some x \<Rightarrow> x);
               given = (if js_get p ''name'' = JNull then None else Some (ftext p ''name''))
           in if given \<noteq> None \<and> name \<noteq> None \<and> name \<noteq> given
              then Inl (tool_call_error ''tool call name changed across deltas'')
              else collect_calls (assign calls i (if given \<noteq> None then given else name, arguments @ ftext p ''arguments_delta'')) es)"

definition finish_call :: "string \<times> string option \<times> string \<Rightarrow> tool_call res" where
  "finish_call c =
     (case c of (i, name, arguments) \<Rightarrow>
        (case parse_json arguments of
           None \<Rightarrow> Inl (tool_call_error ''tool call arguments are not complete JSON'')
         | Some input \<Rightarrow>
             if name = None \<or> name = Some [] \<or> \<not> is_obj input
             then Inl (tool_call_error ''tool call requires a name and JSON object input'')
             else Inr \<lparr>tc_id = i, tc_name = the name, tc_input = input\<rparr>))"

definition assembledToolCalls :: "js list \<Rightarrow> tool_call list res" where
  "assembledToolCalls events = bind_res (collect_calls [] events) (map_res finish_call)"

definition toolOutcomeMessage :: "execution \<Rightarrow> js" where
  "toolOutcomeMessage x =
     (let outcome = (case ex_outcome x of None \<Rightarrow> JUndef | Some v \<Rightarrow> v) in
      JObj [(''role'', JStr ''tool''), (''name'', JStr (ex_name x)), (''tool_call_id'', JStr (ex_call x)),
            (''content'', JStr (canonicalJson (JObj (map (\<lambda>k. (k, js_get outcome k))
               [''status'', ''result'', ''error'', ''evidence_refs'', ''warnings'']))))])"

subsection \<open>Durable history\<close>

record history_item =
  hi_event :: string
  hi_ref :: string
  hi_sequence :: int
  hi_message :: js

definition history_js :: "history_item \<Rightarrow> js" where
  "history_js h = JObj [(''source_event_id'', JStr (hi_event h)), (''source_ref'', JStr (hi_ref h)),
     (''sequence'', JNum (hi_sequence h)), (''message'', hi_message h)]"

fun find_index :: "('a \<Rightarrow> bool) \<Rightarrow> 'a list \<Rightarrow> nat option" where
  "find_index P [] = None"
| "find_index P (x # xs) = (if P x then Some 0 else map_option Suc (find_index P xs))"

definition turn_history :: "turn \<Rightarrow> history_item list" where
  "turn_history t =
     \<lparr>hi_event = tn_input_event t, hi_ref = event_ref (tn_input_event t), hi_sequence = tn_input_sequence t, hi_message = tn_input t\<rparr> #
     (case find_index (\<lambda>e. stream_type e = ''completed'') (tn_events t) of
        None \<Rightarrow> []
      | Some n \<Rightarrow>
          let content = content_text (take n (tn_events t)) in
          if content = [] then []
          else [\<lparr>hi_event = tn_event_ids t ! n, hi_ref = event_ref (tn_event_ids t ! n), hi_sequence = tn_event_sequences t ! n,
                 hi_message = JObj [(''role'', JStr ''assistant''), (''content'', JStr content)]\<rparr>])"

definition durableHistory :: "session \<Rightarrow> string \<Rightarrow> history_item list" where
  "durableHistory s current =
     concat (map (\<lambda>i. case map_of (ss_turns s) i of None \<Rightarrow> [] | Some t \<Rightarrow> turn_history t)
       (takeWhile (\<lambda>i. i \<noteq> current) (ss_turn_order s)))"

definition turn_unsettled :: "turn \<Rightarrow> bool" where
  "turn_unsettled t \<longleftrightarrow>
     list_ex (\<lambda>st. \<not> list_ex is_terminal (st_events st)) (tn_steps t) \<or>
     (tn_steps t = [] \<and> tn_events t \<noteq> [] \<and> \<not> list_ex is_terminal (tn_events t))"

definition assertStartedWorkSettled :: "session \<Rightarrow> unit res" where
  "assertStartedWorkSettled s =
     guards [(list_ex (\<lambda>kt. turn_unsettled (snd kt)) (ss_turns s) \<or> list_ex (\<lambda>kx. ex_outcome (snd kx) = None) (ss_invocations s),
       replay_error ''session terminal event precedes settlement of started work'' ''AGENT_SESSION_WORK_INCOMPLETE'')]"

subsection \<open>Workflow reservations\<close>

definition checkpoint_error :: jserr where
  "checkpoint_error = replay_error ''workflow checkpoint differs from its pinned phase'' ''AGENT_SESSION_WORKFLOW_CHECKPOINT_INVALID''"

definition child_session :: "js \<Rightarrow> string" where
  "child_session step = ftext (js_get step ''child_spec'') ''session_id''"

definition phase_matches :: "js \<Rightarrow> js \<Rightarrow> bool" where
  "phase_matches checkpoint phase \<longleftrightarrow>
     ftext checkpoint ''mode'' = ftext phase ''mode'' \<and>
     same_json (js_get checkpoint ''completed_step_ids'') (JArr (map (\<lambda>st. js_get st ''step_id'') (fitems phase ''steps''))) \<and>
     same_json (js_get checkpoint ''child_session_ids'') (str_array (map child_session (fitems phase ''steps'')))"

definition assertWorkflowCheckpoint :: "(string \<Rightarrow> string) \<Rightarrow> js \<Rightarrow> js option \<Rightarrow> unit res" where
  "assertWorkflowCheckpoint sha256 checkpoint pinned =
     (case pinned of
        None \<Rightarrow> Inl checkpoint_error
      | Some d \<Rightarrow>
          (case find (\<lambda>phase. ftext phase ''phase_id'' = ftext checkpoint ''phase_id'') (fitems d ''phases'') of
             None \<Rightarrow> Inl checkpoint_error
           | Some phase \<Rightarrow>
               guards [(ftext checkpoint ''definition_digest'' \<noteq> digest sha256 d \<or> \<not> phase_matches checkpoint phase, checkpoint_error)]))"

definition definition_steps :: "js \<Rightarrow> js list" where
  "definition_steps d = concat (map (\<lambda>phase. fitems phase ''steps'') (fitems d ''phases''))"

definition checkpoint_steps :: "js \<Rightarrow> int" where
  "checkpoint_steps c =
     (case js_get c ''completed_step_ids'' of
        JArr xs \<Rightarrow> if xs = [] then 1 else int (length xs)
      | _ \<Rightarrow> 1)"

definition legacy_checkpoints :: "session \<Rightarrow> js list" where
  "legacy_checkpoints s = filter (\<lambda>c. \<not> present (ss_reservations s) (ftext c ''workflow_id'')) (ss_checkpoints s)"

definition other_reservations :: "session \<Rightarrow> string \<Rightarrow> reservation list" where
  "other_reservations s i = filter (\<lambda>r. rv_workflow r \<noteq> i) (map snd (ss_reservations s))"

definition total_steps :: "reservation list \<Rightarrow> int" where
  "total_steps rs = sum_list (map rv_steps rs)"

definition legacy_steps :: "session \<Rightarrow> int" where
  "legacy_steps s = sum_list (map checkpoint_steps (legacy_checkpoints s))"

definition child_limit :: "js \<Rightarrow> string \<Rightarrow> int" where
  "child_limit step name = fint (js_get (js_get step ''child_spec'') ''limits'') name"

definition child_authority :: "session \<Rightarrow> js \<Rightarrow> unit res" where
  "child_authority s step =
     (let spec = js_get step ''child_spec'' in
      bind_res (guards
        [(Some (ftext spec ''session_id'') = ss_id s \<or> js_get spec ''parent_session_id'' \<noteq> (case ss_id s of None \<Rightarrow> JNull | Some i \<Rightarrow> JStr i) \<or>
          js_get spec ''authority_ref'' \<noteq> js_get (ss_spec s) ''authority_ref'' \<or>
          js_get spec ''policy_ref'' \<noteq> js_get (ss_spec s) ''policy_ref'',
          replay_error ''workflow child changes parent authority'' ''AGENT_SESSION_WORKFLOW_AUTHORITY_WIDENING'')]) (\<lambda>_.
      each_res (\<lambda>kv. guards
        [(case js_get (js_get (ss_spec s) ''limits'') (fst kv) of JNum m \<Rightarrow> m < js_int (snd kv) | _ \<Rightarrow> False,
          replay_error ''workflow child widens a parent limit'' ''AGENT_SESSION_WORKFLOW_LIMIT_WIDENING'')])
        (own_fields (js_get spec ''limits''))))"

definition phase_windows :: "js \<Rightarrow> js \<Rightarrow> int" where
  "phase_windows d phase =
     (let n = int (length (fitems phase ''steps'')); m = fint d ''max_parallelism'' in
      if ftext phase ''mode'' = ''pipeline'' then n else - ((- n) div m))"

definition revision_history :: "reservation \<Rightarrow> js \<Rightarrow> revision list" where
  "revision_history r previous =
     (if rv_revision r = None
      then [\<lparr>rw_revision = 1, rw_digest = rv_digest r, rw_definition = previous, rw_event = rv_event r\<rparr>]
      else rv_revisions r)"

definition pinned_definition :: "revision list \<Rightarrow> js \<Rightarrow> js option" where
  "pinned_definition history checkpoint =
     map_option rw_definition (find (\<lambda>w. rw_digest w = ftext checkpoint ''definition_digest'') history)"

definition revise_identity :: "(string \<Rightarrow> string) \<Rightarrow> session \<Rightarrow> reservation \<Rightarrow> js \<Rightarrow> unit res" where
  "revise_identity sha256 s r p =
     (let i = ftext p ''workflow_id''; previous = js_get p ''previous_definition''; d = js_get p ''definition'';
          old_steps = definition_steps previous; old_phases = fitems previous ''phases'' in
      guards
        [(fint p ''revision'' \<noteq> (case rv_revision r of None \<Rightarrow> 1 | Some n \<Rightarrow> n) + 1,
          replay_error ''workflow revision must advance exactly once'' ''AGENT_SESSION_WORKFLOW_REVISION_INVALID''),
         (ftext previous ''workflow_id'' \<noteq> i \<or> ftext d ''workflow_id'' \<noteq> i \<or> digest sha256 previous \<noteq> rv_digest r \<or>
          int (length old_steps) \<noteq> rv_steps r \<or> \<not> same_json (str_array (map child_session old_steps)) (str_array (rv_children r)),
          replay_error ''workflow revision does not extend the pinned definition'' ''AGENT_SESSION_WORKFLOW_DEFINITION_CONFLICT''),
         (js_get d ''subagent_provider_id'' \<noteq> js_get previous ''subagent_provider_id'' \<or>
          js_get d ''max_parallelism'' \<noteq> js_get previous ''max_parallelism'' \<or>
          length (fitems d ''phases'') \<le> length old_phases \<or>
          \<not> same_json (JArr (take (length old_phases) (fitems d ''phases''))) (JArr old_phases),
          replay_error ''workflow revisions may only append phases'' ''AGENT_SESSION_WORKFLOW_REVISION_RETROACTIVE'')])"

definition revise_limits :: "session \<Rightarrow> reservation \<Rightarrow> js \<Rightarrow> unit res" where
  "revise_limits s r p =
     (let i = ftext p ''workflow_id''; steps = definition_steps (js_get p ''definition''); child_ids = map child_session steps;
          others = other_reservations s i in
      guards
        [(list_ex (\<lambda>c. c \<in> set (concat (map rv_children others))) child_ids,
          replay_error ''workflow child identity belongs to another reservation'' ''AGENT_SESSION_WORKFLOW_CHILD_INVALID''),
         (limit_of s ''max_workflow_steps'' < int (length steps) + total_steps others + legacy_steps s,
          replay_error ''workflow revision exceeds the parent step limit'' ''AGENT_SESSION_WORKFLOW_STEP_LIMIT_EXCEEDED''),
         (limit_of s ''max_children'' < int (length (uniq (ss_children s @ child_ids @ concat (map rv_children others)))),
          replay_error ''workflow revision exceeds the parent child limit'' ''AGENT_SESSION_WORKFLOW_CHILD_LIMIT_EXCEEDED''),
         (others \<noteq> [] \<or> legacy_checkpoints s \<noteq> [] \<or> list_ex (\<lambda>c. c \<notin> set (rv_children r)) (ss_children s) \<or>
          ss_turn_order s \<noteq> [] \<or> ss_operations s \<noteq> [] \<or> ss_invocations s \<noteq> [] \<or> ss_reserved_tokens s \<noteq> 0,
          replay_error ''workflow revision has unknown competing resource commitments'' ''AGENT_SESSION_WORKFLOW_BUDGET_UNKNOWN'')])"

definition revise_resources :: "session \<Rightarrow> js \<Rightarrow> unit res" where
  "revise_resources s d =
     bind_res (each_res (\<lambda>name. guards
       [(limit_of s name < sum_list (map (\<lambda>step. child_limit step name) (definition_steps d)),
         replay_error ''workflow revision exceeds aggregate resources'' ''AGENT_SESSION_WORKFLOW_RESOURCE_LIMIT_EXCEEDED'')])
       [''max_tokens'', ''max_tool_calls'', ''max_turns'']) (\<lambda>_.
     guards
       [(limit_of s ''max_duration_ms'' < sum_list (map (phase_windows d) (fitems d ''phases'')) * fint d ''join_timeout_ms'',
         replay_error ''workflow revision exceeds original duration'' ''AGENT_SESSION_WORKFLOW_DURATION_LIMIT_EXCEEDED'')])"

definition reviseWorkflow :: "(string \<Rightarrow> string) \<Rightarrow> session \<Rightarrow> session_event \<Rightarrow> session res" where
  "reviseWorkflow sha256 s e =
     (let p = ev_payload e; i = ftext p ''workflow_id''; d = js_get p ''definition'';
          claim = replay_error ''workflow revision requires the active uncancelled claim'' ''AGENT_SESSION_WORKFLOW_CLAIM_INVALID'' in
      case map_of (ss_reservations s) i of
        None \<Rightarrow> Inl claim
      | Some r \<Rightarrow>
          let history = revision_history r (js_get p ''previous_definition''); steps = definition_steps d in
          bind_res (guards [(rv_released r \<noteq> None \<or> rv_claim_ref r \<noteq> ftext p ''claim_ref'' \<or> ss_cancellation s \<noteq> None, claim)]) (\<lambda>_.
          bind_res (revise_identity sha256 s r p) (\<lambda>_.
          bind_res (revise_limits s r p) (\<lambda>_.
          bind_res (each_res (child_authority s) steps) (\<lambda>_.
          bind_res (revise_resources s d) (\<lambda>_.
          bind_res (each_res (\<lambda>c. assertWorkflowCheckpoint sha256 c (pinned_definition history c))
            (filter (\<lambda>c. ftext c ''workflow_id'' = i) (ss_checkpoints s))) (\<lambda>_.
          Inr (s\<lparr>ss_reservations := assign (ss_reservations s) i
                   (r\<lparr>rv_revision := Some (fint p ''revision''),
                      rv_revisions := history @ [\<lparr>rw_revision = fint p ''revision'', rw_digest = digest sha256 d, rw_definition = d, rw_event = ev_id e\<rparr>],
                      rv_digest := digest sha256 d, rv_steps := int (length steps), rv_children := map child_session steps\<rparr>),
                 ss_workflows := (case map_of (ss_workflows s) i of None \<Rightarrow> ss_workflows s
                   | Some w \<Rightarrow> assign (ss_workflows s) i (w\<lparr>wf_digest := digest sha256 d\<rparr>))\<rparr>))))))))"

definition workflow_reserved :: "session \<Rightarrow> session_event \<Rightarrow> session res" where
  "workflow_reserved s e =
     (let p = ev_payload e; i = ftext p ''workflow_id'';
          fresh = filter (\<lambda>c. c \<notin> set (ss_children s)) (ftexts p ''child_session_ids'') in
      bind_res (guards
        [(present (ss_reservations s) i,
          replay_error ''workflow reservation is already durable'' ''AGENT_SESSION_WORKFLOW_RESERVATION_DUPLICATE''),
         (limit_of s ''max_workflow_steps'' < total_steps (map snd (ss_reservations s)) + legacy_steps s + fint p ''step_count'',
          replay_error ''workflow reservation exceeds the parent step limit'' ''AGENT_SESSION_WORKFLOW_STEP_LIMIT_EXCEEDED''),
         (limit_of s ''max_children'' < int (length (ss_children s)) + int (length fresh),
          replay_error ''workflow reservation exceeds the parent child limit'' ''AGENT_SESSION_WORKFLOW_CHILD_LIMIT_EXCEEDED''),
         (list_ex (\<lambda>r. rv_released r = None) (map snd (ss_reservations s)),
          replay_error ''parent already has an active workflow reservation'' ''AGENT_SESSION_WORKFLOW_RESERVATION_ACTIVE'')]) (\<lambda>_.
      Inr (s\<lparr>ss_reservations := assign (ss_reservations s) i
        \<lparr>rv_workflow = i, rv_digest = ftext p ''definition_digest'', rv_claim_id = ftext p ''claim_id'',
         rv_expires = ftext p ''claim_expires_at'', rv_steps = fint p ''step_count'', rv_children = ftexts p ''child_session_ids'',
         rv_event = ev_id e, rv_claim_ref = event_ref (ev_id e), rv_released = None, rv_revision = None, rv_revisions = []\<rparr>\<rparr>)))"

text \<open>
  \<open>Date.parse\<close> on the date-times the schema accepts: a date, a time with optional seconds and
  fraction, and \<open>Z\<close> or an offset. The fraction counts to the millisecond.
\<close>

definition days_from_civil :: "int \<Rightarrow> int \<Rightarrow> int \<Rightarrow> int" where
  "days_from_civil y m d =
     (let y' = (if m \<le> 2 then y - 1 else y); era = y' div 400; yoe = y' - era * 400;
          doy = (153 * (if 2 < m then m - 3 else m + 9) + 2) div 5 + d - 1;
          doe = yoe * 365 + yoe div 4 - yoe div 100 + doy
      in era * 146097 + doe - 719468)"

definition offset_ms :: "string \<Rightarrow> int" where
  "offset_ms z =
     (if z = ''Z'' then 0
      else (if hd z = CHR ''-'' then 1 else - 1) * (int (dnum (take 2 (drop 1 z))) * 3600000 + int (dnum (drop (length z - 2) z)) * 60000))"

definition fraction_ms :: "string \<Rightarrow> int" where
  "fraction_ms f = int (dnum (take 3 (f @ ''000'')))"

definition date_ms :: "string \<Rightarrow> int" where
  "date_ms s =
     (let y = int (dnum (take 4 s)); m = int (dnum (take 2 (drop 5 s))); d = int (dnum (take 2 (drop 8 s)));
          h = int (dnum (take 2 (drop 11 s))); mi = int (dnum (take 2 (drop 14 s))); r = drop 16 s;
          sec = (if take 1 r = '':'' then int (dnum (take 2 (drop 1 r))) else 0);
          r1 = (if take 1 r = '':'' then drop 3 r else r);
          frac = (if take 1 r1 = ''.'' then takeWhile digit (drop 1 r1) else []);
          z = (if take 1 r1 = ''.'' then dropWhile digit (drop 1 r1) else r1)
      in days_from_civil y m d * 86400000 + h * 3600000 + mi * 60000 + sec * 1000 + fraction_ms frac + offset_ms z)"

definition workflow_reclaimed :: "session \<Rightarrow> session_event \<Rightarrow> session res" where
  "workflow_reclaimed s e =
     (let p = ev_payload e; i = ftext p ''workflow_id'';
          bad = replay_error ''workflow reclaim does not match the active claim'' ''AGENT_SESSION_WORKFLOW_RECLAIM_INVALID'' in
      case map_of (ss_reservations s) i of
        None \<Rightarrow> Inl bad
      | Some r \<Rightarrow>
          bind_res (guards
            [(rv_released r \<noteq> None \<or> rv_digest r \<noteq> ftext p ''definition_digest'' \<or> rv_claim_ref r \<noteq> ftext p ''prior_claim_ref'' \<or>
              date_ms (ev_at e) \<le> date_ms (rv_expires r), bad)]) (\<lambda>_.
          Inr (s\<lparr>ss_reservations := assign (ss_reservations s) i
                 (r\<lparr>rv_claim_id := ftext p ''claim_id'', rv_expires := ftext p ''claim_expires_at'', rv_claim_ref := event_ref (ev_id e)\<rparr>)\<rparr>)))"

definition workflow_released :: "session \<Rightarrow> session_event \<Rightarrow> session res" where
  "workflow_released s e =
     (let p = ev_payload e; i = ftext p ''workflow_id'';
          bad = replay_error ''workflow release does not match one active reservation'' ''AGENT_SESSION_WORKFLOW_RELEASE_INVALID'' in
      case map_of (ss_reservations s) i of
        None \<Rightarrow> Inl bad
      | Some r \<Rightarrow>
          bind_res (guards
            [(rv_released r \<noteq> None \<or> rv_digest r \<noteq> ftext p ''definition_digest'' \<or> rv_claim_ref r \<noteq> ftext p ''claim_ref'', bad)]) (\<lambda>_.
          Inr (s\<lparr>ss_reservations := assign (ss_reservations s) i (r\<lparr>rv_released := Some (ftext p ''status'', ev_id e)\<rparr>)\<rparr>)))"

definition with_event_id :: "session_event \<Rightarrow> js" where
  "with_event_id e = JObj (put_field (own_fields (ev_payload e)) ''event_id'' (JStr (ev_id e)))"

definition revised :: "session \<Rightarrow> string \<Rightarrow> bool" where
  "revised s i \<longleftrightarrow> (case map_of (ss_reservations s) i of None \<Rightarrow> False | Some r \<Rightarrow> rv_revision r \<noteq> None)"

definition workflow_checkpointed :: "session \<Rightarrow> session_event \<Rightarrow> session res" where
  "workflow_checkpointed s e =
     bind_res (guards
       [(revised s (ftext (ev_payload e) ''workflow_id''),
         replay_error ''revised workflows require pinned phase checkpoints'' ''AGENT_SESSION_WORKFLOW_CHECKPOINT_INVALID'')]) (\<lambda>_.
     Inr (s\<lparr>ss_checkpoints := ss_checkpoints s @ [with_event_id e]\<rparr>))"

definition completed_steps :: "session \<Rightarrow> string \<Rightarrow> int" where
  "completed_steps s i =
     sum_list (map (\<lambda>c. int (length (fitems c ''completed_step_ids'')))
       (filter (\<lambda>c. ftext c ''workflow_id'' = i \<and> js_truthy (js_get c ''completed_step_ids'')) (ss_checkpoints s)))"

definition pinned_checkpoint :: "(string \<Rightarrow> string) \<Rightarrow> session \<Rightarrow> reservation option \<Rightarrow> js \<Rightarrow> unit res" where
  "pinned_checkpoint sha256 s r p =
     (case r of
        Some v \<Rightarrow>
          if rv_revision v = None then Inr ()
          else bind_res (guards
            [(rv_released v \<noteq> None \<or> ss_cancellation s \<noteq> None,
              replay_error ''revised workflow checkpoint requires an active claim'' ''AGENT_SESSION_WORKFLOW_CLAIM_INVALID'')]) (\<lambda>_.
            assertWorkflowCheckpoint sha256 p (pinned_definition (rv_revisions v) p))
      | None \<Rightarrow> Inr ())"

definition workflow_phase_checkpointed :: "(string \<Rightarrow> string) \<Rightarrow> session \<Rightarrow> session_event \<Rightarrow> session res" where
  "workflow_phase_checkpointed sha256 s e =
     (let p = ev_payload e; i = ftext p ''workflow_id''; r = map_of (ss_reservations s) i;
          w = (case map_of (ss_workflows s) i of Some w \<Rightarrow> w
               | None \<Rightarrow> \<lparr>wf_digest = (if revised s i then rv_digest (the r) else ftext p ''definition_digest''), wf_phases = []\<rparr>) in
      bind_res (pinned_checkpoint sha256 s r p) (\<lambda>_.
      bind_res (guards
        [(map_option rv_claim_ref r \<noteq> Some (ftext p ''claim_ref''),
          replay_error ''workflow checkpoint is fenced by a different claim'' ''AGENT_SESSION_WORKFLOW_CLAIM_INVALID''),
         (list_ex (\<lambda>c. c \<notin> set (ss_children s)) (ftexts p ''child_session_ids''),
          replay_error ''workflow checkpoint references an unattached child'' ''AGENT_SESSION_WORKFLOW_CHILD_INVALID''),
         (\<not> revised s i \<and> wf_digest w \<noteq> ftext p ''definition_digest'',
          replay_error ''workflow identifier has a different durable definition'' ''AGENT_SESSION_WORKFLOW_DEFINITION_CONFLICT''),
         (ftext p ''phase_id'' \<in> set (wf_phases w),
          replay_error ''workflow phase is already checkpointed'' ''AGENT_SESSION_WORKFLOW_PHASE_DUPLICATE''),
         ((case r of Some v \<Rightarrow> if rv_steps v = 0 then limit_of s ''max_workflow_steps'' else rv_steps v
             | None \<Rightarrow> limit_of s ''max_workflow_steps'') < completed_steps s i + int (length (fitems p ''completed_step_ids'')),
          replay_error ''workflow step limit is exhausted'' ''AGENT_SESSION_WORKFLOW_STEP_LIMIT_EXCEEDED'')]) (\<lambda>_.
      Inr (s\<lparr>ss_workflows := assign (ss_workflows s) i (w\<lparr>wf_phases := wf_phases w @ [ftext p ''phase_id'']\<rparr>),
             ss_checkpoints := ss_checkpoints s @ [with_event_id e]\<rparr>))))"

subsection \<open>Turns and requests\<close>

definition turn_started :: "session \<Rightarrow> session_event \<Rightarrow> session res" where
  "turn_started s e =
     (let p = ev_payload e; i = ftext p ''turn_id'' in
      bind_res (guards [(present (ss_turns s) i, replay_error ''turn identifier is already present'' ''AGENT_SESSION_DUPLICATE_TURN'')]) (\<lambda>_.
      Inr (s\<lparr>ss_turns := assign (ss_turns s) i
               \<lparr>tn_id = i, tn_input = js_get p ''input'', tn_input_event = ev_id e, tn_input_sequence = ev_sequence e,
                tn_request = None, tn_request_event = [], tn_source_refs = [], tn_budget = None,
                tn_events = [], tn_event_ids = [], tn_event_sequences = [], tn_steps = [], tn_tools = [],
                tn_context_compaction = None, tn_tool_compactions = [], tn_pending = None\<rparr>,
             ss_turn_order := ss_turn_order s @ [i]\<rparr>)))"

definition visible_history :: "js \<Rightarrow> js list" where
  "visible_history request = filter (\<lambda>m. ftext m ''role'' \<noteq> ''system'') (butlast (tl (fitems request ''messages'')))"

definition retained_items :: "js \<Rightarrow> history_item list \<Rightarrow> history_item list" where
  "retained_items compaction durable = filter (\<lambda>h. hi_event h \<in> set (ftexts compaction ''retained_source_event_ids'')) durable"

definition ordinary_invalid :: "js list \<Rightarrow> history_item list \<Rightarrow> string list \<Rightarrow> bool" where
  "ordinary_invalid visible durable refs \<longleftrightarrow>
     (let selected = (if visible = [] then [] else drop (length durable - length visible) durable) in
      length durable < length visible \<or> \<not> same_json (JArr visible) (JArr (map hi_message selected)) \<or>
      list_ex (\<lambda>h. hi_ref h \<notin> set refs) selected)"

definition compacted_invalid :: "js \<Rightarrow> js list \<Rightarrow> history_item list \<Rightarrow> string list \<Rightarrow> bool" where
  "compacted_invalid compaction visible durable refs \<longleftrightarrow>
     (let retained = retained_items compaction durable;
          first = (case fitems compaction ''replacement_messages'' of [] \<Rightarrow> JUndef | m # _ \<Rightarrow> m) in
      \<not> same_json (JArr visible) (JArr (first # map hi_message retained)) \<or>
      event_ref (ftext compaction ''event_id'') \<notin> set refs \<or>
      list_ex (\<lambda>h. hi_ref h \<notin> set refs) retained \<or>
      list_ex (\<lambda>h. hi_ref h \<in> set refs) (filter (\<lambda>h. hi_event h \<in> set (ftexts compaction ''source_event_ids'')) durable))"

definition provider_mismatch :: "session \<Rightarrow> js \<Rightarrow> bool" where
  "provider_mismatch s request \<longleftrightarrow>
     js_get request ''provider_id'' \<noteq> js_get (js_get (ss_spec s) ''execution'') ''model_provider_id'' \<or>
     js_get request ''model'' \<noteq> js_get (js_get (ss_spec s) ''execution'') ''model''"

definition provenance_mismatch :: "js \<Rightarrow> js \<Rightarrow> bool" where
  "provenance_mismatch budget compaction \<longleftrightarrow>
     js_get budget ''compaction_provider_id'' \<noteq> js_get compaction ''provider_id'' \<or>
     js_get budget ''checkpoint_provider_id'' \<noteq> js_get compaction ''checkpoint_provider_id'' \<or>
     \<not> same_json (js_get budget ''compaction_provider_manifest'') (js_get compaction ''provider_manifest'')"

definition context_assembled :: "session \<Rightarrow> session_event \<Rightarrow> session res" where
  "context_assembled s e =
     (let p = ev_payload e; i = ftext p ''turn_id''; request = js_get p ''request''; budget = js_get p ''budget''; refs = ftexts p ''source_refs'' in
      bind_res (requireTurn s i e) (\<lambda>t.
      let durable = durableHistory s i; visible = visible_history request in
      bind_res (guards
        [(tn_request t \<noteq> None, replay_error ''a turn may have only one assembled request'' ''AGENT_SESSION_DUPLICATE_REQUEST''),
         (ftext (js_get (ss_spec s) ''execution'') ''mode'' \<noteq> ''kernel'',
          replay_error ''delegated sessions cannot contain kernel model requests'' ''AGENT_SESSION_EXECUTION_MODE_MISMATCH''),
         (provider_mismatch s request,
          replay_error ''assembled request provider or model differs from the durable session'' ''AGENT_SESSION_PROVIDER_MISMATCH''),
         (\<not> same_json (last_or_undef (fitems request ''messages'')) (tn_input t),
          replay_error ''assembled request does not end with the durable turn input'' ''AGENT_SESSION_TURN_INPUT_MISMATCH''),
         (event_ref (tn_input_event t) \<notin> set refs,
          replay_error ''assembled request does not reference the durable turn event'' ''AGENT_SESSION_SOURCE_MISMATCH''),
         (ftext budget ''overflow_policy'' = ''compact'' \<and>
            (case tn_context_compaction t of None \<Rightarrow> False | Some c \<Rightarrow> provenance_mismatch budget c),
          replay_error ''context compaction provenance differs from selected budget providers'' ''AGENT_SESSION_COMPACTION_PROVENANCE_INVALID''),
         (case tn_context_compaction t of None \<Rightarrow> ordinary_invalid visible durable refs
            | Some c \<Rightarrow> compacted_invalid c visible durable refs,
          replay_error ''model-visible history is not a durable contiguous suffix'' ''AGENT_SESSION_HISTORY_MISMATCH'')]) (\<lambda>_.
      Inr (put_turn s i (t\<lparr>tn_request := Some request, tn_source_refs := refs, tn_budget := Some budget, tn_request_event := ev_id e\<rparr>)))))"

subsection \<open>Model steps\<close>

definition find_step :: "turn \<Rightarrow> string \<Rightarrow> model_step option" where
  "find_step t i = find (\<lambda>st. st_id st = i) (tn_steps t)"

definition stable_request :: "js \<Rightarrow> js \<Rightarrow> js" where
  "stable_request request previous =
     JObj (put_field (put_field (own_fields request) ''request_id'' (js_get previous ''request_id'')) ''messages'' (js_get previous ''messages''))"

definition request_error :: "string \<Rightarrow> jserr" where
  "request_error message = replay_error message ''AGENT_SESSION_REQUEST_MISMATCH''"

definition executions_of :: "session \<Rightarrow> turn \<Rightarrow> tool_call list \<Rightarrow> execution option list" where
  "executions_of s t calls =
     map (\<lambda>c. Option.bind (map_of (tn_tools t) (tc_id c)) (map_of (ss_invocations s))) calls"

definition completed_js :: "execution option \<Rightarrow> js" where
  "completed_js x = (case x of None \<Rightarrow> JUndef | Some y \<Rightarrow> (case ex_completed_event y of None \<Rightarrow> JNull | Some i \<Rightarrow> JStr i))"

definition has_outcome :: "execution option \<Rightarrow> bool" where
  "has_outcome x \<longleftrightarrow> (case x of None \<Rightarrow> False | Some y \<Rightarrow> ex_outcome y \<noteq> None)"

definition replaced_prefix :: "js option \<Rightarrow> js list \<Rightarrow> js list" where
  "replaced_prefix older messages =
     (case older of
        None \<Rightarrow> messages
      | Some record_ \<Rightarrow>
          map (\<lambda>m. if ftext m ''role'' = ''tool''
                   then (case map_of (rev (map (\<lambda>r. (js_get r ''tool_call_id'', r)) (fitems record_ ''replacement_messages'')))
                           (js_get m ''tool_call_id'') of None \<Rightarrow> m | Some r \<Rightarrow> r)
                   else m) messages)"

definition assistant_message :: "string \<Rightarrow> js" where
  "assistant_message content = JObj [(''role'', JStr ''assistant''), (''content'', JStr content)]"

definition initial_step_check :: "turn \<Rightarrow> js \<Rightarrow> unit res" where
  "initial_step_check t p =
     guards
       [(\<not> same_json (js_get p ''request'') (case tn_request t of None \<Rightarrow> JNull | Some r \<Rightarrow> r) \<or>
         \<not> same_json (js_get p ''source_event_ids'') (str_array [tn_request_event t]),
         request_error ''initial model step must use the assembled request'')]"

definition nullable_str :: "string option \<Rightarrow> js" where
  "nullable_str x = (case x of None \<Rightarrow> JNull | Some i \<Rightarrow> JStr i)"

definition revision_step_check :: "model_step \<Rightarrow> string \<times> string \<Rightarrow> js \<Rightarrow> unit res" where
  "revision_step_check previous revision p =
     (let request = js_get p ''request'';
          expected = fitems (st_request previous) ''messages'' @
            [assistant_message (content_text (st_events previous)),
             JObj [(''role'', JStr ''user''), (''content'', JStr (fst revision))]] in
      guards
        [(\<not> same_json (js_get request ''messages'') (JArr expected) \<or>
          \<not> same_json (js_get p ''source_event_ids'') (JArr [nullable_str (st_terminal_event previous), JStr (snd revision)]) \<or>
          \<not> same_json (stable_request request (st_request previous)) (st_request previous),
          request_error ''revision continuation differs from durable review'')])"

definition tool_compaction_for :: "turn \<Rightarrow> execution option list \<Rightarrow> js option" where
  "tool_compaction_for t xs =
     find (\<lambda>c. same_json (js_get c ''source_event_ids'') (JArr (map completed_js xs))) (tn_tool_compactions t)"

definition includes_js :: "js list \<Rightarrow> js \<Rightarrow> bool" where
  "includes_js xs v \<longleftrightarrow> v \<in> set xs"

definition expected_messages :: "turn \<Rightarrow> model_step \<Rightarrow> tool_call list \<Rightarrow> execution option list \<Rightarrow> js list" where
  "expected_messages t previous calls xs =
     replaced_prefix (tn_pending t) (fitems (st_request previous) ''messages'') @
     [JObj [(''role'', JStr ''assistant''), (''content'', JStr (content_text (st_events previous))), (''tool_calls'', JArr (map call_js calls))]] @
     (case tool_compaction_for t xs of
        Some c \<Rightarrow> fitems c ''replacement_messages''
      | None \<Rightarrow> map (\<lambda>x. toolOutcomeMessage (the x)) xs)"

definition expected_sources :: "turn \<Rightarrow> model_step \<Rightarrow> execution option list \<Rightarrow> js list" where
  "expected_sources t previous xs =
     [nullable_str (st_terminal_event previous)] @
     (case tn_pending t of None \<Rightarrow> [] | Some c \<Rightarrow> [js_get c ''event_id'']) @
     (case tool_compaction_for t xs of Some c \<Rightarrow> [js_get c ''event_id''] | None \<Rightarrow> map completed_js xs)"

definition continuation_check :: "session \<Rightarrow> turn \<Rightarrow> model_step \<Rightarrow> js \<Rightarrow> unit res" where
  "continuation_check s t previous p =
     (let request = js_get p ''request''; messages = fitems request ''messages'';
          before = fitems (st_request previous) ''messages''; sources = fitems p ''source_event_ids'' in
      bind_res (guards
        [(\<not> finished_with (st_events previous) ''tool_calls'',
          replay_error ''a continuation requires a completed tool-call step'' ''AGENT_SESSION_MODEL_STEP_ORDER_INVALID''),
         (\<not> same_json (JArr (take (length before) messages)) (JArr (replaced_prefix (tn_pending t) before)) \<or>
          length messages \<le> length before \<or> \<not> includes_js sources (nullable_str (st_terminal_event previous)),
          request_error ''continuation request does not preserve its durable predecessor'')]) (\<lambda>_.
      bind_res (assembledToolCalls (st_events previous)) (\<lambda>calls.
      let xs = executions_of s t calls in
      guards
        [(list_ex (\<lambda>x. \<not> has_outcome x) xs \<or>
          (case tool_compaction_for t xs of
             None \<Rightarrow> list_ex (\<lambda>x. \<not> includes_js sources (completed_js x)) xs
           | Some c \<Rightarrow> \<not> includes_js sources (js_get c ''event_id'')),
          replay_error ''model continuation precedes durable tool outcomes'' ''AGENT_SESSION_TOOL_INCOMPLETE''),
         (\<not> same_json (js_get request ''messages'') (JArr (expected_messages t previous calls xs)) \<or>
          \<not> same_json (js_get p ''source_event_ids'') (JArr (expected_sources t previous xs)) \<or>
          \<not> same_json (stable_request request (st_request previous)) (st_request previous),
          request_error ''continuation request differs from durable model and tool facts'')])))"

definition step_check :: "session \<Rightarrow> turn \<Rightarrow> js \<Rightarrow> unit res" where
  "step_check s t p =
     (case last_opt (tn_steps t) of
        None \<Rightarrow> initial_step_check t p
      | Some previous \<Rightarrow>
          (case st_revision previous of
             Some revision \<Rightarrow> revision_step_check previous revision p
           | None \<Rightarrow> continuation_check s t previous p))"

definition model_request_started :: "session \<Rightarrow> session_event \<Rightarrow> session res" where
  "model_request_started s e =
     (let p = ev_payload e; i = ftext p ''turn_id''; request = js_get p ''request'' in
      bind_res (requireTurn s i e) (\<lambda>t.
      bind_res (guards
        [(tn_request t = None, replay_error ''model work cannot start before context assembly'' ''AGENT_SESSION_REQUEST_NOT_ASSEMBLED''),
         (find_step t (ftext p ''step_id'') \<noteq> None \<or> ftext p ''step_id'' = ''constructor'',
          replay_error ''model step identifier is already present'' ''AGENT_SESSION_DUPLICATE_MODEL_STEP''),
         (list_ex (\<lambda>st. js_get (st_request st) ''request_id'' = js_get request ''request_id'') (tn_steps t),
          replay_error ''model request identifier is already present'' ''AGENT_SESSION_DUPLICATE_MODEL_REQUEST''),
         (provider_mismatch s request,
          replay_error ''model step provider differs from the durable session'' ''AGENT_SESSION_PROVIDER_MISMATCH''),
         (list_ex (\<lambda>x. x \<notin> set (ss_seen s)) (ftexts p ''source_event_ids''),
          replay_error ''model step references a missing or future source event'' ''AGENT_SESSION_SOURCE_MISMATCH''),
         (tn_pending t \<noteq> None \<and> (case last_opt (tn_steps t) of None \<Rightarrow> True | Some st \<Rightarrow> st_revision st \<noteq> None),
          request_error ''older tool compaction has no continuation to serve'')]) (\<lambda>_.
      bind_res (step_check s t p) (\<lambda>_.
      Inr (put_turn s i (t\<lparr>tn_pending := None,
        tn_steps := tn_steps t @ [\<lparr>st_id = ftext p ''step_id'', st_request = request, st_request_event = ev_id e,
          st_sources = ftexts p ''source_event_ids'', st_events = [], st_event_ids = [], st_bytes = 2,
          st_terminal_event = None, st_revision = None\<rparr>]\<rparr>))))))"

definition replace_step :: "turn \<Rightarrow> model_step \<Rightarrow> turn" where
  "replace_step t st = t\<lparr>tn_steps := map (\<lambda>x. if st_id x = st_id st then st else x) (tn_steps t)\<rparr>"

definition model_revision_requested :: "session \<Rightarrow> session_event \<Rightarrow> session res" where
  "model_revision_requested s e =
     (let p = ev_payload e; i = ftext p ''turn_id'';
          bad = replay_error ''revision requires the latest completed model response'' ''AGENT_SESSION_MODEL_STEP_ORDER_INVALID'' in
      bind_res (requireTurn s i e) (\<lambda>t.
      case last_opt (tn_steps t) of
        None \<Rightarrow> Inl bad
      | Some st \<Rightarrow>
          bind_res (guards
            [(st_id st \<noteq> ftext p ''step_id'' \<or> st_revision st \<noteq> None \<or> \<not> finished_with (st_events st) ''stop'', bad)]) (\<lambda>_.
          Inr (put_turn s i (replace_step t (st\<lparr>st_revision := Some (ftext p ''feedback'', ev_id e)\<rparr>))))))"

definition MAX_MODEL_EVENTS_PER_STEP :: int where "MAX_MODEL_EVENTS_PER_STEP = 4096"
definition MAX_MODEL_STREAM_BYTES_PER_STEP :: int where "MAX_MODEL_STREAM_BYTES_PER_STEP = 16777216"
definition MODEL_TERMINAL_RESERVE_BYTES :: int where "MODEL_TERMINAL_RESERVE_BYTES = 8192"

definition next_bytes :: "model_step \<Rightarrow> js \<Rightarrow> int" where
  "next_bytes st ev = st_bytes st + (if st_events st = [] then 0 else 1) + int (length (canonicalJson ev))"

definition stream_limit :: "model_step \<Rightarrow> js \<Rightarrow> bool" where
  "stream_limit st ev \<longleftrightarrow>
     (let n = int (length (st_events st)); bytes = next_bytes st ev; terminal = is_terminal ev in
      MAX_MODEL_EVENTS_PER_STEP \<le> n \<or> (\<not> terminal \<and> MAX_MODEL_EVENTS_PER_STEP - 1 \<le> n) \<or>
      MAX_MODEL_STREAM_BYTES_PER_STEP < bytes \<or>
      (\<not> terminal \<and> MAX_MODEL_STREAM_BYTES_PER_STEP - MODEL_TERMINAL_RESERVE_BYTES < bytes))"

definition stream_into :: "turn \<Rightarrow> model_step option \<Rightarrow> session_event \<Rightarrow> js \<Rightarrow> turn" where
  "stream_into t st e ev =
     (let t1 = t\<lparr>tn_events := tn_events t @ [ev], tn_event_ids := tn_event_ids t @ [ev_id e],
                 tn_event_sequences := tn_event_sequences t @ [ev_sequence e]\<rparr> in
      case st of
        None \<Rightarrow> t1
      | Some x \<Rightarrow>
          replace_step t1 (x\<lparr>st_bytes := next_bytes x ev, st_events := st_events x @ [ev], st_event_ids := st_event_ids x @ [ev_id e],
            st_terminal_event := (if is_terminal ev then Some (ev_id e) else st_terminal_event x)\<rparr>))"

definition model_streamed :: "session \<Rightarrow> session_event \<Rightarrow> session res" where
  "model_streamed s e =
     (let p = ev_payload e; i = ftext p ''turn_id''; ev = js_get p ''event''; named = js_truthy (js_get p ''step_id'') in
      bind_res (requireTurn s i e) (\<lambda>t.
      let st = (if named then find_step t (ftext p ''step_id'') else None);
          request = (case st of Some x \<Rightarrow> st_request x | None \<Rightarrow> (case tn_request t of None \<Rightarrow> JNull | Some r \<Rightarrow> r));
          target = (case st of Some x \<Rightarrow> st_events x | None \<Rightarrow> tn_events t) in
      bind_res (guards
        [(tn_request t = None, replay_error ''model stream cannot precede context assembly'' ''AGENT_SESSION_REQUEST_NOT_ASSEMBLED''),
         (named \<and> st = None, replay_error ''model stream references an unknown step'' ''AGENT_SESSION_MODEL_STEP_NOT_STARTED''),
         (ev = JUndef \<or> ev = JNull, replay_error ''Cannot read properties of undefined or null'' []),
         (js_get ev ''request_id'' \<noteq> js_get request ''request_id'' \<or> js_get p ''provider_id'' \<noteq> js_get request ''provider_id'',
          replay_error ''model stream identity does not match the assembled request'' ''AGENT_SESSION_MODEL_IDENTITY_MISMATCH''),
         (fint ev ''sequence'' \<noteq> int (length target),
          replay_error ''model stream sequence contains a gap or duplicate'' ''AGENT_SESSION_MODEL_SEQUENCE_INVALID''),
         (list_ex is_terminal target,
          replay_error ''model stream continues after a terminal provider event'' ''AGENT_SESSION_MODEL_ALREADY_TERMINAL''),
         (st \<noteq> None \<and> ev = JFun, replay_error ''a value without JSON text has no byte length'' []),
         (case st of Some x \<Rightarrow> stream_limit x ev | None \<Rightarrow> False,
          replay_error ''model step exceeds its cumulative stream bound'' ''AGENT_SESSION_MODEL_STREAM_LIMIT'')]) (\<lambda>_.
      Inr (put_turn s i (stream_into t st e ev)))))"

subsection \<open>Tool executions\<close>

definition new_execution :: "session_event \<Rightarrow> execution" where
  "new_execution e =
     (let p = ev_payload e in
      \<lparr>ex_turn = ftext p ''turn_id'', ex_step = ftext p ''step_id'', ex_invocation = ftext p ''invocation_id'',
       ex_call = ftext p ''tool_call_id'', ex_name = ftext p ''name'', ex_input = js_get p ''input'',
       ex_key = ftext p ''idempotency_key'', ex_started_event = ev_id e, ex_outcome = None,
       ex_completed_event = None, ex_completed_sequence = 0, ex_uncertain = None\<rparr>)"

definition tool_execution_started :: "session \<Rightarrow> session_event \<Rightarrow> session res" where
  "tool_execution_started s e =
     (let p = ev_payload e; i = ftext p ''turn_id''; call_id = ftext p ''tool_call_id''; invocation = ftext p ''invocation_id'' in
      bind_res (requireTurn s i e) (\<lambda>t.
      let st = find_step t (ftext p ''step_id'') in
      bind_res (guards
        [(case st of None \<Rightarrow> True | Some x \<Rightarrow> \<not> finished_with (st_events x) ''tool_calls'',
          replay_error ''tool execution requires a durable completed tool-call step'' ''AGENT_SESSION_TOOL_STEP_INVALID''),
         (present (ss_invocations s) invocation \<or> present (tn_tools t) call_id,
          replay_error ''tool execution identity is already present'' ''AGENT_SESSION_DUPLICATE_TOOL_EXECUTION'')]) (\<lambda>_.
      bind_res (assembledToolCalls (st_events (the st))) (\<lambda>calls.
      bind_res (guards
        [(case find (\<lambda>c. tc_id c = call_id) calls of
            None \<Rightarrow> True
          | Some c \<Rightarrow> tc_name c \<noteq> ftext p ''name'' \<or> \<not> same_json (tc_input c) (js_get p ''input''),
          replay_error ''tool execution differs from the durable model call'' ''AGENT_SESSION_TOOL_CALL_MISMATCH''),
         (limit_of s ''max_tool_calls'' \<le> int (length (ss_invocations s)),
          replay_error ''session tool-call limit is exhausted'' ''AGENT_SESSION_TOOL_LIMIT_EXCEEDED'')]) (\<lambda>_.
      Inr ((put_turn s i (t\<lparr>tn_tools := assign (tn_tools t) call_id invocation\<rparr>))
             \<lparr>ss_invocations := assign (ss_invocations s) invocation (new_execution e)\<rparr>))))))"

definition reconciliation_ref :: "string \<Rightarrow> bool" where
  "reconciliation_ref r \<longleftrightarrow>
     take 17 r = ''reconciliation://'' \<and> length r = 81 \<and>
     list_all (\<lambda>c. digit c \<or> (CHR ''a'' \<le> c \<and> c \<le> CHR ''f'')) (drop 17 r)"

definition settle_execution :: "session \<Rightarrow> string \<Rightarrow> execution \<Rightarrow> session_event \<Rightarrow> session" where
  "settle_execution s invocation x e =
     s\<lparr>ss_invocations := assign (ss_invocations s) invocation
         (x\<lparr>ex_outcome := Some (js_get (ev_payload e) ''outcome''), ex_completed_event := Some (ev_id e), ex_completed_sequence := ev_sequence e\<rparr>)\<rparr>"

definition tool_execution_reconciled :: "session \<Rightarrow> session_event \<Rightarrow> session res" where
  "tool_execution_reconciled s e =
     (let p = ev_payload e; outcome = js_get p ''outcome''; invocation = ftext outcome ''invocation_id'';
          bad = replay_error ''Reconciliation must reference a pending uncertain execution'' ''AGENT_SESSION_REPLAY_INVALID'' in
      case map_of (ss_invocations s) invocation of
        None \<Rightarrow> Inl bad
      | Some x \<Rightarrow>
          bind_res (guards
            [((case ex_outcome x of None \<Rightarrow> True | Some o' \<Rightarrow> ftext o' ''status'' \<noteq> ''uncertain'') \<or>
              ex_turn x \<noteq> ftext p ''turn_id'' \<or> ex_step x \<noteq> ftext p ''step_id'' \<or> ex_call x \<noteq> ftext outcome ''tool_call_id'' \<or>
              ex_name x \<noteq> ftext outcome ''name'' \<or> \<not> list_ex reconciliation_ref (ftexts outcome ''evidence_refs''), bad)]) (\<lambda>_.
          Inr (settle_execution s invocation (x\<lparr>ex_uncertain := Some (the (ex_outcome x), ex_completed_event x)\<rparr>) e)))"

definition tool_execution_completed :: "session \<Rightarrow> session_event \<Rightarrow> session res" where
  "tool_execution_completed s e =
     (let p = ev_payload e; i = ftext p ''turn_id''; outcome = js_get p ''outcome''; invocation = ftext outcome ''invocation_id'';
          bad = replay_error ''tool outcome does not match one pending durable execution'' ''AGENT_SESSION_TOOL_OUTCOME_MISMATCH'' in
      bind_res (requireTurn s i e) (\<lambda>t.
      case map_of (ss_invocations s) invocation of
        None \<Rightarrow> Inl bad
      | Some x \<Rightarrow>
          bind_res (guards
            [(ex_outcome x \<noteq> None \<or> ex_step x \<noteq> ftext p ''step_id'' \<or> ex_call x \<noteq> ftext outcome ''tool_call_id'' \<or>
              ex_name x \<noteq> ftext outcome ''name'', bad)]) (\<lambda>_.
          Inr (settle_execution (put_turn s i (t\<lparr>tn_tools := assign (tn_tools t) (ex_call x) invocation\<rparr>)) invocation x e))))"

definition tool_operation_linked :: "session \<Rightarrow> session_event \<Rightarrow> session res" where
  "tool_operation_linked s e =
     (let p = ev_payload e; call_id = ftext p ''tool_call_id''; operation = ftext p ''operation_id'' in
      bind_res (requireTurn s (ftext p ''turn_id'') e) (\<lambda>t.
      bind_res (guards
        [(case Option.bind (map_of (tn_tools t) call_id) (map_of (ss_invocations s)) of
            None \<Rightarrow> call_id = ''constructor''
          | Some x \<Rightarrow> (case ex_outcome x of None \<Rightarrow> True | Some o' \<Rightarrow> js_get o' ''operation_id'' \<noteq> JStr operation),
          replay_error ''operation link differs from the durable tool outcome'' ''AGENT_SESSION_OPERATION_MISMATCH''),
         (operation \<in> set (ss_operations s),
          replay_error ''governed operation is already linked'' ''AGENT_SESSION_DUPLICATE_OPERATION'')]) (\<lambda>_.
      Inr (s\<lparr>ss_operations := ss_operations s @ [operation]\<rparr>))))"

subsection \<open>Compaction\<close>

definition order_violation :: "string \<Rightarrow> jserr" where
  "order_violation message = replay_error message ''AGENT_SESSION_COMPACTION_ORDER_INVALID''"

definition lineage_violation :: "string \<Rightarrow> jserr" where
  "lineage_violation message = replay_error message ''AGENT_SESSION_COMPACTION_LINEAGE_INVALID''"

definition identity_violation :: "string \<Rightarrow> jserr" where
  "identity_violation message = replay_error message ''AGENT_SESSION_COMPACTION_TOOL_IDENTITY_INVALID''"

definition compaction_recorded :: "session \<Rightarrow> js \<Rightarrow> bool" where
  "compaction_recorded s p \<longleftrightarrow>
     list_ex (\<lambda>c. js_get c ''compaction_id'' = js_get p ''compaction_id'' \<or> js_get c ''checkpoint_ref'' = js_get p ''checkpoint_ref'' \<or>
        (js_get c ''turn_id'' = js_get p ''turn_id'' \<and> js_get c ''trigger'' = js_get p ''trigger'' \<and>
         same_json (js_get c ''source_event_ids'') (js_get p ''source_event_ids''))) (ss_compactions s)"

definition context_sources :: "session \<Rightarrow> turn \<Rightarrow> js \<Rightarrow> history_item list res" where
  "context_sources s t p =
     (let durable = durableHistory s (ftext p ''turn_id'') in
      bind_res (guards
        [(tn_request t \<noteq> None \<or> tn_context_compaction t \<noteq> None,
          order_violation ''turn context compaction must occur exactly once before context assembly''),
         (\<not> same_json (JArr (fitems p ''source_event_ids'' @ fitems p ''retained_source_event_ids'')) (str_array (map hi_event durable)),
          lineage_violation ''compaction lineage must partition the exact durable history into prefix and suffix'')]) (\<lambda>_.
      Inr (take (length (fitems p ''source_event_ids'')) durable)))"

definition execution_source :: "execution \<Rightarrow> history_item" where
  "execution_source x =
     (let i = (case ex_completed_event x of None \<Rightarrow> ''null'' | Some i \<Rightarrow> i) in
      \<lparr>hi_event = i, hi_ref = event_ref i, hi_sequence = ex_completed_sequence x, hi_message = toolOutcomeMessage x\<rparr>)"

definition by_completed_event :: "session \<Rightarrow> turn \<Rightarrow> string \<Rightarrow> execution option" where
  "by_completed_event s t i =
     find (\<lambda>x. ex_completed_event x = Some i) (rev (List.map_filter (\<lambda>kv. map_of (ss_invocations s) (snd kv)) (tn_tools t)))"

definition js_nth :: "js list \<Rightarrow> nat \<Rightarrow> js" where
  "js_nth xs n = (if n < length xs then xs ! n else JUndef)"

text \<open>One source of an older-results record; \<open>cursor\<close> is one past the position of the source before it.\<close>

definition older_source ::
  "(string \<Rightarrow> string) \<Rightarrow> session \<Rightarrow> turn \<Rightarrow> model_step \<Rightarrow> js \<Rightarrow> nat \<Rightarrow> nat \<Rightarrow> string \<Rightarrow> (history_item \<times> nat) res" where
  "older_source sha256 s t st replacement cursor lastIndex i =
     (case by_completed_event s t i of
        None \<Rightarrow> Inl (lineage_violation ''older-results source is not a completed durable result'')
      | Some x \<Rightarrow>
          let messages = fitems (st_request st) ''messages''; durable = toolOutcomeMessage x;
              position = find_index (\<lambda>m. js_get m ''tool_call_id'' = JStr (ex_call x)) messages in
          bind_res (guards
            [(ex_outcome x = None, lineage_violation ''older-results source is not a completed durable result''),
             (case find_index (\<lambda>st. st_id st = ex_step x) (tn_steps t) of None \<Rightarrow> True | Some n \<Rightarrow> lastIndex \<le> n,
              lineage_violation ''older-results source belongs to the current step''),
             (case position of None \<Rightarrow> True | Some n \<Rightarrow> n < cursor,
              lineage_violation ''older-results sources are not in request order''),
             (\<not> same_json (js_nth messages (the position)) durable,
              lineage_violation ''older-results source is not verbatim in the last request''),
             (js_get replacement ''tool_call_id'' \<noteq> JStr (ex_call x),
              identity_violation ''older-results replacement changes call identity''),
             (js_get replacement ''name'' \<noteq> JStr (ex_name x),
              identity_violation ''older-results replacement changes the tool name'')]) (\<lambda>_.
          bind_res (prunedStubViolation sha256 durable replacement) (\<lambda>v.
          case v of
            Some why \<Rightarrow> Inl (replay_error (''older tool compaction stub is not faithful: '' @ why) ''AGENT_SESSION_COMPACTION_STUB_MISMATCH'')
          | None \<Rightarrow> Inr (execution_source x, Suc (the position)))))"

fun older_sources ::
  "(string \<Rightarrow> string) \<Rightarrow> session \<Rightarrow> turn \<Rightarrow> model_step \<Rightarrow> js list \<Rightarrow> nat \<Rightarrow> nat \<Rightarrow> string list \<Rightarrow> history_item list res" where
  "older_sources sha256 s t st replacements cursor lastIndex [] = Inr []"
| "older_sources sha256 s t st replacements cursor lastIndex (i # is) =
     bind_res (older_source sha256 s t st (case replacements of [] \<Rightarrow> JUndef | r # _ \<Rightarrow> r) cursor lastIndex i) (\<lambda>(h, cursor').
     bind_res (older_sources sha256 s t st (tl replacements) cursor' lastIndex is) (\<lambda>hs. Inr (h # hs)))"

definition older_check :: "(string \<Rightarrow> string) \<Rightarrow> session \<Rightarrow> turn \<Rightarrow> model_step \<Rightarrow> js \<Rightarrow> js \<Rightarrow> history_item list res" where
  "older_check sha256 s t st p current =
     bind_res (guards
       [(tn_pending t \<noteq> None, order_violation ''an older-results record is already pending for this step''),
        (ftext p ''strategy'' \<noteq> ''tool_result_prune'', order_violation ''an older-results record must prune tool results''),
        (list_ex (\<lambda>c. same_json (js_get c ''source_event_ids'') current) (tn_tool_compactions t),
         order_violation ''an older-results record cannot follow the current-results record'')]) (\<lambda>_.
     bind_res (older_sources sha256 s t st (fitems p ''replacement_messages'') 0 (length (tn_steps t) - 1) (ftexts p ''source_event_ids'')) (\<lambda>sources.
     bind_res (guards
       [(length (fitems p ''replacement_messages'') \<noteq> length sources,
         identity_violation ''older tool compaction changed call identity or ordering'')]) (\<lambda>_.
     Inr sources)))"

text \<open>The sources of a tool-result compaction, and whether it is an older-results record.\<close>

definition tool_sources :: "(string \<Rightarrow> string) \<Rightarrow> session \<Rightarrow> turn \<Rightarrow> js \<Rightarrow> (history_item list \<times> bool) res" where
  "tool_sources sha256 s t p =
     (let bad = order_violation ''tool compaction requires a completed tool-call step'' in
      case last_opt (tn_steps t) of
        None \<Rightarrow> Inl bad
      | Some st \<Rightarrow>
          bind_res (guards [(\<not> finished_with (st_events st) ''tool_calls'', bad)]) (\<lambda>_.
          bind_res (assembledToolCalls (st_events st)) (\<lambda>calls.
          let xs = executions_of s t calls; current = JArr (map completed_js xs) in
          bind_res (guards
            [(list_ex (\<lambda>x. \<not> has_outcome x) xs \<or> fitems p ''retained_source_event_ids'' \<noteq> [],
              lineage_violation ''tool compaction lineage differs from exact durable outcomes'')]) (\<lambda>_.
          if same_json (js_get p ''source_event_ids'') current
          then bind_res (guards
                 [(\<not> same_json (JArr (map (\<lambda>m. js_get m ''tool_call_id'') (fitems p ''replacement_messages''))) (str_array (map tc_id calls)),
                   identity_violation ''tool compaction changed call identity or ordering'')]) (\<lambda>_.
               Inr (map (\<lambda>x. execution_source (the x)) xs, False))
          else bind_res (older_check sha256 s t st p current) (\<lambda>sources. Inr (sources, True))))))"

definition compaction_accounting :: "(string \<Rightarrow> string) \<Rightarrow> turn \<Rightarrow> js \<Rightarrow> history_item list \<Rightarrow> unit res" where
  "compaction_accounting sha256 t p sources =
     guards
       [(ftext p ''source_digest'' \<noteq> digest sha256 (JArr (map history_js sources)),
         replay_error ''compaction source digest differs from durable history'' ''AGENT_SESSION_COMPACTION_DIGEST_INVALID''),
        (\<not> same_json (js_get p ''before'') (compactionStats (map hi_message sources)) \<or>
         \<not> same_json (js_get p ''after'') (compactionStats (fitems p ''replacement_messages'')),
         replay_error ''compaction accounting differs from durable messages'' ''AGENT_SESSION_COMPACTION_ACCOUNTING_INVALID''),
        (fint (js_get p ''provider_manifest'') ''max_input_bytes'' < fint (js_get p ''before'') ''bytes'' \<or>
         fint (js_get p ''provider_manifest'') ''max_output_bytes'' < fint (js_get p ''after'') ''bytes'',
         replay_error ''compaction exceeds its durable provider manifest'' ''AGENT_SESSION_COMPACTION_CAP_INVALID''),
        (case tn_budget t of None \<Rightarrow> False | Some b \<Rightarrow> provenance_mismatch b p,
         replay_error ''tool compaction provenance differs from selected budget providers'' ''AGENT_SESSION_COMPACTION_PROVENANCE_INVALID'')]"

definition compaction_completed :: "(string \<Rightarrow> string) \<Rightarrow> session \<Rightarrow> session_event \<Rightarrow> session res" where
  "compaction_completed sha256 s e =
     (let p = ev_payload e; i = ftext p ''turn_id''; context = (ftext p ''trigger'' = ''context_pressure''); c = with_event_id e in
      bind_res (requireTurn s i e) (\<lambda>t.
      bind_res (guards
        [(compaction_recorded s p,
          replay_error ''compaction identity or source set is already recorded'' ''AGENT_SESSION_DUPLICATE_COMPACTION'')]) (\<lambda>_.
      bind_res (if context then bind_res (context_sources s t p) (\<lambda>hs. Inr (hs, False)) else tool_sources sha256 s t p) (\<lambda>(sources, older).
      bind_res (compaction_accounting sha256 t p sources) (\<lambda>_.
      Inr ((put_turn s i
              (if context then t\<lparr>tn_context_compaction := Some c\<rparr>
               else t\<lparr>tn_tool_compactions := tn_tool_compactions t @ [c],
                      tn_pending := (if older then Some c else tn_pending t)\<rparr>))
             \<lparr>ss_compactions := ss_compactions s @ [c]\<rparr>))))))"

subsection \<open>Session lifecycle\<close>

definition session_created :: "session \<Rightarrow> session_event \<Rightarrow> session res" where
  "session_created s e = Inr (s\<lparr>ss_spec := js_get (ev_payload e) ''spec'', ss_status := ''active''\<rparr>)"

definition session_forked :: "session \<Rightarrow> session_event \<Rightarrow> session res" where
  "session_forked s e =
     bind_res (guards
       [(ev_sequence e \<noteq> 2 \<or> ss_parent s \<noteq> None,
         replay_error ''session fork lineage must be recorded exactly once after creation'' ''AGENT_SESSION_FORK_SEQUENCE_INVALID''),
        (js_get (ss_spec s) ''parent_session_id'' \<noteq> js_get (ev_payload e) ''parent_session_id'',
         replay_error ''fork parent does not match the child session spec'' ''AGENT_SESSION_FORK_PARENT_MISMATCH'')]) (\<lambda>_.
     Inr (s\<lparr>ss_parent := Some (ev_payload e)\<rparr>))"

definition MAX_SAFE_INTEGER :: int where "MAX_SAFE_INTEGER = 9007199254740991"

definition session_reconciled :: "session \<Rightarrow> session_event \<Rightarrow> session res" where
  "session_reconciled s e =
     (let total = ss_reserved_tokens s + fint (ev_payload e) ''reserved_tokens'' in
      bind_res (assertStartedWorkSettled s) (\<lambda>_.
      bind_res (guards [(MAX_SAFE_INTEGER < total \<or> total < - MAX_SAFE_INTEGER,
        replay_error ''Reconciliation budget overflow'' ''AGENT_SESSION_REPLAY_INVALID'')]) (\<lambda>_.
      Inr (s\<lparr>ss_reserved_tokens := total, ss_reports := ss_reports s @ [ftext (ev_payload e) ''report_sha256'']\<rparr>))))"

definition session_resumed :: "session \<Rightarrow> session_event \<Rightarrow> session res" where
  "session_resumed s e =
     bind_res (guards
       [(fint (ev_payload e) ''from_sequence'' \<noteq> ev_sequence e - 1,
         replay_error ''resume source must be the immediately preceding durable sequence'' ''AGENT_SESSION_RESUME_SEQUENCE_INVALID'')]) (\<lambda>_.
     Inr s)"

definition child_attached :: "session \<Rightarrow> session_event \<Rightarrow> session res" where
  "child_attached s e =
     (let c = ftext (ev_payload e) ''child_session_id'' in
      bind_res (guards
        [(Some c = ss_id s, replay_error ''session cannot attach itself as a child'' ''AGENT_SESSION_SELF_CHILD''),
         (c \<in> set (ss_children s), replay_error ''child session is already attached'' ''AGENT_SESSION_DUPLICATE_CHILD''),
         (limit_of s ''max_children'' \<le> int (length (ss_children s)),
          replay_error ''session child limit is exhausted'' ''AGENT_SESSION_CHILD_LIMIT_EXCEEDED'')]) (\<lambda>_.
      Inr (s\<lparr>ss_children := ss_children s @ [c]\<rparr>)))"

definition subagent_requested :: "session \<Rightarrow> session_event \<Rightarrow> session res" where
  "subagent_requested s e =
     bind_res (guards
       [(ss_subagent s \<noteq> None \<or> ss_turn_order s \<noteq> [],
         replay_error ''subagent request must be unique and precede execution'' ''AGENT_SESSION_SUBAGENT_REQUEST_INVALID'')]) (\<lambda>_.
     Inr (s\<lparr>ss_subagent := Some (with_event_id e)\<rparr>))"

definition cancellation_requested :: "session \<Rightarrow> session_event \<Rightarrow> session res" where
  "cancellation_requested s e =
     bind_res (guards
       [(ss_cancellation s \<noteq> None,
         replay_error ''session cancellation was already requested'' ''AGENT_SESSION_DUPLICATE_CANCELLATION'')]) (\<lambda>_.
     Inr (s\<lparr>ss_cancellation := Some (with_event_id e)\<rparr>))"

definition finish_session :: "session \<Rightarrow> string \<Rightarrow> session_event \<Rightarrow> session" where
  "finish_session s status e = s\<lparr>ss_status := status, ss_terminal := Some e\<rparr>"

definition session_cancelled :: "session \<Rightarrow> session_event \<Rightarrow> session res" where
  "session_cancelled s e =
     (case ss_cancellation s of
        None \<Rightarrow> Inl (replay_error ''session cancellation requires a preceding durable request'' ''AGENT_SESSION_CANCELLATION_REQUIRED'')
      | Some request \<Rightarrow>
          bind_res (guards
            [(ftext request ''source'' = ''deadline'',
              replay_error ''deadline cancellation must terminate as a timeout failure'' ''AGENT_SESSION_CANCELLATION_TERMINAL_INVALID''),
             (js_get (ev_payload e) ''reason'' \<noteq> js_get request ''reason'' \<or> js_get (ev_payload e) ''cascade'' \<noteq> js_get request ''cascade'',
              replay_error ''session cancellation terminal differs from the durable request'' ''AGENT_SESSION_CANCELLATION_MISMATCH'')]) (\<lambda>_.
          bind_res (assertStartedWorkSettled s) (\<lambda>_. Inr (finish_session s ''cancelled'' e))))"

definition session_failed :: "session \<Rightarrow> session_event \<Rightarrow> session res" where
  "session_failed s e = bind_res (assertStartedWorkSettled s) (\<lambda>_. Inr (finish_session s ''failed'' e))"

definition latest_turn :: "session \<Rightarrow> turn option" where
  "latest_turn s = Option.bind (last_opt (ss_turn_order s)) (map_of (ss_turns s))"

definition latest_events :: "session \<Rightarrow> js list" where
  "latest_events s =
     (case latest_turn s of
        None \<Rightarrow> []
      | Some t \<Rightarrow> (case last_opt (tn_steps t) of Some st \<Rightarrow> st_events st | None \<Rightarrow> tn_events t))"

definition stopped :: "js list \<Rightarrow> bool" where
  "stopped events \<longleftrightarrow>
     (case find is_terminal events of
        None \<Rightarrow> False
      | Some m \<Rightarrow> stream_type m = ''completed'' \<and> ftext (js_get m ''payload'') ''finish_reason'' = ''stop'')"

definition session_completed :: "session \<Rightarrow> session_event \<Rightarrow> session res" where
  "session_completed s e =
     bind_res (guards
       [(list_ex (\<lambda>kt. tn_steps (snd kt) = [] \<and> tn_events (snd kt) \<noteq> [] \<and> \<not> list_ex is_terminal (tn_events (snd kt))) (ss_turns s),
         replay_error ''session cannot complete while a model stream is incomplete'' ''AGENT_SESSION_MODEL_INCOMPLETE'')]) (\<lambda>_.
     bind_res (assertStartedWorkSettled s) (\<lambda>_.
     bind_res (guards
       [(\<not> stopped (latest_events s),
         replay_error ''session success requires the latest model step to complete with stop'' ''AGENT_SESSION_SUCCESS_PRECONDITION_INVALID'')]) (\<lambda>_.
     Inr (finish_session s ''completed'' e))))"

subsection \<open>The reducer\<close>

definition handle_event :: "(string \<Rightarrow> string) \<Rightarrow> session \<Rightarrow> session_event \<Rightarrow> session res" where
  "handle_event sha256 s e =
     (let k = ev_type e in
      if k = ''session.created'' then session_created s e
      else if k = ''session.forked'' then session_forked s e
      else if k = ''session.reconciled'' then session_reconciled s e
      else if k = ''session.resumed'' then session_resumed s e
      else if k = ''turn.started'' then turn_started s e
      else if k = ''context.assembled'' then context_assembled s e
      else if k = ''model.request.started'' then model_request_started s e
      else if k = ''model.revision.requested'' then model_revision_requested s e
      else if k = ''model.streamed'' then model_streamed s e
      else if k = ''tool.execution.started'' then tool_execution_started s e
      else if k = ''tool.execution.reconciled'' then tool_execution_reconciled s e
      else if k = ''tool.execution.completed'' then tool_execution_completed s e
      else if k = ''tool.operation_linked'' then tool_operation_linked s e
      else if k = ''compaction.completed'' then compaction_completed sha256 s e
      else if k = ''child.attached'' then child_attached s e
      else if k = ''subagent.requested'' then subagent_requested s e
      else if k = ''workflow.reserved'' then workflow_reserved s e
      else if k = ''workflow.revised'' then reviseWorkflow sha256 s e
      else if k = ''workflow.reclaimed'' then workflow_reclaimed s e
      else if k = ''workflow.released'' then workflow_released s e
      else if k = ''workflow.checkpointed'' then workflow_checkpointed s e
      else if k = ''workflow.phase.checkpointed'' then workflow_phase_checkpointed sha256 s e
      else if k = ''session.cancellation.requested'' then cancellation_requested s e
      else if k = ''session.cancelled'' then session_cancelled s e
      else if k = ''session.failed'' then session_failed s e
      else if k = ''session.completed'' then session_completed s e
      else Inr s)"

definition terminal_types :: "string list" where
  "terminal_types = [''session.cancelled'', ''session.failed'', ''session.completed'']"

definition stream_checks :: "session \<Rightarrow> session_event \<Rightarrow> unit res" where
  "stream_checks s e =
     guards
       [(ev_sequence e \<noteq> ss_sequence s + 1,
         replay_error ''session stream contains a sequence gap or duplicate'' ''AGENT_SESSION_SEQUENCE_INVALID''),
        (ss_id s \<noteq> None \<and> ss_id s \<noteq> Some (ev_session e),
         replay_error ''session stream contains a foreign session identifier'' ''AGENT_SESSION_IDENTITY_MISMATCH''),
        (ss_terminal s \<noteq> None,
         replay_error ''session stream continues after its terminal outcome'' ''AGENT_SESSION_ALREADY_TERMINAL''),
        (ev_sequence e = 1 \<and> ev_type e \<noteq> ''session.created'',
         replay_error ''the first session event must be session.created'' ''AGENT_SESSION_CREATION_REQUIRED''),
        (1 < ev_sequence e \<and> ev_type e = ''session.created'',
         replay_error ''session.created may occur only once'' ''AGENT_SESSION_DUPLICATE_CREATION''),
        (ev_type e \<in> set terminal_types \<and> list_ex (\<lambda>kr. rv_released (snd kr) = None) (ss_reservations s),
         replay_error ''session cannot terminate before workflow drain'' ''AGENT_SESSION_WORKFLOW_ACTIVE'')]"

definition apply_event :: "(string \<Rightarrow> string) \<Rightarrow> session \<Rightarrow> session_event \<Rightarrow> session res" where
  "apply_event sha256 s e =
     bind_res (stream_checks s e) (\<lambda>_.
     bind_res (handle_event sha256 (s\<lparr>ss_id := Some (ev_session e), ss_sequence := ev_sequence e\<rparr>) e) (\<lambda>s'.
     Inr (s'\<lparr>ss_seen := ss_seen s' @ [ev_id e]\<rparr>)))"

fun apply_events :: "(string \<Rightarrow> string) \<Rightarrow> session \<Rightarrow> session_event list \<Rightarrow> session res" where
  "apply_events sha256 s [] = Inr s"
| "apply_events sha256 s (e # es) = bind_res (apply_event sha256 s e) (\<lambda>s'. apply_events sha256 s' es)"

text \<open>
  \<open>parse\<close> is the schema evaluation of \<open>parseContract(SessionEventSchema, event)\<close>. All events are
  parsed before the first one is applied; a checkpoint of the reducer is a state it returned.
\<close>

definition replaySessionEvents ::
  "(string \<Rightarrow> string) \<Rightarrow> (js \<Rightarrow> session_event res) \<Rightarrow> js list \<Rightarrow> session option \<Rightarrow> session res" where
  "replaySessionEvents sha256 parse inputs from =
     bind_res (map_res parse inputs) (apply_events sha256 (case from of None \<Rightarrow> empty_session | Some s \<Rightarrow> s))"

subsection \<open>Reconstruction and recovery\<close>

record model_request_view =
  mv_request :: js
  mv_canonical :: string
  mv_bytes :: int
  mv_source_refs :: "string list"
  mv_budget :: js
  mv_source_event :: string

definition reconstructModelRequest ::
  "(string \<Rightarrow> string) \<Rightarrow> (js \<Rightarrow> session_event res) \<Rightarrow> js list \<Rightarrow> string option \<Rightarrow> session option \<Rightarrow> model_request_view res" where
  "reconstructModelRequest sha256 parse inputs turn_id from =
     bind_res (replaySessionEvents sha256 parse inputs from) (\<lambda>s.
     let selected = (case turn_id of Some i \<Rightarrow> if i = [] then last_opt (ss_turn_order s) else Some i | None \<Rightarrow> last_opt (ss_turn_order s));
         missing = replay_error ''no assembled model request exists for the selected turn'' ''AGENT_SESSION_REQUEST_NOT_FOUND'' in
     case Option.bind selected (map_of (ss_turns s)) of
       None \<Rightarrow> Inl missing
     | Some t \<Rightarrow>
         (case tn_request t of
            None \<Rightarrow> Inl missing
          | Some r \<Rightarrow>
              Inr \<lparr>mv_request = r, mv_canonical = canonicalJson r, mv_bytes = int (length (canonicalJson r)),
                   mv_source_refs = tn_source_refs t, mv_budget = (case tn_budget t of None \<Rightarrow> JNull | Some b \<Rightarrow> b),
                   mv_source_event = tn_request_event t\<rparr>))"

record recovery_plan =
  rp_session :: "string option"
  rp_sequence :: int
  rp_terminal :: bool
  rp_action :: string
  rp_turn :: "string option"
  rp_request :: "js option"

definition step_action :: "session \<Rightarrow> turn \<Rightarrow> model_step \<Rightarrow> string res" where
  "step_action s t st =
     (case find is_terminal (st_events st) of
        None \<Rightarrow> Inr (if st_events st = [] then ''restart_model_request'' else ''fail_interrupted_model'')
      | Some m \<Rightarrow>
          if stream_type m = ''failed'' then Inr ''fail_after_model''
          else if ftext (js_get m ''payload'') ''finish_reason'' = ''tool_calls'' then
            bind_res (assembledToolCalls (st_events st)) (\<lambda>calls.
            let xs = filter (\<lambda>x. x \<noteq> None) (executions_of s t calls) in
            Inr (if length xs < length calls then ''execute_tools''
                 else if list_ex (\<lambda>x. \<not> has_outcome x) xs then ''resume_tools''
                 else ''continue_after_tools''))
          else Inr ''settle_after_model'')"

definition turn_action :: "session \<Rightarrow> turn \<Rightarrow> string res" where
  "turn_action s t =
     (case tn_request t of
        None \<Rightarrow> Inr ''assemble_context''
      | Some r \<Rightarrow>
          if ss_cancellation s \<noteq> None then Inr ''settle_cancellation''
          else (case last_opt (tn_steps t) of None \<Rightarrow> Inr ''restart_model_request'' | Some st \<Rightarrow> step_action s t st))"

definition planned_request :: "turn \<Rightarrow> js option" where
  "planned_request t =
     (case tn_request t of
        None \<Rightarrow> None
      | Some r \<Rightarrow> Some (case last_opt (tn_steps t) of Some st \<Rightarrow> st_request st | None \<Rightarrow> r))"

definition recovery_of :: "session \<Rightarrow> recovery_plan res" where
  "recovery_of s =
     (if ss_status s = ''empty'' then Inl (replay_error ''cannot recover an empty session'' ''AGENT_SESSION_NOT_FOUND'')
      else if ss_terminal s \<noteq> None
      then Inr \<lparr>rp_session = ss_id s, rp_sequence = ss_sequence s, rp_terminal = True, rp_action = ''none'', rp_turn = None, rp_request = None\<rparr>
      else (case latest_turn s of
              None \<Rightarrow> Inr \<lparr>rp_session = ss_id s, rp_sequence = ss_sequence s, rp_terminal = False, rp_action = ''await_input'',
                           rp_turn = last_opt (ss_turn_order s), rp_request = None\<rparr>
            | Some t \<Rightarrow>
                bind_res (turn_action s t) (\<lambda>action.
                Inr \<lparr>rp_session = ss_id s, rp_sequence = ss_sequence s, rp_terminal = False, rp_action = action,
                     rp_turn = last_opt (ss_turn_order s), rp_request = planned_request t\<rparr>)))"

definition buildRecoveryPlan :: "(string \<Rightarrow> string) \<Rightarrow> (js \<Rightarrow> session_event res) \<Rightarrow> js list \<Rightarrow> recovery_plan res" where
  "buildRecoveryPlan sha256 parse inputs = bind_res (replaySessionEvents sha256 parse inputs None) recovery_of"

end
