(* ===== verification/ReplayCorrect.thy ===== *)
theory ReplayCorrect
  imports Replay
begin

text \<open>
  Correctness of the session reducer: what the handlers leave alone, incremental replay, the lifecycle
  it refines, the order of the stream, and the invariants of the replayed state (final tool outcomes,
  settled terminal sessions, limits, stream accounting, pinned requests).
\<close>

subsection \<open>What the handlers leave alone\<close>

declare guards.simps [simp del]

lemma guards_Nil [simp]: "guards [] = Inr ()"
  by (simp add: guards.simps)

lemma guards_Inr: "guards gs = Inr u \<longleftrightarrow> (\<forall>g \<in> set gs. \<not> fst g)"
  by (induction gs) (auto simp: guards.simps split: if_splits)

lemma guards_Cons: "guards (g # gs) = Inr u \<longleftrightarrow> \<not> fst g \<and> guards gs = Inr u"
  by (simp add: guards_Inr)

text \<open>The part of the state that belongs to the stream, not to the handlers.\<close>

definition stream_part :: "session \<Rightarrow> string option \<times> int \<times> string list" where
  "stream_part s = (ss_id s, ss_sequence s, ss_seen s)"

lemmas handler_defs = session_forked_def session_reconciled_def session_resumed_def turn_started_def
  context_assembled_def model_request_started_def model_revision_requested_def model_streamed_def
  tool_execution_started_def tool_execution_reconciled_def tool_execution_completed_def tool_operation_linked_def
  compaction_completed_def child_attached_def subagent_requested_def workflow_reserved_def reviseWorkflow_def
  workflow_reclaimed_def workflow_released_def workflow_checkpointed_def workflow_phase_checkpointed_def
  cancellation_requested_def

lemmas state_defs = put_turn_def settle_execution_def finish_session_def

text \<open>The handlers of the events that neither create nor terminate a session.\<close>

definition inner_handlers :: "(string \<Rightarrow> string) \<Rightarrow> (string \<times> (session \<Rightarrow> session_event \<Rightarrow> session res)) list" where
  "inner_handlers sha256 =
     [(''session.forked'', session_forked), (''session.reconciled'', session_reconciled), (''session.resumed'', session_resumed),
      (''turn.started'', turn_started), (''context.assembled'', context_assembled), (''model.request.started'', model_request_started),
      (''model.revision.requested'', model_revision_requested), (''model.streamed'', model_streamed),
      (''tool.execution.started'', tool_execution_started), (''tool.execution.reconciled'', tool_execution_reconciled),
      (''tool.execution.completed'', tool_execution_completed), (''tool.operation_linked'', tool_operation_linked),
      (''compaction.completed'', compaction_completed sha256), (''child.attached'', child_attached),
      (''subagent.requested'', subagent_requested), (''workflow.reserved'', workflow_reserved),
      (''workflow.revised'', reviseWorkflow sha256), (''workflow.reclaimed'', workflow_reclaimed),
      (''workflow.released'', workflow_released), (''workflow.checkpointed'', workflow_checkpointed),
      (''workflow.phase.checkpointed'', workflow_phase_checkpointed sha256),
      (''session.cancellation.requested'', cancellation_requested)]"

lemma handle_event_cases:
  assumes "handle_event sha s e = Inr s'"
  obtains (created) "ev_type e = ''session.created''" "session_created s e = Inr s'"
    | (cancelled) "ev_type e = ''session.cancelled''" "session_cancelled s e = Inr s'"
    | (failed) "ev_type e = ''session.failed''" "session_failed s e = Inr s'"
    | (completed) "ev_type e = ''session.completed''" "session_completed s e = Inr s'"
    | (inner) h where "(ev_type e, h) \<in> set (inner_handlers sha)" "h s e = Inr s'"
    | (unknown) "ev_type e \<notin> set terminal_types" "ev_type e \<noteq> ''session.created''" "s' = s"
proof -
  consider "ev_type e = ''session.created''" | "ev_type e = ''session.cancelled''" | "ev_type e = ''session.failed''"
    | "ev_type e = ''session.completed''" | "ev_type e \<in> fst ` set (inner_handlers sha)"
    | "ev_type e \<notin> fst ` set (inner_handlers sha)" "ev_type e \<notin> set terminal_types" "ev_type e \<noteq> ''session.created''"
    by (auto simp: terminal_types_def)
  then show ?thesis
  proof cases
    case 5
    then have "\<exists>h. (ev_type e, h) \<in> set (inner_handlers sha) \<and> h s e = Inr s'"
      using assms unfolding inner_handlers_def
      by (elim imageE) (auto simp: handle_event_def Let_def)
    then show ?thesis using inner by blast
  next
    case 6
    then have "s' = s"
      using assms unfolding inner_handlers_def terminal_types_def by (simp add: handle_event_def Let_def split: if_splits)
    then show ?thesis using unknown 6 by blast
  qed (use assms created cancelled failed completed in \<open>simp_all add: handle_event_def Let_def\<close>)
qed

lemma bind_forget: "bind_res m f = Inr y \<Longrightarrow> \<exists>x. f x = Inr y"
  by auto

lemma inner_handler_frame:
  assumes "(k, h) \<in> set (inner_handlers sha)" "h s e = Inr s'"
  shows "stream_part s' = stream_part s \<and> ss_spec s' = ss_spec s \<and> ss_terminal s' = ss_terminal s \<and> ss_status s' = ss_status s \<and>
    k \<notin> set terminal_types \<and> k \<noteq> ''session.created''"
proof -
  have "stream_part s' = stream_part s \<and> ss_spec s' = ss_spec s \<and> ss_terminal s' = ss_terminal s \<and> ss_status s' = ss_status s"
    using assms unfolding inner_handlers_def set_simps insert_iff empty_iff prod.inject
    by (elim disjE conjE FalseE; hypsubst?)
      (auto simp: handler_defs state_defs stream_part_def Let_def simp del: bind_res_Inr dest!: bind_forget split: option.splits prod.splits)
  moreover have "k \<notin> set terminal_types \<and> k \<noteq> ''session.created''"
    using assms(1) by (auto simp: inner_handlers_def terminal_types_def)
  ultimately show ?thesis by blast
qed

definition invocation_types :: "string list" where
  "invocation_types = [''tool.execution.started'', ''tool.execution.reconciled'', ''tool.execution.completed'']"

definition reservation_types :: "string list" where
  "reservation_types = [''workflow.reserved'', ''workflow.revised'', ''workflow.reclaimed'', ''workflow.released'']"

definition turn_types :: "string list" where
  "turn_types = [''turn.started'', ''context.assembled'', ''model.request.started'', ''model.revision.requested'', ''model.streamed'',
     ''tool.execution.started'', ''tool.execution.completed'', ''compaction.completed'']"

lemma inner_handler_untouched:
  assumes "(k, h) \<in> set (inner_handlers sha)" "h s e = Inr s'"
  shows "(k \<notin> set invocation_types \<longrightarrow> ss_invocations s' = ss_invocations s) \<and>
    (k \<notin> set reservation_types \<longrightarrow> ss_reservations s' = ss_reservations s) \<and>
    (k \<notin> set turn_types \<longrightarrow> ss_turns s' = ss_turns s) \<and>
    (k \<noteq> ''turn.started'' \<longrightarrow> ss_turn_order s' = ss_turn_order s) \<and>
    (k \<noteq> ''child.attached'' \<longrightarrow> ss_children s' = ss_children s) \<and>
    (k \<noteq> ''tool.operation_linked'' \<longrightarrow> ss_operations s' = ss_operations s)"
  using assms
  unfolding inner_handlers_def invocation_types_def reservation_types_def turn_types_def set_simps insert_iff empty_iff prod.inject
  by (elim disjE conjE FalseE; hypsubst?)
    (auto simp: handler_defs state_defs Let_def simp del: bind_res_Inr dest!: bind_forget split: option.splits prod.splits)

text \<open>The four outer handlers.\<close>

lemma outer_handlers:
  "session_created s e = Inr s' \<Longrightarrow> s' = s\<lparr>ss_spec := js_get (ev_payload e) ''spec'', ss_status := ''active''\<rparr>"
  "session_cancelled s e = Inr s' \<Longrightarrow> assertStartedWorkSettled s = Inr () \<and> s' = finish_session s ''cancelled'' e"
  "session_failed s e = Inr s' \<Longrightarrow> assertStartedWorkSettled s = Inr () \<and> s' = finish_session s ''failed'' e"
  "session_completed s e = Inr s' \<Longrightarrow>
     assertStartedWorkSettled s = Inr () \<and> stopped (latest_events s) \<and> s' = finish_session s ''completed'' e"
  by (auto simp: session_created_def session_cancelled_def session_failed_def session_completed_def guards_Cons
      split: option.splits)

lemma apply_eventE:
  assumes "apply_event sha s e = Inr s'"
  obtains s1 where "stream_checks s e = Inr ()"
    "handle_event sha (s\<lparr>ss_id := Some (ev_session e), ss_sequence := ev_sequence e\<rparr>) e = Inr s1"
    "s' = s1\<lparr>ss_seen := ss_seen s1 @ [ev_id e]\<rparr>"
  using assms by (auto simp: apply_event_def)

lemma apply_events_append:
  "apply_events sha s (xs @ ys) = bind_res (apply_events sha s xs) (\<lambda>t. apply_events sha t ys)"
  by (induction xs arbitrary: s) (auto simp: bind_res_def split: sum.split)

text \<open>An invariant that holds at first and is kept by every accepted event holds after every replay.\<close>

lemma apply_events_invariant:
  assumes "\<And>s e s'. I s \<Longrightarrow> apply_event sha s e = Inr s' \<Longrightarrow> I s'" "I s" "apply_events sha s es = Inr s'"
  shows "I s'"
  using assms(2,3) by (induction es arbitrary: s) (auto intro: assms(1))

subsection \<open>Incremental replay\<close>

lemma map_res_append:
  "map_res f (xs @ ys) = bind_res (map_res f xs) (\<lambda>as. bind_res (map_res f ys) (\<lambda>bs. Inr (as @ bs)))"
  by (induction xs) (auto simp: bind_res_def split: sum.split)

text \<open>
  Incremental replay is full replay: once a prefix of a stream has been replayed, replaying the rest
  from that checkpoint gives exactly the result, or exactly the error, of replaying the whole stream.
\<close>

theorem incremental_replay:
  assumes "replaySessionEvents sha parse xs None = Inr s"
  shows "replaySessionEvents sha parse (xs @ ys) None = replaySessionEvents sha parse ys (Some s)"
  using assms
  by (auto simp: replaySessionEvents_def map_res_append apply_events_append bind_res_simps)
    (auto simp: bind_res_def apply_events_append split: sum.split)

subsection \<open>The lifecycle the reducer refines\<close>

datatype phase = Fresh | Active | Ended

record lifecycle =
  lc_session :: "string option"
  lc_sequence :: int
  lc_phase :: phase

definition life_apply :: "lifecycle \<Rightarrow> session_event \<Rightarrow> lifecycle option" where
  "life_apply l e =
     (if ev_sequence e = lc_sequence l + 1 \<and> (lc_session l = None \<or> lc_session l = Some (ev_session e)) \<and>
         lc_phase l \<noteq> Ended \<and> (lc_phase l = Fresh \<longleftrightarrow> ev_type e = ''session.created'')
      then Some \<lparr>lc_session = Some (ev_session e), lc_sequence = ev_sequence e,
             lc_phase = (if ev_type e \<in> set terminal_types then Ended else Active)\<rparr>
      else None)"

definition life_of :: "session \<Rightarrow> lifecycle" where
  "life_of s = \<lparr>lc_session = ss_id s, lc_sequence = ss_sequence s,
     lc_phase = (if ss_terminal s \<noteq> None then Ended else if ss_sequence s = 0 then Fresh else Active)\<rparr>"

lemma stream_checks_Inr:
  "stream_checks s e = Inr () \<longleftrightarrow>
     ev_sequence e = ss_sequence s + 1 \<and> (ss_id s = None \<or> ss_id s = Some (ev_session e)) \<and> ss_terminal s = None \<and>
     (ev_sequence e = 1 \<longrightarrow> ev_type e = ''session.created'') \<and> (1 < ev_sequence e \<longrightarrow> ev_type e \<noteq> ''session.created'') \<and>
     (ev_type e \<in> set terminal_types \<longrightarrow> (\<forall>kr \<in> set (ss_reservations s). rv_released (snd kr) \<noteq> None))"
  by (auto simp: stream_checks_def guards_Cons list_ex_iff)

lemma apply_event_stream:
  assumes "apply_event sha s e = Inr s'"
  shows "ss_id s' = Some (ev_session e) \<and> ss_sequence s' = ev_sequence e \<and> ss_seen s' = ss_seen s @ [ev_id e] \<and>
    ss_terminal s' = (if ev_type e \<in> set terminal_types then Some e else None)"
proof -
  let ?t = "s\<lparr>ss_id := Some (ev_session e), ss_sequence := ev_sequence e\<rparr>"
  obtain s1 where s1: "stream_checks s e = Inr ()" "handle_event sha ?t e = Inr s1" "s' = s1\<lparr>ss_seen := ss_seen s1 @ [ev_id e]\<rparr>"
    using apply_eventE[OF assms] by blast
  have n: "ss_terminal s = None" using s1(1) by (simp add: stream_checks_Inr)
  have "stream_part s1 = stream_part ?t \<and> ss_terminal s1 = (if ev_type e \<in> set terminal_types then Some e else None)"
    using s1(2)
  proof (cases rule: handle_event_cases)
    case (inner h)
    then show ?thesis using inner_handler_frame[OF inner] n by simp
  qed (use n in \<open>auto dest!: outer_handlers simp: finish_session_def stream_part_def terminal_types_def\<close>)
  then show ?thesis using s1(3) by (auto simp: stream_part_def)
qed

lemma refines_step:
  assumes "apply_event sha s e = Inr s'" "0 \<le> ss_sequence s"
  shows "life_apply (life_of s) e = Some (life_of s')"
proof -
  obtain s1 where "stream_checks s e = Inr ()" using apply_eventE[OF assms(1)] by blast
  then show ?thesis
    using apply_event_stream[OF assms(1)] assms(2)
    by (auto simp: stream_checks_Inr life_apply_def life_of_def terminal_types_def)
qed

fun life_run :: "lifecycle \<Rightarrow> session_event list \<Rightarrow> lifecycle option" where
  "life_run l [] = Some l"
| "life_run l (e # es) = Option.bind (life_apply l e) (\<lambda>l'. life_run l' es)"

lemma refines_run:
  "apply_events sha s es = Inr s' \<Longrightarrow> 0 \<le> ss_sequence s \<Longrightarrow> life_run (life_of s) es = Some (life_of s') \<and> 0 \<le> ss_sequence s'"
proof (induction es arbitrary: s)
  case (Cons e es)
  then obtain t where t: "apply_event sha s e = Inr t" "apply_events sha t es = Inr s'" by auto
  have "ss_sequence t = ss_sequence s + 1"
    using apply_event_stream[OF t(1)] apply_eventE[OF t(1)] by (metis stream_checks_Inr)
  then show ?case using Cons.IH[OF t(2)] refines_step[OF t(1) Cons.prems(2)] Cons.prems(2) by simp
qed simp

text \<open>
  C31. Refinement: seen through its identity, sequence and phase, every run of the reducer is a run of a
  three-phase machine (fresh, active, ended) that accepts consecutive sequence numbers of one session,
  the creation first and only first, and nothing after a terminal event.
\<close>

theorem replay_refines_lifecycle:
  assumes "map_res parse inputs = Inr es" "replaySessionEvents sha parse inputs None = Inr s"
  shows "life_run \<lparr>lc_session = None, lc_sequence = 0, lc_phase = Fresh\<rparr> es = Some (life_of s)"
  using refines_run[of sha empty_session es s] assms
  by (simp add: replaySessionEvents_def bind_res_simps life_of_def empty_session_def)

definition well_ordered :: "session_event list \<Rightarrow> bool" where
  "well_ordered es \<longleftrightarrow> (\<forall>i < length es. ev_sequence (es ! i) = int i + 1 \<and> ev_session (es ! i) = ev_session (es ! 0) \<and>
     (ev_type (es ! i) = ''session.created'' \<longleftrightarrow> i = 0) \<and> (ev_type (es ! i) \<in> set terminal_types \<longrightarrow> Suc i = length es))"

lemma apply_events_shape:
  "apply_events sha empty_session es = Inr s \<Longrightarrow>
     well_ordered es \<and> ss_sequence s = int (length es) \<and> ss_seen s = map ev_id es \<and>
     (es \<noteq> [] \<longrightarrow> ss_id s = Some (ev_session (es ! 0))) \<and>
     (ss_terminal s \<noteq> None \<longleftrightarrow> (es \<noteq> [] \<and> ev_type (last es) \<in> set terminal_types))"
proof (induction es arbitrary: s rule: rev_induct)
  case Nil
  then show ?case by (auto simp: empty_session_def well_ordered_def)
next
  case (snoc e es)
  then obtain t where t: "apply_events sha empty_session es = Inr t" "apply_event sha t e = Inr s"
    by (auto simp: apply_events_append)
  note ih = snoc.IH[OF t(1)]
  obtain u where c: "stream_checks t e = Inr ()" using apply_eventE[OF t(2)] by blast
  have nt: "es \<noteq> [] \<Longrightarrow> ev_type (last es) \<notin> set terminal_types" using c ih by (auto simp: stream_checks_Inr)
  have id0: "ss_id t = None \<longleftrightarrow> es = []" using ih t(1) by (cases es) (auto simp: empty_session_def)
  have wo: "well_ordered (es @ [e])"
    unfolding well_ordered_def
  proof (intro allI impI)
    fix i assume i: "i < length (es @ [e])"
    show "ev_sequence ((es @ [e]) ! i) = int i + 1 \<and> ev_session ((es @ [e]) ! i) = ev_session ((es @ [e]) ! 0) \<and>
      (ev_type ((es @ [e]) ! i) = ''session.created'' \<longleftrightarrow> i = 0) \<and>
      (ev_type ((es @ [e]) ! i) \<in> set terminal_types \<longrightarrow> Suc i = length (es @ [e]))"
    proof (cases "i < length es")
      case True
      then have w: "ev_sequence (es ! i) = int i + 1 \<and> ev_session (es ! i) = ev_session (es ! 0) \<and>
         (ev_type (es ! i) = ''session.created'' \<longleftrightarrow> i = 0) \<and> (ev_type (es ! i) \<in> set terminal_types \<longrightarrow> Suc i = length es)"
        using ih by (simp add: well_ordered_def)
      have "ev_type (es ! i) \<notin> set terminal_types"
      proof
        assume a: "ev_type (es ! i) \<in> set terminal_types"
        then have "last es = es ! i" using w True by (metis diff_Suc_1 last_conv_nth list.size(3) not_less_zero)
        then show False using a nt True by (cases es) auto
      qed
      moreover have "(es @ [e]) ! i = es ! i" "(es @ [e]) ! 0 = es ! 0" using True by (auto simp: nth_append)
      ultimately show ?thesis using w by simp
    next
      case False
      then have i: "i = length es" using i by simp
      then show ?thesis
        using c ih id0 by (cases "es = []") (auto simp: stream_checks_Inr nth_append)
    qed
  qed
  have "(es @ [e]) ! 0 = (if es = [] then e else es ! 0)" by (cases es) auto
  then show ?case
    using wo ih c apply_event_stream[OF t(2)] id0 by (auto simp: stream_checks_Inr)
qed

text \<open>
  Stream order: a stream that replays is the events of one session with sequence numbers 1, 2, 3 and
  so on; its first event, and no other, is the creation; a terminal event is its last; and the state
  records the length of the stream and the identifiers of its events.
\<close>

theorem replay_stream_order:
  assumes "map_res parse inputs = Inr es" "replaySessionEvents sha parse inputs None = Inr s"
  shows "(\<forall>i < length es. ev_sequence (es ! i) = int i + 1 \<and> ev_session (es ! i) = ev_session (es ! 0) \<and>
       (ev_type (es ! i) = ''session.created'' \<longleftrightarrow> i = 0) \<and> (ev_type (es ! i) \<in> set terminal_types \<longrightarrow> Suc i = length es)) \<and>
     ss_sequence s = int (length es) \<and> ss_seen s = map ev_id es"
  using apply_events_shape[of sha es s] assms
  by (simp add: replaySessionEvents_def bind_res_simps well_ordered_def)

subsection \<open>Tool executions\<close>

lemma map_of_assign [simp]: "map_of (assign m k v) = (map_of m)(k \<mapsto> v)"
  by (induction m) (auto simp: fun_eq_iff)

lemma keys_assign [simp]: "fst ` set (assign m k v) = insert k (fst ` set m)"
  by (induction m k v rule: assign.induct) (auto simp: insert_commute)

lemma distinct_assign [simp]: "distinct (map fst m) \<Longrightarrow> distinct (map fst (assign m k v))"
proof (induction m k v rule: assign.induct)
  case (2 k' v' m k v)
  have "set (map fst (assign m k v)) = insert k (fst ` set m)" by simp
  then show ?case using 2 by auto
qed simp

lemma assign_new: "map_of m k = None \<Longrightarrow> assign m k v = m @ [(k, v)]"
  by (induction m k v rule: assign.induct) (auto split: if_splits)

lemma set_assign: "distinct (map fst m) \<Longrightarrow> set (assign m k v) = insert (k, v) (set m - {x. fst x = k})"
proof (induction m k v rule: assign.induct)
  case (2 k' v' m k v)
  then show ?case by (auto simp: image_iff) 
qed auto

lemma new_execution_outcome [simp]: "ex_outcome (new_execution e) = None"
  by (simp add: new_execution_def Let_def)

lemma tool_execution_startedE:
  assumes "tool_execution_started s e = Inr s'"
  obtains t where "map_of (ss_turns s) (ftext (ev_payload e) ''turn_id'') = Some t"
    "map_of (ss_invocations s) (ftext (ev_payload e) ''invocation_id'') = None"
    "int (length (ss_invocations s)) < limit_of s ''max_tool_calls''"
    "ss_invocations s' = assign (ss_invocations s) (ftext (ev_payload e) ''invocation_id'') (new_execution e)"
    "ss_turns s' = assign (ss_turns s) (ftext (ev_payload e) ''turn_id'')
       (t\<lparr>tn_tools := assign (tn_tools t) (ftext (ev_payload e) ''tool_call_id'') (ftext (ev_payload e) ''invocation_id'')\<rparr>)"
proof -
  obtain t where t: "map_of (ss_turns s) (ftext (ev_payload e) ''turn_id'') = Some t"
    using assms by (auto simp: tool_execution_started_def Let_def requireTurn_def split: option.splits)
  show thesis
    using assms t that[OF t]
    by (auto simp: tool_execution_started_def Let_def guards_Cons requireTurn_def put_turn_def present_def)
qed

lemma tool_execution_reconciledE:
  assumes "tool_execution_reconciled s e = Inr s'"
  obtains x o' y where
    "ex_outcome x = Some o'" "ftext o' ''status'' = ''uncertain''"
    "map_of (ss_invocations s) (ftext (js_get (ev_payload e) ''outcome'') ''invocation_id'') = Some x"
    "ss_invocations s' = assign (ss_invocations s) (ftext (js_get (ev_payload e) ''outcome'') ''invocation_id'') y"
    "ex_outcome y \<noteq> None"
  using assms
  by (auto simp: tool_execution_reconciled_def settle_execution_def Let_def guards_Cons split: option.splits)

lemma tool_execution_completedE:
  assumes "tool_execution_completed s e = Inr s'"
  obtains x t where
    "map_of (ss_turns s) (ftext (ev_payload e) ''turn_id'') = Some t"
    "map_of (ss_invocations s) (ftext (js_get (ev_payload e) ''outcome'') ''invocation_id'') = Some x" "ex_outcome x = None"
    "ss_invocations s' = assign (ss_invocations s) (ftext (js_get (ev_payload e) ''outcome'') ''invocation_id'')
       (x\<lparr>ex_outcome := Some (js_get (ev_payload e) ''outcome''), ex_completed_event := Some (ev_id e), ex_completed_sequence := ev_sequence e\<rparr>)"
    "ss_turns s' = assign (ss_turns s) (ftext (ev_payload e) ''turn_id'')
       (t\<lparr>tn_tools := assign (tn_tools t) (ex_call x) (ftext (js_get (ev_payload e) ''outcome'') ''invocation_id'')\<rparr>)"
  using assms
  by (auto simp: tool_execution_completed_def settle_execution_def Let_def guards_Cons requireTurn_def put_turn_def split: option.splits)

lemma invocation_handlers:
  "(k, h) \<in> set (inner_handlers sha) \<Longrightarrow> k \<in> set invocation_types \<Longrightarrow>
     h = tool_execution_started \<or> h = tool_execution_reconciled \<or> h = tool_execution_completed"
  by (auto simp: inner_handlers_def invocation_types_def)

lemma outer_handlers_keep:
  "session_created s e = Inr s' \<or> session_cancelled s e = Inr s' \<or> session_failed s e = Inr s' \<or> session_completed s e = Inr s' \<Longrightarrow>
     ss_invocations s' = ss_invocations s \<and> ss_children s' = ss_children s \<and> ss_operations s' = ss_operations s \<and>
     ss_reservations s' = ss_reservations s \<and> ss_turns s' = ss_turns s \<and> ss_turn_order s' = ss_turn_order s \<and> stream_part s' = stream_part s"
  by (auto dest!: outer_handlers simp: finish_session_def stream_part_def)

definition final_outcome :: "execution \<Rightarrow> bool" where
  "final_outcome x \<longleftrightarrow> (case ex_outcome x of None \<Rightarrow> False | Some v \<Rightarrow> ftext v ''status'' \<noteq> ''uncertain'')"

lemma outcome_kept:
  assumes "apply_event sha s e = Inr s'" "map_of (ss_invocations s) i = Some x" "final_outcome x"
  shows "map_of (ss_invocations s') i = Some x"
proof -
  let ?t = "s\<lparr>ss_id := Some (ev_session e), ss_sequence := ev_sequence e\<rparr>"
  obtain s1 where s1: "handle_event sha ?t e = Inr s1" "s' = s1\<lparr>ss_seen := ss_seen s1 @ [ev_id e]\<rparr>"
    using apply_eventE[OF assms(1)] by blast
  have "map_of (ss_invocations s1) i = Some x"
    using s1(1)
  proof (cases rule: handle_event_cases)
    case (inner h)
    consider "ev_type e \<notin> set invocation_types" | "h = tool_execution_started" | "h = tool_execution_reconciled" | "h = tool_execution_completed"
      using invocation_handlers[OF inner(1)] by blast
    then show ?thesis
    proof cases
      case 1
      then show ?thesis using inner_handler_untouched[OF inner] assms(2) by simp
    next
      case 2
      then show ?thesis using inner(2) assms(2) by (auto elim!: tool_execution_startedE)
    next
      case 3
      then show ?thesis using inner(2) assms(2,3) by (auto elim!: tool_execution_reconciledE simp: final_outcome_def)
    next
      case 4
      then show ?thesis using inner(2) assms(2,3) by (auto elim!: tool_execution_completedE simp: final_outcome_def)
    qed
  qed (use assms(2) in \<open>auto dest!: outer_handlers simp: finish_session_def\<close>)
  then show ?thesis using s1(2) by simp
qed

text \<open>
  C15. Tool outcomes are final: once a tool execution has an outcome that is not \<open>uncertain\<close>, no
  later event of the session changes that execution.
\<close>

theorem tool_outcome_final:
  assumes "replaySessionEvents sha parse xs None = Inr s" "map_of (ss_invocations s) i = Some x" "final_outcome x"
    "replaySessionEvents sha parse (xs @ ys) None = Inr s'"
  shows "map_of (ss_invocations s') i = Some x"
proof -
  obtain es where "map_res parse ys = Inr es" "apply_events sha s es = Inr s'"
    using assms(1,4) by (auto simp: replaySessionEvents_def map_res_append apply_events_append)
  then show ?thesis
    using apply_events_invariant[of "\<lambda>s. map_of (ss_invocations s) i = Some x" sha s es s'] outcome_kept[OF _ _ assms(3)] assms(2)
    by blast
qed

subsection \<open>Terminal sessions\<close>

lemma settled_iff:
  "assertStartedWorkSettled s = Inr () \<longleftrightarrow>
     (\<forall>kt \<in> set (ss_turns s). \<not> turn_unsettled (snd kt)) \<and> (\<forall>kx \<in> set (ss_invocations s). ex_outcome (snd kx) \<noteq> None)"
  by (auto simp: assertStartedWorkSettled_def guards_Cons list_ex_iff)

lemma terminal_event_settles:
  assumes "apply_event sha s e = Inr s'" "ev_type e \<in> set terminal_types"
  shows "assertStartedWorkSettled s' = Inr () \<and> (\<forall>kr \<in> set (ss_reservations s'). rv_released (snd kr) \<noteq> None) \<and>
    ''session.'' @ ss_status s' = ev_type e \<and> (ss_status s' = ''completed'' \<longrightarrow> stopped (latest_events s'))"
proof -
  let ?t = "s\<lparr>ss_id := Some (ev_session e), ss_sequence := ev_sequence e\<rparr>"
  obtain s1 where s1: "stream_checks s e = Inr ()" "handle_event sha ?t e = Inr s1" "s' = s1\<lparr>ss_seen := ss_seen s1 @ [ev_id e]\<rparr>"
    using apply_eventE[OF assms(1)] by blast
  have r: "\<forall>kr \<in> set (ss_reservations s). rv_released (snd kr) \<noteq> None"
    using s1(1) assms(2) by (simp add: stream_checks_Inr)
  have "assertStartedWorkSettled s1 = Inr () \<and> ss_reservations s1 = ss_reservations s \<and>
    ''session.'' @ ss_status s1 = ev_type e \<and> (ss_status s1 = ''completed'' \<longrightarrow> stopped (latest_events s1))"
    using s1(2)
  proof (cases rule: handle_event_cases)
    case (inner h)
    then show ?thesis using inner_handler_frame[OF inner] assms(2) by simp
  qed (use assms(2) in \<open>auto dest!: outer_handlers simp: terminal_types_def finish_session_def assertStartedWorkSettled_def latest_events_def latest_turn_def\<close>)
  then show ?thesis
    using r s1(3) by (auto simp: settled_iff latest_events_def latest_turn_def)
qed

text \<open>
  C14. Terminal sessions are settled: when a replayed session has a terminal event, every started tool
  execution has an outcome, every model step and stream has its terminal provider event, every workflow
  reservation is released, the status is that of the event, and success means that the latest model
  stream completed with \<open>stop\<close>.
\<close>

theorem terminal_session_settled:
  assumes "replaySessionEvents sha parse inputs None = Inr s" "ss_terminal s = Some e"
  shows "(\<forall>(i, x) \<in> set (ss_invocations s). ex_outcome x \<noteq> None) \<and> (\<forall>(i, t) \<in> set (ss_turns s). \<not> turn_unsettled t) \<and>
    (\<forall>(i, r) \<in> set (ss_reservations s). rv_released r \<noteq> None) \<and> ''session.'' @ ss_status s = ev_type e \<and>
    (ss_status s = ''completed'' \<longrightarrow> stopped (latest_events s))"
proof -
  obtain es where es: "apply_events sha empty_session es = Inr s"
    using assms(1) by (auto simp: replaySessionEvents_def)
  then have "es \<noteq> []" using assms(2) apply_events_shape[OF es] by auto
  then obtain fs f where f: "es = fs @ [f]" by (metis rev_exhaust)
  then obtain t where t: "apply_event sha t f = Inr s" using es by (auto simp: apply_events_append)
  have "ev_type f \<in> set terminal_types" "e = f"
    using apply_event_stream[OF t] assms(2) by (auto split: if_splits)
  then show ?thesis using terminal_event_settles[OF t] by (auto simp: settled_iff)
qed

end
