(* ===== verification/ReplayLimits.thy ===== *)
theory ReplayLimits
  imports ReplayCorrect
begin

text \<open>
  Invariants of the replayed session: its counters stay within the limits of the specification, the
  stream accounting of a model step is exact and leaves room for its terminal event, and the requests of
  a turn keep the parameters of the assembled one.
\<close>

subsection \<open>Limits\<close>

lemma reservation_handlers:
  "(k, h) \<in> set (inner_handlers sha) \<Longrightarrow> k \<in> set reservation_types \<Longrightarrow>
     h = workflow_reserved \<or> h = reviseWorkflow sha \<or> h = workflow_reclaimed \<or> h = workflow_released"
  by (auto simp: inner_handlers_def reservation_types_def)

lemma child_handler: "(''child.attached'', h) \<in> set (inner_handlers sha) \<Longrightarrow> h = child_attached"
  by (simp add: inner_handlers_def)

lemma operation_handler: "(''tool.operation_linked'', h) \<in> set (inner_handlers sha) \<Longrightarrow> h = tool_operation_linked"
  by (simp add: inner_handlers_def)

definition active_reservations :: "session \<Rightarrow> reservation list" where
  "active_reservations s = filter (\<lambda>r. rv_released r = None) (map snd (ss_reservations s))"

definition reservations_ok :: "session \<Rightarrow> bool" where
  "reservations_ok s \<longleftrightarrow>
     distinct (map fst (ss_reservations s)) \<and> (\<forall>kr \<in> set (ss_reservations s). rv_workflow (snd kr) = fst kr) \<and>
     (ss_reservations s = [] \<or> total_steps (map snd (ss_reservations s)) \<le> limit_of s ''max_workflow_steps'') \<and>
     length (active_reservations s) \<le> 1"

definition counts_ok :: "session \<Rightarrow> bool" where
  "counts_ok s \<longleftrightarrow>
     (ss_invocations s = [] \<or> int (length (ss_invocations s)) \<le> limit_of s ''max_tool_calls'') \<and>
     (ss_children s = [] \<or> int (length (ss_children s)) \<le> limit_of s ''max_children'') \<and>
     distinct (ss_children s) \<and> (\<forall>c \<in> set (ss_children s). ss_id s \<noteq> Some c) \<and> distinct (ss_operations s)"

definition unused :: "session \<Rightarrow> bool" where
  "unused s \<longleftrightarrow> ss_invocations s = [] \<and> ss_children s = [] \<and> ss_operations s = [] \<and> ss_reservations s = []"

definition limits_inv :: "session \<Rightarrow> bool" where
  "limits_inv s \<longleftrightarrow> 0 \<le> ss_sequence s \<and> (ss_sequence s = 0 \<longrightarrow> unused s \<and> ss_id s = None) \<and>
     (0 < ss_sequence s \<longrightarrow> ss_id s \<noteq> None) \<and> reservations_ok s \<and> counts_ok s"

lemma checkpoint_steps_pos: "0 \<le> checkpoint_steps c"
  by (simp add: checkpoint_steps_def split: js.split)

lemma legacy_steps_nonneg: "0 \<le> legacy_steps s"
  unfolding legacy_steps_def by (rule sum_list_nonneg) (auto simp: checkpoint_steps_pos)

text \<open>Replacing the entry of a key changes a sum over the entries by the difference.\<close>

lemma sum_assign:
  "map_of m k = Some v \<Longrightarrow> sum_list (map f (map snd (assign m k w))) = sum_list (map f (map snd m)) - f v + (f w :: int)"
  by (induction m k w rule: assign.induct) (auto split: if_splits)

lemma count_filter: "int (length (filter P xs)) = sum_list (map (\<lambda>x. if P x then 1 else 0) xs)"
  by (induction xs) auto

lemma assign_entries:
  "map_of m k = Some v \<Longrightarrow> kr \<in> set (assign m k w) \<Longrightarrow> kr = (k, w) \<or> kr \<in> set m"
  by (induction m k w rule: assign.induct) (auto split: if_splits)

lemma assign_not_Nil [simp]: "assign m k v \<noteq> []"
  by (cases "(m, k, v)" rule: assign.cases) auto

lemma reservations_assign:
  assumes "reservations_ok s" "map_of (ss_reservations s) i = Some r" "rv_workflow r' = rv_workflow r"
    "ss_reservations s' = assign (ss_reservations s) i r'" "ss_spec s' = ss_spec s"
    "rv_released r = None" "total_steps (map snd (ss_reservations s)) - rv_steps r + rv_steps r' \<le> limit_of s ''max_workflow_steps''"
  shows "reservations_ok s'"
proof -
  have k: "rv_workflow r = i"
    using assms(1,2) by (auto simp: reservations_ok_def dest!: map_of_SomeD)
  have d: "distinct (map fst (ss_reservations s'))" using assms(1,4) by (simp add: reservations_ok_def)
  have w: "\<forall>kr \<in> set (ss_reservations s'). rv_workflow (snd kr) = fst kr"
  proof
    fix kr assume "kr \<in> set (ss_reservations s')"
    then have "kr = (i, r') \<or> kr \<in> set (ss_reservations s)"
      using assign_entries[OF assms(2)] assms(4) by auto
    then show "rv_workflow (snd kr) = fst kr"
      using assms(1,3) k by (auto simp: reservations_ok_def)
  qed
  have t: "total_steps (map snd (ss_reservations s')) \<le> limit_of s' ''max_workflow_steps''"
    using assms(4,5,7) sum_assign[OF assms(2), of rv_steps r'] by (simp add: total_steps_def limit_of_def)
  have "int (length (active_reservations s')) \<le> int (length (active_reservations s))"
    using assms(6) unfolding active_reservations_def count_filter assms(4) sum_assign[OF assms(2)] by simp
  then show ?thesis using d w t assms(1) by (simp add: reservations_ok_def)
qed

lemma others_total:
  assumes "distinct (map fst m)" "\<forall>kr \<in> set m. rv_workflow (snd kr) = fst kr" "map_of m i = Some r"
  shows "total_steps (filter (\<lambda>r. rv_workflow r \<noteq> i) (map snd m)) = total_steps (map snd m) - rv_steps r"
  using assms
proof (induction m)
  case (Cons kr m)
  obtain k q where kr: "kr = (k, q)" by fastforce
  show ?case
  proof (cases "k = i")
    case True
    have "filter (\<lambda>r. rv_workflow r \<noteq> i) (map snd m) = map snd m"
      using Cons.prems(1,2) True by (auto simp: kr filter_id_conv image_iff)
    then show ?thesis using Cons.prems True by (simp add: kr total_steps_def)
  next
    case False
    then show ?thesis using Cons by (simp add: kr total_steps_def)
  qed
qed simp

lemma workflow_reservedE:
  assumes "workflow_reserved s e = Inr s'"
  obtains r where "map_of (ss_reservations s) (rv_workflow r) = None" "active_reservations s = []"
    "total_steps (map snd (ss_reservations s)) + rv_steps r \<le> limit_of s ''max_workflow_steps''"
    "ss_reservations s' = ss_reservations s @ [(rv_workflow r, r)]"
proof -
  have "active_reservations s = [] \<longleftrightarrow> \<not> list_ex (\<lambda>r. rv_released r = None) (map snd (ss_reservations s))"
    by (auto simp: active_reservations_def filter_empty_conv list_ex_iff)
  then show thesis
    using assms legacy_steps_nonneg[of s]
    by (intro that[of "\<lparr>rv_workflow = ftext (ev_payload e) ''workflow_id'', rv_digest = ftext (ev_payload e) ''definition_digest'',
          rv_claim_id = ftext (ev_payload e) ''claim_id'', rv_expires = ftext (ev_payload e) ''claim_expires_at'',
          rv_steps = fint (ev_payload e) ''step_count'', rv_children = ftexts (ev_payload e) ''child_session_ids'',
          rv_event = ev_id e, rv_claim_ref = event_ref (ev_id e), rv_released = None, rv_revision = None, rv_revisions = []\<rparr>"])
      (auto simp: workflow_reserved_def Let_def guards_Cons present_def assign_new)
qed

lemma reviseWorkflowE:
  assumes "reviseWorkflow sha s e = Inr s'"
  obtains r r' where "map_of (ss_reservations s) (ftext (ev_payload e) ''workflow_id'') = Some r" "rv_released r = None"
    "rv_workflow r' = rv_workflow r" "ss_reservations s' = assign (ss_reservations s) (ftext (ev_payload e) ''workflow_id'') r'"
    "rv_steps r' + total_steps (other_reservations s (ftext (ev_payload e) ''workflow_id'')) \<le> limit_of s ''max_workflow_steps''"
proof -
  let ?i = "ftext (ev_payload e) ''workflow_id''"
  obtain r where r: "map_of (ss_reservations s) ?i = Some r"
    using assms by (auto simp: reviseWorkflow_def Let_def split: option.splits)
  have g: "rv_released r = None" "revise_limits s r (ev_payload e) = Inr ()"
    using assms by (auto simp: reviseWorkflow_def Let_def r guards_Cons simp del: not_None_eq)
  have "int (length (definition_steps (js_get (ev_payload e) ''definition''))) + total_steps (other_reservations s ?i) \<le> limit_of s ''max_workflow_steps''"
    using g(2) legacy_steps_nonneg[of s] by (auto simp: revise_limits_def Let_def guards_Cons)
  moreover obtain r' where "ss_reservations s' = assign (ss_reservations s) ?i r'" "rv_workflow r' = rv_workflow r"
    "rv_steps r' = int (length (definition_steps (js_get (ev_payload e) ''definition'')))"
    using assms by (auto simp: reviseWorkflow_def Let_def r simp del: each_res.simps)
  ultimately show thesis using that[OF r g(1)] by simp
qed

lemma claim_handlersE:
  assumes "workflow_reclaimed s e = Inr s' \<or> workflow_released s e = Inr s'"
  obtains r r' where "map_of (ss_reservations s) (ftext (ev_payload e) ''workflow_id'') = Some r" "rv_released r = None"
    "rv_workflow r' = rv_workflow r" "rv_steps r' = rv_steps r"
    "ss_reservations s' = assign (ss_reservations s) (ftext (ev_payload e) ''workflow_id'') r'"
proof -
  let ?i = "ftext (ev_payload e) ''workflow_id''"
  obtain r where r: "map_of (ss_reservations s) ?i = Some r" "rv_released r = None"
    using assms by (auto simp: workflow_reclaimed_def workflow_released_def Let_def guards_Cons simp del: not_None_eq split: option.splits)
  obtain r' where "ss_reservations s' = assign (ss_reservations s) ?i r'" "rv_workflow r' = rv_workflow r" "rv_steps r' = rv_steps r"
    using assms by (auto simp: workflow_reclaimed_def workflow_released_def Let_def r)
  then show thesis using that[OF r] by blast
qed

lemma child_attachedE:
  assumes "child_attached s e = Inr s'"
  obtains c where "ss_id s \<noteq> Some c" "c \<notin> set (ss_children s)" "int (length (ss_children s)) < limit_of s ''max_children''"
    "s' = s\<lparr>ss_children := ss_children s @ [c]\<rparr>"
  using assms by (intro that[of "ftext (ev_payload e) ''child_session_id''"]) (auto simp: child_attached_def Let_def guards_Cons)

lemma tool_operation_linkedE:
  assumes "tool_operation_linked s e = Inr s'"
  obtains i where "i \<notin> set (ss_operations s)" "s' = s\<lparr>ss_operations := ss_operations s @ [i]\<rparr>"
  using assms by (auto simp: tool_operation_linked_def Let_def guards_Cons)

lemma reservation_step:
  assumes "(k, h) \<in> set (inner_handlers sha)" "h s e = Inr s'" "reservations_ok s"
  shows "reservations_ok s'"
proof -
  have spec: "ss_spec s' = ss_spec s" using inner_handler_frame[OF assms(1,2)] by blast
  consider "k \<notin> set reservation_types" | "h = workflow_reserved" | "h = reviseWorkflow sha" | "h = workflow_reclaimed \<or> h = workflow_released"
    using reservation_handlers[OF assms(1)] by blast
  then show ?thesis
  proof cases
    case 1
    then have "ss_reservations s' = ss_reservations s" using inner_handler_untouched[OF assms(1,2)] by blast
    then show ?thesis using assms(3) spec by (simp add: reservations_ok_def active_reservations_def limit_of_def)
  next
    case 2
    then have "workflow_reserved s e = Inr s'" using assms(2) by simp
    then obtain r where r: "map_of (ss_reservations s) (rv_workflow r) = None" "active_reservations s = []"
      "total_steps (map snd (ss_reservations s)) + rv_steps r \<le> limit_of s ''max_workflow_steps''"
      "ss_reservations s' = ss_reservations s @ [(rv_workflow r, r)]" by (rule workflow_reservedE)
    have "rv_workflow r \<notin> fst ` set (ss_reservations s)" using r(1) by (simp add: map_of_eq_None_iff)
    moreover have "length (active_reservations s') \<le> 1" using r(2,4) by (simp add: active_reservations_def)
    ultimately show ?thesis
      using assms(3) r(3,4) spec by (auto simp: reservations_ok_def total_steps_def limit_of_def)
  next
    case 3
    then have "reviseWorkflow sha s e = Inr s'" using assms(2) by simp
    then obtain r r' where r: "map_of (ss_reservations s) (ftext (ev_payload e) ''workflow_id'') = Some r" "rv_released r = None"
      "rv_workflow r' = rv_workflow r" "ss_reservations s' = assign (ss_reservations s) (ftext (ev_payload e) ''workflow_id'') r'"
      "rv_steps r' + total_steps (other_reservations s (ftext (ev_payload e) ''workflow_id'')) \<le> limit_of s ''max_workflow_steps''"
      by (rule reviseWorkflowE)
    have "total_steps (other_reservations s (ftext (ev_payload e) ''workflow_id'')) =
        total_steps (map snd (ss_reservations s)) - rv_steps r"
      unfolding other_reservations_def
      by (rule others_total) (use assms(3) r(1) in \<open>auto simp: reservations_ok_def\<close>)
    then show ?thesis using reservations_assign[OF assms(3) r(1,3,4) spec r(2)] r(5) by simp
  next
    case 4
    then have "workflow_reclaimed s e = Inr s' \<or> workflow_released s e = Inr s'" using assms(2) by auto
    then obtain r r' where r: "map_of (ss_reservations s) (ftext (ev_payload e) ''workflow_id'') = Some r" "rv_released r = None"
      "rv_workflow r' = rv_workflow r" "rv_steps r' = rv_steps r"
      "ss_reservations s' = assign (ss_reservations s) (ftext (ev_payload e) ''workflow_id'') r'"
      by (rule claim_handlersE)
    have "ss_reservations s \<noteq> []" using r(1) by auto
    then have "total_steps (map snd (ss_reservations s)) \<le> limit_of s ''max_workflow_steps''"
      using assms(3) by (simp add: reservations_ok_def)
    then show ?thesis using reservations_assign[OF assms(3) r(1,3,5) spec r(2)] r(4) by simp
  qed
qed

lemma length_assign: "length (assign m k v) = (if map_of m k = None then Suc (length m) else length m)"
  by (induction m k v rule: assign.induct) (auto split: if_splits)

lemma invocations_step:
  assumes "(k, h) \<in> set (inner_handlers sha)" "h s e = Inr s'"
    "ss_invocations s = [] \<or> int (length (ss_invocations s)) \<le> limit_of s ''max_tool_calls''"
  shows "ss_invocations s' = [] \<or> int (length (ss_invocations s')) \<le> limit_of s ''max_tool_calls''"
proof -
  consider "k \<notin> set invocation_types" | "h = tool_execution_started" | "h = tool_execution_reconciled" | "h = tool_execution_completed"
    using invocation_handlers[OF assms(1)] by blast
  then show ?thesis
  proof cases
    case 1
    then show ?thesis using inner_handler_untouched[OF assms(1,2)] assms(3) by simp
  next
    case 2
    then show ?thesis using assms(2) by (auto elim!: tool_execution_startedE simp: length_assign)
  next
    case 3
    then show ?thesis using assms(2,3) by (auto elim!: tool_execution_reconciledE simp: length_assign)
  next
    case 4
    then show ?thesis using assms(2,3) by (auto elim!: tool_execution_completedE simp: length_assign)
  qed
qed

lemma counts_step:
  assumes "(k, h) \<in> set (inner_handlers sha)" "h s e = Inr s'" "counts_ok s"
  shows "counts_ok s'"
proof -
  have f: "ss_spec s' = ss_spec s" "ss_id s' = ss_id s"
    using inner_handler_frame[OF assms(1,2)] by (auto simp: stream_part_def)
  have i: "ss_invocations s' = [] \<or> int (length (ss_invocations s')) \<le> limit_of s' ''max_tool_calls''"
    using invocations_step[OF assms(1,2)] assms(3) f by (simp add: counts_ok_def limit_of_def)
  have c: "(ss_children s' = [] \<or> int (length (ss_children s')) \<le> limit_of s' ''max_children'') \<and>
      distinct (ss_children s') \<and> (\<forall>c \<in> set (ss_children s'). ss_id s' \<noteq> Some c)"
  proof (cases "k = ''child.attached''")
    case True
    then have "child_attached s e = Inr s'" using assms(1,2) child_handler by blast
    then show ?thesis using assms(3) by (auto elim!: child_attachedE simp: counts_ok_def limit_of_def)
  next
    case False
    then show ?thesis using inner_handler_untouched[OF assms(1,2)] assms(3) f by (simp add: counts_ok_def limit_of_def)
  qed
  have "distinct (ss_operations s')"
  proof (cases "k = ''tool.operation_linked''")
    case True
    then have "tool_operation_linked s e = Inr s'" using assms(1,2) operation_handler by blast
    then show ?thesis using assms(3) by (auto elim!: tool_operation_linkedE simp: counts_ok_def)
  next
    case False
    then show ?thesis using inner_handler_untouched[OF assms(1,2)] assms(3) by (simp add: counts_ok_def)
  qed
  then show ?thesis using i c by (simp add: counts_ok_def)
qed

lemma limits_step:
  assumes "limits_inv s" "apply_event sha s e = Inr s'"
  shows "limits_inv s'"
proof -
  let ?t = "s\<lparr>ss_id := Some (ev_session e), ss_sequence := ev_sequence e\<rparr>"
  obtain s1 where s1: "stream_checks s e = Inr ()" "handle_event sha ?t e = Inr s1" "s' = s1\<lparr>ss_seen := ss_seen s1 @ [ev_id e]\<rparr>"
    using apply_eventE[OF assms(2)] by blast
  have q: "ev_sequence e = ss_sequence s + 1" "0 \<le> ss_sequence s" "ss_id s = None \<or> ss_id s = Some (ev_session e)"
    "ss_sequence s \<noteq> 0 \<Longrightarrow> ev_type e \<noteq> ''session.created''"
    using s1(1) assms(1) by (auto simp: stream_checks_Inr limits_inv_def)
  have id0: "ss_id s = None \<Longrightarrow> unused s" using assms(1) q(2) by (auto simp: limits_inv_def)
  have t: "reservations_ok ?t" "counts_ok ?t"
    using assms(1) q(3) id0 by (auto simp: limits_inv_def reservations_ok_def active_reservations_def counts_ok_def limit_of_def unused_def)
  have "reservations_ok s1 \<and> counts_ok s1"
    using s1(2)
  proof (cases rule: handle_event_cases)
    case created
    then have "unused s" using q(4) assms(1) by (auto simp: limits_inv_def)
    then show ?thesis
      using outer_handlers(1)[OF created(2)] by (simp add: unused_def reservations_ok_def counts_ok_def active_reservations_def)
  next
    case (inner h)
    then show ?thesis using reservation_step[OF inner t(1)] counts_step[OF inner t(2)] by blast
  qed (use t in \<open>auto dest!: outer_handlers simp: finish_session_def reservations_ok_def active_reservations_def counts_ok_def limit_of_def\<close>)
  then have "reservations_ok s' \<and> counts_ok s'"
    using s1(3) by (simp add: reservations_ok_def active_reservations_def counts_ok_def limit_of_def)
  then show ?thesis using apply_event_stream[OF assms(2)] q(1,2) by (simp add: limits_inv_def)
qed

text \<open>
  C16. Limits: in every replayed session the tool executions, the attached children and the reserved
  workflow steps are within the limits of the durable specification; children are distinct and never the
  session itself, at most one workflow reservation is active, and no operation is linked twice.
\<close>

theorem replay_limits:
  assumes "replaySessionEvents sha parse inputs None = Inr s"
  shows "(ss_invocations s \<noteq> [] \<longrightarrow> int (length (ss_invocations s)) \<le> limit_of s ''max_tool_calls'') \<and>
    (ss_children s \<noteq> [] \<longrightarrow> int (length (ss_children s)) \<le> limit_of s ''max_children'') \<and>
    (ss_reservations s \<noteq> [] \<longrightarrow> sum_list (map (\<lambda>(i, r). rv_steps r) (ss_reservations s)) \<le> limit_of s ''max_workflow_steps'') \<and>
    distinct (ss_children s) \<and> (\<forall>c \<in> set (ss_children s). ss_id s \<noteq> Some c) \<and> distinct (ss_operations s) \<and>
    length (filter (\<lambda>(i, r). rv_released r = None) (ss_reservations s)) \<le> 1"
proof -
  obtain es where es: "apply_events sha empty_session es = Inr s"
    using assms by (auto simp: replaySessionEvents_def)
  have "limits_inv empty_session"
    by (simp add: limits_inv_def empty_session_def unused_def reservations_ok_def counts_ok_def active_reservations_def)
  then have "limits_inv s" using apply_events_invariant[of limits_inv sha empty_session es s] limits_step es by blast
  moreover have "total_steps (map snd (ss_reservations s)) = sum_list (map (\<lambda>(i, r). rv_steps r) (ss_reservations s))"
    by (simp add: total_steps_def o_def case_prod_unfold)
  moreover have "length (active_reservations s) = length (filter (\<lambda>(i, r). rv_released r = None) (ss_reservations s))"
    by (simp add: active_reservations_def filter_map o_def case_prod_unfold)
  ultimately show ?thesis by (auto simp: limits_inv_def reservations_ok_def counts_ok_def)
qed

subsection \<open>How a turn changes\<close>

definition new_step :: "session_event \<Rightarrow> model_step" where
  "new_step e = \<lparr>st_id = ftext (ev_payload e) ''step_id'', st_request = js_get (ev_payload e) ''request'', st_request_event = ev_id e,
     st_sources = ftexts (ev_payload e) ''source_event_ids'', st_events = [], st_event_ids = [], st_bytes = 2,
     st_terminal_event = None, st_revision = None\<rparr>"

inductive turn_step :: "session \<Rightarrow> session_event \<Rightarrow> turn option \<Rightarrow> turn \<Rightarrow> bool" where
  ts_new: "tn_steps t' = [] \<Longrightarrow> tn_request t' = None \<Longrightarrow> turn_step s e None t'"
| ts_assembled: "tn_request t = None \<Longrightarrow> tn_request t' = Some (js_get (ev_payload e) ''request'') \<Longrightarrow> tn_steps t' = tn_steps t \<Longrightarrow>
    ev_type e = ''context.assembled'' \<Longrightarrow> turn_step s e (Some t) t'"
| ts_same: "tn_steps t' = tn_steps t \<Longrightarrow> tn_request t' = tn_request t \<Longrightarrow> turn_step s e (Some t) t'"
| ts_start: "tn_request t \<noteq> None \<Longrightarrow> step_check s t (ev_payload e) = Inr () \<Longrightarrow> find_step t (ftext (ev_payload e) ''step_id'') = None \<Longrightarrow>
    ev_type e = ''model.request.started'' \<Longrightarrow> tn_steps t' = tn_steps t @ [new_step e] \<Longrightarrow> tn_request t' = tn_request t \<Longrightarrow>
    turn_step s e (Some t) t'"
| ts_revise: "st \<in> set (tn_steps t) \<Longrightarrow> turn_step s e (Some t) (replace_step t (st\<lparr>st_revision := r\<rparr>))"
| ts_stream: "(st = None \<or> (\<exists>x. st = Some x \<and> x \<in> set (tn_steps t) \<and> ev \<noteq> JUndef \<and> ev \<noteq> JFun \<and> \<not> stream_limit x ev \<and> \<not> list_ex is_terminal (st_events x))) \<Longrightarrow>
    turn_step s e (Some t) (stream_into t st e ev)"

inductive_cases turn_step_NoneE: "turn_step s e None t'"

lemma last_opt_Some: "last_opt xs = Some x \<longleftrightarrow> xs \<noteq> [] \<and> last xs = x"
  by (simp add: last_opt_def)

lemma requireTurn_Inr [simp]: "requireTurn s i e = Inr t \<longleftrightarrow> map_of (ss_turns s) i = Some t"
  by (simp add: requireTurn_def split: option.split)

lemma find_step_Some: "find_step t i = Some st \<Longrightarrow> st \<in> set (tn_steps t) \<and> st_id st = i"
  by (auto simp: find_step_def find_Some_iff)

lemma turn_started_step:
  "turn_started s e = Inr s' \<Longrightarrow>
     \<exists>i t'. ss_turns s' = assign (ss_turns s) i t' \<and> turn_step s e (map_of (ss_turns s) i) t'"
  by (rule exI[of _ "ftext (ev_payload e) ''turn_id''"])
    (auto simp: turn_started_def Let_def guards_Cons present_def intro!: exI turn_step.ts_new)

lemma context_assembled_step:
  assumes "context_assembled s e = Inr s'" "ev_type e = ''context.assembled''"
  shows "\<exists>i t'. ss_turns s' = assign (ss_turns s) i t' \<and> turn_step s e (map_of (ss_turns s) i) t'"
proof -
  let ?i = "ftext (ev_payload e) ''turn_id''"
  obtain t where t: "map_of (ss_turns s) ?i = Some t" "tn_request t = None"
    using assms(1) by (auto simp: context_assembled_def Let_def guards_Cons simp del: not_None_eq)
  obtain t' where t': "ss_turns s' = assign (ss_turns s) ?i t'" "tn_steps t' = tn_steps t"
    "tn_request t' = Some (js_get (ev_payload e) ''request'')"
    using assms(1) t by (auto simp: context_assembled_def Let_def put_turn_def)
  show ?thesis using turn_step.ts_assembled[OF t(2) t'(3,2) assms(2)] t(1) t'(1) by metis
qed

lemma model_request_started_step:
  assumes "model_request_started s e = Inr s'" "ev_type e = ''model.request.started''"
  shows "\<exists>i t'. ss_turns s' = assign (ss_turns s) i t' \<and> turn_step s e (map_of (ss_turns s) i) t'"
proof -
  let ?p = "ev_payload e" and ?i = "ftext (ev_payload e) ''turn_id''"
  obtain t where t: "map_of (ss_turns s) ?i = Some t"
    using assms(1) by (auto simp: model_request_started_def Let_def)
  have c: "tn_request t \<noteq> None" "find_step t (ftext ?p ''step_id'') = None" "step_check s t ?p = Inr ()"
    using assms(1) t by (auto simp: model_request_started_def Let_def guards_Cons simp del: not_None_eq)
  obtain t' where t': "ss_turns s' = assign (ss_turns s) ?i t'" "tn_steps t' = tn_steps t @ [new_step e]" "tn_request t' = tn_request t"
    using assms(1) t by (auto simp: model_request_started_def Let_def put_turn_def new_step_def)
  show ?thesis using turn_step.ts_start[OF c(1,3,2) assms(2) t'(2,3)] t t'(1) by metis
qed

lemma model_revision_step:
  assumes "model_revision_requested s e = Inr s'"
  shows "\<exists>i t'. ss_turns s' = assign (ss_turns s) i t' \<and> turn_step s e (map_of (ss_turns s) i) t'"
proof -
  let ?i = "ftext (ev_payload e) ''turn_id''"
  obtain t st where t: "map_of (ss_turns s) ?i = Some t" "last_opt (tn_steps t) = Some st"
    using assms by (auto simp: model_revision_requested_def Let_def split: option.splits)
  have st: "st \<in> set (tn_steps t)" using t(2) by (auto simp: last_opt_Some)
  obtain r where "ss_turns s' = assign (ss_turns s) ?i (replace_step t (st\<lparr>st_revision := r\<rparr>))"
    using assms t by (auto simp: model_revision_requested_def Let_def put_turn_def)
  then show ?thesis using turn_step.ts_revise[OF st] t(1) by metis
qed

lemma model_streamed_step:
  assumes "model_streamed s e = Inr s'"
  shows "\<exists>i t'. ss_turns s' = assign (ss_turns s) i t' \<and> turn_step s e (map_of (ss_turns s) i) t'"
proof -
  let ?p = "ev_payload e" and ?i = "ftext (ev_payload e) ''turn_id''"
  let ?ev = "js_get ?p ''event''"
  obtain t where t: "map_of (ss_turns s) ?i = Some t"
    using assms by (auto simp: model_streamed_def Let_def)
  let ?st = "if js_truthy (js_get ?p ''step_id'') then find_step t (ftext ?p ''step_id'') else None"
  have "\<exists>x. ?st = Some x \<and> x \<in> set (tn_steps t) \<and> ?ev \<noteq> JUndef \<and> ?ev \<noteq> JFun \<and> \<not> stream_limit x ?ev \<and> \<not> list_ex is_terminal (st_events x)" if ne: "?st \<noteq> None"
  proof -
    obtain x where x: "?st = Some x" using ne by blast
    have "x \<in> set (tn_steps t)" using x find_step_Some by (auto split: if_splits)
    moreover have "?ev \<noteq> JUndef \<and> ?ev \<noteq> JFun \<and> \<not> stream_limit x ?ev \<and> \<not> list_ex is_terminal (st_events x)"
      using assms t x by (auto simp: model_streamed_def Let_def guards_Cons simp del: not_None_eq)
    ultimately show ?thesis using x by blast
  qed
  then have "turn_step s e (Some t) (stream_into t ?st e ?ev)" by (intro turn_step.ts_stream) blast
  moreover have "ss_turns s' = assign (ss_turns s) ?i (stream_into t ?st e ?ev)"
    using assms t by (auto simp: model_streamed_def Let_def put_turn_def)
  ultimately show ?thesis using t by metis
qed

lemma tool_turn_step:
  assumes "tool_execution_started s e = Inr s' \<or> tool_execution_completed s e = Inr s'"
  shows "\<exists>i t'. ss_turns s' = assign (ss_turns s) i t' \<and> turn_step s e (map_of (ss_turns s) i) t'"
proof -
  have "turn_step s e (Some t) (t\<lparr>tn_tools := m\<rparr>)" for t m by (rule turn_step.ts_same) simp_all
  then show ?thesis
    using assms by (metis tool_execution_startedE tool_execution_completedE)
qed

lemma bind_elim: "bind_res m f = Inr y \<Longrightarrow> (\<And>x. m = Inr x \<Longrightarrow> f x = Inr y \<Longrightarrow> P) \<Longrightarrow> P"
  by auto

lemma assign_values: "kt \<in> set (assign m k v) \<Longrightarrow> kt = (k, v) \<or> kt \<in> set m"
  by (induction m k v rule: assign.induct) (auto split: if_splits)

lemma compaction_turn_step:
  assumes "compaction_completed sha s e = Inr s'"
  shows "\<exists>i t'. ss_turns s' = assign (ss_turns s) i t' \<and> turn_step s e (map_of (ss_turns s) i) t'"
proof -
  let ?i = "ftext (ev_payload e) ''turn_id''"
  obtain t where t: "map_of (ss_turns s) ?i = Some t"
    using assms by (auto simp: compaction_completed_def Let_def simp del: bind_res_Inr elim!: bind_elim)
  obtain t' where t': "ss_turns s' = assign (ss_turns s) ?i t'" "tn_steps t' = tn_steps t" "tn_request t' = tn_request t"
    using assms t
    by (auto simp: compaction_completed_def Let_def put_turn_def simp del: bind_res_Inr elim!: bind_elim split: prod.splits)
  show ?thesis using turn_step.ts_same[OF t'(2,3)] t t'(1) by metis
qed

lemma turn_handlers:
  "(k, h) \<in> set (inner_handlers sha) \<Longrightarrow> k \<in> set turn_types \<Longrightarrow>
     h = turn_started \<or> (h = context_assembled \<and> k = ''context.assembled'') \<or> (h = model_request_started \<and> k = ''model.request.started'') \<or>
     h = model_revision_requested \<or> h = model_streamed \<or> h = tool_execution_started \<or> h = tool_execution_completed \<or> h = compaction_completed sha"
  by (auto simp: inner_handlers_def turn_types_def)

lemma handler_turn_step:
  assumes "(ev_type e, h) \<in> set (inner_handlers sha)" "h s e = Inr s'"
  shows "ss_turns s' = ss_turns s \<or> (\<exists>i t'. ss_turns s' = assign (ss_turns s) i t' \<and> turn_step s e (map_of (ss_turns s) i) t')"
  using turn_handlers[OF assms(1)] inner_handler_untouched[OF assms] assms(2) turn_started_step context_assembled_step
    model_request_started_step model_revision_step model_streamed_step tool_turn_step compaction_turn_step
  by (cases "ev_type e \<in> set turn_types") metis+

text \<open>A property of turns that every such change keeps holds of every turn of a replayed session.\<close>

lemma turns_invariant:
  assumes "\<And>s e t'. Q e \<Longrightarrow> turn_step s e None t' \<Longrightarrow> P t'"
    "\<And>s e t t'. Q e \<Longrightarrow> P t \<Longrightarrow> turn_step s e (Some t) t' \<Longrightarrow> P t'"
    "apply_events sha empty_session es = Inr s" "\<forall>e \<in> set es. Q e" "(i, t) \<in> set (ss_turns s)"
  shows "P t"
proof -
  have step: "\<forall>kt \<in> set (ss_turns s'). P (snd kt)"
    if ev: "apply_event sha s e = Inr s'" and old: "\<forall>kt \<in> set (ss_turns s). P (snd kt)" and q: "Q e" for s e s'
  proof -
    let ?t = "s\<lparr>ss_id := Some (ev_session e), ss_sequence := ev_sequence e\<rparr>"
    obtain s1 where s1: "handle_event sha ?t e = Inr s1" "s' = s1\<lparr>ss_seen := ss_seen s1 @ [ev_id e]\<rparr>"
      using apply_eventE[OF ev] by blast
    have "\<forall>kt \<in> set (ss_turns s1). P (snd kt)"
      using s1(1)
    proof (cases rule: handle_event_cases)
      case (inner h)
      from handler_turn_step[OF inner] show ?thesis
      proof (elim disjE exE conjE)
        fix j t'
        assume a: "ss_turns s1 = assign (ss_turns ?t) j t'" "turn_step ?t e (map_of (ss_turns ?t) j) t'"
        have "P t'"
        proof (cases "map_of (ss_turns s) j")
          case None
          then show ?thesis using a(2) assms(1) q by simp
        next
          case (Some u)
          then have "P u" using old by (auto dest!: map_of_SomeD)
          then show ?thesis using Some a(2) assms(2) q by simp
        qed
        then show ?thesis using a(1) old assign_values[of _ "ss_turns s" j t'] by fastforce
      qed (use old in simp)
    qed (use old in \<open>auto dest!: outer_handlers simp: finish_session_def\<close>)
    then show ?thesis using s1(2) by simp
  qed
  have "\<forall>kt \<in> set (ss_turns s). P (snd kt)"
    using assms(3,4)
  proof (induction es arbitrary: s rule: rev_induct)
    case Nil
    then show ?case by (auto simp: empty_session_def)
  next
    case (snoc e es)
    then obtain u where "apply_events sha empty_session es = Inr u" "apply_event sha u e = Inr s"
      by (auto simp: apply_events_append)
    then show ?case using snoc.IH snoc.prems(2) step by auto
  qed
  then show ?thesis using assms(5) by auto
qed

subsection \<open>Model streams\<close>

lemma join_comma_snoc: "join_comma (xs @ [x]) = (if xs = [] then x else join_comma xs @ CHR '','' # x)"
  by (induction xs rule: join_comma.induct) auto

lemma canonical_array_snoc:
  "int (length (canonicalJson (JArr (xs @ [x])))) =
     int (length (canonicalJson (JArr xs))) + (if xs = [] then 0 else 1) + int (length (element_text x))"
  by (simp add: canonical_items_elements join_comma_snoc)

definition stream_ok :: "model_step \<Rightarrow> bool" where
  "stream_ok st \<longleftrightarrow>
     st_bytes st = int (length (canonicalJson (JArr (st_events st)))) \<and> st_bytes st \<le> MAX_MODEL_STREAM_BYTES_PER_STEP \<and>
     int (length (st_events st)) \<le> MAX_MODEL_EVENTS_PER_STEP \<and>
     (\<not> list_ex is_terminal (st_events st) \<longrightarrow>
        st_bytes st \<le> MAX_MODEL_STREAM_BYTES_PER_STEP - MODEL_TERMINAL_RESERVE_BYTES \<and>
        int (length (st_events st)) \<le> MAX_MODEL_EVENTS_PER_STEP - 1)"

lemmas stream_limits = MAX_MODEL_EVENTS_PER_STEP_def MAX_MODEL_STREAM_BYTES_PER_STEP_def MODEL_TERMINAL_RESERVE_BYTES_def

lemma stream_ok_next:
  assumes "stream_ok st" "\<not> stream_limit st ev" "ev \<noteq> JUndef \<and> ev \<noteq> JFun"
    "st_bytes st' = next_bytes st ev" "st_events st' = st_events st @ [ev]"
  shows "stream_ok st'"
proof -
  have b: "st_bytes st' = int (length (canonicalJson (JArr (st_events st'))))"
    using assms(1,3,4,5) canonical_array_snoc[of "st_events st" ev] by (simp add: stream_ok_def next_bytes_def element_text_def)
  show ?thesis
    using assms(2) b unfolding stream_ok_def assms(5) stream_limit_def Let_def assms(4)[symmetric]
    by (auto simp: stream_limits)
qed

lemma replace_step_steps: "x \<in> set (tn_steps (replace_step t st)) \<Longrightarrow> x = st \<or> x \<in> set (tn_steps t)"
  by (auto simp: replace_step_def)

lemma stream_ok_turn_step:
  assumes "turn_step s e (Some t) t'" "\<forall>st \<in> set (tn_steps t). stream_ok st"
  shows "\<forall>st \<in> set (tn_steps t'). stream_ok st"
  using assms(1)
proof cases
  case ts_start
  have "stream_ok (new_step e)" by (simp add: new_step_def stream_ok_def stream_limits)
  then show ?thesis using ts_start assms(2) by auto
next
  case (ts_revise st r)
  have "stream_ok (st\<lparr>st_revision := r\<rparr>) = stream_ok st" by (simp add: stream_ok_def)
  then have "stream_ok (st\<lparr>st_revision := r\<rparr>)" using assms(2) ts_revise by blast
  then show ?thesis using assms(2) ts_revise replace_step_steps by blast
next
  case (ts_stream st ev)
  show ?thesis
  proof (cases st)
    case None
    then show ?thesis using ts_stream assms(2) by (simp add: stream_into_def Let_def)
  next
    case (Some x)
    let ?x = "x\<lparr>st_bytes := next_bytes x ev, st_events := st_events x @ [ev], st_event_ids := st_event_ids x @ [ev_id e],
            st_terminal_event := (if is_terminal ev then Some (ev_id e) else st_terminal_event x)\<rparr>"
    let ?t = "t\<lparr>tn_events := tn_events t @ [ev], tn_event_ids := tn_event_ids t @ [ev_id e],
                 tn_event_sequences := tn_event_sequences t @ [ev_sequence e]\<rparr>"
    have "stream_ok x" "\<not> stream_limit x ev" "ev \<noteq> JUndef \<and> ev \<noteq> JFun" using ts_stream(2) Some assms(2) by blast+
    then have x: "stream_ok ?x" by (rule stream_ok_next) simp_all
    have "t' = replace_step ?t ?x" using ts_stream(1) Some by (simp add: stream_into_def Let_def)
    moreover have "tn_steps ?t = tn_steps t" by simp
    ultimately show ?thesis using replace_step_steps[of _ ?t ?x] x assms(2) by metis
  qed
qed (use assms(2) in auto)

text \<open>
  C30. Stream accounting: the byte counter kept for a model step is the exact size of the canonical JSON
  array of its events; it never exceeds 16 MiB, nor the events 4096; and while the step has no terminal
  event there is room for one: a terminal event of fewer than 8192 bytes is never refused by the bound.
\<close>

theorem stream_accounting:
  assumes "replaySessionEvents sha parse inputs None = Inr s" "(i, t) \<in> set (ss_turns s)" "st \<in> set (tn_steps t)"
  shows "st_bytes st = int (length (canonicalJson (JArr (st_events st)))) \<and> st_bytes st \<le> 16777216 \<and> int (length (st_events st)) \<le> 4096 \<and>
    (\<not> list_ex is_terminal (st_events st) \<longrightarrow>
       (\<forall>ev. is_terminal ev \<and> int (length (canonicalJson ev)) < 8192 \<longrightarrow> \<not> stream_limit st ev))"
proof -
  obtain es where es: "apply_events sha empty_session es = Inr s"
    using assms(1) by (auto simp: replaySessionEvents_def)
  have "\<forall>st \<in> set (tn_steps t). stream_ok st"
  proof (rule turns_invariant[of "\<lambda>_. True" "\<lambda>t. \<forall>st \<in> set (tn_steps t). stream_ok st", OF _ _ es _ assms(2)])
    show "\<forall>st \<in> set (tn_steps t'). stream_ok st" if "turn_step s e None t'" for s e t'
      using that by (auto elim!: turn_step_NoneE)
    show "\<forall>st \<in> set (tn_steps t'). stream_ok st"
      if "\<forall>st \<in> set (tn_steps t). stream_ok st" "turn_step s e (Some t) t'" for s e t t'
      using stream_ok_turn_step that by blast
  qed simp
  then have "stream_ok st" using assms(3) by blast
  then show ?thesis by (auto simp: stream_ok_def stream_limit_def Let_def next_bytes_def stream_limits)
qed

subsection \<open>Pinned requests\<close>

definition request_ok :: "js \<Rightarrow> bool" where
  "request_ok r \<longleftrightarrow> is_obj r \<and> json_ok r \<and> js_get r ''request_id'' \<noteq> JUndef \<and> js_get r ''messages'' \<noteq> JUndef"

text \<open>What the schema guarantees of the events that carry a model request.\<close>

definition schema_request :: "session_event \<Rightarrow> bool" where
  "schema_request e \<longleftrightarrow>
     (ev_type e \<in> {''context.assembled'', ''model.request.started''} \<longrightarrow> request_ok (js_get (ev_payload e) ''request''))"

definition same_parameters :: "js \<Rightarrow> js \<Rightarrow> bool" where
  "same_parameters a b \<longleftrightarrow> (\<forall>k. k \<notin> {''request_id'', ''messages''} \<longrightarrow> stableValue (js_get a k) = stableValue (js_get b k))"

lemma same_json_stable: "json_ok a \<Longrightarrow> json_ok b \<Longrightarrow> same_json a b \<Longrightarrow> stableValue (js_get a k) = stableValue (js_get b k)"
  using canonical_eq_iff[of a b] js_get_stable[of a k] js_get_stable[of b k] by (simp add: same_json_def json_ok_def)

lemma stable_request_ok: "request_ok r \<Longrightarrow> request_ok p \<Longrightarrow> json_ok (stable_request r p)"
proof -
  assume a: "request_ok r" "request_ok p"
  obtain fs where r: "r = JObj fs" using a(1) by (cases r) (auto simp: request_ok_def)
  have g: "json_ok (js_get p ''request_id'')" "json_ok (js_get p ''messages'')"
    using a(2) json_ok_get by (auto simp: request_ok_def)
  have "distinct (map fst fs)" "\<forall>kv \<in> set fs. json_ok (snd kv)" using a(1) by (auto simp: request_ok_def r)
  then show ?thesis using put_field_ok[OF put_field_ok[OF _ g(1)] g(2)] by (simp add: stable_request_def r)
qed

lemma stable_request_get:
  "is_obj r \<Longrightarrow> k \<notin> {''request_id'', ''messages''} \<Longrightarrow> js_get (stable_request r p) k = js_get r k"
  by (cases r) (auto simp: stable_request_def js_get_def)

lemma stable_request_same:
  assumes "request_ok r" "request_ok p" "same_json (stable_request r p) p"
  shows "same_parameters r p"
  unfolding same_parameters_def
proof (intro allI impI)
  fix k assume k: "k \<notin> {''request_id'', ''messages''}"
  have "stableValue (js_get (stable_request r p) k) = stableValue (js_get p k)"
    using same_json_stable[OF stable_request_ok[OF assms(1,2)] _ assms(3)] assms(2) by (simp add: request_ok_def)
  then show "stableValue (js_get r k) = stableValue (js_get p k)"
    using stable_request_get[OF _ k, of r p] assms(1) by (simp add: request_ok_def)
qed

lemma step_check_same:
  assumes "step_check s t (ev_payload e) = Inr ()" "tn_request t = Some r" "request_ok r"
    "request_ok (js_get (ev_payload e) ''request'')" "\<forall>st \<in> set (tn_steps t). request_ok (st_request st) \<and> same_parameters (st_request st) r"
  shows "same_parameters (js_get (ev_payload e) ''request'') r"
proof (cases "tn_steps t = []")
  case True
  then have "same_json (js_get (ev_payload e) ''request'') r"
    using assms(1,2) by (simp add: step_check_def last_opt_def initial_step_check_def guards_Cons)
  then show ?thesis using same_json_stable assms(3,4) by (auto simp: same_parameters_def request_ok_def)
next
  case False
  let ?p = "last (tn_steps t)"
  have p: "request_ok (st_request ?p)" "same_parameters (st_request ?p) r" using assms(5) False by auto
  have "same_json (stable_request (js_get (ev_payload e) ''request'') (st_request ?p)) (st_request ?p)"
  proof (cases "st_revision ?p")
    case None
    then show ?thesis
      using assms(1) False by (auto simp: step_check_def last_opt_def continuation_check_def Let_def guards_Cons)
  next
    case (Some v)
    then show ?thesis
      using assms(1) False by (auto simp: step_check_def last_opt_def revision_step_check_def Let_def guards_Cons)
  qed
  then have "same_parameters (js_get (ev_payload e) ''request'') (st_request ?p)"
    using stable_request_same[OF assms(4) p(1)] by blast
  then show ?thesis using p(2) by (auto simp: same_parameters_def)
qed

definition pinned :: "turn \<Rightarrow> bool" where
  "pinned t \<longleftrightarrow>
     (case tn_request t of
        None \<Rightarrow> tn_steps t = []
      | Some r \<Rightarrow> request_ok r \<and> (\<forall>st \<in> set (tn_steps t). request_ok (st_request st) \<and> same_parameters (st_request st) r))"

lemma pinned_replace: "pinned t \<Longrightarrow> st \<in> set (tn_steps t) \<Longrightarrow> st_request st' = st_request st \<Longrightarrow> pinned (replace_step t st')"
  by (auto simp: pinned_def replace_step_def split: option.splits)

lemma pinned_turn_step:
  assumes "schema_request e" "turn_step s e (Some t) t'" "pinned t"
  shows "pinned t'"
  using assms(2)
proof cases
  case ts_assembled
  then show ?thesis using assms(1,3) by (simp add: pinned_def schema_request_def)
next
  case ts_same
  then show ?thesis using assms(3) by (simp add: pinned_def split: option.splits)
next
  case ts_start
  then obtain r where r: "tn_request t = Some r" by auto
  have q: "request_ok (js_get (ev_payload e) ''request'')" using assms(1) ts_start by (simp add: schema_request_def)
  then have "same_parameters (js_get (ev_payload e) ''request'') r"
    using step_check_same[OF ts_start(2) r] assms(3) r by (simp add: pinned_def)
  then show ?thesis using assms(3) r ts_start q by (auto simp: pinned_def new_step_def)
next
  case (ts_revise st r)
  then show ?thesis using pinned_replace[OF assms(3)] by simp
next
  case (ts_stream st ev)
  let ?t = "t\<lparr>tn_events := tn_events t @ [ev], tn_event_ids := tn_event_ids t @ [ev_id e],
                 tn_event_sequences := tn_event_sequences t @ [ev_sequence e]\<rparr>"
  have p: "pinned ?t" using assms(3) by (simp add: pinned_def split: option.splits)
  show ?thesis
  proof (cases st)
    case None
    then show ?thesis using ts_stream p by (simp add: stream_into_def Let_def)
  next
    case (Some x)
    then have "x \<in> set (tn_steps ?t)" using ts_stream by simp
    then show ?thesis using pinned_replace[OF p] Some ts_stream(1) by (simp add: stream_into_def Let_def)
  qed
qed

text \<open>
  Requests are pinned within a turn: given what the schema guarantees of request objects, every
  model step of a turn uses the parameters of the assembled request; provider, model, tools and every
  field other than the request identifier and the messages are the same, up to the order of keys.
\<close>

theorem turn_requests_pinned:
  assumes "map_res parse inputs = Inr es" "\<forall>e \<in> set es. schema_request e" "replaySessionEvents sha parse inputs None = Inr s"
    "(i, t) \<in> set (ss_turns s)" "st \<in> set (tn_steps t)"
  shows "\<exists>r. tn_request t = Some r \<and>
    (\<forall>k. k \<notin> {''request_id'', ''messages''} \<longrightarrow> stableValue (js_get (st_request st) k) = stableValue (js_get r k))"
proof -
  have es: "apply_events sha empty_session es = Inr s"
    using assms(1,3) by (simp add: replaySessionEvents_def)
  have "pinned t"
  proof (rule turns_invariant[of schema_request pinned, OF _ _ es assms(2,4)])
    show "pinned t'" if "turn_step s e None t'" for s e t'
      using that by (auto elim!: turn_step_NoneE simp: pinned_def)
    show "pinned t'" if "schema_request e" "pinned t" "turn_step s e (Some t) t'" for s e t t'
      using pinned_turn_step that by blast
  qed
  then show ?thesis using assms(5) by (auto simp: pinned_def same_parameters_def split: option.splits)
qed

end
