(* ===== verification/ReplayRecovery.thy ===== *)
theory ReplayRecovery
  imports ReplayLimits
begin

text \<open>
  A sample session that shows the hypotheses of the replay properties can hold, the recovery plan, and two
  behaviours of the reducer that its checks do not mean to allow.
\<close>

subsection \<open>A sample session\<close>

text \<open>
  A session with one turn: the model asks for a tool, the tool runs, its outcome is linked to a governed
  operation, the model continues with the outcome, stops, and the session completes.
\<close>

definition sample_parse :: "js \<Rightarrow> session_event res" where
  "sample_parse v =
     (if is_obj v
      then Inr \<lparr>ev_id = ftext v ''event_id'', ev_session = ftext v ''session_id'', ev_sequence = fint v ''sequence'',
             ev_at = ftext v ''occurred_at'', ev_type = ftext v ''event_type'', ev_payload = js_get v ''payload''\<rparr>
      else Inl (mk_err ''AGENT_CONTRACT_SCHEMA_INVALID'' ''session event does not match schema v1''))"

definition sample_event :: "int \<Rightarrow> string \<Rightarrow> string \<Rightarrow> fields \<Rightarrow> js" where
  "sample_event n i kind payload =
     JObj [(''event_id'', JStr i), (''session_id'', JStr ''s''), (''sequence'', JNum n),
           (''occurred_at'', JStr ''2025-01-01T00:00:00Z''), (''event_type'', JStr kind), (''payload'', JObj payload)]"

definition message :: "string \<Rightarrow> string \<Rightarrow> js" where
  "message role content = JObj [(''role'', JStr role), (''content'', JStr content)]"

definition sample_spec :: js where
  "sample_spec = JObj [(''session_id'', JStr ''s''), (''parent_session_id'', JNull),
     (''execution'', JObj [(''mode'', JStr ''kernel''), (''model_provider_id'', JStr ''p''), (''model'', JStr ''m'')]),
     (''limits'', JObj [(''max_tool_calls'', JNum 2), (''max_children'', JNum 1), (''max_workflow_steps'', JNum 1)])]"

definition sample_request :: "string \<Rightarrow> js list \<Rightarrow> js" where
  "sample_request i messages =
     JObj [(''request_id'', JStr i), (''provider_id'', JStr ''p''), (''model'', JStr ''m''), (''tools'', JArr []), (''messages'', JArr messages)]"

definition sample_streamed :: "int \<Rightarrow> string \<Rightarrow> string \<Rightarrow> string \<Rightarrow> int \<Rightarrow> string \<Rightarrow> fields \<Rightarrow> js" where
  "sample_streamed n i step request k kind payload =
     sample_event n i ''model.streamed''
       [(''turn_id'', JStr ''t''), (''step_id'', JStr step), (''provider_id'', JStr ''p''),
        (''event'', JObj [(''request_id'', JStr request), (''sequence'', JNum k), (''event_type'', JStr kind), (''payload'', JObj payload)])]"

definition sample_outcome :: "string \<Rightarrow> js" where
  "sample_outcome turn_id = JObj [(''invocation_id'', JStr ''i''), (''turn_id'', JStr turn_id), (''tool_call_id'', JStr ''c''), (''name'', JStr ''f''),
     (''status'', JStr ''succeeded''), (''operation_id'', JStr ''o''), (''result'', JNull), (''error'', JNull),
     (''evidence_refs'', JArr []), (''warnings'', JArr [])]"

definition sample_tool_message :: js where
  "sample_tool_message = JObj [(''role'', JStr ''tool''), (''name'', JStr ''f''), (''tool_call_id'', JStr ''c''),
     (''content'', JStr (canonicalJson (JObj [(''status'', JStr ''succeeded''), (''result'', JNull), (''error'', JNull),
        (''evidence_refs'', JArr []), (''warnings'', JArr [])])))]"

definition sample_first :: js where
  "sample_first = sample_request ''r1'' [message ''system'' ''x'', message ''user'' ''hi'']"

definition sample_second :: js where
  "sample_second = sample_request ''r2'' [message ''system'' ''x'', message ''user'' ''hi'',
     JObj [(''role'', JStr ''assistant''), (''content'', JStr []),
       (''tool_calls'', JArr [JObj [(''tool_call_id'', JStr ''c''), (''name'', JStr ''f''), (''input'', JObj [])]])],
     sample_tool_message]"

definition sample_begin :: "js list" where
  "sample_begin =
     [sample_event 1 ''e1'' ''session.created'' [(''spec'', sample_spec)],
      sample_event 2 ''e2'' ''turn.started'' [(''turn_id'', JStr ''t''), (''input'', message ''user'' ''hi'')],
      sample_event 3 ''e3'' ''context.assembled'' [(''turn_id'', JStr ''t''), (''request'', sample_first),
        (''source_refs'', JArr [JStr ''session-event://e2'']), (''budget'', JObj [(''overflow_policy'', JStr ''reject'')])],
      sample_event 4 ''e4'' ''model.request.started'' [(''turn_id'', JStr ''t''), (''step_id'', JStr ''a''), (''request'', sample_first),
        (''source_event_ids'', JArr [JStr ''e3''])],
      sample_streamed 5 ''e5'' ''a'' ''r1'' 0 ''tool_call.delta'' [(''tool_call_id'', JStr ''c''), (''name'', JStr ''f''), (''arguments_delta'', JStr ''{}'')],
      sample_streamed 6 ''e6'' ''a'' ''r1'' 1 ''completed'' [(''finish_reason'', JStr ''tool_calls'')],
      sample_event 7 ''e7'' ''tool.execution.started'' [(''turn_id'', JStr ''t''), (''step_id'', JStr ''a''), (''invocation_id'', JStr ''i''),
        (''tool_call_id'', JStr ''c''), (''name'', JStr ''f''), (''input'', JObj []), (''idempotency_key'', JStr ''k'')]]"

definition sample_prefix :: "js list" where
  "sample_prefix = sample_begin @
     [sample_event 8 ''e8'' ''tool.execution.completed'' [(''turn_id'', JStr ''t''), (''step_id'', JStr ''a''), (''outcome'', sample_outcome ''t'')]]"

definition sample_rest :: "js list" where
  "sample_rest =
     [sample_event 9 ''e9'' ''tool.operation_linked'' [(''turn_id'', JStr ''t''), (''tool_call_id'', JStr ''c''), (''operation_id'', JStr ''o'')],
      sample_event 10 ''e10'' ''model.request.started'' [(''turn_id'', JStr ''t''), (''step_id'', JStr ''b''), (''request'', sample_second),
        (''source_event_ids'', JArr [JStr ''e6'', JStr ''e8''])],
      sample_streamed 11 ''e11'' ''b'' ''r2'' 0 ''content.delta'' [(''text'', JStr ''done'')],
      sample_streamed 12 ''e12'' ''b'' ''r2'' 1 ''completed'' [(''finish_reason'', JStr ''stop'')],
      sample_event 13 ''e13'' ''session.completed'' [(''outcome_ref'', JStr ''x'')]]"

definition state_of :: "session res \<Rightarrow> session" where
  "state_of r = (case r of Inr s \<Rightarrow> s | Inl _ \<Rightarrow> empty_session)"

definition sample_middle :: session where
  "sample_middle = state_of (replaySessionEvents id sample_parse sample_prefix None)"

definition sample_final :: session where
  "sample_final = state_of (replaySessionEvents id sample_parse (sample_prefix @ sample_rest) None)"

lemma state_ofI: "isl r = False \<Longrightarrow> r = Inr (state_of r)"
  by (cases r) (auto simp: state_of_def)

lemma sample_middle_replay: "replaySessionEvents id sample_parse sample_prefix None = Inr sample_middle"
  unfolding sample_middle_def by (rule state_ofI) code_simp

lemma sample_final_replay: "replaySessionEvents id sample_parse (sample_prefix @ sample_rest) None = Inr sample_final"
  unfolding sample_final_def by (rule state_ofI) code_simp

lemma sample_final_increment: "replaySessionEvents id sample_parse sample_rest (Some sample_middle) = Inr sample_final"
  using sample_final_replay sample_middle_replay
  by (auto simp: replaySessionEvents_def map_res_append apply_events_append)

lemma sample_middle_state:
  "(case map_of (ss_invocations sample_middle) ''i'' of None \<Rightarrow> False | Some x \<Rightarrow> final_outcome x)"
  by code_simp

definition sample_summary :: "session \<Rightarrow> string \<times> (string \<times> string list) list \<times> string list \<times> int" where
  "sample_summary s = (ss_status s, map (\<lambda>(i, t). (i, map st_id (tn_steps t))) (ss_turns s), ss_operations s, limit_of s ''max_tool_calls'')"

lemma sample_final_state: "sample_summary sample_final = (''completed'', [(''t'', [''a'', ''b''])], [''o''], 2)"
  by code_simp

lemma sample_final_terminal: "ss_terminal sample_final \<noteq> None"
  by code_simp

lemma sample_final_turn: "\<exists>t st. (''t'', t) \<in> set (ss_turns sample_final) \<and> st \<in> set (tn_steps t) \<and> st_id st = ''b''"
  using sample_final_state by (force simp: sample_summary_def)

theorem incremental_replay_witness:
  "replaySessionEvents id sample_parse (sample_prefix @ sample_rest) None = replaySessionEvents id sample_parse sample_rest (Some sample_middle) \<and>
   ss_status sample_final = ''completed''"
  using incremental_replay[OF sample_middle_replay] sample_final_state by (simp add: sample_summary_def)

definition sample_events :: "session_event list" where
  "sample_events = (case map_res sample_parse (sample_prefix @ sample_rest) of Inr es \<Rightarrow> es | Inl _ \<Rightarrow> [])"

lemma sample_events_parse: "map_res sample_parse (sample_prefix @ sample_rest) = Inr sample_events"
  using sample_final_replay by (auto simp: replaySessionEvents_def sample_events_def)

theorem replay_refines_lifecycle_witness:
  "life_run \<lparr>lc_session = None, lc_sequence = 0, lc_phase = Fresh\<rparr> sample_events = Some (life_of sample_final) \<and> ss_terminal sample_final \<noteq> None"
  using replay_refines_lifecycle[OF sample_events_parse sample_final_replay] sample_final_terminal by simp

theorem replay_stream_order_witness: "ss_sequence sample_final = 13 \<and> ev_sequence (sample_events ! 12) = 13"
proof -
  have "length sample_events = 13"
    using map_res_length[OF sample_events_parse] by (simp add: sample_prefix_def sample_begin_def sample_rest_def)
  then show ?thesis using replay_stream_order[OF sample_events_parse sample_final_replay] by simp
qed

theorem tool_outcome_final_witness: "\<exists>x. map_of (ss_invocations sample_final) ''i'' = Some x \<and> final_outcome x"
proof -
  obtain x where "map_of (ss_invocations sample_middle) ''i'' = Some x" "final_outcome x"
    using sample_middle_state by (auto split: option.splits)
  then show ?thesis using tool_outcome_final[OF sample_middle_replay _ _ sample_final_replay] by blast
qed

theorem terminal_session_settled_witness:
  "(\<exists>t. (''t'', t) \<in> set (ss_turns sample_final) \<and> \<not> turn_unsettled t) \<and> stopped (latest_events sample_final)"
proof -
  obtain e where e: "ss_terminal sample_final = Some e" using sample_final_terminal by auto
  obtain t where t: "(''t'', t) \<in> set (ss_turns sample_final)" using sample_final_turn by blast
  from terminal_session_settled[OF sample_final_replay e] t show ?thesis
    using sample_final_state by (auto simp: sample_summary_def)
qed

theorem replay_limits_witness: "int (length (ss_invocations sample_final)) \<le> 2 \<and> distinct (ss_operations sample_final) \<and> ss_operations sample_final = [''o'']"
  using replay_limits[OF sample_final_replay] sample_final_state by (cases "ss_invocations sample_final") (auto simp: sample_summary_def)

theorem stream_accounting_witness:
  "\<exists>t st. (''t'', t) \<in> set (ss_turns sample_final) \<and> st \<in> set (tn_steps t) \<and> st_id st = ''b'' \<and>
     st_bytes st = int (length (canonicalJson (JArr (st_events st))))"
  using sample_final_turn stream_accounting[OF sample_final_replay] by blast

lemma sample_schema: "list_all schema_request sample_events"
proof -
  have "list_all (\<lambda>e. ev_type e \<in> {''context.assembled'', ''model.request.started''} \<longrightarrow>
      js_get (ev_payload e) ''request'' \<in> {sample_first, sample_second}) sample_events" by code_simp
  moreover have "request_ok sample_first" "request_ok sample_second"
    by (simp_all add: request_ok_def sample_first_def sample_second_def sample_request_def sample_tool_message_def message_def js_get_def)
  ultimately show ?thesis by (auto simp: list_all_iff schema_request_def)
qed

theorem turn_requests_pinned_witness:
  "\<exists>t st r. (''t'', t) \<in> set (ss_turns sample_final) \<and> st \<in> set (tn_steps t) \<and> tn_request t = Some r \<and>
     stableValue (js_get (st_request st) ''model'') = stableValue (js_get r ''model'')"
proof -
  obtain t st where t: "(''t'', t) \<in> set (ss_turns sample_final)" "st \<in> set (tn_steps t)"
    using sample_final_turn by blast
  have "\<forall>e \<in> set sample_events. schema_request e" using sample_schema by (simp add: list_all_iff)
  from turn_requests_pinned[OF sample_events_parse this sample_final_replay t]
  obtain r where r: "tn_request t = Some r"
    "\<forall>k. k \<notin> {''request_id'', ''messages''} \<longrightarrow> stableValue (js_get (st_request st) k) = stableValue (js_get r k)" by blast
  have "stableValue (js_get (st_request st) ''model'') = stableValue (js_get r ''model'')" using r(2)[rule_format, of "''model''"] by simp
  then show ?thesis using t r(1) by blast
qed

subsection \<open>Recovery\<close>

lemma status_kept:
  assumes "apply_events sha empty_session es = Inr s" "es \<noteq> []"
  shows "ss_status s \<noteq> ''empty''"
  using assms
proof (induction es arbitrary: s rule: rev_induct)
  case (snoc e es)
  then obtain u where u: "apply_events sha empty_session es = Inr u" "apply_event sha u e = Inr s"
    by (auto simp: apply_events_append)
  let ?t = "u\<lparr>ss_id := Some (ev_session e), ss_sequence := ev_sequence e\<rparr>"
  obtain s1 where s1: "stream_checks u e = Inr ()" "handle_event sha ?t e = Inr s1" "s = s1\<lparr>ss_seen := ss_seen s1 @ [ev_id e]\<rparr>"
    using apply_eventE[OF u(2)] by blast
  have first: "ev_type e = ''session.created''" if "es = []"
    using s1(1) apply_events_shape[OF u(1)] that by (simp add: stream_checks_Inr)
  have old: "ev_type e \<noteq> ''session.created'' \<Longrightarrow> ss_status u \<noteq> ''empty''" using first snoc.IH[OF u(1)] by blast
  have "ss_status s1 \<noteq> ''empty''"
    using s1(2)
  proof (cases rule: handle_event_cases)
    case (inner h)
    then show ?thesis using inner_handler_frame[OF inner] old by simp
  qed (use old in \<open>auto dest!: outer_handlers simp: finish_session_def\<close>)
  then show ?case using s1(3) by simp
qed simp

lemma turn_action_not_none: "turn_action s t = Inr a \<Longrightarrow> a \<noteq> ''none''"
  by (auto simp: turn_action_def step_action_def Let_def split: option.splits if_splits)

text \<open>
  C40. Recovery always has a plan: for a stream that replays and is not empty, the plan exists, is terminal
  (with action \<open>none\<close>) exactly when the session has its terminal event, and carries the sequence of
  the stream; the only exception is a latest model step that finished with tool calls which do not
  assemble into calls, and then the error is the assembly's.
\<close>

theorem recovery_plan_exists:
  assumes "replaySessionEvents sha parse inputs None = Inr s" "inputs \<noteq> []"
  shows "(\<exists>plan. buildRecoveryPlan sha parse inputs = Inr plan \<and> rp_sequence plan = int (length inputs) \<and>
       (rp_terminal plan \<longleftrightarrow> ss_terminal s \<noteq> None) \<and> (rp_action plan = ''none'' \<longleftrightarrow> ss_terminal s \<noteq> None)) \<or>
     (\<exists>t st err. latest_turn s = Some t \<and> last_opt (tn_steps t) = Some st \<and> assembledToolCalls (st_events st) = Inl err \<and>
        buildRecoveryPlan sha parse inputs = Inl err)"
proof -
  obtain es where p: "map_res parse inputs = Inr es" and es: "apply_events sha empty_session es = Inr s"
    using assms(1) by (auto simp: replaySessionEvents_def)
  have l: "length es = length inputs" using map_res_length[OF p] .
  then have "es \<noteq> []" using assms(2) by auto
  then have st: "ss_status s \<noteq> ''empty''" "ss_sequence s = int (length inputs)"
    using status_kept[OF es] apply_events_shape[OF es] l by auto
  have b: "buildRecoveryPlan sha parse inputs = recovery_of s" using assms(1) by (simp add: buildRecoveryPlan_def bind_res_simps)
  show ?thesis
  proof (cases "ss_terminal s \<noteq> None \<or> latest_turn s = None")
    case True
    then show ?thesis using st b by (auto simp: recovery_of_def)
  next
    case False
    then obtain t where t: "latest_turn s = Some t" "ss_terminal s = None" by auto
    show ?thesis
    proof (cases "turn_action s t")
      case (Inr a)
      then show ?thesis using st b t turn_action_not_none[OF Inr] by (auto simp: recovery_of_def bind_res_simps)
    next
      case (Inl err)
      then obtain stp where "last_opt (tn_steps t) = Some stp" "assembledToolCalls (st_events stp) = Inl err"
        by (auto simp: turn_action_def step_action_def Let_def bind_res_def split: option.splits if_splits sum.splits)
      moreover have "recovery_of s = Inl err" using st t Inl by (simp add: recovery_of_def bind_res_simps)
      ultimately show ?thesis using t(1) b by metis
    qed
  qed
qed

theorem recovery_plan_exists_witness:
  "\<exists>plan. buildRecoveryPlan id sample_parse (sample_prefix @ sample_rest) = Inr plan \<and> rp_action plan = ''none'' \<and> rp_sequence plan = 13"
proof -
  have ne: "sample_prefix @ sample_rest \<noteq> []" by (simp add: sample_rest_def)
  have l: "length (sample_prefix @ sample_rest) = 13" by (simp add: sample_prefix_def sample_begin_def sample_rest_def)
  have "isl (buildRecoveryPlan id sample_parse (sample_prefix @ sample_rest)) = False"
    using sample_final_replay sample_final_terminal sample_final_state
    by (auto simp: buildRecoveryPlan_def recovery_of_def sample_summary_def bind_res_simps)
  then show ?thesis
    using recovery_plan_exists[OF sample_final_replay ne] sample_final_terminal l by auto
qed

subsection \<open>Two gaps\<close>

definition stray_inputs :: "js list" where
  "stray_inputs = sample_begin @
     [sample_event 8 ''e8'' ''turn.started'' [(''turn_id'', JStr ''u''), (''input'', message ''user'' ''hi'')],
      sample_event 9 ''e9'' ''tool.execution.completed'' [(''turn_id'', JStr ''u''), (''step_id'', JStr ''a''), (''outcome'', sample_outcome ''u'')]]"

definition stray_check :: "session \<Rightarrow> bool" where
  "stray_check s \<longleftrightarrow>
     (case map_of (ss_turns s) ''u'' of None \<Rightarrow> False | Some t \<Rightarrow> map_of (tn_tools t) ''c'' = Some ''i'') \<and>
     (case map_of (ss_invocations s) ''i'' of None \<Rightarrow> False | Some x \<Rightarrow> ex_turn x = ''t'' \<and> ex_outcome x \<noteq> None)"

lemma stray_replay: "(case replaySessionEvents id sample_parse stray_inputs None of Inr s \<Rightarrow> stray_check s | Inl _ \<Rightarrow> False)"
  by code_simp

text \<open>
  A tool outcome can be recorded in another turn: the reducer accepts a completion whose turn is not the
  turn that started the execution, and enters the execution among the tool executions of that other turn.
\<close>

theorem outcome_in_another_turn:
  "\<exists>s t x. replaySessionEvents id sample_parse stray_inputs None = Inr s \<and> map_of (ss_turns s) ''u'' = Some t \<and>
     map_of (tn_tools t) ''c'' = Some ''i'' \<and> map_of (ss_invocations s) ''i'' = Some x \<and> ex_turn x = ''t'' \<and> ex_outcome x \<noteq> None"
proof -
  obtain s where s: "replaySessionEvents id sample_parse stray_inputs None = Inr s" "stray_check s"
    using stray_replay by (auto split: sum.splits)
  then show ?thesis by (auto simp: stray_check_def split: option.splits)
qed

text \<open>
  A turn named \<open>constructor\<close> can never start: although the identifier is valid, the reducer reports it as
  already present in every session, because the object of turns inherits a property of that name.
\<close>

theorem constructor_turn_refused:
  "turn_started s \<lparr>ev_id = i, ev_session = q, ev_sequence = n, ev_at = at, ev_type = ''turn.started'',
      ev_payload = JObj [(''turn_id'', JStr ''constructor''), (''input'', input)]\<rparr> =
   Inl (mk_err ''AGENT_SESSION_DUPLICATE_TURN'' ''turn identifier is already present'')"
  by (simp add: turn_started_def ftext_def js_get_def present_def guards.simps bind_res_simps replay_error_def)

end
