(* ===== verification/Views.thy ===== *)
theory Views
  imports Prelude
begin

text \<open>
  State that is derived from a log by applying its events one after another, where applying an event may
  throw: the runs of the execution projection and the state of an agent session. The interface
  \<open>incremental_view\<close> says what a derived state shows of the log; its client lemma lifts the law for one
  event to a batch of events, which is how the stores bring a state up to date.
\<close>

fun fold_res :: "('s \<Rightarrow> 'e \<Rightarrow> 'err + 's) \<Rightarrow> 's \<Rightarrow> 'e list \<Rightarrow> 'err + 's" where
  "fold_res f s [] = Inr s"
| "fold_res f s (e # es) = bind_res (f s e) (\<lambda>s'. fold_res f s' es)"

lemma fold_res_append: "fold_res f s (xs @ ys) = bind_res (fold_res f s xs) (\<lambda>s'. fold_res f s' ys)"
  by (induction xs arbitrary: s) (auto simp: bind_res_def split: sum.splits)

locale incremental_view =
  fixes wf :: "'e list \<Rightarrow> bool"
    and step :: "'s \<Rightarrow> 'e \<Rightarrow> 'err + 's"
    and shows_log :: "'s \<Rightarrow> 'e list \<Rightarrow> bool"
  assumes step_view: "wf (es @ e # rest) \<Longrightarrow> shows_log s es \<Longrightarrow> step s e = Inr s' \<Longrightarrow> shows_log s' (es @ [e])"
begin

lemma fold_view:
  "wf (es @ new @ rest) \<Longrightarrow> shows_log s es \<Longrightarrow> fold_res step s new = Inr s' \<Longrightarrow> shows_log s' (es @ new)"
proof (induction new arbitrary: es s)
  case (Cons e new)
  obtain s1 where s1: "step s e = Inr s1" "fold_res step s1 new = Inr s'" using Cons.prems(3) by auto
  have "shows_log s1 (es @ [e])" using step_view Cons.prems(1,2) s1(1) by simp
  then show ?case using Cons.IH[of "es @ [e]" s1] Cons.prems(1) s1(2) by simp
qed simp

end

end
