(* ===== verification/Projections.thy ===== *)
theory Projections
  imports Ledger Views
begin

text \<open>
  The rebuildable projection of execution runs of
  \<open>tools/mcp-project-state/lib/execution-projections.js\<close>. The three projection tables live in the
  same database as the ledger; each is the list of its rows, without the constant column
  \<open>projection_name\<close> and without time stamps. Primary keys and the columns declared \<open>NOT NULL\<close> are
  those of the migration that creates the tables. A statement that throws inside a transaction leaves the
  tables unchanged. The fault injector is a parameter that may throw.

  Several processes share the database. A loop of one process is given what the other processes do to the
  database between its reads and its transactions; the step relation \<open>proj_step\<close> interleaves whole
  transactions, each of which may act on an older read.
\<close>

subsection \<open>Runs\<close>

definition STATUS_BY_EVENT :: "(string \<times> string) list" where
  "STATUS_BY_EVENT =
     [(''ExecutionAuthorized'', ''authorized''), (''ExecutionStarted'', ''running''),
      (''ExecutionSucceeded'', ''succeeded''), (''ExecutionFailed'', ''failed''),
      (''ExecutionCancelled'', ''cancelled''), (''ExecutionOutcomeUncertain'', ''in_doubt''),
      (''ExecutionCompensated'', ''compensated''), (''ExecutionCompensationFailed'', ''compensation_failed'')]"

record run =
  ru_type :: string
  ru_id :: string
  ru_version :: nat
  ru_operation :: "string option"
  ru_status :: string
  ru_last_type :: string
  ru_last_at :: string
  ru_last_position :: nat

definition run_stream :: "run \<Rightarrow> stream" where
  "run_stream u = (ru_type u, ru_id u)"

definition run_of :: "string \<Rightarrow> row \<Rightarrow> run" where
  "run_of status r = \<lparr>ru_type = r_aggregate_type r, ru_id = r_aggregate_id r, ru_version = r_sequence r,
     ru_operation = r_operation_id r, ru_status = status, ru_last_type = r_event_type r,
     ru_last_at = r_occurred_at r, ru_last_position = r_position r\<rparr>"

definition unsupported_event :: "string \<Rightarrow> jserr" where
  "unsupported_event t = mk_err ''EXECUTION_PROJECTION_EVENT_UNSUPPORTED''
     (''Unsupported execution projection event: '' @ t)"

definition applyExecutionRun :: "run option \<Rightarrow> row \<Rightarrow> run option res" where
  "applyExecutionRun state event =
     (if r_aggregate_type event \<noteq> ''execution'' then Inr state
      else case map_of STATUS_BY_EVENT (r_event_type event) of
        None \<Rightarrow> Inl (unsupported_event (r_event_type event))
      | Some status \<Rightarrow>
          (case state of
             Some u \<Rightarrow> if r_sequence event \<le> ru_version u then Inr state else Inr (Some (run_of status event))
           | None \<Rightarrow> Inr (Some (run_of status event))))"

subsection \<open>The tables\<close>

definition PROJECTION_SCHEMA_VERSION :: int where
  "PROJECTION_SCHEMA_VERSION = 1"

record generation =
  ge_number :: nat
  ge_schema :: int
  ge_status :: string
  ge_high_water :: nat

record checkpoint =
  cp_generation :: nat
  cp_position :: nat
  cp_error :: "string option"

record projections =
  pj_generations :: "generation list"
  pj_checkpoints :: "checkpoint list"
  pj_runs :: "(nat \<times> run) list"

record projection_metrics =
  pm_processed :: nat
  pm_failures :: nat

definition new_projections :: projections where
  "new_projections = \<lparr>pj_generations = [], pj_checkpoints = [], pj_runs = []\<rparr>"

definition get_active :: "projections \<Rightarrow> generation option" where
  "get_active p = find (\<lambda>g. ge_status g = ''active'') (pj_generations p)"

definition get_generation :: "projections \<Rightarrow> nat \<Rightarrow> generation option" where
  "get_generation p g = find (\<lambda>x. ge_number x = g) (pj_generations p)"

definition get_checkpoint :: "projections \<Rightarrow> nat \<Rightarrow> checkpoint option" where
  "get_checkpoint p g = find (\<lambda>c. cp_generation c = g) (pj_checkpoints p)"

definition run_key :: "nat \<times> run \<Rightarrow> nat \<times> stream" where
  "run_key u = (fst u, run_stream (snd u))"

definition select_run :: "(nat \<times> run) list \<Rightarrow> nat \<Rightarrow> stream \<Rightarrow> run option" where
  "select_run runs g s = map_option snd (find (\<lambda>u. run_key u = (g, s)) runs)"

definition not_null :: jserr where
  "not_null = mk_err ''SQLITE_CONSTRAINT_NOTNULL'' ''NOT NULL constraint failed: execution_run_projection.operation_id''"

definition upsert_run :: "(nat \<times> run) list \<Rightarrow> nat \<Rightarrow> run \<Rightarrow> (nat \<times> run) list res" where
  "upsert_run runs g u =
     (if ru_operation u = None then Inl not_null
      else case select_run runs g (run_stream u) of
        None \<Rightarrow> Inr (runs @ [(g, u)])
      | Some _ \<Rightarrow> Inr (map (\<lambda>v. if run_key v = (g, run_stream u) \<and> ru_last_position (snd v) < ru_last_position u
                               then (g, u) else v) runs))"

definition update_checkpoint :: "checkpoint list \<Rightarrow> nat \<Rightarrow> nat \<Rightarrow> nat \<Rightarrow> checkpoint list \<times> nat" where
  "update_checkpoint cps position g expected =
     (let hit = (\<lambda>c. cp_generation c = g \<and> cp_position c = expected) in
      (map (\<lambda>c. if hit c then c\<lparr>cp_position := position, cp_error := None\<rparr> else c) cps, length (filter hit cps)))"

definition record_error :: "projections \<Rightarrow> string \<Rightarrow> nat \<Rightarrow> projections" where
  "record_error p message g =
     p\<lparr>pj_checkpoints := map (\<lambda>c. if cp_generation c = g then c\<lparr>cp_error := Some message\<rparr> else c) (pj_checkpoints p)\<rparr>"

definition set_status :: "(generation \<Rightarrow> bool) \<Rightarrow> string \<Rightarrow> projections \<Rightarrow> projections" where
  "set_status which status p =
     p\<lparr>pj_generations := map (\<lambda>x. if which x then x\<lparr>ge_status := status\<rparr> else x) (pj_generations p)\<rparr>"

definition mark_generation_failed :: "projections \<Rightarrow> nat \<Rightarrow> projections" where
  "mark_generation_failed p g = set_status (\<lambda>x. ge_number x = g \<and> ge_status x = ''building'') ''failed'' p"

subsection \<open>Applying a batch\<close>

record projector =
  pc_collate :: "string \<Rightarrow> string"
  pc_registry :: "registry option"
  pc_fault :: "string \<Rightarrow> row \<Rightarrow> jserr option"

definition inject :: "projector \<Rightarrow> string \<Rightarrow> row \<Rightarrow> unit res" where
  "inject pc point event = (case pc_fault pc point event of None \<Rightarrow> Inr () | Some e \<Rightarrow> Inl e)"

definition projected_event :: "projector \<Rightarrow> row \<Rightarrow> row res" where
  "projected_event pc event =
     (case pc_registry pc of
        None \<Rightarrow> Inr event
      | Some reg \<Rightarrow>
          if r_aggregate_type event \<noteq> ''execution'' then Inr event
          else bind_res (deserialize (pc_collate pc) reg (r_event_type event) (r_schema_version event) (r_payload event))
                 (\<lambda>(v, payload). Inr (event\<lparr>r_schema_version := v, r_payload := payload\<rparr>)))"

definition project_event :: "projector \<Rightarrow> nat \<Rightarrow> (nat \<times> run) list \<Rightarrow> row \<Rightarrow> (nat \<times> run) list res" where
  "project_event pc g runs event =
     bind_res (inject pc ''before_event'' event) (\<lambda>_.
     bind_res (projected_event pc event) (\<lambda>projected.
     bind_res (if r_aggregate_type projected = ''execution''
               then bind_res (applyExecutionRun (select_run runs g (stream_of projected)) projected) (\<lambda>next.
                    case next of None \<Rightarrow> Inl type_error | Some u \<Rightarrow> upsert_run runs g u)
               else Inr runs) (\<lambda>runs'.
     bind_res (inject pc ''after_event'' event) (\<lambda>_.
     Inr runs'))))"

definition project_events :: "projector \<Rightarrow> nat \<Rightarrow> (nat \<times> run) list \<Rightarrow> row list \<Rightarrow> (nat \<times> run) list res" where
  "project_events pc g = fold_res (project_event pc g)"

definition checkpoint_conflict :: jserr where
  "checkpoint_conflict = mk_err ''EXECUTION_PROJECTION_CHECKPOINT_CONFLICT''
     ''Projection checkpoint changed before the batch could commit''"

definition apply_batch_body :: "projector \<Rightarrow> projections \<Rightarrow> nat \<Rightarrow> nat \<Rightarrow> row list \<Rightarrow> (projections \<times> nat) res" where
  "apply_batch_body pc p g expected events =
     bind_res (project_events pc g (pj_runs p) events) (\<lambda>runs.
     if events = [] then Inl type_error
     else bind_res (inject pc ''before_checkpoint'' (last events)) (\<lambda>_.
       case update_checkpoint (pj_checkpoints p) (r_position (last events)) g expected of
         (cps, changes) \<Rightarrow>
           if changes \<noteq> 1 then Inl checkpoint_conflict
           else Inr (p\<lparr>pj_runs := runs, pj_checkpoints := cps\<rparr>, r_position (last events))))"

definition applyBatch :: "projector \<Rightarrow> projections \<Rightarrow> nat \<Rightarrow> nat \<Rightarrow> row list \<Rightarrow> projections \<times> nat res" where
  "applyBatch pc p g expected events =
     (case apply_batch_body pc p g expected events of
        Inl e \<Rightarrow> (p, Inl e)
      | Inr (p', position) \<Rightarrow> (p', Inr position))"

subsection \<open>Integrity\<close>

definition high_water :: "ledger \<Rightarrow> nat" where
  "high_water l = foldr (\<lambda>r m. max (r_position r) m) (led_rows l) 0"

definition execution_rows :: "row list \<Rightarrow> row list" where
  "execution_rows rows = filter (\<lambda>r. r_aggregate_type r = ''execution'') rows"

definition source_ids :: "row list \<Rightarrow> string list" where
  "source_ids rows = uniq (map r_aggregate_id (execution_rows rows))"

definition group_max :: "(row \<Rightarrow> nat) \<Rightarrow> row list \<Rightarrow> string \<Rightarrow> nat" where
  "group_max f rows i = foldr (\<lambda>r m. max (f r) m) (select_stream rows (''execution'', i)) 0"

definition sql_ne :: "'a option \<Rightarrow> 'a option \<Rightarrow> bool" where
  "sql_ne a b \<longleftrightarrow> a \<noteq> None \<and> b \<noteq> None \<and> a \<noteq> b"

definition mismatch :: "row list \<Rightarrow> (nat \<times> run) list \<Rightarrow> nat \<Rightarrow> string \<Rightarrow> bool" where
  "mismatch rows runs g i =
     (case find (\<lambda>r. r_position r = group_max r_position rows i) rows of
        None \<Rightarrow> False
      | Some latest \<Rightarrow>
          let status = map_of STATUS_BY_EVENT (r_event_type latest) in
          (case select_run runs g (''execution'', i) of
             None \<Rightarrow> True
           | Some u \<Rightarrow>
               ru_version u \<noteq> group_max r_sequence rows i \<or>
               ru_last_position u \<noteq> group_max r_position rows i \<or>
               sql_ne (ru_operation u) (r_operation_id latest) \<or>
               sql_ne (Some (ru_status u)) status \<or>
               ru_last_type u \<noteq> r_event_type latest \<or>
               ru_last_at u \<noteq> r_occurred_at latest \<or>
               status = None))"

record integrity_report =
  ir_source :: nat
  ir_projected :: nat
  ir_mismatch :: nat

definition integrity :: "ledger \<Rightarrow> projections \<Rightarrow> nat \<Rightarrow> integrity_report" where
  "integrity l p g =
     \<lparr>ir_source = length (source_ids (led_rows l)),
      ir_projected = length (filter (\<lambda>u. fst u = g \<and> ru_type (snd u) = ''execution'') (pj_runs p)),
      ir_mismatch = length (filter (mismatch (led_rows l) (pj_runs p) g) (source_ids (led_rows l)))\<rparr>"

subsection \<open>Generations\<close>

definition createGeneration :: "ledger \<Rightarrow> projections \<Rightarrow> projections \<times> nat" where
  "createGeneration l p =
     (let g = foldr (\<lambda>x m. max (ge_number x) m) (pj_generations p) 0 + 1 in
      (p\<lparr>pj_generations := pj_generations p @
           [\<lparr>ge_number = g, ge_schema = PROJECTION_SCHEMA_VERSION, ge_status = ''building'', ge_high_water = high_water l\<rparr>],
         pj_checkpoints := pj_checkpoints p @ [\<lparr>cp_generation = g, cp_position = 0, cp_error = None\<rparr>]\<rparr>, g))"

definition projection_error :: "string \<Rightarrow> string \<Rightarrow> jserr" where
  "projection_error message code = mk_err code message"

definition schema_mismatch :: "string \<Rightarrow> int \<Rightarrow> jserr" where
  "schema_mismatch what v = projection_error (what @ '' schema is incompatible: '' @ dec_int v) ''EXECUTION_PROJECTION_SCHEMA_MISMATCH''"

definition integrity_error :: jserr where
  "integrity_error = projection_error ''Projection cannot activate because its integrity comparison failed''
     ''EXECUTION_PROJECTION_INTEGRITY_FAILED''"

definition promote :: "nat \<Rightarrow> nat \<Rightarrow> projections \<Rightarrow> projections \<times> nat" where
  "promote g mark p =
     (let hit = (\<lambda>x. ge_number x = g \<and> ge_status x = ''building'') in
      (p\<lparr>pj_generations := map (\<lambda>x. if hit x then x\<lparr>ge_status := ''active'', ge_high_water := mark\<rparr> else x) (pj_generations p)\<rparr>,
       length (filter hit (pj_generations p))))"

definition activate_body :: "ledger \<Rightarrow> projections \<Rightarrow> nat \<Rightarrow> (projections \<times> bool \<times> nat) res" where
  "activate_body l p g =
     (let mark = high_water l; report = integrity l p g;
          not_activatable = projection_error (''Projection generation is not activatable: '' @ dec_nat g)
            ''EXECUTION_PROJECTION_NOT_ACTIVATABLE'' in
      case get_generation p g of
        None \<Rightarrow> Inl not_activatable
      | Some candidate \<Rightarrow>
          if ge_status candidate \<noteq> ''building'' then Inl not_activatable
          else if ge_schema candidate \<noteq> PROJECTION_SCHEMA_VERSION
          then Inl (schema_mismatch ''Projection generation'' (ge_schema candidate))
          else if map_option cp_position (get_checkpoint p g) \<noteq> Some mark then Inr (p, False, mark)
          else if ir_source report \<noteq> ir_projected report \<or> 0 < ir_mismatch report then Inl integrity_error
          else case promote g mark (set_status (\<lambda>x. ge_status x = ''active'' \<and> ge_number x \<noteq> g) ''retired'' p) of
            (p', changes) \<Rightarrow>
              if changes \<noteq> 1
              then Inl (projection_error (''Projection generation lost activation eligibility: '' @ dec_nat g)
                          ''EXECUTION_PROJECTION_ACTIVATION_CONFLICT'')
              else Inr (p', True, mark))"

definition activate :: "ledger \<Rightarrow> projections \<Rightarrow> nat \<Rightarrow> projections \<times> (bool \<times> nat) res" where
  "activate l p g =
     (case activate_body l p g of Inl e \<Rightarrow> (p, Inl e) | Inr (p', r) \<Rightarrow> (p', Inr r))"

subsection \<open>Reconciliation\<close>

type_synonym database = "ledger \<times> projections"

record reconciled =
  rc_processed :: nat
  rc_checkpoint :: nat

definition read_batch :: "database \<Rightarrow> nat \<Rightarrow> int \<Rightarrow> (nat \<times> row list) res" where
  "read_batch db g batch_size =
     (case get_checkpoint (snd db) g of
        None \<Rightarrow> Inl type_error
      | Some c \<Rightarrow> bind_res (readGlobal (fst db) (int (cp_position c)) batch_size JUndef) (\<lambda>events. Inr (cp_position c, events)))"

definition final_checkpoint :: "database \<Rightarrow> nat \<Rightarrow> nat \<Rightarrow> reconciled res" where
  "final_checkpoint db g processed =
     (case get_checkpoint (snd db) g of
        None \<Rightarrow> Inl type_error
      | Some c \<Rightarrow> Inr \<lparr>rc_processed = processed, rc_checkpoint = cp_position c\<rparr>)"

definition count_processed :: "nat \<Rightarrow> projection_metrics \<Rightarrow> projection_metrics" where
  "count_processed n m = m\<lparr>pm_processed := pm_processed m + n\<rparr>"

definition count_failure :: "projection_metrics \<Rightarrow> projection_metrics" where
  "count_failure m = m\<lparr>pm_failures := pm_failures m + 1\<rparr>"

text \<open>
  The loop of \<open>reconcileGeneration\<close>: \<open>others n\<close> is what other processes do to the database
  between the read and the transaction of iteration \<open>n\<close>. The value \<open>None\<close> is a loop that never ends.
\<close>

partial_function (option) reconcile_loop ::
    "projector \<Rightarrow> (nat \<Rightarrow> database \<Rightarrow> database) \<Rightarrow> nat \<Rightarrow> int \<Rightarrow> nat \<Rightarrow> database \<Rightarrow> projection_metrics \<Rightarrow> nat \<Rightarrow>
     (database \<times> projection_metrics \<times> reconciled res) option" where
  "reconcile_loop pc others g batch_size n db m processed =
     (case read_batch db g batch_size of
        Inl e \<Rightarrow> Some (db, m, Inl e)
      | Inr (expected, events) \<Rightarrow>
          (case others n db of (l, p) \<Rightarrow>
             if events = [] then Some ((l, p), m, final_checkpoint (l, p) g processed)
             else case applyBatch pc p g expected events of
               (p', Inl e) \<Rightarrow>
                 if err_code e = ''EXECUTION_PROJECTION_CHECKPOINT_CONFLICT''
                 then reconcile_loop pc others g batch_size (Suc n) (l, p') m processed
                 else Some ((l, p'), m, Inl e)
             | (p', Inr _) \<Rightarrow>
                 let processed' = processed + length events; m' = count_processed (length events) m in
                 if int (length events) < batch_size
                 then Some ((l, p'), m', final_checkpoint (l, p') g processed')
                 else reconcile_loop pc others g batch_size (Suc n) (l, p') m' processed'))"

declare reconcile_loop.simps [code]

definition settle_failure :: "nat \<Rightarrow> string \<Rightarrow> jserr \<Rightarrow> database \<Rightarrow> database" where
  "settle_failure g status e db =
     (let p = record_error (snd db) (err_message e) g in
      (fst db, if status = ''building'' then mark_generation_failed p g else p))"

definition reconcileGeneration ::
    "projector \<Rightarrow> (nat \<Rightarrow> database \<Rightarrow> database) \<Rightarrow> nat \<Rightarrow> int \<Rightarrow> database \<Rightarrow> projection_metrics \<Rightarrow>
     (database \<times> projection_metrics \<times> reconciled res) option" where
  "reconcileGeneration pc others g batch_size db m =
     (case get_generation (snd db) g of
        None \<Rightarrow> Some (db, m, Inl (projection_error (''Projection generation is not reconcilable: '' @ dec_nat g)
                  ''EXECUTION_PROJECTION_NOT_RECONCILABLE''))
      | Some row \<Rightarrow>
          if ge_status row \<notin> {''building'', ''active''}
          then Some (db, m, Inl (projection_error (''Projection generation is not reconcilable: '' @ dec_nat g)
                 ''EXECUTION_PROJECTION_NOT_RECONCILABLE''))
          else if ge_schema row \<noteq> PROJECTION_SCHEMA_VERSION
          then Some (db, m, Inl (schema_mismatch ''Projection generation'' (ge_schema row)))
          else case reconcile_loop pc others g batch_size 0 db m 0 of
            None \<Rightarrow> None
          | Some (db', m', Inl e) \<Rightarrow> Some (settle_failure g (ge_status row) e db', count_failure m', Inl e)
          | Some (db', m', Inr r) \<Rightarrow> Some (db', m', Inr r))"

record rebuilt =
  rb_generation :: nat
  rb_high_water :: nat

definition catchup_error :: jserr where
  "catchup_error = projection_error ''Projection rebuild could not catch the moving high-water mark''
     ''EXECUTION_PROJECTION_CATCHUP_EXHAUSTED''"

text \<open>The rounds of \<open>rebuild\<close>; \<open>between\<close> acts after a reconciliation and before the activation.\<close>

fun rebuild_rounds ::
    "projector \<Rightarrow> (nat \<Rightarrow> nat \<Rightarrow> database \<Rightarrow> database) \<Rightarrow> (nat \<Rightarrow> database \<Rightarrow> database) \<Rightarrow> nat \<Rightarrow> int \<Rightarrow> nat \<Rightarrow> nat \<Rightarrow>
     database \<Rightarrow> projection_metrics \<Rightarrow> (database \<times> projection_metrics \<times> rebuilt res) option" where
  "rebuild_rounds pc others between g batch_size round 0 db m =
     Some (settle_failure g ''building'' catchup_error db, count_failure m, Inl catchup_error)"
| "rebuild_rounds pc others between g batch_size round (Suc rounds) db m =
     (case reconcileGeneration pc (others round) g batch_size db m of
        None \<Rightarrow> None
      | Some (db', m', Inl e) \<Rightarrow> Some (db', m', Inl e)
      | Some (db', m', Inr _) \<Rightarrow>
          (case between round db' of (l, p) \<Rightarrow>
             (case activate l p g of
                (p', Inl e) \<Rightarrow> Some (settle_failure g ''building'' e (l, p'), count_failure m', Inl e)
              | (p', Inr (True, mark)) \<Rightarrow> Some ((l, p'), m', Inr \<lparr>rb_generation = g, rb_high_water = mark\<rparr>)
              | (p', Inr (False, mark)) \<Rightarrow>
                  rebuild_rounds pc others between g batch_size (Suc round) rounds (l, p') m')))"

definition rebuild ::
    "projector \<Rightarrow> (nat \<Rightarrow> nat \<Rightarrow> database \<Rightarrow> database) \<Rightarrow> (nat \<Rightarrow> database \<Rightarrow> database) \<Rightarrow> int \<Rightarrow> nat \<Rightarrow>
     database \<Rightarrow> projection_metrics \<Rightarrow> (database \<times> projection_metrics \<times> rebuilt res) option" where
  "rebuild pc others between batch_size max_rounds db m =
     (case createGeneration (fst db) (snd db) of
        (p, g) \<Rightarrow> rebuild_rounds pc others between g batch_size 0 max_rounds (fst db, p) m)"

definition reconcileActive ::
    "projector \<Rightarrow> (nat \<Rightarrow> database \<Rightarrow> database) \<Rightarrow> int \<Rightarrow> database \<Rightarrow> projection_metrics \<Rightarrow>
     (database \<times> projection_metrics \<times> reconciled res) option" where
  "reconcileActive pc others batch_size db m =
     (case get_active (snd db) of
        None \<Rightarrow> Some (db, m, Inl (projection_error ''No active execution projection'' ''EXECUTION_PROJECTION_NOT_ACTIVE''))
      | Some active \<Rightarrow> reconcileGeneration pc others (ge_number active) batch_size db m)"

subsection \<open>Queries\<close>

definition listRuns :: "projections \<Rightarrow> string option \<Rightarrow> int \<Rightarrow> run list res" where
  "listRuns p status limit =
     (case get_active p of
        None \<Rightarrow> Inr []
      | Some active \<Rightarrow>
          if ge_schema active \<noteq> PROJECTION_SCHEMA_VERSION
          then Inl (schema_mismatch ''Active projection'' (ge_schema active))
          else if limit < 1 \<or> 1000 < limit then Inl (projection_error ''Invalid projection query limit'' ''INVALID_LIMIT'')
          else Inr (take (nat limit) (rev (sort_key ru_last_position (map snd (filter (\<lambda>u. fst u = ge_number active \<and>
                 (case status of None \<Rightarrow> True | Some s \<Rightarrow> s = [] \<or> ru_status (snd u) = s)) (pj_runs p)))))))"

record health_report =
  hr_healthy :: bool
  hr_reason :: string
  hr_generation :: "nat option"
  hr_high_water :: nat
  hr_checkpoint :: nat
  hr_lag :: int
  hr_source :: nat
  hr_projected :: nat
  hr_mismatch :: nat
  hr_error :: "string option"
  hr_schema :: "int option"

definition coverage_full :: "integrity_report \<Rightarrow> bool" where
  "coverage_full r \<longleftrightarrow> ir_source r = 0 \<or> ir_projected r = ir_source r"

definition health_reason :: "generation \<Rightarrow> checkpoint \<Rightarrow> integrity_report \<Rightarrow> int \<Rightarrow> string" where
  "health_reason active c r lag =
     (if cp_error c \<noteq> None \<and> cp_error c \<noteq> Some [] then ''projection_error''
      else if ge_schema active \<noteq> PROJECTION_SCHEMA_VERSION then ''schema_version_mismatch''
      else if 0 < lag then ''projection_lag''
      else if lag < 0 then ''checkpoint_ahead''
      else if \<not> coverage_full r then ''coverage_gap''
      else if 0 < ir_mismatch r then ''integrity_gap''
      else ''ok'')"

definition health :: "ledger \<Rightarrow> projections \<Rightarrow> health_report res" where
  "health l p =
     (let mark = high_water l; source = length (source_ids (led_rows l)) in
      case get_active p of
        None \<Rightarrow> Inr \<lparr>hr_healthy = False, hr_reason = ''no_active_generation'', hr_generation = None, hr_high_water = mark,
                     hr_checkpoint = 0, hr_lag = int mark, hr_source = source, hr_projected = 0, hr_mismatch = source,
                     hr_error = None, hr_schema = None\<rparr>
      | Some active \<Rightarrow>
          (case get_checkpoint p (ge_number active) of
             None \<Rightarrow> Inl type_error
           | Some c \<Rightarrow>
               let r = integrity l p (ge_number active); lag = int mark - int (cp_position c) in
               Inr \<lparr>hr_healthy = (ge_schema active = PROJECTION_SCHEMA_VERSION \<and> lag = 0 \<and> coverage_full r \<and>
                                 ir_mismatch r = 0 \<and> cp_error c = None),
                    hr_reason = health_reason active c r lag, hr_generation = Some (ge_number active), hr_high_water = mark,
                    hr_checkpoint = cp_position c, hr_lag = lag, hr_source = source, hr_projected = ir_projected r,
                    hr_mismatch = ir_mismatch r, hr_error = cp_error c, hr_schema = Some (ge_schema active)\<rparr>))"

definition projection_metrics_of :: "projections \<Rightarrow> projection_metrics \<Rightarrow> nat \<times> nat \<times> nat" where
  "projection_metrics_of p m =
     (pm_processed m, pm_failures m,
      case get_active p of None \<Rightarrow> 0
      | Some active \<Rightarrow> (case get_checkpoint p (ge_number active) of None \<Rightarrow> 0 | Some c \<Rightarrow> cp_position c))"

end
