(* ===== verification/ProjectionSound.thy ===== *)
theory ProjectionSound
  imports Projections
begin

text \<open>
  What the projection tables hold under any interleaving of the transactions of several processes: the step
  relation, the reference view of a list of rows, the invariant that every transaction keeps, the exactness
  of the integrity comparison, and the properties of reachable databases.
\<close>

subsection \<open>Interleaved transactions\<close>

text \<open>
  One transaction of some process on the shared database. A batch was read from an earlier state of the
  ledger, of which the present rows are an extension.
\<close>

inductive proj_step :: "registry \<Rightarrow> database \<Rightarrow> database \<Rightarrow> bool" for reg where
  step_append: "ledger_append reg l rq = (l', res) \<Longrightarrow> proj_step reg (l, p) (l', p)"
| step_append_batch: "appendBatch reg l rqs = (l', ress) \<Longrightarrow> proj_step reg (l, p) (l', p)"
| step_create: "createGeneration l p = (p', g) \<Longrightarrow> proj_step reg (l, p) (l, p')"
| step_batch: "ledger_ok l0 \<Longrightarrow> led_rows l = led_rows l0 @ later \<Longrightarrow> readGlobal l0 (int c) limit JUndef = Inr events \<Longrightarrow>
     applyBatch pc p g c events = (p', r) \<Longrightarrow> proj_step reg (l, p) (l, p')"
| step_error: "proj_step reg (l, p) (l, record_error p message g)"
| step_failed: "proj_step reg (l, p) (l, mark_generation_failed p g)"
| step_activate: "activate l p g = (p', a) \<Longrightarrow> proj_step reg (l, p) (l, p')"

inductive proj_steps :: "registry \<Rightarrow> database \<Rightarrow> database \<Rightarrow> bool" for reg where
  steps_refl: "proj_steps reg db db"
| steps_next: "proj_steps reg db db' \<Longrightarrow> proj_step reg db' db'' \<Longrightarrow> proj_steps reg db db''"

subsection \<open>The reference view\<close>

text \<open>The run of a stream is a summary of the last event of the stream.\<close>

definition view :: "row list \<Rightarrow> stream \<Rightarrow> run option" where
  "view rows s =
     (if fst s \<noteq> ''execution'' then None
      else case rev (select_stream rows s) of
        [] \<Rightarrow> None
      | r # _ \<Rightarrow> map_option (\<lambda>status. run_of status r) (map_of STATUS_BY_EVENT (r_event_type r)))"

definition supported :: "row \<Rightarrow> bool" where
  "supported r \<longleftrightarrow> r_aggregate_type r = ''execution'' \<longrightarrow> map_of STATUS_BY_EVENT (r_event_type r) \<noteq> None"

text \<open>The runs of generation \<open>g\<close> are exactly the view of \<open>rows\<close>.\<close>

definition projects :: "(nat \<times> run) list \<Rightarrow> nat \<Rightarrow> row list \<Rightarrow> bool" where
  "projects runs g rows \<longleftrightarrow> (\<forall>s. select_run runs g s = view rows s) \<and> list_all supported rows"

definition one_active :: "projections \<Rightarrow> bool" where
  "one_active p \<longleftrightarrow> length (filter (\<lambda>x. ge_status x = ''active'') (pj_generations p)) \<le> 1"

definition tables_ok :: "row list \<Rightarrow> projections \<Rightarrow> bool" where
  "tables_ok rows p \<longleftrightarrow>
     distinct (map ge_number (pj_generations p)) \<and>
     map cp_generation (pj_checkpoints p) = map ge_number (pj_generations p) \<and>
     distinct (map run_key (pj_runs p)) \<and> fst ` set (pj_runs p) \<subseteq> ge_number ` set (pj_generations p) \<and>
     (\<forall>c \<in> set (pj_checkpoints p). cp_position c \<le> length rows \<and>
        projects (pj_runs p) (cp_generation c) (take (cp_position c) rows))"

definition operations_known :: "ledger \<Rightarrow> bool" where
  "operations_known l \<longleftrightarrow> (\<forall>r \<in> set (led_rows l). r_aggregate_type r = ''execution'' \<longrightarrow> r_operation_id r \<noteq> None)"

definition proj_ok :: "database \<Rightarrow> bool" where
  "proj_ok db \<longleftrightarrow> ledger_ok (fst db) \<and> operations_known (fst db) \<and> tables_ok (led_rows (fst db)) (snd db) \<and> one_active (snd db)"

subsection \<open>One event\<close>

lemma view_snoc:
  "view (rows @ [r]) s =
     (if s = stream_of r \<and> r_aggregate_type r = ''execution''
      then map_option (\<lambda>status. run_of status r) (map_of STATUS_BY_EVENT (r_event_type r)) else view rows s)"
  by (auto simp: view_def stream_of_def)

lemma find_map_same:
  assumes "\<And>x. P (f x) = P x"
  shows "find P (map f xs) = map_option f (find P xs)"
  by (induction xs) (auto simp: assms)

lemma run_key_simp [simp]: "run_key (g, u) = (g, run_stream u)"
  by (simp add: run_key_def)

lemma run_of_stream [simp]: "run_stream (run_of status r) = stream_of r"
  by (simp add: run_stream_def run_of_def stream_of_def)

lemma find_SomeD: "find P xs = Some x \<Longrightarrow> P x \<and> x \<in> set xs"
  by (auto simp: find_Some_iff)

lemma select_run_map: "select_run runs g s = map_of (map (\<lambda>u. (run_key u, snd u)) runs) (g, s)"
  unfolding select_run_def by (induction runs) auto

lemma select_run_key:
  assumes "select_run runs g s = Some u"
  shows "run_stream u = s \<and> (g, u) \<in> set runs"
proof -
  obtain w where "find (\<lambda>u. run_key u = (g, s)) runs = Some w" "u = snd w"
    using assms by (auto simp: select_run_def)
  then show ?thesis by (cases w) (auto dest: find_SomeD)
qed

lemma select_run_None: "select_run runs g s = None \<longleftrightarrow> (g, s) \<notin> run_key ` set runs"
  unfolding select_run_map map_of_eq_None_iff by (auto simp: image_image)

lemma select_run_append:
  "select_run (runs @ [(g, u)]) h s =
     (case select_run runs h s of Some v \<Rightarrow> Some v | None \<Rightarrow> if h = g \<and> s = run_stream u then Some u else None)"
  by (auto simp: select_run_map map_add_def split: option.splits)

lemma upsert_run_Inr:
  assumes "upsert_run runs g u = Inr runs'"
    "\<And>v. select_run runs g (run_stream u) = Some v \<Longrightarrow> ru_last_position v < ru_last_position u"
  shows "select_run runs' h s = (if h = g \<and> s = run_stream u then Some u else select_run runs h s)"
    "distinct (map run_key runs) \<Longrightarrow> distinct (map run_key runs')"
    "fst ` set runs' = insert g (fst ` set runs)"
proof -
  let ?f = "\<lambda>v. if run_key v = (g, run_stream u) \<and> ru_last_position (snd v) < ru_last_position u then (g, u) else v"
  have key: "run_key (?f v) = run_key v" for v by auto
  consider (new) "select_run runs g (run_stream u) = None" "runs' = runs @ [(g, u)]"
    | (old) v where "select_run runs g (run_stream u) = Some v" "runs' = map ?f runs"
    using assms(1) by (auto simp: upsert_run_def split: if_splits option.splits)
  then have "select_run runs' h s = (if h = g \<and> s = run_stream u then Some u else select_run runs h s) \<and>
    (distinct (map run_key runs) \<longrightarrow> distinct (map run_key runs')) \<and> fst ` set runs' = insert g (fst ` set runs)"
  proof cases
    case new
    then show ?thesis
      by (auto simp: select_run_append select_run_None[symmetric] split: option.splits)
  next
    case old
    have f: "find (\<lambda>u. run_key u = (h, s)) (map ?f runs) = map_option ?f (find (\<lambda>u. run_key u = (h, s)) runs)"
      by (intro find_map_same) (simp add: key)
    have "select_run runs' h s = (if h = g \<and> s = run_stream u then Some u else select_run runs h s)"
    proof (cases "h = g \<and> s = run_stream u")
      case True
      obtain w where w: "find (\<lambda>u. run_key u = (h, s)) runs = Some w" "snd w = v"
        using old(1) True by (auto simp: select_run_def)
      then have "run_key w = (g, run_stream u)" using True by (auto dest: find_SomeD)
      then show ?thesis using w True f assms(2)[OF old(1)] by (simp add: select_run_def old(2))
    next
      case False
      have "?f w = w" if "find (\<lambda>u. run_key u = (h, s)) runs = Some w" for w
        using that False by (auto dest: find_SomeD)
      then show ?thesis unfolding select_run_def old(2) f using False
        by (cases "find (\<lambda>u. run_key u = (h, s)) runs") auto
    qed
    moreover have "map run_key runs' = map run_key runs" by (simp add: old(2) key)
    moreover have "g \<in> fst ` set runs" using select_run_key[OF old(1)] by force
    moreover have "map fst runs' = map fst runs" by (auto simp: old(2) run_key_def)
    then have "fst ` set runs' = fst ` set runs" by (metis list.set_map)
    ultimately show ?thesis by (simp add: insert_absorb)
  qed
  then show "select_run runs' h s = (if h = g \<and> s = run_stream u then Some u else select_run runs h s)"
    "distinct (map run_key runs) \<Longrightarrow> distinct (map run_key runs')"
    "fst ` set runs' = insert g (fst ` set runs)" by blast+
qed

lemma projected_event_Inr:
  "projected_event pc r = Inr r' \<Longrightarrow> \<exists>v payload. r' = r\<lparr>r_schema_version := v, r_payload := payload\<rparr>"
  by (cases r) (auto simp: projected_event_def split: option.splits if_splits)

lemma run_of_payload [simp]:
  "run_of status (r\<lparr>r_schema_version := v, r_payload := payload\<rparr>) = run_of status r"
  "stream_of (r\<lparr>r_schema_version := v, r_payload := payload\<rparr>) = stream_of r"
  by (simp_all add: run_of_def stream_of_def)

definition follows_view :: "row list \<Rightarrow> row \<Rightarrow> bool" where
  "follows_view rows r \<longleftrightarrow> (\<forall>u. view rows (stream_of r) = Some u \<longrightarrow>
     ru_version u < r_sequence r \<and> ru_last_position u < r_position r)"

lemma project_event_Inr:
  assumes e: "project_event pc g runs r = Inr runs'" and v: "projects runs g rows" "follows_view rows r"
  shows "projects runs' g (rows @ [r])" "h \<noteq> g \<Longrightarrow> select_run runs' h s = select_run runs h s"
    "distinct (map run_key runs) \<Longrightarrow> distinct (map run_key runs')" "fst ` set runs' \<subseteq> insert g (fst ` set runs)"
proof -
  obtain w payload where p: "projected_event pc r = Inr (r\<lparr>r_schema_version := w, r_payload := payload\<rparr>)"
    using e projected_event_Inr by (fastforce simp: project_event_def)
  have sel: "select_run runs g (stream_of r) = view rows (stream_of r)" using v(1) unfolding projects_def by blast
  have "projects runs' g (rows @ [r]) \<and> (h \<noteq> g \<longrightarrow> select_run runs' h s = select_run runs h s) \<and>
    (distinct (map run_key runs) \<longrightarrow> distinct (map run_key runs')) \<and> fst ` set runs' \<subseteq> insert g (fst ` set runs)"
  proof (cases "r_aggregate_type r = ''execution''")
    case False
    then have "runs' = runs" using e p by (auto simp: project_event_def)
    then show ?thesis using v(1) False by (auto simp: projects_def view_snoc supported_def)
  next
    case True
    obtain status where st: "map_of STATUS_BY_EVENT (r_event_type r) = Some status"
      and up: "upsert_run runs g (run_of status r) = Inr runs'"
      using e p True sel v(2)
      by (auto simp: project_event_def applyExecutionRun_def follows_view_def split: option.splits if_splits)
    have fresh: "ru_last_position u < ru_last_position (run_of status r)"
      if "select_run runs g (run_stream (run_of status r)) = Some u" for u
      using that sel v(2) by (simp add: follows_view_def run_of_def run_stream_def stream_of_def)
    from upsert_run_Inr[OF up fresh] show ?thesis
      using v(1) st True by (auto simp: projects_def view_snoc supported_def)
  qed
  then show "projects runs' g (rows @ [r])" "h \<noteq> g \<Longrightarrow> select_run runs' h s = select_run runs h s"
    "distinct (map run_key runs) \<Longrightarrow> distinct (map run_key runs')" "fst ` set runs' \<subseteq> insert g (fst ` set runs)"
    by blast+
qed

lemma view_last:
  assumes "view rows s = Some u"
  obtains r status where "last (select_stream rows s) = r" "select_stream rows s \<noteq> []"
    "map_of STATUS_BY_EVENT (r_event_type r) = Some status" "u = run_of status r"
  using assms by (auto simp: view_def last_rev[symmetric] split: if_splits list.splits)

lemma rows_ok_follows:
  assumes "rows_ok (rows @ r # rest)"
  shows "follows_view rows r"
  unfolding follows_view_def
proof (intro allI impI)
  fix u assume "view rows (stream_of r) = Some u"
  then obtain q status where q: "last (select_stream rows (stream_of r)) = q" "select_stream rows (stream_of r) \<noteq> []"
      "u = run_of status q" by (rule view_last)
  let ?st = "select_stream rows (stream_of r)"
  have qs: "q \<in> set ?st" using q last_in_set by blast
  have "sorted_wrt (<) (map r_sequence (select_stream (rows @ r # rest) (stream_of r)))"
    using assms unfolding rows_ok_def by (metis sorted_wrt_upt)
  then have "r_sequence q < r_sequence r" using qs by (simp add: sorted_wrt_append)
  moreover have "sorted_wrt (<) (map r_position (rows @ r # rest))"
    using assms unfolding rows_ok_def by (metis sorted_wrt_upt)
  then have "r_position q < r_position r"
    using qs by (auto simp: sorted_wrt_append select_stream_def)
  ultimately show "ru_version u < r_sequence r \<and> ru_last_position u < r_position r"
    using q(3) by (simp add: run_of_def)
qed

text \<open>The runs after some events, against the runs \<open>runs0\<close> they started from.\<close>

definition projected_over :: "nat \<Rightarrow> (nat \<times> run) list \<Rightarrow> (nat \<times> run) list \<Rightarrow> row list \<Rightarrow> bool" where
  "projected_over g runs0 runs rows \<longleftrightarrow> projects runs g rows \<and>
     (\<forall>h s. h \<noteq> g \<longrightarrow> select_run runs h s = select_run runs0 h s) \<and>
     (distinct (map run_key runs0) \<longrightarrow> distinct (map run_key runs)) \<and> fst ` set runs \<subseteq> insert g (fst ` set runs0)"

interpretation projection: incremental_view rows_ok "project_event pc g" "projected_over g runs0" for pc g runs0
proof unfold_locales
  fix es e rest runs runs'
  assume ok: "rows_ok (es @ e # rest)" and p: "projected_over g runs0 runs es" and s: "project_event pc g runs e = Inr runs'"
  have v: "projects runs g es" using p by (simp add: projected_over_def)
  note n = project_event_Inr[OF s v rows_ok_follows[OF ok]]
  have "fst ` set runs' \<subseteq> insert g (fst ` set runs0)" using n(4) p unfolding projected_over_def by blast
  then show "projected_over g runs0 runs' (es @ [e])" using n(1-3) p by (simp add: projected_over_def)
qed

lemma project_events_Inr:
  assumes "project_events pc g runs events = Inr runs'" "projects runs g rows" "rows_ok (rows @ events @ rest)"
  shows "projected_over g runs runs' (rows @ events)"
proof -
  have "projected_over g runs runs rows" using assms(2) by (auto simp: projected_over_def)
  from projection.fold_view[OF assms(3) this assms(1)[unfolded project_events_def]] show ?thesis .
qed

subsection \<open>One batch\<close>

lemma filter_after:
  fixes f :: "'a \<Rightarrow> nat"
  shows "map f xs = [m..<m + length xs] \<Longrightarrow> filter (\<lambda>x. c < f x) xs = drop (Suc c - m) xs"
proof (induction xs arbitrary: m)
  case (Cons x xs)
  have "[m..<m + length (x # xs)] = m # [Suc m..<Suc m + length xs]"
    by (simp add: upt_conv_Cons del: upt_Suc)
  with Cons.prems have x: "f x = m" "map f xs = [Suc m..<Suc m + length xs]" by simp_all
  show ?case using Cons.IH[OF x(2)] x(1) by (cases "c < m") (auto simp: Suc_diff_le)
qed simp

lemma readGlobal_slice:
  assumes "ledger_ok l" "readGlobal l (int c) limit JUndef = Inr events"
  shows "events = take (nat limit) (drop c (led_rows l))" "1 \<le> limit"
proof -
  have ok: "rows_ok (led_rows l)" using assms(1) by (simp add: ledger_ok_def)
  have "map r_position (led_rows l) = [1..<1 + length (led_rows l)]" using ok by (simp add: rows_ok_def)
  from filter_after[OF this, of c]
  have f: "filter (\<lambda>r. c < r_position r) (led_rows l) = drop c (led_rows l)" by simp
  have "sorted (map r_position (drop c (led_rows l)))"
    using rows_sorted[OF ok] by (simp add: drop_map[symmetric] sorted_wrt_drop)
  then show "events = take (nat limit) (drop c (led_rows l))"
    using assms(2) f by (auto simp: readGlobal_def sort_key_id split: if_splits)
  show "1 \<le> limit" using assms(2) by (auto simp: readGlobal_def cursor_ok_def split: if_splits)
qed

lemma last_position:
  assumes "rows_ok rows" "events = take n (drop c rows)" "events \<noteq> []"
  shows "r_position (last events) = c + length events" "take (c + length events) rows = take c rows @ events"
    "c + length events \<le> length rows"
proof -
  let ?k = "c + length events"
  have k: "?k \<le> length rows" "c < length rows" using assms(2,3) by auto
  then show "?k \<le> length rows" by blast
  have "take (length events) (drop c rows) = events" using assms(2) by (metis append_eq_conv_conj append_take_drop_id)
  then show t: "take ?k rows = take c rows @ events" by (simp add: take_add)
  have p: "r_position (rows ! i) = Suc i" if "i < length rows" for i
  proof -
    have "map r_position rows ! i = [1..<Suc (length rows)] ! i" using assms(1) by (simp add: rows_ok_def)
    then show ?thesis using that by (simp del: upt_Suc)
  qed
  have "last events = rows ! (?k - 1)"
    using t k assms(3) by (metis append_is_Nil_conv diff_less last_appendR last_conv_nth length_greater_0_conv length_take
        less_imp_diff_less min.absorb2 nth_take zero_less_one)
  then show "r_position (last events) = ?k" using p[of "?k - 1"] k assms(3) by (cases events) auto
qed

lemma update_checkpoint_one:
  assumes "update_checkpoint cps position g expected = (cps', 1)" "distinct (map cp_generation cps)"
  obtains c where "c \<in> set cps" "cp_generation c = g" "cp_position c = expected"
    "map cp_generation cps' = map cp_generation cps"
    "set cps' = insert (c\<lparr>cp_position := position, cp_error := None\<rparr>) {x \<in> set cps. cp_generation x \<noteq> g}"
proof -
  let ?hit = "\<lambda>c. cp_generation c = g \<and> cp_position c = expected"
  have cps': "cps' = map (\<lambda>c. if ?hit c then c\<lparr>cp_position := position, cp_error := None\<rparr> else c) cps"
    and one: "length (filter ?hit cps) = 1"
    using assms(1) by (auto simp: update_checkpoint_def Let_def)
  then obtain c where f: "filter ?hit cps = [c]" by (auto simp: length_Suc_conv)
  then have c: "c \<in> set cps" "?hit c" by (auto dest!: arg_cong[where f = set])
  have only: "x = c" if "x \<in> set cps" "cp_generation x = g" for x
    using assms(2) c that by (metis eq_key_imp_eq_value distinct_map inj_onD)
  have "map cp_generation cps' = map cp_generation cps" by (auto simp: cps')
  moreover have "set cps' = insert (c\<lparr>cp_position := position, cp_error := None\<rparr>) {x \<in> set cps. cp_generation x \<noteq> g}"
  proof -
    have "set cps = insert c {x \<in> set cps. cp_generation x \<noteq> g}" using c only by blast
    then have "set cps' = (\<lambda>c. if ?hit c then c\<lparr>cp_position := position, cp_error := None\<rparr> else c) `
        insert c {x \<in> set cps. cp_generation x \<noteq> g}" unfolding cps' set_map by simp
    then show ?thesis using c by (auto simp: image_iff)
  qed
  ultimately show thesis using that c by blast
qed

lemma applyBatch_Inr:
  assumes "applyBatch pc p g expected events = (p', Inr position)"
  obtains runs cps where "project_events pc g (pj_runs p) events = Inr runs" "events \<noteq> []"
    "position = r_position (last events)"
    "update_checkpoint (pj_checkpoints p) (r_position (last events)) g expected = (cps, 1)"
    "p' = p\<lparr>pj_runs := runs, pj_checkpoints := cps\<rparr>"
  using assms by (auto simp: applyBatch_def apply_batch_body_def split: sum.splits if_splits prod.splits)

lemma applyBatch_Inl: "applyBatch pc p g expected events = (p', Inl e) \<Longrightarrow> p' = p"
  by (auto simp: applyBatch_def split: sum.splits)

lemma applyBatch_ok:
  assumes t: "tables_ok rows p" and r: "rows_ok rows"
    and e: "events = take n (drop expected rows)"
    and b: "applyBatch pc p g expected events = (p', res)"
  shows "tables_ok rows p'" "pj_generations p' = pj_generations p"
proof -
  have "tables_ok rows p' \<and> pj_generations p' = pj_generations p"
  proof (cases res)
    case (Inl x)
    then show ?thesis using applyBatch_Inl[of pc p g expected events p' x] b t by simp
  next
    case (Inr position)
    obtain runs cps where pe: "project_events pc g (pj_runs p) events = Inr runs" and ne: "events \<noteq> []"
      and up: "update_checkpoint (pj_checkpoints p) (r_position (last events)) g expected = (cps, 1)"
      and p': "p' = p\<lparr>pj_runs := runs, pj_checkpoints := cps\<rparr>"
      using b Inr by (auto elim: applyBatch_Inr)
    have d: "distinct (map cp_generation (pj_checkpoints p))" using t by (auto simp: tables_ok_def)
    obtain c where c: "c \<in> set (pj_checkpoints p)" "cp_generation c = g" "cp_position c = expected"
      "map cp_generation cps = map cp_generation (pj_checkpoints p)"
      "set cps = insert (c\<lparr>cp_position := r_position (last events), cp_error := None\<rparr>)
         {x \<in> set (pj_checkpoints p). cp_generation x \<noteq> g}"
      by (rule update_checkpoint_one[OF up d])
    note l = last_position[OF r e ne]
    have pr: "projects (pj_runs p) g (take expected rows)" using t c by (auto simp: tables_ok_def)
    have "rows_ok (take expected rows @ events @ drop (expected + length events) rows)"
      using r l(2) by (metis append.assoc append_take_drop_id)
    note s = project_events_Inr[OF pe pr this, unfolded projected_over_def]
    have g: "g \<in> ge_number ` set (pj_generations p)"
      using t c by (metis (no_types, lifting) tables_ok_def image_eqI list.set_map)
    have other: "projects runs h xs = projects (pj_runs p) h xs" if "h \<noteq> g" for h xs
      using s that by (simp add: projects_def)
    have "fst ` set runs \<subseteq> ge_number ` set (pj_generations p)"
      using s t g unfolding tables_ok_def by blast
    moreover have "distinct (map run_key runs)" using s t by (simp add: tables_ok_def)
    moreover have "map cp_generation cps = map ge_number (pj_generations p)" using t c(4) by (simp add: tables_ok_def)
    moreover have "\<forall>x \<in> set cps. cp_position x \<le> length rows \<and> projects runs (cp_generation x) (take (cp_position x) rows)"
      unfolding c(5) using t l other c(2) s by (auto simp: tables_ok_def)
    ultimately show ?thesis
      using t by (simp add: p' tables_ok_def)
  qed
  then show "tables_ok rows p'" "pj_generations p' = pj_generations p" by blast+
qed

subsection \<open>Every transaction keeps the tables right\<close>

lemma append_rows_new:
  assumes "append_rows catalog rows s n cs = Inr (rows', r)"
  shows "\<exists>new. rows' = rows @ new \<and> (\<forall>x \<in> set new. \<exists>c \<in> set cs. \<exists>m. x = c\<lparr>r_position := m\<rparr>)"
proof -
  have "rows' = rows \<or> insert_rows catalog rows cs = Inr rows'"
    using assms unfolding append_rows_def Let_def by (auto split: if_splits sum.splits)
  then show ?thesis
  proof
    assume "insert_rows catalog rows cs = Inr rows'"
    then show ?thesis using insert_rows_Inr set_place by blast
  qed simp
qed

lemma append_prepared_new:
  "append_prepared catalog rows ps = Inr (rows', rs) \<Longrightarrow>
     \<exists>new. rows' = rows @ new \<and> (\<forall>x \<in> set new. \<exists>p \<in> set ps. \<exists>c \<in> set (pr_candidates p). \<exists>m. x = c\<lparr>r_position := m\<rparr>)"
proof (induction ps arbitrary: rows rs)
  case (Cons p ps)
  obtain rows1 r rs' where a: "append_rows catalog rows (pr_stream p) (pr_expected p) (pr_candidates p) = Inr (rows1, r)"
    "append_prepared catalog rows1 ps = Inr (rows', rs')"
    using Cons.prems by (auto split: sum.splits)
  obtain n1 where n1: "rows1 = rows @ n1" "\<forall>x \<in> set n1. \<exists>c \<in> set (pr_candidates p). \<exists>m. x = c\<lparr>r_position := m\<rparr>"
    using append_rows_new[OF a(1)] by blast
  obtain n2 where n2: "rows' = rows1 @ n2"
    "\<forall>x \<in> set n2. \<exists>p \<in> set ps. \<exists>c \<in> set (pr_candidates p). \<exists>m. x = c\<lparr>r_position := m\<rparr>"
    using Cons.IH[OF a(2)] by blast
  have "rows' = rows @ n1 @ n2" using n1(1) n2(1) by simp
  moreover have "\<exists>p \<in> set (p # ps). \<exists>c \<in> set (pr_candidates p). \<exists>m. x = c\<lparr>r_position := m\<rparr>" if "x \<in> set (n1 @ n2)" for x
    using that n1(2) n2(2) unfolding set_append list.set by blast
  ultimately show ?case by blast
qed simp

definition operation_known :: "row \<Rightarrow> bool" where
  "operation_known r \<longleftrightarrow> r_aggregate_type r = ''execution'' \<longrightarrow> r_operation_id r \<noteq> None"

lemma prepared_operation_known:
  assumes "prepareAppend reg rq = Inr p" "c \<in> set (pr_candidates p)"
  shows "operation_known (c\<lparr>r_position := m\<rparr>)"
proof -
  let ?s = "(js_text (rq_aggregate_type rq), js_text (rq_aggregate_id rq))"
  obtain i e where "normalizeEvent e ?s i = Inr c"
    using assms map_res_set by (fastforce simp: prepareAppend_def Let_def split: if_splits)
  then show ?thesis
    by (auto simp: normalizeEvent_def check_event_header_def requireString_def operation_known_def dest!: is_textE)
qed

lemma ledger_grows_tables:
  assumes "tables_ok rows p" shows "tables_ok (rows @ new) p"
  using assms by (auto simp: tables_ok_def)

lemma append_keeps:
  assumes "proj_ok (l, p)" "ledger_append reg l rq = (l', res)"
  shows "proj_ok (l', p)"
proof -
  have l: "ledger_ok l" and p: "operations_known l" "tables_ok (led_rows l) p" "one_active p"
    using assms(1) by (simp_all add: proj_ok_def)
  obtain n where n: "ledger_ok l'" "led_rows l' = led_rows l @ n" using ledger_append_ok[OF l assms(2)] by blast
  have "\<forall>x \<in> set n. operation_known x"
    using ledger_append_cases[OF assms(2)]
  proof (elim disjE exE conjE)
    fix q r assume q: "prepareAppend reg rq = Inr q"
      and a: "append_rows (led_catalog l) (led_rows l) (pr_stream q) (pr_expected q) (pr_candidates q) = Inr (led_rows l', r)"
    obtain new where "led_rows l' = led_rows l @ new"
      and new: "\<forall>x \<in> set new. \<exists>c \<in> set (pr_candidates q). \<exists>m. x = c\<lparr>r_position := m\<rparr>"
      using append_rows_new[OF a] by blast
    then show ?thesis using n(2) prepared_operation_known[OF q] by auto
  qed (use n in simp)
  then show ?thesis using n p ledger_grows_tables by (auto simp: proj_ok_def operations_known_def operation_known_def)
qed

lemma append_batch_keeps:
  assumes "proj_ok (l, p)" "appendBatch reg l rqs = (l', res)"
  shows "proj_ok (l', p)"
proof -
  have l: "ledger_ok l" and p: "operations_known l" "tables_ok (led_rows l) p" "one_active p"
    using assms(1) by (simp_all add: proj_ok_def)
  obtain n where n: "ledger_ok l'" "led_rows l' = led_rows l @ n" using appendBatch_ok[OF l assms(2)] by blast
  have "\<forall>x \<in> set n. operation_known x"
    using appendBatch_cases[OF assms(2)]
  proof (elim disjE exE conjE)
    fix ps rs assume ps: "map_res (prepareAppend reg) rqs = Inr ps"
      and a: "append_prepared (led_catalog l) (led_rows l) ps = Inr (led_rows l', rs)"
    obtain new where "led_rows l' = led_rows l @ new"
      and new: "\<forall>x \<in> set new. \<exists>p \<in> set ps. \<exists>c \<in> set (pr_candidates p). \<exists>m. x = c\<lparr>r_position := m\<rparr>"
      using append_prepared_new[OF a] by blast
    then have "n = new" using n(2) by simp
    show ?thesis
    proof
      fix x assume "x \<in> set n"
      then obtain q c m where "q \<in> set ps" "c \<in> set (pr_candidates q)" "x = c\<lparr>r_position := m\<rparr>"
        using new \<open>n = new\<close> by blast
      then show "operation_known x" using map_res_set[OF ps] prepared_operation_known by blast
    qed
  qed (use n in simp)
  then show ?thesis using n p ledger_grows_tables by (auto simp: proj_ok_def operations_known_def operation_known_def)
qed

lemma max_generation: "x \<in> set gs \<Longrightarrow> ge_number x \<le> foldr (\<lambda>x m. max (ge_number x) m) gs 0"
  by (induction gs) auto

lemma createGeneration_ok:
  assumes "tables_ok rows p" "one_active p" "createGeneration l p = (p', g)"
  shows "tables_ok rows p'" "one_active p'" "get_generation p' g = Some \<lparr>ge_number = g, ge_schema = 1, ge_status = ''building'', ge_high_water = high_water l\<rparr>"
    "get_checkpoint p' g = Some \<lparr>cp_generation = g, cp_position = 0, cp_error = None\<rparr>"
proof -
  let ?m = "foldr (\<lambda>x m. max (ge_number x) m) (pj_generations p) 0"
  have g: "g = Suc ?m" using assms(3) by (simp add: createGeneration_def Let_def)
  have p': "p' = p\<lparr>pj_generations := pj_generations p @
           [\<lparr>ge_number = g, ge_schema = 1, ge_status = ''building'', ge_high_water = high_water l\<rparr>],
         pj_checkpoints := pj_checkpoints p @ [\<lparr>cp_generation = g, cp_position = 0, cp_error = None\<rparr>]\<rparr>"
    using assms(3) by (auto simp: createGeneration_def Let_def PROJECTION_SCHEMA_VERSION_def)
  have new: "g \<notin> ge_number ` set (pj_generations p)" using max_generation g by fastforce
  then have "g \<notin> fst ` set (pj_runs p)" using assms(1) unfolding tables_ok_def by blast
  then have "projects (pj_runs p) g []"
    by (force simp: projects_def view_def select_run_None run_key_def)
  moreover have cg: "map cp_generation (pj_checkpoints p) = map ge_number (pj_generations p)"
    using assms(1) by (simp add: tables_ok_def)
  ultimately show "tables_ok rows p'" using assms(1) new by (auto simp: tables_ok_def p')
  show "one_active p'" using assms(2) by (simp add: one_active_def p')
  show "get_generation p' g = Some \<lparr>ge_number = g, ge_schema = 1, ge_status = ''building'', ge_high_water = high_water l\<rparr>"
    using new by (auto simp: get_generation_def p' find_append find_None_iff split: option.splits dest!: find_SomeD)
  have "g \<notin> cp_generation ` set (pj_checkpoints p)" using cg new by (metis list.set_map)
  then show "get_checkpoint p' g = Some \<lparr>cp_generation = g, cp_position = 0, cp_error = None\<rparr>"
    by (auto simp: get_checkpoint_def p' find_append find_None_iff split: option.splits dest!: find_SomeD)
qed

lemma record_error_ok:
  "tables_ok rows p \<Longrightarrow> tables_ok rows (record_error p message g)"
  "one_active p \<Longrightarrow> one_active (record_error p message g)"
proof -
  have "map cp_generation (map (\<lambda>c. if cp_generation c = g then c\<lparr>cp_error := Some message\<rparr> else c) (pj_checkpoints p)) =
      map cp_generation (pj_checkpoints p)" by auto
  then show "tables_ok rows p \<Longrightarrow> tables_ok rows (record_error p message g)"
    by (auto simp: tables_ok_def record_error_def)
  show "one_active p \<Longrightarrow> one_active (record_error p message g)" by (simp add: one_active_def record_error_def)
qed

lemma set_status_numbers [simp]:
  "map ge_number (pj_generations (set_status w st p)) = map ge_number (pj_generations p)"
  "ge_number ` set (pj_generations (set_status w st p)) = ge_number ` set (pj_generations p)"
  "pj_checkpoints (set_status w st p) = pj_checkpoints p" "pj_runs (set_status w st p) = pj_runs p"
proof -
  show n: "map ge_number (pj_generations (set_status w st p)) = map ge_number (pj_generations p)"
    by (auto simp: set_status_def)
  show "ge_number ` set (pj_generations (set_status w st p)) = ge_number ` set (pj_generations p)"
    using n by (metis list.set_map)
qed (simp_all add: set_status_def)

lemma set_status_ok: "tables_ok rows p \<Longrightarrow> tables_ok rows (set_status w st p)"
  by (simp add: tables_ok_def)

lemma set_status_active:
  assumes "one_active p" "st \<noteq> ''active''"
  shows "one_active (set_status w st p)"
proof -
  have "length (filter (\<lambda>x. ge_status x = ''active'') (map (\<lambda>x. if w x then x\<lparr>ge_status := st\<rparr> else x) gs)) \<le>
      length (filter (\<lambda>x. ge_status x = ''active'') gs)" for gs
    using assms(2) by (induction gs) auto
  then show ?thesis using assms(1) by (auto simp: one_active_def set_status_def intro: order_trans)
qed

subsection \<open>The integrity comparison\<close>

lemma foldr_max_last:
  fixes f :: "'a \<Rightarrow> nat"
  shows "sorted (map f xs) \<Longrightarrow> xs \<noteq> [] \<Longrightarrow> foldr (\<lambda>x m. max (f x) m) xs 0 = f (last xs)"
proof (induction xs)
  case (Cons x xs)
  then show ?case by (cases xs) auto
qed simp

lemma stream_latest:
  assumes ok: "rows_ok rows" and i: "select_stream rows (''execution'', i) \<noteq> []"
  defines "r \<equiv> last (select_stream rows (''execution'', i))"
  shows "group_max r_sequence rows i = r_sequence r" "group_max r_position rows i = r_position r"
    "find (\<lambda>q. r_position q = r_position r) rows = Some r"
proof -
  let ?st = "select_stream rows (''execution'', i)"
  have r: "r \<in> set rows" using i last_in_set[of ?st] by (auto simp: r_def select_stream_def)
  show "group_max r_sequence rows i = r_sequence r"
    unfolding group_max_def r_def by (rule foldr_max_last[OF stream_sorted[OF ok] i])
  have "sorted (map r_position ?st)" using rows_sorted[OF ok] by (simp add: select_stream_def sorted_filter)
  then show "group_max r_position rows i = r_position r"
    unfolding group_max_def r_def using i by (rule foldr_max_last)
  have "distinct (map r_position rows)" using ok unfolding rows_ok_def by (metis distinct_upt)
  then have "q = r" if "q \<in> set rows" "r_position q = r_position r" for q
    using that r by (metis distinct_map inj_onD)
  then show "find (\<lambda>q. r_position q = r_position r) rows = Some r"
    using r by (cases "find (\<lambda>q. r_position q = r_position r) rows") (auto simp: find_None_iff dest: find_SomeD)
qed

lemma source_ids_iff: "i \<in> set (source_ids rows) \<longleftrightarrow> select_stream rows (''execution'', i) \<noteq> []"
  by (auto simp: source_ids_def execution_rows_def select_stream_def stream_of_def filter_empty_conv)

definition runs_ok :: "(nat \<times> run) list \<Rightarrow> bool" where
  "runs_ok runs \<longleftrightarrow> distinct (map run_key runs) \<and> (\<forall>u \<in> set runs. ru_operation (snd u) \<noteq> None)"

lemma mismatch_iff:
  assumes "ledger_ok l" "operations_known l" "runs_ok runs" "i \<in> set (source_ids (led_rows l))"
  shows "mismatch (led_rows l) runs g i \<longleftrightarrow>
    view (led_rows l) (''execution'', i) = None \<or> select_run runs g (''execution'', i) \<noteq> view (led_rows l) (''execution'', i)"
proof -
  let ?st = "select_stream (led_rows l) (''execution'', i)"
  define r where "r = last ?st"
  have ok: "rows_ok (led_rows l)" using assms(1) by (simp add: ledger_ok_def)
  have ne: "?st \<noteq> []" using assms(4) by (simp add: source_ids_iff)
  note latest = stream_latest[OF ok ne, folded r_def]
  have r: "r \<in> set ?st" using ne by (simp add: r_def)
  then have "stream_of r = (''execution'', i)" "r \<in> set (led_rows l)" by (auto simp: select_stream_def)
  then have s: "r_aggregate_type r = ''execution''" "r_aggregate_id r = i" "r_operation_id r \<noteq> None"
    using assms(2) by (auto simp: stream_of_def operations_known_def)
  have v: "view (led_rows l) (''execution'', i) = map_option (\<lambda>st. run_of st r) (map_of STATUS_BY_EVENT (r_event_type r))"
    using ne by (cases ?st rule: rev_cases) (auto simp: view_def r_def)
  have eq: "u = run_of st r \<longleftrightarrow> ru_version u = r_sequence r \<and> ru_last_position u = r_position r \<and>
      ru_operation u = r_operation_id r \<and> ru_status u = st \<and> ru_last_type u = r_event_type r \<and> ru_last_at u = r_occurred_at r"
    if "select_run runs g (''execution'', i) = Some u" for u st
    using select_run_key[OF that] s by (cases u) (auto simp: run_of_def run_stream_def)
  have op: "ru_operation u \<noteq> None" if "select_run runs g (''execution'', i) = Some u" for u
    using select_run_key[OF that] assms(3) by (auto simp: runs_ok_def)
  show ?thesis
  proof (cases "select_run runs g (''execution'', i)")
    case None
    then show ?thesis using latest v by (auto simp: mismatch_def)
  next
    case (Some u)
    then show ?thesis
      using latest v s(3) op[OF Some] eq[OF Some]
      by (cases "map_of STATUS_BY_EVENT (r_event_type r)") (auto simp: mismatch_def sql_ne_def)
  qed
qed

definition projected_ids :: "(nat \<times> run) list \<Rightarrow> nat \<Rightarrow> string set" where
  "projected_ids runs g = {i. select_run runs g (''execution'', i) \<noteq> None}"

lemma card_projected:
  assumes "distinct (map run_key runs)"
  shows "length (filter (\<lambda>u. fst u = g \<and> ru_type (snd u) = ''execution'') runs) = card (projected_ids runs g)"
    "finite (projected_ids runs g)"
proof -
  let ?f = "filter (\<lambda>u. fst u = g \<and> ru_type (snd u) = ''execution'') runs"
  have e: "projected_ids runs g = (\<lambda>u. ru_id (snd u)) ` set ?f"
    by (force simp: projected_ids_def select_run_None run_key_def run_stream_def image_iff)
  have "distinct (map run_key ?f)" using assms by (simp add: distinct_map_filter)
  moreover have "map run_key ?f = map (\<lambda>i. (g, (''execution'', i))) (map (\<lambda>u. ru_id (snd u)) ?f)"
    by (auto simp: run_key_def run_stream_def)
  ultimately have "distinct (map (\<lambda>i. (g, (''execution'', i))) (map (\<lambda>u. ru_id (snd u)) ?f))" by simp
  then have "distinct (map (\<lambda>u. ru_id (snd u)) ?f)" by (rule distinct_map[THEN iffD1, THEN conjunct1])
  then show "length ?f = card (projected_ids runs g)" unfolding e
    using distinct_card[of "map (\<lambda>u. ru_id (snd u)) ?f"] by simp
  show "finite (projected_ids runs g)" unfolding e by simp
qed

text \<open>The comparison passes exactly when the runs of the generation are the view of the ledger.\<close>

lemma integrity_iff:
  assumes "ledger_ok l" "operations_known l" "runs_ok (pj_runs p)"
  defines "view_of \<equiv> \<lambda>i. view (led_rows l) (''execution'', i)"
  shows "ir_source (integrity l p g) = ir_projected (integrity l p g) \<and> ir_mismatch (integrity l p g) = 0 \<longleftrightarrow>
    (\<forall>i. select_run (pj_runs p) g (''execution'', i) = view_of i) \<and> (\<forall>i \<in> set (source_ids (led_rows l)). view_of i \<noteq> None)"
    (is "?passes \<longleftrightarrow> ?right")
proof -
  let ?src = "set (source_ids (led_rows l))" and ?prj = "projected_ids (pj_runs p) g"
  have none: "view_of i = None" if "i \<notin> ?src" for i
    using that by (simp add: source_ids_iff view_of_def view_def)
  have d: "distinct (map run_key (pj_runs p))" using assms(3) by (simp add: runs_ok_def)
  have count: "ir_source (integrity l p g) = card ?src" "ir_projected (integrity l p g) = card ?prj"
    using card_projected[OF d] by (simp_all add: integrity_def source_ids_def length_uniq)
  have mis: "ir_mismatch (integrity l p g) = 0 \<longleftrightarrow>
      (\<forall>i \<in> ?src. view_of i \<noteq> None \<and> select_run (pj_runs p) g (''execution'', i) = view_of i)"
    using mismatch_iff[OF assms(1-3)] by (auto simp: integrity_def filter_empty_conv view_of_def)
  show ?thesis
  proof
    assume p: ?passes
    then have all: "\<forall>i \<in> ?src. view_of i \<noteq> None \<and> select_run (pj_runs p) g (''execution'', i) = view_of i"
      and c: "card ?prj = card ?src" using mis count by auto
    then have "?src \<subseteq> ?prj" by (force simp: projected_ids_def)
    then have "?src = ?prj" using c card_projected(2)[OF d] by (metis card_subset_eq)
    then have "select_run (pj_runs p) g (''execution'', i) = None" if "i \<notin> ?src" for i
      using that by (auto simp: projected_ids_def)
    then show ?right using all none by metis
  next
    assume r: ?right
    then have "i \<in> ?prj \<longleftrightarrow> i \<in> ?src" for i using none[of i] by (cases "i \<in> ?src") (auto simp: projected_ids_def)
    then have "?prj = ?src" by blast
    then show ?passes using r mis count by auto
  qed
qed

subsection \<open>Activation\<close>

lemma get_checkpoint_Some:
  assumes "tables_ok rows p" "get_checkpoint p g = Some c"
  shows "c \<in> set (pj_checkpoints p)" "cp_generation c = g" "cp_position c \<le> length rows"
    "projects (pj_runs p) g (take (cp_position c) rows)"
  using assms by (auto simp: get_checkpoint_def tables_ok_def dest!: find_SomeD)

lemma checkpoint_of_generation:
  assumes "tables_ok rows p" "g \<in> ge_number ` set (pj_generations p)"
  obtains c where "get_checkpoint p g = Some c"
proof -
  have "g \<in> cp_generation ` set (pj_checkpoints p)"
    using assms by (metis list.set_map tables_ok_def)
  then show thesis using that by (cases "get_checkpoint p g") (auto simp: get_checkpoint_def find_None_iff)
qed

lemma tables_runs_ok:
  assumes "tables_ok (led_rows l) p" "operations_known l"
  shows "runs_ok (pj_runs p)"
proof -
  have "ru_operation u \<noteq> None" if u: "(g, u) \<in> set (pj_runs p)" for g u
  proof -
    have d: "distinct (map run_key (pj_runs p))" and g: "g \<in> ge_number ` set (pj_generations p)"
      using assms(1) u unfolding tables_ok_def by force+
    have "map_of (map (\<lambda>u. (run_key u, snd u)) (pj_runs p)) (g, run_stream u) = Some u"
      using d u by (intro map_of_is_SomeI) (force simp: comp_def)+
    then have sel: "select_run (pj_runs p) g (run_stream u) = Some u" by (simp add: select_run_map)
    obtain c where c: "get_checkpoint p g = Some c" using checkpoint_of_generation[OF assms(1) g] .
    have "view (take (cp_position c) (led_rows l)) (run_stream u) = Some u"
      using get_checkpoint_Some(4)[OF assms(1) c] sel unfolding projects_def by metis
    then obtain r status where r: "last (select_stream (take (cp_position c) (led_rows l)) (run_stream u)) = r"
      "select_stream (take (cp_position c) (led_rows l)) (run_stream u) \<noteq> []" "u = run_of status r" by (rule view_last)
    then have "r \<in> set (led_rows l)" "stream_of r = run_stream u"
      using last_in_set by (force simp: select_stream_def dest: in_set_takeD)+
    moreover have "fst (run_stream u) = ''execution''"
      using \<open>view _ _ = Some u\<close> by (auto simp: view_def split: if_splits)
    ultimately show ?thesis using assms(2) r(3) by (auto simp: operations_known_def run_of_def stream_of_def run_stream_def)
  qed
  then show ?thesis using assms(1) by (auto simp: runs_ok_def tables_ok_def)
qed

lemma high_water_length: "ledger_ok l \<Longrightarrow> high_water l = length (led_rows l)"
  unfolding high_water_def by (intro foldr_max_upt) (simp add: ledger_ok_def rows_ok_def)

lemma integrity_current:
  assumes "ledger_ok l" "operations_known l" "tables_ok (led_rows l) p" "get_checkpoint p g = Some c"
    "cp_position c = length (led_rows l)"
  shows "ir_source (integrity l p g) = ir_projected (integrity l p g)" "ir_mismatch (integrity l p g) = 0"
proof -
  have pr: "projects (pj_runs p) g (led_rows l)" using get_checkpoint_Some(4)[OF assms(3,4)] assms(5) by simp
  have "view (led_rows l) (''execution'', i) \<noteq> None" if i: "i \<in> set (source_ids (led_rows l))" for i
  proof -
    let ?st = "select_stream (led_rows l) (''execution'', i)"
    have "last ?st \<in> set ?st" using i by (simp add: source_ids_iff)
    then have "last ?st \<in> set (led_rows l)" "stream_of (last ?st) = (''execution'', i)" by (auto simp: select_stream_def)
    then have "map_of STATUS_BY_EVENT (r_event_type (last ?st)) \<noteq> None"
      using pr by (auto simp: projects_def list_all_iff supported_def stream_of_def)
    then show ?thesis using i by (cases ?st rule: rev_cases) (auto simp: view_def source_ids_iff)
  qed
  then show "ir_source (integrity l p g) = ir_projected (integrity l p g)" "ir_mismatch (integrity l p g) = 0"
    using integrity_iff[OF assms(1,2) tables_runs_ok[OF assms(3,2)], of g] pr by (simp_all add: projects_def)
qed

lemma promote_active:
  assumes "\<forall>x \<in> set (pj_generations p). ge_status x \<noteq> ''active''" "promote g mark p = (p', 1)"
  shows "one_active p'" "map ge_number (pj_generations p') = map ge_number (pj_generations p)"
    "pj_checkpoints p' = pj_checkpoints p" "pj_runs p' = pj_runs p"
    "\<exists>a. get_active p' = Some a \<and> ge_number a = g \<and> (\<exists>x \<in> set (pj_generations p). ge_number x = g \<and> ge_schema x = ge_schema a)"
proof -
  let ?hit = "\<lambda>x. ge_number x = g \<and> ge_status x = ''building''"
  let ?f = "\<lambda>x. if ?hit x then x\<lparr>ge_status := ''active'', ge_high_water := mark\<rparr> else x"
  have p': "p' = p\<lparr>pj_generations := map ?f (pj_generations p)\<rparr>" and one: "length (filter ?hit (pj_generations p)) = 1"
    using assms(2) by (auto simp: promote_def Let_def)
  have "length (filter (\<lambda>x. ge_status x = ''active'') (map ?f gs)) = length (filter ?hit gs)"
    if "\<forall>x \<in> set gs. ge_status x \<noteq> ''active''" for gs
    using that by (induction gs) auto
  from this[OF assms(1)] show "one_active p'" using one by (simp add: one_active_def p')
  show "map ge_number (pj_generations p') = map ge_number (pj_generations p)"
    "pj_checkpoints p' = pj_checkpoints p" "pj_runs p' = pj_runs p" by (auto simp: p')
  have "filter ?hit (pj_generations p) \<noteq> []" using one by auto
  then obtain x where "x \<in> set (pj_generations p)" "?hit x" by (auto simp: filter_empty_conv)
  then have "?f x \<in> set (pj_generations p')" "ge_status (?f x) = ''active''" by (auto simp: p')
  then obtain a where a: "get_active p' = Some a"
    by (cases "get_active p'") (auto simp: get_active_def find_None_iff)
  then have "a \<in> set (pj_generations p')" "ge_status a = ''active''" by (auto simp: get_active_def dest: find_SomeD)
  then have "ge_number a = g \<and> (\<exists>x \<in> set (pj_generations p). ge_number x = g \<and> ge_schema x = ge_schema a)"
    using assms(1) by (force simp: p' split: if_splits)
  then show "\<exists>a. get_active p' = Some a \<and> ge_number a = g \<and> (\<exists>x \<in> set (pj_generations p). ge_number x = g \<and> ge_schema x = ge_schema a)"
    using a by blast
qed

lemma activate_cases:
  assumes "activate l p g = (p', r)"
  obtains (same) "p' = p" "\<And>mark. r \<noteq> Inr (True, mark)" | (promoted) c x where "r = Inr (True, high_water l)"
    "get_checkpoint p g = Some c" "cp_position c = high_water l" "get_generation p g = Some x" "ge_status x = ''building''" "ge_schema x = PROJECTION_SCHEMA_VERSION"
    "promote g (high_water l) (set_status (\<lambda>x. ge_status x = ''active'' \<and> ge_number x \<noteq> g) ''retired'' p) = (p', 1)"
  using assms
  by (fastforce simp: activate_def activate_body_def Let_def split: option.splits if_splits prod.splits sum.splits)

lemma activate_ok:
  assumes "tables_ok rows p" "one_active p" "activate l p g = (p', r)"
  shows "tables_ok rows p'" "one_active p'"
    "\<And>mark. r = Inr (True, mark) \<Longrightarrow> (\<exists>a. get_active p' = Some a \<and> ge_number a = g \<and> ge_schema a = PROJECTION_SCHEMA_VERSION) \<and> pj_runs p' = pj_runs p \<and>
       pj_checkpoints p' = pj_checkpoints p"
proof -
  have "tables_ok rows p' \<and> one_active p' \<and> (\<forall>mark. r = Inr (True, mark) \<longrightarrow>
     (\<exists>a. get_active p' = Some a \<and> ge_number a = g \<and> ge_schema a = PROJECTION_SCHEMA_VERSION) \<and> pj_runs p' = pj_runs p \<and> pj_checkpoints p' = pj_checkpoints p)"
    using assms(3)
  proof (cases rule: activate_cases)
    case same
    then show ?thesis using assms by auto
  next
    case (promoted c x)
    let ?q = "set_status (\<lambda>x. ge_status x = ''active'' \<and> ge_number x \<noteq> g) ''retired'' p"
    have x: "x \<in> set (pj_generations p)" "ge_number x = g"
      using promoted(4) by (auto simp: get_generation_def dest: find_SomeD)
    have d: "distinct (map ge_number (pj_generations p))" using assms(1) by (simp add: tables_ok_def)
    have "\<forall>y \<in> set (pj_generations ?q). ge_status y \<noteq> ''active''"
    proof
      fix y assume "y \<in> set (pj_generations ?q)"
      then obtain z where z: "z \<in> set (pj_generations p)"
        "y = (if ge_status z = ''active'' \<and> ge_number z \<noteq> g then z\<lparr>ge_status := ''retired''\<rparr> else z)"
        by (auto simp: set_status_def)
      have "z = x" if "ge_number z = g" using that z(1) x d by (metis distinct_map inj_onD)
      then show "ge_status y \<noteq> ''active''" using z(2) promoted(5) by (cases "ge_number z = g") auto
    qed
    note pr = promote_active[OF this promoted(7)]
    have "ge_number ` set (pj_generations p') = ge_number ` set (pj_generations p)"
      using arg_cong[OF pr(2), of set] by simp
    moreover have "ge_schema y = PROJECTION_SCHEMA_VERSION" if y: "y \<in> set (pj_generations ?q)" "ge_number y = g" for y
    proof -
      obtain z where z: "z \<in> set (pj_generations p)" "ge_number z = g" "ge_schema z = ge_schema y"
        using y by (auto simp: set_status_def)
      then show ?thesis using x d promoted(6) by (metis distinct_map inj_onD)
    qed
    ultimately show ?thesis using assms(1) pr by (auto simp: tables_ok_def)
  qed
  then show "tables_ok rows p'" "one_active p'"
    "\<And>mark. r = Inr (True, mark) \<Longrightarrow> (\<exists>a. get_active p' = Some a \<and> ge_number a = g \<and> ge_schema a = PROJECTION_SCHEMA_VERSION) \<and> pj_runs p' = pj_runs p \<and>
       pj_checkpoints p' = pj_checkpoints p" by blast+
qed

subsection \<open>Guarantees under interleaving\<close>

lemma proj_step_ok: "proj_step reg db db' \<Longrightarrow> proj_ok db \<Longrightarrow> proj_ok db'"
proof (induction rule: proj_step.induct)
  case (step_append l rq l' res p)
  then show ?case using append_keeps by blast
next
  case (step_append_batch l rqs l' ress p)
  then show ?case using append_batch_keeps by blast
next
  case (step_create l p p' g)
  then show ?case using createGeneration_ok(1,2)[of "led_rows l", OF _ _ step_create.hyps] by (simp add: proj_ok_def)
next
  case (step_batch l0 l later c limit events pc p g p' r)
  have ok: "rows_ok (led_rows l)" using step_batch.prems by (simp add: proj_ok_def ledger_ok_def)
  have e: "events = take (nat limit) (drop c (led_rows l0))" using readGlobal_slice(1) step_batch.hyps by blast
  have "events = take (length events) (drop c (led_rows l))"
    unfolding e step_batch.hyps(2) by (auto simp: min_def)
  then have "tables_ok (led_rows l) p'" "pj_generations p' = pj_generations p"
    using applyBatch_ok step_batch ok by (auto simp: proj_ok_def)
  then show ?case using step_batch.prems by (auto simp: proj_ok_def one_active_def)
next
  case (step_error l p message g)
  then show ?case using record_error_ok by (auto simp: proj_ok_def)
next
  case (step_failed l p g)
  then show ?case using set_status_ok set_status_active by (auto simp: proj_ok_def mark_generation_failed_def)
next
  case (step_activate l p g p' a)
  then show ?case using activate_ok(1,2)[of "led_rows l", OF _ _ step_activate.hyps] by (simp add: proj_ok_def)
qed

lemma proj_steps_ok: "proj_steps reg db db' \<Longrightarrow> proj_ok db \<Longrightarrow> proj_ok db'"
  by (induction rule: proj_steps.induct) (auto intro: proj_step_ok)

lemma proj_new_ok: "proj_ok (new_ledger catalog, new_projections)"
  by (simp add: proj_ok_def operations_known_def tables_ok_def one_active_def new_projections_def new_ledger_def
      ledger_ok_def rows_ok_def)

text \<open>
  C4. Whatever the interleaving of appends, new generations, batches read at any earlier moment, failures
  and activations: the runs of every generation are at every moment exactly the summaries of the last events
  of the execution streams among the ledger's rows up to the checkpoint of the generation, and at most one
  generation is active.
\<close>

theorem projection_sound:
  assumes "proj_steps reg (new_ledger catalog, new_projections) (l, p)" "c \<in> set (pj_checkpoints p)"
  shows "select_run (pj_runs p) (cp_generation c) s = view (take (cp_position c) (led_rows l)) s \<and>
    cp_position c \<le> length (led_rows l) \<and>
    length (filter (\<lambda>x. ge_status x = ''active'') (pj_generations p)) \<le> 1"
  using proj_steps_ok[OF assms(1) proj_new_ok] assms(2)
  unfolding proj_ok_def tables_ok_def projects_def one_active_def fst_conv snd_conv by blast

subsection \<open>Health\<close>

lemma get_active_generation: "get_active p = Some a \<Longrightarrow> ge_number a \<in> ge_number ` set (pj_generations p)"
  by (auto simp: get_active_def dest!: find_SomeD)

lemma healthy_iff:
  assumes ok: "proj_ok (l, p)" and h: "health l p = Inr h"
  shows "hr_healthy h \<longleftrightarrow> (\<exists>a c. get_active p = Some a \<and> ge_schema a = PROJECTION_SCHEMA_VERSION \<and>
     get_checkpoint p (ge_number a) = Some c \<and> cp_error c = None \<and> cp_position c = length (led_rows l))"
proof (cases "get_active p")
  case None
  then show ?thesis using h by (auto simp: health_def Let_def)
next
  case (Some a)
  have l: "ledger_ok l" "operations_known l" and t: "tables_ok (led_rows l) p" using ok by (simp_all add: proj_ok_def)
  obtain c where c: "get_checkpoint p (ge_number a) = Some c"
    using checkpoint_of_generation[OF t get_active_generation[OF Some]] .
  note hl = high_water_length[OF l(1)]
  have "coverage_full (integrity l p (ge_number a)) \<and> ir_mismatch (integrity l p (ge_number a)) = 0"
    if "cp_position c = length (led_rows l)"
    using integrity_current[OF l t c that] by (simp add: coverage_full_def)
  then show ?thesis using Some c h hl by (auto simp: health_def Let_def)
qed

text \<open>
  C25. The health report is exact: the projection is reported healthy precisely when there is an active
  generation of the current schema with no recorded error whose checkpoint is the last row of the ledger, and
  then its runs are the summaries of the last events of all execution streams of the ledger.
\<close>

theorem healthy_projection_current:
  assumes "proj_steps reg (new_ledger catalog, new_projections) (l, p)" "health l p = Inr h"
  shows "hr_healthy h \<longleftrightarrow> (\<exists>a c. get_active p = Some a \<and> ge_schema a = PROJECTION_SCHEMA_VERSION \<and>
     get_checkpoint p (ge_number a) = Some c \<and> cp_error c = None \<and> cp_position c = length (led_rows l) \<and>
     (\<forall>s. select_run (pj_runs p) (ge_number a) s = view (led_rows l) s))"
proof -
  have ok: "proj_ok (l, p)" using proj_steps_ok[OF assms(1) proj_new_ok] .
  have "projects (pj_runs p) g (led_rows l)" if "get_checkpoint p g = Some c" "cp_position c = length (led_rows l)" for g c
    using get_checkpoint_Some(4)[OF _ that(1), of "led_rows l"] ok that(2) by (simp add: proj_ok_def)
  then have "\<forall>s. select_run (pj_runs p) g s = view (led_rows l) s"
    if "get_checkpoint p g = Some c" "cp_position c = length (led_rows l)" for g c
    using that by (simp add: projects_def)
  then show ?thesis unfolding healthy_iff[OF ok assms(2)] by blast
qed

end
