(* ===== verification/ProjectionLoops.thy ===== *)
theory ProjectionLoops
  imports ProjectionSound
begin

text \<open>
  The loops of the projection store: a reconciliation ends once other processes stop writing and covers every
  row present at its start, and an undisturbed rebuild succeeds in its first round. The instance at the end
  rebuilds the projection of a ledger with one recorded event.
\<close>

subsection \<open>The loop ends\<close>

lemma read_batch_Inr:
  assumes "proj_ok db" "read_batch db g batch_size = Inr (expected, events)"
  obtains c where "get_checkpoint (snd db) g = Some c" "cp_position c = expected" "1 \<le> batch_size"
    "events = take (nat batch_size) (drop expected (led_rows (fst db)))" "expected \<le> length (led_rows (fst db))"
proof -
  have l: "ledger_ok (fst db)" and t: "tables_ok (led_rows (fst db)) (snd db)" using assms(1) by (simp_all add: proj_ok_def)
  obtain c where c: "get_checkpoint (snd db) g = Some c" "cp_position c = expected"
      and r: "readGlobal (fst db) (int expected) batch_size JUndef = Inr events"
    using assms(2) by (auto simp: read_batch_def split: option.splits)
  then show thesis using that readGlobal_slice[OF l r] get_checkpoint_Some(3)[OF t c(1)] by blast
qed

lemma update_checkpoint_hit:
  assumes "distinct (map cp_generation cps)" "find (\<lambda>c. cp_generation c = g) cps = Some c"
  shows "snd (update_checkpoint cps position g (cp_position c)) = 1"
    "find (\<lambda>c. cp_generation c = g) (fst (update_checkpoint cps position g (cp_position c))) =
       Some (c\<lparr>cp_position := position, cp_error := None\<rparr>)"
proof -
  have f: "filter (\<lambda>x. cp_generation x = g \<and> cp_position x = cp_position c) cps = [c]"
    using assms
  proof (induction cps)
    case (Cons x cps)
    have "filter (\<lambda>x. cp_generation x = g \<and> cp_position x = cp_position c) cps = []" if "cp_generation x = g"
      using Cons.prems(1) that unfolding filter_empty_conv by (metis distinct.simps(2) image_eqI list.set_map list.simps(9))
    then show ?case using Cons by (auto split: if_splits)
  qed simp
  then show "snd (update_checkpoint cps position g (cp_position c)) = 1" by (simp add: update_checkpoint_def Let_def)
  let ?f = "\<lambda>x. if cp_generation x = g \<and> cp_position x = cp_position c then x\<lparr>cp_position := position, cp_error := None\<rparr> else x"
  have "find (\<lambda>c. cp_generation c = g) (map ?f cps) = map_option ?f (find (\<lambda>c. cp_generation c = g) cps)"
    by (intro find_map_same) auto
  then show "find (\<lambda>c. cp_generation c = g) (fst (update_checkpoint cps position g (cp_position c))) =
       Some (c\<lparr>cp_position := position, cp_error := None\<rparr>)"
    using assms(2) find_SomeD[OF assms(2)] by (simp add: update_checkpoint_def Let_def)
qed

text \<open>The code of a checkpoint conflict is raised by the store only.\<close>

definition no_conflict :: "projector \<Rightarrow> bool" where
  "no_conflict pc \<longleftrightarrow> (\<forall>point r e. pc_fault pc point r = Some e \<longrightarrow> err_code e \<noteq> ''EXECUTION_PROJECTION_CHECKPOINT_CONFLICT'') \<and>
     (\<forall>r e. projected_event pc r = Inl e \<longrightarrow> err_code e \<noteq> ''EXECUTION_PROJECTION_CHECKPOINT_CONFLICT'')"

lemma project_event_Inl:
  assumes "no_conflict pc" "project_event pc g runs r = Inl e"
  shows "err_code e \<noteq> ''EXECUTION_PROJECTION_CHECKPOINT_CONFLICT''"
  using assms
  by (auto simp: project_event_def no_conflict_def bind_res_def inject_def applyExecutionRun_def upsert_run_def
      unsupported_event_def not_null_def type_error_def split: sum.splits option.splits if_splits)

lemma project_events_Inl:
  assumes "no_conflict pc" "project_events pc g runs events = Inl e"
  shows "err_code e \<noteq> ''EXECUTION_PROJECTION_CHECKPOINT_CONFLICT''"
  using assms(2)
proof (induction events arbitrary: runs)
  case (Cons r events)
  then show ?case using project_event_Inl[OF assms(1)]
    by (cases "project_event pc g runs r") (auto simp: project_events_def bind_res_simps)
qed (simp add: project_events_def)

lemma applyBatch_current:
  assumes "proj_ok (l, p)" "get_checkpoint p g = Some c" "events = take n (drop (cp_position c) (led_rows l))" "events \<noteq> []"
  shows "no_conflict pc \<Longrightarrow> applyBatch pc p g (cp_position c) events = (p', Inl e) \<Longrightarrow>
      err_code e \<noteq> ''EXECUTION_PROJECTION_CHECKPOINT_CONFLICT''"
    "applyBatch pc p g (cp_position c) events = (p', Inr position) \<Longrightarrow>
       \<exists>c'. get_checkpoint p' g = Some c' \<and> cp_position c' = cp_position c + length events \<and> cp_error c' = None"
proof -
  have d: "distinct (map cp_generation (pj_checkpoints p))" using assms(1) by (auto simp: proj_ok_def tables_ok_def)
  note u = update_checkpoint_hit[OF d assms(2)[unfolded get_checkpoint_def]]
  show "err_code e \<noteq> ''EXECUTION_PROJECTION_CHECKPOINT_CONFLICT''"
    if "no_conflict pc" "applyBatch pc p g (cp_position c) events = (p', Inl e)"
    using that u(1)[of "r_position (last events)"] assms(4) project_events_Inl[OF that(1)]
    by (auto simp: applyBatch_def apply_batch_body_def bind_res_def inject_def no_conflict_def
        split: sum.splits prod.splits if_splits option.splits)
  have "r_position (last events) = cp_position c + length events"
    using last_position(1)[OF _ assms(3,4)] assms(1) by (simp add: proj_ok_def ledger_ok_def)
  then show "\<exists>c'. get_checkpoint p' g = Some c' \<and> cp_position c' = cp_position c + length events \<and> cp_error c' = None"
    if "applyBatch pc p g (cp_position c) events = (p', Inr position)"
    using that u(2)[of "r_position (last events)"] by (elim applyBatch_Inr) (simp add: get_checkpoint_def)
qed

lemma applyBatch_step:
  assumes "proj_ok (l, p)" "get_checkpoint p g = Some c" "events = take n (drop (cp_position c) (led_rows l))"
    "applyBatch pc p g (cp_position c) events = (p', r)"
  shows "proj_ok (l, p')"
  using applyBatch_ok[OF _ _ assms(3,4)] assms(1) by (simp add: proj_ok_def ledger_ok_def one_active_def)

lemma quiet_loop_ends:
  assumes "no_conflict pc" "\<And>k db. n \<le> k \<Longrightarrow> others k db = db" "proj_ok db"
  shows "\<exists>r. reconcile_loop pc others g batch_size n db m processed = Some r"
  using assms(2,3)
proof (induction "length (led_rows (fst db)) - (case get_checkpoint (snd db) g of None \<Rightarrow> 0 | Some c \<Rightarrow> cp_position c)"
    arbitrary: n db m processed rule: less_induct)
  case less
  note unfold = reconcile_loop.simps[of pc others g batch_size n db m processed]
  show ?case
  proof (cases "read_batch db g batch_size")
    case (Inl e)
    then show ?thesis by (simp add: unfold)
  next
    case (Inr r)
    obtain expected events where r: "r = (expected, events)" by fastforce
    obtain l p where db: "db = (l, p)" by fastforce
    obtain c where c: "get_checkpoint p g = Some c" "cp_position c = expected" "1 \<le> batch_size"
      "events = take (nat batch_size) (drop expected (led_rows l))" "expected \<le> length (led_rows l)"
      using read_batch_Inr[OF less.prems(2) Inr[unfolded r]] by (auto simp: db)
    have q: "others n db = (l, p)" using less.prems(1) by (simp add: db)
    show ?thesis
    proof (cases "events = []")
      case True
      then show ?thesis by (simp add: unfold Inr r q)
    next
      case False
      obtain p' res where b: "applyBatch pc p g expected events = (p', res)" by fastforce
      have ok: "proj_ok (l, p')"
        using applyBatch_step[of l p g c events] less.prems(2) c b by (auto simp: db)
      show ?thesis
      proof (cases res)
        case (Inl e)
        then have "err_code e \<noteq> ''EXECUTION_PROJECTION_CHECKPOINT_CONFLICT''"
          using applyBatch_current(1)[of l p g c events] less.prems(2) c b False assms(1) by (auto simp: db)
        then show ?thesis using b Inl False by (simp add: unfold Inr r q)
      next
        case (Inr position)
        have "events = take (nat batch_size) (drop (cp_position c) (led_rows l))" using c by simp
        from applyBatch_current(2)[OF less.prems(2)[unfolded db] c(1) this False]
        obtain c' where c': "get_checkpoint p' g = Some c'" "cp_position c' = expected + length events"
          using b Inr c(2) by blast
        have "length events \<le> length (led_rows l) - expected" "0 < length events" using c(4) False by auto
        then have "\<exists>r. reconcile_loop pc others g batch_size (Suc n) (l, p') (count_processed (length events) m)
            (processed + length events) = Some r"
          using less.prems(1) ok c c' by (intro less.hyps) (auto simp: db)
        then show ?thesis using b Inr False \<open>read_batch db g batch_size = _\<close> by (auto simp: unfold r q Let_def)
      qed
    qed
  qed
qed

lemma proj_step_grows:
  assumes "proj_step reg db db'" "proj_ok db"
  shows "\<exists>later. led_rows (fst db') = led_rows (fst db) @ later"
  using assms
proof (induction rule: proj_step.induct)
  case (step_append l rq l' res p)
  then show ?case using ledger_append_ok[of l reg rq l' res] by (auto simp: proj_ok_def)
next
  case (step_append_batch l rqs l' ress p)
  then show ?case using appendBatch_ok[of l reg rqs l' ress] by (auto simp: proj_ok_def)
qed simp_all

lemma proj_steps_grow:
  "proj_steps reg db db' \<Longrightarrow> proj_ok db \<Longrightarrow> \<exists>later. led_rows (fst db') = led_rows (fst db) @ later"
proof (induction rule: proj_steps.induct)
  case (steps_next db db' db'')
  then show ?case using proj_step_grows[OF steps_next.hyps(2)] proj_steps_ok by fastforce
qed simp

lemma loop_ends:
  assumes pc: "no_conflict pc" and q: "\<And>k db. n + d \<le> k \<Longrightarrow> others k db = db"
    and s: "\<And>k db. proj_steps reg db (others k db)" and ok: "proj_ok db"
  shows "\<exists>r. reconcile_loop pc others g batch_size n db m processed = Some r"
  using q ok
proof (induction d arbitrary: n db m processed)
  case 0
  then show ?case using quiet_loop_ends[OF pc] by simp
next
  case (Suc d)
  note unfold = reconcile_loop.simps[of pc others g batch_size n db m processed]
  have next_ends: "\<exists>r. reconcile_loop pc others g batch_size (Suc n) db' m' processed' = Some r" if "proj_ok db'" for db' m' processed'
    using that Suc.prems(1) by (intro Suc.IH) auto
  obtain l p where o: "others n db = (l, p)" by fastforce
  have okl: "proj_ok (l, p)" using proj_steps_ok[OF s[of db n] Suc.prems(2)] by (simp add: o)
  show ?case
  proof (cases "read_batch db g batch_size")
    case (Inl e)
    then show ?thesis by (simp add: unfold)
  next
    case (Inr r)
    obtain expected events where r: "r = (expected, events)" by fastforce
    obtain p' res where b: "applyBatch pc p g expected events = (p', res)" by fastforce
    have "proj_ok (l, p')" if "events \<noteq> []"
    proof -
      have "readGlobal (fst db) (int expected) batch_size JUndef = Inr events"
        using Inr r by (auto simp: read_batch_def split: option.splits)
      moreover obtain later where "led_rows l = led_rows (fst db) @ later"
        using proj_steps_grow[OF s[of db n] Suc.prems(2)] by (auto simp: o)
      ultimately have "proj_step reg (l, p) (l, p')"
        using Suc.prems(2) b by (intro step_batch[of "fst db"]) (auto simp: proj_ok_def)
      then show ?thesis using proj_step_ok okl by blast
    qed
    then show ?thesis
      using next_ends b Inr by (cases res) (auto simp: unfold r o Let_def)
  qed
qed

subsection \<open>What a reconciliation has seen\<close>

lemma find_checkpoint_map:
  fixes f :: "checkpoint \<Rightarrow> checkpoint"
  assumes "\<And>c. cp_generation (f c) = cp_generation c"
  shows "find (\<lambda>c. cp_generation c = g) (map f cps) = map_option f (find (\<lambda>c. cp_generation c = g) cps)"
  by (rule find_map_same) (simp add: assms)

lemma checkpoint_advances:
  assumes "proj_step reg db db'" "proj_ok db" "get_checkpoint (snd db) g = Some c"
  shows "\<exists>c'. get_checkpoint (snd db') g = Some c' \<and> cp_position c \<le> cp_position c'"
  using assms
proof (induction rule: proj_step.induct)
  case (step_create l p p' h)
  then show ?case by (auto simp: createGeneration_def Let_def get_checkpoint_def find_append)
next
  case (step_batch l0 l later k limit events pc p h p' r)
  show ?case
  proof (cases r)
    case (Inl e)
    then show ?thesis using step_batch applyBatch_Inl[of pc p h k events p' e] by auto
  next
    case (Inr position)
    have ok: "rows_ok (led_rows l0)" using step_batch.hyps(1) by (simp add: ledger_ok_def)
    obtain runs cps where b: "events \<noteq> []"
      "update_checkpoint (pj_checkpoints p) (r_position (last events)) h k = (cps, 1)"
      "p' = p\<lparr>pj_runs := runs, pj_checkpoints := cps\<rparr>"
      using step_batch.hyps(4) Inr by (auto elim: applyBatch_Inr)
    have "k \<le> r_position (last events)"
      using last_position(1)[OF ok readGlobal_slice(1)[OF step_batch.hyps(1,3)] b(1)] by simp
    moreover have "cps = map (\<lambda>c. if cp_generation c = h \<and> cp_position c = k
        then c\<lparr>cp_position := r_position (last events), cp_error := None\<rparr> else c) (pj_checkpoints p)"
      using b(2) by (auto simp: update_checkpoint_def Let_def)
    ultimately show ?thesis using step_batch.prems(2) b(3)
      by (auto simp: get_checkpoint_def find_checkpoint_map)
  qed
next
  case (step_error l p message h)
  then show ?case by (auto simp: get_checkpoint_def record_error_def find_checkpoint_map)
next
  case (step_failed l p h)
  then show ?case by (auto simp: get_checkpoint_def mark_generation_failed_def)
next
  case (step_activate l p h p' a)
  from step_activate.hyps show ?case
  proof (cases rule: activate_cases)
    case (promoted c' x)
    then have "pj_checkpoints p' = pj_checkpoints p" by (auto simp: promote_def Let_def)
    then show ?thesis using step_activate.prems by (auto simp: get_checkpoint_def)
  qed (use step_activate.prems in auto)
qed auto

lemma checkpoint_advances_steps:
  "proj_steps reg db db' \<Longrightarrow> proj_ok db \<Longrightarrow> get_checkpoint (snd db) g = Some c \<Longrightarrow>
     \<exists>c'. get_checkpoint (snd db') g = Some c' \<and> cp_position c \<le> cp_position c'"
proof (induction rule: proj_steps.induct)
  case (steps_next db db' db'')
  then obtain c' where c': "get_checkpoint (snd db') g = Some c'" "cp_position c \<le> cp_position c'" by blast
  have "proj_ok db'" using proj_steps_ok steps_next by blast
  from checkpoint_advances[OF steps_next.hyps(2) this c'(1)] c'(2) show ?case by (meson order_trans)
qed auto

lemma loop_fresh:
  assumes "reconcile_loop pc others g batch_size n db m processed = Some y"
    "\<And>k db. proj_steps reg db (others k db)" "proj_ok db"
  shows "proj_ok (fst y) \<and> (\<forall>x. snd (snd y) = Inr x \<longrightarrow> length (led_rows (fst db)) \<le> rc_checkpoint x)"
  using assms
proof (induction pc others g batch_size n db m processed y rule: reconcile_loop.raw_induct[rotated, consumes 1, case_names loop])
  case (loop loop pc others g batch_size n db m processed y)

  note ih = loop(1) and body = loop(2) and s = loop(3) and ok = loop(4)
  obtain l p where o: "others n db = (l, p)" by fastforce
  have okl: "proj_ok (l, p)" using proj_steps_ok[OF s[of db n] ok] by (simp add: o)
  obtain later where later: "led_rows l = led_rows (fst db) @ later"
    using proj_steps_grow[OF s[of db n] ok] by (auto simp: o)
  show ?case
  proof (cases "read_batch db g batch_size")
    case (Inl e)
    then show ?thesis using body ok by auto
  next
    case (Inr r)
    obtain expected events where r: "r = (expected, events)" by fastforce
    obtain c where c: "get_checkpoint (snd db) g = Some c" "cp_position c = expected"
      "events = take (nat batch_size) (drop expected (led_rows (fst db)))" "expected \<le> length (led_rows (fst db))"
      using read_batch_Inr[OF ok Inr[unfolded r]] by metis
    obtain c1 where c1: "get_checkpoint p g = Some c1" "expected \<le> cp_position c1"
      using checkpoint_advances_steps[OF s[of db n] ok c(1)] c(2) by (auto simp: o)
    show ?thesis
    proof (cases "events = []")
      case True
      have "length (led_rows (fst db)) \<le> expected \<or> batch_size \<le> 0" using c(3) True by auto
      moreover have "1 \<le> batch_size" using read_batch_Inr[OF ok Inr[unfolded r]] by metis
      ultimately show ?thesis using body True okl c1 by (auto simp: Inr r o final_checkpoint_def)
    next
      case False
      obtain p' res where b: "applyBatch pc p g expected events = (p', res)" by fastforce
      have "readGlobal (fst db) (int expected) batch_size JUndef = Inr events"
        using Inr r by (auto simp: read_batch_def split: option.splits)
      then have "proj_step reg (l, p) (l, p')"
        using ok b later by (intro step_batch[of "fst db"]) (auto simp: proj_ok_def)
      then have ok': "proj_ok (l, p')" using proj_step_ok okl by blast
      have rec: "proj_ok (fst y) \<and> (\<forall>x. snd (snd y) = Inr x \<longrightarrow> length (led_rows (fst db)) \<le> rc_checkpoint x)"
        if "loop pc others g batch_size (Suc n) (l, p') m'' k = Some y" for m'' k
        using ih[OF that s ok'] later by auto
      show ?thesis
      proof (cases res)
        case res: (Inl e)
        show ?thesis using body False ok' rec later b by (auto simp: Inr r o res split: if_splits)
      next
        case res: (Inr position)
        obtain runs cps where up: "update_checkpoint (pj_checkpoints p) (r_position (last events)) g expected = (cps, 1)"
          "p' = p\<lparr>pj_runs := runs, pj_checkpoints := cps\<rparr>"
          using b res by (auto elim: applyBatch_Inr)
        have d: "distinct (map cp_generation (pj_checkpoints p))" using okl by (auto simp: proj_ok_def tables_ok_def)
        obtain c2 where c2: "c2 \<in> set (pj_checkpoints p)" "cp_generation c2 = g" "cp_position c2 = expected"
          by (rule update_checkpoint_one[OF up(1) d])
        have "c1 \<in> set (pj_checkpoints p)" "cp_generation c1 = g" using c1(1) by (auto simp: get_checkpoint_def dest: find_SomeD)
        then have "c2 = c1" using c2 d by (intro inj_onD[of cp_generation "set (pj_checkpoints p)"]) (simp_all add: distinct_map)
        then have "cp_position c1 = expected" using c2(3) by simp
        have "events = take (length events) (drop (cp_position c1) (led_rows l))"
          using c(3) later \<open>cp_position c1 = expected\<close> by (auto simp: min_def)
        from applyBatch_current(2)[OF okl c1(1) this False] b res \<open>cp_position c1 = expected\<close>
        obtain c' where c': "get_checkpoint p' g = Some c'" "cp_position c' = expected + length events" by blast
        have "length (led_rows (fst db)) \<le> expected + length events" if "int (length events) < batch_size"
          using that c(3,4) by auto
        then show ?thesis using body False ok' rec later b c'
          by (auto simp: Inr r o res Let_def final_checkpoint_def split: if_splits)
      qed
    qed
  qed
qed

text \<open>
  C26. Reconciliation ends: however other processes change the database while it runs, once they stop
  doing so the loop returns, because a checkpoint conflict needs a concurrent batch and every committed batch
  moves the checkpoint. When it returns without error, its checkpoint covers every row that was in the ledger
  when it was called.
\<close>

theorem reconcile_terminates:
  assumes db: "proj_steps reg (new_ledger catalog, new_projections) db" and pc: "no_conflict pc"
    and s: "\<forall>n db. proj_steps reg db (others n db)" and q: "\<forall>n db. N \<le> n \<longrightarrow> others n db = db"
  shows "\<exists>db' m' r. reconcileGeneration pc others g batch_size db m = Some (db', m', r) \<and>
    (\<forall>x. r = Inr x \<longrightarrow> length (led_rows (fst db)) \<le> rc_checkpoint x)"
proof -
  have ok: "proj_ok db" using proj_steps_ok[OF db proj_new_ok] .
  obtain y where y: "reconcile_loop pc others g batch_size 0 db m 0 = Some y"
    using loop_ends[of pc 0 N others reg db g batch_size m 0] pc s q ok by auto
  obtain db' m' r where [simp]: "y = (db', m', r)" by (cases y) auto
  have "\<forall>x. r = Inr x \<longrightarrow> length (led_rows (fst db)) \<le> rc_checkpoint x"
    using loop_fresh[OF y s[rule_format] ok] by simp
  then show ?thesis
    using y by (auto simp: reconcileGeneration_def split: option.splits sum.splits)
qed

subsection \<open>A rebuild that is not disturbed\<close>

definition projectable :: "projector \<Rightarrow> row \<Rightarrow> bool" where
  "projectable pc r \<longleftrightarrow> supported r \<and> \<not> isl (projected_event pc r) \<and> (\<forall>point. pc_fault pc point r = None)"

lemma project_event_total:
  assumes "projectable pc r" "operation_known r" "projects runs g rows" "follows_view rows r"
  shows "\<exists>runs'. project_event pc g runs r = Inr runs'"
proof -
  obtain r' where "projected_event pc r = Inr r'" using assms(1) by (cases "projected_event pc r") (auto simp: projectable_def)
  then obtain w payload where p: "projected_event pc r = Inr (r\<lparr>r_schema_version := w, r_payload := payload\<rparr>)"
    using projected_event_Inr by blast
  have f: "inject pc point r = Inr ()" for point using assms(1) by (simp add: projectable_def inject_def)
  have sel: "select_run runs g (stream_of r) = view rows (stream_of r)" using assms(3) unfolding projects_def by blast
  show ?thesis
  proof (cases "r_aggregate_type r = ''execution''")
    case True
    then obtain status where st: "map_of STATUS_BY_EVENT (r_event_type r) = Some status"
      using assms(1) by (auto simp: projectable_def supported_def)
    have "applyExecutionRun (view rows (stream_of r)) (r\<lparr>r_schema_version := w, r_payload := payload\<rparr>) = Inr (Some (run_of status r))"
      using assms(4) st True by (auto simp: applyExecutionRun_def follows_view_def split: option.splits)
    moreover have "\<exists>runs'. upsert_run runs g (run_of status r) = Inr runs'"
      using assms(2) True by (auto simp: upsert_run_def operation_known_def run_of_def split: option.splits)
    ultimately show ?thesis using True p f sel by (auto simp: project_event_def bind_res_simps)
  qed (use p f in \<open>simp add: project_event_def bind_res_simps\<close>)
qed

lemma project_events_total:
  assumes "\<forall>r \<in> set events. projectable pc r \<and> operation_known r" "projects runs g rows" "rows_ok (rows @ events @ rest)"
  shows "\<exists>runs'. project_events pc g runs events = Inr runs'"
  using assms
proof (induction events arbitrary: runs rows)
  case (Cons r events)
  have f: "follows_view rows r" using Cons.prems(3) rows_ok_follows[of rows r "events @ rest"] by simp
  obtain runs1 where r: "project_event pc g runs r = Inr runs1"
    using project_event_total[OF _ _ Cons.prems(2) f] Cons.prems(1) by auto
  have "rows_ok ((rows @ [r]) @ events @ rest)" using Cons.prems(3) by simp
  from Cons.IH[OF _ project_event_Inr(1)[OF r Cons.prems(2) f] this] Cons.prems(1) r show ?case
    by (auto simp: project_events_def bind_res_simps)
qed (simp add: project_events_def)

lemma applyBatch_total:
  assumes ok: "proj_ok (l, p)" and c: "get_checkpoint p g = Some c"
    and e: "events = take n (drop (cp_position c) (led_rows l))" "events \<noteq> []"
    and r: "\<forall>r \<in> set (led_rows l). projectable pc r"
  shows "\<exists>p' position. applyBatch pc p g (cp_position c) events = (p', Inr position)"
proof -
  have l: "rows_ok (led_rows l)" and t: "tables_ok (led_rows l) p" using ok by (simp_all add: proj_ok_def ledger_ok_def)
  have sub: "set events \<subseteq> set (led_rows l)" using e(1) by (auto dest: in_set_takeD in_set_dropD)
  have "rows_ok (take (cp_position c) (led_rows l) @ events @ drop (cp_position c + length events) (led_rows l))"
    using l last_position(2)[OF l e] by (metis append.assoc append_take_drop_id)
  moreover have "\<forall>r \<in> set events. projectable pc r \<and> operation_known r"
    using sub r ok by (auto simp: proj_ok_def operations_known_def operation_known_def)
  ultimately obtain runs where "project_events pc g (pj_runs p) events = Inr runs"
    using project_events_total get_checkpoint_Some(4)[OF t c] by blast
  moreover have "inject pc ''before_checkpoint'' (last events) = Inr ()"
    using r sub e(2) by (auto simp: inject_def projectable_def dest!: subsetD[OF _ last_in_set])
  moreover have "distinct (map cp_generation (pj_checkpoints p))" using t by (auto simp: tables_ok_def)
  from update_checkpoint_hit(1)[OF this c[unfolded get_checkpoint_def]]
  obtain cps where "update_checkpoint (pj_checkpoints p) (r_position (last events)) g (cp_position c) = (cps, 1)"
    by (metis prod.collapse)
  ultimately show ?thesis using e(2) by (simp add: applyBatch_def apply_batch_body_def bind_res_simps)
qed

lemma quiet_loop_result:
  assumes r: "\<forall>r \<in> set (led_rows l). projectable pc r" and b: "1 \<le> batch_size" "batch_size \<le> 1000"
    and ok: "proj_ok (l, p)" and c: "get_checkpoint p g = Some c" "cp_error c = None"
  shows "\<exists>p' m' k c'. reconcile_loop pc (\<lambda>_ db. db) g batch_size n (l, p) m processed =
      Some ((l, p'), m', Inr \<lparr>rc_processed = k, rc_checkpoint = length (led_rows l)\<rparr>) \<and> proj_ok (l, p') \<and>
      pj_generations p' = pj_generations p \<and> get_checkpoint p' g = Some c' \<and> cp_error c' = None \<and>
      cp_position c' = length (led_rows l)"
  using ok c
proof (induction "length (led_rows l) - cp_position c" arbitrary: p n m c processed rule: less_induct)
  case less
  note unfold = reconcile_loop.simps[of pc "\<lambda>_ db. db" g batch_size n "(l, p)" m processed]
  define events where "events = take (nat batch_size) (drop (cp_position c) (led_rows l))"
  have l: "ledger_ok l" "rows_ok (led_rows l)" and t: "tables_ok (led_rows l) p"
    using less.prems(1) by (simp_all add: proj_ok_def ledger_ok_def)
  have le: "cp_position c \<le> length (led_rows l)" using get_checkpoint_Some(3)[OF t less.prems(2)] .
  obtain ev where ev: "readGlobal l (int (cp_position c)) batch_size JUndef = Inr ev"
    using b by (auto simp: readGlobal_def cursor_ok_def)
  then have rd: "read_batch (l, p) g batch_size = Inr (cp_position c, events)"
    using readGlobal_slice(1)[OF l(1) ev] less.prems(2) by (simp add: read_batch_def bind_res_simps events_def)
  show ?case
  proof (cases "events = []")
    case True
    then have "cp_position c = length (led_rows l)" using le b by (auto simp: events_def)
    then show ?thesis using True rd less.prems by (auto simp: unfold final_checkpoint_def)
  next
    case False
    obtain p' position where a: "applyBatch pc p g (cp_position c) events = (p', Inr position)"
      using applyBatch_total[OF less.prems(1,2) events_def False r] by blast
    obtain c' where c': "get_checkpoint p' g = Some c'" "cp_position c' = cp_position c + length events" "cp_error c' = None"
      using applyBatch_current(2)[OF less.prems(1,2) events_def False a] by blast
    have ok': "proj_ok (l, p')" using applyBatch_step[OF less.prems(1,2) events_def a] .
    have g: "pj_generations p' = pj_generations p" using a by (auto elim!: applyBatch_Inr)
    show ?thesis
    proof (cases "int (length events) < batch_size")
      case True
      then have "cp_position c' = length (led_rows l)" using c'(2) le by (auto simp: events_def)
      then show ?thesis using True False rd a ok' g c' by (simp add: unfold Let_def final_checkpoint_def)
    next
      case more: False
      have "length (led_rows l) - cp_position c' < length (led_rows l) - cp_position c"
        using c'(2) False le by (auto simp: events_def)
      from less.hyps[OF this ok' c'(1,3)] g more False rd a show ?thesis by (simp add: unfold Let_def)
    qed
  qed
qed

lemma one_building:
  assumes "distinct (map ge_number gs)" "find (\<lambda>x. ge_number x = g) gs = Some x" "ge_status x = ''building''"
  shows "length (filter (\<lambda>x. ge_number x = g \<and> ge_status x = ''building'')
      (map (\<lambda>x. if ge_status x = ''active'' \<and> ge_number x \<noteq> g then x\<lparr>ge_status := ''retired''\<rparr> else x) gs)) = 1"
  using assms
proof (induction gs)
  case (Cons y gs)
  have "\<forall>x \<in> set gs. ge_number x \<noteq> g" if "ge_number y = g"
    using Cons.prems(1) that by (metis distinct.simps(2) image_eqI list.set_map list.simps(9))
  then show ?case using Cons by (auto simp: filter_empty_conv split: if_splits)
qed simp

text \<open>
  C27. A rebuild over a ledger whose rows can all be projected, with no other process writing, succeeds in
  its first round whatever the batch size: the new generation becomes the active one, its runs summarise every
  execution stream of the ledger, and the projection is healthy.
\<close>

theorem rebuild_succeeds:
  assumes db: "proj_steps reg (new_ledger catalog, new_projections) (l, p)"
    and r: "\<forall>r \<in> set (led_rows l). projectable pc r" and b: "1 \<le> batch_size" "batch_size \<le> 1000" and n: "0 < max_rounds"
  shows "\<exists>p' m' g a h. rebuild pc (\<lambda>_ _ db. db) (\<lambda>_ db. db) batch_size max_rounds (l, p) m =
      Some ((l, p'), m', Inr \<lparr>rb_generation = g, rb_high_water = length (led_rows l)\<rparr>) \<and>
      get_active p' = Some a \<and> ge_number a = g \<and> (\<forall>s. select_run (pj_runs p') g s = view (led_rows l) s) \<and>
      health l p' = Inr h \<and> hr_healthy h"
proof -
  have ok: "proj_ok (l, p)" using proj_steps_ok[OF db proj_new_ok] .
  obtain p1 g where g: "createGeneration l p = (p1, g)" by fastforce
  have ok1: "proj_ok (l, p1)" using proj_step_ok[OF step_create[OF g] ok] .
  note new = createGeneration_ok(3,4)[OF _ _ g, of "led_rows l"]
  have t: "tables_ok (led_rows l) p" "one_active p" using ok by (simp_all add: proj_ok_def)
  obtain p2 m2 k c where loop: "reconcile_loop pc (\<lambda>_ db. db) g batch_size 0 (l, p1) m 0 =
      Some ((l, p2), m2, Inr \<lparr>rc_processed = k, rc_checkpoint = length (led_rows l)\<rparr>)"
    and ok2: "proj_ok (l, p2)" and g2: "pj_generations p2 = pj_generations p1"
    and c: "get_checkpoint p2 g = Some c" "cp_error c = None" "cp_position c = length (led_rows l)"
    using quiet_loop_result[OF r b ok1] new(2)[OF t] by (metis checkpoint.select_convs(3))
  have gen: "get_generation p1 g = Some \<lparr>ge_number = g, ge_schema = 1, ge_status = ''building'', ge_high_water = high_water l\<rparr>"
    "get_generation p2 g = get_generation p1 g"
    using new(1)[OF t] by (simp_all add: get_generation_def g2)
  have l: "ledger_ok l" "operations_known l" and t2: "tables_ok (led_rows l) p2" "one_active p2"
    using ok2 by (simp_all add: proj_ok_def)
  note hl = high_water_length[OF l(1)] and i = integrity_current[OF l t2(1) c(1,3)]
  let ?q = "set_status (\<lambda>x. ge_status x = ''active'' \<and> ge_number x \<noteq> g) ''retired'' p2"
  have "length (filter (\<lambda>x. ge_number x = g \<and> ge_status x = ''building'') (pj_generations ?q)) = 1"
    using one_building[of "pj_generations p2" g] t2(1) gen by (simp add: tables_ok_def set_status_def get_generation_def)
  then obtain p3 where p3: "promote g (high_water l) ?q = (p3, 1)" by (simp add: promote_def Let_def)
  have act: "activate l p2 g = (p3, Inr (True, length (led_rows l)))"
    using gen c hl i p3 by (simp add: activate_def activate_body_def Let_def PROJECTION_SCHEMA_VERSION_def)
  note a = activate_ok[OF t2 act]
  obtain x where x: "get_active p3 = Some x" "ge_number x = g" and sch: "ge_schema x = PROJECTION_SCHEMA_VERSION"
    and x2: "pj_runs p3 = pj_runs p2" "pj_checkpoints p3 = pj_checkpoints p2"
    using a(3) by blast
  have ok3: "proj_ok (l, p3)" using a(1,2) l by (simp add: proj_ok_def)
  have cp3: "get_checkpoint p3 g = Some c" using c(1) x2(2) by (simp add: get_checkpoint_def)
  have "projects (pj_runs p3) g (led_rows l)" using get_checkpoint_Some(4)[OF t2(1) c(1)] c(3) x2(1) by simp
  then have v: "\<forall>s. select_run (pj_runs p3) g s = view (led_rows l) s" by (simp add: projects_def)
  obtain h where h: "health l p3 = Inr h" using x cp3 by (simp add: health_def Let_def)
  have "hr_healthy h" using healthy_iff[OF ok3 h] x cp3 c sch by blast
  moreover have "rebuild pc (\<lambda>_ _ db. db) (\<lambda>_ db. db) batch_size max_rounds (l, p) m =
      Some ((l, p3), m2, Inr \<lparr>rb_generation = g, rb_high_water = length (led_rows l)\<rparr>)"
    using n loop gen act g by (cases max_rounds) (simp_all add: rebuild_def reconcileGeneration_def PROJECTION_SCHEMA_VERSION_def)
  ultimately show ?thesis using x v h by blast
qed


subsection \<open>An instance\<close>

definition demo_projector :: projector where
  "demo_projector = \<lparr>pc_collate = id, pc_registry = Some execution_registry, pc_fault = (\<lambda>_ _. None)\<rparr>"

lemma demo_reached: "proj_steps execution_registry (new_ledger demo_catalog, new_projections) (demo_ledger, new_projections)"
proof -
  obtain r where "ledger_append execution_registry (new_ledger demo_catalog) demo_append = (demo_ledger, Inr r)"
    using demo_append_Inr by blast
  from steps_next[OF steps_refl step_append[OF this]] show ?thesis .
qed

lemma demo_projectable: "\<forall>r \<in> set (led_rows demo_ledger). projectable demo_projector r"
proof -
  have "list_all (\<lambda>r. supported r \<and> \<not> isl (projected_event demo_projector r)) (led_rows demo_ledger)" by code_simp
  then show ?thesis by (simp add: projectable_def list_all_iff demo_projector_def)
qed

theorem rebuild_succeeds_witness:
  "\<exists>p' m' g. rebuild demo_projector (\<lambda>_ _ db. db) (\<lambda>_ db. db) 100 1000 (demo_ledger, new_projections)
      \<lparr>pm_processed = 0, pm_failures = 0\<rparr> = Some ((demo_ledger, p'), m', Inr \<lparr>rb_generation = g, rb_high_water = 1\<rparr>)"
  using rebuild_succeeds[OF demo_reached demo_projectable, of 100 1000 "\<lparr>pm_processed = 0, pm_failures = 0\<rparr>"]
  by (fastforce simp: demo_ledger_length)

definition demo_created :: "projections \<times> nat" where
  "demo_created = createGeneration demo_ledger new_projections"

definition demo_built :: "projections \<times> nat res" where
  "demo_built = applyBatch demo_projector (fst demo_created) 1 0 (led_rows demo_ledger)"

definition demo_active :: "projections \<times> (bool \<times> nat) res" where
  "demo_active = activate demo_ledger (fst demo_built) 1"

lemma demo_projected:
  "proj_steps execution_registry (new_ledger demo_catalog, new_projections) (demo_ledger, fst demo_active)"
proof -
  have l: "ledger_ok demo_ledger" using proj_steps_ok[OF demo_reached proj_new_ok] by (simp add: proj_ok_def)
  have "\<not> isl (readGlobal demo_ledger 0 100 JUndef)" by code_simp
  then obtain ev where ev: "readGlobal demo_ledger (int 0) 100 JUndef = Inr ev"
    by (cases "readGlobal demo_ledger 0 100 JUndef") auto
  then have "readGlobal demo_ledger (int 0) 100 JUndef = Inr (led_rows demo_ledger)"
    using readGlobal_slice(1)[OF l ev] demo_ledger_length by simp
  then have b: "proj_step execution_registry (demo_ledger, fst demo_created) (demo_ledger, fst demo_built)"
    by (intro step_batch[OF l, of _ "[]" 0 100 _ demo_projector _ 1 _ "snd demo_built"]) (simp_all add: demo_built_def)
  have c: "proj_step execution_registry (demo_ledger, new_projections) (demo_ledger, fst demo_created)"
    by (intro step_create[of _ _ _ "snd demo_created"]) (simp add: demo_created_def)
  have a: "proj_step execution_registry (demo_ledger, fst demo_built) (demo_ledger, fst demo_active)"
    by (intro step_activate[of _ _ 1 _ "snd demo_active"]) (simp add: demo_active_def)
  show ?thesis by (rule steps_next[OF steps_next[OF steps_next[OF demo_reached c] b] a])
qed

theorem projection_sound_witness:
  "\<exists>c \<in> set (pj_checkpoints (fst demo_active)). cp_position c = 1 \<and>
     (\<exists>u. view (take 1 (led_rows demo_ledger)) (''execution'', ''op-1'') = Some u \<and> ru_status u = ''running'' \<and>
       select_run (pj_runs (fst demo_active)) (cp_generation c) (''execution'', ''op-1'') = Some u)"
proof -
  have "list_ex (\<lambda>c. cp_position c = 1) (pj_checkpoints (fst demo_active))" by code_simp
  then obtain c where c: "c \<in> set (pj_checkpoints (fst demo_active))" "cp_position c = 1" by (auto simp: list_ex_iff)
  have "map_option ru_status (view (take 1 (led_rows demo_ledger)) (''execution'', ''op-1'')) = Some ''running''" by code_simp
  then obtain u where "view (take 1 (led_rows demo_ledger)) (''execution'', ''op-1'') = Some u" "ru_status u = ''running''" by auto
  then show ?thesis
    using projection_sound[OF demo_projected c(1), of "(''execution'', ''op-1'')"] c by auto
qed

theorem healthy_projection_current_witness:
  "\<exists>a. get_active (fst demo_active) = Some a \<and> (\<forall>s. select_run (pj_runs (fst demo_active)) (ge_number a) s = view (led_rows demo_ledger) s)"
proof -
  have "(case health demo_ledger (fst demo_active) of Inl _ \<Rightarrow> False | Inr h \<Rightarrow> hr_healthy h)" by code_simp
  then obtain h where h: "health demo_ledger (fst demo_active) = Inr h" "hr_healthy h" by (auto split: sum.splits)
  from healthy_projection_current[OF demo_projected h(1)] h(2) show ?thesis by auto
qed

lemma demo_projector_conflict: "no_conflict (demo_projector\<lparr>pc_registry := None\<rparr>)"
  by (simp add: no_conflict_def demo_projector_def projected_event_def)

theorem reconcile_terminates_witness:
  "\<exists>db' m' r. reconcileGeneration (demo_projector\<lparr>pc_registry := None\<rparr>)
      (\<lambda>n db. if n = 0 then (fst db, record_error (snd db) ''busy'' 1) else db) 1 100 (demo_ledger, fst demo_active)
      \<lparr>pm_processed = 0, pm_failures = 0\<rparr> = Some (db', m', r)"
proof -
  let ?o = "\<lambda>n db. if n = (0 :: nat) then (fst db, record_error (snd db) ''busy'' 1) else db"
  have "proj_steps execution_registry db (?o n db)" for n and db :: database
    using steps_next[OF steps_refl step_error[of execution_registry "fst db" "snd db"]] by (auto intro: steps_refl)
  then have s: "\<forall>n db. proj_steps execution_registry db (?o n db)" by blast
  have q: "\<forall>n db. 1 \<le> n \<longrightarrow> ?o n db = db" by simp
  show ?thesis
    using reconcile_terminates[OF demo_projected demo_projector_conflict s q, of 1 100 "\<lparr>pm_processed = 0, pm_failures = 0\<rparr>"]
    by blast
qed

end
