(* ===== verification/SessionStore.thy ===== *)
theory SessionStore
  imports Ledger ReplayCorrect Views
begin

text \<open>
  The relational session store of \<open>packages/agent-session-store/session-event-store.js\<close> and the trace
  identities of \<open>packages/agent-trace-lineage/index.js\<close>: session events are enveloped in ledger rows of
  type \<open>AgentSessionEventRecorded\<close>, checked against the durable stream before they are appended, read back
  through the schema, and folded by the reducer, with a cache of folded states per session.

  Parameters: the schemas of session events and session specifications (\<open>se_event\<close>, \<open>se_spec\<close>: the
  value a schema returns, or its error) and SHA-256 in hexadecimal. The identifier schema is modelled. A
  document is handed to the reducer with its keys in canonical order, because the reducer reads documents up
  to the order of their keys. The revision of the database is the counter SQLite changes when another
  connection writes; inside an open transaction the store remembers
  the rows a rollback restores. Object identity (frozen instances, the nominal check of a store) is not modelled.
\<close>

subsection \<open>Trace identities\<close>

definition lineage_error :: "string \<Rightarrow> jserr" where
  "lineage_error label = mk_err ''AGENT_TRACE_LINEAGE_INVALID'' (label @ '' is invalid'')"

definition boundedIdentity :: "js \<Rightarrow> string \<Rightarrow> string res" where
  "boundedIdentity v label =
     (case v of
        JStr s \<Rightarrow>
          if s = [] \<or> 1024 < length s \<or> list_ex (\<lambda>c. (of_char c :: nat) \<le> 32 \<or> (of_char c :: nat) = 127) s
          then Inl (lineage_error label) else Inr s
      | _ \<Rightarrow> Inl (lineage_error label))"

definition lower_hex :: "char \<Rightarrow> bool" where
  "lower_hex c \<longleftrightarrow> digit c \<or> (CHR ''a'' \<le> c \<and> c \<le> CHR ''f'')"

definition trace_digest :: "(string \<Rightarrow> string) \<Rightarrow> string \<Rightarrow> string \<Rightarrow> nat \<Rightarrow> string" where
  "trace_digest sha256 kind value n = take n (sha256 (''hseos-'' @ kind @ CHR 0x00 # value))"

definition canonicalTraceId :: "(string \<Rightarrow> string) \<Rightarrow> js \<Rightarrow> string res" where
  "canonicalTraceId sha256 seed =
     bind_res (boundedIdentity seed ''trace seed'') (\<lambda>value.
     Inr (if length value = 32 \<and> list_all lower_hex value \<and> value \<noteq> replicate 32 (CHR ''0'') then value
          else trace_digest sha256 ''trace'' value 32))"

definition canonicalSpanId :: "(string \<Rightarrow> string) \<Rightarrow> js \<Rightarrow> string res" where
  "canonicalSpanId sha256 identity =
     bind_res (boundedIdentity identity ''span identity'') (\<lambda>value.
     Inr (if length value = 16 \<and> list_all lower_hex value \<and> value \<noteq> replicate 16 (CHR ''0'') then value
          else trace_digest sha256 ''span'' value 16))"

record trace_context =
  tx_trace :: string
  tx_span :: string
  tx_parent :: string

definition createTraceContext :: "(string \<Rightarrow> string) \<Rightarrow> js \<Rightarrow> js \<Rightarrow> trace_context res" where
  "createTraceContext sha256 seed identity =
     bind_res (canonicalTraceId sha256 seed) (\<lambda>t.
     bind_res (canonicalSpanId sha256 identity) (\<lambda>s.
     Inr \<lparr>tx_trace = t, tx_span = s, tx_parent = ''00-'' @ t @ ''-'' @ s @ ''-01''\<rparr>))"

subsection \<open>Envelopes\<close>

definition AGGREGATE_TYPE :: string where
  "AGGREGATE_TYPE = ''agent_session''"

definition LEDGER_EVENT_TYPE :: string where
  "LEDGER_EVENT_TYPE = ''AgentSessionEventRecorded''"

definition store_error :: "string \<Rightarrow> string \<Rightarrow> jserr" where
  "store_error message code = mk_err code message"

definition store_invalid :: "string \<Rightarrow> jserr" where
  "store_invalid message = store_error message ''AGENT_SESSION_STORE_INVALID''"

record session_env =
  se_sha :: "string \<Rightarrow> string"
  se_event :: "js \<Rightarrow> js res"
  se_spec :: "js \<Rightarrow> js res"
  se_registry :: registry

text \<open>\<open>JSON.stringify\<close> leaves out undefined members and prints what is not JSON as null.\<close>

fun json_value :: "js \<Rightarrow> js"
  and json_items :: "js list \<Rightarrow> js list"
  and json_members :: "fields \<Rightarrow> fields" where
  "json_value (JArr xs) = JArr (json_items xs)"
| "json_value (JObj fs) = JObj (json_members fs)"
| "json_value JNaN = JNull"
| "json_value (JInf b) = JNull"
| "json_value v = v"
| "json_items [] = []"
| "json_items (x # xs) = (if x = JUndef \<or> x = JFun then JNull else json_value x) # json_items xs"
| "json_members [] = []"
| "json_members ((k, v) # fs) = (if v = JUndef \<or> v = JFun then json_members fs else (k, json_value v) # json_members fs)"

definition session_stableJson :: "js \<Rightarrow> string" where
  "session_stableJson v = canonicalJson (json_value v)"

definition ledgerEventId :: "(string \<Rightarrow> string) \<Rightarrow> string \<Rightarrow> string \<Rightarrow> string" where
  "ledgerEventId sha256 session_id event_id =
     (let hex = sha256 (session_id @ CHR 0x00 # event_id) in
      take 8 hex @ ''-'' @ take 4 (drop 8 hex) @ ''-'' @ take 4 (drop 12 hex) @ ''-'' @ take 4 (drop 16 hex) @ ''-'' @
      take 12 (drop 20 hex))"

definition canonicalTimestamp :: "string \<Rightarrow> string" where
  "canonicalTimestamp t = iso_of_ms (date_ms t)"

definition secret_error :: "string \<Rightarrow> jserr" where
  "secret_error path = store_error ''credential-bearing fields are forbidden in session events'' ''AGENT_SESSION_SECRET_FORBIDDEN''"

fun assertNoSensitiveFields :: "string \<Rightarrow> js \<Rightarrow> unit res"
  and sensitive_items :: "string \<Rightarrow> nat \<Rightarrow> js list \<Rightarrow> unit res"
  and sensitive_members :: "string \<Rightarrow> fields \<Rightarrow> unit res" where
  "assertNoSensitiveFields path (JArr xs) = sensitive_items path 0 xs"
| "assertNoSensitiveFields path (JObj fs) = sensitive_members path fs"
| "assertNoSensitiveFields path v = Inr ()"
| "sensitive_items path i [] = Inr ()"
| "sensitive_items path i (x # xs) =
     (case assertNoSensitiveFields (path @ ''['' @ dec_nat i @ '']'') x of
        Inl e \<Rightarrow> Inl e | Inr _ \<Rightarrow> sensitive_items path (Suc i) xs)"
| "sensitive_members path [] = Inr ()"
| "sensitive_members path ((k, v) # fs) =
     (if sensitive_key SENSITIVE_KEYS k then Inl (secret_error (path @ ''.'' @ k))
      else case assertNoSensitiveFields (path @ ''.'' @ k) v of
             Inl e \<Rightarrow> Inl e | Inr _ \<Rightarrow> sensitive_members path fs)"

definition actor_error :: "string \<Rightarrow> jserr" where
  "actor_error message = store_error message ''AGENT_SESSION_ACTOR_INVALID''"

definition cloneActor :: "js \<Rightarrow> js res" where
  "cloneActor actor =
     bind_res (check_that (is_obj actor) (actor_error ''actor must be a plain JSON object'')) (\<lambda>_.
     bind_res (strict_json actor_error ''actor'' actor) (\<lambda>_.
     Inr actor))"

definition operation_of :: "js \<Rightarrow> js" where
  "operation_of event =
     (if ftext event ''event_type'' = ''tool.operation_linked'' then js_get (js_get event ''payload'') ''operation_id'' else JNull)"

definition row_operation :: "row \<Rightarrow> js" where
  "row_operation r = (case r_operation_id r of None \<Rightarrow> JNull | Some s \<Rightarrow> JStr s)"

definition session_envelope_error :: "string \<Rightarrow> jserr" where
  "session_envelope_error message = store_error message ''AGENT_SESSION_ENVELOPE_INVALID''"

definition decode_envelope :: "row \<Rightarrow> js res" where
  "decode_envelope r =
     (if r_aggregate_type r \<noteq> AGGREGATE_TYPE \<or> r_event_type r \<noteq> LEDGER_EVENT_TYPE
      then Inl (session_envelope_error ''ledger row is not an agent-session envelope'')
      else case js_get (r_payload r) ''session_event_json'' of
        JStr text \<Rightarrow>
          (case parse_json text of
             None \<Rightarrow> Inl (session_envelope_error ''session envelope contains invalid JSON'')
           | Some decoded \<Rightarrow> Inr decoded)
      | _ \<Rightarrow> Inl (session_envelope_error ''session envelope payload is missing''))"

definition hydrateSessionEvent :: "session_env \<Rightarrow> row \<Rightarrow> js res" where
  "hydrateSessionEvent env r =
     bind_res (decode_envelope r) (\<lambda>decoded.
     bind_res (se_event env decoded) (\<lambda>event.
     bind_res (assertNoSensitiveFields ''event'' event) (\<lambda>_.
     bind_res (guards
       [(js_get event ''session_id'' \<noteq> JStr (r_aggregate_id r) \<or> js_get event ''sequence'' \<noteq> JNum (int (r_sequence r)) \<or>
         r_event_id r \<noteq> ledgerEventId (se_sha env) (ftext event ''session_id'') (ftext event ''event_id''),
         store_error ''session envelope identity does not match the ledger row'' ''AGENT_SESSION_ENVELOPE_MISMATCH''),
        (row_operation r \<noteq> operation_of event,
         store_error ''session operation reference does not match the ledger row'' ''AGENT_SESSION_OPERATION_MISMATCH'')]) (\<lambda>_.
     Inr event))))"

text \<open>The event the reducer sees.\<close>

definition event_of :: "js \<Rightarrow> session_event" where
  "event_of d =
     \<lparr>ev_id = ftext d ''event_id'', ev_session = ftext d ''session_id'', ev_sequence = fint d ''sequence'',
      ev_at = ftext d ''occurred_at'', ev_type = ftext d ''event_type'', ev_payload = stableValue (js_get d ''payload'')\<rparr>"

definition parse_event :: "session_env \<Rightarrow> js \<Rightarrow> session_event res" where
  "parse_event env v = bind_res (se_event env v) (\<lambda>d. Inr (event_of d))"

definition fold_session :: "session_env \<Rightarrow> session option \<Rightarrow> js list \<Rightarrow> session res" where
  "fold_session env from events = replaySessionEvents (se_sha env) (parse_event env) events from"

subsection \<open>Lineage of a stream\<close>

definition first_correlation :: "row list \<Rightarrow> string option" where
  "first_correlation rows = (case rows of [] \<Rightarrow> None | r # _ \<Rightarrow> if r_correlation_id r = [] then None else Some (r_correlation_id r))"

definition trace_fragmented :: "string \<Rightarrow> jserr" where
  "trace_fragmented message = store_error message ''AGENT_SESSION_TRACE_FRAGMENTED''"

definition assertUniformSessionTrace :: "row list \<Rightarrow> string option res" where
  "assertUniformSessionTrace rows =
     bind_res (guards
       [(case first_correlation rows of None \<Rightarrow> False | Some c \<Rightarrow> list_ex (\<lambda>r. r_correlation_id r \<noteq> c) rows,
         trace_fragmented ''session trace lineage is fragmented'')]) (\<lambda>_.
     Inr (first_correlation rows))"

definition causation_fragmented :: "string \<Rightarrow> jserr" where
  "causation_fragmented message = store_error message ''AGENT_SESSION_CAUSATION_FRAGMENTED''"

definition session_root :: "string \<Rightarrow> string" where
  "session_root i = ''session-root:'' @ i"

definition read_session_rows :: "ledger \<Rightarrow> js \<Rightarrow> row list res" where
  "read_session_rows l i = readStream l (JStr AGGREGATE_TYPE) i 1 MAX_SAFE_INTEGER"

definition nth_event :: "js list \<Rightarrow> int \<Rightarrow> js" where
  "nth_event events n = (if 0 \<le> n \<and> n < int (length events) then events ! nat n else JUndef)"

definition branch_event :: "js list \<Rightarrow> js \<Rightarrow> js" where
  "branch_event parents fork =
     (case js_get (js_get fork ''payload'') ''parent_sequence'' of JNum n \<Rightarrow> nth_event parents (n - 1) | _ \<Rightarrow> JUndef)"

definition attaches_to :: "js \<Rightarrow> string \<Rightarrow> js \<Rightarrow> bool" where
  "attaches_to causation child event \<longleftrightarrow>
     ftext event ''event_type'' = ''child.attached'' \<and> js_get event ''event_id'' = causation \<and>
     js_get (js_get event ''payload'') ''child_session_id'' = JStr child"

text \<open>What the fork event of a child and the branch point in its parent have to agree on.\<close>

definition fork_names :: "js \<Rightarrow> js \<Rightarrow> bool" where
  "fork_names fork parent \<longleftrightarrow>
     ftext fork ''event_type'' = ''session.forked'' \<and> js_get (js_get fork ''payload'') ''parent_session_id'' = parent"

definition branches_at :: "js \<Rightarrow> js list \<Rightarrow> js \<Rightarrow> bool" where
  "branches_at fork parents causation \<longleftrightarrow>
     branch_event parents fork \<noteq> JUndef \<and> causation = js_get (branch_event parents fork) ''event_id''"

definition child_anchor :: "session_env \<Rightarrow> ledger \<Rightarrow> row \<Rightarrow> js list \<Rightarrow> js \<Rightarrow> unit res" where
  "child_anchor env l r events parent =
     (let fork = nth_event events 1; bad = causation_fragmented ''child session causation anchor is invalid'' in
      bind_res (read_session_rows l parent) (\<lambda>parent_rows.
      bind_res (map_res (hydrateSessionEvent env) parent_rows) (\<lambda>parents.
      case find_index (attaches_to (JStr (r_causation_id r)) (ftext (hd events) ''session_id'')) parents of
        None \<Rightarrow> Inl bad
      | Some i \<Rightarrow>
          let attachment = parent_rows ! i in
          bind_res (canonicalTraceId (se_sha env) (JStr (r_correlation_id attachment))) (\<lambda>a.
          bind_res (canonicalTraceId (se_sha env) (JStr (r_correlation_id r))) (\<lambda>b.
          guards [(a \<noteq> b \<or> r_position r \<le> r_position attachment \<or> \<not> fork_names fork parent \<or>
            \<not> branches_at fork parents (JStr (r_causation_id attachment)), bad)])))))"

definition session_anchor :: "session_env \<Rightarrow> ledger \<Rightarrow> row \<Rightarrow> js list \<Rightarrow> unit res" where
  "session_anchor env l r events =
     (let spec = js_get (js_get (hd events) ''payload'') ''spec''; parent = js_get spec ''parent_session_id'' in
      bind_res (check_that (spec \<noteq> JUndef \<and> spec \<noteq> JNull) type_error) (\<lambda>_.
      if parent = JNull
      then guards [(r_causation_id r \<noteq> session_root (ftext (hd events) ''session_id''),
             causation_fragmented ''root session causation anchor is invalid'')]
      else child_anchor env l r events parent))"

fun causation_chain :: "string list \<Rightarrow> (row \<times> js) list \<Rightarrow> bool" where
  "causation_chain earlier [] = True"
| "causation_chain earlier ((r, e) # rest) =
     ((earlier = [] \<or> r_causation_id r = last earlier \<or>
       (ftext e ''event_type'' = ''child.attached'' \<and> r_causation_id r \<in> set earlier)) \<and>
      causation_chain (earlier @ [ftext e ''event_id'']) rest)"

definition assertSessionCausation :: "session_env \<Rightarrow> ledger \<Rightarrow> row list \<Rightarrow> js list \<Rightarrow> unit res" where
  "assertSessionCausation env l rows events =
     (case rows of
        [] \<Rightarrow> Inr ()
      | r # _ \<Rightarrow>
          bind_res (session_anchor env l r events) (\<lambda>_.
          guards [(\<not> causation_chain [] (zip rows events),
            causation_fragmented ''session event causation does not continue durable lineage'')]))"

subsection \<open>Reading and the cache\<close>

definition identifier_char :: "char \<Rightarrow> bool" where
  "identifier_char c \<longleftrightarrow> digit c \<or> (CHR ''a'' \<le> c \<and> c \<le> CHR ''z'')"

definition identifier_ok :: "string \<Rightarrow> bool" where
  "identifier_ok s \<longleftrightarrow> s \<noteq> [] \<and> length s \<le> 160 \<and> identifier_char (hd s) \<and>
     list_all (\<lambda>c. identifier_char c \<or> c \<in> {CHR ''.'', CHR ''_'', CHR '':'', CHR ''-''}) s"

definition parse_identifier :: "js \<Rightarrow> string res" where
  "parse_identifier v =
     (case v of
        JStr s \<Rightarrow> if identifier_ok s then Inr s
                  else Inl (mk_err ''AGENT_CONTRACT_SCHEMA_INVALID'' ''session id does not match schema v1'')
      | _ \<Rightarrow> Inl (mk_err ''AGENT_CONTRACT_SCHEMA_INVALID'' ''session id does not match schema v1''))"

record cached =
  ca_state :: session
  ca_revision :: nat
  ca_correlation :: "string option"
  ca_last :: "string option"
  ca_ids :: "string list"

record store =
  so_ledger :: ledger
  so_actor :: js
  so_cache :: "(string \<times> cached) list"
  so_revision :: nat
  so_transaction :: "row list option"

definition new_session_store :: "ledger \<Rightarrow> js \<Rightarrow> store res" where
  "new_session_store l actor =
     bind_res (cloneActor (if actor = JUndef then JObj [(''type'', JStr ''hseos''), (''id'', JStr ''agent-kernel'')] else actor)) (\<lambda>a.
     Inr \<lparr>so_ledger = l, so_actor = a, so_cache = [], so_revision = 0, so_transaction = None\<rparr>)"

definition readSession :: "session_env \<Rightarrow> ledger \<Rightarrow> js \<Rightarrow> int \<Rightarrow> int \<Rightarrow> js list res" where
  "readSession env l session_id from_version to_version =
     bind_res (parse_identifier session_id) (\<lambda>i.
     bind_res (readStream l (JStr AGGREGATE_TYPE) (JStr i) from_version to_version) (\<lambda>rows.
     bind_res (assertUniformSessionTrace rows) (\<lambda>_.
     bind_res (map_res (hydrateSessionEvent env) rows) (\<lambda>events.
     bind_res (if from_version = 1 then assertSessionCausation env l rows events else Inr ()) (\<lambda>_.
     Inr events)))))"

definition session_readGlobal :: "session_env \<Rightarrow> ledger \<Rightarrow> int \<Rightarrow> int \<Rightarrow> (nat \<times> js) list res" where
  "session_readGlobal env l after limit =
     bind_res (readGlobal l after limit (JStr AGGREGATE_TYPE)) (\<lambda>rows.
     map_res (\<lambda>r. bind_res (hydrateSessionEvent env r) (\<lambda>e. Inr (r_position r, e)))
       (filter (\<lambda>r. r_aggregate_type r = AGGREGATE_TYPE) rows))"

fun incremental_chain :: "string option \<Rightarrow> string list \<Rightarrow> (row \<times> js) list \<Rightarrow> (string option \<times> string list) res" where
  "incremental_chain prev ids [] = Inr (prev, ids)"
| "incremental_chain prev ids ((r, e) # rest) =
     (if Some (r_causation_id r) \<noteq> prev \<and> \<not> (ftext e ''event_type'' = ''child.attached'' \<and> r_causation_id r \<in> set ids)
      then Inl (causation_fragmented ''incremental session causation changed'')
      else incremental_chain (Some (ftext e ''event_id'')) (ids @ [ftext e ''event_id'']) rest)"

definition put_cache :: "store \<Rightarrow> string \<Rightarrow> cached \<Rightarrow> store" where
  "put_cache st i c = st\<lparr>so_cache := assign (so_cache st) i c\<rparr>"

definition drop_cache :: "store \<Rightarrow> string \<Rightarrow> store" where
  "drop_cache st i = st\<lparr>so_cache := filter (\<lambda>kc. fst kc \<noteq> i) (so_cache st)\<rparr>"

definition evict :: "store \<Rightarrow> string \<Rightarrow> store" where
  "evict st i = (if 16 \<le> length (so_cache st) \<and> map_of (so_cache st) i = None then st\<lparr>so_cache := tl (so_cache st)\<rparr> else st)"

definition replay_increment :: "session_env \<Rightarrow> store \<Rightarrow> string \<Rightarrow> cached \<Rightarrow> store \<times> session res" where
  "replay_increment env st i previous =
     (case readStream (so_ledger st) (JStr AGGREGATE_TYPE) (JStr i) (ss_sequence (ca_state previous) + 1) MAX_SAFE_INTEGER of
        Inl e \<Rightarrow> (st, Inl e)
      | Inr rows \<Rightarrow>
          if rows = [] then (st, Inr (ca_state previous))
          else case bind_res (map_res (hydrateSessionEvent env) rows) (\<lambda>events.
                 bind_res (assertUniformSessionTrace rows) (\<lambda>correlation.
                 bind_res (guards [(correlation \<noteq> ca_correlation previous, trace_fragmented ''incremental session trace changed'')]) (\<lambda>_.
                 bind_res (incremental_chain (ca_last previous) (ca_ids previous) (zip rows events)) (\<lambda>(last, ids).
                 bind_res (fold_session env (Some (ca_state previous)) events) (\<lambda>state.
                 Inr \<lparr>ca_state = state, ca_revision = so_revision st, ca_correlation = correlation, ca_last = last, ca_ids = ids\<rparr>))))) of
            Inl e \<Rightarrow> (st, Inl e)
          | Inr c \<Rightarrow> (put_cache st i c, Inr (ca_state c)))"

definition replay_full :: "session_env \<Rightarrow> store \<Rightarrow> string \<Rightarrow> int \<Rightarrow> store \<times> session res" where
  "replay_full env st i to_version =
     (case readSession env (so_ledger st) (JStr i) 1 to_version of
        Inl e \<Rightarrow> (st, Inl e)
      | Inr events \<Rightarrow>
          (case fold_session env None events of
             Inl e \<Rightarrow> (st, Inl e)
           | Inr state \<Rightarrow>
               if to_version = MAX_SAFE_INTEGER \<and> so_transaction st = None
               then case readStream (so_ledger st) (JStr AGGREGATE_TYPE) (JStr i) 1 1 of
                      Inl e \<Rightarrow> (st, Inl e)
                    | Inr firsts \<Rightarrow>
                        (put_cache (evict st i) i
                           \<lparr>ca_state = state, ca_revision = so_revision st, ca_correlation = first_correlation firsts,
                            ca_last = last_opt (map (\<lambda>e. ftext e ''event_id'') events),
                            ca_ids = map (\<lambda>e. ftext e ''event_id'') events\<rparr>, Inr state)
               else (st, Inr state)))"

definition cached_replay :: "session_env \<Rightarrow> store \<Rightarrow> string \<Rightarrow> int \<Rightarrow> bool \<Rightarrow> store \<times> session res" where
  "cached_replay env st i to_version full =
     (case map_of (so_cache st) i of
        Some previous \<Rightarrow>
          if \<not> full \<and> to_version = MAX_SAFE_INTEGER \<and> so_transaction st = None \<and> ca_revision previous = so_revision st \<and>
             0 < ss_sequence (ca_state previous)
          then replay_increment env st i previous
          else replay_full env st i to_version
      | None \<Rightarrow> replay_full env st i to_version)"

definition replay :: "session_env \<Rightarrow> store \<Rightarrow> js \<Rightarrow> int \<Rightarrow> bool \<Rightarrow> store \<times> session res" where
  "replay env st session_id to_version full =
     (case parse_identifier session_id of
        Inl e \<Rightarrow> (st, Inl e)
      | Inr i \<Rightarrow> cached_replay env (if so_transaction st \<noteq> None then drop_cache st i else st) i to_version full)"

subsection \<open>Appending\<close>

record session_append_request =
  sa_session :: js
  sa_expected :: js
  sa_events :: js
  sa_correlation :: js
  sa_causation :: js
  sa_actor :: js

definition check_new_event :: "string \<Rightarrow> int \<Rightarrow> nat \<times> js \<Rightarrow> unit res" where
  "check_new_event i expected ie =
     bind_res (assertNoSensitiveFields ''event'' (snd ie)) (\<lambda>_.
     guards
       [(js_get (snd ie) ''session_id'' \<noteq> JStr i, store_invalid ''event belongs to a different session''),
        (js_get (snd ie) ''sequence'' \<noteq> JNum (expected + int (fst ie) + 1),
         store_error ''event sequence does not continue expected_version'' ''AGENT_SESSION_SEQUENCE_INVALID'')])"

definition parse_new_events :: "session_env \<Rightarrow> string \<Rightarrow> int \<Rightarrow> js list \<Rightarrow> js list res" where
  "parse_new_events env i expected events =
     bind_res (map_res (se_event env) events) (\<lambda>parsed.
     bind_res (each_res (check_new_event i expected) (enumerate 0 parsed)) (\<lambda>_.
     bind_res (check_that (distinct (map (\<lambda>e. js_get e ''event_id'') parsed))
       (store_invalid ''event identifiers must be unique within an append'')) (\<lambda>_.
     Inr parsed)))"

definition resolve_correlation :: "(string \<Rightarrow> string) \<Rightarrow> string option \<Rightarrow> js \<Rightarrow> string \<Rightarrow> string res" where
  "resolve_correlation sha256 durable correlation i =
     (case durable of
        Some c \<Rightarrow>
          if correlation = JUndef then Inr c
          else bind_res (canonicalTraceId sha256 correlation) (\<lambda>a.
               bind_res (canonicalTraceId sha256 (JStr c)) (\<lambda>b.
               bind_res (check_that (a = b) (trace_fragmented ''append cannot replace the durable session trace'')) (\<lambda>_.
               Inr c)))
      | None \<Rightarrow> canonicalTraceId sha256 (if js_truthy correlation then correlation else JStr i))"

definition js_slice :: "int \<Rightarrow> nat \<Rightarrow> js list \<Rightarrow> js list" where
  "js_slice from n xs = take n (drop (nat from) xs)"

definition version_conflict :: jserr where
  "version_conflict = store_error ''expected_version does not match the durable session stream'' ''AGENT_SESSION_VERSION_CONFLICT''"

definition check_continuation :: "session_env \<Rightarrow> store \<Rightarrow> string \<Rightarrow> int \<Rightarrow> js list \<Rightarrow> js list \<Rightarrow> store \<times> unit res" where
  "check_continuation env st i expected current parsed =
     (if int (length current) = expected
      then case replay env st (JStr i) MAX_SAFE_INTEGER False of
             (st1, Inl e) \<Rightarrow> (st1, Inl e)
           | (st1, Inr s) \<Rightarrow> (st1, bind_res (fold_session env (Some s) parsed) (\<lambda>_. Inr ()))
      else if expected < int (length current) \<and>
        session_stableJson (JArr (js_slice expected (length parsed) current)) = session_stableJson (JArr parsed)
      then (st, Inr ())
      else (st, Inl version_conflict))"

text \<open>An event that may attach a child: its correlation, its causation and the event.\<close>

type_synonym candidate = "js \<times> js \<times> js"

definition pending_candidate :: "session_env \<Rightarrow> js \<Rightarrow> candidate res" where
  "pending_candidate env r =
     (case parse_json (ftext (js_get r ''payload'') ''session_event_json'') of
        None \<Rightarrow> Inl (mk_err ''SyntaxError'' ''Unexpected token in JSON'')
      | Some decoded \<Rightarrow> bind_res (se_event env decoded) (\<lambda>e. Inr (js_get r ''correlation_id'', js_get r ''causation_id'', e)))"

definition new_child_anchor ::
    "session_env \<Rightarrow> ledger \<Rightarrow> string \<Rightarrow> js list \<Rightarrow> js \<Rightarrow> js \<Rightarrow> string \<Rightarrow> append_request option \<Rightarrow> unit res" where
  "new_child_anchor env l i parsed parent causation correlation pending =
     (let fork = nth_event parsed 1; bad = causation_fragmented ''child session causation anchor is invalid'' in
      bind_res (read_session_rows l parent) (\<lambda>parent_rows.
      bind_res (map_res (hydrateSessionEvent env) parent_rows) (\<lambda>parents.
      bind_res (case pending of None \<Rightarrow> Inr [] | Some rq \<Rightarrow> map_res (pending_candidate env) (js_items (rq_events rq))) (\<lambda>more.
      let candidates = map (\<lambda>(r, e). (JStr (r_correlation_id r), JStr (r_causation_id r), e)) (zip parent_rows parents) @ more in
      case find (\<lambda>c. attaches_to causation i (snd (snd c))) candidates of
        None \<Rightarrow> Inl bad
      | Some attachment \<Rightarrow>
          if \<not> fork_names fork parent then Inl bad
          else bind_res (canonicalTraceId (se_sha env) (fst attachment)) (\<lambda>a.
               bind_res (canonicalTraceId (se_sha env) (JStr correlation)) (\<lambda>b.
               guards [(a \<noteq> b \<or> \<not> branches_at fork parents (fst (snd attachment)), bad)]))))))"

definition check_anchor ::
    "session_env \<Rightarrow> ledger \<Rightarrow> string \<Rightarrow> js list \<Rightarrow> js \<Rightarrow> string \<Rightarrow> append_request option \<Rightarrow> unit res" where
  "check_anchor env l i parsed causation correlation pending =
     (let spec = js_get (js_get (hd parsed) ''payload'') ''spec''; parent = js_get spec ''parent_session_id'' in
      bind_res (check_that (spec \<noteq> JUndef \<and> spec \<noteq> JNull) type_error) (\<lambda>_.
      if parent = JNull
      then guards [(causation \<noteq> JStr (session_root i), causation_fragmented ''root session causation anchor is invalid'')]
      else new_child_anchor env l i parsed parent causation correlation pending))"

definition first_causation :: "js \<Rightarrow> js list \<Rightarrow> int \<Rightarrow> string \<Rightarrow> js" where
  "first_causation causation current expected i =
     (if js_truthy causation then causation
      else if js_truthy (js_get (nth_event current (expected - 1)) ''event_id'')
      then js_get (nth_event current (expected - 1)) ''event_id''
      else JStr (session_root i))"

definition ledger_event :: "(string \<Rightarrow> string) \<Rightarrow> string \<Rightarrow> string \<Rightarrow> js \<Rightarrow> js \<times> js \<Rightarrow> js" where
  "ledger_event sha256 i correlation actor ce =
     (let event = snd ce in
      JObj [(''event_id'', JStr (ledgerEventId sha256 i (ftext event ''event_id''))),
            (''event_type'', JStr LEDGER_EVENT_TYPE), (''schema_version'', JNum 1),
            (''occurred_at'', JStr (canonicalTimestamp (ftext event ''occurred_at''))),
            (''correlation_id'', JStr correlation), (''causation_id'', fst ce), (''actor'', actor),
            (''operation_id'', operation_of event),
            (''payload'', JObj [(''session_event_json'', JStr (session_stableJson event))]), (''evidence_refs'', JArr [])])"

definition ledger_request ::
    "(string \<Rightarrow> string) \<Rightarrow> string \<Rightarrow> int \<Rightarrow> js list \<Rightarrow> string \<Rightarrow> js \<Rightarrow> js \<Rightarrow> append_request" where
  "ledger_request sha256 i expected parsed correlation causation actor =
     \<lparr>rq_aggregate_id = JStr i, rq_aggregate_type = JStr AGGREGATE_TYPE, rq_expected_version = JNum expected,
      rq_events = JArr (map (ledger_event sha256 i correlation actor)
        (zip (causation # map (\<lambda>e. js_get e ''event_id'') (butlast parsed)) parsed))\<rparr>"

definition check_append :: "session_env \<Rightarrow> store \<Rightarrow> session_append_request \<Rightarrow> (string \<times> js \<times> js list \<times> js list \<times> string) res" where
  "check_append env st rq =
     bind_res (parse_identifier (sa_session rq)) (\<lambda>i.
     bind_res (check_that (is_int_ge 0 (sa_expected rq)) (store_invalid ''expected_version must be a non-negative integer'')) (\<lambda>_.
     bind_res (check_that (case sa_events rq of JArr xs \<Rightarrow> xs \<noteq> [] | _ \<Rightarrow> False) (store_invalid ''events must be a non-empty array'')) (\<lambda>_.
     bind_res (cloneActor (if sa_actor rq = JUndef then so_actor st else sa_actor rq)) (\<lambda>actor.
     bind_res (parse_new_events env i (js_int (sa_expected rq)) (js_items (sa_events rq))) (\<lambda>parsed.
     bind_res (read_session_rows (so_ledger st) (JStr i)) (\<lambda>rows.
     bind_res (map_res (hydrateSessionEvent env) rows) (\<lambda>current.
     bind_res (assertUniformSessionTrace rows) (\<lambda>durable.
     bind_res (assertSessionCausation env (so_ledger st) rows current) (\<lambda>_.
     bind_res (resolve_correlation (se_sha env) durable (sa_correlation rq) i) (\<lambda>correlation.
     Inr (i, actor, parsed, current, correlation)))))))))))"

definition session_prepareAppend ::
    "session_env \<Rightarrow> store \<Rightarrow> session_append_request \<Rightarrow> append_request option \<Rightarrow> store \<times> append_request res" where
  "session_prepareAppend env st rq pending =
     (case check_append env st rq of
        Inl e \<Rightarrow> (st, Inl e)
      | Inr (i, actor, parsed, current, correlation) \<Rightarrow>
          let expected = js_int (sa_expected rq) in
          (case check_continuation env st i expected current parsed of
             (st1, Inl e) \<Rightarrow> (st1, Inl e)
           | (st1, Inr _) \<Rightarrow>
               let causation = first_causation (sa_causation rq) current expected i in
               (st1,
                bind_res (if expected = 0 then check_anchor env (so_ledger st) i parsed causation correlation pending else Inr ()) (\<lambda>_.
                Inr (ledger_request (se_sha env) i expected parsed correlation causation actor)))))"

record session_append_result =
  sr_version :: nat
  sr_idempotent :: bool
  sr_events :: "js list"
  sr_positions :: "nat list"

definition formatResult :: "session_env \<Rightarrow> append_result \<Rightarrow> session_append_result res" where
  "formatResult env r =
     bind_res (map_res (hydrateSessionEvent env) (ar_events r)) (\<lambda>events.
     Inr \<lparr>sr_version = ar_version r, sr_idempotent = ar_idempotent r, sr_events = events,
          sr_positions = map r_position (ar_events r)\<rparr>)"

definition session_append :: "session_env \<Rightarrow> store \<Rightarrow> session_append_request \<Rightarrow> store \<times> session_append_result res" where
  "session_append env st rq =
     (case session_prepareAppend env st rq None of
        (st1, Inl e) \<Rightarrow> (st1, Inl e)
      | (st1, Inr lrq) \<Rightarrow>
          (case ledger_append (se_registry env) (so_ledger st1) lrq of
             (l, Inl e) \<Rightarrow> (st1\<lparr>so_ledger := l\<rparr>, Inl e)
           | (l, Inr r) \<Rightarrow> (st1\<lparr>so_ledger := l\<rparr>, formatResult env r)))"

subsection \<open>Trace, requests and recovery\<close>

record session_trace =
  sx_context :: trace_context
  sx_session :: string
  sx_correlation :: "string option"

definition traceContext :: "session_env \<Rightarrow> ledger \<Rightarrow> js \<Rightarrow> session_trace res" where
  "traceContext env l session_id =
     bind_res (parse_identifier session_id) (\<lambda>i.
     bind_res (read_session_rows l (JStr i)) (\<lambda>rows.
     bind_res (check_that (rows \<noteq> []) (store_error ''session trace does not exist'' ''AGENT_SESSION_TRACE_NOT_FOUND'')) (\<lambda>_.
     bind_res (map_res (hydrateSessionEvent env) rows) (\<lambda>events.
     bind_res (assertUniformSessionTrace rows) (\<lambda>correlation.
     bind_res (assertSessionCausation env l rows events) (\<lambda>_.
     bind_res (createTraceContext (se_sha env) (nullable_str correlation) (js_get (last events) ''event_id'')) (\<lambda>context.
     Inr \<lparr>sx_context = context, sx_session = i, sx_correlation = correlation\<rparr>)))))))"

definition reconstructRequest :: "session_env \<Rightarrow> store \<Rightarrow> js \<Rightarrow> string option \<Rightarrow> store \<times> model_request_view res" where
  "reconstructRequest env st session_id turn_id =
     (case replay env st session_id MAX_SAFE_INTEGER False of
        (st1, Inl e) \<Rightarrow> (st1, Inl e)
      | (st1, Inr s) \<Rightarrow> (st1, reconstructModelRequest (se_sha env) (parse_event env) [] turn_id (Some s)))"

definition store_recoveryPlan :: "session_env \<Rightarrow> ledger \<Rightarrow> js \<Rightarrow> recovery_plan res" where
  "store_recoveryPlan env l session_id =
     bind_res (readSession env l session_id 1 MAX_SAFE_INTEGER) (\<lambda>events.
     buildRecoveryPlan (se_sha env) (parse_event env) events)"

subsection \<open>Forking\<close>

record fork_request =
  fk_parent :: js
  fk_sequence :: int
  fk_spec :: js
  fk_child_request :: js
  fk_ids :: js
  fk_at :: js
  fk_correlation :: js
  fk_actor :: js

text \<open>
  The relational operator on limits, which \<open>AgentLimitsSchema\<close> makes integers: for two numbers it is the order
  of integers, and a comparison with an absent limit is a comparison with NaN, hence false.
\<close>

definition js_greater :: "js \<Rightarrow> js \<Rightarrow> bool" where
  "js_greater a b = (case (a, b) of (JNum m, JNum n) \<Rightarrow> n < m | _ \<Rightarrow> False)"

definition new_event :: "js \<Rightarrow> js \<Rightarrow> int \<Rightarrow> js \<Rightarrow> string \<Rightarrow> js \<Rightarrow> js" where
  "new_event event_id session_id sequence at event_type payload =
     JObj [(''schema_version'', JNum 1), (''event_id'', event_id), (''session_id'', session_id), (''sequence'', JNum sequence),
           (''occurred_at'', at), (''event_type'', JStr event_type), (''payload'', payload)]"

definition fork_limits :: "session \<Rightarrow> js \<Rightarrow> unit res" where
  "fork_limits parent spec =
     each_res (\<lambda>(limit, value).
       guards [(js_greater value (js_get (js_get (ss_spec parent) ''limits'') limit),
         store_error ''fork resource limits cannot exceed the parent'' ''AGENT_SESSION_FORK_LIMIT_WIDENING'')])
       (own_fields (js_get spec ''limits''))"

definition fork_ids_ok :: "fork_request \<Rightarrow> bool" where
  "fork_ids_ok fk \<longleftrightarrow>
     js_truthy (fk_ids fk) \<and> is_str (js_get (fk_ids fk) ''attached'') \<and> is_str (js_get (fk_ids fk) ''created'') \<and>
     is_str (js_get (fk_ids fk) ''forked'') \<and> (js_truthy (fk_child_request fk) \<longrightarrow> is_str (js_get (fk_ids fk) ''requested''))"

definition child_attachment :: "js \<Rightarrow> js \<Rightarrow> bool" where
  "child_attachment child event \<longleftrightarrow>
     ftext event ''event_type'' = ''child.attached'' \<and> js_get (js_get event ''payload'') ''child_session_id'' = child"

record fork_plan =
  fp_spec :: js
  fp_anchor :: js
  fp_sequence :: int
  fp_trace :: js

definition fork_source :: "session_env \<Rightarrow> ledger \<Rightarrow> fork_request \<Rightarrow> js list res" where
  "fork_source env l fk =
     bind_res (readSession env l (fk_parent fk) 1 (fk_sequence fk)) (\<lambda>source.
     bind_res (fold_session env None source) (\<lambda>state.
     bind_res (check_that (ss_sequence state = fk_sequence fk)
       (store_error ''fork source sequence does not exist'' ''AGENT_SESSION_FORK_SOURCE_NOT_FOUND'')) (\<lambda>_.
     Inr source)))"

definition fork_authority :: "session_env \<Rightarrow> fork_request \<Rightarrow> session \<Rightarrow> js res" where
  "fork_authority env fk parent =
     bind_res (se_spec env (fk_spec fk)) (\<lambda>spec.
     bind_res (guards
       [(js_get spec ''parent_session_id'' \<noteq> fk_parent fk,
         store_error ''child session spec must name the fork parent'' ''AGENT_SESSION_FORK_PARENT_MISMATCH''),
        (js_get spec ''authority_ref'' \<noteq> js_get (ss_spec parent) ''authority_ref'' \<or>
         js_get spec ''policy_ref'' \<noteq> js_get (ss_spec parent) ''policy_ref'',
         store_error ''fork cannot alter authority or policy'' ''AGENT_SESSION_FORK_AUTHORITY_WIDENING'')]) (\<lambda>_.
     bind_res (fork_limits parent spec) (\<lambda>_.
     bind_res (check_that (fork_ids_ok fk)
       (store_invalid ''fork requires explicit attached, created, forked and optional request event identifiers'')) (\<lambda>_.
     Inr spec))))"

definition fork_position :: "fork_request \<Rightarrow> js list \<Rightarrow> session \<Rightarrow> js \<Rightarrow> int res" where
  "fork_position fk current parent spec =
     (let existing = find (child_attachment (js_get spec ''session_id'')) current in
      bind_res (guards
        [(case existing of None \<Rightarrow> False | Some e \<Rightarrow> js_get e ''event_id'' \<noteq> js_get (fk_ids fk) ''attached'',
          store_error ''child session is already attached with a different event'' ''AGENT_SESSION_CHILD_ID_CONFLICT''),
         (existing = None \<and> limit_of parent ''max_children'' \<le> int (length (ss_children parent)),
          store_error ''parent session child limit is exhausted'' ''AGENT_SESSION_CHILD_LIMIT_EXCEEDED'')]) (\<lambda>_.
      Inr (case existing of Some e \<Rightarrow> fint e ''sequence'' | None \<Rightarrow> int (length current) + 1)))"

definition fork_trace :: "session_env \<Rightarrow> ledger \<Rightarrow> fork_request \<Rightarrow> string res" where
  "fork_trace env l fk =
     bind_res (traceContext env l (fk_parent fk)) (\<lambda>trace.
     let t = tx_trace (sx_context trace) in
     if fk_correlation fk = JUndef then Inr t
     else bind_res (canonicalTraceId (se_sha env) (fk_correlation fk)) (\<lambda>c.
          bind_res (check_that (c = t) (trace_fragmented ''fork cannot replace the parent trace'')) (\<lambda>_.
          Inr t)))"

definition plan_fork :: "session_env \<Rightarrow> ledger \<Rightarrow> fork_request \<Rightarrow> fork_plan res" where
  "plan_fork env l fk =
     bind_res (fork_source env l fk) (\<lambda>source.
     bind_res (readSession env l (fk_parent fk) 1 MAX_SAFE_INTEGER) (\<lambda>current.
     bind_res (fold_session env None current) (\<lambda>parent.
     bind_res (fork_authority env fk parent) (\<lambda>spec.
     bind_res (fork_position fk current parent spec) (\<lambda>sequence.
     bind_res (fork_trace env l fk) (\<lambda>t.
     Inr \<lparr>fp_spec = spec, fp_anchor = js_get (last source) ''event_id'', fp_sequence = sequence, fp_trace = JStr t\<rparr>))))))"

definition fork_parent_append :: "fork_request \<Rightarrow> fork_plan \<Rightarrow> session_append_request" where
  "fork_parent_append fk p =
     \<lparr>sa_session = fk_parent fk, sa_expected = JNum (fp_sequence p - 1),
      sa_events = JArr [new_event (js_get (fk_ids fk) ''attached'') (fk_parent fk) (fp_sequence p) (fk_at fk) ''child.attached''
        (JObj [(''child_session_id'', js_get (fp_spec p) ''session_id''), (''authority_ceiling_ref'', js_get (fp_spec p) ''authority_ref'')])],
      sa_correlation = fp_trace p, sa_causation = fp_anchor p, sa_actor = fk_actor fk\<rparr>"

definition fork_child_append :: "fork_request \<Rightarrow> fork_plan \<Rightarrow> session_append_request" where
  "fork_child_append fk p =
     (let child = js_get (fp_spec p) ''session_id'' in
      \<lparr>sa_session = child, sa_expected = JNum 0,
       sa_events = JArr
         ([new_event (js_get (fk_ids fk) ''created'') child 1 (fk_at fk) ''session.created'' (JObj [(''spec'', fp_spec p)]),
           new_event (js_get (fk_ids fk) ''forked'') child 2 (fk_at fk) ''session.forked''
             (JObj [(''parent_session_id'', fk_parent fk), (''parent_sequence'', JNum (fk_sequence fk))])] @
          (if js_truthy (fk_child_request fk)
           then [new_event (js_get (fk_ids fk) ''requested'') child 3 (fk_at fk) ''subagent.requested'' (fk_child_request fk)] else [])),
       sa_correlation = fp_trace p, sa_causation = js_get (fk_ids fk) ''attached'', sa_actor = fk_actor fk\<rparr>)"

definition format_fork :: "session_env \<Rightarrow> append_result list \<Rightarrow> (session_append_result \<times> session_append_result) res" where
  "format_fork env rs =
     (case rs of
        [p, c] \<Rightarrow> bind_res (formatResult env p) (\<lambda>parent. bind_res (formatResult env c) (\<lambda>child. Inr (parent, child)))
      | _ \<Rightarrow> Inl type_error)"

definition forkSession :: "session_env \<Rightarrow> store \<Rightarrow> fork_request \<Rightarrow> store \<times> (session_append_result \<times> session_append_result) res" where
  "forkSession env st fk =
     (case plan_fork env (so_ledger st) fk of
        Inl e \<Rightarrow> (st, Inl e)
      | Inr p \<Rightarrow>
          (case session_prepareAppend env st (fork_parent_append fk p) None of
             (st1, Inl e) \<Rightarrow> (st1, Inl e)
           | (st1, Inr parent) \<Rightarrow>
               (case session_prepareAppend env st1 (fork_child_append fk p) (Some parent) of
                  (st2, Inl e) \<Rightarrow> (st2, Inl e)
                | (st2, Inr child) \<Rightarrow>
                    (case appendBatch (se_registry env) (so_ledger st2) [parent, child] of
                       (l, Inl e) \<Rightarrow> (st2\<lparr>so_ledger := l\<rparr>, Inl e)
                     | (l, Inr rs) \<Rightarrow> (st2\<lparr>so_ledger := l\<rparr>, format_fork env rs)))))"

end
