(* ===== verification/SessionSound.thy ===== *)
theory SessionSound
  imports SessionStore "HOL-Library.Sublist"
begin

text \<open>
  The cache of the session store is invisible. An entry is what a full replay of an earlier state of the
  ledger gave; the ledger only grows, except that a rollback undoes the rows of the open transaction, so
  replaying the rest of a stream from an entry gives what reading and replaying the whole stream gives.
\<close>

subsection \<open>Lineage of a longer stream\<close>

definition session_rows :: "row list \<Rightarrow> string \<Rightarrow> row list" where
  "session_rows rows i = select_stream rows (AGGREGATE_TYPE, i)"

definition small :: "ledger \<Rightarrow> bool" where
  "small l \<longleftrightarrow> int (length (led_rows l)) < MAX_SAFE_INTEGER"

definition well_written :: "session_env \<Rightarrow> row list \<Rightarrow> bool" where
  "well_written env rows \<longleftrightarrow>
     (\<forall>r \<in> set rows. r_aggregate_type r = AGGREGATE_TYPE \<longrightarrow> r_correlation_id r \<noteq> [] \<and> (\<exists>e. hydrateSessionEvent env r = Inr e))"

abbreviation event_ids :: "js list \<Rightarrow> string list" where
  "event_ids events \<equiv> map (\<lambda>e. ftext e ''event_id'') events"

lemma last_opt_simps [simp]: "last_opt [] = None" "xs \<noteq> [] \<Longrightarrow> last_opt xs = Some (last xs)"
  by (simp_all add: last_opt_def)

lemma causation_chain_append:
  "causation_chain ids (xs @ ys) \<longleftrightarrow> causation_chain ids xs \<and> causation_chain (ids @ event_ids (map snd xs)) ys"
  by (induction ids xs rule: causation_chain.induct) auto

lemma incremental_chain_iff:
  "ids \<noteq> [] \<Longrightarrow> incremental_chain (last_opt ids) ids zs = Inr z \<longleftrightarrow>
     causation_chain ids zs \<and> z = (last_opt (ids @ event_ids (map snd zs)), ids @ event_ids (map snd zs))"
proof (induction zs arbitrary: ids)
  case (Cons re zs)
  obtain r e where re: "re = (r, e)" by fastforce
  have "last_opt (ids @ [ftext e ''event_id'']) = Some (ftext e ''event_id'')" by simp
  with Cons.IH[of "ids @ [ftext e ''event_id'']"] Cons.prems show ?case by (auto simp: re)
qed auto

lemma find_index_append: "find_index P xs = Some k \<Longrightarrow> k < length xs \<and> find_index P (xs @ ys) = Some k"
  by (induction xs arbitrary: k) (auto split: if_splits option.splits)

lemma nth_event_append: "nth_event xs n \<noteq> JUndef \<Longrightarrow> nth_event (xs @ ys) n = nth_event xs n"
  by (auto simp: nth_event_def nth_append split: if_splits)

lemma branch_event_append: "branch_event xs f \<noteq> JUndef \<Longrightarrow> branch_event (xs @ ys) f = branch_event xs f"
  by (auto simp: branch_event_def nth_event_append split: js.splits)

lemma session_rows_prefix:
  "prefix rows rows' \<Longrightarrow> \<exists>new. session_rows rows' i = session_rows rows i @ new"
  by (auto simp: prefix_def session_rows_def select_stream_def)

lemma AGGREGATE_TYPE_text [simp]: "AGGREGATE_TYPE \<noteq> []"
  by (simp add: AGGREGATE_TYPE_def)

lemma session_rows_length: "length (session_rows rows i) \<le> length rows"
  by (simp add: session_rows_def select_stream_def)

lemma read_session_rows_text:
  assumes "ledger_ok l" "small l" "i \<noteq> []"
  shows "read_session_rows l (JStr i) = Inr (session_rows (led_rows l) i)"
proof -
  have "int (length (log_read l (AGGREGATE_TYPE, i))) \<le> MAX_SAFE_INTEGER"
    using assms(2) session_rows_length[of "led_rows l" i] by (simp add: small_def log_read_def session_rows_def)
  moreover have "(1::int) \<le> MAX_SAFE_INTEGER" by (simp add: MAX_SAFE_INTEGER_def)
  ultimately show ?thesis
    using readStream_all[OF assms(1) AGGREGATE_TYPE_text assms(3)]
    by (simp add: read_session_rows_def log_read_def session_rows_def)
qed

lemma read_session_rows_parent:
  assumes "read_session_rows l v = Inr rows"
  obtains i where "v = JStr i" "i \<noteq> []"
  using assms by (cases v) (auto simp: read_session_rows_def readStream_def requireString_def)

lemma well_written_session:
  assumes "well_written env rows" "r \<in> set (session_rows rows i)"
  shows "r_correlation_id r \<noteq> [] \<and> (\<exists>e. hydrateSessionEvent env r = Inr e)"
  using assms by (auto simp: well_written_def session_rows_def select_stream_def stream_of_def)

lemma map_res_total: "(\<And>x. x \<in> set xs \<Longrightarrow> \<exists>y. f x = Inr y) \<Longrightarrow> \<exists>ys. map_res f xs = Inr ys"
  by (induction xs) (force split: sum.splits)+

lemma well_written_hydrates: "well_written env rows \<Longrightarrow> \<exists>events. map_res (hydrateSessionEvent env) (session_rows rows i) = Inr events"
  by (rule map_res_total) (blast dest: well_written_session)

lemma well_written_prefix: "well_written env rows \<Longrightarrow> prefix rows0 rows \<Longrightarrow> well_written env rows0"
  by (auto simp: well_written_def prefix_def)

lemma small_prefix: "small l \<Longrightarrow> prefix (led_rows l0) (led_rows l) \<Longrightarrow> small l0"
  using prefix_length_le by (fastforce simp: small_def)

lemma child_anchor_grows:
  assumes ok: "ledger_ok l0" "ledger_ok l" "small l" and pre: "prefix (led_rows l0) (led_rows l)" and w: "well_written env (led_rows l)"
    and a: "child_anchor env l0 r events parent = Inr ()" and "events \<noteq> []"
  shows "child_anchor env l r (events @ later) parent = Inr ()"
proof -
  obtain rows where "read_session_rows l0 parent = Inr rows" using a by (auto simp: child_anchor_def Let_def)
  then obtain p where p: "parent = JStr p" "p \<noteq> []" by (rule read_session_rows_parent)
  obtain new where new: "session_rows (led_rows l) p = session_rows (led_rows l0) p @ new"
    using session_rows_prefix[OF pre] by blast
  have r0: "read_session_rows l0 parent = Inr (session_rows (led_rows l0) p)"
    using read_session_rows_text[OF ok(1) small_prefix[OF ok(3) pre] p(2)] p(1) by simp
  have r1: "read_session_rows l parent = Inr (session_rows (led_rows l0) p @ new)"
    using read_session_rows_text[OF ok(2,3) p(2)] p(1) new by simp
  obtain ps where ps: "map_res (hydrateSessionEvent env) (session_rows (led_rows l0) p) = Inr ps"
    using a r0 by (auto simp: child_anchor_def Let_def)
  obtain qs where qs: "map_res (hydrateSessionEvent env) (session_rows (led_rows l0) p @ new) = Inr (ps @ qs)"
    using well_written_hydrates[OF w, of p] ps by (auto simp: new map_res_append)
  obtain k where k: "find_index (attaches_to (JStr (r_causation_id r)) (ftext (hd events) ''session_id'')) ps = Some k"
    and fork: "fork_names (nth_event events 1) parent"
      "branches_at (nth_event events 1) ps (JStr (r_causation_id (session_rows (led_rows l0) p ! k)))"
    using a r0 ps by (auto simp: child_anchor_def Let_def guards_Cons split: option.splits)
  have kl: "k < length ps" using find_index_append[OF k] by blast
  then have kr: "k < length (session_rows (led_rows l0) p)" using ps by (auto simp: map_res_Inr_iff dest: list_all2_lengthD)
  have f: "nth_event (events @ later) 1 = nth_event events 1"
    using fork(1) by (intro nth_event_append) (auto simp: fork_names_def ftext_def js_get_def)
  have b: "branches_at (nth_event events 1) (ps @ qs) c \<longleftrightarrow> branches_at (nth_event events 1) ps c" for c
    using fork(2) by (auto simp: branches_at_def branch_event_append)
  show ?thesis
    using a r0 r1 ps qs k find_index_append[OF k, of qs] kr f b \<open>events \<noteq> []\<close>
    by (simp add: child_anchor_def Let_def bind_res_simps nth_append)
qed

lemma session_anchor_grows:
  assumes "ledger_ok l0" "ledger_ok l" "small l" "prefix (led_rows l0) (led_rows l)" "well_written env (led_rows l)"
    "session_anchor env l0 r events = Inr ()" "events \<noteq> []"
  shows "session_anchor env l r (events @ later) = Inr ()"
  using assms child_anchor_grows[OF assms(1-5) _ assms(7)]
  by (auto simp: session_anchor_def Let_def split: if_splits)

subsection \<open>Replaying from an entry\<close>

definition full_state :: "session_env \<Rightarrow> ledger \<Rightarrow> string \<Rightarrow> session res" where
  "full_state env l i = bind_res (readSession env l (JStr i) 1 MAX_SAFE_INTEGER) (fold_session env None)"

definition entry_at :: "session_env \<Rightarrow> ledger \<Rightarrow> string \<Rightarrow> cached \<Rightarrow> bool" where
  "entry_at env l i c \<longleftrightarrow>
     (\<exists>events. readSession env l (JStr i) 1 MAX_SAFE_INTEGER = Inr events \<and> fold_session env None events = Inr (ca_state c) \<and>
        ca_correlation c = first_correlation (session_rows (led_rows l) i) \<and>
        ca_ids c = event_ids events \<and> ca_last c = last_opt (event_ids events))"

definition entry_ok :: "session_env \<Rightarrow> row list \<Rightarrow> string \<Rightarrow> cached \<Rightarrow> bool" where
  "entry_ok env rows i c \<longleftrightarrow> identifier_ok i \<and> (\<exists>l. ledger_ok l \<and> prefix (led_rows l) rows \<and> entry_at env l i c)"

lemma identifier_text: "identifier_ok i \<Longrightarrow> i \<noteq> []"
  by (simp add: identifier_ok_def)

lemma readSession_Inr:
  assumes "ledger_ok l" "small l" "identifier_ok i"
  shows "readSession env l (JStr i) 1 MAX_SAFE_INTEGER = Inr events \<longleftrightarrow>
     (\<exists>c. assertUniformSessionTrace (session_rows (led_rows l) i) = Inr c) \<and>
     map_res (hydrateSessionEvent env) (session_rows (led_rows l) i) = Inr events \<and>
     assertSessionCausation env l (session_rows (led_rows l) i) events = Inr ()"
  using read_session_rows_text[OF assms(1,2) identifier_text[OF assms(3)]] assms(3)
  by (auto simp: readSession_def read_session_rows_def parse_identifier_def)

lemma fold_session_length:
  assumes "fold_session env None events = Inr s"
  shows "ss_sequence s = int (length events)"
proof -
  obtain es where es: "map_res (parse_event env) events = Inr es" "apply_events (se_sha env) empty_session es = Inr s"
    using assms by (auto simp: fold_session_def replaySessionEvents_def)
  then have "length es = length events" by (auto simp: map_res_Inr_iff dest: list_all2_lengthD)
  with apply_events_shape[OF es(2)] show ?thesis by simp
qed

text \<open>The state of a session is a view of its events, so it can be brought up to date event by event.\<close>

lemma fold_session_append:
  "fold_session env None xs = Inr s \<Longrightarrow> fold_session env None (xs @ ys) = fold_session env (Some s) ys"
  unfolding fold_session_def by (rule incremental_replay)

interpretation session_view: incremental_view "\<lambda>_. True" "\<lambda>s e. fold_session env (Some s) [e]"
    "\<lambda>s events. fold_session env None events = Inr s" for env
  by unfold_locales (simp add: fold_session_append)

lemma fold_session_stepwise:
  "fold_session env (Some s) events = Inr s' \<longleftrightarrow> fold_res (\<lambda>s e. fold_session env (Some s) [e]) s events = Inr s'"
proof (induction events arbitrary: s)
  case (Cons e es)
  have "fold_session env (Some s) (e # es) = Inr s' \<longleftrightarrow>
     (\<exists>s1. fold_session env (Some s) [e] = Inr s1 \<and> fold_session env (Some s1) es = Inr s')"
    unfolding fold_session_def replaySessionEvents_def by (cases "parse_event env e"; cases "map_res (parse_event env) es") auto
  then show ?case using Cons.IH by simp
qed (simp add: fold_session_def replaySessionEvents_def bind_res_simps)

lemma uniform_trace_Inr:
  "assertUniformSessionTrace rows = Inr c \<longleftrightarrow>
     c = first_correlation rows \<and> (\<forall>d. c = Some d \<longrightarrow> (\<forall>r \<in> set rows. r_correlation_id r = d))"
  by (cases "first_correlation rows") (auto simp: assertUniformSessionTrace_def guards_Cons list_ex_iff)

lemma uniform_trace_append:
  assumes "pre \<noteq> []" "new \<noteq> []" "\<forall>r \<in> set (pre @ new). r_correlation_id r \<noteq> []" "assertUniformSessionTrace pre = Inr c"
  shows "(\<exists>d. assertUniformSessionTrace (pre @ new) = Inr d) \<longleftrightarrow> assertUniformSessionTrace new = Inr c"
proof -
  have "first_correlation xs = Some (r_correlation_id (hd xs))" if "xs \<noteq> []" "set xs \<subseteq> set (pre @ new)" for xs
    using that assms(3) by (cases xs) (auto simp: first_correlation_def)
  then obtain h g where f: "first_correlation pre = Some h" "first_correlation new = Some g"
    "first_correlation (pre @ new) = Some h" and g: "g = r_correlation_id (hd new)"
    using assms(1,2) by simp
  then have c: "c = Some h" "\<forall>r \<in> set pre. r_correlation_id r = h"
    using assms(4) by (simp_all add: uniform_trace_Inr)
  have "hd new \<in> set new" using assms(2) by simp
  then show ?thesis unfolding uniform_trace_Inr f c(1) using c(2) g by auto
qed

lemma assertSessionCausation_Inr:
  "rows \<noteq> [] \<Longrightarrow> assertSessionCausation env l rows events = Inr () \<longleftrightarrow>
     session_anchor env l (hd rows) events = Inr () \<and> causation_chain [] (zip rows events)"
  by (cases rows) (auto simp: assertSessionCausation_def guards_Cons)

lemma event_ids_nonempty: "0 < ss_sequence s \<Longrightarrow> fold_session env None events = Inr s \<Longrightarrow> events \<noteq> []"
  by (auto dest: fold_session_length)

lemma readSession_grows:
  assumes ok: "ledger_ok l0" "ledger_ok l" "small l" and pre: "prefix (led_rows l0) (led_rows l)" and w: "well_written env (led_rows l)"
    and i: "identifier_ok i" and r0: "readSession env l0 (JStr i) 1 MAX_SAFE_INTEGER = Inr events" and ne: "events \<noteq> []"
    and new: "session_rows (led_rows l) i = session_rows (led_rows l0) i @ new" "map_res (hydrateSessionEvent env) new = Inr later"
  shows "readSession env l (JStr i) 1 MAX_SAFE_INTEGER = Inr xs \<longleftrightarrow>
     xs = events @ later \<and> (new \<noteq> [] \<longrightarrow> assertUniformSessionTrace new = Inr (first_correlation (session_rows (led_rows l0) i))) \<and>
     causation_chain (event_ids events) (zip new later)"
proof -
  let ?pre = "session_rows (led_rows l0) i"
  have s0: "small l0" using small_prefix[OF ok(3) pre] .
  obtain c where u: "assertUniformSessionTrace ?pre = Inr c" and h: "map_res (hydrateSessionEvent env) ?pre = Inr events"
    and cs: "assertSessionCausation env l0 ?pre events = Inr ()"
    using r0 readSession_Inr[OF ok(1) s0 i] by blast
  have len: "length ?pre = length events" using h by (auto simp: map_res_Inr_iff dest: list_all2_lengthD)
  then have p: "?pre \<noteq> []" using ne by auto
  then have a: "session_anchor env l (hd (?pre @ new)) (events @ later) = Inr ()"
    using cs session_anchor_grows[OF ok pre w _ ne] by (simp add: assertSessionCausation_Inr)
  have chain: "causation_chain [] (zip (?pre @ new) (events @ later)) \<longleftrightarrow> causation_chain (event_ids events) (zip new later)"
    using cs p len by (simp add: zip_append causation_chain_append assertSessionCausation_Inr map_snd_zip)
  have nonempty: "\<forall>r \<in> set (?pre @ new). r_correlation_id r \<noteq> []"
    using well_written_session[OF w, of _ i] new(1) by metis
  have "c = first_correlation ?pre" using u by (simp add: uniform_trace_Inr)
  then have uni: "(\<exists>d. assertUniformSessionTrace (?pre @ new) = Inr d) \<longleftrightarrow> (new \<noteq> [] \<longrightarrow> assertUniformSessionTrace new = Inr (first_correlation ?pre))"
    using uniform_trace_append[OF p _ nonempty u] u by (cases "new = []") auto
  have hyd: "map_res (hydrateSessionEvent env) (?pre @ new) = Inr (events @ later)"
    using h new(2) by (simp add: map_res_append bind_res_simps)
  show ?thesis
    using readSession_Inr[OF ok(2,3) i, of env xs] p a chain uni hyd new(1) by (auto simp: assertSessionCausation_Inr)
qed

lemma MAX_SAFE_pos: "1 \<le> MAX_SAFE_INTEGER" "MAX_SAFE_INTEGER = int (nat MAX_SAFE_INTEGER)"
  by (simp_all add: MAX_SAFE_INTEGER_def)

lemma read_rest:
  assumes "ledger_ok l" "small l" "i \<noteq> []" "n \<le> length (led_rows l)"
  shows "readStream l (JStr AGGREGATE_TYPE) (JStr i) (int n + 1) MAX_SAFE_INTEGER = Inr (drop n (session_rows (led_rows l) i))"
proof -
  have n: "Suc n \<le> nat MAX_SAFE_INTEGER" "length (led_rows l) < nat MAX_SAFE_INTEGER"
    using assms(2,4) by (simp_all add: small_def)
  have "int n + 1 = int (Suc n)" by simp
  then have "readStream l (JStr AGGREGATE_TYPE) (JStr i) (int n + 1) MAX_SAFE_INTEGER =
      Inr (take (Suc (nat MAX_SAFE_INTEGER) - Suc n) (drop n (session_rows (led_rows l) i)))"
    using read_stream_slice[OF assms(1) AGGREGATE_TYPE_text assms(3), of "Suc n" "nat MAX_SAFE_INTEGER"] n
      MAX_SAFE_pos(2) by (simp add: session_rows_def add.commute)
  then show ?thesis using n session_rows_length[of "led_rows l" i] by simp
qed

lemma entry_of_prefix:
  assumes "entry_ok env (led_rows l) i c" "0 < ss_sequence (ca_state c)" "ledger_ok l" "small l" "well_written env (led_rows l)"
  obtains l0 events new later where "ledger_ok l0" "prefix (led_rows l0) (led_rows l)" "identifier_ok i"
    "readSession env l0 (JStr i) 1 MAX_SAFE_INTEGER = Inr events" "fold_session env None events = Inr (ca_state c)" "events \<noteq> []"
    "ca_correlation c = first_correlation (session_rows (led_rows l0) i)" "ca_ids c = event_ids events"
    "ca_last c = last_opt (event_ids events)" "session_rows (led_rows l) i = session_rows (led_rows l0) i @ new"
    "map_res (hydrateSessionEvent env) new = Inr later"
    "readStream l (JStr AGGREGATE_TYPE) (JStr i) (ss_sequence (ca_state c) + 1) MAX_SAFE_INTEGER = Inr new"
proof -
  obtain l0 events where l0: "ledger_ok l0" "prefix (led_rows l0) (led_rows l)" "identifier_ok i"
    and r: "readSession env l0 (JStr i) 1 MAX_SAFE_INTEGER = Inr events" and f: "fold_session env None events = Inr (ca_state c)"
    and cs: "ca_correlation c = first_correlation (session_rows (led_rows l0) i)" "ca_ids c = event_ids events"
    "ca_last c = last_opt (event_ids events)"
    using assms(1) by (auto simp: entry_ok_def entry_at_def)
  obtain new where new: "session_rows (led_rows l) i = session_rows (led_rows l0) i @ new"
    using session_rows_prefix[OF l0(2)] by blast
  have h: "map_res (hydrateSessionEvent env) (session_rows (led_rows l0) i) = Inr events"
    using r readSession_Inr[OF l0(1) small_prefix[OF assms(4) l0(2)] l0(3)] by blast
  then have len: "length (session_rows (led_rows l0) i) = length events" by (auto simp: map_res_Inr_iff dest: list_all2_lengthD)
  obtain later where later: "map_res (hydrateSessionEvent env) new = Inr later"
    using well_written_hydrates[OF assms(5), of i] by (auto simp: new map_res_append)
  have "ss_sequence (ca_state c) = int (length events)" using fold_session_length[OF f] .
  moreover have "length events \<le> length (led_rows l)"
    using len session_rows_length[of "led_rows l" i] by (simp add: new)
  ultimately have "readStream l (JStr AGGREGATE_TYPE) (JStr i) (ss_sequence (ca_state c) + 1) MAX_SAFE_INTEGER = Inr new"
    using read_rest[OF assms(3,4) identifier_text[OF l0(3)], of "length events"] len new by simp
  with that l0 r f event_ids_nonempty[OF assms(2) f] cs new later show thesis by blast
qed

lemma replay_increment_correct:
  assumes ok: "entry_ok env (led_rows (so_ledger st)) i c" "0 < ss_sequence (ca_state c)" "ledger_ok (so_ledger st)"
    "small (so_ledger st)" "well_written env (led_rows (so_ledger st))"
  shows "snd (replay_increment env st i c) = Inr s \<longleftrightarrow> full_state env (so_ledger st) i = Inr s" (is ?same)
    and "fst (replay_increment env st i c) = st \<or>
      (\<exists>d. fst (replay_increment env st i c) = put_cache st i d \<and> ca_revision d = so_revision st \<and> entry_ok env (led_rows (so_ledger st)) i d)"
      (is ?effect)
proof -
  let ?l = "so_ledger st"
  obtain l0 events new later where l0: "ledger_ok l0" "prefix (led_rows l0) (led_rows ?l)" "identifier_ok i"
    and r: "readSession env l0 (JStr i) 1 MAX_SAFE_INTEGER = Inr events" and f: "fold_session env None events = Inr (ca_state c)"
    and ne: "events \<noteq> []"
    and cs: "ca_correlation c = first_correlation (session_rows (led_rows l0) i)" "ca_ids c = event_ids events"
      "ca_last c = last_opt (event_ids events)"
    and new: "session_rows (led_rows ?l) i = session_rows (led_rows l0) i @ new" "map_res (hydrateSessionEvent env) new = Inr later"
    and rd: "readStream ?l (JStr AGGREGATE_TYPE) (JStr i) (ss_sequence (ca_state c) + 1) MAX_SAFE_INTEGER = Inr new"
    using entry_of_prefix[OF ok] by metis
  note grows = readSession_grows[OF l0(1) ok(3,4) l0(2) ok(5) l0(3) r ne new]
  have fold: "fold_session env None (events @ later) = fold_session env (Some (ca_state c)) later"
    using fold_session_append[OF f] .
  have len: "length new = length later" using new(2) by (auto simp: map_res_Inr_iff dest: list_all2_lengthD)
  have chain: "incremental_chain (ca_last c) (ca_ids c) (zip new later) = Inr z \<longleftrightarrow>
      causation_chain (event_ids events) (zip new later) \<and> z = (last_opt (event_ids (events @ later)), event_ids (events @ later))" for z
    using incremental_chain_iff[of "event_ids events" "zip new later" z] cs ne len by (simp add: map_snd_zip)
  have full: "full_state env ?l i = Inr x \<longleftrightarrow> fold_session env (Some (ca_state c)) later = Inr x \<and>
      (new \<noteq> [] \<longrightarrow> assertUniformSessionTrace new = Inr (ca_correlation c)) \<and> causation_chain (event_ids events) (zip new later)" for x
    by (auto simp: full_state_def grows fold cs(1))
  have nil: "new = [] \<Longrightarrow> later = []" using len by simp
  have nofold: "fold_session env (Some t) [] = Inr t" for t
    by (simp add: fold_session_def replaySessionEvents_def bind_res_simps)
  define d where "d x = \<lparr>ca_state = x, ca_revision = so_revision st, ca_correlation = ca_correlation c,
      ca_last = last_opt (event_ids (events @ later)), ca_ids = event_ids (events @ later)\<rparr>" for x
  have run: "replay_increment env st i c = (put_cache st i (d x), Inr x)" if "new \<noteq> []" "full_state env ?l i = Inr x" for x
    using that full[of x] chain[of "(last_opt (event_ids (events @ later)), event_ids (events @ later))"] new(2) rd
    by (simp add: replay_increment_def bind_res_simps guards.simps d_def)
  have stop: "\<exists>e. replay_increment env st i c = (st, Inl e)" if "new \<noteq> []" "\<And>x. full_state env ?l i \<noteq> Inr x"
    using that full chain new(2) rd
    by (auto simp: replay_increment_def bind_res_simps guards_Cons split: sum.splits)
  have idle: "replay_increment env st i c = (st, Inr (ca_state c))" "full_state env ?l i = Inr (ca_state c)" if "new = []"
    using that full[of "ca_state c"] nil nofold rd by (simp_all add: replay_increment_def)
  show ?same
  proof (cases "new = []")
    case False
    then show ?thesis using run stop by (cases "full_state env ?l i") force+
  qed (use idle in auto)
  have "entry_ok env (led_rows ?l) i (d x)" if "new \<noteq> []" "full_state env ?l i = Inr x" for x
  proof -
    have "readSession env ?l (JStr i) 1 MAX_SAFE_INTEGER = Inr (events @ later)"
      using that(2) full[of x] grows[of "events @ later"] cs(1) by simp
    moreover have "fold_session env None (events @ later) = Inr x" using that(2) full[of x] fold by simp
    moreover have "first_correlation (session_rows (led_rows ?l) i) = ca_correlation c"
      using new(1) cs(1) r ne readSession_Inr[OF l0(1) small_prefix[OF ok(4) l0(2)] l0(3)]
      by (cases "session_rows (led_rows l0) i") (auto simp: first_correlation_def)
    ultimately show ?thesis using l0(3) ok(3) by (auto simp: entry_ok_def entry_at_def d_def)
  qed
  moreover have "ca_revision (d x) = so_revision st" for x by (simp add: d_def)
  ultimately show ?effect
    using run stop idle(1) by (cases "new = []"; cases "full_state env ?l i") (simp, simp, metis fst_conv Inl_Inr_False, metis fst_conv)
qed

lemma replay_full_correct:
  assumes "ledger_ok (so_ledger st)" "small (so_ledger st)" "identifier_ok i"
  shows "snd (replay_full env st i MAX_SAFE_INTEGER) = Inr s \<longleftrightarrow> full_state env (so_ledger st) i = Inr s" (is ?same)
    and "fst (replay_full env st i MAX_SAFE_INTEGER) = st \<or>
      (\<exists>d. so_transaction st = None \<and> fst (replay_full env st i MAX_SAFE_INTEGER) = put_cache (evict st i) i d \<and>
         ca_revision d = so_revision st \<and> entry_ok env (led_rows (so_ledger st)) i d)" (is ?effect)
proof -
  let ?l = "so_ledger st"
  have first: "readStream ?l (JStr AGGREGATE_TYPE) (JStr i) 1 1 = Inr (take 1 (session_rows (led_rows ?l) i))"
    using read_stream_slice[OF assms(1) AGGREGATE_TYPE_text identifier_text[OF assms(3)], of 1 1] by (simp add: session_rows_def)
  have fc: "first_correlation (take (Suc 0) rows) = first_correlation rows" for rows
    by (cases rows) (simp_all add: first_correlation_def)
  show ?same
    by (auto simp: replay_full_def full_state_def first split: sum.splits)
  show ?effect
  proof (cases "full_state env ?l i")
    case (Inl e)
    then show ?thesis by (auto simp: replay_full_def full_state_def bind_res_def split: sum.splits)
  next
    case (Inr s)
    then obtain events where e: "readSession env ?l (JStr i) 1 MAX_SAFE_INTEGER = Inr events" "fold_session env None events = Inr s"
      by (auto simp: full_state_def)
    let ?d = "\<lparr>ca_state = s, ca_revision = so_revision st, ca_correlation = first_correlation (session_rows (led_rows ?l) i),
        ca_last = last_opt (event_ids events), ca_ids = event_ids events\<rparr>"
    have "entry_ok env (led_rows ?l) i ?d" using e assms(1,3) by (auto simp: entry_ok_def entry_at_def)
    moreover have "fst (replay_full env st i MAX_SAFE_INTEGER) = (if so_transaction st = None then put_cache (evict st i) i ?d else st)"
      using e by (simp add: replay_full_def first fc)
    ultimately show ?thesis by (metis cached.select_convs(2))
  qed
qed

subsection \<open>The invariant of the store\<close>

definition base_rows :: "store \<Rightarrow> row list" where
  "base_rows st = (case so_transaction st of None \<Rightarrow> led_rows (so_ledger st) | Some rows \<Rightarrow> rows)"

definition store_ok :: "session_env \<Rightarrow> store \<Rightarrow> bool" where
  "store_ok env st \<longleftrightarrow>
     ledger_ok (so_ledger st) \<and> well_written env (led_rows (so_ledger st)) \<and>
     prefix (base_rows st) (led_rows (so_ledger st)) \<and> rows_ok (base_rows st) \<and>
     (\<forall>(i, c) \<in> set (so_cache st). ca_revision c \<le> so_revision st \<and>
        (ca_revision c = so_revision st \<longrightarrow> entry_ok env (base_rows st) i c))"

text \<open>An operation that only changes the cache, and only by entries of the current ledger.\<close>

definition cache_step :: "session_env \<Rightarrow> store \<Rightarrow> store \<Rightarrow> bool" where
  "cache_step env st st' \<longleftrightarrow>
     so_ledger st' = so_ledger st \<and> so_actor st' = so_actor st \<and> so_revision st' = so_revision st \<and> so_transaction st' = so_transaction st \<and>
     (\<forall>(i, c) \<in> set (so_cache st'). (i, c) \<in> set (so_cache st) \<or>
        (ca_revision c = so_revision st \<and> entry_ok env (base_rows st) i c))"

lemma cache_step_refl [simp]: "cache_step env st st"
  by (auto simp: cache_step_def)

lemma cache_step_base: "cache_step env st st' \<Longrightarrow> base_rows st' = base_rows st"
  by (auto simp: cache_step_def base_rows_def split: option.splits)

lemma cache_step_ledger: "cache_step env st st' \<Longrightarrow> so_ledger st' = so_ledger st"
  by (simp add: cache_step_def)

lemma cache_step_trans: "cache_step env st st1 \<Longrightarrow> cache_step env st1 st2 \<Longrightarrow> cache_step env st st2"
  using cache_step_base[of env st st1] by (fastforce simp: cache_step_def)

lemma cache_step_ok: "cache_step env st st' \<Longrightarrow> store_ok env st \<Longrightarrow> store_ok env st'"
  using cache_step_base[of env st st'] by (fastforce simp: cache_step_def store_ok_def)

lemma set_assign_subset: "set (assign m k v) \<subseteq> insert (k, v) (set m)"
  by (induction m k v rule: assign.induct) auto

lemma put_cache_step: "entry_ok env (base_rows st) i d \<Longrightarrow> ca_revision d = so_revision st \<Longrightarrow> cache_step env st (put_cache st i d)"
  using set_assign_subset by (fastforce simp: cache_step_def put_cache_def)

lemma evict_step [simp]: "cache_step env st (evict st i)"
  by (auto simp: cache_step_def evict_def dest: list.set_sel(2)[rotated])

lemma drop_cache_step [simp]: "cache_step env st (drop_cache st i)"
  by (auto simp: cache_step_def drop_cache_def)

lemma replay_correct:
  assumes "store_ok env st" "small (so_ledger st)" "identifier_ok i"
  shows "snd (replay env st (JStr i) MAX_SAFE_INTEGER full) = Inr s \<longleftrightarrow> full_state env (so_ledger st) i = Inr s"
    and "cache_step env st (fst (replay env st (JStr i) MAX_SAFE_INTEGER full))"
proof -
  define st1 where "st1 = (if so_transaction st \<noteq> None then drop_cache st i else st)"
  have st1: "cache_step env st st1" by (simp add: st1_def)
  then have same: "so_ledger st1 = so_ledger st" "so_transaction st1 = so_transaction st" "base_rows st1 = base_rows st"
    using cache_step_base[OF st1] by (simp_all add: cache_step_def)
  have l1: "ledger_ok (so_ledger st1)" "small (so_ledger st1)" "well_written env (led_rows (so_ledger st1))"
    using assms(1,2) by (simp_all add: same store_ok_def)
  have replay_eq: "replay env st (JStr i) MAX_SAFE_INTEGER full = cached_replay env st1 i MAX_SAFE_INTEGER full"
    using assms(3) by (simp add: replay_def parse_identifier_def st1_def)
  note whole = replay_full_correct[OF l1(1,2) assms(3), of env]
  have whole_step: "cache_step env st (fst (replay_full env st1 i MAX_SAFE_INTEGER))"
    using whole(2)
  proof (elim disjE exE conjE)
    fix d assume d: "so_transaction st1 = None" "fst (replay_full env st1 i MAX_SAFE_INTEGER) = put_cache (evict st1 i) i d"
      "entry_ok env (led_rows (so_ledger st1)) i d" "ca_revision d = so_revision st1"
    have "base_rows (evict st1 i) = led_rows (so_ledger st1)"
      using cache_step_base[OF evict_step] d(1) by (simp add: base_rows_def)
    moreover have "so_revision (evict st1 i) = so_revision st1" by (simp add: evict_def)
    ultimately have "cache_step env (evict st1 i) (put_cache (evict st1 i) i d)" using d(3,4) put_cache_step by simp
    then show ?thesis using cache_step_trans[OF cache_step_trans[OF st1 evict_step]] d(2) by simp
  qed (use st1 in simp)
  have "(snd (replay env st (JStr i) MAX_SAFE_INTEGER full) = Inr s \<longleftrightarrow> full_state env (so_ledger st) i = Inr s) \<and>
      cache_step env st (fst (replay env st (JStr i) MAX_SAFE_INTEGER full))"
  proof (cases "\<exists>c. map_of (so_cache st1) i = Some c \<and> \<not> full \<and> so_transaction st1 = None \<and> ca_revision c = so_revision st1 \<and>
      0 < ss_sequence (ca_state c)")
    case True
    then obtain c where c: "map_of (so_cache st1) i = Some c" "\<not> full" "so_transaction st1 = None" "ca_revision c = so_revision st1"
      "0 < ss_sequence (ca_state c)" by blast
    then have "replay env st (JStr i) MAX_SAFE_INTEGER full = replay_increment env st1 i c"
      unfolding replay_eq cached_replay_def by simp
    moreover have base: "base_rows st1 = led_rows (so_ledger st1)" using c(3) by (simp add: base_rows_def)
    moreover have "entry_ok env (led_rows (so_ledger st1)) i c"
      using cache_step_ok[OF st1 assms(1)] map_of_SomeD[OF c(1)] c(4) base by (auto simp: store_ok_def)
    moreover note replay_increment_correct[OF this c(5) l1]
    ultimately show ?thesis using st1 same cache_step_trans[OF st1 put_cache_step] by auto
  next
    case False
    then have "replay env st (JStr i) MAX_SAFE_INTEGER full = replay_full env st1 i MAX_SAFE_INTEGER"
      unfolding replay_eq by (auto simp: cached_replay_def split: option.splits)
    then show ?thesis using whole(1) whole_step same by simp
  qed
  then show "snd (replay env st (JStr i) MAX_SAFE_INTEGER full) = Inr s \<longleftrightarrow> full_state env (so_ledger st) i = Inr s"
    and "cache_step env st (fst (replay env st (JStr i) MAX_SAFE_INTEGER full))" by simp_all
qed

end
