(* ===== verification/SessionAppend.thy ===== *)
theory SessionAppend
  imports SessionSound
begin

text \<open>
  What the session store writes it can read back. The schemas are parameters; their law is that a schema
  only validates: what it accepts it returns, up to the order of keys, whatever the order of keys was; and
  that an event has a text identifier and a specification a session and an authority. Under this law every
  row an append commits hydrates to the event that was given, up to the order of keys.
\<close>

subsection \<open>Documents up to the order of keys\<close>

definition schema_laws :: "session_env \<Rightarrow> bool" where
  "schema_laws env \<longleftrightarrow>
     (\<forall>x d. json_ok x \<longrightarrow> se_event env x = Inr d \<longrightarrow>
        json_ok d \<and> stableValue d = stableValue x \<and> is_text (js_get d ''event_id'') \<and>
        (\<forall>y. json_ok y \<longrightarrow> stableValue y = stableValue x \<longrightarrow> (\<exists>d'. se_event env y = Inr d'))) \<and>
     (\<forall>x d. json_ok x \<longrightarrow> se_spec env x = Inr d \<longrightarrow>
        json_ok d \<and> stableValue d = stableValue x \<and> is_str (js_get d ''session_id'') \<and> is_str (js_get d ''authority_ref''))"

definition same_document :: "js \<Rightarrow> js \<Rightarrow> bool" where
  "same_document d e \<longleftrightarrow> json_ok d \<and> json_ok e \<and> stableValue d = stableValue e"

lemma json_value_strict:
  "is_strict v \<Longrightarrow> json_value v = v"
  "is_strict_items xs \<Longrightarrow> json_items xs = xs"
  "is_strict_fields fs \<Longrightarrow> json_members fs = fs"
  by (induction v and xs and fs rule: json_value_json_items_json_members.induct) (auto simp: is_strict_items_iff is_strict_fields_iff)

lemma reduced_stable [simp]:
  "reduced (stableValue v) \<longleftrightarrow> reduced v"
  "reduced_items (stable_items xs) \<longleftrightarrow> reduced_items xs"
  "reduced_fields (stable_fields fs) \<longleftrightarrow> reduced_fields fs"
  by (induction v and xs and fs rule: stableValue_stable_items_stable_fields.induct) (auto simp: reduced_fields_iff)

lemma json_ok_stable_iff [simp]: "json_ok (stableValue v) \<longleftrightarrow> json_ok v"
  by (simp add: json_ok_def)

lemma stable_leaf [simp]:
  "stableValue v = JStr s \<longleftrightarrow> v = JStr s" "stableValue v = JNum n \<longleftrightarrow> v = JNum n"
  "stableValue v = JNull \<longleftrightarrow> v = JNull" "stableValue v = JUndef \<longleftrightarrow> v = JUndef"
  by (cases v; simp)+

lemma same_leaf:
  assumes "stableValue v = stableValue w"
  shows "v = JStr s \<longleftrightarrow> w = JStr s" "v = JNum n \<longleftrightarrow> w = JNum n" "v = JNull \<longleftrightarrow> w = JNull" "v = JUndef \<longleftrightarrow> w = JUndef"
  using assms stable_leaf by metis+

lemma js_text_stable [simp]: "js_text (stableValue v) = js_text v"
  by (cases v) simp_all

lemma js_int_stable [simp]: "js_int (stableValue v) = js_int v"
  by (cases v) simp_all

lemma wf_get: "wf_js v \<Longrightarrow> wf_js (js_get v k)"
  by (cases v) (auto simp: js_get_def wf_fields_iff split: option.split dest!: map_of_SomeD)

lemma same_get:
  assumes "wf_js d" "wf_js e" "stableValue d = stableValue e"
  shows "stableValue (js_get d k) = stableValue (js_get e k)"
  using assms js_get_stable by metis

lemma same_documentD:
  assumes "same_document d e"
  shows "ftext d k = ftext e k" "fint d k = fint e k" "event_of d = event_of e"
    "stableValue (js_get d k) = stableValue (js_get e k)" "stableValue (js_get (js_get d k) k') = stableValue (js_get (js_get e k) k')"
    "js_get d k = JStr s \<longleftrightarrow> js_get e k = JStr s" "js_get d k = JNum n \<longleftrightarrow> js_get e k = JNum n"
proof -
  have w: "wf_js d" "wf_js e" "stableValue d = stableValue e" using assms by (simp_all add: same_document_def json_ok_def)
  note g = same_get[OF w]
  show "stableValue (js_get d k) = stableValue (js_get e k)" using g .
  show "stableValue (js_get (js_get d k) k') = stableValue (js_get (js_get e k) k')"
    using same_get[OF wf_get[OF w(1)] wf_get[OF w(2)] g] .
  show "ftext d k = ftext e k" for k using g[of k] js_text_stable by (metis ftext_def)
  moreover show "fint d k = fint e k" for k using g[of k] js_int_stable by (metis fint_def)
  ultimately show "event_of d = event_of e" using g by (simp add: event_of_def)
  show "js_get d k = JStr s \<longleftrightarrow> js_get e k = JStr s" "js_get d k = JNum n \<longleftrightarrow> js_get e k = JNum n"
    using same_leaf[OF g[of k]] by blast+
qed

lemma same_document_get3:
  assumes "same_document d e"
  shows "stableValue (js_get (js_get (js_get d a) b) c) = stableValue (js_get (js_get (js_get e a) b) c)"
proof -
  have w: "wf_js d" "wf_js e" using assms by (simp_all add: same_document_def json_ok_def)
  show ?thesis
    using same_get[OF wf_get[OF wf_get[OF w(1)]] wf_get[OF wf_get[OF w(2)]] same_documentD(5)[OF assms]] .
qed

lemma sensitive_iff_clean:
  "assertNoSensitiveFields p v = Inr () \<longleftrightarrow> clean SENSITIVE_KEYS v"
  "sensitive_items p n xs = Inr () \<longleftrightarrow> clean_items SENSITIVE_KEYS xs"
  "sensitive_members p fs = Inr () \<longleftrightarrow> clean_fields SENSITIVE_KEYS fs"
  by (induction p v and p n xs and p fs rule: assertNoSensitiveFields_sensitive_items_sensitive_members.induct)
    (auto split: sum.splits)

lemma schema_same: "schema_laws env \<Longrightarrow> json_ok x \<Longrightarrow> se_event env x = Inr d \<Longrightarrow> same_document d x"
  unfolding schema_laws_def same_document_def by blast

lemma schema_json: "schema_laws env \<Longrightarrow> json_ok x \<Longrightarrow> se_event env x = Inr d \<Longrightarrow> json_ok d"
  unfolding schema_laws_def by blast

lemma schema_spec_same: "schema_laws env \<Longrightarrow> json_ok x \<Longrightarrow> se_spec env x = Inr d \<Longrightarrow> same_document d x"
  unfolding schema_laws_def same_document_def by blast

lemma schema_event_id: "schema_laws env \<Longrightarrow> json_ok x \<Longrightarrow> se_event env x = Inr d \<Longrightarrow> is_text (js_get d ''event_id'')"
  unfolding schema_laws_def by blast

lemma schema_spec_json:
  "schema_laws env \<Longrightarrow> json_ok x \<Longrightarrow> se_spec env x = Inr d \<Longrightarrow>
     json_ok d \<and> is_str (js_get d ''session_id'') \<and> is_str (js_get d ''authority_ref'')"
  unfolding schema_laws_def by blast

lemma schema_again:
  assumes "schema_laws env" "json_ok x" "se_event env x = Inr d" "json_ok y" "stableValue y = stableValue d"
  shows "\<exists>d'. se_event env y = Inr d' \<and> same_document d' d"
proof -
  have x: "stableValue d = stableValue x" using schema_same[OF assms(1-3)] by (simp add: same_document_def)
  then obtain d' where d': "se_event env y = Inr d'" using assms unfolding schema_laws_def by metis
  then have "same_document d' y" using schema_same[OF assms(1,4)] by blast
  then show ?thesis using d' schema_json[OF assms(1-3)] assms(5) by (auto simp: same_document_def)
qed

subsection \<open>Rows the store writes\<close>

lemma hydrate_placed [simp]: "hydrateSessionEvent env (r\<lparr>r_position := n\<rparr>) = hydrateSessionEvent env r"
  by (simp add: hydrateSessionEvent_def decode_envelope_def row_operation_def)

definition written :: "row \<Rightarrow> js \<Rightarrow> bool" where
  "written r e \<longleftrightarrow> holds_event r e \<and> row_operation r = js_get e ''operation_id'' \<and> r_correlation_id r \<noteq> []"

lemma normalizeEvent_written:
  assumes "normalizeEvent e s n = Inr c" "fst s = AGGREGATE_TYPE"
  shows "written c e"
proof -
  have h: "holds_event c e" using normalizeEvent_holds[OF assms(1)] .
  have head: "check_event_header e (fst s) = Inr ()" using assms(1) by (auto simp: normalizeEvent_def)
  then have op: "js_get e ''operation_id'' = JNull \<or> is_text (js_get e ''operation_id'')"
    and co: "is_text (js_get e ''correlation_id'')"
    by (auto simp: check_event_header_def requireString_def)
  have "row_operation c = js_get e ''operation_id''"
    using op h by (cases "js_get e ''operation_id''") (auto simp: row_operation_def holds_event_def)
  moreover have "js_get e ''correlation_id'' = JStr (r_correlation_id c)" using h by (simp add: holds_event_def)
  then have "r_correlation_id c \<noteq> []" using co by auto
  ultimately show ?thesis using h by (simp add: written_def)
qed

definition document_of :: "session_env \<Rightarrow> js \<Rightarrow> bool" where
  "document_of env d \<longleftrightarrow> (\<exists>x. json_ok x \<and> se_event env x = Inr d)"

lemma stable_singleton [simp]: "stableValue (JObj [(k, JStr s)]) = JObj [(k, JStr s)]"
  by simp

lemma stableJson_parses:
  assumes "json_ok d"
  shows "parse_json (session_stableJson d) = Some (stableValue d)"
  using parse_canonical[OF assms] json_value_strict(1)[of d] assms by (simp add: session_stableJson_def json_ok_def)

lemma written_hydrates:
  assumes laws: "schema_laws env" and doc: "document_of env d"
    and w: "written r (ledger_event (se_sha env) i correlation actor (c, d))"
    and st: "stream_of r = (AGGREGATE_TYPE, i)"
    and d: "js_get d ''session_id'' = JStr i" "js_get d ''sequence'' = JNum (int (r_sequence r))" "assertNoSensitiveFields p d = Inr ()"
  shows "\<exists>e. hydrateSessionEvent env r = Inr e \<and> same_document e d"
proof -
  obtain x where x: "json_ok x" "se_event env x = Inr d" using doc by (auto simp: document_of_def)
  have ok: "json_ok d" using schema_json[OF laws x] .
  obtain e where e: "se_event env (stableValue d) = Inr e" "same_document e d"
    using schema_again[OF laws x, of "stableValue d"] ok by auto
  note same = same_documentD[OF e(2)]
  have row: "r_event_type r = LEDGER_EVENT_TYPE" "r_event_id r = ledgerEventId (se_sha env) i (ftext d ''event_id'')"
    "js_get (r_payload r) ''session_event_json'' = JStr (session_stableJson d)" "row_operation r = operation_of d"
    using w by (auto simp: written_def holds_event_def ledger_event_def event_text_def js_get_def Let_def)
  have "decode_envelope r = Inr (stableValue d)"
    using row st stableJson_parses[OF ok] by (simp add: decode_envelope_def stream_of_def)
  moreover have "clean SENSITIVE_KEYS e"
    using d(3) e(2) stable_clean by (metis same_document_def sensitive_iff_clean(1))
  moreover have "js_get e ''session_id'' = JStr i" "js_get e ''sequence'' = JNum (int (r_sequence r))"
    using d same(6,7) by blast+
  moreover have "operation_of e = operation_of d"
  proof (cases "ftext d ''event_type'' = ''tool.operation_linked''")
    case True
    then have "stableValue (operation_of e) = stableValue (operation_of d)" using same(1,5) by (simp add: operation_of_def)
    moreover have "operation_of d = JNull \<or> (\<exists>s. operation_of d = JStr s)"
      using row(4)[symmetric] by (auto simp: row_operation_def split: option.splits)
    ultimately show ?thesis by auto
  qed (use same(1) in \<open>simp add: operation_of_def\<close>)
  moreover have "ftext e ''event_id'' = ftext d ''event_id''" "ftext e ''session_id'' = i"
    using same(1) d(1) by (simp_all add: ftext_def)
  ultimately have "hydrateSessionEvent env r = Inr e"
    using e(1) row st by (simp add: hydrateSessionEvent_def bind_res_simps sensitive_iff_clean guards.simps stream_of_def)
  then show ?thesis using e(2) by blast
qed

subsection \<open>What a request commits\<close>

definition new_documents :: "session_env \<Rightarrow> string \<Rightarrow> int \<Rightarrow> js list \<Rightarrow> bool" where
  "new_documents env i expected parsed \<longleftrightarrow> parsed \<noteq> [] \<and>
     (\<forall>k < length parsed. document_of env (parsed ! k) \<and> assertNoSensitiveFields ''event'' (parsed ! k) = Inr () \<and>
        js_get (parsed ! k) ''session_id'' = JStr i \<and> js_get (parsed ! k) ''sequence'' = JNum (expected + int k + 1))"

lemma parse_new_events_documents:
  assumes "parse_new_events env i expected events = Inr parsed" "\<forall>x \<in> set events. json_ok x" "events \<noteq> []"
  shows "new_documents env i expected parsed"
proof -
  have p: "map_res (se_event env) events = Inr parsed" "\<forall>ie \<in> set (enumerate 0 parsed). check_new_event i expected ie = Inr ()"
    using assms(1) by (auto simp: parse_new_events_def)
  have l: "list_all2 (\<lambda>x d. se_event env x = Inr d) events parsed" using p(1) by (simp add: map_res_Inr_iff)
  have ne: "parsed \<noteq> []" using l assms(3) by auto
  have "document_of env (parsed ! k)" if k: "k < length parsed" for k
  proof -
    have "k < length events" "se_event env (events ! k) = Inr (parsed ! k)"
      using l k by (auto simp: list_all2_conv_all_nth)
    then show ?thesis using assms(2) unfolding document_of_def by (metis nth_mem)
  qed
  moreover have "check_new_event i expected (k, parsed ! k) = Inr ()" if "k < length parsed" for k
  proof -
    have "(k, parsed ! k) \<in> set (enumerate 0 parsed)"
      using that by (force simp: in_set_conv_nth nth_enumerate_eq)
    then show ?thesis using p(2) by blast
  qed
  ultimately show ?thesis using ne by (auto simp: new_documents_def check_new_event_def guards_Cons)
qed

definition causes_of :: "js \<Rightarrow> js list \<Rightarrow> js list" where
  "causes_of causation parsed = causation # map (\<lambda>e. js_get e ''event_id'') (butlast parsed)"

definition commits :: "session_env \<Rightarrow> string \<Rightarrow> string \<Rightarrow> row \<Rightarrow> js \<times> js \<Rightarrow> bool" where
  "commits env i correlation r ce \<longleftrightarrow>
     stream_of r = (AGGREGATE_TYPE, i) \<and> r_correlation_id r = correlation \<and> correlation \<noteq> [] \<and> JStr (r_causation_id r) = fst ce \<and>
     (\<exists>e. hydrateSessionEvent env r = Inr e \<and> same_document e (snd ce))"

lemma commits_placed [simp]: "commits env i correlation (r\<lparr>r_position := n\<rparr>) ce \<longleftrightarrow> commits env i correlation r ce"
  by (simp add: commits_def)

lemma place_commits: "list_all2 (commits env i correlation) cs ds \<Longrightarrow> list_all2 (commits env i correlation) (place n cs) ds"
  by (induction cs ds arbitrary: n rule: list_all2_induct) auto

lemma prepareAppend_written:
  assumes "prepareAppend reg rq = Inr p" "rq_aggregate_type rq = JStr AGGREGATE_TYPE"
  shows "list_all2 written (pr_candidates p) (js_items (rq_events rq))"
proof -
  let ?s = "(js_text (rq_aggregate_type rq), js_text (rq_aggregate_id rq))"
  obtain cs where "map_res (\<lambda>(i, e). normalizeEvent e ?s
        ((case rq_expected_version rq of JNum n \<Rightarrow> nat n | _ \<Rightarrow> 0) + i + 1)) (enumerate 0 (js_items (rq_events rq))) = Inr cs"
    and "pr_candidates p = cs"
    using assms(1) by (auto simp: prepareAppend_def Let_def split: if_splits)
  moreover have "normalizeEvent e ?s k = Inr c \<Longrightarrow> written c e" for e k c
    using normalizeEvent_written[of e ?s k c] assms(2) by simp
  ultimately show ?thesis using map_res_enumerate_all2[where P = written] by metis
qed

lemma request_commits:
  assumes laws: "schema_laws env" and docs: "new_documents env i expected parsed"
    and p: "prepareAppend reg (ledger_request (se_sha env) i expected parsed correlation causation actor) = Inr p"
  shows "pr_stream p = (AGGREGATE_TYPE, i)" "int (pr_expected p) = expected" "prepared_ok p"
    "list_all2 (commits env i correlation) (pr_candidates p) (zip (causes_of causation parsed) parsed)"
proof -
  let ?rq = "ledger_request (se_sha env) i expected parsed correlation causation actor"
  note ok = prepareAppend_ok[OF p]
  show str: "pr_stream p = (AGGREGATE_TYPE, i)" and ex: "int (pr_expected p) = expected" and po: "prepared_ok p"
    using ok by (simp_all add: ledger_request_def)
  have w: "list_all2 written (pr_candidates p) (map (ledger_event (se_sha env) i correlation actor) (zip (causes_of causation parsed) parsed))"
    using prepareAppend_written[OF p] by (simp add: ledger_request_def causes_of_def)
  have len: "length (causes_of causation parsed) = length parsed"
    using docs by (cases parsed) (simp_all add: causes_of_def new_documents_def)
  have num: "numbered (AGGREGATE_TYPE, i) (pr_expected p) (pr_candidates p)" using po str by (simp add: prepared_ok_def)
  show "list_all2 (commits env i correlation) (pr_candidates p) (zip (causes_of causation parsed) parsed)"
  proof (rule list_all2_all_nthI)
    show l: "length (pr_candidates p) = length (zip (causes_of causation parsed) parsed)"
      using list_all2_lengthD[OF w] by simp
    fix k assume k: "k < length (pr_candidates p)"
    let ?r = "pr_candidates p ! k" and ?d = "parsed ! k" and ?c = "causes_of causation parsed ! k"
    have kp: "k < length parsed" using k l len by simp
    have wk: "written ?r (ledger_event (se_sha env) i correlation actor (?c, ?d))"
      using list_all2_nthD[OF w k] k l len by simp
    have "map r_sequence (pr_candidates p) ! k = [Suc (pr_expected p)..<Suc (pr_expected p + length (pr_candidates p))] ! k"
      using num by (simp add: numbered_def del: upt_Suc)
    then have sq: "r_sequence ?r = Suc (pr_expected p + k)" "stream_of ?r = (AGGREGATE_TYPE, i)"
      using num k by (simp_all add: numbered_def del: upt_Suc)
    have d: "document_of env ?d" "assertNoSensitiveFields ''event'' ?d = Inr ()" "js_get ?d ''session_id'' = JStr i"
      "js_get ?d ''sequence'' = JNum (int (r_sequence ?r))"
      using docs kp ex sq by (simp_all add: new_documents_def)
    have "r_correlation_id ?r = correlation" "JStr (r_causation_id ?r) = ?c" "correlation \<noteq> []"
      using wk by (auto simp: written_def holds_event_def ledger_event_def js_get_def Let_def)
    then show "commits env i correlation ?r (zip (causes_of causation parsed) parsed ! k)"
      using written_hydrates[OF laws d(1) wk sq(2) d(3,4,2)] sq(2) kp len by (simp add: commits_def)
  qed
qed

subsection \<open>Preparing an append\<close>

lemma parse_identifier_Inr: "parse_identifier v = Inr i \<longleftrightarrow> v = JStr i \<and> identifier_ok i"
  by (auto simp: parse_identifier_def split: js.splits if_splits)

lemma check_append_Inr:
  assumes "check_append env st rq = Inr (i, actor, parsed, current, correlation)"
  obtains rows durable expected where "sa_session rq = JStr i" "identifier_ok i" "sa_expected rq = JNum expected" "0 \<le> expected"
    "js_items (sa_events rq) \<noteq> []" "parse_new_events env i expected (js_items (sa_events rq)) = Inr parsed"
    "read_session_rows (so_ledger st) (JStr i) = Inr rows" "map_res (hydrateSessionEvent env) rows = Inr current"
    "assertUniformSessionTrace rows = Inr durable" "assertSessionCausation env (so_ledger st) rows current = Inr ()"
    "resolve_correlation (se_sha env) durable (sa_correlation rq) i = Inr correlation"
proof -
  from assms obtain rows durable where
    "parse_identifier (sa_session rq) = Inr i" "is_int_ge 0 (sa_expected rq)"
    "case sa_events rq of JArr xs \<Rightarrow> xs \<noteq> [] | _ \<Rightarrow> False"
    "parse_new_events env i (js_int (sa_expected rq)) (js_items (sa_events rq)) = Inr parsed"
    "read_session_rows (so_ledger st) (JStr i) = Inr rows" "map_res (hydrateSessionEvent env) rows = Inr current"
    "assertUniformSessionTrace rows = Inr durable" "assertSessionCausation env (so_ledger st) rows current = Inr ()"
    "resolve_correlation (se_sha env) durable (sa_correlation rq) i = Inr correlation"
    by (auto simp: check_append_def)
  then show thesis
    using that[of "js_int (sa_expected rq)" rows durable]
    by (cases "sa_expected rq"; cases "sa_events rq") (auto simp: parse_identifier_Inr)
qed

lemma prepare_Inr:
  assumes "session_prepareAppend env st rq pending = (st1, Inr lrq)"
  obtains i actor parsed current correlation where
    "check_append env st rq = Inr (i, actor, parsed, current, correlation)"
    "check_continuation env st i (js_int (sa_expected rq)) current parsed = (st1, Inr ())"
    "js_int (sa_expected rq) = 0 \<Longrightarrow> check_anchor env (so_ledger st) i parsed
       (first_causation (sa_causation rq) current (js_int (sa_expected rq)) i) correlation pending = Inr ()"
    "lrq = ledger_request (se_sha env) i (js_int (sa_expected rq)) parsed correlation
       (first_causation (sa_causation rq) current (js_int (sa_expected rq)) i) actor"
proof (cases "check_append env st rq")
  case (Inr x)
  obtain i actor parsed current correlation where x: "x = (i, actor, parsed, current, correlation)" by (cases x)
  show thesis
    using assms that[of i actor parsed current correlation] Inr
    unfolding session_prepareAppend_def x Let_def by (auto split: sum.splits prod.splits if_splits)
qed (use assms in \<open>simp add: session_prepareAppend_def\<close>)

lemma check_continuation_step:
  assumes "store_ok env st" "small (so_ledger st)" "identifier_ok i"
  shows "cache_step env st (fst (check_continuation env st i expected current parsed))"
  using replay_correct(2)[OF assms, of False] by (auto simp: check_continuation_def split: prod.splits sum.splits)

lemma prepare_step:
  assumes "store_ok env st" "small (so_ledger st)"
  shows "cache_step env st (fst (session_prepareAppend env st rq pending))"
proof -
  have id: "identifier_ok i" if "check_append env st rq = Inr (i, actor, parsed, current, correlation)" for i actor parsed current correlation
    using check_append_Inr[OF that] by metis
  show ?thesis
  proof (cases "check_append env st rq")
    case (Inr x)
    obtain i actor parsed current correlation where x: "x = (i, actor, parsed, current, correlation)" by (cases x)
    have "fst (session_prepareAppend env st rq pending) = fst (check_continuation env st i (js_int (sa_expected rq)) current parsed)"
      unfolding session_prepareAppend_def Inr x by (simp add: Let_def split: prod.split sum.split)
    then show ?thesis using check_continuation_step[OF assms] id Inr x by simp
  qed (simp add: session_prepareAppend_def)
qed

text \<open>A prepared request that commits keeps the table readable.\<close>

definition readable :: "session_env \<Rightarrow> prepared \<Rightarrow> bool" where
  "readable env p \<longleftrightarrow> prepared_ok p \<and> (\<forall>c \<in> set (pr_candidates p). r_correlation_id c \<noteq> [] \<and> (\<exists>e. hydrateSessionEvent env c = Inr e))"

lemma prepare_readable:
  assumes "schema_laws env" "json_ok (sa_events rq)" "session_prepareAppend env st rq pending = (st1, Inr lrq)"
    "prepareAppend reg lrq = Inr p"
  shows "readable env p"
proof -
  obtain i actor parsed current correlation where ca: "check_append env st rq = Inr (i, actor, parsed, current, correlation)"
    and l: "lrq = ledger_request (se_sha env) i (js_int (sa_expected rq)) parsed correlation
       (first_causation (sa_causation rq) current (js_int (sa_expected rq)) i) actor"
    using prepare_Inr[OF assms(3)] by metis
  obtain expected where p: "js_items (sa_events rq) \<noteq> []" "parse_new_events env i expected (js_items (sa_events rq)) = Inr parsed"
    and ex: "js_int (sa_expected rq) = expected"
    using check_append_Inr[OF ca] js_int.simps(1) by metis
  have "\<forall>x \<in> set (js_items (sa_events rq)). json_ok x"
    using assms(2) by (cases "sa_events rq") auto
  then have docs: "new_documents env i expected parsed" using parse_new_events_documents[OF p(2) _ p(1)] by blast
  note c = request_commits[OF assms(1) docs assms(4)[unfolded l ex]]
  show ?thesis
    using c(3) list_all2_left[OF c(4)] by (fastforce simp: readable_def commits_def)
qed

lemma append_rows_readable:
  assumes "rows_ok rows" "readable env p" "well_written env rows"
    "append_rows catalog rows (pr_stream p) (pr_expected p) (pr_candidates p) = Inr (rows', r)"
  shows "rows_ok rows' \<and> prefix rows rows' \<and> well_written env rows'"
proof (cases "ar_idempotent r")
  case True
  then show ?thesis using append_rows_idempotent[OF assms(4)] assms(1,3) by simp
next
  case False
  have po: "prepared_ok p" using assms(2) by (simp add: readable_def)
  note g = append_rows_fresh[OF assms(1) po assms(4) False]
  have "r_correlation_id x \<noteq> [] \<and> (\<exists>e. hydrateSessionEvent env x = Inr e)" if "x \<in> set (place (length rows) (pr_candidates p))" for x
    using set_place[OF that] assms(2) by (auto simp: readable_def)
  then show ?thesis using g(2,3) assms(3) by (auto simp: well_written_def prefix_def)
qed

lemma append_prepared_readable:
  "append_prepared catalog rows ps = Inr (rows', rs) \<Longrightarrow> rows_ok rows \<Longrightarrow> well_written env rows \<Longrightarrow> \<forall>p \<in> set ps. readable env p \<Longrightarrow>
     prefix rows rows' \<and> well_written env rows'"
proof (induction ps arbitrary: rows rs)
  case (Cons p ps)
  obtain rows1 r rs' where a: "append_rows catalog rows (pr_stream p) (pr_expected p) (pr_candidates p) = Inr (rows1, r)"
    and b: "append_prepared catalog rows1 ps = Inr (rows', rs')"
    using Cons.prems(1) by (auto split: sum.splits)
  have g: "rows_ok rows1" "prefix rows rows1" "well_written env rows1"
    using append_rows_readable[OF Cons.prems(2) _ Cons.prems(3) a] Cons.prems(4) by auto
  with Cons.IH[OF b] Cons.prems(4) show ?case using prefix_order.trans by auto
qed simp

subsection \<open>Steps of the store\<close>

definition fork_json :: "fork_request \<Rightarrow> bool" where
  "fork_json fk \<longleftrightarrow> json_ok (fk_parent fk) \<and> json_ok (fk_spec fk) \<and> json_ok (fk_child_request fk) \<and> json_ok (fk_at fk)"

lemma plan_fork_Inr:
  assumes "plan_fork env l fk = Inr p"
  obtains source current parent t where
    "fork_source env l fk = Inr source" "readSession env l (fk_parent fk) 1 MAX_SAFE_INTEGER = Inr current"
    "fold_session env None current = Inr parent" "fork_authority env fk parent = Inr (fp_spec p)"
    "fork_position fk current parent (fp_spec p) = Inr (fp_sequence p)" "fork_trace env l fk = Inr t"
    "fp_anchor p = js_get (last source) ''event_id''" "fp_trace p = JStr t"
  using assms unfolding plan_fork_def by auto

lemma fork_authority_Inr:
  "fork_authority env fk parent = Inr spec \<longleftrightarrow>
     se_spec env (fk_spec fk) = Inr spec \<and> js_get spec ''parent_session_id'' = fk_parent fk \<and>
     js_get spec ''authority_ref'' = js_get (ss_spec parent) ''authority_ref'' \<and>
     js_get spec ''policy_ref'' = js_get (ss_spec parent) ''policy_ref'' \<and> fork_limits parent spec = Inr () \<and> fork_ids_ok fk"
  by (auto simp: fork_authority_def guards_Cons)

lemma is_str_json: "is_str v \<Longrightarrow> json_ok v"
  by (cases v) auto

lemma fork_events_json:
  assumes "schema_laws env" "fork_json fk" "plan_fork env l fk = Inr p"
  shows "json_ok (sa_events (fork_parent_append fk p))" "json_ok (sa_events (fork_child_append fk p))"
proof -
  obtain spec where spec: "se_spec env (fk_spec fk) = Inr spec" "fp_spec p = spec" "fork_ids_ok fk"
    using plan_fork_Inr[OF assms(3)] fork_authority_Inr by metis
  have s: "json_ok spec" "json_ok (js_get spec ''session_id'')" "json_ok (js_get spec ''authority_ref'')"
    using schema_spec_json[OF assms(1) _ spec(1)] assms(2) is_str_json by (auto simp: fork_json_def)
  have ids: "json_ok (js_get (fk_ids fk) ''attached'')" "json_ok (js_get (fk_ids fk) ''created'')" "json_ok (js_get (fk_ids fk) ''forked'')"
    "js_truthy (fk_child_request fk) \<Longrightarrow> json_ok (js_get (fk_ids fk) ''requested'')"
    using spec(3) is_str_json by (auto simp: fork_ids_ok_def)
  show "json_ok (sa_events (fork_parent_append fk p))" "json_ok (sa_events (fork_child_append fk p))"
    using s ids assms(2) spec(2) by (simp_all add: fork_parent_append_def fork_child_append_def new_event_def fork_json_def Let_def)
qed

inductive store_step :: "session_env \<Rightarrow> store \<Rightarrow> store \<Rightarrow> bool" for env where
  append: "json_ok (sa_events rq) \<Longrightarrow> store_step env st (fst (session_append env st rq))"
| fork: "fork_json fk \<Longrightarrow> store_step env st (fst (forkSession env st fk))"
| replay: "store_step env st (fst (replay env st i v full))"
| other_connection: "so_transaction st = None \<Longrightarrow> ledger_ok l \<Longrightarrow> prefix (led_rows (so_ledger st)) (led_rows l) \<Longrightarrow>
    well_written env (led_rows l) \<Longrightarrow> store_step env st (st\<lparr>so_ledger := l, so_revision := Suc (so_revision st)\<rparr>)"
| begin_transaction: "so_transaction st = None \<Longrightarrow> store_step env st (st\<lparr>so_transaction := Some (led_rows (so_ledger st))\<rparr>)"
| commit: "store_step env st (st\<lparr>so_transaction := None\<rparr>)"
| rollback: "so_transaction st = Some rows \<Longrightarrow>
    store_step env st (st\<lparr>so_ledger := (so_ledger st)\<lparr>led_rows := rows\<rparr>, so_transaction := None\<rparr>)"

inductive store_reach :: "session_env \<Rightarrow> store \<Rightarrow> store \<Rightarrow> bool" for env st0 where
  start: "store_reach env st0 st0"
| step: "store_reach env st0 st \<Longrightarrow> small (so_ledger st) \<Longrightarrow> store_step env st st' \<Longrightarrow> store_reach env st0 st'"

lemma entry_ok_prefix: "entry_ok env rows i c \<Longrightarrow> prefix rows rows' \<Longrightarrow> entry_ok env rows' i c"
  by (auto simp: entry_ok_def intro: prefix_order.trans)

lemma store_ok_grows:
  assumes "store_ok env st" "ledger_ok l" "prefix (led_rows (so_ledger st)) (led_rows l)" "well_written env (led_rows l)"
  shows "store_ok env (st\<lparr>so_ledger := l\<rparr>)"
proof -
  have b: "prefix (base_rows st) (base_rows (st\<lparr>so_ledger := l\<rparr>))"
    using assms(3) by (simp add: base_rows_def split: option.split)
  have "rows_ok (base_rows (st\<lparr>so_ledger := l\<rparr>))"
    using assms(1,2) by (auto simp: base_rows_def store_ok_def ledger_ok_def split: option.splits)
  moreover have "prefix (base_rows (st\<lparr>so_ledger := l\<rparr>)) (led_rows l)"
    using assms(1,3) by (auto simp: base_rows_def store_ok_def split: option.splits intro: prefix_order.trans)
  ultimately show ?thesis
    using assms entry_ok_prefix[OF _ b] by (fastforce simp: store_ok_def)
qed

lemma append_keeps_store:
  assumes "schema_laws env" "store_ok env st" "small (so_ledger st)" "json_ok (sa_events rq)"
  shows "store_ok env (fst (session_append env st rq))"
proof -
  obtain st1 r where pr: "session_prepareAppend env st rq None = (st1, r)" by fastforce
  have cs: "cache_step env st st1" using prepare_step[OF assms(2,3), of rq None] pr by simp
  then have ok1: "store_ok env st1" using cache_step_ok assms(2) by blast
  show ?thesis
  proof (cases r)
    case (Inl e)
    then show ?thesis using ok1 pr by (simp add: session_append_def)
  next
    case (Inr lrq)
    obtain l res where a: "ledger_append (se_registry env) (so_ledger st1) lrq = (l, res)" by fastforce
    have f: "fst (session_append env st rq) = st1\<lparr>so_ledger := l\<rparr>"
      using pr Inr a by (simp add: session_append_def split: sum.split)
    have lo: "ledger_ok (so_ledger st1)" "rows_ok (led_rows (so_ledger st1))" "well_written env (led_rows (so_ledger st1))"
      using ok1 by (simp_all add: store_ok_def ledger_ok_def)
    have "prefix (led_rows (so_ledger st1)) (led_rows l) \<and> well_written env (led_rows l)"
      using ledger_append_cases[OF a]
    proof (elim disjE exE conjE)
      fix p x assume p: "prepareAppend (se_registry env) lrq = Inr p"
        "append_rows (led_catalog (so_ledger st1)) (led_rows (so_ledger st1)) (pr_stream p) (pr_expected p) (pr_candidates p) =
          Inr (led_rows l, x)"
      have "readable env p" using prepare_readable[OF assms(1,4) _ p(1)] pr Inr by simp
      then show ?thesis using append_rows_readable[OF lo(2) _ lo(3) p(2)] by blast
    qed (use lo in simp)
    moreover have "ledger_ok l" using ledger_append_ok[OF lo(1) a] by blast
    ultimately show ?thesis using store_ok_grows[OF ok1] f by simp
  qed
qed

lemma fork_keeps:
  assumes "schema_laws env" "store_ok env st" "small (so_ledger st)" "fork_json fk"
  shows "store_ok env (fst (forkSession env st fk))"
proof (cases "plan_fork env (so_ledger st) fk")
  case (Inr p)
  obtain st1 r1 where p1: "session_prepareAppend env st (fork_parent_append fk p) None = (st1, r1)" by fastforce
  have c1: "cache_step env st st1" using prepare_step[OF assms(2,3), of "fork_parent_append fk p" None] p1 by simp
  then have ok1: "store_ok env st1" "so_ledger st1 = so_ledger st" using cache_step_ok cache_step_ledger assms(2) by metis+
  show ?thesis
  proof (cases r1)
    case (Inl e)
    then show ?thesis using ok1 p1 Inr by (simp add: forkSession_def)
  next
    case r1: (Inr parent)
    obtain st2 r2 where p2: "session_prepareAppend env st1 (fork_child_append fk p) (Some parent) = (st2, r2)" by fastforce
    have c2: "cache_step env st1 st2"
      using prepare_step[OF ok1(1), of "fork_child_append fk p" "Some parent"] assms(3) p2 ok1(2) by simp
    then have ok2: "store_ok env st2" "so_ledger st2 = so_ledger st" using cache_step_ok cache_step_ledger ok1 by metis+
    show ?thesis
    proof (cases r2)
      case (Inl e)
      then show ?thesis using ok2 p1 p2 r1 Inr by (simp add: forkSession_def)
    next
      case r2: (Inr child)
      obtain l res where a: "appendBatch (se_registry env) (so_ledger st2) [parent, child] = (l, res)" by fastforce
      have f: "fst (forkSession env st fk) = st2\<lparr>so_ledger := l\<rparr>"
        using p1 p2 r1 r2 Inr a by (simp add: forkSession_def split: sum.split)
      have lo: "ledger_ok (so_ledger st2)" "rows_ok (led_rows (so_ledger st2))" "well_written env (led_rows (so_ledger st2))"
        using ok2 by (simp_all add: store_ok_def ledger_ok_def)
      note json = fork_events_json[OF assms(1,4) Inr]
      have "prefix (led_rows (so_ledger st2)) (led_rows l) \<and> well_written env (led_rows l)"
        using appendBatch_cases[OF a]
      proof (elim disjE exE conjE)
        fix ps rs assume ps: "map_res (prepareAppend (se_registry env)) [parent, child] = Inr ps"
          "append_prepared (led_catalog (so_ledger st2)) (led_rows (so_ledger st2)) ps = Inr (led_rows l, rs)"
        obtain pp pc where pc: "prepareAppend (se_registry env) parent = Inr pp" "prepareAppend (se_registry env) child = Inr pc" "ps = [pp, pc]"
          using ps(1) by (auto split: sum.splits)
        have "readable env pp" using prepare_readable[OF assms(1) json(1) p1[unfolded r1] pc(1)] .
        moreover have "readable env pc" using prepare_readable[OF assms(1) json(2) p2[unfolded r2] pc(2)] .
        ultimately show ?thesis using append_prepared_readable[OF ps(2) lo(2,3)] pc(3) by simp
      qed (use lo in simp)
      moreover have "ledger_ok l" using appendBatch_ok[OF lo(1) a] by blast
      ultimately show ?thesis using store_ok_grows[OF ok2(1)] f by simp
    qed
  qed
qed (use assms(2) in \<open>simp add: forkSession_def\<close>)

lemma replay_step:
  assumes "store_ok env st" "small (so_ledger st)"
  shows "cache_step env st (fst (replay env st i v full))"
proof (cases "\<exists>k. i = JStr k \<and> identifier_ok k")
  case True
  then obtain k where k: "i = JStr k" "identifier_ok k" by blast
  show ?thesis
  proof (cases "v = MAX_SAFE_INTEGER")
    case False
    have "fst (replay_full env st1 k v) = st1" for st1
      using False by (auto simp: replay_full_def split: sum.split)
    then show ?thesis
      using False k by (simp add: replay_def parse_identifier_def cached_replay_def split: option.split)
  qed (use replay_correct(2)[OF assms k(2)] k(1) in simp)
next
  case False
  then have "\<exists>e. parse_identifier i = Inl e" by (cases "parse_identifier i") (auto simp: parse_identifier_Inr)
  then show ?thesis by (auto simp: replay_def)
qed

lemma store_step_keeps:
  assumes "schema_laws env" "store_step env st st'" "store_ok env st" "small (so_ledger st)"
  shows "store_ok env st'"
  using assms(2,3,4)
proof (induction rule: store_step.induct)
  case (other_connection st l)
  have base: "base_rows st = led_rows (so_ledger st)" using other_connection(1) by (simp add: base_rows_def)
  show ?case
    using other_connection by (fastforce simp: store_ok_def base_rows_def ledger_ok_def)
next
  case (begin_transaction st)
  then show ?case by (simp add: store_ok_def base_rows_def)
next
  case (commit st)
  then have "prefix (base_rows st) (led_rows (so_ledger st))" by (simp add: store_ok_def)
  then show ?case using commit(1) entry_ok_prefix by (fastforce simp: store_ok_def base_rows_def ledger_ok_def)
next
  case (rollback st rows)
  have b: "base_rows st = rows" using rollback(1) by (simp add: base_rows_def)
  then have "prefix rows (led_rows (so_ledger st))" using rollback(2) by (simp add: store_ok_def)
  then have "set rows \<subseteq> set (led_rows (so_ledger st))" "well_written env rows"
    using rollback(2) set_mono_prefix well_written_prefix unfolding store_ok_def by blast+
  then show ?case using rollback b by (auto simp: store_ok_def base_rows_def ledger_ok_def)
qed (use assms(1) append_keeps_store fork_keeps replay_step cache_step_ok in blast)+

lemma store_reach_ok:
  assumes "store_reach env st0 st" "schema_laws env" "store_ok env st0"
  shows "store_ok env st"
  using assms(1)
proof (induction rule: store_reach.induct)
  case (step st st')
  then show ?case using store_step_keeps[OF assms(2)] by blast
qed (rule assms(3))

text \<open>
  C3. The cache of replayed sessions is invisible: after any sequence of appends, forks, replays,
  transactions with commits and rollbacks, and writes of other connections, a replay, cached or full, returns
  a state exactly when reading the whole durable stream with all its lineage checks and folding it from the
  start returns that state.
\<close>

theorem replay_cache_coherent:
  assumes "schema_laws env" "store_ok env st0" "store_reach env st0 st" "small (so_ledger st)" "identifier_ok i"
  shows "snd (replay env st (JStr i) MAX_SAFE_INTEGER full) = Inr s \<longleftrightarrow>
     bind_res (readSession env (so_ledger st) (JStr i) 1 MAX_SAFE_INTEGER) (fold_session env None) = Inr s"
  using replay_correct(1)[OF store_reach_ok[OF assms(3,1,2)] assms(4,5)] by (simp add: full_state_def)

end
