(* ===== verification/SessionCommit.thy ===== *)
theory SessionCommit
  imports SessionAppend
begin

text \<open>
  An append that was prepared against one state of the ledger and commits in a later one extends exactly the
  stream it was checked against, and the longer stream reads and replays: lineage, trace and reducer checks
  made before the commit stay true after it, whatever other streams received in between.
\<close>

subsection \<open>Events up to the order of keys\<close>

lemma same_document_sym: "same_document d e \<Longrightarrow> same_document e d"
  by (simp add: same_document_def)

lemma attaches_same:
  assumes "same_document d e"
  shows "attaches_to (JStr c) i d \<longleftrightarrow> attaches_to (JStr c) i e"
proof -
  note same = same_documentD[OF assms]
  have "js_get (js_get d ''payload'') ''child_session_id'' = JStr i \<longleftrightarrow> js_get (js_get e ''payload'') ''child_session_id'' = JStr i"
    using same_leaf(1)[OF same(5)] by blast
  then show ?thesis using same(1,6) by (simp add: attaches_to_def)
qed

lemma fork_same:
  assumes "same_document d e"
  shows "fork_names d (JStr p) \<longleftrightarrow> fork_names e (JStr p)" "branch_event ps d = branch_event ps e"
proof -
  note same = same_documentD[OF assms]
  have "js_get (js_get d ''payload'') k = JStr v \<longleftrightarrow> js_get (js_get e ''payload'') k = JStr v"
    "js_get (js_get d ''payload'') k = JNum n \<longleftrightarrow> js_get (js_get e ''payload'') k = JNum n" for k v n
    using same_leaf(1,2)[OF same(5)] by blast+
  note leaf = this
  show "fork_names d (JStr p) \<longleftrightarrow> fork_names e (JStr p)" using leaf(1) same(1) by (simp add: fork_names_def)
  show "branch_event ps d = branch_event ps e"
  proof (cases "\<exists>n. js_get (js_get d ''payload'') ''parent_sequence'' = JNum n")
    case True
    then obtain n where n: "js_get (js_get d ''payload'') ''parent_sequence'' = JNum n" by blast
    then have "js_get (js_get e ''payload'') ''parent_sequence'' = JNum n" using leaf(2) by blast
    with n show ?thesis by (simp add: branch_event_def)
  next
    case False
    then have "\<nexists>n. js_get (js_get e ''payload'') ''parent_sequence'' = JNum n" using leaf(2) by simp
    with False show ?thesis by (auto simp: branch_event_def split: js.splits)
  qed
qed

lemma parse_event_same:
  assumes "schema_laws env" "document_of env d" "same_document e d"
  shows "parse_event env e = parse_event env d"
proof -
  obtain x where x: "json_ok x" "se_event env x = Inr d" using assms(2) by (auto simp: document_of_def)
  have j: "json_ok d" "json_ok e" "stableValue e = stableValue d" using assms(3) by (simp_all add: same_document_def)
  obtain d1 where d1: "se_event env d = Inr d1" "same_document d1 d" using schema_again[OF assms(1) x j(1)] by blast
  obtain e1 where e1: "se_event env e = Inr e1" "same_document e1 d" using schema_again[OF assms(1) x j(2,3)] by blast
  have "event_of d1 = event_of d" "event_of e1 = event_of d" using same_documentD(3) d1(2) e1(2) by blast+
  then show ?thesis using d1(1) e1(1) by (simp add: parse_event_def bind_res_simps)
qed

lemma fold_same:
  assumes "schema_laws env" "list_all2 (\<lambda>e d. document_of env d \<and> same_document e d) es ds"
  shows "fold_session env from es = fold_session env from ds"
proof -
  have "map_res (parse_event env) es = map_res (parse_event env) ds"
    using assms(2)
  proof (induction rule: list_all2_induct)
    case (Cons e es d ds)
    then have "parse_event env e = parse_event env d" using parse_event_same[OF assms(1)] by blast
    then show ?case using Cons by (simp split: sum.split)
  qed simp
  then show ?thesis by (simp add: fold_session_def replaySessionEvents_def)
qed

subsection \<open>The causation of new rows\<close>

definition hydrations :: "session_env \<Rightarrow> row list \<Rightarrow> js list" where
  "hydrations env rows = map (\<lambda>r. projr (hydrateSessionEvent env r)) rows"

lemma map_res_projr: "(\<And>x. x \<in> set xs \<Longrightarrow> \<exists>y. f x = Inr y) \<Longrightarrow> map_res f xs = Inr (map (\<lambda>x. projr (f x)) xs)"
  by (induction xs) (force split: sum.splits)+

lemma commits_hydrate:
  assumes "list_all2 (commits env i correlation) rows (zip causes ds)" "length causes = length ds"
  shows "map_res (hydrateSessionEvent env) rows = Inr (hydrations env rows)"
    "list_all2 same_document (hydrations env rows) ds"
    "\<forall>r \<in> set rows. r_correlation_id r = correlation \<and> stream_of r = (AGGREGATE_TYPE, i)"
    "map (\<lambda>r. JStr (r_causation_id r)) rows = causes" "rows \<noteq> [] \<Longrightarrow> correlation \<noteq> []"
proof -
  have len: "length rows = length ds" using list_all2_lengthD[OF assms(1)] assms(2) by simp
  have k: "commits env i correlation (rows ! k) (causes ! k, ds ! k)" if "k < length rows" for k
    using list_all2_nthD[OF assms(1) that] that assms(2) len by simp
  have all: "\<exists>c d. commits env i correlation r (c, d)" if "r \<in> set rows" for r
    using k that unfolding in_set_conv_nth by blast
  show "map_res (hydrateSessionEvent env) rows = Inr (hydrations env rows)"
    unfolding hydrations_def by (rule map_res_projr) (use all in \<open>auto simp: commits_def\<close>)
  show "list_all2 same_document (hydrations env rows) ds"
    using k len by (fastforce simp: list_all2_conv_all_nth hydrations_def commits_def)
  show "\<forall>r \<in> set rows. r_correlation_id r = correlation \<and> stream_of r = (AGGREGATE_TYPE, i)"
    using all by (auto simp: commits_def)
  show "map (\<lambda>r. JStr (r_causation_id r)) rows = causes"
    by (rule nth_equalityI) (use k len assms(2) in \<open>auto simp: commits_def\<close>)
  show "rows \<noteq> [] \<Longrightarrow> correlation \<noteq> []" using all[of "hd rows"] by (auto simp: commits_def)
qed

lemma chain_of_causes:
  assumes "map (\<lambda>r. JStr (r_causation_id r)) rows = map (\<lambda>e. js_get e ''event_id'') (e0 # butlast es)"
    "length rows = length es" "es \<noteq> []" "ids \<noteq> []" "last ids = ftext e0 ''event_id''"
  shows "causation_chain ids (zip rows es)"
  using assms
proof (induction es arbitrary: e0 ids rows)
  case (Cons e es)
  then obtain r rs where rows: "rows = r # rs" by (cases rows) auto
  have r: "r_causation_id r = last ids" using Cons.prems(1,5) by (simp add: rows ftext_def) (metis js_text.simps(1))
  show ?case
  proof (cases "es = []")
    case False
    then have "causation_chain (ids @ [ftext e ''event_id'']) (zip rs es)"
      using Cons.IH[of rs e "ids @ [ftext e ''event_id'']"] Cons.prems by (simp add: rows)
    then show ?thesis using r by (simp add: rows)
  qed (use r rows in simp)
qed simp

lemma event_id_text:
  assumes "schema_laws env" "document_of env d" "same_document e d"
  shows "js_get e ''event_id'' = js_get d ''event_id''" "js_get d ''event_id'' = JStr (ftext d ''event_id'')" "ftext d ''event_id'' \<noteq> []"
    "ftext e ''event_id'' = ftext d ''event_id''"
proof -
  obtain x where "json_ok x" "se_event env x = Inr d" using assms(2) by (auto simp: document_of_def)
  then have "is_text (js_get d ''event_id'')" using schema_event_id[OF assms(1)] by blast
  then obtain s where s: "js_get d ''event_id'' = JStr s" "s \<noteq> []" by (cases "js_get d ''event_id''") auto
  then show "js_get e ''event_id'' = js_get d ''event_id''" using same_documentD(6)[OF assms(3), of "''event_id''" s] by simp
  show "js_get d ''event_id'' = JStr (ftext d ''event_id'')" "ftext d ''event_id'' \<noteq> []" using s by (simp_all add: ftext_def)
  show "ftext e ''event_id'' = ftext d ''event_id''" using same_documentD(1)[OF assms(3)] .
qed

lemma new_documents_all: "new_documents env i n parsed \<Longrightarrow> d \<in> set parsed \<Longrightarrow> document_of env d"
  by (auto simp: new_documents_def in_set_conv_nth)

lemma hydrated_documents:
  assumes "new_documents env i n parsed" "list_all2 same_document es parsed"
  shows "list_all2 (\<lambda>e d. document_of env d \<and> same_document e d) es parsed"
  using assms by (auto simp: list_all2_conv_all_nth new_documents_def)

lemma new_chain:
  assumes laws: "schema_laws env" and docs: "new_documents env i n parsed"
    and c: "list_all2 (commits env i correlation) new (zip (causes_of causation parsed) parsed)"
    and first: "ids = [] \<or> causation = JStr (last ids) \<or>
      (ftext (hd parsed) ''event_type'' = ''child.attached'' \<and> (\<exists>k \<in> set ids. causation = JStr k))"
  shows "causation_chain ids (zip new (hydrations env new))"
proof -
  have len: "length (causes_of causation parsed) = length parsed"
    using docs by (cases parsed) (simp_all add: causes_of_def new_documents_def)
  note h = commits_hydrate[OF c len]
  have all2: "list_all2 (\<lambda>e d. document_of env d \<and> same_document e d) (hydrations env new) parsed"
    using hydrated_documents[OF docs h(2)] .
  then have ids: "map (\<lambda>e. js_get e ''event_id'') (hydrations env new) = map (\<lambda>e. js_get e ''event_id'') parsed"
    by (induction rule: list_all2_induct) (simp_all add: event_id_text(1)[OF laws])
  have ln: "length new = length parsed" using list_all2_lengthD[OF c] len by simp
  obtain d ds where parsed: "parsed = d # ds" using docs by (cases parsed) (auto simp: new_documents_def)
  obtain r rs where new: "new = r # rs" using ln parsed by (cases new) auto
  obtain e es where es: "hydrations env new = e # es" "es = hydrations env rs" by (simp add: new hydrations_def)
  have "same_document e d" using h(2) es(1) parsed by simp
  then have ty: "ftext e ''event_type'' = ftext d ''event_type''" by (rule same_documentD(1))
  have "causation = JStr (r_causation_id r)" using h(4) by (simp add: new causes_of_def)
  then have head: "ids = [] \<or> r_causation_id r = last ids \<or> (ftext e ''event_type'' = ''child.attached'' \<and> r_causation_id r \<in> set ids)"
    using first ty by (auto simp: parsed)
  have "causation_chain (ids @ [ftext e ''event_id'']) (zip rs es)"
  proof (cases "rs = []")
    case False
    have bl: "map (\<lambda>e. js_get e ''event_id'') (butlast (e # es)) = map (\<lambda>e. js_get e ''event_id'') (butlast parsed)"
      unfolding map_butlast using ids es(1) by simp
    have "es \<noteq> []" using False es(2) by (simp add: hydrations_def)
    moreover have "map (\<lambda>r. JStr (r_causation_id r)) rs = map (\<lambda>e. js_get e ''event_id'') (e # butlast es)"
      using h(4) bl \<open>es \<noteq> []\<close> by (simp add: new causes_of_def)
    ultimately show ?thesis
      using chain_of_causes[of rs e es "ids @ [ftext e ''event_id'']"] es(2) by (simp add: hydrations_def)
  qed simp
  then show ?thesis using head es(1) by (simp add: new)
qed

subsection \<open>The stream after a commit\<close>

definition continues :: "session_append_request \<Rightarrow> js list \<Rightarrow> js list \<Rightarrow> bool" where
  "continues rq old parsed \<longleftrightarrow>
     \<not> js_truthy (sa_causation rq) \<or> old = [] \<or> sa_causation rq = JStr (last (event_ids old)) \<or>
     (ftext (hd parsed) ''event_type'' = ''child.attached'' \<and> (\<exists>k \<in> set (event_ids old). sa_causation rq = JStr k))"

lemma hydrated_document:
  assumes "hydrateSessionEvent env r = Inr e"
  shows "document_of env e"
proof -
  obtain x where x: "decode_envelope r = Inr x" "se_event env x = Inr e" using assms by (auto simp: hydrateSessionEvent_def)
  then obtain t where "parse_json t = Some x" by (auto simp: decode_envelope_def split: if_splits js.splits option.splits)
  then have "json_ok x" using parse_json_ok by blast
  then show ?thesis using x(2) by (auto simp: document_of_def)
qed

lemma hydrated_event_id:
  assumes "schema_laws env" "map_res (hydrateSessionEvent env) rows = Inr events" "e \<in> set events"
  shows "js_get e ''event_id'' = JStr (ftext e ''event_id'') \<and> ftext e ''event_id'' \<noteq> []"
proof -
  obtain r where "hydrateSessionEvent env r = Inr e"
    using map_res_set[OF assms(2,3)] by blast
  then obtain x where "json_ok x" "se_event env x = Inr e" using hydrated_document by (force simp: document_of_def)
  then have "is_text (js_get e ''event_id'')" using schema_event_id[OF assms(1)] by blast
  then show ?thesis by (cases "js_get e ''event_id''") (auto simp: ftext_def)
qed

lemma first_causation_continues:
  assumes "schema_laws env" "map_res (hydrateSessionEvent env) rows = Inr old" "old \<noteq> []" "continues rq old parsed"
  shows "first_causation (sa_causation rq) old (int (length old)) i = JStr (last (event_ids old)) \<or>
    (ftext (hd parsed) ''event_type'' = ''child.attached'' \<and>
      (\<exists>k \<in> set (event_ids old). first_causation (sa_causation rq) old (int (length old)) i = JStr k))"
proof -
  have "nat (int (length old) - 1) = length old - 1" by simp
  then have "nth_event old (int (length old) - 1) = last old"
    using assms(3) by (cases old) (auto simp: nth_event_def last_conv_nth simp del: nat_minus_as_int)
  moreover have "js_get (last old) ''event_id'' = JStr (ftext (last old) ''event_id'')" "ftext (last old) ''event_id'' \<noteq> []"
    using hydrated_event_id[OF assms(1,2)] assms(3) by auto
  moreover have "last (event_ids old) = ftext (last old) ''event_id''" using assms(3) by (simp add: last_map)
  ultimately show ?thesis using assms(3,4) by (auto simp: first_causation_def continues_def)
qed

definition anchor_of :: "session_append_request \<Rightarrow> js list \<Rightarrow> string \<Rightarrow> js" where
  "anchor_of rq old i = first_causation (sa_causation rq) old (int (length old)) i"

lemma prepared_extends:
  assumes laws: "schema_laws env" and st: "store_ok env st" and sm: "small l3"
    and prep: "session_prepareAppend env st rq pending = (st1, Inr lrq)" and json: "json_ok (sa_events rq)"
    and l2: "ledger_ok l2" "prefix (led_rows (so_ledger st)) (led_rows l2)"
    and p: "prepareAppend reg lrq = Inr p"
    and app: "append_rows catalog (led_rows l2) (pr_stream p) (pr_expected p) (pr_candidates p) = Inr (led_rows l3, r)"
      "\<not> ar_idempotent r"
  obtains i old parsed correlation durable s s' where
    "sa_session rq = JStr i" "identifier_ok i" "readSession env (so_ledger st) (JStr i) 1 MAX_SAFE_INTEGER = Inr old"
    "fold_session env None old = Inr s" "sa_expected rq = JNum (int (length old))"
    "session_rows (led_rows l2) i = session_rows (led_rows (so_ledger st)) i" "led_rows l3 = led_rows l2 @ ar_events r"
    "session_rows (led_rows l3) i = session_rows (led_rows (so_ledger st)) i @ ar_events r"
    "map_res (se_event env) (js_items (sa_events rq)) = Inr parsed" "new_documents env i (int (length old)) parsed"
    "fold_session env (Some s) parsed = Inr s'"
    "assertUniformSessionTrace (session_rows (led_rows (so_ledger st)) i) = Inr durable"
    "resolve_correlation (se_sha env) durable (sa_correlation rq) i = Inr correlation"
    "list_all2 (commits env i correlation) (ar_events r) (zip (causes_of (anchor_of rq old i) parsed) parsed)"
    "old = [] \<Longrightarrow> check_anchor env (so_ledger st) i parsed (anchor_of rq old i) correlation pending = Inr ()"
    "ar_version r = length old + length parsed"
proof -
  let ?l = "so_ledger st"
  have l3: "led_rows l3 = led_rows l2 @ place (length (led_rows l2)) (pr_candidates p)"
    using append_rows_fresh(2)[OF _ _ app] l2(1) prepareAppend_ok(1)[OF p] by (simp add: ledger_ok_def)
  have lo: "ledger_ok ?l" "small ?l"
    using st small_prefix[OF sm] l2(2) l3 by (auto simp: store_ok_def intro: prefix_order.trans)
  obtain i actor parsed current correlation where ca: "check_append env st rq = Inr (i, actor, parsed, current, correlation)"
    and cc: "check_continuation env st i (js_int (sa_expected rq)) current parsed = (st1, Inr ())"
    and an: "js_int (sa_expected rq) = 0 \<Longrightarrow> check_anchor env ?l i parsed
       (first_causation (sa_causation rq) current (js_int (sa_expected rq)) i) correlation pending = Inr ()"
    and lrq: "lrq = ledger_request (se_sha env) i (js_int (sa_expected rq)) parsed correlation
       (first_causation (sa_causation rq) current (js_int (sa_expected rq)) i) actor"
    using prepare_Inr[OF prep] by metis
  obtain rows durable expected where ch: "sa_session rq = JStr i" "identifier_ok i" "sa_expected rq = JNum expected"
    "js_items (sa_events rq) \<noteq> []" "parse_new_events env i expected (js_items (sa_events rq)) = Inr parsed"
    "read_session_rows ?l (JStr i) = Inr rows" "map_res (hydrateSessionEvent env) rows = Inr current"
    "assertUniformSessionTrace rows = Inr durable" "assertSessionCausation env ?l rows current = Inr ()"
    "resolve_correlation (se_sha env) durable (sa_correlation rq) i = Inr correlation"
    using check_append_Inr[OF ca] by metis
  have rows: "rows = session_rows (led_rows ?l) i" using read_session_rows_text[OF lo identifier_text[OF ch(2)]] ch(6) by simp
  have docs: "new_documents env i expected parsed"
    using parse_new_events_documents[OF ch(5) _ ch(4)] json by (cases "sa_events rq") auto
  have ex: "js_int (sa_expected rq) = expected" using ch(3) by simp
  note cm = request_commits[OF laws docs p[unfolded lrq ex]]
  note fresh = append_rows_fresh[OF _ cm(3) app]
  have lenr: "length (pr_candidates p) = length parsed"
    using list_all2_lengthD[OF cm(4)] docs by (cases parsed) (auto simp: causes_of_def new_documents_def)
  obtain extra where extra: "session_rows (led_rows l2) i = session_rows (led_rows ?l) i @ extra"
    using session_rows_prefix[OF l2(2)] by blast
  have "pr_expected p = length (session_rows (led_rows l2) i)"
    using fresh(1) l2(1) cm(1) by (simp add: ledger_ok_def session_rows_def)
  then have e1: "expected = int (length (session_rows (led_rows ?l) i) + length extra)" using cm(2) extra by simp
  have len: "length current = length (session_rows (led_rows ?l) i)"
    using ch(7) rows by (auto simp: map_res_Inr_iff dest: list_all2_lengthD)
  then have cur: "expected = int (length current)" and ext: "extra = []"
    using cc e1 ex by (auto simp: check_continuation_def split: if_splits)
  obtain s s' where s: "replay env st (JStr i) MAX_SAFE_INTEGER False = (st1, Inr s)" "fold_session env (Some s) parsed = Inr s'"
    using cc cur ex by (auto simp: check_continuation_def split: prod.splits sum.splits)
  have rd: "readSession env ?l (JStr i) 1 MAX_SAFE_INTEGER = Inr current"
    using readSession_Inr[OF lo ch(2)] ch(7,8,9) rows by blast
  moreover have "full_state env ?l i = Inr s" using replay_correct(1)[OF st lo(2) ch(2), of False s] s(1) by simp
  ultimately have f: "fold_session env None current = Inr s" by (simp add: full_state_def bind_res_simps)
  have ar: "ar_events r = place (length (led_rows l2)) (pr_candidates p)"
    using fresh(4) l2(1) by (simp add: ledger_ok_def)
  have com: "list_all2 (commits env i correlation) (ar_events r) (zip (causes_of (anchor_of rq current i) parsed) parsed)"
    using place_commits[OF cm(4)] ar cur by (simp add: anchor_of_def)
  have "select_stream (ar_events r) (AGGREGATE_TYPE, i) = ar_events r"
    using list_all2_left[OF com] by (fastforce simp: select_stream_def commits_def filter_id_conv)
  then have r3: "session_rows (led_rows l3) i = session_rows (led_rows ?l) i @ ar_events r"
    using extra ext l3 ar by (simp add: session_rows_def select_stream_def)
  have "map_res (se_event env) (js_items (sa_events rq)) = Inr parsed" using ch(5) by (auto simp: parse_new_events_def)
  moreover have "ar_version r = length current + length parsed"
    using fresh(5) l2(1) cm(2) cur lenr by (simp add: ledger_ok_def)
  moreover have "current = [] \<Longrightarrow> check_anchor env ?l i parsed (anchor_of rq current i) correlation pending = Inr ()"
    using an cur ex by (simp add: anchor_of_def)
  ultimately show thesis
    using that[OF ch(1,2) rd f _ _ _ r3 _ _ s(2) _ ch(10) com] ch(3,8) docs cur extra ext l3 ar rows by simp
qed

subsection \<open>Reading the longer stream\<close>

lemma commits_uniform:
  assumes "\<forall>r \<in> set new. r_correlation_id r = c" "new \<noteq> []" "c \<noteq> []"
  shows "assertUniformSessionTrace new = Inr (Some c)"
  using assms by (cases new) (auto simp: uniform_trace_Inr first_correlation_def)

lemma extended_reads:
  assumes laws: "schema_laws env" and l: "ledger_ok l" "ledger_ok l3" "small l3" "prefix (led_rows l) (led_rows l3)" "well_written env (led_rows l3)"
    and i: "identifier_ok i" and rd: "readSession env l (JStr i) 1 MAX_SAFE_INTEGER = Inr old" and ne: "old \<noteq> []"
    and rows: "session_rows (led_rows l3) i = session_rows (led_rows l) i @ new"
    and docs: "new_documents env i n parsed"
    and c: "list_all2 (commits env i correlation) new (zip (causes_of (anchor_of rq old i) parsed) parsed)"
    and tr: "assertUniformSessionTrace (session_rows (led_rows l) i) = Inr durable"
      "resolve_correlation (se_sha env) durable (sa_correlation rq) i = Inr correlation"
    and cont: "continues rq old parsed"
  shows "readSession env l3 (JStr i) 1 MAX_SAFE_INTEGER = Inr (old @ hydrations env new)"
proof -
  have len: "length (causes_of (anchor_of rq old i) parsed) = length parsed"
    using docs by (cases parsed) (simp_all add: causes_of_def new_documents_def)
  note h = commits_hydrate[OF c len]
  have nn: "new \<noteq> []" using list_all2_lengthD[OF c] len docs by (auto simp: new_documents_def)
  have sm: "small l" using small_prefix[OF l(3,4)] .
  have hy: "map_res (hydrateSessionEvent env) (session_rows (led_rows l) i) = Inr old" using rd readSession_Inr[OF l(1) sm i] by blast
  then have pn: "session_rows (led_rows l) i \<noteq> []" using ne by auto
  then obtain r0 rest where r0: "session_rows (led_rows l) i = r0 # rest" by (cases "session_rows (led_rows l) i") auto
  have "r0 \<in> set (session_rows (led_rows l3) i)" using rows r0 by simp
  then have "r_correlation_id r0 \<noteq> []" using well_written_session[OF l(5)] by blast
  then have fc: "first_correlation (session_rows (led_rows l) i) = Some (r_correlation_id r0)" by (simp add: r0 first_correlation_def)
  then have "durable = Some (r_correlation_id r0)" using tr(1) iffD1[OF uniform_trace_Inr, THEN conjunct1] by metis
  then have cr: "correlation = r_correlation_id r0" using tr(2) by (auto simp: resolve_correlation_def split: if_splits)
  have "\<forall>r \<in> set new. r_correlation_id r = correlation" using h(3) by blast
  then have u: "assertUniformSessionTrace new = Inr (first_correlation (session_rows (led_rows l) i))"
    using commits_uniform[OF _ nn h(5)[OF nn]] fc cr by simp
  have "causation_chain (event_ids old) (zip new (hydrations env new))"
    using new_chain[OF laws docs c] first_causation_continues[OF laws hy ne cont, of i] by (simp add: anchor_of_def)
  then show ?thesis
    using readSession_grows[OF l(1,2,3,4,5) i rd ne rows h(1)] u by simp
qed

lemma new_child_anchor_Inr:
  assumes "new_child_anchor env l i parsed (JStr p) causation correlation pending = Inr ()" "ledger_ok l" "small l" "p \<noteq> []"
  obtains parents later att a where
    "map_res (hydrateSessionEvent env) (session_rows (led_rows l) p) = Inr parents"
    "(case pending of None \<Rightarrow> Inr [] | Some rq \<Rightarrow> map_res (pending_candidate env) (js_items (rq_events rq))) = Inr later"
    "find (\<lambda>c. attaches_to causation i (snd (snd c)))
       (map (\<lambda>(r, e). (JStr (r_correlation_id r), JStr (r_causation_id r), e)) (zip (session_rows (led_rows l) p) parents) @ later) = Some att"
    "fork_names (nth_event parsed 1) (JStr p)" "canonicalTraceId (se_sha env) (fst att) = Inr a"
    "canonicalTraceId (se_sha env) (JStr correlation) = Inr a" "branches_at (nth_event parsed 1) parents (fst (snd att))"
proof -
  note rd = read_session_rows_text[OF assms(2-4)]
  obtain parents where ps: "map_res (hydrateSessionEvent env) (session_rows (led_rows l) p) = Inr parents"
    using assms(1) by (auto simp: new_child_anchor_def Let_def rd)
  obtain later where later: "(case pending of None \<Rightarrow> Inr [] | Some rq \<Rightarrow> map_res (pending_candidate env) (js_items (rq_events rq))) = Inr later"
    using assms(1) ps by (auto simp: new_child_anchor_def Let_def rd simp del: split_paired_All split_paired_Ex)
  define cands where "cands = map (\<lambda>(r, e). (JStr (r_correlation_id r), JStr (r_causation_id r), e)) (zip (session_rows (led_rows l) p) parents) @ later"
  have go: "(case find (\<lambda>c. attaches_to causation i (snd (snd c))) cands of
        None \<Rightarrow> Inl (causation_fragmented ''child session causation anchor is invalid'')
      | Some attachment \<Rightarrow>
          if \<not> fork_names (nth_event parsed 1) (JStr p) then Inl (causation_fragmented ''child session causation anchor is invalid'')
          else bind_res (canonicalTraceId (se_sha env) (fst attachment)) (\<lambda>a.
               bind_res (canonicalTraceId (se_sha env) (JStr correlation)) (\<lambda>b.
               guards [(a \<noteq> b \<or> \<not> branches_at (nth_event parsed 1) parents (fst (snd attachment)),
                 causation_fragmented ''child session causation anchor is invalid'')]))) = Inr ()"
    using assms(1) unfolding new_child_anchor_def Let_def rd ps later bind_res_simps cands_def by simp
  obtain att where att: "find (\<lambda>c. attaches_to causation i (snd (snd c))) cands = Some att"
    using go by (cases "find (\<lambda>c. attaches_to causation i (snd (snd c))) cands") simp_all
  have "fork_names (nth_event parsed 1) (JStr p)" using go att by (simp split: if_splits)
  moreover from this go att obtain a where "canonicalTraceId (se_sha env) (fst att) = Inr a"
    "canonicalTraceId (se_sha env) (JStr correlation) = Inr a" "branches_at (nth_event parsed 1) parents (fst (snd att))"
    by (auto simp: guards_Cons)
  ultimately show thesis using that[OF ps later att[unfolded cands_def]] by blast
qed

lemma nth_same:
  assumes "list_all2 same_document events parsed" "nth_event parsed n \<noteq> JUndef"
  shows "same_document (nth_event events n) (nth_event parsed n)"
proof -
  have n: "0 \<le> n" "n < int (length parsed)" using assms(2) by (auto simp: nth_event_def split: if_splits)
  then have "nat n < length parsed" by linarith
  then show ?thesis using assms(1) n by (auto simp: nth_event_def list_all2_conv_all_nth)
qed

lemma child_anchor_holds:
  assumes l: "ledger_ok l3" "small l3" "p \<noteq> []" and ps: "map_res (hydrateSessionEvent env) (session_rows (led_rows l3) p) = Inr (parents @ later)"
    and k: "find_index (attaches_to (JStr (r_causation_id r)) i) (parents @ later) = Some k"
    and id: "ftext (hd events) ''session_id'' = i"
    and tr: "canonicalTraceId (se_sha env) (JStr (r_correlation_id (session_rows (led_rows l3) p ! k))) = Inr a"
      "canonicalTraceId (se_sha env) (JStr (r_correlation_id r)) = Inr a"
    and pos: "r_position (session_rows (led_rows l3) p ! k) < r_position r"
    and fork: "fork_names (nth_event parsed 1) (JStr p)" "list_all2 same_document events parsed"
      "branches_at (nth_event parsed 1) parents (JStr (r_causation_id (session_rows (led_rows l3) p ! k)))"
  shows "child_anchor env l3 r events (JStr p) = Inr ()"
proof -
  have "nth_event parsed 1 \<noteq> JUndef" using fork(1) by (auto simp: fork_names_def ftext_def js_get_def)
  note same = fork_same[OF nth_same[OF fork(2) this]]
  have "fork_names (nth_event events 1) (JStr p)" using same(1) fork(1) by blast
  moreover have "branches_at (nth_event events 1) (parents @ later) (JStr (r_causation_id (session_rows (led_rows l3) p ! k)))"
    using fork(3) same(2)[of parents] same(2)[of "parents @ later"] branch_event_append[of parents "nth_event parsed 1" later]
    by (simp add: branches_at_def)
  ultimately show ?thesis
    using read_session_rows_text[OF l] ps k id tr pos
    by (simp add: child_anchor_def Let_def bind_res_simps guards.simps)
qed

lemma fresh_reads:
  assumes laws: "schema_laws env" and l: "ledger_ok l" "small l" "ledger_ok l3" "small l3"
    and i: "identifier_ok i" and rows: "session_rows (led_rows l3) i = new"
    and docs: "new_documents env i n parsed"
    and c: "list_all2 (commits env i correlation) new (zip (causes_of causation parsed) parsed)"
    and an: "check_anchor env l i parsed causation correlation pending = Inr ()"
    and child: "\<And>p. p \<noteq> [] \<Longrightarrow> js_get (js_get (js_get (hd parsed) ''payload'') ''spec'') ''parent_session_id'' = JStr p \<Longrightarrow>
      new_child_anchor env l i parsed (JStr p) causation correlation pending = Inr () \<Longrightarrow>
      child_anchor env l3 (hd new) (hydrations env new) (JStr p) = Inr ()"
  shows "readSession env l3 (JStr i) 1 MAX_SAFE_INTEGER = Inr (hydrations env new)"
proof -
  have len: "length (causes_of causation parsed) = length parsed"
    using docs by (cases parsed) (simp_all add: causes_of_def new_documents_def)
  note h = commits_hydrate[OF c len]
  have pn: "parsed \<noteq> []" using docs by (simp add: new_documents_def)
  have nn: "new \<noteq> []" using list_all2_lengthD[OF c] len pn by auto
  have "\<forall>r \<in> set new. r_correlation_id r = correlation" using h(3) by blast
  then have u: "assertUniformSessionTrace new = Inr (Some correlation)" using commits_uniform[OF _ nn h(5)[OF nn]] by blast
  have chain: "causation_chain [] (zip new (hydrations env new))" using new_chain[OF laws docs c] by blast
  let ?e = "hd (hydrations env new)" and ?d = "hd parsed"
  have hn: "hydrations env new \<noteq> []" using nn by (simp add: hydrations_def)
  have sd: "same_document ?e ?d" using h(2) pn hn by (cases parsed; cases "hydrations env new") auto
  let ?spec = "\<lambda>v. js_get (js_get v ''payload'') ''spec''"
  have spec: "stableValue (?spec ?e) = stableValue (?spec ?d)" using same_documentD(5)[OF sd] .
  have parent: "stableValue (js_get (?spec ?e) ''parent_session_id'') = stableValue (js_get (?spec ?d) ''parent_session_id'')"
    using same_document_get3[OF sd] .
  have sid: "ftext ?e ''session_id'' = i"
    using same_documentD(1)[OF sd] docs pn by (cases parsed) (force simp: ftext_def new_documents_def)+
  have cause: "causation = JStr (r_causation_id (hd new))" using h(4) nn by (cases new) (auto simp: causes_of_def)
  have "session_anchor env l3 (hd new) (hydrations env new) = Inr ()"
  proof (cases "js_get (?spec ?d) ''parent_session_id'' = JNull")
    case True
    then have "js_get (?spec ?e) ''parent_session_id'' = JNull" using same_leaf(3)[OF parent] by blast
    moreover have "?spec ?d \<noteq> JUndef" "?spec ?d \<noteq> JNull" "causation = JStr (session_root i)"
      using an True by (auto simp: check_anchor_def Let_def guards_Cons)
    moreover have "?spec ?e \<noteq> JUndef" "?spec ?e \<noteq> JNull" using same_leaf(3,4)[OF spec] calculation by blast+
    ultimately show ?thesis using sid cause by (simp add: session_anchor_def Let_def guards.simps)
  next
    case False
    have sp: "?spec ?d \<noteq> JUndef" "?spec ?d \<noteq> JNull"
      and nca: "new_child_anchor env l i parsed (js_get (?spec ?d) ''parent_session_id'') causation correlation pending = Inr ()"
      using an False by (auto simp: check_anchor_def Let_def)
    then obtain rws where "read_session_rows l (js_get (?spec ?d) ''parent_session_id'') = Inr rws"
      by (auto simp: new_child_anchor_def Let_def)
    then obtain p where p: "js_get (?spec ?d) ''parent_session_id'' = JStr p" "p \<noteq> []" by (rule read_session_rows_parent)
    then have pe: "js_get (?spec ?e) ''parent_session_id'' = JStr p" using same_leaf(1)[OF parent] by blast
    have "?spec ?e \<noteq> JUndef" "?spec ?e \<noteq> JNull" using same_leaf(3,4)[OF spec] sp by blast+
    then show ?thesis using child[OF p(2,1)] nca p(1) pe by (simp add: session_anchor_def Let_def)
  qed
  then have "assertSessionCausation env l3 new (hydrations env new) = Inr ()"
    using chain nn by (simp add: assertSessionCausation_Inr)
  then show ?thesis using readSession_Inr[OF l(3,4) i] rows u h(1) by blast
qed

lemma find_index_map: "find_index P (map f xs) = find_index (\<lambda>x. P (f x)) xs"
  by (induction xs) (auto split: option.split)

lemma find_Some_index: "find P xs = Some a \<Longrightarrow> \<exists>k. find_index P xs = Some k \<and> k < length xs \<and> xs ! k = a"
  by (induction xs) (auto split: if_splits option.splits)

lemma row_position:
  assumes "rows_ok rows" "r \<in> set rows"
  shows "r_position r \<le> length rows"
proof -
  have "map r_position rows = [1..<Suc (length rows)]" using assms(1) by (simp add: rows_ok_def)
  moreover have "r_position r \<in> set (map r_position rows)" using assms(2) by simp
  ultimately have "r_position r \<in> set [1..<Suc (length rows)]" by simp
  then show ?thesis by (simp del: upt_Suc)
qed

lemma place_position: "cs \<noteq> [] \<Longrightarrow> r_position (hd (place n cs)) = Suc n"
  by (cases cs) auto

text \<open>An attachment that is durable when the child's first append is prepared.\<close>

lemma durable_anchor:
  assumes ps: "map_res (hydrateSessionEvent env) (session_rows (led_rows l) p) = Inr parents"
    and f: "find (\<lambda>c. attaches_to (JStr (r_causation_id r)) i (snd (snd c)))
       (map (\<lambda>(r, e). (JStr (r_correlation_id r), JStr (r_causation_id r), e)) (zip (session_rows (led_rows l) p) parents)) = Some att"
    and fork: "fork_names (nth_event parsed 1) (JStr p)" "canonicalTraceId (se_sha env) (fst att) = Inr a"
      "canonicalTraceId (se_sha env) (JStr (r_correlation_id r)) = Inr a" "branches_at (nth_event parsed 1) parents (fst (snd att))"
    and l: "ledger_ok l" "ledger_ok l3" "small l3" "prefix (led_rows l) (led_rows l3)" "well_written env (led_rows l3)"
    and p: "p \<noteq> []" and pos: "length (led_rows l) < r_position r"
    and ev: "ftext (hd events) ''session_id'' = i" "list_all2 same_document events parsed"
  shows "child_anchor env l3 r events (JStr p) = Inr ()"
proof -
  let ?rows = "session_rows (led_rows l) p"
  have len: "length parents = length ?rows" using ps by (auto simp: map_res_Inr_iff dest: list_all2_lengthD)
  obtain k where k: "find_index (\<lambda>x. attaches_to (JStr (r_causation_id r)) i (snd x)) (zip ?rows parents) = Some k" "k < length ?rows"
    and att: "att = (JStr (r_correlation_id (?rows ! k)), JStr (r_causation_id (?rows ! k)), parents ! k)"
    using find_Some_index[OF f] len by (auto simp: find_index_map case_prod_beta)
  have "find_index (attaches_to (JStr (r_causation_id r)) i) (map snd (zip ?rows parents)) = Some k"
    using k(1) by (simp only: find_index_map)
  then have k0: "find_index (attaches_to (JStr (r_causation_id r)) i) parents = Some k" using len by simp
  obtain new where new: "session_rows (led_rows l3) p = ?rows @ new" using session_rows_prefix[OF l(4)] by blast
  obtain later where later: "map_res (hydrateSessionEvent env) (session_rows (led_rows l3) p) = Inr (parents @ later)"
    using well_written_hydrates[OF l(5), of p] ps by (auto simp: new map_res_append)
  have row: "session_rows (led_rows l3) p ! k = ?rows ! k" using new k(2) by (simp add: nth_append)
  have "?rows ! k \<in> set (led_rows l)" using nth_mem[OF k(2)] by (auto simp: session_rows_def select_stream_def)
  then have "r_position (?rows ! k) < r_position r"
    using row_position[of "led_rows l" "?rows ! k"] l(1) pos by (simp add: ledger_ok_def)
  then show ?thesis
    using child_anchor_holds[OF l(2,3) p later _ ev(1) _ fork(3) _ fork(1) ev(2), of k] find_index_append[OF k0, of later]
      fork(2,4) att row by simp
qed

subsection \<open>Commits keep every session replayable\<close>

text \<open>The whole stream of a session can be read, with every check, and replayed.\<close>

definition session_replays :: "session_env \<Rightarrow> ledger \<Rightarrow> string \<Rightarrow> bool" where
  "session_replays env l i \<longleftrightarrow>
     (\<exists>s. bind_res (readSession env l (JStr i) 1 MAX_SAFE_INTEGER) (fold_session env None) = Inr s)"

lemma session_replays_full: "session_replays env l i \<longleftrightarrow> (\<exists>s. full_state env l i = Inr s)"
  by (simp add: session_replays_def full_state_def)

lemma readStream_rows: "led_rows l = led_rows l' \<Longrightarrow> readStream l = readStream l'"
  by (intro ext) (simp add: readStream_def)

lemma readSession_rows:
  assumes "led_rows l = led_rows l'"
  shows "readSession env l = readSession env l'"
proof -
  have r: "read_session_rows l = read_session_rows l'" by (intro ext) (simp add: read_session_rows_def readStream_rows[OF assms])
  have "child_anchor env l = child_anchor env l'" by (intro ext) (simp add: child_anchor_def r)
  then have "session_anchor env l = session_anchor env l'" by (intro ext) (simp add: session_anchor_def Let_def)
  then have c: "assertSessionCausation env l = assertSessionCausation env l'"
    by (intro ext) (simp add: assertSessionCausation_def split: list.split)
  show ?thesis by (intro ext) (simp only: readSession_def readStream_rows[OF assms] c)
qed

lemma session_replays_rows: "led_rows l = led_rows l' \<Longrightarrow> session_replays env l i = session_replays env l' i"
  using readSession_rows[of l l' env] by (simp add: session_replays_def)

lemma first_position:
  assumes "rows_ok (xs @ ys)" "ys \<noteq> []"
  shows "r_position (hd ys) = Suc (length xs)"
proof -
  have "map r_position (xs @ ys) ! length xs = [1..<Suc (length (xs @ ys))] ! length xs" using assms(1) by (simp only: rows_ok_def)
  then show ?thesis using assms(2) by (simp add: nth_append hd_conv_nth del: upt_Suc)
qed

lemma full_state_unchanged:
  assumes l: "ledger_ok l0" "ledger_ok l" "small l" "prefix (led_rows l0) (led_rows l)" "well_written env (led_rows l)"
    and i: "identifier_ok i" and same: "session_rows (led_rows l) i = session_rows (led_rows l0) i"
    and f: "full_state env l0 i = Inr s"
  shows "full_state env l i = Inr s"
proof -
  obtain events where r: "readSession env l0 (JStr i) 1 MAX_SAFE_INTEGER = Inr events" "fold_session env None events = Inr s"
    using f by (auto simp: full_state_def)
  have "readSession env l (JStr i) 1 MAX_SAFE_INTEGER = Inr events"
  proof (cases "events = []")
    case True
    have "session_rows (led_rows l0) i = []"
      using r(1) readSession_Inr[OF l(1) small_prefix[OF l(3,4)] i] True by (auto simp: map_res_Inr_iff)
    then show ?thesis
      using readSession_Inr[OF l(2,3) i] same True by (simp add: uniform_trace_Inr assertSessionCausation_def first_correlation_def)
  next
    case False
    then show ?thesis using readSession_grows[OF l(1-5) i r(1) False, of "[]" "[]"] same by simp
  qed
  then show ?thesis using r(2) by (simp add: full_state_def bind_res_simps)
qed

lemma session_replays_extended:
  assumes l: "ledger_ok l2" "ledger_ok l3" "small l3" and new: "led_rows l3 = led_rows l2 @ new" and w: "well_written env (led_rows l3)"
    and str: "\<forall>x \<in> set new. stream_of x = (AGGREGATE_TYPE, i)" and j: "identifier_ok j"
    and own: "j = i \<Longrightarrow> session_replays env l3 j" and ok: "session_replays env l2 j"
  shows "session_replays env l3 j"
proof (cases "j = i")
  case False
  then have "session_rows (led_rows l3) j = session_rows (led_rows l2) j"
    using str by (simp add: new session_rows_def select_stream_def filter_empty_conv)
  moreover have "prefix (led_rows l2) (led_rows l3)" by (simp add: new)
  ultimately show ?thesis using full_state_unchanged[OF l(1,2,3) _ w j] ok by (auto simp: session_replays_full)
qed (use own in simp)

lemma extended_session:
  assumes laws: "schema_laws env" and st: "store_ok env st" and sm: "small l3"
    and prep: "session_prepareAppend env st rq pending = (st1, Inr lrq)" and json: "json_ok (sa_events rq)"
    and l2: "ledger_ok l2" "prefix (led_rows (so_ledger st)) (led_rows l2)" "well_written env (led_rows l2)"
    and p: "prepareAppend reg lrq = Inr p" and l3: "ledger_ok l3"
    and app: "append_rows catalog (led_rows l2) (pr_stream p) (pr_expected p) (pr_candidates p) = Inr (led_rows l3, r)"
      "\<not> ar_idempotent r"
    and old: "readSession env (so_ledger st) (sa_session rq) 1 MAX_SAFE_INTEGER = Inr old"
    and parsed: "map_res (se_event env) (js_items (sa_events rq)) = Inr parsed" and cont: "continues rq old parsed"
    and child: "\<And>i correlation q new. sa_session rq = JStr i \<Longrightarrow> old = [] \<Longrightarrow> q \<noteq> [] \<Longrightarrow> led_rows l3 = led_rows l2 @ new \<Longrightarrow>
      list_all2 (commits env i correlation) new (zip (causes_of (anchor_of rq old i) parsed) parsed) \<Longrightarrow>
      new_documents env i 0 parsed \<Longrightarrow> js_get (js_get (js_get (hd parsed) ''payload'') ''spec'') ''parent_session_id'' = JStr q \<Longrightarrow>
      new_child_anchor env (so_ledger st) i parsed (JStr q) (anchor_of rq old i) correlation pending = Inr () \<Longrightarrow>
      child_anchor env l3 (hd new) (hydrations env new) (JStr q) = Inr ()"
  shows "readSession env l3 (sa_session rq) 1 MAX_SAFE_INTEGER = Inr (old @ hydrations env (ar_events r)) \<and>
     list_all2 same_document (hydrations env (ar_events r)) parsed \<and>
     map_res (hydrateSessionEvent env) (ar_events r) = Inr (hydrations env (ar_events r)) \<and>
     ar_version r = length old + length parsed \<and>
     (\<exists>s. fold_session env None (old @ hydrations env (ar_events r)) = Inr s) \<and>
     (\<exists>i. sa_session rq = JStr i \<and> identifier_ok i \<and> (\<forall>x \<in> set (ar_events r). stream_of x = (AGGREGATE_TYPE, i))) \<and>
     led_rows l3 = led_rows l2 @ ar_events r"
proof -
  let ?l = "so_ledger st" and ?new = "ar_events r"
  obtain i old' parsed' correlation durable s s' where e: "sa_session rq = JStr i" "identifier_ok i"
    "readSession env ?l (JStr i) 1 MAX_SAFE_INTEGER = Inr old'" "fold_session env None old' = Inr s"
    "session_rows (led_rows l2) i = session_rows (led_rows ?l) i" "led_rows l3 = led_rows l2 @ ?new"
    "session_rows (led_rows l3) i = session_rows (led_rows ?l) i @ ?new"
    "map_res (se_event env) (js_items (sa_events rq)) = Inr parsed'" "new_documents env i (int (length old')) parsed'"
    "fold_session env (Some s) parsed' = Inr s'"
    "assertUniformSessionTrace (session_rows (led_rows ?l) i) = Inr durable"
    "resolve_correlation (se_sha env) durable (sa_correlation rq) i = Inr correlation"
    "list_all2 (commits env i correlation) ?new (zip (causes_of (anchor_of rq old' i) parsed') parsed')"
    "old' = [] \<Longrightarrow> check_anchor env ?l i parsed' (anchor_of rq old' i) correlation pending = Inr ()"
    "ar_version r = length old' + length parsed'"
    using prepared_extends[OF laws st sm prep json l2(1,2) p app] by metis
  have eq: "old' = old" "parsed' = parsed" using e(1,3,8) old parsed by simp_all
  note e = e[unfolded eq]
  have len: "length (causes_of (anchor_of rq old i) parsed) = length parsed"
    using e(9) by (cases parsed) (simp_all add: causes_of_def new_documents_def)
  note h = commits_hydrate[OF e(13) len]
  have w3: "well_written env (led_rows l3)"
    using append_rows_readable[OF _ prepare_readable[OF laws json prep p] l2(3) app(1)] l2(1) by (simp add: ledger_ok_def)
  have lo: "ledger_ok ?l" "small ?l" "prefix (led_rows ?l) (led_rows l3)"
    using st l2(2) e(6) small_prefix[OF sm, of ?l] by (auto simp: store_ok_def prefix_def)
  have rd: "readSession env l3 (JStr i) 1 MAX_SAFE_INTEGER = Inr (old @ hydrations env ?new)"
  proof (cases "old = []")
    case True
    have "session_rows (led_rows ?l) i = []"
      using e(3) readSession_Inr[OF lo(1,2) e(2)] True by (auto simp: map_res_Inr_iff)
    then have rows: "session_rows (led_rows l3) i = ?new" using e(7) by simp
    have d0: "new_documents env i 0 parsed" using e(9) True by simp
    have "child_anchor env l3 (hd ?new) (hydrations env ?new) (JStr q) = Inr ()" if "q \<noteq> []"
      "js_get (js_get (js_get (hd parsed) ''payload'') ''spec'') ''parent_session_id'' = JStr q"
      "new_child_anchor env ?l i parsed (JStr q) (anchor_of rq old i) correlation pending = Inr ()" for q
      using child[OF e(1) True that(1) e(6) e(13) d0 that(2,3)] .
    then show ?thesis using fresh_reads[OF laws lo(1,2) l3 sm e(2) rows e(9) e(13) e(14)[OF True]] True by simp
  next
    case False
    show ?thesis using extended_reads[OF laws lo(1) l3 sm lo(3) w3 e(2) e(3) False e(7) e(9) e(13) e(11,12) cont] .
  qed
  have "fold_session env None (old @ hydrations env ?new) = fold_session env (Some s) (hydrations env ?new)"
    using fold_session_append[OF e(4)] .
  also have "\<dots> = fold_session env (Some s) parsed" using fold_same[OF laws hydrated_documents[OF e(9) h(2)]] .
  also have "\<dots> = Inr s'" by (rule e(10))
  finally show ?thesis using rd e(1,2,6,15) h(1,2,3) by auto
qed

lemma commits_head:
  assumes c: "list_all2 (commits env i correlation) new (zip (causes_of causation parsed) parsed)" and docs: "new_documents env i n parsed"
  shows "new \<noteq> []" "causation = JStr (r_causation_id (hd new))" "correlation = r_correlation_id (hd new)"
    "ftext (hd (hydrations env new)) ''session_id'' = i" "list_all2 same_document (hydrations env new) parsed"
proof -
  have len: "length (causes_of causation parsed) = length parsed"
    using docs by (cases parsed) (simp_all add: causes_of_def new_documents_def)
  note h = commits_hydrate[OF c len]
  show nn: "new \<noteq> []" using list_all2_lengthD[OF c] len docs by (auto simp: new_documents_def)
  then have hd: "hd new \<in> set new" by simp
  show "causation = JStr (r_causation_id (hd new))" using h(4) nn by (cases new) (auto simp: causes_of_def)
  show "correlation = r_correlation_id (hd new)" using h(3) hd by simp
  show "list_all2 same_document (hydrations env new) parsed" by (rule h(2))
  obtain d ds e es where hd2: "parsed = d # ds" "hydrations env new = e # es" "same_document e d"
    using h(2) docs by (cases parsed; cases "hydrations env new") (auto simp: new_documents_def)
  have "js_get d ''session_id'' = JStr i" using docs hd2(1) by (force simp: new_documents_def)
  then show "ftext (hd (hydrations env new)) ''session_id'' = i"
    using same_documentD(1)[OF hd2(3), of "''session_id''"] hd2(2) by (simp add: ftext_def)
qed

lemma append_anchor:
  assumes l: "ledger_ok l" "small l" "prefix (led_rows l) (led_rows l2)" "ledger_ok l3" "small l3" "well_written env (led_rows l3)"
    and l3: "led_rows l3 = led_rows l2 @ new" and q: "q \<noteq> []"
    and c: "list_all2 (commits env i correlation) new (zip (causes_of causation parsed) parsed)" and docs: "new_documents env i 0 parsed"
    and an: "new_child_anchor env l i parsed (JStr q) causation correlation None = Inr ()"
  shows "child_anchor env l3 (hd new) (hydrations env new) (JStr q) = Inr ()"
proof -
  note head = commits_head[OF c docs]
  have "length (led_rows l) \<le> length (led_rows l2)" using prefix_length_le[OF l(3)] .
  then have pos: "length (led_rows l) < r_position (hd new)"
    using first_position[of "led_rows l2" new] l(4) l3 head(1) by (simp add: ledger_ok_def)
  have pre: "prefix (led_rows l) (led_rows l3)" using l(3) l3 by (simp add: prefix_def) (metis append_assoc)
  obtain parents later0 att a where ps: "map_res (hydrateSessionEvent env) (session_rows (led_rows l) q) = Inr parents"
    and none: "(case None :: append_request option of None \<Rightarrow> Inr [] | Some rq \<Rightarrow> map_res (pending_candidate env) (js_items (rq_events rq))) = Inr later0"
    and f0: "find (\<lambda>c. attaches_to causation i (snd (snd c)))
       (map (\<lambda>(r, e). (JStr (r_correlation_id r), JStr (r_causation_id r), e)) (zip (session_rows (led_rows l) q) parents) @ later0) = Some att"
    and fork: "fork_names (nth_event parsed 1) (JStr q)" "canonicalTraceId (se_sha env) (fst att) = Inr a"
      "canonicalTraceId (se_sha env) (JStr correlation) = Inr a" "branches_at (nth_event parsed 1) parents (fst (snd att))"
    by (rule new_child_anchor_Inr[OF an l(1,2) q])
  note f = f0[simplified none[simplified, symmetric], simplified]
  show ?thesis
    using durable_anchor[OF ps f[unfolded head(2)] fork(1,2) fork(3)[unfolded head(3)] fork(4) l(1,4,5) pre l(6) q pos head(4,5)] .
qed

lemma replay_ledger: "so_ledger (fst (replay env st i v full)) = so_ledger st"
proof -
  have "so_ledger (fst (replay_full env t k v)) = so_ledger t" "so_ledger (fst (replay_increment env t k c)) = so_ledger t" for t k c
    by (auto simp: replay_full_def replay_increment_def put_cache_def evict_def split: sum.split)
  then have "so_ledger (fst (cached_replay env t k v full)) = so_ledger t" for t k
    by (simp add: cached_replay_def split: option.split)
  then show ?thesis by (simp add: replay_def drop_cache_def split: sum.split)
qed

lemma prepare_ledger: "so_ledger (fst (session_prepareAppend env st rq pending)) = so_ledger st"
proof (cases "check_append env st rq")
  case (Inr x)
  obtain i actor parsed current correlation where x: "x = (i, actor, parsed, current, correlation)" by (cases x)
  have "fst (session_prepareAppend env st rq pending) = fst (check_continuation env st i (js_int (sa_expected rq)) current parsed)"
    unfolding session_prepareAppend_def Inr x by (simp add: Let_def split: prod.split sum.split)
  moreover have "so_ledger (fst (check_continuation env st i (js_int (sa_expected rq)) current parsed)) = so_ledger st"
    using replay_ledger[of env st "JStr i" MAX_SAFE_INTEGER False] by (auto simp: check_continuation_def split: prod.splits sum.splits)
  ultimately show ?thesis by simp
qed (simp add: session_prepareAppend_def)

lemma append_Inr:
  assumes "session_append env st rq = (st', Inr res)"
  obtains st1 lrq r where "session_prepareAppend env st rq None = (st1, Inr lrq)"
    "ledger_append (se_registry env) (so_ledger st) lrq = (so_ledger st', Inr r)" "formatResult env r = Inr res"
proof -
  obtain st1 lrq where p1: "session_prepareAppend env st rq None = (st1, Inr lrq)"
    using assms by (auto simp: session_append_def split: prod.splits sum.splits)
  have same: "so_ledger st1 = so_ledger st" using prepare_ledger[of env st rq None] p1 by simp
  obtain l r where a: "ledger_append (se_registry env) (so_ledger st1) lrq = (l, Inr r)" "formatResult env r = Inr res" "st' = st1\<lparr>so_ledger := l\<rparr>"
    using assms p1 by (auto simp: session_append_def split: prod.splits sum.splits)
  then show thesis using that[OF p1] same by simp
qed

lemma same_document_trans: "same_document a b \<Longrightarrow> same_document b c \<Longrightarrow> same_document a c"
  by (simp add: same_document_def)

lemma parsed_same:
  assumes "schema_laws env" "map_res (se_event env) xs = Inr ps" "\<forall>x \<in> set xs. json_ok x"
  shows "list_all2 same_document ps xs"
proof -
  have l: "list_all2 (\<lambda>x d. se_event env x = Inr d) xs ps" using assms(2) by (simp add: map_res_Inr_iff)
  show ?thesis
    using l assms(3) schema_same[OF assms(1)] by (auto simp: list_all2_conv_all_nth)
qed

lemma prepare_parses:
  assumes "session_prepareAppend env st rq pending = (st1, Inr lrq)"
  shows "\<exists>parsed. map_res (se_event env) (js_items (sa_events rq)) = Inr parsed" "js_items (sa_events rq) \<noteq> []"
proof -
  obtain i actor parsed current correlation where "check_append env st rq = Inr (i, actor, parsed, current, correlation)"
    using prepare_Inr[OF assms] by metis
  then obtain expected where "js_items (sa_events rq) \<noteq> []" "parse_new_events env i expected (js_items (sa_events rq)) = Inr parsed"
    using check_append_Inr by metis
  then show "\<exists>parsed. map_res (se_event env) (js_items (sa_events rq)) = Inr parsed" "js_items (sa_events rq) \<noteq> []"
    by (auto simp: parse_new_events_def)
qed

lemma continues_same:
  assumes "list_all2 same_document parsed xs" "continues rq old xs" "xs \<noteq> []"
  shows "continues rq old parsed"
proof -
  have "same_document (hd parsed) (hd xs)" using assms(1,3) by (cases xs; cases parsed) auto
  then have "ftext (hd parsed) ''event_type'' = ftext (hd xs) ''event_type''" by (rule same_documentD(1))
  then show ?thesis using assms(2) by (simp add: continues_def)
qed

lemma committed_session:
  assumes laws: "schema_laws env" and st: "store_ok env st" and json: "json_ok (sa_events rq)"
    and prep: "session_prepareAppend env st rq None = (st1, Inr lrq)"
    and l2: "ledger_ok l2" "prefix (led_rows (so_ledger st)) (led_rows l2)" "well_written env (led_rows l2)"
    and app: "ledger_append reg l2 lrq = (l3, Inr r)" "\<not> ar_idempotent r" and sm: "small l3"
    and old: "readSession env (so_ledger st) (sa_session rq) 1 MAX_SAFE_INTEGER = Inr old"
    and parsed: "map_res (se_event env) (js_items (sa_events rq)) = Inr parsed" and cont: "continues rq old parsed"
  shows "readSession env l3 (sa_session rq) 1 MAX_SAFE_INTEGER = Inr (old @ hydrations env (ar_events r)) \<and>
     list_all2 same_document (hydrations env (ar_events r)) parsed \<and>
     map_res (hydrateSessionEvent env) (ar_events r) = Inr (hydrations env (ar_events r)) \<and>
     ar_version r = length old + length parsed \<and>
     (\<exists>s. fold_session env None (old @ hydrations env (ar_events r)) = Inr s) \<and>
     (\<exists>i. sa_session rq = JStr i \<and> identifier_ok i \<and> (\<forall>x \<in> set (ar_events r). stream_of x = (AGGREGATE_TYPE, i))) \<and>
     led_rows l3 = led_rows l2 @ ar_events r \<and> well_written env (led_rows l3)"
proof -
  obtain p where p: "prepareAppend reg lrq = Inr p"
    "append_rows (led_catalog l2) (led_rows l2) (pr_stream p) (pr_expected p) (pr_candidates p) = Inr (led_rows l3, r)"
    using ledger_append_Inr[OF app(1)] by metis
  have l3: "ledger_ok l3" using ledger_append_ok[OF l2(1) app(1)] by blast
  have w: "well_written env (led_rows l3)" "prefix (led_rows l2) (led_rows l3)"
    using append_rows_readable[OF _ prepare_readable[OF laws json prep p(1)] l2(3) p(2)] l2(1) by (simp_all add: ledger_ok_def)
  have lo: "ledger_ok (so_ledger st)" "small (so_ledger st)"
    using st small_prefix[OF sm] prefix_order.trans[OF l2(2) w(2)] by (auto simp: store_ok_def)
  have "child_anchor env l3 (hd new) (hydrations env new) (JStr q) = Inr ()"
    if "q \<noteq> []" "led_rows l3 = led_rows l2 @ new" "new_documents env i 0 parsed"
      "list_all2 (commits env i correlation) new (zip (causes_of (anchor_of rq old i) parsed) parsed)"
      "new_child_anchor env (so_ledger st) i parsed (JStr q) (anchor_of rq old i) correlation None = Inr ()" for i correlation q new
    using append_anchor[OF lo l2(2) l3 sm w(1) that(2,1,4,3,5)] .
  then show ?thesis
    using extended_session[OF laws st sm prep json l2 p(1) l3 p(2) app(2) old parsed cont] w(1) by blast
qed

lemma append_reads:
  assumes "schema_laws env" "store_ok env st" "json_ok (sa_events rq)" "small (so_ledger st')"
    "session_append env st rq = (st', Inr res)" "\<not> sr_idempotent res"
    "readSession env (so_ledger st) (sa_session rq) 1 MAX_SAFE_INTEGER = Inr old" "continues rq old (js_items (sa_events rq))"
  shows "readSession env (so_ledger st') (sa_session rq) 1 MAX_SAFE_INTEGER = Inr (old @ sr_events res) \<and>
     map stableValue (sr_events res) = map stableValue (js_items (sa_events rq)) \<and>
     sr_version res = length old + length (js_items (sa_events rq)) \<and>
     (\<exists>s. fold_session env None (old @ sr_events res) = Inr s)"
proof -
  obtain st1 lrq r where a: "session_prepareAppend env st rq None = (st1, Inr lrq)"
    "ledger_append (se_registry env) (so_ledger st) lrq = (so_ledger st', Inr r)" "formatResult env r = Inr res"
    using append_Inr[OF assms(5)] by metis
  have l: "ledger_ok (so_ledger st)" "well_written env (led_rows (so_ledger st))" using assms(2) by (simp_all add: store_ok_def)
  have f: "sr_idempotent res = ar_idempotent r" "sr_version res = ar_version r" "map_res (hydrateSessionEvent env) (ar_events r) = Inr (sr_events res)"
    using a(3) by (auto simp: formatResult_def)
  obtain parsed where pa: "map_res (se_event env) (js_items (sa_events rq)) = Inr parsed"
    using prepare_parses[OF a(1)] by blast
  have sp: "list_all2 same_document parsed (js_items (sa_events rq))"
    using parsed_same[OF assms(1) pa] assms(3) by (cases "sa_events rq") auto
  have "continues rq old parsed" using continues_same[OF sp] assms(8) prepare_parses(2)[OF a(1)] by blast
  note c = committed_session[OF assms(1,2,3) a(1) l(1) _ l(2) a(2) _ assms(4,7) pa this]
  have e: "sr_events res = hydrations env (ar_events r)" using c assms(6) f(1,3) by simp
  have "list_all2 same_document (hydrations env (ar_events r)) (js_items (sa_events rq))"
    using c assms(6) f(1) sp list_all2_trans[of same_document same_document same_document] same_document_trans by blast
  then have "map stableValue (hydrations env (ar_events r)) = map stableValue (js_items (sa_events rq))"
    by (auto simp: list_all2_conv_all_nth same_document_def intro!: nth_equalityI)
  then show ?thesis using c assms(6) f e list_all2_lengthD[OF sp] by simp
qed

text \<open>
  C10. Append round trip: a new append to a session whose stream could be read leaves the stream readable,
  with all lineage checks, as the events it had followed by the given events, up to the order of keys; the
  version counts them, and the longer stream replays. The condition is \<open>continues\<close>: the append names no
  cause for its first event, or the stream is empty, or the named cause is the last event of the stream, or,
  when the first event is an attachment, any event of it. With any other cause the session becomes unreadable.
\<close>

theorem append_round_trip:
  assumes "schema_laws env" "store_ok env st" "json_ok (sa_events rq)" "small (so_ledger st')"
    "session_append env st rq = (st', Inr res)" "\<not> sr_idempotent res"
    "readSession env (so_ledger st) (sa_session rq) 1 MAX_SAFE_INTEGER = Inr old" "continues rq old (js_items (sa_events rq))"
  shows "readSession env (so_ledger st') (sa_session rq) 1 MAX_SAFE_INTEGER = Inr (old @ sr_events res) \<and>
     map stableValue (sr_events res) = map stableValue (js_items (sa_events rq)) \<and>
     sr_version res = length old + length (js_items (sa_events rq)) \<and>
     (\<exists>s. fold_session env None (old @ sr_events res) = Inr s)"
  using append_reads[OF assms] .

lemma commit_keeps_session:
  assumes "schema_laws env" "store_ok env st" "json_ok (sa_events rq)"
    "session_prepareAppend env st rq None = (st1, Inr lrq)"
    "\<And>old. sa_session rq = JStr j \<Longrightarrow> readSession env (so_ledger st) (JStr j) 1 MAX_SAFE_INTEGER = Inr old \<Longrightarrow>
       continues rq old (js_items (sa_events rq))"
    "ledger_ok l2" "prefix (led_rows (so_ledger st)) (led_rows l2)" "well_written env (led_rows l2)"
    "ledger_append reg l2 lrq = (l3, res)" "small l3" "identifier_ok j" "session_replays env l2 j"
  shows "session_replays env l3 j"
proof (cases "\<exists>r. res = Inr r \<and> \<not> ar_idempotent r")
  case False
  then have "led_rows l3 = led_rows l2"
    using ledger_append_cases[OF assms(9)] append_rows_idempotent by (metis Inr_not_Inl)
  then show ?thesis using session_replays_rows assms(12) by blast
next
  case True
  then obtain r where r: "ledger_append reg l2 lrq = (l3, Inr r)" "\<not> ar_idempotent r" using assms(9) by blast
  obtain p where p: "prepareAppend reg lrq = Inr p"
    "append_rows (led_catalog l2) (led_rows l2) (pr_stream p) (pr_expected p) (pr_candidates p) = Inr (led_rows l3, r)"
    using ledger_append_Inr[OF r(1)] by metis
  obtain i old parsed correlation where o: "sa_session rq = JStr i" "readSession env (so_ledger st) (JStr i) 1 MAX_SAFE_INTEGER = Inr old"
    "map_res (se_event env) (js_items (sa_events rq)) = Inr parsed" "led_rows l3 = led_rows l2 @ ar_events r"
    "list_all2 (commits env i correlation) (ar_events r) (zip (causes_of (anchor_of rq old i) parsed) parsed)"
    using prepared_extends[OF assms(1,2,10,4,3,6,7) p r(2)] by metis
  have str: "\<forall>x \<in> set (ar_events r). stream_of x = (AGGREGATE_TYPE, i)"
    using list_all2_left[OF o(5)] by (fastforce simp: commits_def)
  have l3: "ledger_ok l3" using ledger_append_ok[OF assms(6) r(1)] by blast
  have w: "well_written env (led_rows l3)"
    using append_rows_readable[OF _ prepare_readable[OF assms(1,3,4) p(1)] assms(8) p(2)] assms(6) by (simp add: ledger_ok_def)
  have own: "session_replays env l3 j" if j: "j = i"
  proof -
    have "list_all2 same_document parsed (js_items (sa_events rq))"
      using parsed_same[OF assms(1) o(3)] assms(3) by (cases "sa_events rq") auto
    then have cont: "continues rq old parsed"
      using continues_same assms(5)[of old] o(1,2) j prepare_parses(2)[OF assms(4)] by blast
    have "readSession env (so_ledger st) (sa_session rq) 1 MAX_SAFE_INTEGER = Inr old" using o(1,2) by simp
    note c = committed_session[OF assms(1,2,3,4,6,7,8) r assms(10) this o(3) cont]
    then have "readSession env l3 (JStr i) 1 MAX_SAFE_INTEGER = Inr (old @ hydrations env (ar_events r))" using o(1) by simp
    then show ?thesis using c j by (simp add: session_replays_def bind_res_simps)
  qed
  show ?thesis
    by (rule session_replays_extended[OF assms(6) l3 assms(10) o(4) w str assms(11) own assms(12)])
qed

text \<open>
  C11. Optimistic concurrency keeps each session replayable, session by session: when a request was prepared
  against an earlier state of the ledger and commits in a later one, after any writes of other connections,
  a session whose stream could be read and replayed just before the commit can be read and replayed after
  it, whatever the outcome of the commit and whatever the state of the other sessions. For the session of the
  request itself, the cause the request names, if it names one, must continue the stream as \<open>continues\<close>
  says: the stream is empty, or the cause is its last event, or an earlier one of an attachment.
\<close>

theorem late_commit_keeps_sessions:
  assumes "schema_laws env" "store_ok env st" "json_ok (sa_events rq)"
    "session_prepareAppend env st rq None = (st1, Inr lrq)"
    "ledger_ok l2" "prefix (led_rows (so_ledger st)) (led_rows l2)" "well_written env (led_rows l2)"
    "ledger_append reg l2 lrq = (l3, res)" "small l3" "identifier_ok i"
    "\<forall>old. sa_session rq = JStr i \<and> readSession env (so_ledger st) (JStr i) 1 MAX_SAFE_INTEGER = Inr old \<longrightarrow>
       continues rq old (js_items (sa_events rq))"
    "session_replays env l2 i"
  shows "session_replays env l3 i"
  by (rule commit_keeps_session[OF assms(1-4) _ assms(5-10) assms(12)]) (use assms(11) in blast)

subsection \<open>The cause of a later append\<close>

lemma stray_cause_fails:
  assumes "schema_laws env" "store_ok env st" "json_ok (sa_events rq)" "small (so_ledger st')"
    "session_append env st rq = (st', Inr res)" "\<not> sr_idempotent res"
    "readSession env (so_ledger st) (sa_session rq) 1 MAX_SAFE_INTEGER = Inr old"
    "\<not> continues rq old (js_items (sa_events rq))"
  shows "\<exists>e. readSession env (so_ledger st') (sa_session rq) 1 MAX_SAFE_INTEGER = Inl e"
proof (cases "readSession env (so_ledger st') (sa_session rq) 1 MAX_SAFE_INTEGER")
  case (Inr xs)
  obtain st1 lrq r where a: "session_prepareAppend env st rq None = (st1, Inr lrq)"
    "ledger_append (se_registry env) (so_ledger st) lrq = (so_ledger st', Inr r)" "formatResult env r = Inr res"
    using append_Inr[OF assms(5)] by metis
  have l: "ledger_ok (so_ledger st)" "well_written env (led_rows (so_ledger st))" using assms(2) by (simp_all add: store_ok_def)
  have ni: "\<not> ar_idempotent r" using a(3) assms(6) by (auto simp: formatResult_def)
  have l3: "ledger_ok (so_ledger st')" using ledger_append_ok[OF l(1) a(2)] by blast
  obtain p where p: "prepareAppend (se_registry env) lrq = Inr p"
    "append_rows (led_catalog (so_ledger st)) (led_rows (so_ledger st)) (pr_stream p) (pr_expected p) (pr_candidates p) = Inr (led_rows (so_ledger st'), r)"
    using ledger_append_Inr[OF a(2)] by metis
  have w: "well_written env (led_rows (so_ledger st'))" "prefix (led_rows (so_ledger st)) (led_rows (so_ledger st'))"
    using append_rows_readable[OF _ prepare_readable[OF assms(1,3) a(1) p(1)] l(2) p(2)] l(1) by (simp_all add: ledger_ok_def)
  obtain i old' parsed correlation where e: "sa_session rq = JStr i" "identifier_ok i"
    "readSession env (so_ledger st) (JStr i) 1 MAX_SAFE_INTEGER = Inr old'"
    "session_rows (led_rows (so_ledger st')) i = session_rows (led_rows (so_ledger st)) i @ ar_events r"
    "map_res (se_event env) (js_items (sa_events rq)) = Inr parsed" "new_documents env i (int (length old')) parsed"
    "list_all2 (commits env i correlation) (ar_events r) (zip (causes_of (anchor_of rq old' i) parsed) parsed)"
    using prepared_extends[OF assms(1,2,4) a(1) assms(3) l(1) _ p ni] by (metis prefix_order.refl)
  have old: "old' = old" using e(1,3) assms(7) by simp
  note head = commits_head[OF e(7,6)]
  have ne: "old \<noteq> []" "js_truthy (sa_causation rq)" using assms(8) by (auto simp: continues_def)
  have sp: "list_all2 same_document parsed (js_items (sa_events rq))"
    using parsed_same[OF assms(1) e(5)] assms(3) by (cases "sa_events rq") auto
  have cause: "sa_causation rq = JStr (r_causation_id (hd (ar_events r)))"
    using head(2) ne(2) by (simp add: anchor_of_def first_causation_def)
  obtain x es where x: "hydrations env (ar_events r) = x # es" using head(1) by (cases "ar_events r") (auto simp: hydrations_def)
  obtain d ds where d: "parsed = d # ds" "same_document x d" using head(5) x by (cases parsed) auto
  obtain g gs where g: "js_items (sa_events rq) = g # gs" "same_document d g" using sp d(1) by (cases "js_items (sa_events rq)") auto
  have ty: "ftext x ''event_type'' = ftext g ''event_type''"
    using same_documentD(1)[OF d(2)] same_documentD(1)[OF g(2)] by simp
  have hyd: "map_res (hydrateSessionEvent env) (ar_events r) = Inr (hydrations env (ar_events r))"
    using commits_hydrate(1)[OF e(7)] e(6) by (cases parsed) (auto simp: causes_of_def new_documents_def)
  have "causation_chain (event_ids old) (zip (ar_events r) (hydrations env (ar_events r)))"
    using readSession_grows[OF l(1) l3 assms(4) w(2,1) e(2) e(3)[unfolded old] ne(1) e(4) hyd] Inr e(1) by simp
  then have "r_causation_id (hd (ar_events r)) = last (event_ids old) \<or>
      (ftext x ''event_type'' = ''child.attached'' \<and> r_causation_id (hd (ar_events r)) \<in> set (event_ids old))"
    using x head(1) ne(1) by (cases "ar_events r") auto
  then have "continues rq old (js_items (sa_events rq))" using cause ty g(1) by (auto simp: continues_def)
  then show ?thesis using assms(8) by blast
qed blast

text \<open>Nothing that is checked before the rows are written looks at the cause, beyond its being a text.\<close>

definition row_key :: "row \<Rightarrow> string \<times> stream \<times> nat" where
  "row_key r = (r_event_id r, stream_of r, r_sequence r)"

lemma insert_rows_keys:
  assumes "insert_rows catalog rows cs = Inr rows'" "map row_key rows = map row_key rows2"
  shows "\<exists>rows2'. insert_rows catalog rows2 cs = Inr rows2' \<and> length rows2' = length rows'"
  using assms
proof (induction cs arbitrary: rows rows2)
  case Nil
  then show ?case by (auto dest: map_eq_imp_length_eq)
next
  case (Cons c cs)
  have any: "list_ex (\<lambda>r. r_event_id r = r_event_id c \<or> (stream_of r = stream_of c \<and> r_sequence r = r_sequence c)) xs =
      list_ex (\<lambda>(i, t, n). i = r_event_id c \<or> (t = stream_of c \<and> n = r_sequence c)) (map row_key xs)" for xs
    by (simp add: list_ex_iff row_key_def)
  have len: "length rows2 = length rows" using Cons.prems(2) map_eq_imp_length_eq by metis
  let ?c = "c\<lparr>r_position := Suc (length rows)\<rparr>"
  have i: "insert_row catalog rows c = Inr (rows @ [?c])" "insert_rows catalog (rows @ [?c]) cs = Inr rows'"
    using Cons.prems(1) by (auto simp: insert_row_def split: if_splits)
  have "insert_row catalog rows2 c = Inr (rows2 @ [?c])"
    using i(1) Cons.prems(2) len unfolding insert_row_def any by (auto split: if_splits)
  moreover have "map row_key (rows @ [?c]) = map row_key (rows2 @ [?c])" using Cons.prems(2) by simp
  ultimately show ?case using Cons.IH[OF i(2)] by simp
qed

lemma append_rows_cause:
  assumes "append_rows catalog rows t expected (c # cs) = Inr (rows', r)" "\<not> ar_idempotent r"
  shows "\<exists>rows2 r2. append_rows catalog rows t expected (c\<lparr>r_causation_id := x\<rparr> # cs) = Inr (rows2, r2) \<and>
    \<not> ar_idempotent r2 \<and> length rows2 = length rows'"
proof -
  let ?d = "c\<lparr>r_causation_id := x\<rparr>" and ?at = "\<lambda>c. c\<lparr>r_position := Suc (length rows)\<rparr>"
  have no: "\<not> list_ex (\<lambda>e. e \<noteq> None) (map (\<lambda>c. select_by_id rows (r_event_id c)) (c # cs))"
    and v: "select_version rows t = expected" and ins: "insert_rows catalog rows (c # cs) = Inr rows'"
    using assms unfolding append_rows_def Let_def by (auto split: if_splits sum.splits)
  have i: "insert_row catalog rows c = Inr (rows @ [?at c])" "insert_rows catalog (rows @ [?at c]) cs = Inr rows'"
    using ins by (auto simp: insert_row_def split: if_splits)
  have "insert_row catalog rows ?d = Inr (rows @ [?at ?d])"
    using i(1) by (auto simp: insert_row_def stream_of_def split: if_splits)
  moreover have "map row_key (rows @ [?at c]) = map row_key (rows @ [?at ?d])" by (simp add: row_key_def stream_of_def)
  ultimately obtain rows2 where "insert_rows catalog rows (?d # cs) = Inr rows2" "length rows2 = length rows'"
    using insert_rows_keys[OF i(2)] by fastforce
  then show ?thesis using no v unfolding append_rows_def Let_def by simp
qed

lemma normalizeEvent_cause:
  assumes "normalizeEvent (ledger_event sha i corr actor (y, d)) t n = Inr r" "is_text (JStr x)"
  shows "normalizeEvent (ledger_event sha i corr actor (JStr x, d)) t n = Inr (r\<lparr>r_causation_id := x\<rparr>)"
  using assms
  by (auto simp: normalizeEvent_def check_event_header_def check_event_body_def event_text_def event_evidence_def requireString_def
      check_that_def ledger_event_def js_get_JObj Let_def bind_res_simps split: if_splits)

lemma prepareAppend_cause:
  assumes "prepareAppend reg (ledger_request sha i n parsed corr y actor) = Inr p" "parsed \<noteq> []" "is_text (JStr x)"
  shows "\<exists>c cs. pr_candidates p = c # cs \<and>
    prepareAppend reg (ledger_request sha i n parsed corr (JStr x) actor) = Inr (p\<lparr>pr_candidates := c\<lparr>r_causation_id := x\<rparr> # cs\<rparr>)"
proof -
  obtain d ds where d: "parsed = d # ds" using assms(2) by (cases parsed) auto
  let ?es = "\<lambda>z. map (ledger_event sha i corr actor) (zip (z # map (\<lambda>e. js_get e ''event_id'') (butlast parsed)) parsed)"
  let ?tl = "map (ledger_event sha i corr actor) (zip (map (\<lambda>e. js_get e ''event_id'') (butlast parsed)) ds)"
  have es: "?es z = ledger_event sha i corr actor (z, d) # ?tl" for z by (simp add: d)
  let ?s = "(AGGREGATE_TYPE, i)"
  let ?norm = "\<lambda>(k, e). normalizeEvent e ?s (nat n + k + 1)"
  have ne: "AGGREGATE_TYPE \<noteq> ''execution''" by (simp add: AGGREGATE_TYPE_def)
  have unf: "prepareAppend reg (ledger_request sha i n parsed corr z actor) = Inr q \<longleftrightarrow>
     is_text (JStr AGGREGATE_TYPE) \<and> is_text (JStr i) \<and> 0 \<le> n \<and>
     (\<exists>cs. map_res ?norm (enumerate 0 (?es z)) = Inr cs \<and> length (uniq (map r_event_id cs)) = length cs \<and>
        q = \<lparr>pr_stream = ?s, pr_expected = nat n, pr_candidates = cs\<rparr>)" for z q
    unfolding prepareAppend_def ledger_request_def es
    by (auto simp: requireString_def check_that_def bind_res_simps ne Let_def split: if_splits)
  obtain cs0 where c0: "map_res ?norm (enumerate 0 (?es y)) = Inr cs0" "length (uniq (map r_event_id cs0)) = length cs0"
    "p = \<lparr>pr_stream = ?s, pr_expected = nat n, pr_candidates = cs0\<rparr>" "is_text (JStr AGGREGATE_TYPE)" "is_text (JStr i)" "0 \<le> n"
    using assms(1) unf by blast
  obtain c cs where c: "cs0 = c # cs" "normalizeEvent (ledger_event sha i corr actor (y, d)) ?s (nat n + 1) = Inr c"
    "map_res ?norm (enumerate 1 ?tl) = Inr cs"
    using c0(1) unfolding es by (auto split: sum.splits)
  have "map_res ?norm (enumerate 0 (?es (JStr x))) = Inr (c\<lparr>r_causation_id := x\<rparr> # cs)"
    unfolding es using normalizeEvent_cause[OF c(2) assms(3)] c(3) by simp
  then have "prepareAppend reg (ledger_request sha i n parsed corr (JStr x) actor) = Inr (p\<lparr>pr_candidates := c\<lparr>r_causation_id := x\<rparr> # cs\<rparr>)"
    using unf c0 c(1) by simp
  then show ?thesis using c0(3) c(1) by simp
qed

lemma any_cause_accepted:
  assumes "schema_laws env" "store_ok env st" "json_ok (sa_events rq)" "small (so_ledger st0)"
    "session_append env st rq = (st0, Inr res)" "\<not> sr_idempotent res" "sa_causation rq = JNull"
    "readSession env (so_ledger st) (sa_session rq) 1 MAX_SAFE_INTEGER = Inr old" "old \<noteq> []" "is_text (JStr x)"
  shows "\<exists>st' res'. session_append env st (rq\<lparr>sa_causation := JStr x\<rparr>) = (st', Inr res') \<and> \<not> sr_idempotent res' \<and>
     length (led_rows (so_ledger st')) = length (led_rows (so_ledger st0))"
proof -
  let ?rq = "rq\<lparr>sa_causation := JStr x\<rparr>" and ?reg = "se_registry env" and ?l = "so_ledger st"
  have x: "js_truthy (JStr x)" "JStr x \<noteq> JNull" using assms(10) by auto
  obtain st1 lrq r where a: "session_prepareAppend env st rq None = (st1, Inr lrq)"
    "ledger_append ?reg ?l lrq = (so_ledger st0, Inr r)" "formatResult env r = Inr res"
    using append_Inr[OF assms(5)] by metis
  have same: "so_ledger st1 = ?l" using prepare_ledger[of env st rq None] a(1) by simp
  have l: "ledger_ok ?l" "well_written env (led_rows ?l)" using assms(2) by (simp_all add: store_ok_def)
  have ni: "\<not> ar_idempotent r" using a(3) assms(6) by (auto simp: formatResult_def)
  obtain p where p: "prepareAppend ?reg lrq = Inr p"
    "append_rows (led_catalog ?l) (led_rows ?l) (pr_stream p) (pr_expected p) (pr_candidates p) = Inr (led_rows (so_ledger st0), r)"
    using ledger_append_Inr[OF a(2)] by metis
  obtain i where i: "sa_session rq = JStr i" "sa_expected rq = JNum (int (length old))"
    using prepared_extends[OF assms(1,2,4) a(1) assms(3) l(1) _ p ni] assms(8) by (metis Inr_inject prefix_order.refl)
  obtain k actor parsed current corr where ca: "check_append env st rq = Inr (k, actor, parsed, current, corr)"
    "check_continuation env st k (js_int (sa_expected rq)) current parsed = (st1, Inr ())"
    "lrq = ledger_request (se_sha env) k (js_int (sa_expected rq)) parsed corr
       (first_causation (sa_causation rq) current (js_int (sa_expected rq)) k) actor"
    using prepare_Inr[OF a(1)] by metis
  have pos: "js_int (sa_expected rq) \<noteq> 0" using i(2) assms(9) by simp
  have "check_append env st ?rq = check_append env st rq" by (simp add: check_append_def)
  moreover have fc: "first_causation (sa_causation ?rq) current (js_int (sa_expected rq)) k = JStr x"
    using x by (simp add: first_causation_def)
  ultimately have prep: "session_prepareAppend env st ?rq None =
      (st1, Inr (ledger_request (se_sha env) k (js_int (sa_expected rq)) parsed corr (JStr x) actor))"
    unfolding session_prepareAppend_def using ca(1,2) pos by (simp add: Let_def bind_res_simps)
  have "parsed \<noteq> []"
    using check_append_Inr[OF ca(1)] by (auto simp: parse_new_events_def map_res_Inr_iff dest: list_all2_lengthD)
  then obtain c cs where q: "pr_candidates p = c # cs"
    "prepareAppend ?reg (ledger_request (se_sha env) k (js_int (sa_expected rq)) parsed corr (JStr x) actor) =
       Inr (p\<lparr>pr_candidates := c\<lparr>r_causation_id := x\<rparr> # cs\<rparr>)"
    using prepareAppend_cause[OF p(1)[unfolded ca(3)] _ assms(10)] by blast
  obtain rows2 r2 where ar: "append_rows (led_catalog ?l) (led_rows ?l) (pr_stream p) (pr_expected p) (c\<lparr>r_causation_id := x\<rparr> # cs) = Inr (rows2, r2)"
    "\<not> ar_idempotent r2" "length rows2 = length (led_rows (so_ledger st0))"
    using append_rows_cause[OF p(2)[unfolded q(1)] ni] by blast
  let ?p = "p\<lparr>pr_candidates := c\<lparr>r_causation_id := x\<rparr> # cs\<rparr>"
  have "readable env ?p" using prepare_readable[OF assms(1) _ prep q(2)] assms(3) by simp
  then have "\<exists>events. map_res (hydrateSessionEvent env) (ar_events r2) = Inr events"
    using append_rows_fresh(4)[OF _ _ _ ar(2), of "led_rows ?l" ?p "led_catalog ?l" rows2] ar(1) l(1)
    by (intro map_res_total) (auto simp: readable_def ledger_ok_def dest!: set_place)
  then obtain events where ev: "map_res (hydrateSessionEvent env) (ar_events r2) = Inr events" by blast
  show ?thesis
    unfolding session_append_def prep ledger_append_def
    by (simp add: q(2) ar ev same Let_def formatResult_def bind_res_simps)
qed

lemma readable_after_append:
  assumes "schema_laws env" "store_ok env st" "json_ok (sa_events rq)" "small (so_ledger st')"
    "session_append env st rq = (st', Inr res)" "\<not> sr_idempotent res"
    "readSession env (so_ledger st) (sa_session rq) 1 MAX_SAFE_INTEGER = Inr old" "continues rq old (js_items (sa_events rq))"
  shows "\<exists>events. readSession env (so_ledger st') (sa_session rq) 1 MAX_SAFE_INTEGER = Inr events"
  using append_reads[OF assms] by blast

text \<open>
  C28. The cause of a later append is not checked before it is written. Whenever an append that names no
  cause is accepted and writes to a session that has events, the same append with any non-empty text as the
  cause of its first event is accepted too and writes as many rows; but the session can be read afterwards
  only when that cause is its last event or, for an attachment, one of its events: any other cause makes
  every later read of the whole session fail.
\<close>

theorem stray_cause_unreadable:
  assumes "schema_laws env" "store_ok env st" "json_ok (sa_events rq)" "small (so_ledger st0)"
    "session_append env st rq = (st0, Inr res)" "\<not> sr_idempotent res" "sa_causation rq = JNull"
    "readSession env (so_ledger st) (sa_session rq) 1 MAX_SAFE_INTEGER = Inr old" "old \<noteq> []" "is_text (JStr x)"
  shows "\<exists>st' res'. session_append env st (rq\<lparr>sa_causation := JStr x\<rparr>) = (st', Inr res') \<and> \<not> sr_idempotent res' \<and>
     length (led_rows (so_ledger st')) = length (led_rows (so_ledger st0)) \<and>
     ((\<exists>events. readSession env (so_ledger st') (sa_session rq) 1 MAX_SAFE_INTEGER = Inr events) \<longleftrightarrow>
        continues (rq\<lparr>sa_causation := JStr x\<rparr>) old (js_items (sa_events rq)))"
proof -
  let ?rq = "rq\<lparr>sa_causation := JStr x\<rparr>"
  obtain st' res' where a: "session_append env st ?rq = (st', Inr res')" "\<not> sr_idempotent res'"
    "length (led_rows (so_ledger st')) = length (led_rows (so_ledger st0))"
    using any_cause_accepted[OF assms(1-10)] by blast
  have sm: "small (so_ledger st')" using assms(4) a(3) by (simp add: small_def)
  have "(\<exists>events. readSession env (so_ledger st') (sa_session rq) 1 MAX_SAFE_INTEGER = Inr events) \<longleftrightarrow>
      continues ?rq old (js_items (sa_events rq))"
  proof (cases "continues ?rq old (js_items (sa_events rq))")
    case True
    then show ?thesis using readable_after_append[OF assms(1,2) _ sm a(1,2)] assms(3,8) by auto
  next
    case False
    then show ?thesis using stray_cause_fails[OF assms(1,2) _ sm a(1,2)] assms(3,8) by auto
  qed
  then show ?thesis using a by blast
qed

end
