(* ===== verification/SessionFork.thy ===== *)
theory SessionFork
  imports SessionCommit
begin

text \<open>
  Forking a session: one batch attaches the child to the parent's stream and starts the child's stream. The
  child's first event points to the attachment, the attachment to the branch point, and both streams read
  and replay after the batch. The child's authority, policy and limits are bounded by the parent's.
\<close>

subsection \<open>The branch point\<close>

lemma fork_source_events:
  assumes l: "ledger_ok l" "small l" and s: "fork_source env l fk = Inr source"
    and c: "readSession env l (fk_parent fk) 1 MAX_SAFE_INTEGER = Inr current"
  shows "source \<noteq> []" "set source \<subseteq> set current" "\<exists>i. fk_parent fk = JStr i \<and> identifier_ok i"
proof -
  obtain state where rd: "readSession env l (fk_parent fk) 1 (fk_sequence fk) = Inr source"
    and f: "fold_session env None source = Inr state" "ss_sequence state = fk_sequence fk"
    using s by (auto simp: fork_source_def)
  obtain i where i: "fk_parent fk = JStr i" "identifier_ok i" using rd by (auto simp: readSession_def parse_identifier_Inr)
  then show "\<exists>i. fk_parent fk = JStr i \<and> identifier_ok i" by blast
  obtain rows where rows: "readStream l (JStr AGGREGATE_TYPE) (JStr i) 1 (fk_sequence fk) = Inr rows"
    "map_res (hydrateSessionEvent env) rows = Inr source"
    using rd i by (auto simp: readSession_def parse_identifier_Inr)
  have "1 \<le> fk_sequence fk" using rows(1) by (auto simp: readStream_def split: if_splits)
  then show "source \<noteq> []" using fold_session_length[OF f(1)] f(2) by auto
  have sub: "set rows \<subseteq> set (session_rows (led_rows l) i)"
    using rows(1) by (auto simp: readStream_def session_rows_def split: if_splits)
  have h: "map_res (hydrateSessionEvent env) (session_rows (led_rows l) i) = Inr current"
    using c i readSession_Inr[OF l i(2)] by simp
  show "set source \<subseteq> set current"
  proof
    fix e assume "e \<in> set source"
    then obtain r where r: "r \<in> set rows" "hydrateSessionEvent env r = Inr e" using map_res_set[OF rows(2)] by blast
    have all2: "list_all2 (\<lambda>x y. hydrateSessionEvent env x = Inr y) (session_rows (led_rows l) i) current" using h by (simp add: map_res_Inr_iff)
    obtain y where "y \<in> set current" "hydrateSessionEvent env r = Inr y" using list_all2_left[OF all2] sub r(1) by blast
    then show "e \<in> set current" using r(2) by simp
  qed
qed

subsection \<open>The attachment\<close>

lemma attach_type: "ftext (hd (js_items (sa_events (fork_parent_append fk p)))) ''event_type'' = ''child.attached''"
  by (simp add: fork_parent_append_def new_event_def ftext_def js_get_def)

lemma fork_parent_continues:
  assumes laws: "schema_laws env" and l: "ledger_ok l" "small l" and s: "fork_source env l fk = Inr source"
    and c: "readSession env l (fk_parent fk) 1 MAX_SAFE_INTEGER = Inr current" and a: "fp_anchor p = js_get (last source) ''event_id''"
  shows "continues (fork_parent_append fk p) current (js_items (sa_events (fork_parent_append fk p)))"
proof -
  note src = fork_source_events[OF l s c]
  obtain i where i: "fk_parent fk = JStr i" "identifier_ok i" using src(3) by blast
  have h: "map_res (hydrateSessionEvent env) (session_rows (led_rows l) i) = Inr current"
    using c i readSession_Inr[OF l i(2)] by simp
  have m: "last source \<in> set current" using src(1,2) by auto
  have "fp_anchor p = JStr (ftext (last source) ''event_id'')" using hydrated_event_id[OF laws h m] a by simp
  moreover have "sa_causation (fork_parent_append fk p) = fp_anchor p" by (simp add: fork_parent_append_def)
  ultimately show ?thesis using m attach_type by (auto simp: continues_def)
qed

text \<open>The row of an attachment that is already durable holds the given event.\<close>

lemma hydrate_persisted:
  assumes "samePersistedEvent q c" "r_event_id q = r_event_id c"
  shows "hydrateSessionEvent env q = hydrateSessionEvent env c"
  using assms by (simp add: hydrateSessionEvent_def decode_envelope_def row_operation_def samePersistedEvent_def)

lemma find_index_None: "find_index P xs = None \<longleftrightarrow> (\<forall>x \<in> set xs. \<not> P x)"
  by (induction xs) (auto split: option.splits)

lemma find_index_snoc:
  "\<forall>x \<in> set xs. \<not> P x \<Longrightarrow> P y \<Longrightarrow> find_index P (xs @ y # zs) = Some (length xs)"
  by (induction xs) auto

lemma pending_single:
  assumes laws: "schema_laws env" and doc: "document_of env d"
  shows "\<exists>e. pending_candidate env (ledger_event sha i correlation actor (c, d)) = Inr (JStr correlation, c, e) \<and> same_document e d"
proof -
  obtain x where x: "json_ok x" "se_event env x = Inr d" using doc by (auto simp: document_of_def)
  have ok: "json_ok d" using schema_json[OF laws x] .
  obtain e where e: "se_event env (stableValue d) = Inr e" "same_document e d"
    using schema_again[OF laws x, of "stableValue d"] ok by auto
  then show ?thesis
    using stableJson_parses[OF ok]
    by (auto simp: pending_candidate_def ledger_event_def ftext_def js_get_def Let_def bind_res_simps)
qed

lemma pending_anchor:
  assumes laws: "schema_laws env" and doc: "document_of env d"
    and lp: "rq_events lp = JArr [ledger_event (se_sha env) q corr actor (anchor, d)]"
    and pc: "list_all2 (commits env q corr) (pr_candidates pp) [(anchor, d)]" "prepared_ok pp"
    and ap: "append_rows catalog (led_rows l) (pr_stream pp) (pr_expected pp) (pr_candidates pp) = Inr (led_rows l1, rp)"
    and l: "ledger_ok l" "small l" "ledger_ok l1" "ledger_ok l3" "small l3" "well_written env (led_rows l3)"
    and l3: "led_rows l3 = led_rows l1 @ new" and q: "q \<noteq> []"
    and c: "list_all2 (commits env i correlation) new (zip (causes_of causation parsed) parsed)" and docs: "new_documents env i 0 parsed"
    and an: "new_child_anchor env l i parsed (JStr q) causation correlation (Some lp) = Inr ()"
  shows "child_anchor env l3 (hd new) (hydrations env new) (JStr q) = Inr ()"
proof -
  note head = commits_head[OF c docs]
  let ?rows = "session_rows (led_rows l) q"
  have grow: "prefix (led_rows l) (led_rows l1)" using append_rows_ok[OF _ pc(2) ap] l(1) by (auto simp: ledger_ok_def prefix_def)
  then have pre: "prefix (led_rows l) (led_rows l3)" using l3 by (simp add: prefix_prefix)
  have pos1: "r_position (hd new) = Suc (length (led_rows l1))"
    using first_position[of "led_rows l1" new] l(4) l3 head(1) by (simp add: ledger_ok_def)
  then have pos: "length (led_rows l) < r_position (hd new)" using prefix_length_le[OF grow] by simp
  obtain parents later0 att a where ps: "map_res (hydrateSessionEvent env) ?rows = Inr parents"
    and some: "(case Some lp of None \<Rightarrow> Inr [] | Some rq \<Rightarrow> map_res (pending_candidate env) (js_items (rq_events rq))) = Inr later0"
    and f0: "find (\<lambda>c. attaches_to causation i (snd (snd c)))
       (map (\<lambda>(r, e). (JStr (r_correlation_id r), JStr (r_causation_id r), e)) (zip ?rows parents) @ later0) = Some att"
    and fork: "fork_names (nth_event parsed 1) (JStr q)" "canonicalTraceId (se_sha env) (fst att) = Inr a"
      "canonicalTraceId (se_sha env) (JStr correlation) = Inr a" "branches_at (nth_event parsed 1) parents (fst (snd att))"
    by (rule new_child_anchor_Inr[OF an l(1,2) q])
  let ?durable = "map (\<lambda>(r, e). (JStr (r_correlation_id r), JStr (r_causation_id r), e)) (zip ?rows parents)"
  obtain e where e: "later0 = [(JStr corr, anchor, e)]" "same_document e d"
    using pending_single[OF laws doc, of "se_sha env" q corr actor anchor] some lp by (auto split: sum.splits)
  show ?thesis
  proof (cases "find (\<lambda>c. attaches_to causation i (snd (snd c))) ?durable")
    case (Some att0)
    then have "att = att0" using f0 by (simp add: find_append)
    then show ?thesis
      using durable_anchor[OF ps Some[unfolded head(2)] _ _ fork(3)[unfolded head(3)] _ l(1,4,5) pre l(6) q pos head(4,5)] fork by simp
  next
    case None
    have att: "att = (JStr corr, anchor, e)" "attaches_to causation i e"
      using f0 None e(1) by (auto simp: find_append split: if_splits)
    have len: "length parents = length ?rows" using ps by (auto simp: map_res_Inr_iff dest: list_all2_lengthD)
    have "\<forall>x \<in> set ?durable. \<not> attaches_to causation i (snd (snd x))" using None by (auto simp: find_None_iff)
    then have no: "\<forall>x \<in> set parents. \<not> attaches_to causation i x"
      using len by (force simp: set_zip in_set_conv_nth)
    obtain cd where cd: "pr_candidates pp = [cd]" "commits env q corr cd (anchor, d)" using pc(1) by (auto simp: list_all2_Cons2)
    obtain e' where e': "hydrateSessionEvent env cd = Inr e'" "same_document e' d" using cd(2) by (auto simp: commits_def)
    have at': "attaches_to causation i e'"
      using att(2) attaches_same same_document_trans[OF e(2) same_document_sym[OF e'(2)]] head(2) by metis
    have fresh: "\<not> ar_idempotent rp"
    proof
      assume "ar_idempotent rp"
      then obtain x where x: "select_by_id (led_rows l) (r_event_id cd) = Some x" "samePersistedEvent x cd"
        using ap cd(1) unfolding append_rows_def Let_def by (auto split: if_splits sum.splits option.splits)
      have xr: "x \<in> set (led_rows l)" "r_event_id x = r_event_id cd" using x(1) by (auto simp: select_by_id_def find_Some_iff)
      then have "x \<in> set ?rows" using x(2) cd(2) by (auto simp: session_rows_def select_stream_def samePersistedEvent_def commits_def stream_of_def)
      moreover have "hydrateSessionEvent env x = Inr e'" using hydrate_persisted[OF x(2) xr(2)] e'(1) by simp
      moreover have "list_all2 (\<lambda>x y. hydrateSessionEvent env x = Inr y) ?rows parents" using ps by (simp add: map_res_Inr_iff)
      ultimately have "e' \<in> set parents" using list_all2_left by fastforce
      then show False using no at' by blast
    qed
    define row where "row = cd\<lparr>r_position := Suc (length (led_rows l))\<rparr>"
    have l1: "led_rows l1 = led_rows l @ [row]"
      using append_rows_fresh(2)[OF _ pc(2) ap fresh] l(1) cd(1) by (simp add: ledger_ok_def row_def)
    have "stream_of row = (AGGREGATE_TYPE, q)" using cd(2) by (simp add: row_def commits_def)
    then obtain zs where rows3: "session_rows (led_rows l3) q = ?rows @ row # zs"
      using l3 l1 by (simp add: session_rows_def select_stream_def)
    have "hydrateSessionEvent env row = Inr e'" using e'(1) by (simp add: row_def)
    then obtain later where later: "map_res (hydrateSessionEvent env) (session_rows (led_rows l3) q) = Inr (parents @ e' # later)"
      using well_written_hydrates[OF l(6), of q] ps by (auto simp: rows3 map_res_append split: sum.splits)
    have k: "find_index (attaches_to (JStr (r_causation_id (hd new))) i) (parents @ e' # later) = Some (length parents)"
      using find_index_snoc[of parents "attaches_to causation i" e' later] no at' head(2) by simp
    have nth: "session_rows (led_rows l3) q ! length parents = row" using rows3 len by (simp add: nth_append)
    have row: "JStr (r_correlation_id row) = fst att" "JStr (r_causation_id row) = fst (snd att)"
      using cd(2) att(1) by (simp_all add: row_def commits_def)
    have "r_position row < r_position (hd new)" using pos1 l1 by (simp add: row_def)
    then show ?thesis
      using child_anchor_holds[OF l(4,5) q later k head(4) _ _ _ fork(1) head(5), of a] nth row fork(2,3,4) head(3) by simp
  qed
qed

subsection \<open>The batch\<close>

definition fork_batch ::
    "session_env \<Rightarrow> store \<Rightarrow> fork_request \<Rightarrow> fork_plan \<Rightarrow> append_request \<Rightarrow> append_request \<Rightarrow> prepared \<Rightarrow> prepared \<Rightarrow>
       row list \<Rightarrow> row list \<Rightarrow> append_result \<Rightarrow> append_result \<Rightarrow> bool" where
  "fork_batch env st fk p lp lc pp pc rows1 rows3 rp rc \<longleftrightarrow>
     plan_fork env (so_ledger st) fk = Inr p \<and>
     (\<exists>st1 st2. session_prepareAppend env st (fork_parent_append fk p) None = (st1, Inr lp) \<and> so_ledger st1 = so_ledger st \<and>
        session_prepareAppend env st1 (fork_child_append fk p) (Some lp) = (st2, Inr lc)) \<and>
     prepareAppend (se_registry env) lp = Inr pp \<and> prepareAppend (se_registry env) lc = Inr pc \<and>
     append_rows (led_catalog (so_ledger st)) (led_rows (so_ledger st)) (pr_stream pp) (pr_expected pp) (pr_candidates pp) = Inr (rows1, rp) \<and>
     append_rows (led_catalog (so_ledger st)) rows1 (pr_stream pc) (pr_expected pc) (pr_candidates pc) = Inr (rows3, rc)"

lemma fork_outcome:
  assumes "forkSession env st fk = (st', res)"
  shows "(led_rows (so_ledger st') = led_rows (so_ledger st) \<and> (\<exists>e. res = Inl e)) \<or>
    (\<exists>p lp lc pp pc rows1 rp rc. fork_batch env st fk p lp lc pp pc rows1 (led_rows (so_ledger st')) rp rc \<and> res = format_fork env [rp, rc])"
proof (cases "plan_fork env (so_ledger st) fk")
  case (Inl e)
  then show ?thesis using assms by (auto simp: forkSession_def)
next
  case plan: (Inr p)
  obtain st1 r1 where p1: "session_prepareAppend env st (fork_parent_append fk p) None = (st1, r1)" by fastforce
  have l1: "so_ledger st1 = so_ledger st" using prepare_ledger[of env st "fork_parent_append fk p" None] p1 by simp
  show ?thesis
  proof (cases r1)
    case (Inl e)
    then show ?thesis using assms plan p1 l1 by (auto simp: forkSession_def)
  next
    case r1: (Inr lp)
    obtain st2 r2 where p2: "session_prepareAppend env st1 (fork_child_append fk p) (Some lp) = (st2, r2)" by fastforce
    have l2: "so_ledger st2 = so_ledger st" using prepare_ledger[of env st1 "fork_child_append fk p" "Some lp"] p2 l1 by simp
    show ?thesis
    proof (cases r2)
      case (Inl e)
      then show ?thesis using assms plan p1 p2 r1 l2 by (auto simp: forkSession_def)
    next
      case r2: (Inr lc)
      obtain l rs where b: "appendBatch (se_registry env) (so_ledger st) [lp, lc] = (l, rs)" by fastforce
      have out: "so_ledger st' = l" "res = (case rs of Inl e \<Rightarrow> Inl e | Inr xs \<Rightarrow> format_fork env xs)"
        using assms plan p1 p2 r1 r2 b l2 by (auto simp: forkSession_def split: sum.splits)
      show ?thesis
        using appendBatch_cases[OF b]
      proof (elim disjE exE conjE)
        fix ps xs assume x: "rs = Inr xs" "map_res (prepareAppend (se_registry env)) [lp, lc] = Inr ps"
          "append_prepared (led_catalog (so_ledger st)) (led_rows (so_ledger st)) ps = Inr (led_rows l, xs)"
        obtain pp pc where pc: "prepareAppend (se_registry env) lp = Inr pp" "prepareAppend (se_registry env) lc = Inr pc" "ps = [pp, pc]"
          using x(2) by (auto split: sum.splits)
        obtain rows1 rp rc where r: "xs = [rp, rc]"
          "append_rows (led_catalog (so_ledger st)) (led_rows (so_ledger st)) (pr_stream pp) (pr_expected pp) (pr_candidates pp) = Inr (rows1, rp)"
          "append_rows (led_catalog (so_ledger st)) rows1 (pr_stream pc) (pr_expected pc) (pr_candidates pc) = Inr (led_rows l, rc)"
          using x(3) pc(3) by (auto split: sum.splits)
        have "fork_batch env st fk p lp lc pp pc rows1 (led_rows (so_ledger st')) rp rc"
          unfolding fork_batch_def using plan p1 l1 p2 r1 r2 pc(1,2) r out(1) by blast
        moreover have "res = format_fork env [rp, rc]" using out(2) x(1) r(1) by simp
        ultimately show ?thesis by blast
      qed (use out in auto)
    qed
  qed
qed

lemma fork_parent_stage:
  assumes laws: "schema_laws env" and st: "store_ok env st" and sm: "small l1" and json: "fork_json fk"
    and plan: "plan_fork env (so_ledger st) fk = Inr p"
    and prep: "session_prepareAppend env st (fork_parent_append fk p) None = (st1, Inr lp)"
    and pp: "prepareAppend reg lp = Inr pp" and l1: "ledger_ok l1"
    and app: "append_rows catalog (led_rows (so_ledger st)) (pr_stream pp) (pr_expected pp) (pr_candidates pp) = Inr (led_rows l1, rp)"
      "\<not> ar_idempotent rp"
    and cur: "readSession env (so_ledger st) (fk_parent fk) 1 MAX_SAFE_INTEGER = Inr current"
  shows "readSession env l1 (fk_parent fk) 1 MAX_SAFE_INTEGER = Inr (current @ hydrations env (ar_events rp)) \<and>
     (\<exists>s. fold_session env None (current @ hydrations env (ar_events rp)) = Inr s) \<and>
     map_res (hydrateSessionEvent env) (ar_events rp) = Inr (hydrations env (ar_events rp)) \<and>
     (\<forall>i. fk_parent fk = JStr i \<longrightarrow> (\<forall>x \<in> set (ar_events rp). stream_of x = (AGGREGATE_TYPE, i))) \<and>
     led_rows l1 = led_rows (so_ledger st) @ ar_events rp"
proof -
  let ?l = "so_ledger st" and ?rq = "fork_parent_append fk p"
  obtain source where src: "fork_source env ?l fk = Inr source" "fp_anchor p = js_get (last source) ''event_id''"
    using plan_fork_Inr[OF plan] by metis
  note js = fork_events_json(1)[OF laws json plan]
  have rd: "prefix (led_rows ?l) (led_rows l1)"
    using append_rows_readable[OF _ prepare_readable[OF laws js prep pp] _ app(1)] st by (simp add: store_ok_def ledger_ok_def)
  have lo: "ledger_ok ?l" "small ?l" "well_written env (led_rows ?l)" using st small_prefix[OF sm rd] by (simp_all add: store_ok_def)
  obtain parsed where pa: "map_res (se_event env) (js_items (sa_events ?rq)) = Inr parsed" using prepare_parses(1)[OF prep] by blast
  have "list_all2 same_document parsed (js_items (sa_events ?rq))"
    using parsed_same[OF laws pa] js by (cases "sa_events ?rq") auto
  then have cont: "continues ?rq current parsed"
    using continues_same fork_parent_continues[OF laws lo(1,2) src(1) cur src(2)] prepare_parses(2)[OF prep] by blast
  have ne: "current \<noteq> []" using fork_source_events(1,2)[OF lo(1,2) src(1) cur] by auto
  have ses: "sa_session ?rq = fk_parent fk" by (simp add: fork_parent_append_def)
  have "readSession env l1 (sa_session ?rq) 1 MAX_SAFE_INTEGER = Inr (current @ hydrations env (ar_events rp)) \<and>
     list_all2 same_document (hydrations env (ar_events rp)) parsed \<and>
     map_res (hydrateSessionEvent env) (ar_events rp) = Inr (hydrations env (ar_events rp)) \<and>
     ar_version rp = length current + length parsed \<and>
     (\<exists>s. fold_session env None (current @ hydrations env (ar_events rp)) = Inr s) \<and>
     (\<exists>i. sa_session ?rq = JStr i \<and> identifier_ok i \<and> (\<forall>x \<in> set (ar_events rp). stream_of x = (AGGREGATE_TYPE, i))) \<and>
     led_rows l1 = led_rows ?l @ ar_events rp"
    by (rule extended_session[OF laws st sm prep js lo(1) _ lo(3) pp l1 app _ pa cont]) (use cur ses ne in auto)
  then show ?thesis using ses by auto
qed

lemma fork_parent_request:
  assumes laws: "schema_laws env" and json: "fork_json fk" and plan: "plan_fork env (so_ledger st) fk = Inr p"
    and prep: "session_prepareAppend env st (fork_parent_append fk p) None = (st1, Inr lp)" and pp: "prepareAppend reg lp = Inr pp"
  obtains q d corr anchor actor where "fk_parent fk = JStr q" "q \<noteq> []" "document_of env d"
    "rq_events lp = JArr [ledger_event (se_sha env) q corr actor (anchor, d)]"
    "list_all2 (commits env q corr) (pr_candidates pp) [(anchor, d)]" "prepared_ok pp"
proof -
  let ?rq = "fork_parent_append fk p"
  note js = fork_events_json(1)[OF laws json plan]
  obtain q actor parsed current corr where ca: "check_append env st ?rq = Inr (q, actor, parsed, current, corr)"
    and lrq: "lp = ledger_request (se_sha env) q (js_int (sa_expected ?rq)) parsed corr
       (first_causation (sa_causation ?rq) current (js_int (sa_expected ?rq)) q) actor"
    using prepare_Inr[OF prep] by metis
  obtain expected where ch: "sa_session ?rq = JStr q" "identifier_ok q" "js_items (sa_events ?rq) \<noteq> []"
    "parse_new_events env q expected (js_items (sa_events ?rq)) = Inr parsed" "js_int (sa_expected ?rq) = expected"
    using check_append_Inr[OF ca] js_int.simps(1) by metis
  have docs: "new_documents env q expected parsed"
    using parse_new_events_documents[OF ch(4) _ ch(3)] js by (cases "sa_events ?rq") auto
  have "map_res (se_event env) (js_items (sa_events ?rq)) = Inr parsed" using ch(4) by (auto simp: parse_new_events_def)
  then have "length parsed = length (js_items (sa_events ?rq))" by (auto simp: map_res_Inr_iff dest: list_all2_lengthD)
  then have "length parsed = 1" by (simp add: fork_parent_append_def)
  then obtain d where d: "parsed = [d]" by (cases parsed) auto
  note cm = request_commits[OF laws docs pp[unfolded lrq ch(5)]]
  have "document_of env d" using docs d by (simp add: new_documents_def)
  moreover have "fk_parent fk = JStr q" using ch(1) by (simp add: fork_parent_append_def)
  ultimately show thesis
    using that[of q d corr actor "first_causation (sa_causation ?rq) current expected q"] identifier_text[OF ch(2)] cm(3,4) lrq ch(5)
    by (simp add: d ledger_request_def causes_of_def)
qed

lemma fork_child_parent:
  assumes laws: "schema_laws env" and plan: "plan_fork env l fk = Inr p" and js: "json_ok (sa_events (fork_child_append fk p))"
    and pa: "map_res (se_event env) (js_items (sa_events (fork_child_append fk p))) = Inr parsed"
    and q: "js_get (js_get (js_get (hd parsed) ''payload'') ''spec'') ''parent_session_id'' = JStr q"
  shows "fk_parent fk = JStr q"
proof -
  let ?x = "hd (js_items (sa_events (fork_child_append fk p)))"
  have "list_all2 same_document parsed (js_items (sa_events (fork_child_append fk p)))"
    using parsed_same[OF laws pa] js by (cases "sa_events (fork_child_append fk p)") auto
  then have "same_document (hd parsed) ?x"
    by (cases parsed) (auto simp: fork_child_append_def Let_def)
  note leaf = same_leaf(1)[OF same_document_get3[OF this]]
  have "js_get (js_get (js_get ?x ''payload'') ''spec'') ''parent_session_id'' = js_get (fp_spec p) ''parent_session_id''"
    by (simp add: fork_child_append_def new_event_def js_get_def Let_def)
  moreover obtain parent where "fork_authority env fk parent = Inr (fp_spec p)" by (rule plan_fork_Inr[OF plan])
  then have "js_get (fp_spec p) ''parent_session_id'' = fk_parent fk" by (simp add: fork_authority_Inr)
  ultimately show ?thesis using leaf[THEN iffD1, OF q] by simp
qed

lemma fork_child_stage:
  assumes laws: "schema_laws env" and st: "store_ok env st" and sm: "small l3" and json: "fork_json fk"
    and plan: "plan_fork env (so_ledger st) fk = Inr p"
    and prep: "session_prepareAppend env st (fork_parent_append fk p) None = (st1, Inr lp)" "so_ledger st1 = so_ledger st"
      "session_prepareAppend env st1 (fork_child_append fk p) (Some lp) = (st2, Inr lc)"
    and pp: "prepareAppend reg lp = Inr pp" "prepareAppend reg lc = Inr pc" and l13: "ledger_ok l1" "ledger_ok l3"
    and app: "append_rows catalog (led_rows (so_ledger st)) (pr_stream pp) (pr_expected pp) (pr_candidates pp) = Inr (led_rows l1, rp)"
      "append_rows catalog (led_rows l1) (pr_stream pc) (pr_expected pc) (pr_candidates pc) = Inr (led_rows l3, rc)" "\<not> ar_idempotent rc"
  shows "readSession env l3 (js_get (fp_spec p) ''session_id'') 1 MAX_SAFE_INTEGER = Inr (hydrations env (ar_events rc)) \<and>
     (\<exists>s. fold_session env None (hydrations env (ar_events rc)) = Inr s) \<and>
     map_res (hydrateSessionEvent env) (ar_events rc) = Inr (hydrations env (ar_events rc)) \<and>
     list_all2 same_document (hydrations env (ar_events rc)) (js_items (sa_events (fork_child_append fk p))) \<and>
     (\<exists>i. js_get (fp_spec p) ''session_id'' = JStr i \<and> identifier_ok i \<and> (\<forall>x \<in> set (ar_events rc). stream_of x = (AGGREGATE_TYPE, i))) \<and>
     led_rows l3 = led_rows l1 @ ar_events rc"
proof -
  let ?l = "so_ledger st" and ?rq = "fork_child_append fk p"
  note js = fork_events_json[OF laws json plan]
  have lo: "ledger_ok ?l" "well_written env (led_rows ?l)" "rows_ok (led_rows ?l)" using st by (simp_all add: store_ok_def ledger_ok_def)
  have w1: "prefix (led_rows ?l) (led_rows l1)" "well_written env (led_rows l1)"
    using append_rows_readable[OF lo(3) prepare_readable[OF laws js(1) prep(1) pp(1)] lo(2) app(1)] by simp_all
  have w3: "prefix (led_rows l1) (led_rows l3)" "well_written env (led_rows l3)"
    using append_rows_readable[OF _ prepare_readable[OF laws js(2) prep(3) pp(2)] w1(2) app(2)] l13(1) by (simp_all add: ledger_ok_def)
  have sml: "small ?l" using small_prefix[OF sm] prefix_order.trans[OF w1(1) w3(1)] by blast
  have st1: "store_ok env st1" using prepare_step[OF st sml, of "fork_parent_append fk p" None] cache_step_ok[OF _ st] prep(1) by simp
  have pre1: "prefix (led_rows (so_ledger st1)) (led_rows l1)" using w1(1) prep(2) by simp
  obtain old parsed where o: "readSession env (so_ledger st1) (sa_session ?rq) 1 MAX_SAFE_INTEGER = Inr old"
    "map_res (se_event env) (js_items (sa_events ?rq)) = Inr parsed" "sa_expected ?rq = JNum (int (length old))"
    using prepared_extends[OF laws st1 sm prep(3) js(2) l13(1) pre1 pp(2) app(2,3)] by metis
  have nil: "old = []" using o(3) by (simp add: fork_child_append_def Let_def)
  have cont: "continues ?rq old parsed" by (simp add: continues_def nil)
  obtain q d corr anchor actor where pr: "fk_parent fk = JStr q" "q \<noteq> []" "document_of env d"
    "rq_events lp = JArr [ledger_event (se_sha env) q corr actor (anchor, d)]"
    "list_all2 (commits env q corr) (pr_candidates pp) [(anchor, d)]" "prepared_ok pp"
    using fork_parent_request[OF laws json plan prep(1) pp(1)] by metis
  have child: "child_anchor env l3 (hd new) (hydrations env new) (JStr k) = Inr ()"
    if "js_get (js_get (js_get (hd parsed) ''payload'') ''spec'') ''parent_session_id'' = JStr k"
      "led_rows l3 = led_rows l1 @ new" "new_documents env i 0 parsed"
      "list_all2 (commits env i correlation) new (zip (causes_of (anchor_of ?rq old i) parsed) parsed)"
      "new_child_anchor env (so_ledger st1) i parsed (JStr k) (anchor_of ?rq old i) correlation (Some lp) = Inr ()" for i correlation k new
  proof -
    have k: "k = q" using fork_child_parent[OF laws plan js(2) o(2) that(1)] pr(1) by simp
    show ?thesis
      using pending_anchor[OF laws pr(3,4,5,6) app(1) lo(1) sml l13 sm w3(2) that(2) pr(2) that(4,3)] that(5) k prep(2) by simp
  qed
  have x: "readSession env l3 (sa_session ?rq) 1 MAX_SAFE_INTEGER = Inr (old @ hydrations env (ar_events rc)) \<and>
     list_all2 same_document (hydrations env (ar_events rc)) parsed \<and>
     map_res (hydrateSessionEvent env) (ar_events rc) = Inr (hydrations env (ar_events rc)) \<and>
     ar_version rc = length old + length parsed \<and>
     (\<exists>s. fold_session env None (old @ hydrations env (ar_events rc)) = Inr s) \<and>
     (\<exists>i. sa_session ?rq = JStr i \<and> identifier_ok i \<and> (\<forall>x \<in> set (ar_events rc). stream_of x = (AGGREGATE_TYPE, i))) \<and>
     led_rows l3 = led_rows l1 @ ar_events rc"
    by (rule extended_session[OF laws st1 sm prep(3) js(2) l13(1) pre1 w1(2) pp(2) l13(2) app(2,3) o(1,2) cont]) (use child in blast)
  have ses: "sa_session ?rq = js_get (fp_spec p) ''session_id''" by (simp add: fork_child_append_def Let_def)
  have hx: "list_all2 same_document (hydrations env (ar_events rc)) parsed" using x by (elim conjE)
  have px: "list_all2 same_document parsed (js_items (sa_events ?rq))"
    using parsed_same[OF laws o(2)] js(2) by (cases "sa_events ?rq") auto
  have "list_all2 same_document (hydrations env (ar_events rc)) (js_items (sa_events ?rq))"
    by (rule list_all2_trans[OF same_document_trans hx px])
  then show ?thesis using x ses nil by simp
qed

subsection \<open>Guarantees of a fork\<close>

lemma append_rows_events:
  assumes "rows_ok rows" "prepared_ok p" "pr_stream p = (AGGREGATE_TYPE, i)" "well_written env rows'"
    "append_rows catalog rows (pr_stream p) (pr_expected p) (pr_candidates p) = Inr (rows', r)"
  shows "\<exists>es. map_res (hydrateSessionEvent env) (ar_events r) = Inr es"
proof (rule map_res_total)
  fix x assume x: "x \<in> set (ar_events r)"
  have num: "\<forall>c \<in> set (pr_candidates p). stream_of c = (AGGREGATE_TYPE, i)" using assms(2,3) by (simp add: prepared_ok_def numbered_def)
  have "x \<in> set rows' \<and> r_aggregate_type x = AGGREGATE_TYPE"
  proof (cases "ar_idempotent r")
    case True
    have e: "list_all2 (\<lambda>e c. case e of None \<Rightarrow> False | Some r \<Rightarrow> samePersistedEvent r c)
        (map (\<lambda>c. select_by_id rows (r_event_id c)) (pr_candidates p)) (pr_candidates p)" "rows' = rows"
      "ar_events r = map the (map (\<lambda>c. select_by_id rows (r_event_id c)) (pr_candidates p))"
      using assms(5) True unfolding append_rows_def Let_def by (auto split: if_splits sum.splits)
    then obtain c where c: "c \<in> set (pr_candidates p)" "x = the (select_by_id rows (r_event_id c))" using x by auto
    obtain q where q: "select_by_id rows (r_event_id c) = Some q" "samePersistedEvent q c"
      using e(1) c(1) by (fastforce simp: list_all2_conv_all_nth in_set_conv_nth split: option.splits)
    have "q \<in> set rows" using q(1) by (auto simp: select_by_id_def find_Some_iff)
    then show ?thesis using c q e(2) num by (auto simp: samePersistedEvent_def stream_of_def)
  next
    case False
    note g = append_rows_fresh[OF assms(1,2,5) False]
    have "x \<in> set (place (length rows) (pr_candidates p))" using x g(4) by simp
    then obtain c m where "c \<in> set (pr_candidates p)" "x = c\<lparr>r_position := m\<rparr>" "x \<in> set rows'"
      using set_place g(2) by (metis UnCI set_append)
    then show ?thesis using num by (auto simp: stream_of_def)
  qed
  then show "\<exists>y. hydrateSessionEvent env x = Inr y" using assms(4) by (auto simp: well_written_def)
qed

lemma prepared_stream:
  assumes "session_prepareAppend env st rq pending = (st1, Inr lrq)" "prepareAppend reg lrq = Inr p"
  shows "\<exists>i. pr_stream p = (AGGREGATE_TYPE, i)"
proof -
  obtain i where "rq_aggregate_type lrq = JStr AGGREGATE_TYPE" "rq_aggregate_id lrq = JStr i"
    using prepare_Inr[OF assms(1)] by (metis append_request.select_convs(1,2) ledger_request_def)
  then show ?thesis using prepareAppend_ok(3)[OF assms(2)] by simp
qed

lemma fork_batch_grows:
  assumes laws: "schema_laws env" and st: "store_ok env st" and json: "fork_json fk"
    and b: "fork_batch env st fk p lp lc pp pc rows1 rows3 rp rc"
  shows "rows_ok rows1" "rows_ok rows3" "prefix (led_rows (so_ledger st)) rows1" "prefix rows1 rows3" "well_written env rows1" "well_written env rows3"
    "ledger_ok ((so_ledger st)\<lparr>led_rows := rows1\<rparr>)" "\<exists>x. formatResult env rp = Inr x" "\<exists>x. formatResult env rc = Inr x"
proof -
  obtain st1 st2 where u: "plan_fork env (so_ledger st) fk = Inr p"
     "session_prepareAppend env st (fork_parent_append fk p) None = (st1, Inr lp)"
     "session_prepareAppend env st1 (fork_child_append fk p) (Some lp) = (st2, Inr lc)"
     "prepareAppend (se_registry env) lp = Inr pp" "prepareAppend (se_registry env) lc = Inr pc"
     "append_rows (led_catalog (so_ledger st)) (led_rows (so_ledger st)) (pr_stream pp) (pr_expected pp) (pr_candidates pp) = Inr (rows1, rp)"
     "append_rows (led_catalog (so_ledger st)) rows1 (pr_stream pc) (pr_expected pc) (pr_candidates pc) = Inr (rows3, rc)"
    using b unfolding fork_batch_def by blast
  note js = fork_events_json[OF laws json u(1)]
  have lo: "rows_ok (led_rows (so_ledger st))" "well_written env (led_rows (so_ledger st))" "\<forall>r \<in> set (led_rows (so_ledger st)). row_clean r"
    using st by (simp_all add: store_ok_def ledger_ok_def)
  have g1: "rows_ok rows1 \<and> prefix (led_rows (so_ledger st)) rows1 \<and> well_written env rows1"
    using append_rows_readable[OF lo(1) prepare_readable[OF laws js(1) u(2,4)] lo(2) u(6)] .
  have g3: "rows_ok rows3 \<and> prefix rows1 rows3 \<and> well_written env rows3"
    using append_rows_readable[OF _ prepare_readable[OF laws js(2) u(3,5)] _ u(7)] g1 by blast
  show "rows_ok rows1" "rows_ok rows3" "prefix (led_rows (so_ledger st)) rows1" "prefix rows1 rows3" "well_written env rows1" "well_written env rows3"
    using g1 g3 by blast+
  note po = prepareAppend_ok(1)[OF u(4)] prepareAppend_ok(1)[OF u(5)]
  show "ledger_ok ((so_ledger st)\<lparr>led_rows := rows1\<rparr>)"
    using append_rows_ok[OF lo(1) po(1) u(6)] lo(3) by (auto simp: ledger_ok_def)
  obtain i j where s: "pr_stream pp = (AGGREGATE_TYPE, i)" "pr_stream pc = (AGGREGATE_TYPE, j)"
    using prepared_stream[OF u(2,4)] prepared_stream[OF u(3,5)] by blast
  show "\<exists>x. formatResult env rp = Inr x"
    using append_rows_events[OF lo(1) po(1) s(1) _ u(6)] g1 by (auto simp: formatResult_def bind_res_simps)
  show "\<exists>x. formatResult env rc = Inr x"
    using append_rows_events[OF _ po(2) s(2) _ u(7)] g1 g3 by (auto simp: formatResult_def bind_res_simps)
qed

lemma fork_batch_session:
  assumes laws: "schema_laws env" and st: "store_ok env st" and json: "fork_json fk"
    and b: "fork_batch env st fk p lp lc pp pc rows1 (led_rows l3) rp rc" and l3: "ledger_ok l3" "small l3"
    and j: "identifier_ok j" and ok: "session_replays env (so_ledger st) j"
  shows "session_replays env l3 j"
proof -
  define l1 where "l1 = (so_ledger st)\<lparr>led_rows := rows1\<rparr>"
  note g = fork_batch_grows[OF laws st json b]
  obtain st1 st2 where u: "plan_fork env (so_ledger st) fk = Inr p"
     "session_prepareAppend env st (fork_parent_append fk p) None = (st1, Inr lp)" "so_ledger st1 = so_ledger st"
     "session_prepareAppend env st1 (fork_child_append fk p) (Some lp) = (st2, Inr lc)"
     "prepareAppend (se_registry env) lp = Inr pp" "prepareAppend (se_registry env) lc = Inr pc"
     "append_rows (led_catalog (so_ledger st)) (led_rows (so_ledger st)) (pr_stream pp) (pr_expected pp) (pr_candidates pp) = Inr (led_rows l1, rp)"
     "append_rows (led_catalog (so_ledger st)) (led_rows l1) (pr_stream pc) (pr_expected pc) (pr_candidates pc) = Inr (led_rows l3, rc)"
    using b unfolding fork_batch_def l1_def by auto
  have l1: "ledger_ok l1" "led_rows l1 = rows1" using g(7) by (simp_all add: l1_def)
  have s1: "small l1" using small_prefix[OF l3(2)] g(4) l1(2) by simp
  have lo: "ledger_ok (so_ledger st)" using st by (simp add: store_ok_def)
  obtain current where cur: "readSession env (so_ledger st) (fk_parent fk) 1 MAX_SAFE_INTEGER = Inr current" by (rule plan_fork_Inr[OF u(1)])
  obtain source where src: "fork_source env (so_ledger st) fk = Inr source" by (rule plan_fork_Inr[OF u(1)])
  have sml: "small (so_ledger st)" using small_prefix[OF s1] g(3) l1(2) by simp
  obtain q where q: "fk_parent fk = JStr q" "identifier_ok q" using fork_source_events(3)[OF lo sml src cur] by blast
  have ok1: "session_replays env l1 j"
  proof (cases "ar_idempotent rp")
    case True
    then show ?thesis using append_rows_idempotent[OF u(7)] session_replays_rows[of l1 "so_ledger st"] ok by simp
  next
    case False
    note ps = fork_parent_stage[OF laws st s1 json u(1,2,5) l1(1) u(7) False cur]
    have own: "session_replays env l1 j" if "j = q"
      using ps q that by (auto simp: session_replays_def bind_res_simps)
    have str: "\<forall>x \<in> set (ar_events rp). stream_of x = (AGGREGATE_TYPE, q)" using ps q(1) by blast
    have new: "led_rows l1 = led_rows (so_ledger st) @ ar_events rp" using ps by blast
    have w: "well_written env (led_rows l1)" using g(5) l1(2) by simp
    show ?thesis by (rule session_replays_extended[OF lo l1(1) s1 new w str j own ok])
  qed
  show ?thesis
  proof (cases "ar_idempotent rc")
    case True
    then show ?thesis using append_rows_idempotent[OF u(8)] session_replays_rows[of l3 l1] ok1 by simp
  next
    case False
    note cs = fork_child_stage[OF laws st l3(2) json u(1,2,3,4,5,6) l1(1) l3(1) u(7,8) False]
    obtain c where c: "js_get (fp_spec p) ''session_id'' = JStr c" "\<forall>x \<in> set (ar_events rc). stream_of x = (AGGREGATE_TYPE, c)"
      using cs by (elim conjE exE)
    have own: "session_replays env l3 j" if "j = c"
      using cs c(1) that by (auto simp: session_replays_def bind_res_simps)
    have new: "led_rows l3 = led_rows l1 @ ar_events rc" using cs by (elim conjE)
    show ?thesis by (rule session_replays_extended[OF l1(1) l3 new g(6) c(2) j own ok1])
  qed
qed

lemma fork_ledger_ok:
  assumes "store_ok env st" "forkSession env st fk = (st', res)" "schema_laws env" "small (so_ledger st)" "fork_json fk"
  shows "ledger_ok (so_ledger st')"
  using fork_keeps[OF assms(3,1,4,5)] assms(2) by (simp add: store_ok_def)

text \<open>
  C12. A fork never widens authority: when a fork succeeds and its child is new, the specification of the
  child names the parent, has the parent's authority and policy, and exceeds none of the parent's limits;
  the child's stream then reads, replays and begins with the creation event that carries this specification.
\<close>

theorem fork_bounded_child:
  assumes "schema_laws env" "store_ok env st" "small (so_ledger st)" "small (so_ledger st')" "fork_json fk"
    "forkSession env st fk = (st', Inr (pr, cr))" "\<not> sr_idempotent cr"
  shows "\<exists>current parent spec.
     readSession env (so_ledger st) (fk_parent fk) 1 MAX_SAFE_INTEGER = Inr current \<and> fold_session env None current = Inr parent \<and>
     stableValue spec = stableValue (fk_spec fk) \<and> js_get spec ''parent_session_id'' = fk_parent fk \<and>
     js_get spec ''authority_ref'' = js_get (ss_spec parent) ''authority_ref'' \<and>
     js_get spec ''policy_ref'' = js_get (ss_spec parent) ''policy_ref'' \<and>
     list_all (\<lambda>(k, v). \<not> js_greater v (js_get (js_get (ss_spec parent) ''limits'') k)) (own_fields (js_get spec ''limits'')) \<and>
     readSession env (so_ledger st') (js_get spec ''session_id'') 1 MAX_SAFE_INTEGER = Inr (sr_events cr) \<and>
     (\<exists>s. fold_session env None (sr_events cr) = Inr s) \<and>
     stableValue (js_get (js_get (hd (sr_events cr)) ''payload'') ''spec'') = stableValue spec"
proof -
  obtain p lp lc pp pc rows1 rp rc where b: "fork_batch env st fk p lp lc pp pc rows1 (led_rows (so_ledger st')) rp rc"
    and fmt: "Inr (pr, cr) = format_fork env [rp, rc]"
    using fork_outcome[OF assms(6)] by auto
  define l1 where "l1 = (so_ledger st)\<lparr>led_rows := rows1\<rparr>"
  obtain st1 st2 where u: "plan_fork env (so_ledger st) fk = Inr p"
     "session_prepareAppend env st (fork_parent_append fk p) None = (st1, Inr lp)" "so_ledger st1 = so_ledger st"
     "session_prepareAppend env st1 (fork_child_append fk p) (Some lp) = (st2, Inr lc)"
     "prepareAppend (se_registry env) lp = Inr pp" "prepareAppend (se_registry env) lc = Inr pc"
     "append_rows (led_catalog (so_ledger st)) (led_rows (so_ledger st)) (pr_stream pp) (pr_expected pp) (pr_candidates pp) = Inr (led_rows l1, rp)"
     "append_rows (led_catalog (so_ledger st)) (led_rows l1) (pr_stream pc) (pr_expected pc) (pr_candidates pc) = Inr (led_rows (so_ledger st'), rc)"
    using b unfolding fork_batch_def l1_def by auto
  have l: "ledger_ok l1" "ledger_ok (so_ledger st')"
    using fork_batch_grows(7)[OF assms(1,2,5) b] fork_ledger_ok[OF assms(2,6,1,3,5)] by (simp_all add: l1_def)
  have f: "sr_idempotent cr = ar_idempotent rc" "map_res (hydrateSessionEvent env) (ar_events rc) = Inr (sr_events cr)"
    using fmt by (auto simp: format_fork_def formatResult_def bind_res_def split: sum.splits)
  have ni: "\<not> ar_idempotent rc" using f(1) assms(7) by simp
  note cs = fork_child_stage[OF assms(1,2,4,5) u(1,2,3,4,5,6) l u(7,8) ni]
  have ev: "sr_events cr = hydrations env (ar_events rc)" using cs f(2) by simp
  have rd: "readSession env (so_ledger st') (js_get (fp_spec p) ''session_id'') 1 MAX_SAFE_INTEGER = Inr (sr_events cr)"
    using cs ev by simp
  have fs: "\<exists>s. fold_session env None (sr_events cr) = Inr s" using cs ev by simp
  have same: "list_all2 same_document (sr_events cr) (js_items (sa_events (fork_child_append fk p)))" using cs ev by simp
  have "same_document (hd (sr_events cr)) (hd (js_items (sa_events (fork_child_append fk p))))"
    using same by (cases "sr_events cr") (auto simp: fork_child_append_def Let_def)
  note pay = same_documentD(5)[OF this, of "''payload''" "''spec''"]
  have sp: "js_get (js_get (hd (js_items (sa_events (fork_child_append fk p)))) ''payload'') ''spec'' = fp_spec p"
    by (simp add: fork_child_append_def new_event_def js_get_def Let_def)
  obtain current parent where c: "readSession env (so_ledger st) (fk_parent fk) 1 MAX_SAFE_INTEGER = Inr current"
    "fold_session env None current = Inr parent" "fork_authority env fk parent = Inr (fp_spec p)"
    by (rule plan_fork_Inr[OF u(1)])
  note au = c(3)[unfolded fork_authority_Inr]
  have lim: "list_all (\<lambda>(k, v). \<not> js_greater v (js_get (js_get (ss_spec parent) ''limits'') k)) (own_fields (js_get (fp_spec p) ''limits''))"
    using au by (auto simp: fork_limits_def list_all_iff guards_Cons)
  have "stableValue (fp_spec p) = stableValue (fk_spec fk)"
    using schema_spec_same[OF assms(1)] au assms(5) by (auto simp: fork_json_def same_document_def)
  then show ?thesis using c(1,2) au lim rd fs pay sp by (intro exI[of _ current] exI[of _ parent] exI[of _ "fp_spec p"]) simp
qed

text \<open>
  C13. A fork is all or nothing and breaks no session: when it fails it leaves every row of the ledger as it
  was, and, whether it succeeds or fails, each session that could be read and replayed before the fork can be
  read and replayed after it, whatever the state of the other sessions. The schemas follow their laws, the
  rows of the store are well written, the request is JSON and the ledger stays below \<open>2 ^ 53\<close> rows.
\<close>

theorem fork_all_or_nothing:
  assumes "schema_laws env" "store_ok env st" "small (so_ledger st)" "small (so_ledger st')" "fork_json fk"
    "forkSession env st fk = (st', res)"
  shows "(isl res \<longrightarrow> led_rows (so_ledger st') = led_rows (so_ledger st)) \<and>
     (\<forall>i. identifier_ok i \<and> session_replays env (so_ledger st) i \<longrightarrow> session_replays env (so_ledger st') i)"
  using fork_outcome[OF assms(6)]
proof (elim disjE exE conjE)
  assume "led_rows (so_ledger st') = led_rows (so_ledger st)"
  then show ?thesis using session_replays_rows by blast
next
  fix p lp lc pp pc rows1 rp rc
  assume b: "fork_batch env st fk p lp lc pp pc rows1 (led_rows (so_ledger st')) rp rc" and r: "res = format_fork env [rp, rc]"
  have "\<not> isl res" using fork_batch_grows(8,9)[OF assms(1,2,5) b] r by (auto simp: format_fork_def bind_res_simps)
  then show ?thesis
    using fork_batch_session[OF assms(1,2,5) b fork_ledger_ok[OF assms(2,6,1,3,5)] assms(4)] by blast
qed

end
