(* ===== verification/SessionDemo.thy ===== *)
theory SessionDemo
  imports SessionFork
begin

text \<open>
  A concrete session store on which every hypothesis of the session properties holds: a schema that accepts
  every JSON object with an identifier, an injective stand-in for SHA-256, a root session with two events,
  a second root session, and a fork of the first.
\<close>

definition demo_hex :: "string \<Rightarrow> string" where
  "demo_hex s = concat (map (\<lambda>c. [hex_char (of_char c div 16), hex_char (of_char c mod 16)]) s)"

definition demo_sha :: "string \<Rightarrow> string" where
  "demo_sha s = take 64 (demo_hex s @ replicate 64 (CHR ''0''))"

definition demo_event_schema :: "js \<Rightarrow> js res" where
  "demo_event_schema v = (if json_ok v \<and> is_text (js_get v ''event_id'') then Inr v else Inl (store_invalid ''event''))"

definition demo_spec_schema :: "js \<Rightarrow> js res" where
  "demo_spec_schema v =
     (if json_ok v \<and> is_str (js_get v ''session_id'') \<and> is_str (js_get v ''authority_ref'') then Inr v else Inl (store_invalid ''spec''))"

definition demo_env :: session_env where
  "demo_env = \<lparr>se_sha = demo_sha, se_event = demo_event_schema, se_spec = demo_spec_schema, se_registry = empty_registry\<rparr>"

definition demo_time :: js where
  "demo_time = JStr ''2026-01-01T00:00:00.000Z''"

definition demo_spec :: "string \<Rightarrow> js \<Rightarrow> js" where
  "demo_spec i parent = JObj [(''session_id'', JStr i), (''parent_session_id'', parent), (''authority_ref'', JStr ''a''),
     (''policy_ref'', JStr ''p''), (''limits'', JObj [(''max_children'', JNum 2)])]"

definition demo_created :: "string \<Rightarrow> js" where
  "demo_created i = new_event (JStr ''e1'') (JStr i) 1 demo_time ''session.created'' (JObj [(''spec'', demo_spec i JNull)])"

definition demo_resumed :: "string \<Rightarrow> js" where
  "demo_resumed i = new_event (JStr ''e2'') (JStr i) 2 demo_time ''session.resumed'' (JObj [(''from_sequence'', JNum 1)])"

definition demo_request :: "string \<Rightarrow> int \<Rightarrow> js \<Rightarrow> js \<Rightarrow> session_append_request" where
  "demo_request i n event cause = \<lparr>sa_session = JStr i, sa_expected = JNum n, sa_events = JArr [event],
     sa_correlation = JUndef, sa_causation = cause, sa_actor = JUndef\<rparr>"

definition demo_store0 :: store where
  "demo_store0 = \<lparr>so_ledger = new_ledger [(LEDGER_EVENT_TYPE, 1)], so_actor = JObj [(''id'', JStr ''kernel'')], so_cache = [],
     so_revision = 0, so_transaction = None\<rparr>"

definition demo_store1 :: store where
  "demo_store1 = fst (session_append demo_env demo_store0 (demo_request ''p'' 0 (demo_created ''p'') JNull))"

definition demo_store2 :: store where
  "demo_store2 = fst (replay demo_env demo_store1 (JStr ''p'') MAX_SAFE_INTEGER False)"

definition demo_store3 :: store where
  "demo_store3 = fst (session_append demo_env demo_store2 (demo_request ''p'' 1 (demo_resumed ''p'') JNull))"

definition demo_step :: "store \<Rightarrow> session_append_request \<Rightarrow> bool" where
  "demo_step st rq =
     (case session_append demo_env st rq of
        (st', Inr res) \<Rightarrow> \<not> sr_idempotent res \<and> length (led_rows (so_ledger st')) < 10
      | (st', Inl e) \<Rightarrow> False)"

definition demo_fork :: fork_request where
  "demo_fork = \<lparr>fk_parent = JStr ''p'', fk_sequence = 1, fk_spec = demo_spec ''c'' (JStr ''p''), fk_child_request = JNull,
     fk_ids = JObj [(''attached'', JStr ''e3''), (''created'', JStr ''c1''), (''forked'', JStr ''c2'')], fk_at = demo_time,
     fk_correlation = JUndef, fk_actor = JUndef\<rparr>"

definition demo_forked :: bool where
  "demo_forked =
     (case forkSession demo_env demo_store1 demo_fork of
        (st', Inr (parent, child)) \<Rightarrow> \<not> sr_idempotent child \<and> length (led_rows (so_ledger st')) < 10
      | (st', Inl e) \<Rightarrow> False)"

definition demo_late :: "ledger \<times> append_result res" where
  "demo_late =
     (case session_prepareAppend demo_env demo_store0 (demo_request ''q'' 0 (demo_created ''q'') JNull) None of
        (st1, Inr rq) \<Rightarrow> ledger_append empty_registry (so_ledger demo_store1) rq
      | (st1, Inl e) \<Rightarrow> (so_ledger demo_store1, Inl e))"

lemma demo_first: "demo_step demo_store0 (demo_request ''p'' 0 (demo_created ''p'') JNull)"
  by code_simp

lemma demo_second: "demo_step demo_store2 (demo_request ''p'' 1 (demo_resumed ''p'') JNull)"
  by code_simp

lemma demo_forks: demo_forked
  by code_simp

lemma demo_late_ok: "\<not> isl (snd (session_prepareAppend demo_env demo_store0 (demo_request ''q'' 0 (demo_created ''q'') JNull) None)) \<and>
    length (led_rows (fst demo_late)) = 2"
  by code_simp

lemma demo_replay3: "case snd (replay demo_env demo_store3 (JStr ''p'') MAX_SAFE_INTEGER False) of Inr s \<Rightarrow> ss_sequence s = 2 | Inl e \<Rightarrow> False"
  by code_simp

lemma demo_read1: "case readSession demo_env (so_ledger demo_store1) (JStr ''p'') 1 MAX_SAFE_INTEGER of Inr events \<Rightarrow> event_ids events = [''e1''] | Inl e \<Rightarrow> False"
  by code_simp

subsection \<open>The hypotheses hold\<close>

lemma demo_laws: "schema_laws demo_env"
proof -
  have ev: "se_event demo_env x = Inr d \<longleftrightarrow> json_ok x \<and> is_text (js_get x ''event_id'') \<and> d = x" for x d
    by (auto simp: demo_env_def demo_event_schema_def)
  have sp: "se_spec demo_env x = Inr d \<longleftrightarrow> json_ok x \<and> is_str (js_get x ''session_id'') \<and> is_str (js_get x ''authority_ref'') \<and> d = x" for x d
    by (auto simp: demo_env_def demo_spec_schema_def)
  have "is_text (js_get y k)" if t: "json_ok x" "json_ok y" "stableValue y = stableValue x" "is_text (js_get x k)" for x y k
  proof -
    obtain s where s: "js_get x k = JStr s" using is_textE[OF t(4)] by blast
    have "same_document y x" using t by (simp add: same_document_def)
    then have "js_get y k = JStr s" using same_documentD(6) s by blast
    then show ?thesis using t(4) s by simp
  qed
  then show ?thesis unfolding schema_laws_def ev sp by blast
qed

lemma demo_ok0: "store_ok demo_env demo_store0"
  by (simp add: store_ok_def demo_store0_def base_rows_def well_written_def new_ledger_def ledger_ok_def rows_ok_def)

lemma small_few: "length (led_rows l) < 10 \<Longrightarrow> small l"
  by (simp add: small_def MAX_SAFE_INTEGER_def)

lemma demo_small0: "small (so_ledger demo_store0)"
  by (rule small_few) (simp add: demo_store0_def new_ledger_def)

lemma demo_stepE:
  assumes "demo_step st rq"
  obtains res where "session_append demo_env st rq = (fst (session_append demo_env st rq), Inr res)" "\<not> sr_idempotent res"
    "small (so_ledger (fst (session_append demo_env st rq)))"
proof -
  obtain st' r where a: "session_append demo_env st rq = (st', r)" by fastforce
  then obtain res where "r = Inr res" "\<not> sr_idempotent res" "length (led_rows (so_ledger st')) < 10"
    using assms by (cases r) (simp_all add: demo_step_def)
  then show thesis using that[of res] small_few a by simp
qed

lemma demo_json: "json_ok (sa_events (demo_request i n (demo_created i) c))" "json_ok (sa_events (demo_request i n (demo_resumed i) c))"
  by (simp_all add: demo_request_def demo_created_def demo_resumed_def demo_spec_def new_event_def demo_time_def)

lemma demo_identifiers: "identifier_ok ''p''" "identifier_ok ''q''"
  by code_simp+

lemma demo_small1: "small (so_ledger demo_store1)"
  using demo_stepE[OF demo_first] by (metis demo_store1_def)

lemma demo_reach1: "store_reach demo_env demo_store0 demo_store1"
  unfolding demo_store1_def
  by (rule store_reach.step[OF store_reach.start demo_small0 store_step.append]) (rule demo_json(1))

lemma demo_small2: "small (so_ledger demo_store2)"
  using demo_small1 by (simp add: demo_store2_def replay_ledger)

lemma demo_reach2: "store_reach demo_env demo_store0 demo_store2"
  unfolding demo_store2_def by (rule store_reach.step[OF demo_reach1 demo_small1 store_step.replay])

lemma demo_reach3: "store_reach demo_env demo_store0 demo_store3"
  unfolding demo_store3_def
  by (rule store_reach.step[OF demo_reach2 demo_small2 store_step.append]) (rule demo_json(2))

lemma demo_small3: "small (so_ledger demo_store3)"
  using demo_stepE[OF demo_second] by (metis demo_store3_def)

lemma demo_ok1: "store_ok demo_env demo_store1"
  using store_reach_ok[OF demo_reach1 demo_laws demo_ok0] .

lemma demo_old1: "\<exists>old. readSession demo_env (so_ledger demo_store1) (JStr ''p'') 1 MAX_SAFE_INTEGER = Inr old \<and> event_ids old = [''e1'']"
  using demo_read1 by (auto split: sum.splits)

lemma demo_session0: "identifier_ok i \<Longrightarrow> session_replays demo_env (so_ledger demo_store0) i"
proof -
  assume i: "identifier_ok i"
  have l: "ledger_ok (so_ledger demo_store0)" using demo_ok0 by (simp add: store_ok_def)
  have "session_rows (led_rows (so_ledger demo_store0)) i = []" by (simp add: demo_store0_def new_ledger_def session_rows_def)
  then have "readSession demo_env (so_ledger demo_store0) (JStr i) 1 MAX_SAFE_INTEGER = Inr []"
    using readSession_Inr[OF l demo_small0 i, of demo_env "[]"]
    by (simp add: uniform_trace_Inr first_correlation_def assertSessionCausation_def)
  then show ?thesis
    by (simp add: session_replays_def bind_res_simps fold_session_def replaySessionEvents_def)
qed

lemma demo_session1: "identifier_ok i \<Longrightarrow> session_replays demo_env (so_ledger demo_store1) i"
proof -
  assume i: "identifier_ok i"
  let ?rq = "demo_request ''p'' 0 (demo_created ''p'') JNull"
  obtain res where "session_append demo_env demo_store0 ?rq = (demo_store1, Inr res)"
    using demo_stepE[OF demo_first] by (metis demo_store1_def)
  then obtain st1 lrq r where a: "session_prepareAppend demo_env demo_store0 ?rq None = (st1, Inr lrq)"
    "ledger_append (se_registry demo_env) (so_ledger demo_store0) lrq = (so_ledger demo_store1, Inr r)"
    by (rule append_Inr)
  have c: "continues ?rq old (js_items (sa_events ?rq))" for old by (simp add: demo_request_def continues_def)
  show ?thesis
    using commit_keeps_session[OF demo_laws demo_ok0 demo_json(1) a(1) c _ _ _ a(2) demo_small1 i demo_session0[OF i]] demo_ok0
    by (simp add: store_ok_def)
qed

subsection \<open>Witnesses\<close>

theorem replay_cache_coherent_witness:
  "\<exists>s. bind_res (readSession demo_env (so_ledger demo_store3) (JStr ''p'') 1 MAX_SAFE_INTEGER) (fold_session demo_env None) = Inr s \<and>
     ss_sequence s = 2 \<and> so_cache demo_store2 \<noteq> []"
proof -
  obtain s where s: "snd (replay demo_env demo_store3 (JStr ''p'') MAX_SAFE_INTEGER False) = Inr s" "ss_sequence s = 2"
    using demo_replay3 by (auto split: sum.splits)
  have "so_cache demo_store2 \<noteq> []" by code_simp
  then show ?thesis
    using replay_cache_coherent[OF demo_laws demo_ok0 demo_reach3 demo_small3 demo_identifiers(1), of False s] s by blast
qed


lemma demo_ok2: "store_ok demo_env demo_store2" "so_ledger demo_store2 = so_ledger demo_store1"
  using store_reach_ok[OF demo_reach2 demo_laws demo_ok0] by (simp_all add: demo_store2_def replay_ledger)

theorem append_round_trip_witness:
  "\<exists>old new. readSession demo_env (so_ledger demo_store3) (JStr ''p'') 1 MAX_SAFE_INTEGER = Inr (old @ new) \<and>
     event_ids old = [''e1''] \<and> map stableValue new = [stableValue (demo_resumed ''p'')]"
proof -
  let ?rq = "demo_request ''p'' 1 (demo_resumed ''p'') JNull"
  obtain old where old: "readSession demo_env (so_ledger demo_store2) (sa_session ?rq) 1 MAX_SAFE_INTEGER = Inr old" "event_ids old = [''e1'']"
    using demo_old1 demo_ok2(2) by (auto simp: demo_request_def)
  obtain res where r: "session_append demo_env demo_store2 ?rq = (demo_store3, Inr res)" "\<not> sr_idempotent res"
    using demo_stepE[OF demo_second] by (metis demo_store3_def)
  have "continues ?rq old (js_items (sa_events ?rq))" by (simp add: continues_def demo_request_def)
  note append_round_trip[OF demo_laws demo_ok2(1) demo_json(2) demo_small3 r old(1) this]
  then show ?thesis using old(2) by (intro exI[of _ old] exI[of _ "sr_events res"]) (simp add: demo_request_def)
qed

theorem late_commit_keeps_sessions_witness:
  "\<exists>s t. bind_res (readSession demo_env (fst demo_late) (JStr ''p'') 1 MAX_SAFE_INTEGER) (fold_session demo_env None) = Inr s \<and>
     bind_res (readSession demo_env (fst demo_late) (JStr ''q'') 1 MAX_SAFE_INTEGER) (fold_session demo_env None) = Inr t \<and>
     length (led_rows (fst demo_late)) = 2"
proof -
  let ?rq = "demo_request ''q'' 0 (demo_created ''q'') JNull"
  obtain st1 lrq where p: "session_prepareAppend demo_env demo_store0 ?rq None = (st1, Inr lrq)"
    using demo_late_ok by (cases "session_prepareAppend demo_env demo_store0 ?rq None"; cases "snd (session_prepareAppend demo_env demo_store0 ?rq None)") auto
  have l: "ledger_append empty_registry (so_ledger demo_store1) lrq = (fst demo_late, snd demo_late)" using p by (simp add: demo_late_def)
  have pre: "prefix (led_rows (so_ledger demo_store0)) (led_rows (so_ledger demo_store1))" by (simp add: demo_store0_def new_ledger_def)
  have ok: "ledger_ok (so_ledger demo_store1)" "well_written demo_env (led_rows (so_ledger demo_store1))" using demo_ok1 by (simp_all add: store_ok_def)
  have sm: "small (fst demo_late)" using demo_late_ok by (intro small_few) simp
  have c: "\<forall>old. sa_session ?rq = JStr i \<and> readSession demo_env (so_ledger demo_store0) (JStr i) 1 MAX_SAFE_INTEGER = Inr old \<longrightarrow>
       continues ?rq old (js_items (sa_events ?rq))" for i
    by (simp add: demo_request_def continues_def)
  have "session_replays demo_env (fst demo_late) i" if "identifier_ok i" for i
    by (rule late_commit_keeps_sessions[OF demo_laws demo_ok0 demo_json(1) p ok(1) pre ok(2) l sm that c demo_session1[OF that]])
  then show ?thesis using demo_identifiers demo_late_ok by (simp add: session_replays_def)
qed

theorem stray_cause_unreadable_witness:
  "\<exists>st' res e. session_append demo_env demo_store2 (demo_request ''p'' 1 (demo_resumed ''p'') (JStr ''x'')) = (st', Inr res) \<and>
     length (led_rows (so_ledger st')) = 2 \<and> readSession demo_env (so_ledger st') (JStr ''p'') 1 MAX_SAFE_INTEGER = Inl e"
proof -
  let ?rq = "demo_request ''p'' 1 (demo_resumed ''p'') JNull"
  let ?x = "?rq\<lparr>sa_causation := JStr ''x''\<rparr>"
  obtain old where old: "readSession demo_env (so_ledger demo_store2) (sa_session ?rq) 1 MAX_SAFE_INTEGER = Inr old" "event_ids old = [''e1'']"
    using demo_old1 demo_ok2(2) by (auto simp: demo_request_def)
  have ne: "old \<noteq> []" using old(2) by auto
  obtain res where r: "session_append demo_env demo_store2 ?rq = (demo_store3, Inr res)" "\<not> sr_idempotent res"
    using demo_stepE[OF demo_second] by (metis demo_store3_def)
  have null: "sa_causation ?rq = JNull" by (simp add: demo_request_def)
  have is_t: "is_text (JStr ''x'')" by code_simp
  have two: "length (led_rows (so_ledger demo_store3)) = 2" by code_simp
  have stray: "\<not> continues ?x old (js_items (sa_events ?rq))" using old(2) ne by (simp add: continues_def demo_request_def)
  from stray_cause_unreadable[OF demo_laws demo_ok2(1) demo_json(2) demo_small3 r null old(1) ne is_t]
  obtain st' res' where a: "session_append demo_env demo_store2 ?x = (st', Inr res')" "length (led_rows (so_ledger st')) = 2"
    "\<nexists>events. readSession demo_env (so_ledger st') (sa_session ?rq) 1 MAX_SAFE_INTEGER = Inr events"
    using stray two by auto
  have "?x = demo_request ''p'' 1 (demo_resumed ''p'') (JStr ''x'')" "sa_session ?rq = JStr ''p''" by (simp_all add: demo_request_def)
  moreover obtain e where "readSession demo_env (so_ledger st') (sa_session ?rq) 1 MAX_SAFE_INTEGER = Inl e"
    using a(3) by (cases "readSession demo_env (so_ledger st') (sa_session ?rq) 1 MAX_SAFE_INTEGER") auto
  ultimately show ?thesis using a(1,2) by auto
qed

lemma demo_fork_result:
  obtains st' parent child where "forkSession demo_env demo_store1 demo_fork = (st', Inr (parent, child))" "\<not> sr_idempotent child" "small (so_ledger st')"
proof -
  obtain st' r where f: "forkSession demo_env demo_store1 demo_fork = (st', r)" by fastforce
  then obtain pc where "r = Inr pc" "\<not> sr_idempotent (snd pc)" "length (led_rows (so_ledger st')) < 10"
    using demo_forks by (cases r) (auto simp: demo_forked_def)
  then show thesis using that[of st' "fst pc" "snd pc"] f small_few by simp
qed

lemma demo_fork_json: "fork_json demo_fork"
  by (simp add: fork_json_def demo_fork_def demo_spec_def demo_time_def)

theorem fork_bounded_child_witness:
  "\<exists>st' parent child spec s. forkSession demo_env demo_store1 demo_fork = (st', Inr (parent, child)) \<and>
     stableValue spec = stableValue (demo_spec ''c'' (JStr ''p'')) \<and> js_get spec ''parent_session_id'' = JStr ''p'' \<and>
     readSession demo_env (so_ledger st') (js_get spec ''session_id'') 1 MAX_SAFE_INTEGER = Inr (sr_events child) \<and>
     fold_session demo_env None (sr_events child) = Inr s"
proof -
  obtain st' parent child where f: "forkSession demo_env demo_store1 demo_fork = (st', Inr (parent, child))" "\<not> sr_idempotent child" "small (so_ledger st')"
    by (rule demo_fork_result)
  show ?thesis
    using fork_bounded_child[OF demo_laws demo_ok1 demo_small1 f(3) demo_fork_json f(1,2)] f(1)
    by (simp add: demo_fork_def) blast
qed

theorem fork_all_or_nothing_witness:
  "\<exists>s. bind_res (readSession demo_env (so_ledger (fst (forkSession demo_env demo_store1 demo_fork))) (JStr ''p'') 1 MAX_SAFE_INTEGER)
     (fold_session demo_env None) = Inr s"
proof -
  obtain st' parent child where f: "forkSession demo_env demo_store1 demo_fork = (st', Inr (parent, child))" "small (so_ledger st')"
    by (rule demo_fork_result)
  have "session_replays demo_env (so_ledger st') ''p''"
    using fork_all_or_nothing[OF demo_laws demo_ok1 demo_small1 f(2) demo_fork_json f(1)] demo_identifiers(1) demo_session1 by blast
  then show ?thesis using f(1) by (simp add: session_replays_def)
qed

end
