(* ===== verification/MemoryPolicy.thy ===== *)
theory MemoryPolicy
  imports ApprovalStore PolicyLattice Replay
begin

text \<open>
  The policy of governed memory, \<open>packages/agent-memory/policy.js\<close>: the shape of a memory entry, who may
  write what with which trust, the admission of writes by the permission lattice, and the operations that
  single-use approvals are bound to.

  Parameters: SHA-256 in hexadecimal, the credential scanner of the host (or none), the collation key of the
  lattice. A string is the list of its UTF-8 bytes, so \<open>Buffer.byteLength\<close> is its length; where the
  source reads characters, the bytes are decoded to code points.
\<close>

subsection \<open>Characters\<close>

definition tail_bits :: "string \<Rightarrow> nat" where
  "tail_bits s = foldl (\<lambda>n c. n * 64 + of_char c mod 64) 0 s"

fun code_points :: "string \<Rightarrow> nat list" where
  "code_points [] = []"
| "code_points (c # s) =
     (let n = of_char c in
      if n < 0x80 then n # code_points s
      else if n < 0xE0 then (n mod 32 * 64 + tail_bits (take 1 s)) # code_points (drop 1 s)
      else if n < 0xF0 then (n mod 16 * 4096 + tail_bits (take 2 s)) # code_points (drop 2 s)
      else (n mod 8 * 262144 + tail_bits (take 3 s)) # code_points (drop 3 s))"

text \<open>White space and line terminators, as \<open>trim\<close> and \<open>\s\<close> read them.\<close>

definition js_space :: "nat \<Rightarrow> bool" where
  "js_space n \<longleftrightarrow> (9 \<le> n \<and> n \<le> 13) \<or> n \<in> {0x20, 0xA0, 0x1680, 0x2028, 0x2029, 0x202F, 0x205F, 0x3000, 0xFEFF} \<or>
     (0x2000 \<le> n \<and> n \<le> 0x200A)"

definition blank :: "string \<Rightarrow> bool" where
  "blank s = list_all js_space (code_points s)"

definition memory_identifier :: "string \<Rightarrow> bool" where
  "memory_identifier s \<longleftrightarrow> s \<noteq> [] \<and> length s \<le> 160 \<and> (lower (hd s) \<or> digit (hd s)) \<and>
     list_all (\<lambda>c. lower c \<or> digit c \<or> c \<in> {CHR ''.'', CHR ''_'', CHR '':'', CHR ''-''}) s"

definition sha256_text :: "string \<Rightarrow> bool" where
  "sha256_text s \<longleftrightarrow> length s = 64 \<and> list_all (\<lambda>c. digit c \<or> (CHR ''a'' \<le> c \<and> c \<le> CHR ''f'')) s"

definition safe_reference :: "string \<Rightarrow> bool" where
  "safe_reference s \<longleftrightarrow> (let ps = code_points s in
     ps \<noteq> [] \<and> length ps \<le> 1024 \<and> list_all (\<lambda>n. \<not> js_space n \<and> 0x1F < n \<and> n \<noteq> 0x7F) ps)"

subsection \<open>Instants\<close>

text \<open>\<open>new Date(ms).toISOString()\<close>, which throws outside the range of instants.\<close>

definition iso :: "int \<Rightarrow> string res" where
  "iso ms = (if \<bar>ms\<bar> \<le> 8640000000000000 then Inr (iso_of_ms ms) else Inl (mk_err ''RangeError'' ''Invalid time value''))"

text \<open>
  \<open>Date.parse\<close> on what \<open>toISOString\<close> prints: a canonical timestamp, or one with a sign and a year of six
  digits. The calendar repeats every 400 years, which are 146097 days.
\<close>

definition iso_ms :: "string \<Rightarrow> int option" where
  "iso_ms s =
     (if canonical_utc s then Some (date_ms s)
      else if length s = 27 \<and> hd s \<in> {CHR ''+'', CHR ''-''} \<and> list_all digit (take 6 (drop 1 s)) then
        (let y = (if hd s = CHR ''-'' then - 1 else 1) * int (dnum (take 6 (drop 1 s)));
             near = pad4 (2000 + y mod 400) @ drop 7 s;
             ms = date_ms near + (y - (2000 + y mod 400)) div 400 * 146097 * 86400000 in
         if canonical_utc near \<and> \<not> (hd s = CHR ''-'' \<and> y = 0) \<and> \<bar>ms\<bar> \<le> 8640000000000000 then Some ms else None)
      else None)"

subsection \<open>Constants and errors\<close>

definition CONTRACT :: string where "CONTRACT = ''agent-memory.v1''"

definition AUTHORITY :: string where "AUTHORITY = ''data''"

definition MAX_CONTENT_BYTES :: nat where "MAX_CONTENT_BYTES = 8192"

definition MAX_TTL_SECONDS :: int where "MAX_TTL_SECONDS = 90 * 86400"

definition CLASSIFICATIONS :: "string list" where "CLASSIFICATIONS = [''public'', ''internal'']"

definition TRUSTS :: "string list" where "TRUSTS = [''trusted'', ''untrusted'']"

definition ORIGINS :: "string list" where
  "ORIGINS = [''operator'', ''agent'', ''tool'', ''plugin'', ''lsp'', ''dap'', ''browser'', ''display'', ''mcp'']"

definition UNTRUSTED_ORIGINS :: "string list" where
  "UNTRUSTED_ORIGINS = filter (\<lambda>origin. origin \<noteq> ''operator'') ORIGINS"

definition ACTOR_KINDS :: "string list" where "ACTOR_KINDS = [''host'', ''operator'', ''agent'']"

definition MAX_REASON_BYTES :: nat where "MAX_REASON_BYTES = 256"

definition ENTRY_INPUT_FIELDS :: "string list" where
  "ENTRY_INPUT_FIELDS = [''memory_id'', ''scope'', ''content'', ''authority'', ''origin'', ''trust'', ''classification'',
     ''source_ref'', ''source_digest'', ''ttl_seconds'', ''supersedes'']"

definition DELETE_OPERATION :: string where "DELETE_OPERATION = ''memory.delete''"

definition PROMOTE_OPERATION :: string where "PROMOTE_OPERATION = ''memory.promote''"

definition PROMOTE_POLICY_REF :: string where "PROMOTE_POLICY_REF = ''operator:promote''"

definition PROMOTED_SUFFIX :: string where "PROMOTED_SUFFIX = '':promoted''"

definition memory_error :: "string \<Rightarrow> string \<Rightarrow> jserr" where
  "memory_error message code = mk_err code message"

definition memory_invalid :: "string \<Rightarrow> jserr" where
  "memory_invalid message = memory_error message ''AGENT_MEMORY_INVALID''"

definition one_of :: "js \<Rightarrow> string list \<Rightarrow> bool" where
  "one_of v xs \<longleftrightarrow> v \<in> JStr ` set xs"

subsection \<open>Validation\<close>

definition requireIdentifier :: "js \<Rightarrow> string \<Rightarrow> string res" where
  "requireIdentifier v field =
     (case v of
        JStr s \<Rightarrow> if memory_identifier s then Inr s else Inl (memory_invalid (field @ '' must be a lowercase identifier''))
      | _ \<Rightarrow> Inl (memory_invalid (field @ '' must be a lowercase identifier'')))"

definition memory_timestamp :: "js \<Rightarrow> string \<Rightarrow> string res" where
  "memory_timestamp v field =
     (case v of
        JStr s \<Rightarrow> (case iso_ms s of
                     Some ms \<Rightarrow> iso ms
                   | None \<Rightarrow> Inl (memory_invalid (field @ '' must be a valid timestamp'')))
      | _ \<Rightarrow> Inl (memory_invalid (field @ '' must be a valid timestamp'')))"

definition assertEntryInputFields :: "js \<Rightarrow> unit res" where
  "assertEntryInputFields input =
     guards [(\<not> is_obj input, memory_invalid ''memory entry must be an object''),
       (\<not> set (js_keys input) \<subseteq> set ENTRY_INPUT_FIELDS, memory_invalid ''the entry carries host-owned or unknown fields'')]"

type_synonym scanner = "(string \<Rightarrow> bool) option"

definition scanner_required :: jserr where
  "scanner_required = memory_error ''a credential scanner is required to write memory'' ''AGENT_MEMORY_SCANNER_REQUIRED''"

definition credential_error :: "string \<Rightarrow> jserr" where
  "credential_error what = memory_error (what @ '' contains a credential pattern'') ''AGENT_MEMORY_CREDENTIAL_DETECTED''"

definition normalizeActor :: "scanner \<Rightarrow> js \<Rightarrow> js res" where
  "normalizeActor scan actor =
     (if \<not> is_obj actor \<or> \<not> one_of (js_get actor ''kind'') ACTOR_KINDS then Inl (memory_invalid ''actor.kind is not allowed'')
      else bind_res (requireIdentifier (js_get actor ''id'') ''actor.id'') (\<lambda>i.
        if case scan of None \<Rightarrow> False | Some f \<Rightarrow> f i then Inl (credential_error ''actor'')
        else Inr (JObj [(''kind'', js_get actor ''kind''), (''id'', JStr i)])))"

definition normalizeReason :: "scanner \<Rightarrow> js \<Rightarrow> string res" where
  "normalizeReason scan reason =
     (case reason of
        JStr s \<Rightarrow>
          if blank s \<or> MAX_REASON_BYTES < length s then Inl (memory_invalid ''reason must be a short non-empty string'')
          else (case scan of
                  None \<Rightarrow> Inl scanner_required
                | Some f \<Rightarrow> if f s then Inl (credential_error ''reason'') else Inr s)
      | _ \<Rightarrow> Inl (memory_invalid ''reason must be a short non-empty string''))"

definition nullish :: "js \<Rightarrow> bool" where
  "nullish v \<longleftrightarrow> v = JUndef \<or> v = JNull"

text \<open>\<open>normalizeEntry\<close>: the checks on the fields in the order of the code, then the normalised entry.\<close>

definition entry_source_digest :: "(string \<Rightarrow> string) \<Rightarrow> js \<Rightarrow> js" where
  "entry_source_digest sha256 input =
     (if nullish (js_get input ''source_digest'') then JStr (sha256 (js_text (js_get input ''content'')))
      else js_get input ''source_digest'')"

definition check_entry :: "(string \<Rightarrow> string) \<Rightarrow> int \<Rightarrow> js \<Rightarrow> unit res" where
  "check_entry sha256 max_ttl input =
     (let content = js_get input ''content''; origin = js_get input ''origin''; ref = js_get input ''source_ref'';
          hash = entry_source_digest sha256 input; ttl = js_get input ''ttl_seconds'' in
      guards [
        (\<not> is_str content \<or> blank (js_text content), memory_invalid ''content must be a non-empty string''),
        (MAX_CONTENT_BYTES < length (js_text content), memory_invalid ''content exceeds the byte limit''),
        (\<not> one_of origin ORIGINS, memory_invalid ''origin is not allowed for memory''),
        (\<not> one_of (js_get input ''trust'') TRUSTS, memory_invalid ''trust must be trusted or untrusted''),
        (one_of origin UNTRUSTED_ORIGINS \<and> js_get input ''trust'' \<noteq> JStr ''untrusted'',
         memory_error ''an untrusted origin can only be stored as untrusted'' ''AGENT_MEMORY_TRUST_INVALID''),
        (\<not> one_of (js_get input ''classification'') CLASSIFICATIONS, memory_invalid ''classification is not allowed''),
        (\<not> is_str ref \<or> \<not> safe_reference (js_text ref), memory_invalid ''source_ref must be a safe reference''),
        (\<not> is_str hash \<or> \<not> sha256_text (js_text hash), memory_invalid ''source_digest must be a sha-256 hex digest''),
        (\<not> is_int_ge 1 ttl \<or> max_ttl < js_int ttl,
         memory_error ''ttl_seconds is required and bounded by the policy ceiling'' ''AGENT_MEMORY_TTL_INVALID'')])"

definition entry_of :: "(string \<Rightarrow> string) \<Rightarrow> js \<Rightarrow> string \<Rightarrow> string \<Rightarrow> string \<Rightarrow> fields \<Rightarrow> js" where
  "entry_of sha256 input i project created old =
     JObj ([(''memory_id'', JStr i), (''scope'', JObj [(''project_id'', JStr project)]),
       (''content'', js_get input ''content''), (''authority'', JStr AUTHORITY), (''origin'', js_get input ''origin''),
       (''trust'', js_get input ''trust''), (''classification'', js_get input ''classification''),
       (''source_ref'', js_get input ''source_ref''), (''source_digest'', entry_source_digest sha256 input),
       (''created_at'', JStr created), (''ttl_seconds'', js_get input ''ttl_seconds'')] @
       (if js_get input ''write_policy_ref'' = JUndef then [] else [(''write_policy_ref'', js_get input ''write_policy_ref'')]) @ old)"

definition normalizeEntry :: "(string \<Rightarrow> string) \<Rightarrow> int \<Rightarrow> js \<Rightarrow> js res" where
  "normalizeEntry sha256 max_ttl input =
     bind_res (guards [(\<not> is_obj input, memory_invalid ''memory entry must be an object''),
       (js_get input ''authority'' \<noteq> JUndef \<and> js_get input ''authority'' \<noteq> JStr AUTHORITY,
        memory_error ''memory can only carry data authority'' ''AGENT_MEMORY_AUTHORITY_ESCALATION'')]) (\<lambda>_.
     bind_res (requireIdentifier (js_get (js_get input ''scope'') ''project_id'') ''scope.project_id'') (\<lambda>project.
     bind_res (check_entry sha256 max_ttl input) (\<lambda>_.
     bind_res (requireIdentifier (js_get input ''memory_id'') ''memory_id'') (\<lambda>i.
     bind_res (memory_timestamp (js_get input ''created_at'') ''created_at'') (\<lambda>created.
     bind_res (guards [(js_get input ''write_policy_ref'' \<noteq> JUndef \<and> \<not> is_text (js_get input ''write_policy_ref''),
       memory_invalid ''write_policy_ref must be a string'')]) (\<lambda>_.
     bind_res (if js_get input ''supersedes'' = JUndef then Inr []
               else bind_res (requireIdentifier (js_get input ''supersedes'') ''supersedes'') (\<lambda>s. Inr [(''supersedes'', JStr s)])) (\<lambda>old.
     Inr (entry_of sha256 input i project created old))))))))"

definition assertNoCredential :: "scanner \<Rightarrow> js \<Rightarrow> unit res" where
  "assertNoCredential scan entry =
     (case scan of
        None \<Rightarrow> Inl scanner_required
      | Some f \<Rightarrow> each_res (\<lambda>k. guards [(f (ftext entry k), credential_error (''memory '' @ k))]) [''content'', ''source_ref''])"

subsection \<open>Admission and operations\<close>

definition admitWrite :: "(string \<Rightarrow> string) \<Rightarrow> js \<Rightarrow> js \<Rightarrow> js \<Rightarrow> string res" where
  "admitWrite collate rules approved mode =
     bind_res (evaluatePermissionLattice collate (if rules = JUndef then JArr [] else rules)
       (if mode = JUndef then ''default'' else js_text mode) NoCallback) (\<lambda>outcome.
     let admitted = (lr_decision outcome = ''allow'' \<or> (lr_decision outcome = ''ask'' \<and> approved = JBool True)) in
     case deciding_rule_id outcome of
       Some i \<Rightarrow> if admitted then Inr (''rule:'' @ i)
                 else Inl (memory_error ''no admitting policy for memory.write'' ''AGENT_MEMORY_WRITE_DENIED'')
     | None \<Rightarrow> Inl (memory_error ''no admitting policy for memory.write'' ''AGENT_MEMORY_WRITE_DENIED''))"

record memory_operation =
  mo_name :: string
  mo_id :: string
  mo_scope :: js

definition delete_operation_id :: "string \<Rightarrow> string \<Rightarrow> string" where
  "delete_operation_id project memory = DELETE_OPERATION @ '':'' @ project @ '':'' @ memory"

definition memoryDeleteOperation :: "js \<Rightarrow> js \<Rightarrow> memory_operation res" where
  "memoryDeleteOperation project_id memory_id =
     bind_res (requireIdentifier project_id ''project_id'') (\<lambda>p.
     bind_res (requireIdentifier memory_id ''memory_id'') (\<lambda>m.
     Inr \<lparr>mo_name = DELETE_OPERATION, mo_id = delete_operation_id p m,
          mo_scope = JObj [(''project_id'', JStr p), (''memory_id'', JStr m)]\<rparr>))"

definition promote_operation_id :: "string \<Rightarrow> string \<Rightarrow> string \<Rightarrow> string" where
  "promote_operation_id project memory hash = PROMOTE_OPERATION @ '':'' @ project @ '':'' @ memory @ '':'' @ hash"

definition memoryPromoteOperation :: "js \<Rightarrow> js \<Rightarrow> js \<Rightarrow> memory_operation res" where
  "memoryPromoteOperation project_id memory_id content_sha256 =
     bind_res (requireIdentifier project_id ''project_id'') (\<lambda>p.
     bind_res (requireIdentifier memory_id ''memory_id'') (\<lambda>m.
     if \<not> is_str content_sha256 \<or> \<not> sha256_text (js_text content_sha256)
     then Inl (memory_invalid ''content_sha256 must be a sha-256 hex digest'')
     else Inr \<lparr>mo_name = PROMOTE_OPERATION, mo_id = promote_operation_id p m (js_text content_sha256),
               mo_scope = JObj [(''project_id'', JStr p), (''memory_id'', JStr m), (''content_sha256'', content_sha256)]\<rparr>))"

definition promotedSourceRef :: "string \<Rightarrow> string \<Rightarrow> string \<Rightarrow> string" where
  "promotedSourceRef project memory hash = ''memory://'' @ project @ ''/'' @ memory @ ''@'' @ hash"

definition isPromotedEntry :: "(string \<Rightarrow> string) \<Rightarrow> js \<Rightarrow> string \<Rightarrow> bool" where
  "isPromotedEntry sha256 entry project \<longleftrightarrow>
     js_get entry ''origin'' = JStr ''operator'' \<and> js_get entry ''trust'' = JStr ''trusted'' \<and>
     js_get entry ''write_policy_ref'' = JStr PROMOTE_POLICY_REF \<and> is_str (js_get entry ''supersedes'') \<and>
     js_get entry ''source_digest'' = JStr (sha256 (ftext entry ''content'')) \<and>
     js_get entry ''source_ref'' = JStr (promotedSourceRef project (ftext entry ''supersedes'') (ftext entry ''source_digest''))"

end
