(* ===== verification/MemoryStore.thy ===== *)
theory MemoryStore
  imports MemoryPolicy
begin

text \<open>
  Governed memory over the execution ledger, \<open>packages/agent-memory/store.js\<close>, with the approval verifier
  of \<open>policy.js\<close> and the host side of \<open>tools/cli/lib/memory-context-source.js\<close>: the attestation of
  promotions and the operator's promotion command. One ledger stream per project holds the memory events; a
  store keeps a projection per project, keyed by the version of the stream.

  Parameters: SHA-256, the credential scanner, the registry of the ledger, the collation key of the lattice,
  and the words of a text (the matches of letters and digits in its lower case, which rest on the Unicode
  tables). The instants the clock returns are arguments, one for each reading of the clock. The host verifier is
  the one \<open>createExecutionApprovalVerifier\<close> builds over the approval tables.
\<close>

subsection \<open>Events and records\<close>

definition MEMORY_AGGREGATE :: string where "MEMORY_AGGREGATE = ''agent_memory''"

definition WRITTEN :: string where "WRITTEN = ''memory.written''"

definition SUPERSEDED :: string where "SUPERSEDED = ''memory.superseded''"

definition EXPIRED :: string where "EXPIRED = ''memory.expired''"

definition DELETED :: string where "DELETED = ''memory.deleted''"

definition DEFAULT_ACTOR :: js where
  "DEFAULT_ACTOR = JObj [(''kind'', JStr ''host''), (''id'', JStr ''agent-memory'')]"

record mem_env =
  me_sha :: "string \<Rightarrow> string"
  me_words :: "string \<Rightarrow> string list"
  me_scan :: scanner
  me_max_ttl :: int
  me_registry :: registry
  me_collate :: "string \<Rightarrow> string"

definition tokenize :: "mem_env \<Rightarrow> string \<Rightarrow> string list" where
  "tokenize env text = sort (uniq (me_words env text))"

definition memory_eventId :: "mem_env \<Rightarrow> string \<Rightarrow> string \<Rightarrow> string \<Rightarrow> string" where
  "memory_eventId env project type memory =
     (let hex = me_sha env (project @ CHR 0x00 # type @ CHR 0x00 # memory) in
      take 8 hex @ ''-'' @ take 4 (drop 8 hex) @ ''-'' @ take 4 (drop 12 hex) @ ''-'' @ take 4 (drop 16 hex) @ ''-'' @
      take 12 (drop 20 hex))"

datatype mem_status = Active | Superseded | Expired | Deleted

record mem_record =
  mr_entry :: js
  mr_status :: mem_status
  mr_tokens :: "string list"
  mr_promotion :: js
  mr_operation :: "string option"
  mr_superseded_by :: js

type_synonym mem_records = "(js \<times> mem_record) list"

fun put_record :: "mem_records \<Rightarrow> js \<Rightarrow> mem_record \<Rightarrow> mem_records" where
  "put_record [] k r = [(k, r)]"
| "put_record ((k', r') # rs) k r = (if k' = k then (k, r) # rs else (k', r') # put_record rs k r)"

definition transition ::
    "mem_records \<Rightarrow> js \<Rightarrow> mem_status list \<Rightarrow> (mem_record \<Rightarrow> mem_record) \<Rightarrow> mem_records res" where
  "transition records memory from patch =
     (case map_of records memory of
        Some r \<Rightarrow>
          if mr_status r \<in> set from then Inr (put_record records memory (patch r))
          else Inl (memory_error ''memory event does not apply to the current state'' ''AGENT_MEMORY_EVENT_INVALID'')
      | None \<Rightarrow> Inl (memory_error ''memory event does not apply to the current state'' ''AGENT_MEMORY_EVENT_INVALID''))"

definition fold_event :: "mem_env \<Rightarrow> mem_records \<Rightarrow> string \<Rightarrow> js \<Rightarrow> string option \<Rightarrow> mem_records res" where
  "fold_event env records type payload operation =
     (if type = WRITTEN then
        (let entry = js_get payload ''entry'' in
         case js_get entry ''content'' of
           JStr content \<Rightarrow>
             Inr (put_record records (js_get entry ''memory_id'')
               \<lparr>mr_entry = entry, mr_status = Active, mr_tokens = tokenize env content,
                mr_promotion = (if nullish (js_get payload ''promotion'') then JNull else js_get payload ''promotion''),
                mr_operation = operation, mr_superseded_by = JUndef\<rparr>)
         | _ \<Rightarrow> Inl type_error)
      else if type = SUPERSEDED then
        transition records (js_get payload ''memory_id'') [Active]
          (\<lambda>r. r\<lparr>mr_status := Superseded, mr_superseded_by := js_get payload ''superseded_by''\<rparr>)
      else if type = EXPIRED then
        transition records (js_get payload ''memory_id'') [Active] (\<lambda>r. r\<lparr>mr_status := Expired\<rparr>)
      else if type = DELETED then
        transition records (js_get payload ''memory_id'') [Active, Superseded, Expired] (\<lambda>r. r\<lparr>mr_status := Deleted\<rparr>)
      else Inl (memory_error (''unknown memory event type: '' @ type) ''AGENT_MEMORY_EVENT_UNKNOWN''))"

fun foldEvents :: "mem_env \<Rightarrow> mem_records \<Rightarrow> row list \<Rightarrow> mem_records res" where
  "foldEvents env records [] = Inr records"
| "foldEvents env records (r # rows) =
     bind_res (fold_event env records (r_event_type r) (r_payload r) (r_operation_id r)) (\<lambda>records'.
     foldEvents env records' rows)"

subsection \<open>The store\<close>

record mem_state =
  mt_version :: nat
  mt_records :: mem_records

type_synonym mem_projection = "(string \<times> mem_state) list"

record memory =
  mm_ledger :: ledger
  mm_approvals :: approvals
  mm_projection :: mem_projection

definition drop_projection :: "mem_projection \<Rightarrow> string \<Rightarrow> mem_projection" where
  "drop_projection ps project = filter (\<lambda>x. fst x \<noteq> project) ps"

definition rebuild_memory :: "memory \<Rightarrow> memory" where
  "rebuild_memory m = m\<lparr>mm_projection := []\<rparr>"

definition read_state :: "mem_env \<Rightarrow> memory \<Rightarrow> string \<Rightarrow> nat \<Rightarrow> memory \<times> mem_state res" where
  "read_state env m project version =
     (case bind_res (readStream (mm_ledger m) (JStr MEMORY_AGGREGATE) (JStr project) 1 MAX_SAFE_INTEGER) (foldEvents env []) of
        Inl e \<Rightarrow> (m, Inl e)
      | Inr records \<Rightarrow>
          let state = \<lparr>mt_version = version, mt_records = records\<rparr> in
          (m\<lparr>mm_projection := (project, state) # drop_projection (mm_projection m) project\<rparr>, Inr state))"

definition memory_state :: "mem_env \<Rightarrow> memory \<Rightarrow> string \<Rightarrow> memory \<times> mem_state res" where
  "memory_state env m project =
     (case getVersion (mm_ledger m) (JStr MEMORY_AGGREGATE) (JStr project) of
        Inl e \<Rightarrow> (m, Inl e)
      | Inr version \<Rightarrow>
          (case map_of (mm_projection m) project of
             Some c \<Rightarrow> if mt_version c = version then (m, Inr c) else read_state env m project version
           | None \<Rightarrow> read_state env m project version))"

record mem_fact =
  mf_type :: string
  mf_memory :: string
  mf_payload :: fields
  mf_operation :: "string option"

definition fact_payload :: "mem_fact \<Rightarrow> js" where
  "fact_payload f = JObj ([(''contract'', JStr CONTRACT), (''memory_id'', JStr (mf_memory f))] @ mf_payload f)"

definition fact_event :: "mem_env \<Rightarrow> string \<Rightarrow> js \<Rightarrow> string \<Rightarrow> mem_fact \<Rightarrow> js" where
  "fact_event env project actor at f =
     JObj [(''event_id'', JStr (memory_eventId env project (mf_type f) (mf_memory f))), (''event_type'', JStr (mf_type f)),
       (''schema_version'', JNum 1), (''occurred_at'', JStr at), (''correlation_id'', JStr (''memory:'' @ project)),
       (''causation_id'', JStr (''memory:'' @ project @ '':'' @ mf_memory f)), (''actor'', actor),
       (''operation_id'', nullable_str (mf_operation f)), (''payload'', fact_payload f), (''evidence_refs'', JArr [])]"

definition append_facts ::
    "mem_env \<Rightarrow> string \<Rightarrow> mem_state \<Rightarrow> js \<Rightarrow> js \<Rightarrow> mem_fact list \<Rightarrow> int \<Rightarrow> ledger \<Rightarrow> ledger \<times> append_result res" where
  "append_facts env project state expected actor facts now l =
     (case iso now of
        Inl e \<Rightarrow> (l, Inl e)
      | Inr at \<Rightarrow>
          ledger_append (me_registry env) l
            \<lparr>rq_aggregate_id = JStr project, rq_aggregate_type = JStr MEMORY_AGGREGATE,
             rq_expected_version = (if nullish expected then JNum (int (mt_version state)) else expected),
             rq_events = JArr (map (fact_event env project actor at) facts)\<rparr>)"

definition memory_append ::
    "mem_env \<Rightarrow> memory \<Rightarrow> string \<Rightarrow> mem_state \<Rightarrow> js \<Rightarrow> js \<Rightarrow> mem_fact list \<Rightarrow> int \<Rightarrow> memory \<times> append_result res" where
  "memory_append env m project state expected actor facts now =
     (case append_facts env project state expected actor facts now (mm_ledger m) of
        (l, Inl e) \<Rightarrow> (m\<lparr>mm_ledger := l\<rparr>, Inl e)
      | (l, Inr r) \<Rightarrow> (m\<lparr>mm_ledger := l, mm_projection := drop_projection (mm_projection m) project\<rparr>, Inr r))"

subsection \<open>Writing\<close>

record mem_host =
  mh_rules :: js
  mh_approved :: js
  mh_actor :: js
  mh_mode :: js
  mh_expected :: js

definition host_actor :: "js \<Rightarrow> js" where
  "host_actor actor = (if actor = JUndef then DEFAULT_ACTOR else actor)"

text \<open>Everything \<open>write\<close> decides before it reads the project: the entry and the actor.\<close>

definition prepare_write :: "mem_env \<Rightarrow> js \<Rightarrow> mem_host \<Rightarrow> int \<Rightarrow> (js \<times> js) res" where
  "prepare_write env input host now =
     bind_res (assertEntryInputFields input) (\<lambda>_.
     bind_res (iso now) (\<lambda>created.
     bind_res (normalizeEntry (me_sha env) (me_max_ttl env) (JObj (put_field (own_fields input) ''created_at'' (JStr created)))) (\<lambda>entry.
     bind_res (guards [
       (js_get entry ''source_digest'' \<noteq> JStr (me_sha env (ftext entry ''content'')), memory_invalid ''source_digest does not match the content''),
       (ends_with (ftext entry ''memory_id'') PROMOTED_SUFFIX,
        memory_error ''the :promoted suffix is reserved for operator promotions'' ''AGENT_MEMORY_ID_RESERVED'')]) (\<lambda>_.
     bind_res (normalizeActor (me_scan env) (host_actor (mh_actor host))) (\<lambda>actor.
     bind_res (guards [(js_get entry ''origin'' = JStr ''operator'' \<and> js_get actor ''kind'' \<noteq> JStr ''operator'',
       memory_error ''operator origin needs an operator actor'' ''AGENT_MEMORY_ORIGIN_ACTOR_MISMATCH'')]) (\<lambda>_.
     bind_res (admitWrite (me_collate env) (mh_rules host) (mh_approved host) (mh_mode host)) (\<lambda>policy.
     let stamped = JObj (put_field (own_fields entry) ''write_policy_ref'' (JStr policy)) in
     bind_res (assertNoCredential (me_scan env) stamped) (\<lambda>_. Inr (stamped, actor)))))))))"

definition write_facts :: "js \<Rightarrow> mem_records \<Rightarrow> mem_fact list res" where
  "write_facts entry records =
     (let written = \<lparr>mf_type = WRITTEN, mf_memory = ftext entry ''memory_id'', mf_payload = [(''entry'', entry)], mf_operation = None\<rparr>;
          old = js_get entry ''supersedes'' in
      if map_of records (js_get entry ''memory_id'') \<noteq> None
      then Inl (memory_error ''memory_id is already used in this project'' ''AGENT_MEMORY_DUPLICATE'')
      else if old = JUndef then Inr [written]
      else if map_option mr_status (map_of records old) \<noteq> Some Active
      then Inl (memory_error ''only an active entry can be superseded'' ''AGENT_MEMORY_SUPERSEDE_INVALID'')
      else Inr [written, \<lparr>mf_type = SUPERSEDED, mf_memory = js_text old,
                         mf_payload = [(''superseded_by'', js_get entry ''memory_id'')], mf_operation = None\<rparr>])"

definition memory_write :: "mem_env \<Rightarrow> memory \<Rightarrow> js \<Rightarrow> mem_host \<Rightarrow> int \<Rightarrow> int \<Rightarrow> memory \<times> (string \<times> string) res" where
  "memory_write env m input host now at =
     (case prepare_write env input host now of
        Inl e \<Rightarrow> (m, Inl e)
      | Inr (entry, actor) \<Rightarrow>
          let project = ftext (js_get entry ''scope'') ''project_id'' in
          (case memory_state env m project of
             (m1, Inl e) \<Rightarrow> (m1, Inl e)
           | (m1, Inr state) \<Rightarrow>
               (case write_facts entry (mt_records state) of
                  Inl e \<Rightarrow> (m1, Inl e)
                | Inr facts \<Rightarrow>
                    (case memory_append env m1 project state (mh_expected host) actor facts at of
                       (m2, Inl e) \<Rightarrow> (m2, Inl e)
                     | (m2, Inr r) \<Rightarrow> (m2, Inr (ftext entry ''memory_id'', ftext entry ''write_policy_ref''))))))"

subsection \<open>Expiry\<close>

definition expires_ms :: "js \<Rightarrow> int option" where
  "expires_ms entry = map_option (\<lambda>created. created + fint entry ''ttl_seconds'' * 1000) (iso_ms (ftext entry ''created_at''))"

definition isExpired :: "mem_record \<Rightarrow> int \<Rightarrow> bool" where
  "isExpired r now = (case expires_ms (mr_entry r) of Some t \<Rightarrow> t \<le> now | None \<Rightarrow> False)"

definition due_records :: "mem_records \<Rightarrow> int \<Rightarrow> mem_record list" where
  "due_records records now = filter (\<lambda>r. mr_status r = Active \<and> isExpired r now) (map snd records)"

definition expiry_fact :: "string \<Rightarrow> mem_record \<Rightarrow> mem_fact" where
  "expiry_fact at r = \<lparr>mf_type = EXPIRED, mf_memory = ftext (mr_entry r) ''memory_id'',
     mf_payload = [(''expired_at'', JStr at)], mf_operation = None\<rparr>"

definition sweepExpired :: "mem_env \<Rightarrow> memory \<Rightarrow> js \<Rightarrow> js \<Rightarrow> int \<Rightarrow> int \<Rightarrow> memory \<times> string list res" where
  "sweepExpired env m project_id actor now at =
     (case bind_res (requireIdentifier project_id ''project_id'') (\<lambda>p.
           bind_res (normalizeActor (me_scan env) (host_actor actor)) (\<lambda>a. Inr (p, a))) of
        Inl e \<Rightarrow> (m, Inl e)
      | Inr (project, resolved) \<Rightarrow>
          (case memory_state env m project of
             (m1, Inl e) \<Rightarrow> (m1, Inl e)
           | (m1, Inr state) \<Rightarrow>
               let due = due_records (mt_records state) now in
               if due = [] then (m1, Inr [])
               else case iso now of
                 Inl e \<Rightarrow> (m1, Inl e)
               | Inr t \<Rightarrow>
                   (case memory_append env m1 project state JUndef resolved (map (expiry_fact t) due) at of
                      (m2, Inl e) \<Rightarrow> (m2, Inl e)
                    | (m2, Inr r) \<Rightarrow> (m2, Inr (map (\<lambda>r. ftext (mr_entry r) ''memory_id'') due)))))"

subsection \<open>Operations that need an approval\<close>

text \<open>
  The verifier of \<open>createExecutionApprovalVerifier\<close>: the host resolves the approval of the operation, and the
  approval store consumes it in one transaction with the callback. A failure of the callback is thrown on as it
  is; every other failure becomes a refusal. The callback is reached exactly when consuming the approval
  without it would succeed.
\<close>

record mem_verifier =
  mv_resolve :: "string \<Rightarrow> js \<Rightarrow> js \<Rightarrow> js"
  mv_policy :: string
  mv_now :: int

definition verify_request :: "mem_verifier \<Rightarrow> memory_operation \<Rightarrow> js \<Rightarrow> string \<Rightarrow> consume_request" where
  "verify_request v op actor at =
     \<lparr>cq_approval = mv_resolve v (mo_id op) (mo_scope op) actor, cq_operation = JStr (mo_id op), cq_scope = mo_scope op,
      cq_policy = JStr (mv_policy v), cq_now = JStr at\<rparr>"

definition approval_refused :: jserr where
  "approval_refused = memory_error ''the operation needs a single-use approval'' ''AGENT_MEMORY_APPROVAL_REQUIRED''"

definition withApproval ::
    "memory \<Rightarrow> mem_verifier option \<Rightarrow> memory_operation \<Rightarrow> js \<Rightarrow> string \<Rightarrow> (js \<Rightarrow> ledger \<Rightarrow> ledger \<times> append_result res) \<Rightarrow>
     memory \<times> unit res" where
  "withApproval m verifier op actor project on_append =
     (case verifier of
        None \<Rightarrow> (m, Inl approval_refused)
      | Some v \<Rightarrow>
          let approval = mv_resolve v (mo_id op) (mo_scope op) actor in
          if \<not> is_text approval then (m, Inl approval_refused)
          else case iso (mv_now v) of
            Inl e \<Rightarrow> (m, Inl approval_refused)
          | Inr at \<Rightarrow>
              let q = verify_request v op actor at in
              (case consume (mm_approvals m) (mm_ledger m) q (Some (on_append approval)) of
                 ((ap, l), Inr a) \<Rightarrow>
                   (m\<lparr>mm_approvals := ap, mm_ledger := l, mm_projection := drop_projection (mm_projection m) project\<rparr>, Inr ())
               | ((ap, l), Inl e) \<Rightarrow>
                   (m\<lparr>mm_approvals := ap, mm_ledger := l\<rparr>,
                    Inl (if isl (snd (consume (mm_approvals m) (mm_ledger m) q None)) then approval_refused else e))))"

definition operator_only :: "js \<Rightarrow> string \<Rightarrow> unit res" where
  "operator_only actor what =
     guards [(js_get actor ''kind'' \<noteq> JStr ''operator'', memory_error (what @ '' memory requires an operator actor'') ''AGENT_MEMORY_OPERATOR_REQUIRED'')]"

definition with_default :: "js \<Rightarrow> string \<Rightarrow> js" where
  "with_default v s = (if v = JUndef then JStr s else v)"

definition memory_not_found :: "string \<Rightarrow> jserr" where
  "memory_not_found message = memory_error message ''AGENT_MEMORY_NOT_FOUND''"

definition check_command ::
    "mem_env \<Rightarrow> js \<Rightarrow> js \<Rightarrow> js \<Rightarrow> js \<Rightarrow> string \<Rightarrow> (string \<times> string \<times> js \<times> string) res" where
  "check_command env project_id memory_id reason actor what =
     bind_res (requireIdentifier project_id ''project_id'') (\<lambda>p.
     bind_res (requireIdentifier memory_id ''memory_id'') (\<lambda>i.
     bind_res (operator_only actor what) (\<lambda>_.
     bind_res (normalizeActor (me_scan env) actor) (\<lambda>a.
     bind_res (normalizeReason (me_scan env) reason) (\<lambda>safe. Inr (p, i, a, safe))))))"

definition deletion_fact :: "string \<Rightarrow> string \<Rightarrow> string \<Rightarrow> js \<Rightarrow> mem_fact" where
  "deletion_fact i op reason approval =
     \<lparr>mf_type = DELETED, mf_memory = i, mf_payload = [(''reason'', JStr reason), (''approval_id'', approval)], mf_operation = Some op\<rparr>"

definition memory_forget ::
    "mem_env \<Rightarrow> memory \<Rightarrow> mem_verifier option \<Rightarrow> js \<Rightarrow> js \<Rightarrow> js \<Rightarrow> js \<Rightarrow> int \<Rightarrow> memory \<times> unit res" where
  "memory_forget env m verifier project_id memory_id reason actor at =
     (case check_command env project_id memory_id (with_default reason ''operator command'') actor ''deleting'' of
        Inl e \<Rightarrow> (m, Inl e)
      | Inr (project, i, resolved, safe) \<Rightarrow>
          (case memory_state env m project of
             (m1, Inl e) \<Rightarrow> (m1, Inl e)
           | (m1, Inr state) \<Rightarrow>
               (case map_of (mt_records state) (JStr i) of
                  None \<Rightarrow> (m1, Inl (memory_not_found ''memory entry does not exist''))
                | Some r \<Rightarrow>
                    if mr_status r = Deleted then (m1, Inl (memory_not_found ''memory entry does not exist''))
                    else case memoryDeleteOperation (JStr project) (JStr i) of
                      Inl e \<Rightarrow> (m1, Inl e)
                    | Inr op \<Rightarrow>
                        withApproval m1 verifier op resolved project
                          (\<lambda>approval. append_facts env project state JUndef resolved
                             [deletion_fact i (mo_id op) safe approval] at))))"

subsection \<open>Promotion\<close>

definition remaining_ttl :: "js \<Rightarrow> int \<Rightarrow> js" where
  "remaining_ttl entry now =
     (case expires_ms entry of Some t \<Rightarrow> JNum (max 1 (- ((now - t) div 1000))) | None \<Rightarrow> JNaN)"

definition promoted_input :: "string \<Rightarrow> string \<Rightarrow> js \<Rightarrow> string \<Rightarrow> string \<Rightarrow> int \<Rightarrow> js" where
  "promoted_input project i original hash created now =
     JObj [(''memory_id'', JStr (i @ PROMOTED_SUFFIX)), (''scope'', JObj [(''project_id'', JStr project)]),
       (''content'', js_get original ''content''), (''origin'', JStr ''operator''), (''trust'', JStr ''trusted''),
       (''classification'', js_get original ''classification''), (''source_ref'', JStr (promotedSourceRef project i hash)),
       (''source_digest'', JStr hash), (''ttl_seconds'', remaining_ttl original now), (''supersedes'', JStr i),
       (''write_policy_ref'', JStr PROMOTE_POLICY_REF), (''created_at'', JStr created)]"

definition promotion_facts :: "js \<Rightarrow> string \<Rightarrow> js \<Rightarrow> string \<Rightarrow> string \<Rightarrow> string \<Rightarrow> js \<Rightarrow> mem_fact list" where
  "promotion_facts promoted i actor reason hash op approval =
     [\<lparr>mf_type = WRITTEN, mf_memory = i @ PROMOTED_SUFFIX,
       mf_payload = [(''entry'', promoted), (''promotion'', JObj [(''promoted_from'', JStr i), (''promoted_by'', js_get actor ''id''),
         (''reason'', JStr reason), (''content_sha256'', JStr hash), (''approval_id'', approval)])],
       mf_operation = Some op\<rparr>,
      \<lparr>mf_type = SUPERSEDED, mf_memory = i, mf_payload = [(''superseded_by'', JStr (i @ PROMOTED_SUFFIX))], mf_operation = Some op\<rparr>]"

text \<open>The checks on the entry to promote and the promoted entry, once the record has been found.\<close>

definition prepare_promotion ::
    "mem_env \<Rightarrow> string \<Rightarrow> string \<Rightarrow> mem_record option \<Rightarrow> js \<Rightarrow> int \<Rightarrow> (js \<times> memory_operation) res" where
  "prepare_promotion env project i record content_sha256 now =
     (case record of
        None \<Rightarrow> Inl (memory_not_found ''only an active memory entry of this project can be promoted'')
      | Some r \<Rightarrow>
          let original = mr_entry r; hash = me_sha env (ftext original ''content'') in
          bind_res (guards [
            (mr_status r \<noteq> Active \<or> isExpired r now, memory_not_found ''only an active memory entry of this project can be promoted''),
            (js_get original ''trust'' = JStr ''trusted'', memory_error ''the memory entry is already trusted'' ''AGENT_MEMORY_PROMOTE_INVALID''),
            (content_sha256 \<noteq> JStr hash,
             memory_error ''the approved digest does not match the stored content'' ''AGENT_MEMORY_DIGEST_MISMATCH'')]) (\<lambda>_.
          bind_res (assertNoCredential (me_scan env) original) (\<lambda>_.
          bind_res (iso now) (\<lambda>created.
          bind_res (normalizeEntry (me_sha env) (me_max_ttl env) (promoted_input project i original hash created now)) (\<lambda>promoted.
          bind_res (memoryPromoteOperation (JStr project) (JStr i) (JStr hash)) (\<lambda>op. Inr (promoted, op)))))))"

definition memory_promote ::
    "mem_env \<Rightarrow> memory \<Rightarrow> mem_verifier option \<Rightarrow> js \<Rightarrow> js \<Rightarrow> js \<Rightarrow> js \<Rightarrow> js \<Rightarrow> int \<Rightarrow> int \<Rightarrow> memory \<times> (string \<times> string \<times> string) res" where
  "memory_promote env m verifier project_id memory_id content_sha256 reason actor now at =
     (case check_command env project_id memory_id (with_default reason ''operator promotion'') actor ''promoting'' of
        Inl e \<Rightarrow> (m, Inl e)
      | Inr (project, i, resolved, safe) \<Rightarrow>
          (case memory_state env m project of
             (m1, Inl e) \<Rightarrow> (m1, Inl e)
           | (m1, Inr state) \<Rightarrow>
               (case prepare_promotion env project i (map_of (mt_records state) (JStr i)) content_sha256 now of
                  Inl e \<Rightarrow> (m1, Inl e)
                | Inr (promoted, op) \<Rightarrow>
                    (case withApproval m1 verifier op resolved project
                            (\<lambda>approval. append_facts env project state JUndef resolved
                               (promotion_facts promoted i resolved safe (js_text content_sha256) (mo_id op) approval) at) of
                       (m2, Inl e) \<Rightarrow> (m2, Inl e)
                     | (m2, Inr u) \<Rightarrow> (m2, Inr (i @ PROMOTED_SUFFIX, i, js_text content_sha256))))))"

subsection \<open>Reading\<close>

record inspected =
  in_memory :: string
  in_status :: mem_status
  in_origin :: js
  in_trust :: js
  in_content :: js
  in_sha256 :: string

definition memory_inspect :: "mem_env \<Rightarrow> memory \<Rightarrow> js \<Rightarrow> js \<Rightarrow> memory \<times> inspected res" where
  "memory_inspect env m project_id memory_id =
     (case bind_res (requireIdentifier project_id ''project_id'') (\<lambda>p.
           bind_res (requireIdentifier memory_id ''memory_id'') (\<lambda>i. Inr (p, i))) of
        Inl e \<Rightarrow> (m, Inl e)
      | Inr (project, i) \<Rightarrow>
          (case memory_state env m project of
             (m1, Inl e) \<Rightarrow> (m1, Inl e)
           | (m1, Inr state) \<Rightarrow>
               (m1, case map_of (mt_records state) (JStr i) of
                      None \<Rightarrow> Inl (memory_not_found ''memory entry does not exist'')
                    | Some r \<Rightarrow>
                        Inr \<lparr>in_memory = i, in_status = mr_status r, in_origin = js_get (mr_entry r) ''origin'',
                             in_trust = js_get (mr_entry r) ''trust'', in_content = js_get (mr_entry r) ''content'',
                             in_sha256 = me_sha env (ftext (mr_entry r) ''content'')\<rparr>)))"

definition shown_status :: "mem_record \<Rightarrow> int \<Rightarrow> mem_status" where
  "shown_status r now = (if mr_status r = Active \<and> isExpired r now then Expired else mr_status r)"

definition memory_list :: "mem_env \<Rightarrow> memory \<Rightarrow> js \<Rightarrow> int \<Rightarrow> memory \<times> (js \<times> mem_status \<times> js) list res" where
  "memory_list env m project_id now =
     (case requireIdentifier project_id ''project_id'' of
        Inl e \<Rightarrow> (m, Inl e)
      | Inr project \<Rightarrow>
          (case memory_state env m project of
             (m1, Inl e) \<Rightarrow> (m1, Inl e)
           | (m1, Inr state) \<Rightarrow>
               (m1, Inr (map (\<lambda>(k, r). (js_get (mr_entry r) ''memory_id'', shown_status r now, js_get (mr_entry r) ''trust''))
                  (mt_records state)))))"

text \<open>The host attests a promotion when the approval of that operation was approved and consumed.\<close>

definition promotionAttestation :: "approvals \<Rightarrow> string \<Rightarrow> string \<Rightarrow> bool" where
  "promotionAttestation ap approval op \<longleftrightarrow>
     list_ex (\<lambda>u. u_approval u = approval \<and> u_operation u = op \<and>
       list_ex (\<lambda>a. a_id a = u_approval u \<and> a_operation a = op \<and> a_decision a = ''approved'') (ap_rows ap)) (ap_uses ap)"

type_synonym attestation = "(string \<Rightarrow> string \<Rightarrow> bool) option"

definition isAttestedPromotion :: "mem_env \<Rightarrow> attestation \<Rightarrow> mem_record \<Rightarrow> string \<Rightarrow> mem_records \<Rightarrow> bool res" where
  "isAttestedPromotion env attest r project records =
     (let entry = mr_entry r; promotion = mr_promotion r; old = js_get entry ''supersedes''; hash = js_get entry ''source_digest'' in
      if \<not> isPromotedEntry (me_sha env) entry project then Inr False
      else case attest of
        None \<Rightarrow> Inr False
      | Some f \<Rightarrow>
          if map_of records old = None \<or> js_get promotion ''promoted_from'' \<noteq> old then Inr False
          else if js_get promotion ''content_sha256'' \<noteq> hash \<or> \<not> is_str (js_get promotion ''approval_id'') then Inr False
          else bind_res (memoryPromoteOperation (JStr project) old hash) (\<lambda>op.
            Inr (mr_operation r = Some (mo_id op) \<and> f (ftext promotion ''approval_id'') (mo_id op))))"

subsection \<open>Retrieval\<close>

definition DEFAULT_LIMIT :: int where "DEFAULT_LIMIT = 5"

definition MAX_LIMIT :: int where "MAX_LIMIT = 50"

definition score :: "string list \<Rightarrow> mem_record \<Rightarrow> nat" where
  "score terms r = length (filter (\<lambda>term. term \<in> set (mr_tokens r)) terms)"

definition retrievable :: "bool \<Rightarrow> int \<Rightarrow> string list \<Rightarrow> mem_record \<Rightarrow> bool" where
  "retrievable untrusted now terms r \<longleftrightarrow>
     mr_status r = Active \<and> \<not> isExpired r now \<and>
     (js_get (mr_entry r) ''trust'' = JStr ''untrusted'' \<longrightarrow> untrusted) \<and> 0 < score terms r"

definition ranks_before :: "string list \<Rightarrow> mem_record \<Rightarrow> mem_record \<Rightarrow> bool" where
  "ranks_before terms a b \<longleftrightarrow>
     (let at = ftext (mr_entry a) ''created_at''; bt = ftext (mr_entry b) ''created_at'' in
      score terms b < score terms a \<or>
      (score terms a = score terms b \<and>
       (bt < at \<or> (at = bt \<and> ftext (mr_entry a) ''memory_id'' \<le> ftext (mr_entry b) ''memory_id''))))"

fun insert_ranked :: "string list \<Rightarrow> mem_record \<Rightarrow> mem_record list \<Rightarrow> mem_record list" where
  "insert_ranked terms r [] = [r]"
| "insert_ranked terms r (x # xs) = (if ranks_before terms r x then r # x # xs else x # insert_ranked terms r xs)"

definition rank_records :: "string list \<Rightarrow> mem_record list \<Rightarrow> mem_record list" where
  "rank_records terms rs = foldr (insert_ranked terms) rs []"

definition transform_step :: "string \<Rightarrow> string \<Rightarrow> js \<Rightarrow> js" where
  "transform_step i version input = JObj [(''id'', JStr i), (''version'', JStr version), (''input_digest'', input)]"

definition memory_source :: "mem_env \<Rightarrow> string \<Rightarrow> string \<Rightarrow> nat \<Rightarrow> mem_record \<Rightarrow> bool \<Rightarrow> js" where
  "memory_source env project at index r promoted =
     (let entry = mr_entry r; ref = JStr (''memory://'' @ project @ ''/'' @ ftext entry ''memory_id'');
          hash = JStr (me_sha env (ftext entry ''content'')) in
      JObj [(''source_ref'', ref), (''classification'', js_get entry ''classification''),
        (''priority'', JNum (max 0 (100 - int index))), (''content'', js_get entry ''content''), (''authority'', JStr AUTHORITY),
        (''provenance'', JObj [(''origin'', JStr ''memory''), (''source_ref'', ref), (''digest'', hash),
          (''retrieved_at'', JStr at), (''trust'', JStr (if promoted then ''trusted'' else ''untrusted'')),
          (''transform'', JArr ([transform_step (''memory.write.'' @ ftext entry ''origin'') CONTRACT (js_get entry ''source_digest'')] @
             (if promoted then [transform_step ''memory.promote'' CONTRACT hash] else []) @
             [transform_step ''memory.retrieve'' ''1'' hash]))])])"

definition check_retrieval :: "js \<Rightarrow> js \<Rightarrow> js \<Rightarrow> (string \<times> string \<times> nat) res" where
  "check_retrieval project_id query limit =
     bind_res (requireIdentifier project_id ''project_id'') (\<lambda>p.
     bind_res (guards [(\<not> is_str query \<or> blank (js_text query), memory_invalid ''query must be a non-empty string''),
       (\<not> is_int_ge 1 limit \<or> MAX_LIMIT < js_int limit, memory_invalid ''limit is out of range'')]) (\<lambda>_.
     Inr (p, js_text query, nat (js_int limit))))"

definition memory_retrieve ::
    "mem_env \<Rightarrow> memory \<Rightarrow> attestation \<Rightarrow> js \<Rightarrow> js \<Rightarrow> js \<Rightarrow> js \<Rightarrow> js \<Rightarrow> int \<Rightarrow> memory \<times> js list res" where
  "memory_retrieve env m attest project_id query limit include_untrusted boundary now =
     (case check_retrieval project_id query (if limit = JUndef then JNum DEFAULT_LIMIT else limit) of
        Inl e \<Rightarrow> (m, Inl e)
      | Inr (project, text, amount) \<Rightarrow>
          let terms = tokenize env text in
          (case memory_state env m project of
             (m1, Inl e) \<Rightarrow> (m1, Inl e)
           | (m1, Inr state) \<Rightarrow>
               (m1,
                let ranked = rank_records terms
                  (filter (retrievable (include_untrusted = JBool True) now terms) (map snd (mt_records state))) in
                bind_res (iso now) (\<lambda>at.
                map_res (\<lambda>(index, r).
                  bind_res (if boundary = JStr ''context'' then isAttestedPromotion env attest r project (mt_records state) else Inr False) (\<lambda>promoted.
                  Inr (memory_source env project at index r promoted)))
                  (enumerate 0 (take amount ranked))))))"

subsection \<open>The operator's promotion\<close>

definition OPERATOR_POLICY_VERSION :: string where "OPERATOR_POLICY_VERSION = ''hseos-operational-v1''"

definition operator_approval :: "memory_operation \<Rightarrow> string \<Rightarrow> js \<Rightarrow> string \<Rightarrow> string \<Rightarrow> js" where
  "operator_approval op approval operator issued expires =
     JObj [(''approval_id'', JStr approval), (''operation_id'', JStr (mo_id op)),
       (''authorizer'', JObj [(''id'', js_get operator ''id''), (''type'', JStr ''human'')]), (''resource_scope'', mo_scope op),
       (''issued_at'', JStr issued), (''expires_at'', JStr expires), (''decision'', JStr ''approved''),
       (''policy_version'', JStr OPERATOR_POLICY_VERSION),
       (''evidence_ref'', JStr (''hseos://operator/memory-promotion/'' @ approval))]"

definition operator_verifier :: "string \<Rightarrow> string \<Rightarrow> int \<Rightarrow> mem_verifier" where
  "operator_verifier op approval now =
     \<lparr>mv_resolve = (\<lambda>i scope actor. if i = op then JStr approval else JUndef), mv_policy = OPERATOR_POLICY_VERSION, mv_now = now\<rparr>"

record operator_clock =
  oc_issued :: int
  oc_now :: int
  oc_verify :: int
  oc_at :: int

definition operator_promote ::
    "mem_env \<Rightarrow> memory \<Rightarrow> js \<Rightarrow> string \<Rightarrow> int \<Rightarrow> js \<Rightarrow> js \<Rightarrow> js \<Rightarrow> js \<Rightarrow> operator_clock \<Rightarrow> memory \<times> (string \<times> string \<times> string) res" where
  "operator_promote env m operator approval ttl_ms project_id memory_id content_sha256 reason clock =
     (case memoryPromoteOperation project_id memory_id content_sha256 of
        Inl e \<Rightarrow> (m, Inl e)
      | Inr op \<Rightarrow>
          (case bind_res (iso (oc_issued clock)) (\<lambda>i. bind_res (iso (oc_issued clock + ttl_ms)) (\<lambda>x. Inr (i, x))) of
             Inl e \<Rightarrow> (m, Inl e)
           | Inr (issued, expires) \<Rightarrow>
               (case issue (mm_approvals m) (operator_approval op approval operator issued expires) of
                  (ap, Inl e) \<Rightarrow> (m\<lparr>mm_approvals := ap\<rparr>, Inl e)
                | (ap, Inr a) \<Rightarrow>
                    memory_promote env (m\<lparr>mm_approvals := ap\<rparr>) (Some (operator_verifier (mo_id op) approval (oc_verify clock)))
                      project_id memory_id content_sha256 reason operator (oc_now clock) (oc_at clock))))"

end
