(* ===== verification/MemorySound.thy ===== *)
theory MemorySound
  imports MemoryStore
begin

text \<open>
  Governed memory as a state machine over the ledger: the stream of a project always folds, its records go
  through a fixed lifecycle, the projections of the stores agree with the stream, and what the records say of
  promotions and deletions is backed by consumed approvals.
\<close>

subsection \<open>Records and the fold\<close>

lemma map_of_put_record [simp]: "map_of (put_record rs k r) = (map_of rs)(k \<mapsto> r)"
  by (induction rs k r rule: put_record.induct) (auto simp: fun_eq_iff)

lemma keys_put_record [simp]: "fst ` set (put_record rs k r) = insert k (fst ` set rs)"
  by (induction rs k r rule: put_record.induct) (auto simp: insert_commute)

lemma distinct_put_record: "distinct (map fst rs) \<Longrightarrow> distinct (map fst (put_record rs k r))"
proof (induction rs k r rule: put_record.induct)
  case (2 k' r' rs k r)
  then show ?case using keys_put_record[of rs k r] by auto
qed simp

lemma transition_Inr:
  "transition rs k from patch = Inr rs' \<longleftrightarrow>
     (\<exists>r. map_of rs k = Some r \<and> mr_status r \<in> set from \<and> rs' = put_record rs k (patch r))"
  by (auto simp: transition_def split: option.splits)

lemma foldEvents_append:
  "foldEvents env rs (xs @ ys) = bind_res (foldEvents env rs xs) (\<lambda>rs'. foldEvents env rs' ys)"
proof (induction xs arbitrary: rs)
  case (Cons r xs)
  then show ?case
    by (cases "fold_event env rs (r_event_type r) (r_payload r) (r_operation_id r)") (simp_all add: bind_res_simps)
qed (simp add: bind_res_simps)

text \<open>The effect of facts, and the rows that hold them.\<close>

fun apply_facts :: "mem_env \<Rightarrow> mem_records \<Rightarrow> mem_fact list \<Rightarrow> mem_records res" where
  "apply_facts env rs [] = Inr rs"
| "apply_facts env rs (f # fs) =
     bind_res (fold_event env rs (mf_type f) (stableValue (fact_payload f)) (mf_operation f)) (\<lambda>rs'. apply_facts env rs' fs)"

definition holds_fact :: "row \<Rightarrow> mem_fact \<Rightarrow> bool" where
  "holds_fact r f \<longleftrightarrow>
     r_event_type r = mf_type f \<and> r_payload r = stableValue (fact_payload f) \<and> r_operation_id r = mf_operation f"

lemma foldEvents_facts: "list_all2 holds_fact rows facts \<Longrightarrow> foldEvents env rs rows = apply_facts env rs facts"
  by (induction rows facts arbitrary: rs rule: list_all2_induct) (simp_all add: holds_fact_def bind_res_def split: sum.split)

lemma holds_event_fact: "holds_event r (fact_event env p actor at f) \<Longrightarrow> holds_fact r f"
  by (auto simp: holds_event_def holds_fact_def fact_event_def js_get_JObj event_text_def nullable_str_def split: option.split)

lemma append_facts_rows:
  assumes "ledger_ok l" "append_facts env p state ex actor facts now l = (l', res)"
  shows "ledger_ok l'"
    "led_rows l' = led_rows l \<or>
     (\<exists>rows r. res = Inr r \<and> led_rows l' = led_rows l @ rows \<and> (\<forall>x \<in> set rows. stream_of x = (MEMORY_AGGREGATE, p)) \<and>
        list_all2 holds_fact rows facts)"
proof -
  show "ledger_ok l'" using assms by (auto simp: append_facts_def split: sum.splits dest: ledger_append_ok)
  show "led_rows l' = led_rows l \<or>
     (\<exists>rows r. res = Inr r \<and> led_rows l' = led_rows l @ rows \<and> (\<forall>x \<in> set rows. stream_of x = (MEMORY_AGGREGATE, p)) \<and>
        list_all2 holds_fact rows facts)"
  proof (cases "iso now")
    case (Inr at)
    obtain rq where rq: "ledger_append (me_registry env) l rq = (l', res)" "rq_aggregate_id rq = JStr p"
      "rq_aggregate_type rq = JStr MEMORY_AGGREGATE" "rq_events rq = JArr (map (fact_event env p actor at) facts)"
      using assms(2) Inr by (simp add: append_facts_def)
    show ?thesis
    proof (cases res)
      case (Inl e)
      then show ?thesis using ledger_append_cases[OF rq(1)] by auto
    next
      case r: (Inr r)
      obtain q where q: "prepareAppend (me_registry env) rq = Inr q" "prepared_ok q"
        "append_rows (led_catalog l) (led_rows l) (pr_stream q) (pr_expected q) (pr_candidates q) = Inr (led_rows l', r)"
        by (rule ledger_append_Inr[OF rq(1)[unfolded r]])
      show ?thesis
      proof (cases "ar_idempotent r")
        case True
        then show ?thesis using append_rows_idempotent[OF q(3)] by simp
      next
        case False
        have ok: "rows_ok (led_rows l)" using assms(1) by (simp add: ledger_ok_def)
        have rows: "led_rows l' = led_rows l @ place (length (led_rows l)) (pr_candidates q)"
          using append_rows_fresh(2)[OF ok q(2,3) False] .
        have s: "pr_stream q = (MEMORY_AGGREGATE, p)" using prepareAppend_ok(3)[OF q(1)] rq by simp
        have st: "\<forall>c \<in> set (pr_candidates q). stream_of c = (MEMORY_AGGREGATE, p)"
          using q(2) s by (simp add: prepared_ok_def numbered_def)
        have sel: "select_stream (place (length (led_rows l)) (pr_candidates q)) (MEMORY_AGGREGATE, p) = place (length (led_rows l)) (pr_candidates q)"
          using select_stream_place[OF st] by simp
        have "\<forall>x \<in> set (place (length (led_rows l)) (pr_candidates q)). stream_of x = (MEMORY_AGGREGATE, p)"
          using sel unfolding select_stream_def filter_id_conv by blast
        moreover have "list_all2 holds_event (place (length (led_rows l)) (pr_candidates q)) (map (fact_event env p actor at) facts)"
          using place_holds[OF prepareAppend_holds[OF q(1)]] rq(4) by simp
        then have "list_all2 holds_fact (place (length (led_rows l)) (pr_candidates q)) facts"
          unfolding list_all2_map2 by (rule list_all2_mono) (rule holds_event_fact)
        ultimately show ?thesis using rows r by blast
      qed
    qed
  qed (use assms(2) in \<open>simp add: append_facts_def\<close>)
qed

subsection \<open>Entries\<close>

lemma requireIdentifier_Inr: "requireIdentifier v f = Inr s \<longleftrightarrow> v = JStr s \<and> memory_identifier s"
  by (auto simp: requireIdentifier_def split: js.splits if_splits)

lemma js_get_put_field: "js_get (JObj (put_field fs k v)) k' = (if k' = k then v else js_get (JObj fs) k')"
  by (simp add: js_get_JObj)

lemma stableValue_JStr [simp]: "stableValue v = JStr s \<longleftrightarrow> v = JStr s"
  by (cases v) auto

lemma entry_of_fields:
  assumes "old = [] \<or> (\<exists>s. old = [(''supersedes'', JStr s)])"
  shows "js_get (entry_of sha input i p created old) ''memory_id'' = JStr i"
    "js_get (entry_of sha input i p created old) ''scope'' = JObj [(''project_id'', JStr p)]"
    "js_get (entry_of sha input i p created old) ''content'' = js_get input ''content''"
    "js_get (entry_of sha input i p created old) ''authority'' = JStr AUTHORITY"
    "js_get (entry_of sha input i p created old) ''origin'' = js_get input ''origin''"
    "js_get (entry_of sha input i p created old) ''trust'' = js_get input ''trust''"
    "js_get (entry_of sha input i p created old) ''source_ref'' = js_get input ''source_ref''"
    "js_get (entry_of sha input i p created old) ''source_digest'' = entry_source_digest sha input"
    "js_get (entry_of sha input i p created old) ''write_policy_ref'' = js_get input ''write_policy_ref''"
    "js_get (entry_of sha input i p created old) ''supersedes'' = js_get (JObj old) ''supersedes''"
    "distinct (map fst (own_fields (entry_of sha input i p created old)))"
    "is_obj (entry_of sha input i p created old)"
  using assms by (auto simp: entry_of_def js_get_JObj)

lemma normalizeEntry_Inr:
  assumes "normalizeEntry sha max_ttl input = Inr entry"
  obtains i p created old c where "entry = entry_of sha input i p created old"
    "js_get input ''memory_id'' = JStr i" "memory_identifier i" "memory_identifier p"
    "old = [] \<and> js_get input ''supersedes'' = JUndef \<or> (\<exists>s. old = [(''supersedes'', JStr s)] \<and> js_get input ''supersedes'' = JStr s)"
    "js_get input ''content'' = JStr c" "js_get input ''trust'' = JStr ''trusted'' \<longrightarrow> js_get input ''origin'' = JStr ''operator''"
proof -
  obtain i p created old where e: "check_entry sha max_ttl input = Inr ()" "entry = entry_of sha input i p created old"
    "js_get input ''memory_id'' = JStr i" "memory_identifier i" "memory_identifier p"
    "old = [] \<and> js_get input ''supersedes'' = JUndef \<or> (\<exists>s. old = [(''supersedes'', JStr s)] \<and> js_get input ''supersedes'' = JStr s)"
    using assms by (auto simp: normalizeEntry_def requireIdentifier_Inr split: if_splits)
  have c: "is_str (js_get input ''content'')" "one_of (js_get input ''origin'') ORIGINS"
    "\<not> (one_of (js_get input ''origin'') UNTRUSTED_ORIGINS \<and> js_get input ''trust'' \<noteq> JStr ''untrusted'')"
    using e(1) by (auto simp: check_entry_def Let_def split: if_splits)
  then have "js_get input ''trust'' = JStr ''trusted'' \<longrightarrow> js_get input ''origin'' = JStr ''operator''"
    by (auto simp: one_of_def UNTRUSTED_ORIGINS_def)
  moreover obtain c where "js_get input ''content'' = JStr c" using c(1) by (cases "js_get input ''content''") auto
  ultimately show thesis using that[OF e(2-6)] by blast
qed

text \<open>The payload of a fact, read back from its row.\<close>

lemma js_get_fact_payload:
  assumes "distinct (''contract'' # ''memory_id'' # map fst (mf_payload f))"
  shows "js_get (stableValue (fact_payload f)) k = stableValue (js_get (fact_payload f) k)"
  using assms unfolding fact_payload_def by (intro js_get_stable_obj) simp

subsection \<open>What a record means\<close>

definition used :: "approvals \<Rightarrow> string \<Rightarrow> string \<Rightarrow> bool" where
  "used ap a op \<longleftrightarrow> (\<exists>u \<in> set (ap_uses ap). u_approval u = a \<and> u_operation u = op)"

text \<open>
  The approval \<open>a\<close> was consumed for the operation, and its stored row was approved for that operation on
  exactly that resource scope and was valid when it was consumed. The identifiers of operations are joined
  texts and may be ambiguous, so it is the scope that says which entry was approved.
\<close>

definition granted :: "approvals \<Rightarrow> string \<Rightarrow> string \<Rightarrow> js \<Rightarrow> bool" where
  "granted ap a op scope \<longleftrightarrow>
     (\<exists>u \<in> set (ap_uses ap). \<exists>x \<in> set (ap_rows ap). u_approval u = a \<and> u_operation u = op \<and> a_id x = a \<and>
        a_decision x = ''approved'' \<and> a_operation x = op \<and> a_scope x = stableValue scope \<and> a_issued x \<le> u_at u \<and> u_at u < a_expires x)"

definition delete_scope :: "string \<Rightarrow> string \<Rightarrow> js" where
  "delete_scope p i = JObj [(''project_id'', JStr p), (''memory_id'', JStr i)]"

definition promote_scope :: "string \<Rightarrow> string \<Rightarrow> string \<Rightarrow> js" where
  "promote_scope p i hash = JObj [(''project_id'', JStr p), (''memory_id'', JStr i), (''content_sha256'', JStr hash)]"

lemma consume_granted:
  assumes "consume st l q (Some g) = ((st', l'), Inr x)"
  shows "granted st' (js_text (cq_approval q)) (js_text (cq_operation q)) (cq_scope q)" "set (ap_rows st) \<subseteq> set (ap_rows st')"
proof -
  have s: "select_approval st (js_text (cq_approval q)) = Some x" "a_decision x = ''approved''" "a_operation x = js_text (cq_operation q)"
    "a_scope x = stableValue (cq_scope q)" "a_issued x \<le> js_text (cq_now q)" "js_text (cq_now q) < a_expires x"
    using consume_grants_iff[of st l q g x] assms by blast+
  have "x \<in> set (ap_rows st)" using s(1) by (auto simp: select_approval_def find_Some_iff)
  then show "granted st' (js_text (cq_approval q)) (js_text (cq_operation q)) (cq_scope q)"
    using s consume_Inr(3)[OF assms] by (auto simp: consume_Inr(1)[OF assms] granted_def)
  show "set (ap_rows st) \<subseteq> set (ap_rows st')" by (simp add: consume_Inr(1)[OF assms])
qed

definition promoted_from :: "mem_env \<Rightarrow> string \<Rightarrow> approvals \<Rightarrow> (js \<rightharpoonup> mem_record) \<Rightarrow> string \<Rightarrow> mem_record \<Rightarrow> bool" where
  "promoted_from env p ap R i r \<longleftrightarrow>
     (\<exists>j r0 a c. i = j @ PROMOTED_SUFFIX \<and> memory_identifier j \<and> sha256_text (me_sha env c) \<and> R (JStr j) = Some r0 \<and> mr_status r0 \<noteq> Active \<and>
        js_get (mr_entry r0) ''content'' = JStr c \<and> js_get (mr_entry r) ''content'' = JStr c \<and>
        js_get (mr_entry r) ''trust'' = JStr ''trusted'' \<and> js_get (mr_entry r) ''supersedes'' = JStr j \<and>
        js_get (mr_promotion r) ''approval_id'' = JStr a \<and>
        granted ap a (promote_operation_id p j (me_sha env c)) (promote_scope p j (me_sha env c)))"

definition record_ok :: "mem_env \<Rightarrow> string \<Rightarrow> approvals \<Rightarrow> (js \<rightharpoonup> mem_record) \<Rightarrow> js \<Rightarrow> mem_record \<Rightarrow> bool" where
  "record_ok env p ap R k r \<longleftrightarrow>
     (\<exists>i. k = JStr i \<and> js_get (mr_entry r) ''memory_id'' = JStr i \<and> is_str (js_get (mr_entry r) ''content'') \<and>
        js_get (mr_entry r) ''authority'' = JStr AUTHORITY \<and>
        (js_get (mr_entry r) ''trust'' = JStr ''trusted'' \<longrightarrow> js_get (mr_entry r) ''origin'' = JStr ''operator'') \<and>
        (ends_with i PROMOTED_SUFFIX \<or> js_get (mr_entry r) ''write_policy_ref'' = JStr PROMOTE_POLICY_REF \<longrightarrow> promoted_from env p ap R i r) \<and>
        (mr_status r = Deleted \<longrightarrow> (\<exists>a. granted ap a (delete_operation_id p i) (delete_scope p i))))"

definition records_ok :: "mem_env \<Rightarrow> string \<Rightarrow> approvals \<Rightarrow> mem_records \<Rightarrow> bool" where
  "records_ok env p ap rs \<longleftrightarrow> distinct (map fst rs) \<and> (\<forall>k r. map_of rs k = Some r \<longrightarrow> record_ok env p ap (map_of rs) k r)"

text \<open>An entry never changes, an entry that is no longer active stays so, and deletion is final.\<close>

definition same_entry :: "mem_record \<Rightarrow> mem_record \<Rightarrow> bool" where
  "same_entry r r' \<longleftrightarrow> mr_entry r' = mr_entry r \<and> mr_promotion r' = mr_promotion r \<and> mr_operation r' = mr_operation r \<and>
     mr_tokens r' = mr_tokens r"

definition advances :: "(js \<rightharpoonup> mem_record) \<Rightarrow> (js \<rightharpoonup> mem_record) \<Rightarrow> bool" where
  "advances R R' \<longleftrightarrow> (\<forall>k r. R k = Some r \<longrightarrow>
     (\<exists>r'. R' k = Some r' \<and> same_entry r r' \<and> (mr_status r' = mr_status r \<or> mr_status r = Active \<or> mr_status r' = Deleted)))"

definition uses_grow :: "approvals \<Rightarrow> approvals \<Rightarrow> bool" where
  "uses_grow ap ap' \<longleftrightarrow> set (ap_uses ap) \<subseteq> set (ap_uses ap')"

lemma uses_grow_used: "uses_grow ap ap' \<Longrightarrow> used ap a op \<Longrightarrow> used ap' a op"
  by (auto simp: uses_grow_def used_def)

text \<open>Both tables only grow: their rows cannot be updated or deleted.\<close>

definition tables_grow :: "approvals \<Rightarrow> approvals \<Rightarrow> bool" where
  "tables_grow ap ap' \<longleftrightarrow> uses_grow ap ap' \<and> set (ap_rows ap) \<subseteq> set (ap_rows ap')"

lemma tables_grow_refl [simp]: "tables_grow ap ap"
  by (simp add: tables_grow_def uses_grow_def)

lemma tables_grow_granted: "tables_grow ap ap' \<Longrightarrow> granted ap a op scope \<Longrightarrow> granted ap' a op scope"
  unfolding tables_grow_def uses_grow_def granted_def by (meson subsetD)

lemma advances_refl: "advances R R"
  by (auto simp: advances_def same_entry_def)

lemma advancesE:
  assumes "advances R R'" "R k = Some r"
  obtains r' where "R' k = Some r'" "same_entry r r'" "mr_status r' = mr_status r \<or> mr_status r = Active \<or> mr_status r' = Deleted"
  using assms unfolding advances_def by blast

lemma advances_trans:
  assumes "advances R S" "advances S T"
  shows "advances R T"
  unfolding advances_def
proof (intro allI impI)
  fix k r assume r: "R k = Some r"
  obtain s where s: "S k = Some s" "same_entry r s" "mr_status s = mr_status r \<or> mr_status r = Active \<or> mr_status s = Deleted"
    by (rule advancesE[OF assms(1) r])
  obtain t where t: "T k = Some t" "same_entry s t" "mr_status t = mr_status s \<or> mr_status s = Active \<or> mr_status t = Deleted"
    by (rule advancesE[OF assms(2) s(1)])
  have "same_entry r t" using s(2) t(2) by (simp add: same_entry_def)
  moreover have "mr_status t = mr_status r \<or> mr_status r = Active \<or> mr_status t = Deleted" using s(3) t(3) by auto
  ultimately show "\<exists>t. T k = Some t \<and> same_entry r t \<and> (mr_status t = mr_status r \<or> mr_status r = Active \<or> mr_status t = Deleted)"
    using t(1) by blast
qed

lemma promoted_from_mono:
  assumes "promoted_from env p ap R i r" "advances R R'" "tables_grow ap ap'" "same_entry r r'"
  shows "promoted_from env p ap' R' i r'"
proof -
  obtain j r0 a c where h: "i = j @ PROMOTED_SUFFIX" "memory_identifier j \<and> sha256_text (me_sha env c) \<and> R (JStr j) = Some r0" "mr_status r0 \<noteq> Active"
    "js_get (mr_entry r0) ''content'' = JStr c" "js_get (mr_entry r) ''content'' = JStr c"
    "js_get (mr_entry r) ''trust'' = JStr ''trusted''" "js_get (mr_entry r) ''supersedes'' = JStr j"
    "js_get (mr_promotion r) ''approval_id'' = JStr a" "granted ap a (promote_operation_id p j (me_sha env c)) (promote_scope p j (me_sha env c))"
    using assms(1) unfolding promoted_from_def by blast
  obtain r1 where "R' (JStr j) = Some r1" "same_entry r0 r1" "mr_status r1 = mr_status r0 \<or> mr_status r0 = Active \<or> mr_status r1 = Deleted"
    using advancesE[OF assms(2)] h(2) by blast
  moreover have "mr_status r1 \<noteq> Active" using calculation(3) h(3) by auto
  ultimately show ?thesis
    using h assms(3,4) tables_grow_granted unfolding promoted_from_def same_entry_def
    by (intro exI[of _ j] exI[of _ r1] exI[of _ a] exI[of _ c]) auto
qed

lemma records_ok_update:
  assumes "records_ok env p ap rs" "advances (map_of rs) (map_of rs')" "tables_grow ap ap'" "distinct (map fst rs')"
    "\<And>k r'. map_of rs' k = Some r' \<Longrightarrow>
       (\<exists>r. map_of rs k = Some r \<and> same_entry r r' \<and>
          (mr_status r' = Deleted \<longrightarrow> mr_status r = Deleted \<or> (\<exists>a i. k = JStr i \<and> granted ap' a (delete_operation_id p i) (delete_scope p i)))) \<or>
       record_ok env p ap' (map_of rs') k r'"
  shows "records_ok env p ap' rs'"
  unfolding records_ok_def
proof (intro conjI allI impI)
  fix k r' assume k: "map_of rs' k = Some r'"
  consider (old) r where "map_of rs k = Some r" "same_entry r r'"
      "mr_status r' = Deleted \<longrightarrow> mr_status r = Deleted \<or> (\<exists>a i. k = JStr i \<and> granted ap' a (delete_operation_id p i) (delete_scope p i))"
    | (new) "record_ok env p ap' (map_of rs') k r'"
    using assms(5)[OF k] by blast
  then show "record_ok env p ap' (map_of rs') k r'"
  proof cases
    case old
    have "record_ok env p ap (map_of rs) k r" using assms(1) old(1) by (simp add: records_ok_def)
    then obtain i where i: "k = JStr i" "js_get (mr_entry r) ''memory_id'' = JStr i" "is_str (js_get (mr_entry r) ''content'')"
      "js_get (mr_entry r) ''authority'' = JStr AUTHORITY"
      "js_get (mr_entry r) ''trust'' = JStr ''trusted'' \<longrightarrow> js_get (mr_entry r) ''origin'' = JStr ''operator''"
      "ends_with i PROMOTED_SUFFIX \<or> js_get (mr_entry r) ''write_policy_ref'' = JStr PROMOTE_POLICY_REF \<longrightarrow> promoted_from env p ap (map_of rs) i r"
      "mr_status r = Deleted \<longrightarrow> (\<exists>a. granted ap a (delete_operation_id p i) (delete_scope p i))"
      unfolding record_ok_def by blast
    have e: "mr_entry r' = mr_entry r" using old(2) by (simp add: same_entry_def)
    have "mr_status r' = Deleted \<longrightarrow> (\<exists>a. granted ap' a (delete_operation_id p i) (delete_scope p i))"
      using old(3) i(1,7) tables_grow_granted[OF assms(3)] by auto
    then show ?thesis
      using i promoted_from_mono[OF _ assms(2,3) old(2)] unfolding record_ok_def e by blast
  qed
qed (rule assms(4))

subsection \<open>The effect of the facts\<close>

lemma js_get_stable_entry:
  assumes "is_obj v" "distinct (map fst (own_fields v))"
  shows "js_get (stableValue v) k = stableValue (js_get v k)"
  using assms js_get_stable_obj by (cases v) auto

definition written_record :: "mem_env \<Rightarrow> js \<Rightarrow> js \<Rightarrow> string option \<Rightarrow> mem_record" where
  "written_record env entry promotion op =
     \<lparr>mr_entry = stableValue entry, mr_status = Active, mr_tokens = tokenize env (ftext entry ''content''),
      mr_promotion = (if nullish promotion then JNull else stableValue promotion), mr_operation = op, mr_superseded_by = JUndef\<rparr>"

lemma nullish_stable [simp]: "nullish (stableValue v) \<longleftrightarrow> nullish v"
  by (cases v) (simp_all add: nullish_def)

lemma written_fact:
  assumes "is_obj entry" "distinct (map fst (own_fields entry))" "js_get entry ''content'' = JStr c" "js_get entry ''memory_id'' = JStr i"
    "extra = [] \<or> extra = [(''promotion'', w)]"
  shows "fold_event env rs WRITTEN
     (stableValue (fact_payload \<lparr>mf_type = WRITTEN, mf_memory = m, mf_payload = (''entry'', entry) # extra, mf_operation = op\<rparr>)) op =
     Inr (put_record rs (JStr i) (written_record env entry (js_get (JObj extra) ''promotion'') op))"
proof -
  let ?f = "\<lparr>mf_type = WRITTEN, mf_memory = m, mf_payload = (''entry'', entry) # extra, mf_operation = op\<rparr>"
  have d: "distinct (''contract'' # ''memory_id'' # map fst (mf_payload ?f))" using assms(5) by auto
  have g: "js_get (fact_payload ?f) ''entry'' = entry" "js_get (fact_payload ?f) ''promotion'' = js_get (JObj extra) ''promotion''"
    by (simp_all add: fact_payload_def js_get_JObj)
  show ?thesis
    using js_get_stable_entry[OF assms(1,2)] assms(3,4)
    by (simp add: fold_event_def js_get_fact_payload[OF d] g written_record_def ftext_def)
qed

lemma shift_fact:
  assumes "distinct (''contract'' # ''memory_id'' # map fst payload)"
  shows "fold_event env rs SUPERSEDED (stableValue (fact_payload \<lparr>mf_type = t, mf_memory = i, mf_payload = payload, mf_operation = op\<rparr>)) op' =
      transition rs (JStr i) [Active] (\<lambda>r. r\<lparr>mr_status := Superseded, mr_superseded_by := stableValue (js_get (JObj payload) ''superseded_by'')\<rparr>)"
    "fold_event env rs EXPIRED (stableValue (fact_payload \<lparr>mf_type = t, mf_memory = i, mf_payload = payload, mf_operation = op\<rparr>)) op' =
      transition rs (JStr i) [Active] (\<lambda>r. r\<lparr>mr_status := Expired\<rparr>)"
    "fold_event env rs DELETED (stableValue (fact_payload \<lparr>mf_type = t, mf_memory = i, mf_payload = payload, mf_operation = op\<rparr>)) op' =
      transition rs (JStr i) [Active, Superseded, Expired] (\<lambda>r. r\<lparr>mr_status := Deleted\<rparr>)"
proof -
  let ?f = "\<lparr>mf_type = t, mf_memory = i, mf_payload = payload, mf_operation = op\<rparr>"
  have d: "distinct (''contract'' # ''memory_id'' # map fst (mf_payload ?f))" using assms by simp
  have g: "js_get (fact_payload ?f) ''memory_id'' = JStr i" "js_get (fact_payload ?f) ''superseded_by'' = js_get (JObj payload) ''superseded_by''"
    by (simp_all add: fact_payload_def js_get_JObj)
  note f = fold_event_def js_get_fact_payload[OF d] g WRITTEN_def SUPERSEDED_def EXPIRED_def DELETED_def
  show "fold_event env rs SUPERSEDED (stableValue (fact_payload ?f)) op' =
      transition rs (JStr i) [Active] (\<lambda>r. r\<lparr>mr_status := Superseded, mr_superseded_by := stableValue (js_get (JObj payload) ''superseded_by'')\<rparr>)"
    "fold_event env rs EXPIRED (stableValue (fact_payload ?f)) op' = transition rs (JStr i) [Active] (\<lambda>r. r\<lparr>mr_status := Expired\<rparr>)"
    "fold_event env rs DELETED (stableValue (fact_payload ?f)) op' =
      transition rs (JStr i) [Active, Superseded, Expired] (\<lambda>r. r\<lparr>mr_status := Deleted\<rparr>)"
    by (simp_all add: f)
qed

subsection \<open>Every operation appends facts that apply\<close>

definition change_ok :: "mem_env \<Rightarrow> string \<Rightarrow> mem_records \<Rightarrow> approvals \<Rightarrow> mem_fact list \<Rightarrow> bool" where
  "change_ok env p rs ap' facts \<longleftrightarrow>
     (\<exists>rs'. apply_facts env rs facts = Inr rs' \<and> records_ok env p ap' rs' \<and> advances (map_of rs) (map_of rs'))"

lemma advances_new: "map_of rs k = None \<Longrightarrow> advances (map_of rs) ((map_of rs)(k \<mapsto> r))"
  by (auto simp: advances_def same_entry_def)

lemma advances_shift:
  "map_of rs k = Some r \<Longrightarrow> same_entry r r' \<Longrightarrow> mr_status r' = mr_status r \<or> mr_status r = Active \<or> mr_status r' = Deleted \<Longrightarrow>
     advances (map_of rs) ((map_of rs)(k \<mapsto> r'))"
  by (auto simp: advances_def same_entry_def)

lemma records_ok_shift:
  assumes "records_ok env p ap rs" "tables_grow ap ap'" "map_of rs k = Some r" "same_entry r r'"
    "mr_status r = Active \<or> mr_status r' = Deleted" "mr_status r' = Deleted \<Longrightarrow> \<exists>a i. k = JStr i \<and> granted ap' a (delete_operation_id p i) (delete_scope p i)"
  shows "records_ok env p ap' (put_record rs k r') \<and> advances (map_of rs) (map_of (put_record rs k r'))"
proof -
  have a: "advances (map_of rs) (map_of (put_record rs k r'))" using advances_shift[OF assms(3,4)] assms(5) by auto
  moreover have "records_ok env p ap' (put_record rs k r')"
  proof (rule records_ok_update[OF assms(1) a assms(2)])
    show "distinct (map fst (put_record rs k r'))" using assms(1) by (simp add: records_ok_def distinct_put_record)
  next
    fix k' x assume x: "map_of (put_record rs k r') k' = Some x"
    show "(\<exists>r. map_of rs k' = Some r \<and> same_entry r x \<and>
        (mr_status x = Deleted \<longrightarrow> mr_status r = Deleted \<or> (\<exists>a i. k' = JStr i \<and> granted ap' a (delete_operation_id p i) (delete_scope p i)))) \<or>
      record_ok env p ap' (map_of (put_record rs k r')) k' x"
    proof (cases "k' = k")
      case True
      then show ?thesis using x assms(3,4,6) by auto
    next
      case False
      then have "map_of rs k' = Some x" using x by simp
      then show ?thesis by (auto simp: same_entry_def)
    qed
  qed
  ultimately show ?thesis by blast
qed

lemma records_ok_new:
  assumes "records_ok env p ap rs" "map_of rs k = None" "record_ok env p ap ((map_of rs)(k \<mapsto> r)) k r"
  shows "records_ok env p ap (put_record rs k r) \<and> advances (map_of rs) (map_of (put_record rs k r))"
proof -
  have a: "advances (map_of rs) (map_of (put_record rs k r))" using advances_new[OF assms(2)] by simp
  have "records_ok env p ap (put_record rs k r)"
  proof (rule records_ok_update[OF assms(1) a])
    show "tables_grow ap ap" by (simp add: tables_grow_refl)
    show "distinct (map fst (put_record rs k r))" using assms(1) by (simp add: records_ok_def distinct_put_record)
  next
    fix k' x assume x: "map_of (put_record rs k r) k' = Some x"
    show "(\<exists>r. map_of rs k' = Some r \<and> same_entry r x \<and>
        (mr_status x = Deleted \<longrightarrow> mr_status r = Deleted \<or> (\<exists>a i. k' = JStr i \<and> granted ap a (delete_operation_id p i) (delete_scope p i)))) \<or>
      record_ok env p ap (map_of (put_record rs k r)) k' x"
      using x assms(3) by (cases "k' = k") (auto simp: same_entry_def)
  qed
  then show ?thesis using a by blast
qed

lemma admitWrite_rule: "admitWrite collate rules approved mode = Inr ref \<Longrightarrow> \<exists>x. ref = ''rule:'' @ x"
  by (auto simp: admitWrite_def Let_def split: option.splits if_splits)

lemma prepare_write_Inr:
  assumes "prepare_write env input host now = Inr (entry, actor)"
  obtains i p c ref where "is_obj entry" "distinct (map fst (own_fields entry))" "js_get entry ''memory_id'' = JStr i"
    "memory_identifier i" "\<not> ends_with i PROMOTED_SUFFIX" "ftext (js_get entry ''scope'') ''project_id'' = p" "memory_identifier p"
    "js_get entry ''content'' = JStr c" "js_get entry ''authority'' = JStr AUTHORITY"
    "js_get entry ''trust'' = JStr ''trusted'' \<longrightarrow> js_get entry ''origin'' = JStr ''operator''"
    "js_get entry ''write_policy_ref'' = JStr (''rule:'' @ ref)" "js_get entry ''supersedes'' = JUndef \<or> is_str (js_get entry ''supersedes'')"
proof -
  obtain created e policy where w: "normalizeEntry (me_sha env) (me_max_ttl env) (JObj (put_field (own_fields input) ''created_at'' (JStr created))) = Inr e"
    "\<not> ends_with (ftext e ''memory_id'') PROMOTED_SUFFIX"
    "admitWrite (me_collate env) (mh_rules host) (mh_approved host) (mh_mode host) = Inr policy"
    "entry = JObj (put_field (own_fields e) ''write_policy_ref'' (JStr policy))"
    using assms by (auto simp: prepare_write_def Let_def split: if_splits)
  let ?in = "JObj (put_field (own_fields input) ''created_at'' (JStr created))"
  obtain i p t old c where n: "e = entry_of (me_sha env) ?in i p t old" "js_get ?in ''memory_id'' = JStr i" "memory_identifier i" "memory_identifier p"
    "old = [] \<and> js_get ?in ''supersedes'' = JUndef \<or> (\<exists>s. old = [(''supersedes'', JStr s)] \<and> js_get ?in ''supersedes'' = JStr s)"
    "js_get ?in ''content'' = JStr c" "js_get ?in ''trust'' = JStr ''trusted'' \<longrightarrow> js_get ?in ''origin'' = JStr ''operator''"
    by (rule normalizeEntry_Inr[OF w(1)])
  have old: "old = [] \<or> (\<exists>s. old = [(''supersedes'', JStr s)])" using n(5) by blast
  note f = entry_of_fields[OF old]
  have obj: "JObj (own_fields e) = e" unfolding n(1) entry_of_def by simp
  have g: "js_get entry k = js_get e k" if "k \<noteq> ''write_policy_ref''" for k
    using that obj by (simp add: w(4) js_get_put_field)
  obtain x where x: "policy = ''rule:'' @ x" using admitWrite_rule[OF w(3)] by blast
  show thesis
  proof (rule that[of i p c x])
    show "distinct (map fst (own_fields entry))" using f(11) by (simp add: w(4) n(1))
    show "ftext (js_get entry ''scope'') ''project_id'' = p" by (simp add: g n(1) f(2) ftext_def) (simp add: js_get_JObj)
    show "js_get entry ''supersedes'' = JUndef \<or> is_str (js_get entry ''supersedes'')"
      using old by (auto simp: g n(1) f(10) js_get_JObj)
    show "js_get entry ''trust'' = JStr ''trusted'' \<longrightarrow> js_get entry ''origin'' = JStr ''operator''"
      using n(7) by (simp add: g n(1) f(5,6))
    show "\<not> ends_with i PROMOTED_SUFFIX" using w(2) by (simp add: ftext_def n(1) f(1))
    show "is_obj entry" by (simp add: w(4))
    show "js_get entry ''memory_id'' = JStr i" "js_get entry ''authority'' = JStr AUTHORITY" by (simp_all add: g n(1) f(1,4))
    show "js_get entry ''content'' = JStr c" using n(6) by (simp add: g n(1) f(3))
    show "js_get entry ''write_policy_ref'' = JStr (''rule:'' @ x)" by (simp add: w(4) js_get_put_field x)
  qed (rule n(3,4))+
qed

lemma write_change:
  assumes "prepare_write env input host now = Inr (entry, actor)" "write_facts entry rs = Inr facts" "records_ok env p ap rs"
  shows "change_ok env p rs ap facts"
proof -
  obtain i c ref where e: "is_obj entry" "distinct (map fst (own_fields entry))" "js_get entry ''memory_id'' = JStr i"
    "\<not> ends_with i PROMOTED_SUFFIX" "js_get entry ''content'' = JStr c" "js_get entry ''authority'' = JStr AUTHORITY"
    "js_get entry ''trust'' = JStr ''trusted'' \<longrightarrow> js_get entry ''origin'' = JStr ''operator''"
    "js_get entry ''write_policy_ref'' = JStr (''rule:'' @ ref)" "js_get entry ''supersedes'' = JUndef \<or> is_str (js_get entry ''supersedes'')"
    using prepare_write_Inr[OF assms(1)] by metis
  let ?r = "written_record env entry JUndef None" and ?k = "JStr i"
  have free: "map_of rs ?k = None" using assms(2) e(3) by (auto simp: write_facts_def Let_def split: if_splits)
  have st: "js_get (mr_entry ?r) k = stableValue (js_get entry k)" for k
    using js_get_stable_entry[OF e(1,2)] by (simp add: written_record_def)
  have "record_ok env p ap ((map_of rs)(?k \<mapsto> ?r)) ?k ?r"
    using e by (simp add: record_ok_def st PROMOTE_POLICY_REF_def) (simp add: written_record_def)
  note new = records_ok_new[OF assms(3) free this]
  have w: "fold_event env rs WRITTEN (stableValue (fact_payload \<lparr>mf_type = WRITTEN, mf_memory = i, mf_payload = [(''entry'', entry)], mf_operation = None\<rparr>)) None =
      Inr (put_record rs ?k ?r)"
    using written_fact[OF e(1,2,5,3), of "[]"] by (simp add: js_get_JObj)
  show ?thesis
  proof (cases "js_get entry ''supersedes'' = JUndef")
    case True
    then have "facts = [\<lparr>mf_type = WRITTEN, mf_memory = i, mf_payload = [(''entry'', entry)], mf_operation = None\<rparr>]"
      using assms(2) e(3) by (auto simp: write_facts_def Let_def ftext_def split: if_splits)
    then show ?thesis using new w by (simp add: change_ok_def bind_res_simps)
  next
    case False
    then obtain j where j: "js_get entry ''supersedes'' = JStr j" using e(9) by (cases "js_get entry ''supersedes''") auto
    then obtain r0 where r0: "map_of rs (JStr j) = Some r0" "mr_status r0 = Active"
      and f: "facts = [\<lparr>mf_type = WRITTEN, mf_memory = i, mf_payload = [(''entry'', entry)], mf_operation = None\<rparr>,
        \<lparr>mf_type = SUPERSEDED, mf_memory = j, mf_payload = [(''superseded_by'', JStr i)], mf_operation = None\<rparr>]"
      using assms(2) e(3) by (auto simp: write_facts_def Let_def ftext_def split: if_splits)
    let ?rs = "put_record rs ?k ?r" and ?r1 = "r0\<lparr>mr_status := Superseded, mr_superseded_by := JStr i\<rparr>"
    have m: "map_of ?rs (JStr j) = Some r0" using r0(1) free by auto
    have "records_ok env p ap (put_record ?rs (JStr j) ?r1) \<and> advances (map_of ?rs) (map_of (put_record ?rs (JStr j) ?r1))"
      using new m r0(2) by (intro records_ok_shift[where ap = ap]) (auto simp: tables_grow_refl same_entry_def)
    moreover have "apply_facts env rs facts = Inr (put_record ?rs (JStr j) ?r1)"
      using m r0(2) by (simp add: f w bind_res_simps shift_fact transition_def js_get_JObj)
    ultimately show ?thesis using new advances_trans unfolding change_ok_def by blast
  qed
qed

lemma record_key:
  assumes "records_ok env p ap rs" "map_of rs k = Some r"
  shows "k = JStr (ftext (mr_entry r) ''memory_id'')"
  using assms unfolding records_ok_def record_ok_def ftext_def by fastforce

lemma expire_change:
  assumes "records_ok env p ap rs" "distinct (map (\<lambda>r. ftext (mr_entry r) ''memory_id'') due)"
    "\<forall>r \<in> set due. mr_status r = Active \<and> map_of rs (JStr (ftext (mr_entry r) ''memory_id'')) = Some r"
  shows "change_ok env p rs ap (map (expiry_fact t) due)"
  using assms
proof (induction due arbitrary: rs)
  case Nil
  then show ?case by (simp add: change_ok_def advances_refl)
next
  case (Cons r due)
  let ?k = "JStr (ftext (mr_entry r) ''memory_id'')" and ?r = "r\<lparr>mr_status := Expired\<rparr>"
  have r: "map_of rs ?k = Some r" "mr_status r = Active" using Cons.prems(3) by simp_all
  have ok: "records_ok env p ap (put_record rs ?k ?r) \<and> advances (map_of rs) (map_of (put_record rs ?k ?r))"
    using Cons.prems(1) r by (intro records_ok_shift[where ap = ap]) (auto simp: tables_grow_refl same_entry_def)
  have "\<forall>x \<in> set due. mr_status x = Active \<and> map_of (put_record rs ?k ?r) (JStr (ftext (mr_entry x) ''memory_id'')) = Some x"
    using Cons.prems(2,3) by (auto simp: image_iff)
  with Cons.IH[of "put_record rs ?k ?r"] ok Cons.prems(2) obtain rs' where rs': "apply_facts env (put_record rs ?k ?r) (map (expiry_fact t) due) = Inr rs'"
    "records_ok env p ap rs'" "advances (map_of (put_record rs ?k ?r)) (map_of rs')"
    by (auto simp: change_ok_def)
  moreover have "apply_facts env rs (map (expiry_fact t) (r # due)) = Inr rs'"
    using r rs'(1) by (simp add: expiry_fact_def shift_fact transition_def bind_res_simps)
  ultimately show ?case using ok advances_trans unfolding change_ok_def by blast
qed

lemma sweep_change:
  assumes "records_ok env p ap rs"
  shows "change_ok env p rs ap (map (expiry_fact t) (due_records rs now))"
proof (rule expire_change[OF assms])
  have d: "distinct (map fst rs)" using assms by (simp add: records_ok_def)
  have key: "k = JStr (ftext (mr_entry r) ''memory_id'')" if "(k, r) \<in> set rs" for k r
    using record_key[OF assms] d that by (simp add: map_of_is_SomeI)
  have "map (\<lambda>r. JStr (ftext (mr_entry r) ''memory_id'')) (map snd rs) = map fst rs"
    using key by (auto simp: o_def intro!: map_cong)
  then have "distinct (map (\<lambda>r. JStr (ftext (mr_entry r) ''memory_id'')) (map snd rs))" using d by metis
  then have "distinct (map (\<lambda>r. JStr (ftext (mr_entry r) ''memory_id'')) (due_records rs now))"
    unfolding due_records_def by (rule distinct_map_filter)
  then show "distinct (map (\<lambda>r. ftext (mr_entry r) ''memory_id'') (due_records rs now))"
    by (simp add: distinct_map inj_on_def)
  show "\<forall>r \<in> set (due_records rs now). mr_status r = Active \<and> map_of rs (JStr (ftext (mr_entry r) ''memory_id'')) = Some r"
    using key d by (auto simp: due_records_def)
qed

lemma forget_change:
  assumes "records_ok env p ap rs" "map_of rs (JStr i) = Some r" "mr_status r \<noteq> Deleted" "tables_grow ap ap'" "granted ap' a (delete_operation_id p i) (delete_scope p i)"
  shows "change_ok env p rs ap' [deletion_fact i op reason approval]"
proof -
  let ?r = "r\<lparr>mr_status := Deleted\<rparr>"
  have "records_ok env p ap' (put_record rs (JStr i) ?r) \<and> advances (map_of rs) (map_of (put_record rs (JStr i) ?r))"
    using assms by (intro records_ok_shift[where ap = ap]) (auto simp: same_entry_def)
  moreover have "apply_facts env rs [deletion_fact i op reason approval] = Inr (put_record rs (JStr i) ?r)"
    using assms(2,3) by (cases "mr_status r") (simp_all add: deletion_fact_def shift_fact transition_def bind_res_simps)
  ultimately show ?thesis unfolding change_ok_def by blast
qed

lemma ends_with_append [simp]: "ends_with (s @ w) w"
  by (simp add: ends_with_def)

lemma prepare_promotion_Inr:
  assumes "prepare_promotion env p i record sha now = Inr (promoted, op)"
  obtains r t where "record = Some r" "mr_status r = Active" "js_get (mr_entry r) ''trust'' \<noteq> JStr ''trusted''"
    "sha = JStr (me_sha env (ftext (mr_entry r) ''content''))"
    "promoted = entry_of (me_sha env) (promoted_input p i (mr_entry r) (js_text sha) t now) (i @ PROMOTED_SUFFIX) p t [(''supersedes'', JStr i)]"
    "mo_id op = promote_operation_id p i (js_text sha)" "memory_identifier i" "sha256_text (js_text sha)"
    "mo_scope op = promote_scope p i (js_text sha)"
proof -
  obtain r created where r: "record = Some r" "mr_status r = Active" "js_get (mr_entry r) ''trust'' \<noteq> JStr ''trusted''"
    "sha = JStr (me_sha env (ftext (mr_entry r) ''content''))"
    and n: "normalizeEntry (me_sha env) (me_max_ttl env) (promoted_input p i (mr_entry r) (js_text sha) created now) = Inr promoted"
    and o: "mo_id op = promote_operation_id p i (js_text sha)" "memory_identifier i" "sha256_text (js_text sha)"
      "mo_scope op = promote_scope p i (js_text sha)"
    using assms by (auto simp: prepare_promotion_def promote_scope_def memoryPromoteOperation_def requireIdentifier_Inr Let_def split: option.splits if_splits)
  let ?in = "promoted_input p i (mr_entry r) (js_text sha) created now"
  obtain t where e: "promoted = entry_of (me_sha env) ?in (i @ PROMOTED_SUFFIX) p t [(''supersedes'', JStr i)]" "memory_timestamp (JStr created) ''created_at'' = Inr t"
    using n by (auto simp: normalizeEntry_def requireIdentifier_Inr promoted_input_def js_get_JObj split: if_splits)
  have "entry_of (me_sha env) ?in x y z w = entry_of (me_sha env) (promoted_input p i (mr_entry r) (js_text sha) t now) x y z w" for x y z w
    by (simp add: entry_of_def promoted_input_def entry_source_digest_def js_get_JObj)
  then show thesis using that[OF r _ o] e(1) by simp
qed

lemma promote_change:
  assumes ok: "records_ok env p ap rs" and prep: "prepare_promotion env p i (map_of rs (JStr i)) sha now = Inr (promoted, op)"
    and grow: "tables_grow ap ap'" and used: "granted ap' a (mo_id op) (mo_scope op)"
  shows "change_ok env p rs ap' (promotion_facts promoted i actor reason (js_text sha) (mo_id op) (JStr a))"
proof -
  obtain r t where r: "map_of rs (JStr i) = Some r" "mr_status r = Active" "js_get (mr_entry r) ''trust'' \<noteq> JStr ''trusted''"
    "sha = JStr (me_sha env (ftext (mr_entry r) ''content''))"
    "promoted = entry_of (me_sha env) (promoted_input p i (mr_entry r) (js_text sha) t now) (i @ PROMOTED_SUFFIX) p t [(''supersedes'', JStr i)]"
    "mo_id op = promote_operation_id p i (js_text sha)" "memory_identifier i" "sha256_text (js_text sha)"
    "mo_scope op = promote_scope p i (js_text sha)"
    by (rule prepare_promotion_Inr[OF prep])
  have rok: "record_ok env p ap (map_of rs) (JStr i) r" using ok r(1) by (simp add: records_ok_def)
  then obtain c where c: "js_get (mr_entry r) ''content'' = JStr c"
    by (cases "js_get (mr_entry r) ''content''") (auto simp: record_ok_def)
  let ?k = "JStr (i @ PROMOTED_SUFFIX)" and ?in = "promoted_input p i (mr_entry r) (js_text sha) t now"
  have free: "map_of rs ?k = None"
  proof (rule ccontr)
    assume "map_of rs ?k \<noteq> None"
    then obtain x where "map_of rs ?k = Some x" by blast
    then have "record_ok env p ap (map_of rs) ?k x" using ok by (simp add: records_ok_def)
    then have "promoted_from env p ap (map_of rs) (i @ PROMOTED_SUFFIX) x" unfolding record_ok_def by auto
    then show False using r(1,2) unfolding promoted_from_def by auto
  qed
  define w where "w = JObj [(''promoted_from'', JStr i), (''promoted_by'', js_get actor ''id''), (''reason'', JStr reason),
     (''content_sha256'', JStr (js_text sha)), (''approval_id'', JStr a)]"
  define new where "new = written_record env promoted w (Some (mo_id op))"
  define r1 where "r1 = r\<lparr>mr_status := Superseded, mr_superseded_by := JStr (i @ PROMOTED_SUFFIX)\<rparr>"
  have f: "is_obj promoted" "distinct (map fst (own_fields promoted))" "js_get promoted ''memory_id'' = ?k" "js_get promoted ''content'' = JStr c"
    "js_get promoted ''authority'' = JStr AUTHORITY" "js_get promoted ''trust'' = JStr ''trusted''" "js_get promoted ''origin'' = JStr ''operator''"
    "js_get promoted ''supersedes'' = JStr i"
    unfolding r(5) by (simp_all add: entry_of_fields c) (simp_all add: promoted_input_def js_get_JObj c)
  have st: "js_get (mr_entry new) k = stableValue (js_get promoted k)" for k
    using js_get_stable_entry[OF f(1,2)] by (simp add: new_def written_record_def)
  have ap: "js_get (mr_promotion new) ''approval_id'' = JStr a"
    by (simp add: new_def written_record_def w_def nullish_def js_get_JObj)
  let ?rs1 = "put_record rs ?k new" let ?rs2 = "put_record ?rs1 (JStr i) r1"
  have m1: "map_of ?rs1 (JStr i) = Some r" using r(1) by (simp add: PROMOTED_SUFFIX_def)
  have adv: "advances (map_of rs) (map_of ?rs2)"
  proof (rule advances_trans)
    show "advances (map_of rs) (map_of ?rs1)" using advances_new[OF free] by simp
    show "advances (map_of ?rs1) (map_of ?rs2)" using advances_shift[OF m1, of r1] r(2) by (simp add: r1_def same_entry_def)
  qed
  have "promoted_from env p ap' (map_of ?rs2) (i @ PROMOTED_SUFFIX) new"
    unfolding promoted_from_def using used c st f ap r(4,6,7,8,9)
    by (intro exI[of _ i] exI[of _ r1] exI[of _ a] exI[of _ c]) (simp add: r1_def ftext_def)
  then have new_ok: "record_ok env p ap' (map_of ?rs2) ?k new"
    using st f unfolding record_ok_def by (simp add: new_def written_record_def)
  have "records_ok env p ap' ?rs2"
  proof (rule records_ok_update[OF ok adv grow])
    show "distinct (map fst ?rs2)" using ok by (simp add: records_ok_def distinct_put_record)
    fix k x assume x: "map_of ?rs2 k = Some x"
    show "(\<exists>r. map_of rs k = Some r \<and> same_entry r x \<and>
        (mr_status x = Deleted \<longrightarrow> mr_status r = Deleted \<or> (\<exists>a i. k = JStr i \<and> granted ap' a (delete_operation_id p i) (delete_scope p i)))) \<or>
      record_ok env p ap' (map_of ?rs2) k x"
    proof (cases "k = ?k")
      case True
      then show ?thesis using x new_ok by (simp add: PROMOTED_SUFFIX_def)
    next
      case False
      then show ?thesis using x r(1) by (cases "k = JStr i") (auto simp: r1_def same_entry_def)
    qed
  qed
  moreover have "apply_facts env rs (promotion_facts promoted i actor reason (js_text sha) (mo_id op) (JStr a)) = Inr ?rs2"
  proof -
    have "fold_event env rs WRITTEN (stableValue (fact_payload \<lparr>mf_type = WRITTEN, mf_memory = i @ PROMOTED_SUFFIX,
        mf_payload = [(''entry'', promoted), (''promotion'', w)], mf_operation = Some (mo_id op)\<rparr>)) (Some (mo_id op)) = Inr ?rs1"
      using written_fact[OF f(1,2,4,3), of "[(''promotion'', w)]"] by (simp add: new_def js_get_JObj)
    then show ?thesis
      using m1 r(2) unfolding promotion_facts_def w_def[symmetric]
      by (simp add: bind_res_simps shift_fact transition_def js_get_JObj r1_def)
  qed
  ultimately show ?thesis using adv unfolding change_ok_def by blast
qed

end
