(* ===== verification/MemoryRun.thy ===== *)
theory MemoryRun
  imports MemorySound
begin

text \<open>
  Runs of governed memory: any number of stores with their own projections over one ledger and one table of
  approvals, together with the approvals other parts issue and consume and the rows they append. Every
  operation keeps the invariant of the project streams.
\<close>

subsection \<open>The invariant\<close>

abbreviation memory_stream :: "ledger \<Rightarrow> string \<Rightarrow> row list" where
  "memory_stream l p \<equiv> log_read l (MEMORY_AGGREGATE, p)"

definition few_rows :: "ledger \<Rightarrow> bool" where
  "few_rows l \<longleftrightarrow> int (length (led_rows l)) \<le> MAX_SAFE_INTEGER"

definition projection_ok :: "mem_env \<Rightarrow> ledger \<Rightarrow> mem_projection \<Rightarrow> bool" where
  "projection_ok env l ps \<longleftrightarrow> (\<forall>p c. map_of ps p = Some c \<longrightarrow>
     mt_version c \<le> length (memory_stream l p) \<and> foldEvents env [] (take (mt_version c) (memory_stream l p)) = Inr (mt_records c))"

definition streams_ok :: "mem_env \<Rightarrow> ledger \<Rightarrow> approvals \<Rightarrow> bool" where
  "streams_ok env l ap \<longleftrightarrow> (\<forall>p. \<exists>rs. foldEvents env [] (memory_stream l p) = Inr rs \<and> records_ok env p ap rs)"

definition memory_ok :: "mem_env \<Rightarrow> memory \<Rightarrow> bool" where
  "memory_ok env m \<longleftrightarrow> ledger_ok (mm_ledger m) \<and> streams_ok env (mm_ledger m) (mm_approvals m) \<and>
     projection_ok env (mm_ledger m) (mm_projection m)"

text \<open>One step of the shared tables: rows are only added, uses are only added, records only advance.\<close>

definition tables_next :: "mem_env \<Rightarrow> ledger \<Rightarrow> approvals \<Rightarrow> ledger \<Rightarrow> approvals \<Rightarrow> bool" where
  "tables_next env l ap l' ap' \<longleftrightarrow>
     ledger_ok l' \<and> (\<exists>rows. led_rows l' = led_rows l @ rows) \<and> tables_grow ap ap' \<and> streams_ok env l' ap' \<and>
     (\<forall>p rs rs'. foldEvents env [] (memory_stream l p) = Inr rs \<longrightarrow> foldEvents env [] (memory_stream l' p) = Inr rs' \<longrightarrow>
        advances (map_of rs) (map_of rs'))"

definition memory_next :: "mem_env \<Rightarrow> memory \<Rightarrow> memory \<Rightarrow> bool" where
  "memory_next env m m' \<longleftrightarrow>
     tables_next env (mm_ledger m) (mm_approvals m) (mm_ledger m') (mm_approvals m') \<and> projection_ok env (mm_ledger m') (mm_projection m')"

lemma memory_next_ok: "memory_next env m m' \<Longrightarrow> memory_ok env m'"
  by (simp add: memory_next_def memory_ok_def tables_next_def)

lemma records_ok_grow: "records_ok env p ap rs \<Longrightarrow> tables_grow ap ap' \<Longrightarrow> records_ok env p ap' rs"
  by (rule records_ok_update[OF _ advances_refl]) (auto simp: records_ok_def same_entry_def)

lemma projection_ok_extend:
  assumes "projection_ok env l ps" "led_rows l' = led_rows l @ rows"
  shows "projection_ok env l' ps"
  using assms unfolding projection_ok_def log_read_def by (auto simp: trans_le_add1)

lemma map_of_drop_projection: "map_of (drop_projection ps p) q = (if q = p then None else map_of ps q)"
  unfolding drop_projection_def by (induction ps) auto

lemma projection_ok_drop: "projection_ok env l ps \<Longrightarrow> projection_ok env l (drop_projection ps p)"
  by (simp add: projection_ok_def map_of_drop_projection)

lemma tables_same:
  assumes "ledger_ok l" "streams_ok env l ap" "led_rows l' = led_rows l" "tables_grow ap ap'"
  shows "tables_next env l ap l' ap'"
proof -
  have m: "memory_stream l' p = memory_stream l p" for p using assms(3) by (simp add: log_read_def)
  have "ledger_ok l'" using assms(1,3) by (simp add: ledger_ok_def)
  moreover have "streams_ok env l' ap'" unfolding streams_ok_def m using assms(2) records_ok_grow[OF _ assms(4)] unfolding streams_ok_def by blast
  ultimately show ?thesis using assms(3,4) advances_refl unfolding tables_next_def m by simp
qed

lemma tables_extend:
  assumes ok: "ledger_ok l" "streams_ok env l ap" and grow: "tables_grow ap ap'" and rs: "foldEvents env [] (memory_stream l p) = Inr rs"
    and ok': "ledger_ok l'" and rows: "led_rows l' = led_rows l @ rows" "\<forall>x \<in> set rows. stream_of x = (MEMORY_AGGREGATE, p)"
    and facts: "list_all2 holds_fact rows facts" "change_ok env p rs ap' facts"
  shows "tables_next env l ap l' ap'"
proof -
  obtain rs' where rs': "apply_facts env rs facts = Inr rs'" "records_ok env p ap' rs'" "advances (map_of rs) (map_of rs')"
    using facts(2) unfolding change_ok_def by blast
  have p: "foldEvents env [] (memory_stream l' p) = Inr rs'"
    using rows rs rs'(1) by (simp add: log_read_def select_stream_def foldEvents_append foldEvents_facts[OF facts(1)] bind_res_simps)
  have q: "memory_stream l' q = memory_stream l q" if "q \<noteq> p" for q
    using rows that by (auto simp: log_read_def select_stream_def intro: filter_False)
  have "\<exists>xs. foldEvents env [] (memory_stream l' q) = Inr xs \<and> records_ok env q ap' xs" for q
    using p rs'(2) q ok(2) records_ok_grow[OF _ grow] unfolding streams_ok_def by (cases "q = p") (auto; metis)+
  moreover have "advances (map_of xs) (map_of ys)"
    if "foldEvents env [] (memory_stream l q) = Inr xs" "foldEvents env [] (memory_stream l' q) = Inr ys" for q xs ys
    using that p rs rs'(3) q advances_refl by (cases "q = p") auto
  ultimately show ?thesis using ok' rows(1) grow unfolding tables_next_def streams_ok_def by blast
qed

lemma append_facts_next:
  assumes "ledger_ok l" "streams_ok env l ap" "tables_grow ap ap'" "foldEvents env [] (memory_stream l p) = Inr rs"
    "append_facts env p state ex actor facts now l = (l', res)" "\<And>r. res = Inr r \<Longrightarrow> change_ok env p rs ap' facts"
  shows "tables_next env l ap l' ap'"
proof -
  have ok: "ledger_ok l'" by (rule append_facts_rows(1)[OF assms(1,5)])
  consider "led_rows l' = led_rows l"
    | rows r where "res = Inr r" "led_rows l' = led_rows l @ rows" "\<forall>x \<in> set rows. stream_of x = (MEMORY_AGGREGATE, p)" "list_all2 holds_fact rows facts"
    using append_facts_rows(2)[OF assms(1,5)] by blast
  then show ?thesis
  proof cases
    case 1
    then show ?thesis by (rule tables_same[OF assms(1,2) _ assms(3)])
  next
    case 2
    then show ?thesis by (intro tables_extend[OF assms(1-4) ok 2(2-4) assms(6)])
  qed
qed

lemma memory_nextI:
  assumes "tables_next env (mm_ledger m) (mm_approvals m) (mm_ledger m') (mm_approvals m')"
    "projection_ok env (mm_ledger m) (mm_projection m')"
  shows "memory_next env m m'"
  using assms projection_ok_extend unfolding memory_next_def tables_next_def by blast

lemma memory_append_next:
  assumes "memory_ok env m" "foldEvents env [] (memory_stream (mm_ledger m) p) = Inr rs" "change_ok env p rs (mm_approvals m) facts"
  shows "memory_next env m (fst (memory_append env m p state ex actor facts now))"
proof -
  obtain l res where a: "append_facts env p state ex actor facts now (mm_ledger m) = (l, res)" by fastforce
  have ok: "ledger_ok (mm_ledger m)" "streams_ok env (mm_ledger m) (mm_approvals m)" "projection_ok env (mm_ledger m) (mm_projection m)"
    using assms(1) by (simp_all add: memory_ok_def)
  have t: "tables_next env (mm_ledger m) (mm_approvals m) l (mm_approvals m)"
    using assms(3) by (intro append_facts_next[OF ok(1,2) _ assms(2) a]) (simp_all add: tables_grow_def uses_grow_def)
  show ?thesis
    using t ok(3) projection_ok_drop a by (intro memory_nextI) (cases res; simp add: memory_append_def)+
qed

lemma withApproval_next:
  assumes ok: "memory_ok env m" and rs: "foldEvents env [] (memory_stream (mm_ledger m) p) = Inr rs"
    and change: "\<And>ap' a. tables_grow (mm_approvals m) ap' \<Longrightarrow> granted ap' a (mo_id op) (mo_scope op) \<Longrightarrow> change_ok env p rs ap' (facts (JStr a))"
  shows "memory_next env m (fst (withApproval m verifier op actor p (\<lambda>approval. append_facts env p state ex actor' (facts approval) now)))"
proof -
  let ?f = "\<lambda>approval. append_facts env p state ex actor' (facts approval) now"
  have m: "ledger_ok (mm_ledger m)" "streams_ok env (mm_ledger m) (mm_approvals m)" "projection_ok env (mm_ledger m) (mm_projection m)"
    using ok by (simp_all add: memory_ok_def)
  have same: "memory_next env m m" using m tables_same by (intro memory_nextI) (simp_all add: tables_grow_def uses_grow_def)
  show ?thesis
  proof (cases verifier)
    case (Some v)
    let ?ap = "mv_resolve v (mo_id op) (mo_scope op) actor"
    show ?thesis
    proof (cases "is_text ?ap \<and> \<not> isl (iso (mv_now v))")
      case True
      then obtain a at where a: "?ap = JStr a" "iso (mv_now v) = Inr at" by (cases ?ap; cases "iso (mv_now v)") auto
      obtain ap l res where c: "consume (mm_approvals m) (mm_ledger m) (verify_request v op actor at) (Some (?f (JStr a))) = ((ap, l), res)"
        by (metis prod.collapse)
      show ?thesis
      proof (cases res)
        case (Inl e)
        then have "ap = mm_approvals m" "led_rows l = led_rows (mm_ledger m)" using consume_Inl c by blast+
        then show ?thesis
          using Some True a c Inl m tables_same by (intro memory_nextI) (simp_all add: withApproval_def Let_def tables_grow_def uses_grow_def)
      next
        case (Inr x)
        note i = consume_Inr[OF c[unfolded Inr]]
        obtain r where r: "?f (JStr a) (mm_ledger m) = (l, Inr r)" using i(2) by auto
        have grow: "tables_grow (mm_approvals m) ap" "granted ap a (mo_id op) (mo_scope op)"
          using a(1) consume_granted[OF c[unfolded Inr]] by (auto simp: i(1) tables_grow_def uses_grow_def verify_request_def)
        have "tables_next env (mm_ledger m) (mm_approvals m) l ap"
          by (rule append_facts_next[OF m(1,2) grow(1) rs r change[OF grow]])
        then show ?thesis
          using Some True a c Inr m(3) projection_ok_drop by (intro memory_nextI) (simp_all add: withApproval_def Let_def)
      qed
    qed (use Some same in \<open>auto simp: withApproval_def Let_def isl_def split: sum.splits\<close>)
  qed (use same in \<open>simp add: withApproval_def\<close>)
qed

subsection \<open>The projection of a store\<close>

lemma few_stream: "few_rows l \<Longrightarrow> int (length (memory_stream l p)) \<le> MAX_SAFE_INTEGER"
  using length_filter_le[of "\<lambda>r. stream_of r = (MEMORY_AGGREGATE, p)" "led_rows l"]
  unfolding few_rows_def log_read_def select_stream_def by linarith

lemma memory_state_reads:
  assumes "memory_ok env m" "few_rows (mm_ledger m)" "p \<noteq> []"
  obtains m1 rs where "memory_state env m p = (m1, Inr \<lparr>mt_version = length (memory_stream (mm_ledger m) p), mt_records = rs\<rparr>)"
    "foldEvents env [] (memory_stream (mm_ledger m) p) = Inr rs" "records_ok env p (mm_approvals m) rs"
    "mm_ledger m1 = mm_ledger m" "mm_approvals m1 = mm_approvals m" "memory_ok env m1"
proof -
  let ?l = "mm_ledger m" and ?n = "length (memory_stream (mm_ledger m) p)"
  have ok: "ledger_ok ?l" "projection_ok env ?l (mm_projection m)" using assms(1) by (simp_all add: memory_ok_def)
  obtain rs where rs: "foldEvents env [] (memory_stream ?l p) = Inr rs" "records_ok env p (mm_approvals m) rs"
    using assms(1) unfolding memory_ok_def streams_ok_def by blast
  have v: "getVersion ?l (JStr MEMORY_AGGREGATE) (JStr p) = Inr ?n"
    using ok(1) assms(3) select_version_length
    by (simp add: getVersion_def requireString_def MEMORY_AGGREGATE_def ledger_ok_def log_read_def)
  have rd: "readStream ?l (JStr MEMORY_AGGREGATE) (JStr p) 1 MAX_SAFE_INTEGER = Inr (memory_stream ?l p)"
    using few_stream[OF assms(2)] ok(1) assms(3) by (intro readStream_all) (simp_all add: MEMORY_AGGREGATE_def MAX_SAFE_INTEGER_def)
  let ?st = "\<lparr>mt_version = ?n, mt_records = rs\<rparr>"
  define m1 where "m1 = m\<lparr>mm_projection := (p, ?st) # drop_projection (mm_projection m) p\<rparr>"
  have r: "read_state env m p ?n = (m1, Inr ?st)" by (simp add: read_state_def rd bind_res_simps rs(1) m1_def Let_def)
  have m1: "memory_ok env m1"
    using assms(1) rs(1) unfolding memory_ok_def projection_ok_def m1_def by (simp add: map_of_drop_projection)
  show thesis
  proof (cases "\<exists>c. map_of (mm_projection m) p = Some c \<and> mt_version c = ?n")
    case True
    then obtain c where c: "map_of (mm_projection m) p = Some c" "mt_version c = ?n" by blast
    have "foldEvents env [] (take ?n (memory_stream ?l p)) = Inr (mt_records c)" using ok(2) c unfolding projection_ok_def by metis
    then have "mt_records c = rs" using rs(1) by simp
    then have "c = ?st" using c(2) by (cases c) simp
    then have "memory_state env m p = (m, Inr ?st)" using v c by (simp add: memory_state_def)
    then show thesis using that rs assms(1) by blast
  next
    case False
    then have "memory_state env m p = (m1, Inr ?st)" using v r by (auto simp: memory_state_def split: option.splits)
    then show thesis using that rs m1 by (simp add: m1_def)
  qed
qed

lemma memory_next_refl: "memory_ok env m \<Longrightarrow> memory_next env m m"
  by (intro memory_nextI tables_same) (simp_all add: memory_ok_def tables_grow_def uses_grow_def)

lemma memory_next_read:
  assumes "memory_ok env m1" "mm_ledger m1 = mm_ledger m" "mm_approvals m1 = mm_approvals m"
  shows "memory_next env m m1" "memory_next env m1 m' \<Longrightarrow> memory_next env m m'"
  using memory_next_refl[OF assms(1)] assms(2,3) by (simp_all add: memory_next_def)

lemma memory_identifier_nonempty: "memory_identifier p \<Longrightarrow> p \<noteq> []"
  by (simp add: memory_identifier_def)

subsection \<open>Every operation keeps the invariant\<close>

lemma write_next:
  assumes ok: "memory_ok env m" "few_rows (mm_ledger m)"
  shows "memory_next env m (fst (memory_write env m input host now at))"
proof (cases "prepare_write env input host now")
  case (Inl e)
  then show ?thesis using memory_next_refl[OF ok(1)] by (simp add: memory_write_def)
next
  case (Inr ea)
  obtain entry actor where ea: "ea = (entry, actor)" by fastforce
  obtain p where p: "ftext (js_get entry ''scope'') ''project_id'' = p" "memory_identifier p"
    using prepare_write_Inr[OF Inr[unfolded ea]] by metis
  obtain m1 rs where s: "memory_state env m p = (m1, Inr \<lparr>mt_version = length (memory_stream (mm_ledger m) p), mt_records = rs\<rparr>)"
    "foldEvents env [] (memory_stream (mm_ledger m) p) = Inr rs" "records_ok env p (mm_approvals m) rs"
    "mm_ledger m1 = mm_ledger m" "mm_approvals m1 = mm_approvals m" "memory_ok env m1"
    by (rule memory_state_reads[OF ok memory_identifier_nonempty[OF p(2)]])
  show ?thesis
  proof (cases "write_facts entry rs")
    case (Inl e)
    then show ?thesis using Inr ea p s memory_next_read(1)[OF s(6,4,5)] by (simp add: memory_write_def)
  next
    case f: (Inr facts)
    have "memory_next env m1 (fst (memory_append env m1 p \<lparr>mt_version = length (memory_stream (mm_ledger m) p), mt_records = rs\<rparr> (mh_expected host) actor facts at))"
      using s write_change[OF Inr[unfolded ea] f s(3)] by (intro memory_append_next) simp_all
    then show ?thesis
      using Inr ea p s f memory_next_read(2)[OF s(6,4,5)] by (auto simp: memory_write_def split: prod.splits sum.splits)
  qed
qed

lemma sweep_next:
  assumes ok: "memory_ok env m" "few_rows (mm_ledger m)"
  shows "memory_next env m (fst (sweepExpired env m project_id actor now at))"
proof (cases "bind_res (requireIdentifier project_id ''project_id'') (\<lambda>p.
           bind_res (normalizeActor (me_scan env) (host_actor actor)) (\<lambda>a. Inr (p, a)))")
  case (Inl e)
  then show ?thesis using memory_next_refl[OF ok(1)] by (simp add: sweepExpired_def)
next
  case (Inr pa)
  obtain p a where pa: "pa = (p, a)" by fastforce
  have p: "memory_identifier p" using Inr pa by (auto simp: requireIdentifier_Inr)
  obtain m1 rs where s: "memory_state env m p = (m1, Inr \<lparr>mt_version = length (memory_stream (mm_ledger m) p), mt_records = rs\<rparr>)"
    "foldEvents env [] (memory_stream (mm_ledger m) p) = Inr rs" "records_ok env p (mm_approvals m) rs"
    "mm_ledger m1 = mm_ledger m" "mm_approvals m1 = mm_approvals m" "memory_ok env m1"
    by (rule memory_state_reads[OF ok memory_identifier_nonempty[OF p]])
  have append: "memory_next env m m2"
    if "memory_append env m1 p \<lparr>mt_version = length (memory_stream (mm_ledger m) p), mt_records = rs\<rparr> JUndef a
      (map (expiry_fact t) (due_records rs now)) at = (m2, r)" for t m2 r
  proof -
    have "memory_next env m1 (fst (memory_append env m1 p \<lparr>mt_version = length (memory_stream (mm_ledger m) p), mt_records = rs\<rparr> JUndef a
        (map (expiry_fact t) (due_records rs now)) at))"
      using s sweep_change[OF s(3)] by (intro memory_append_next) simp_all
    then show ?thesis using memory_next_read(2)[OF s(6,4,5)] that by simp
  qed
  show ?thesis
    using s(1) memory_next_read(1)[OF s(6,4,5)] unfolding sweepExpired_def Inr pa
    by (auto simp: Let_def split: prod.splits sum.splits dest: append)
qed

lemma check_command_Inr:
  assumes "check_command env project_id memory_id reason actor what = Inr (p, i, a, safe)"
  shows "project_id = JStr p" "memory_id = JStr i" "memory_identifier p" "memory_identifier i" "js_get actor ''kind'' = JStr ''operator''"
  using assms by (auto simp: check_command_def requireIdentifier_Inr operator_only_def split: if_splits)

lemma forget_next:
  assumes ok: "memory_ok env m" "few_rows (mm_ledger m)"
  shows "memory_next env m (fst (memory_forget env m verifier project_id memory_id reason actor at))"
proof (cases "check_command env project_id memory_id (with_default reason ''operator command'') actor ''deleting''")
  case (Inl e)
  then show ?thesis using memory_next_refl[OF ok(1)] by (simp add: memory_forget_def)
next
  case (Inr x)
  obtain p i a safe where x: "x = (p, i, a, safe)" by (metis prod.collapse)
  note c = check_command_Inr[OF Inr[unfolded x]]
  obtain m1 rs where s: "memory_state env m p = (m1, Inr \<lparr>mt_version = length (memory_stream (mm_ledger m) p), mt_records = rs\<rparr>)"
    "foldEvents env [] (memory_stream (mm_ledger m) p) = Inr rs" "records_ok env p (mm_approvals m) rs"
    "mm_ledger m1 = mm_ledger m" "mm_approvals m1 = mm_approvals m" "memory_ok env m1"
    by (rule memory_state_reads[OF ok memory_identifier_nonempty[OF c(3)]])
  note same = memory_next_read(1)[OF s(6,4,5)]
  obtain op where op: "memoryDeleteOperation (JStr p) (JStr i) = Inr op" "mo_id op = delete_operation_id p i" "mo_scope op = delete_scope p i"
    using c(3,4) by (auto simp: memoryDeleteOperation_def delete_scope_def requireIdentifier_def bind_res_def)
  show ?thesis
  proof (cases "\<exists>r. map_of rs (JStr i) = Some r \<and> mr_status r \<noteq> Deleted")
    case True
    then obtain r where r: "map_of rs (JStr i) = Some r" "mr_status r \<noteq> Deleted" by blast
    have "memory_next env m1 (fst (withApproval m1 verifier op a p (\<lambda>approval.
        append_facts env p \<lparr>mt_version = length (memory_stream (mm_ledger m) p), mt_records = rs\<rparr> JUndef a [deletion_fact i (mo_id op) safe approval] at)))"
      using s forget_change[OF s(3) r] op(2,3) by (intro withApproval_next[where rs = rs]) simp_all
    then show ?thesis using Inr x s r op memory_next_read(2)[OF s(6,4,5)] by (simp add: memory_forget_def)
  qed (use Inr x s op same in \<open>auto simp: memory_forget_def split: option.splits\<close>)
qed

lemma promote_next:
  assumes ok: "memory_ok env m" "few_rows (mm_ledger m)"
  shows "memory_next env m (fst (memory_promote env m verifier project_id memory_id sha reason actor now at))"
proof (cases "check_command env project_id memory_id (with_default reason ''operator promotion'') actor ''promoting''")
  case (Inl e)
  then show ?thesis using memory_next_refl[OF ok(1)] by (simp add: memory_promote_def)
next
  case (Inr x)
  obtain p i a safe where x: "x = (p, i, a, safe)" by (metis prod.collapse)
  note c = check_command_Inr[OF Inr[unfolded x]]
  obtain m1 rs where s: "memory_state env m p = (m1, Inr \<lparr>mt_version = length (memory_stream (mm_ledger m) p), mt_records = rs\<rparr>)"
    "foldEvents env [] (memory_stream (mm_ledger m) p) = Inr rs" "records_ok env p (mm_approvals m) rs"
    "mm_ledger m1 = mm_ledger m" "mm_approvals m1 = mm_approvals m" "memory_ok env m1"
    by (rule memory_state_reads[OF ok memory_identifier_nonempty[OF c(3)]])
  show ?thesis
  proof (cases "prepare_promotion env p i (map_of rs (JStr i)) sha now")
    case (Inl e)
    then show ?thesis using Inr x s memory_next_read(1)[OF s(6,4,5)] by (simp add: memory_promote_def)
  next
    case pr: (Inr po)
    obtain promoted op where po: "po = (promoted, op)" by fastforce
    have "memory_next env m1 (fst (withApproval m1 verifier op a p (\<lambda>approval.
        append_facts env p \<lparr>mt_version = length (memory_stream (mm_ledger m) p), mt_records = rs\<rparr> JUndef a
          (promotion_facts promoted i a safe (js_text sha) (mo_id op) approval) at)))"
      using s promote_change[OF s(3) pr[unfolded po]] by (intro withApproval_next[where rs = rs]) simp_all
    then show ?thesis
      using Inr x s pr po memory_next_read(2)[OF s(6,4,5)] by (auto simp: memory_promote_def split: prod.splits sum.splits)
  qed
qed

lemma tables_next_trans:
  assumes "tables_next env l ap l1 ap1" "tables_next env l1 ap1 l2 ap2"
  shows "tables_next env l ap l2 ap2"
proof -
  have "advances (map_of xs) (map_of zs)"
    if f: "foldEvents env [] (memory_stream l p) = Inr xs" "foldEvents env [] (memory_stream l2 p) = Inr zs" for p xs zs
  proof -
    obtain ys where "foldEvents env [] (memory_stream l1 p) = Inr ys" using assms(1) unfolding tables_next_def streams_ok_def by blast
    then show ?thesis using assms f advances_trans unfolding tables_next_def by blast
  qed
  then show ?thesis using assms unfolding tables_next_def tables_grow_def uses_grow_def by auto
qed

lemma memory_next_trans:
  assumes "memory_next env m m1" "memory_next env m1 m2"
  shows "memory_next env m m2"
  using assms tables_next_trans unfolding memory_next_def by blast

lemma issue_uses: "ap_uses (fst (issue ap v)) = ap_uses ap" "set (ap_rows ap) \<subseteq> set (ap_rows (fst (issue ap v)))"
  by (auto simp: issue_def insert_approval_def split: sum.splits)

lemma issue_next:
  assumes "memory_ok env m"
  shows "memory_next env m (m\<lparr>mm_approvals := fst (issue (mm_approvals m) v)\<rparr>)"
  using assms by (intro memory_nextI tables_same) (simp_all add: memory_ok_def tables_grow_def uses_grow_def issue_uses)

lemma operator_next:
  assumes ok: "memory_ok env m" "few_rows (mm_ledger m)"
  shows "memory_next env m (fst (operator_promote env m operator approval ttl project_id memory_id sha reason clock))"
proof -
  have "memory_next env (m\<lparr>mm_approvals := fst (issue (mm_approvals m) v)\<rparr>)
      (fst (memory_promote env (m\<lparr>mm_approvals := fst (issue (mm_approvals m) v)\<rparr>) verifier project_id memory_id sha reason actor now at))" for v verifier actor now at
    using promote_next[OF memory_next_ok[OF issue_next[OF ok(1)]]] ok(2) by simp
  note p = memory_next_trans[OF issue_next[OF ok(1)] this]
  show ?thesis
    using memory_next_refl[OF ok(1)] issue_next[OF ok(1)] p unfolding operator_promote_def
    by (auto split: sum.splits prod.splits) (metis fst_conv)+
qed

lemma state_next:
  assumes ok: "memory_ok env m" "few_rows (mm_ledger m)" "memory_identifier p"
  shows "memory_next env m (fst (memory_state env m p))"
proof -
  obtain m1 rs where "memory_state env m p = (m1, Inr \<lparr>mt_version = length (memory_stream (mm_ledger m) p), mt_records = rs\<rparr>)"
    "mm_ledger m1 = mm_ledger m" "mm_approvals m1 = mm_approvals m" "memory_ok env m1"
    by (rule memory_state_reads[OF ok(1,2) memory_identifier_nonempty[OF ok(3)]])
  then show ?thesis using memory_next_read(1) by simp
qed

lemma read_only_next:
  assumes ok: "memory_ok env m" "few_rows (mm_ledger m)"
  shows "memory_next env m (fst (memory_inspect env m project_id memory_id))"
    "memory_next env m (fst (memory_list env m project_id now))"
    "memory_next env m (fst (memory_retrieve env m attest project_id query limit untrusted boundary now))"
  using state_next[OF ok] memory_next_refl[OF ok(1)]
  by (fastforce simp: memory_inspect_def memory_list_def memory_retrieve_def check_retrieval_def requireIdentifier_Inr Let_def
      split: sum.splits prod.splits)+

subsection \<open>Stores over shared tables\<close>

record mem_world =
  mw_ledger :: ledger
  mw_approvals :: approvals
  mw_projections :: "nat \<Rightarrow> mem_projection"

definition store_of :: "mem_world \<Rightarrow> nat \<Rightarrow> memory" where
  "store_of w k = \<lparr>mm_ledger = mw_ledger w, mm_approvals = mw_approvals w, mm_projection = mw_projections w k\<rparr>"

definition put_store :: "mem_world \<Rightarrow> nat \<Rightarrow> memory \<Rightarrow> mem_world" where
  "put_store w k m = \<lparr>mw_ledger = mm_ledger m, mw_approvals = mm_approvals m, mw_projections = (mw_projections w)(k := mm_projection m)\<rparr>"

inductive memory_op :: "mem_env \<Rightarrow> memory \<Rightarrow> memory \<Rightarrow> bool" for env m where
  written: "memory_op env m (fst (memory_write env m input host now at))"
| sweep: "memory_op env m (fst (sweepExpired env m project_id actor now at))"
| forget: "memory_op env m (fst (memory_forget env m verifier project_id memory_id reason actor at))"
| promote: "memory_op env m (fst (memory_promote env m verifier project_id memory_id sha reason actor now at))"
| operator: "memory_op env m (fst (operator_promote env m actor approval ttl project_id memory_id sha reason clock))"
| inspect: "memory_op env m (fst (memory_inspect env m project_id memory_id))"
| list: "memory_op env m (fst (memory_list env m project_id now))"
| retrieve: "memory_op env m (fst (memory_retrieve env m attest project_id query limit untrusted boundary now))"
| rebuild: "memory_op env m (rebuild_memory m)"

text \<open>
  A step is an operation of one of the stores, an approval issued elsewhere, or the work of other parts: rows of
  other streams, approvals and uses of approvals. No row of either approval table is ever changed or removed.
\<close>

inductive mem_step :: "mem_env \<Rightarrow> mem_world \<Rightarrow> mem_world \<Rightarrow> bool" for env w where
  store: "memory_op env (store_of w k) m \<Longrightarrow> mem_step env w (put_store w k m)"
| issue: "mem_step env w (w\<lparr>mw_approvals := fst (issue (mw_approvals w) v)\<rparr>)"
| other: "mem_step env w (w\<lparr>mw_ledger := l, mw_approvals := ap\<rparr>)"
  if "ledger_ok l" "led_rows l = led_rows (mw_ledger w) @ rows" "\<forall>r \<in> set rows. r_aggregate_type r \<noteq> MEMORY_AGGREGATE"
    "approvals_ok ap" "tables_grow (mw_approvals w) ap"

definition fresh_world :: "mem_world \<Rightarrow> bool" where
  "fresh_world w \<longleftrightarrow> ledger_ok (mw_ledger w) \<and> (\<forall>r \<in> set (led_rows (mw_ledger w)). r_aggregate_type r \<noteq> MEMORY_AGGREGATE) \<and>
     approvals_ok (mw_approvals w) \<and> (\<forall>k. mw_projections w k = [])"

inductive mem_run :: "mem_env \<Rightarrow> mem_world \<Rightarrow> mem_world \<Rightarrow> bool" for env w where
  start: "mem_run env w w"
| step: "mem_run env w u \<Longrightarrow> few_rows (mw_ledger u) \<Longrightarrow> mem_step env u v \<Longrightarrow> mem_run env w v"

inductive_cases memory_opE: "memory_op env m m'"

definition world_ok :: "mem_env \<Rightarrow> mem_world \<Rightarrow> bool" where
  "world_ok env w \<longleftrightarrow> ledger_ok (mw_ledger w) \<and> streams_ok env (mw_ledger w) (mw_approvals w) \<and> approvals_ok (mw_approvals w) \<and>
     (\<forall>k. projection_ok env (mw_ledger w) (mw_projections w k))"

lemma world_store_ok: "world_ok env w \<Longrightarrow> memory_ok env (store_of w k)"
  by (simp add: world_ok_def memory_ok_def store_of_def)

lemma memory_op_next:
  assumes "memory_op env m m'" "memory_ok env m" "few_rows (mm_ledger m)"
  shows "memory_next env m m'"
  using assms(1)
proof (cases rule: memory_op.cases)
  case rebuild
  then show ?thesis
    using assms(2) by (intro memory_nextI tables_same) (simp_all add: rebuild_memory_def memory_ok_def tables_grow_def uses_grow_def projection_ok_def)
qed (simp_all add: write_next sweep_next forget_next promote_next operator_next read_only_next assms)

text \<open>The approval tables keep their own invariant.\<close>

lemma memory_state_approvals: "mm_approvals (fst (memory_state env m p)) = mm_approvals m"
  by (auto simp: memory_state_def read_state_def Let_def split: sum.splits option.splits)

lemma memory_append_approvals: "mm_approvals (fst (memory_append env m p st ex actor facts now)) = mm_approvals m"
  by (auto simp: memory_append_def split: sum.splits prod.splits)

lemma withApproval_approvals:
  assumes "approvals_ok (mm_approvals m)"
  shows "approvals_ok (mm_approvals (fst (withApproval m verifier op actor p f)))"
  using assms by (auto simp: withApproval_def Let_def split: option.splits sum.splits prod.splits dest: consume_ok)

lemma state_approvals:
  assumes "memory_state env m p = (m1, r)"
  shows "mm_approvals m1 = mm_approvals m"
  using memory_state_approvals[of env m p] assms by simp

lemma approvals_unchanged:
  "mm_approvals (fst (memory_write env m input host now at)) = mm_approvals m"
  "mm_approvals (fst (sweepExpired env m project_id actor now at)) = mm_approvals m"
  "mm_approvals (fst (memory_inspect env m project_id memory_id)) = mm_approvals m"
  "mm_approvals (fst (memory_list env m project_id now)) = mm_approvals m"
  "mm_approvals (fst (memory_retrieve env m attest project_id query limit untrusted boundary now)) = mm_approvals m"
  "mm_approvals (rebuild_memory m) = mm_approvals m"
proof -
  have a: "mm_approvals m2 = mm_approvals m1" if "memory_append env m1 p st ex actor facts now = (m2, r)" for m1 m2 p st ex actor facts now and r
    using memory_append_approvals[of env m1 p st ex actor facts now] that by simp
  note split = sum.splits prod.splits
  show "mm_approvals (fst (memory_write env m input host now at)) = mm_approvals m"
    by (auto simp: memory_write_def Let_def split: split dest!: a state_approvals)
  show "mm_approvals (fst (sweepExpired env m project_id actor now at)) = mm_approvals m"
    by (auto simp: sweepExpired_def Let_def split: split dest!: a state_approvals)
  show "mm_approvals (fst (memory_inspect env m project_id memory_id)) = mm_approvals m"
    by (auto simp: memory_inspect_def split: split dest!: state_approvals)
  show "mm_approvals (fst (memory_list env m project_id now)) = mm_approvals m"
    by (auto simp: memory_list_def split: split dest!: state_approvals)
  show "mm_approvals (fst (memory_retrieve env m attest project_id query limit untrusted boundary now)) = mm_approvals m"
    by (auto simp: memory_retrieve_def Let_def split: split dest!: state_approvals)
  show "mm_approvals (rebuild_memory m) = mm_approvals m" by (simp add: rebuild_memory_def)
qed

lemma forget_approvals:
  assumes "approvals_ok (mm_approvals m)"
  shows "approvals_ok (mm_approvals (fst (memory_forget env m verifier project_id memory_id reason actor at)))"
  using assms withApproval_approvals
  by (auto simp: memory_forget_def split: sum.splits prod.splits option.splits dest!: state_approvals)

lemma promote_approvals:
  assumes "approvals_ok (mm_approvals m)"
  shows "approvals_ok (mm_approvals (fst (memory_promote env m verifier project_id memory_id sha reason actor now at)))"
proof -
  have "approvals_ok (mm_approvals m2)"
    if "withApproval m1 verifier op a p f = (m2, r)" "mm_approvals m1 = mm_approvals m" for m1 m2 op a p f r
    using withApproval_approvals[of m1 verifier op a p f] that assms by simp
  then show ?thesis
    using assms by (auto simp: memory_promote_def split: sum.splits prod.splits dest!: state_approvals)
qed

lemma operator_approvals:
  assumes "approvals_ok (mm_approvals m)"
  shows "approvals_ok (mm_approvals (fst (operator_promote env m operator approval ttl project_id memory_id sha reason clock)))"
proof -
  have "approvals_ok ap" if "issue (mm_approvals m) v = (ap, r)" for v ap r using issue_ok[OF that assms] .
  then show ?thesis
    using assms promote_approvals unfolding operator_promote_def by (auto split: sum.splits prod.splits)
qed

lemma memory_op_approvals:
  assumes "memory_op env m m'" "approvals_ok (mm_approvals m)"
  shows "approvals_ok (mm_approvals m')"
  using assms(1)
  by (cases rule: memory_op.cases) (simp_all add: assms(2) approvals_unchanged forget_approvals promote_approvals operator_approvals)

subsection \<open>Every run keeps the invariant\<close>

lemma other_next:
  assumes "world_ok env w" "ledger_ok l" "led_rows l = led_rows (mw_ledger w) @ rows" "\<forall>r \<in> set rows. r_aggregate_type r \<noteq> MEMORY_AGGREGATE"
    "tables_grow (mw_approvals w) ap"
  shows "tables_next env (mw_ledger w) (mw_approvals w) l ap"
proof -
  have m: "memory_stream l p = memory_stream (mw_ledger w) p" for p
    using assms(3,4) by (auto simp: log_read_def select_stream_def stream_of_def intro!: filter_False)
  have "streams_ok env l ap"
    using assms(1) records_ok_grow[OF _ assms(5)] unfolding world_ok_def streams_ok_def m by blast
  then show ?thesis using assms(2,3,5) advances_refl unfolding tables_next_def m by auto
qed

lemma mem_step_next:
  assumes "mem_step env w v" "world_ok env w" "few_rows (mw_ledger w)"
  shows "tables_next env (mw_ledger w) (mw_approvals w) (mw_ledger v) (mw_approvals v) \<and> world_ok env v"
  using assms(1)
proof cases
  case (store k m)
  have n: "memory_next env (store_of w k) m"
    using memory_op_next[OF store(2) world_store_ok[OF assms(2)]] assms(3) by (simp add: store_of_def)
  have t: "tables_next env (mw_ledger w) (mw_approvals w) (mm_ledger m) (mm_approvals m)" using n by (simp add: memory_next_def store_of_def)
  have a: "approvals_ok (mm_approvals m)" using memory_op_approvals[OF store(2)] assms(2) by (simp add: world_ok_def store_of_def)
  have "projection_ok env (mm_ledger m) (mw_projections w j)" for j
    using t assms(2) projection_ok_extend unfolding tables_next_def world_ok_def by blast
  then have "world_ok env v"
    using memory_next_ok[OF n] a unfolding store(1) put_store_def world_ok_def memory_ok_def by simp
  then show ?thesis using t by (simp add: store(1) put_store_def)
next
  case (issue x)
  have a: "approvals_ok (fst (issue (mw_approvals w) x))" using issue_ok assms(2) unfolding world_ok_def by (metis prod.collapse)
  have t: "tables_next env (mw_ledger w) (mw_approvals w) (mw_ledger w) (fst (issue (mw_approvals w) x))"
    using assms(2) by (intro tables_same) (simp_all add: world_ok_def tables_grow_def uses_grow_def issue_uses)
  then show ?thesis using a assms(2) by (simp add: issue world_ok_def tables_next_def)
next
  case (other l rows ap)
  have t: "tables_next env (mw_ledger w) (mw_approvals w) l ap" by (rule other_next[OF assms(2) other(2-4,6)])
  have "projection_ok env l (mw_projections w j)" for j
    using other(3) assms(2) projection_ok_extend unfolding world_ok_def by blast
  then show ?thesis using t other(5) by (simp add: other(1) world_ok_def tables_next_def)
qed

lemma fresh_world_ok:
  assumes "fresh_world w"
  shows "world_ok env w"
proof -
  have "memory_stream (mw_ledger w) p = []" for p
    using assms by (auto simp: fresh_world_def log_read_def select_stream_def stream_of_def intro: filter_False)
  then show ?thesis using assms by (auto simp: world_ok_def fresh_world_def streams_ok_def projection_ok_def records_ok_def)
qed

lemma mem_run_next:
  assumes "mem_run env w v" "world_ok env w"
  shows "tables_next env (mw_ledger w) (mw_approvals w) (mw_ledger v) (mw_approvals v) \<and> world_ok env v"
  using assms
proof (induction rule: mem_run.induct)
  case start
  then show ?case using tables_same[of "mw_ledger w" env "mw_approvals w"] by (simp add: world_ok_def tables_grow_def uses_grow_def)
next
  case (step u v)
  then show ?case using mem_step_next tables_next_trans by meson
qed

end
