(* ===== verification/MemoryTrust.thy ===== *)
theory MemoryTrust
  imports MemoryRun
begin

text \<open>
  What governed memory promises: entries never change and only move forward through their lifecycle, retrieval
  returns the best matches in order, memory is trusted in a context only when an operator's approval for that
  very content was consumed, and a deleted entry has a consumed approval behind it.
\<close>

subsection \<open>Reading a store of a run\<close>

lemma run_reads:
  assumes "fresh_world w0" "mem_run env w0 w" "few_rows (mw_ledger w)" "memory_identifier p"
  obtains m1 rs where "memory_state env (store_of w k) p = (m1, Inr \<lparr>mt_version = length (memory_stream (mw_ledger w) p), mt_records = rs\<rparr>)"
    "foldEvents env [] (memory_stream (mw_ledger w) p) = Inr rs" "records_ok env p (mw_approvals w) rs"
proof -
  have "world_ok env w" using mem_run_next[OF assms(2) fresh_world_ok[OF assms(1)]] by blast
  note ok = world_store_ok[OF this, of k]
  have few: "few_rows (mm_ledger (store_of w k))" using assms(3) by (simp add: store_of_def)
  show thesis
    by (rule memory_state_reads[OF ok few memory_identifier_nonempty[OF assms(4)]]) (use that in \<open>simp add: store_of_def\<close>)
qed

lemma inspect_reads:
  assumes "memory_state env m p = (m1, Inr st)" "memory_identifier p" "memory_identifier i"
  shows "snd (memory_inspect env m (JStr p) (JStr i)) =
     (case map_of (mt_records st) (JStr i) of
        None \<Rightarrow> Inl (memory_not_found ''memory entry does not exist'')
      | Some r \<Rightarrow>
          Inr \<lparr>in_memory = i, in_status = mr_status r, in_origin = js_get (mr_entry r) ''origin'', in_trust = js_get (mr_entry r) ''trust'',
               in_content = js_get (mr_entry r) ''content'', in_sha256 = me_sha env (ftext (mr_entry r) ''content'')\<rparr>)"
  using assms by (simp add: memory_inspect_def requireIdentifier_def bind_res_simps)

text \<open>
  C18. Memory entries are immutable and their lifecycle only moves forward: along every run of any number of
  stores over one ledger, an entry that some store shows is shown by every store later on, with the same
  content, origin, trust and digest, and in the same status, unless it was active or has been deleted. In
  particular a deleted entry stays deleted, and no projection of a store is ever stale.
\<close>

theorem memory_lifecycle:
  assumes "fresh_world w0" "mem_run env w0 w" "mem_run env w v" "few_rows (mw_ledger w)" "few_rows (mw_ledger v)"
    "memory_identifier p" "memory_identifier i" "snd (memory_inspect env (store_of w k) (JStr p) (JStr i)) = Inr x"
  shows "\<exists>y. snd (memory_inspect env (store_of v k') (JStr p) (JStr i)) = Inr y \<and>
     in_content y = in_content x \<and> in_origin y = in_origin x \<and> in_trust y = in_trust x \<and> in_sha256 y = in_sha256 x \<and>
     (in_status y = in_status x \<or> in_status x = Active \<or> in_status y = Deleted)"
proof -
  have run: "mem_run env w0 v" using assms(3,2) by (induction rule: mem_run.induct) (auto intro: mem_run.step)
  obtain m rs where m: "memory_state env (store_of w k) p = (m, Inr \<lparr>mt_version = length (memory_stream (mw_ledger w) p), mt_records = rs\<rparr>)"
    "foldEvents env [] (memory_stream (mw_ledger w) p) = Inr rs" "records_ok env p (mw_approvals w) rs"
    by (rule run_reads[OF assms(1,2,4,6)])
  obtain n vs where n: "memory_state env (store_of v k') p = (n, Inr \<lparr>mt_version = length (memory_stream (mw_ledger v) p), mt_records = vs\<rparr>)"
    "foldEvents env [] (memory_stream (mw_ledger v) p) = Inr vs" "records_ok env p (mw_approvals v) vs"
    by (rule run_reads[OF assms(1) run assms(5,6)])
  have "advances (map_of rs) (map_of vs)"
    using mem_run_next[OF assms(3)] mem_run_next[OF assms(2) fresh_world_ok[OF assms(1)]] m(2) n(2) unfolding tables_next_def by blast
  moreover obtain r where r: "map_of rs (JStr i) = Some r" "in_status x = mr_status r" "in_origin x = js_get (mr_entry r) ''origin''"
    "in_trust x = js_get (mr_entry r) ''trust''" "in_content x = js_get (mr_entry r) ''content''" "in_sha256 x = me_sha env (ftext (mr_entry r) ''content'')"
    using assms(8) inspect_reads[OF m(1) assms(6,7)] by (auto split: option.splits)
  ultimately obtain r' where "map_of vs (JStr i) = Some r'" "same_entry r r'" "mr_status r' = mr_status r \<or> mr_status r = Active \<or> mr_status r' = Deleted"
    using advancesE by blast
  then show ?thesis using r inspect_reads[OF n(1) assms(6,7)] by (simp add: same_entry_def)
qed

lemma select_approval_stored:
  assumes "distinct (map a_id (ap_rows st))" "x \<in> set (ap_rows st)"
  shows "select_approval st (a_id x) = Some x"
proof -
  have "\<exists>y. find (\<lambda>a. a_id a = a_id x) (ap_rows st) = Some y"
    using assms(2) by (cases "find (\<lambda>a. a_id a = a_id x) (ap_rows st)") (auto simp: find_None_iff)
  then obtain y where y: "select_approval st (a_id x) = Some y" unfolding select_approval_def by blast
  then have "y \<in> set (ap_rows st)" "a_id y = a_id x" using select_approval_Some by blast+
  then show ?thesis using y assms inj_onD[of a_id "set (ap_rows st)" y x] by (simp add: distinct_map)
qed

lemma stable_delete_scope: "stableValue (delete_scope p i) = JObj [(''memory_id'', JStr i), (''project_id'', JStr p)]"
  unfolding delete_scope_def by code_simp

lemma stable_promote_scope:
  "stableValue (promote_scope p i hash) = JObj [(''content_sha256'', JStr hash), (''memory_id'', JStr i), (''project_id'', JStr p)]"
  unfolding promote_scope_def by code_simp

text \<open>
  C20. Deletion needs an approval: when an entry of a run is deleted, an approval has been consumed within
  its validity that was approved for a deletion, under the identifier of this operation, and whose resource
  scope is exactly this project and this entry.
\<close>

theorem deletion_approved:
  assumes "fresh_world w0" "mem_run env w0 w" "few_rows (mw_ledger w)" "memory_identifier p" "memory_identifier i"
    "snd (memory_inspect env (store_of w k) (JStr p) (JStr i)) = Inr x" "in_status x = Deleted"
  shows "\<exists>u a. u \<in> set (ap_uses (mw_approvals w)) \<and> select_approval (mw_approvals w) (u_approval u) = Some a \<and>
     a_decision a = ''approved'' \<and> a_operation a = ''memory.delete:'' @ p @ '':'' @ i \<and> u_operation u = a_operation a \<and>
     a_scope a = JObj [(''memory_id'', JStr i), (''project_id'', JStr p)] \<and> a_issued a \<le> u_at u \<and> u_at u < a_expires a"
proof -
  obtain m rs where m: "memory_state env (store_of w k) p = (m, Inr \<lparr>mt_version = length (memory_stream (mw_ledger w) p), mt_records = rs\<rparr>)"
    "foldEvents env [] (memory_stream (mw_ledger w) p) = Inr rs" "records_ok env p (mw_approvals w) rs"
    by (rule run_reads[OF assms(1-4)])
  obtain r where r: "map_of rs (JStr i) = Some r" "mr_status r = Deleted"
    using assms(6,7) inspect_reads[OF m(1) assms(4,5)] by (auto split: option.splits)
  then obtain a where "granted (mw_approvals w) a (delete_operation_id p i) (delete_scope p i)"
    using m(3) unfolding records_ok_def record_ok_def by blast
  then obtain u x where u: "u \<in> set (ap_uses (mw_approvals w))" "x \<in> set (ap_rows (mw_approvals w))" "a_id x = u_approval u"
    "a_decision x = ''approved''" "a_operation x = delete_operation_id p i" "u_operation u = delete_operation_id p i"
    "a_scope x = stableValue (delete_scope p i)" "a_issued x \<le> u_at u" "u_at u < a_expires x"
    unfolding granted_def by metis
  have "approvals_ok (mw_approvals w)" using mem_run_next[OF assms(2) fresh_world_ok[OF assms(1)]] unfolding world_ok_def by blast
  then have "select_approval (mw_approvals w) (u_approval u) = Some x"
    using select_approval_stored[OF _ u(2)] u(3) by (simp add: approvals_ok_def)
  then show ?thesis
    using u by (intro exI[of _ u] exI[of _ x]) (simp add: delete_operation_id_def DELETE_OPERATION_def stable_delete_scope)
qed

subsection \<open>Ranking\<close>

lemma mset_insert_ranked [simp]: "mset (insert_ranked terms r xs) = add_mset r (mset xs)"
  by (induction xs) auto

lemma mset_rank_records: "mset (rank_records terms rs) = mset rs"
  unfolding rank_records_def by (induction rs) auto

lemma ranks_before_total: "ranks_before terms a b \<or> ranks_before terms b a"
  unfolding ranks_before_def Let_def by (meson linorder_less_linear linorder_le_cases)

lemma ranks_before_trans: "ranks_before terms a b \<Longrightarrow> ranks_before terms b c \<Longrightarrow> ranks_before terms a c"
  unfolding ranks_before_def Let_def by auto

lemma set_insert_ranked [simp]: "set (insert_ranked terms r xs) = insert r (set xs)"
  by (metis mset_insert_ranked set_mset_add_mset_insert set_mset_mset)

lemma sorted_insert_ranked: "sorted_wrt (ranks_before terms) xs \<Longrightarrow> sorted_wrt (ranks_before terms) (insert_ranked terms r xs)"
proof (induction xs)
  case (Cons x xs)
  then show ?case using ranks_before_total[of terms r x] ranks_before_trans by (auto 4 3)
qed simp

lemma sorted_rank_records: "sorted_wrt (ranks_before terms) (rank_records terms rs)"
  unfolding rank_records_def by (induction rs) (auto intro: sorted_insert_ranked)

subsection \<open>Promotions\<close>

lemma promoted_record:
  assumes "records_ok env p ap rs" "map_of rs k = Some r" "isPromotedEntry (me_sha env) (mr_entry r) p"
  obtains j r0 a c where "k = JStr (j @ PROMOTED_SUFFIX)" "js_get (mr_entry r) ''memory_id'' = k" "memory_identifier j" "sha256_text (me_sha env c)"
    "map_of rs (JStr j) = Some r0" "mr_status r0 \<noteq> Active" "js_get (mr_entry r0) ''content'' = JStr c" "js_get (mr_entry r) ''content'' = JStr c"
    "js_get (mr_entry r) ''supersedes'' = JStr j" "js_get (mr_entry r) ''source_digest'' = JStr (me_sha env c)"
    "js_get (mr_promotion r) ''approval_id'' = JStr a" "granted ap a (promote_operation_id p j (me_sha env c)) (promote_scope p j (me_sha env c))"
proof -
  have "record_ok env p ap (map_of rs) k r" using assms(1,2) by (simp add: records_ok_def)
  moreover have ref: "js_get (mr_entry r) ''write_policy_ref'' = JStr PROMOTE_POLICY_REF"
    "js_get (mr_entry r) ''source_digest'' = JStr (me_sha env (ftext (mr_entry r) ''content''))"
    using assms(3) by (simp_all add: isPromotedEntry_def)
  ultimately obtain i where i: "k = JStr i" "js_get (mr_entry r) ''memory_id'' = JStr i" "promoted_from env p ap (map_of rs) i r"
    unfolding record_ok_def by blast
  obtain j r0 a c where h: "i = j @ PROMOTED_SUFFIX" "memory_identifier j" "sha256_text (me_sha env c)" "map_of rs (JStr j) = Some r0"
    "mr_status r0 \<noteq> Active" "js_get (mr_entry r0) ''content'' = JStr c" "js_get (mr_entry r) ''content'' = JStr c"
    "js_get (mr_entry r) ''supersedes'' = JStr j" "js_get (mr_promotion r) ''approval_id'' = JStr a" "granted ap a (promote_operation_id p j (me_sha env c)) (promote_scope p j (me_sha env c))"
    using i(3) unfolding promoted_from_def by blast
  have "js_get (mr_entry r) ''source_digest'' = JStr (me_sha env c)" using ref(2) h(7) by (simp add: ftext_def)
  then show thesis using that[of j c r0 a] i h by simp
qed

lemma attested_total:
  assumes "records_ok env p ap rs" "map_of rs k = Some r" "memory_identifier p"
  shows "\<exists>b. isAttestedPromotion env attest r p rs = Inr b"
proof (cases "isPromotedEntry (me_sha env) (mr_entry r) p")
  case True
  obtain j r0 a c where "memory_identifier j" "sha256_text (me_sha env c)" "js_get (mr_entry r) ''supersedes'' = JStr j"
    "js_get (mr_entry r) ''source_digest'' = JStr (me_sha env c)"
    by (rule promoted_record[OF assms(1,2) True])
  then show ?thesis
    using assms(3) by (auto simp: isAttestedPromotion_def Let_def memoryPromoteOperation_def requireIdentifier_def bind_res_simps split: option.splits)
qed (auto simp: isAttestedPromotion_def Let_def)

lemma attested_promotion:
  assumes "isAttestedPromotion env (Some f) r p rs = Inr True"
  shows "isPromotedEntry (me_sha env) (mr_entry r) p"
    "f (ftext (mr_promotion r) ''approval_id'') (promote_operation_id p (ftext (mr_entry r) ''supersedes'') (ftext (mr_entry r) ''source_digest''))"
proof -
  show p: "isPromotedEntry (me_sha env) (mr_entry r) p"
    using assms by (auto simp: isAttestedPromotion_def Let_def split: if_splits)
  obtain op where op: "memoryPromoteOperation (JStr p) (js_get (mr_entry r) ''supersedes'') (js_get (mr_entry r) ''source_digest'') = Inr op"
    "f (ftext (mr_promotion r) ''approval_id'') (mo_id op)"
    using assms p by (auto simp: isAttestedPromotion_def Let_def split: if_splits)
  then show "f (ftext (mr_promotion r) ''approval_id'') (promote_operation_id p (ftext (mr_entry r) ''supersedes'') (ftext (mr_entry r) ''source_digest''))"
    by (auto simp: memoryPromoteOperation_def requireIdentifier_Inr ftext_def split: if_splits)
qed

subsection \<open>Retrieval\<close>

definition shown :: "string \<Rightarrow> mem_record \<Rightarrow> js \<times> js" where
  "shown p r = (JStr (''memory://'' @ p @ ''/'' @ ftext (mr_entry r) ''memory_id''), js_get (mr_entry r) ''content'')"

lemma memory_source_fields:
  "js_get (memory_source env p at n r b) ''source_ref'' = fst (shown p r)"
  "js_get (memory_source env p at n r b) ''content'' = snd (shown p r)"
  "js_get (js_get (memory_source env p at n r b) ''provenance'') ''trust'' = JStr (if b then ''trusted'' else ''untrusted'')"
  by (simp_all add: memory_source_def Let_def js_get_JObj shown_def)

lemma map_res_shown:
  assumes "\<forall>r \<in> set rs. \<exists>b. f r = Inr b"
  shows "\<exists>xs. map_res (\<lambda>(n, r). bind_res (f r) (\<lambda>b. Inr (memory_source env p at n r b))) (enumerate k rs) = Inr xs \<and>
     map (\<lambda>x. (js_get x ''source_ref'', js_get x ''content'')) xs = map (shown p) rs"
  using assms
proof (induction rs arbitrary: k)
  case (Cons r rs)
  obtain b where "f r = Inr b" using Cons.prems by auto
  moreover obtain xs where "map_res (\<lambda>(n, r). bind_res (f r) (\<lambda>b. Inr (memory_source env p at n r b))) (enumerate (Suc k) rs) = Inr xs"
    "map (\<lambda>x. (js_get x ''source_ref'', js_get x ''content'')) xs = map (shown p) rs"
    using Cons.IH[of "Suc k"] Cons.prems by auto
  ultimately show ?case by (simp add: bind_res_simps memory_source_fields)
qed simp

lemma retrieve_reads:
  assumes "memory_state env m p = (m1, Inr st)" "memory_identifier p" "\<not> blank q" "1 \<le> n" "n \<le> MAX_LIMIT" "\<bar>now\<bar> \<le> 8640000000000000"
  shows "snd (memory_retrieve env m attest (JStr p) (JStr q) (JNum n) untrusted boundary now) =
     map_res (\<lambda>(index, r).
       bind_res (if boundary = JStr ''context'' then isAttestedPromotion env attest r p (mt_records st) else Inr False) (\<lambda>promoted.
       Inr (memory_source env p (iso_of_ms now) index r promoted)))
       (enumerate 0 (take (nat n) (rank_records (tokenize env q)
          (filter (retrievable (untrusted = JBool True) now (tokenize env q)) (map snd (mt_records st))))))"
  using assms
  by (simp add: memory_retrieve_def check_retrieval_def requireIdentifier_def bind_res_simps MAX_LIMIT_def iso_def Let_def)

text \<open>
  C22. Retrieval is correct and total: for every store of a run and every well-formed query it returns the
  first \<open>n\<close> of the matching entries of the project, which are those that are active, not expired, trusted unless
  untrusted ones are asked for, and share a word with the query, ordered by the number of shared words, then the
  newest first, then by identifier, whatever the store had cached.
\<close>

theorem retrieve_ranked:
  assumes "fresh_world w0" "mem_run env w0 w" "few_rows (mw_ledger w)" "memory_identifier p" "\<not> blank q" "1 \<le> n" "n \<le> MAX_LIMIT"
    "\<bar>now\<bar> \<le> 8640000000000000"
  shows "\<exists>rs ranked items. foldEvents env [] (log_read (mw_ledger w) (MEMORY_AGGREGATE, p)) = Inr rs \<and>
     mset ranked = mset (filter (retrievable untrusted now (tokenize env q)) (map snd rs)) \<and>
     sorted_wrt (ranks_before (tokenize env q)) ranked \<and>
     snd (memory_retrieve env (store_of w k) attest (JStr p) (JStr q) (JNum n) (JBool untrusted) boundary now) = Inr items \<and>
     map (\<lambda>x. (js_get x ''source_ref'', js_get x ''content'')) items = map (shown p) (take (nat n) ranked)"
proof -
  obtain m rs where m: "memory_state env (store_of w k) p = (m, Inr \<lparr>mt_version = length (memory_stream (mw_ledger w) p), mt_records = rs\<rparr>)"
    "foldEvents env [] (memory_stream (mw_ledger w) p) = Inr rs" "records_ok env p (mw_approvals w) rs"
    by (rule run_reads[OF assms(1-4)])
  define ranked where "ranked = rank_records (tokenize env q) (filter (retrievable untrusted now (tokenize env q)) (map snd rs))"
  have ms: "mset ranked = mset (filter (retrievable untrusted now (tokenize env q)) (map snd rs))"
    unfolding ranked_def by (rule mset_rank_records)
  define f where "f = (\<lambda>r. if boundary = JStr ''context'' then isAttestedPromotion env attest r p rs else Inr False)"
  have "\<exists>b. f r = Inr b" if "r \<in> set (take (nat n) ranked)" for r
  proof -
    have "r \<in> set ranked" using that by (rule in_set_takeD)
    then have "r \<in> snd ` set rs" using mset_eq_setD[OF ms] by auto
    then obtain key where "map_of rs key = Some r" using m(3) unfolding records_ok_def by force
    then show ?thesis using attested_total[OF m(3) _ assms(4)] by (auto simp: f_def)
  qed
  then obtain items where items: "map_res (\<lambda>(n, r). bind_res (f r) (\<lambda>b. Inr (memory_source env p (iso_of_ms now) n r b)))
      (enumerate 0 (take (nat n) ranked)) = Inr items"
    "map (\<lambda>x. (js_get x ''source_ref'', js_get x ''content'')) items = map (shown p) (take (nat n) ranked)"
    using map_res_shown[of "take (nat n) ranked" f env p "iso_of_ms now" 0] by blast
  have "snd (memory_retrieve env (store_of w k) attest (JStr p) (JStr q) (JNum n) (JBool untrusted) boundary now) = Inr items"
    using items(1) unfolding retrieve_reads[OF m(1) assms(4-8)] f_def ranked_def mem_state.select_convs js.inject by simp
  then show ?thesis
    using items(2) m(2) ms sorted_rank_records[of "tokenize env q"] unfolding ranked_def by blast
qed

lemma retrieved_item:
  assumes "memory_state env m p = (m1, Inr st)" "records_ok env p ap (mt_records st)" "memory_identifier p" "\<not> blank q" "1 \<le> n" "n \<le> MAX_LIMIT"
    "\<bar>now\<bar> \<le> 8640000000000000"
    "snd (memory_retrieve env m attest (JStr p) (JStr q) (JNum n) untrusted boundary now) = Inr items" "x \<in> set items"
  obtains key index r b where "map_of (mt_records st) key = Some r" "x = memory_source env p (iso_of_ms now) index r b"
    "b \<longrightarrow> boundary = JStr ''context'' \<and> isAttestedPromotion env attest r p (mt_records st) = Inr True"
proof -
  let ?all = "rank_records (tokenize env q)
    (filter (retrievable (untrusted = JBool True) now (tokenize env q)) (map snd (mt_records st)))"
  obtain index r b where r: "(index, r) \<in> set (enumerate 0 (take (nat n) ?all))" "x = memory_source env p (iso_of_ms now) index r b"
    "(if boundary = JStr ''context'' then isAttestedPromotion env attest r p (mt_records st) else Inr False) = Inr b"
    using map_res_set[OF assms(8)[unfolded retrieve_reads[OF assms(1,3-7)]] assms(9)] by auto
  have "r \<in> set (take (nat n) ?all)" using r(1) by (metis enumerate_eq_zip in_set_zipE)
  then have "r \<in> set ?all" by (rule in_set_takeD)
  then have "r \<in> snd ` set (mt_records st)" using mset_eq_setD[OF mset_rank_records] by fastforce
  then obtain key where "map_of (mt_records st) key = Some r" using assms(2) unfolding records_ok_def by force
  then show thesis using that r(2,3) by (metis Inr_inject)
qed

text \<open>
  C17. Memory is trusted only by an operator's approval of that very content: when a store of a run retrieves a
  trusted item, it retrieves it for a context, the item is the promotion of an entry of the same project with the same content,
  which is no longer active, and an approval has been consumed within its validity that was approved for this
  promotion and whose resource scope is exactly this project, this entry and the digest of this content.
\<close>

theorem trusted_memory_approved:
  assumes "fresh_world w0" "mem_run env w0 w" "few_rows (mw_ledger w)" "memory_identifier p" "\<not> blank q" "1 \<le> n" "n \<le> MAX_LIMIT"
    "\<bar>now\<bar> \<le> 8640000000000000"
    "snd (memory_retrieve env (store_of w k) (Some (promotionAttestation (mw_approvals w))) (JStr p) (JStr q) (JNum n) untrusted boundary now) = Inr items"
    "x \<in> set items" "js_get (js_get x ''provenance'') ''trust'' = JStr ''trusted''"
  shows "boundary = JStr ''context'' \<and> (\<exists>i y a u. js_get x ''source_ref'' = JStr (''memory://'' @ p @ ''/'' @ i @ '':promoted'') \<and>
     snd (memory_inspect env (store_of w k) (JStr p) (JStr i)) = Inr y \<and> in_content y = js_get x ''content'' \<and> in_status y \<noteq> Active \<and>
     a \<in> set (ap_rows (mw_approvals w)) \<and> a_decision a = ''approved'' \<and>
     a_operation a = ''memory.promote:'' @ p @ '':'' @ i @ '':'' @ in_sha256 y \<and>
     a_scope a = JObj [(''content_sha256'', JStr (in_sha256 y)), (''memory_id'', JStr i), (''project_id'', JStr p)] \<and>
     u \<in> set (ap_uses (mw_approvals w)) \<and> u_approval u = a_id a \<and> u_operation u = a_operation a \<and>
     a_issued a \<le> u_at u \<and> u_at u < a_expires a)"
proof -
  obtain m rs where m: "memory_state env (store_of w k) p = (m, Inr \<lparr>mt_version = length (memory_stream (mw_ledger w) p), mt_records = rs\<rparr>)"
    "foldEvents env [] (memory_stream (mw_ledger w) p) = Inr rs" "records_ok env p (mw_approvals w) rs"
    by (rule run_reads[OF assms(1-4)])
  let ?f = "promotionAttestation (mw_approvals w)"
  obtain key index r b where r: "map_of rs key = Some r" "x = memory_source env p (iso_of_ms now) index r b"
    "b \<longrightarrow> boundary = JStr ''context'' \<and> isAttestedPromotion env (Some ?f) r p rs = Inr True"
    by (rule retrieved_item[OF m(1) _ assms(4-10)]) (use m(3) in simp_all)
  have key: "map_of rs key = Some r" by (rule r(1))
  have b: "isAttestedPromotion env (Some ?f) r p rs = Inr True" "boundary = JStr ''context''"
    using r(2,3) assms(11) by (auto simp: memory_source_fields split: if_splits)
  note att = attested_promotion[OF b(1)]
  obtain j r0 a c where h: "key = JStr (j @ PROMOTED_SUFFIX)" "js_get (mr_entry r) ''memory_id'' = key" "memory_identifier j" "sha256_text (me_sha env c)"
    "map_of rs (JStr j) = Some r0" "mr_status r0 \<noteq> Active" "js_get (mr_entry r0) ''content'' = JStr c" "js_get (mr_entry r) ''content'' = JStr c"
    "js_get (mr_entry r) ''supersedes'' = JStr j" "js_get (mr_entry r) ''source_digest'' = JStr (me_sha env c)"
    "js_get (mr_promotion r) ''approval_id'' = JStr a" "granted (mw_approvals w) a (promote_operation_id p j (me_sha env c)) (promote_scope p j (me_sha env c))"
    by (rule promoted_record[OF m(3) key att(1)])
  obtain u ap where u: "u \<in> set (ap_uses (mw_approvals w))" "a_id ap = u_approval u" "u_operation u = promote_operation_id p j (me_sha env c)"
    "ap \<in> set (ap_rows (mw_approvals w))" "a_operation ap = promote_operation_id p j (me_sha env c)" "a_decision ap = ''approved''"
    "a_scope ap = stableValue (promote_scope p j (me_sha env c))" "a_issued ap \<le> u_at u" "u_at u < a_expires ap"
    using h(12) unfolding granted_def by metis
  show ?thesis
    using inspect_reads[OF m(1) assms(4) h(3)] h u r(2) b(2)
    by (intro conjI[OF b(2)] exI[of _ j] exI exI[of _ ap] exI[of _ u])
      (auto simp: memory_source_fields shown_def ftext_def PROMOTED_SUFFIX_def promote_operation_id_def PROMOTE_OPERATION_def stable_promote_scope)
qed

subsection \<open>Colliding operation identifiers\<close>

lemma withApproval_reused:
  assumes "used (mm_approvals m) a (mo_id op)"
  shows "isl (snd (withApproval m verifier op actor p f))"
proof -
  have "(select_use (mm_approvals m) i (mo_id op) = None) = False" for i
    using assms unfolding select_use_None used_def by force
  then have no: "check_consume (mm_approvals m) i (mo_id op) policy scope now \<noteq> Inr x" for i policy scope now x
    by (cases "select_approval (mm_approvals m) i") (simp_all add: check_consume_def)
  have "isl r" if "consume (mm_approvals m) (mm_ledger m) (verify_request v op actor at) g = (s, r)" for v at g s r
    using that by (rule consume_cases) (auto simp: consume_transaction_def verify_request_def no isl_def split: sum.splits dest: sym)
  then have "consume (mm_approvals m) (mm_ledger m) (verify_request v op actor at) g \<noteq> (s, Inr x)" for v at g s x by fastforce
  then show ?thesis unfolding withApproval_def Let_def by (auto split: option.splits sum.splits prod.splits)
qed

lemma withApproval_used:
  assumes "withApproval m verifier op actor p f = (m', Inr u)"
  shows "\<exists>a. used (mm_approvals m') a (mo_id op)"
  using assms
  by (auto simp: withApproval_def Let_def used_def verify_request_def split: option.splits sum.splits prod.splits if_splits dest!: consume_Inr(1))

lemma check_command_ids:
  "check_command env (JStr p) (JStr i) reason actor what = Inr (p', i', a, safe) \<Longrightarrow> p' = p \<and> i' = i"
  using check_command_Inr(1,2) by blast

lemma forget_used:
  assumes "memory_forget env m v (JStr p) (JStr i) reason actor at = (m', Inr u)"
  shows "\<exists>a. used (mm_approvals m') a (delete_operation_id p i)"
  using assms
  by (auto simp: memory_forget_def memoryDeleteOperation_def requireIdentifier_Inr split: sum.splits prod.splits option.splits if_splits
      dest!: check_command_ids withApproval_used)

lemma forget_reused:
  assumes "used (mm_approvals m) a (delete_operation_id p i)"
  shows "isl (snd (memory_forget env m v (JStr p) (JStr i) reason actor at))"
proof -
  have "isl (snd (withApproval m1 v op b x f))"
    if "mm_approvals m1 = mm_approvals m" "mo_id op = delete_operation_id p i" for m1 op b x f
    by (rule withApproval_reused) (use assms that in simp)
  then show ?thesis
    by (auto simp: memory_forget_def memoryDeleteOperation_def requireIdentifier_Inr split: sum.splits prod.splits option.splits
        dest!: check_command_ids state_approvals)
qed

text \<open>
  C29. Deletion approvals of different memories can collide: the identifier of a deletion joins the project and the
  memory with colons, which both may contain. Once the entry \<open>i\<close> of the project \<open>p:q\<close> has been forgotten, the
  entry \<open>q:i\<close> of the project \<open>p\<close> can never be forgotten, whatever is approved for it.
\<close>

theorem colliding_deletion_refused:
  assumes "memory_forget env m v (JStr (p @ '':'' @ q)) (JStr i) reason actor at = (m', Inr ())" "uses_grow (mm_approvals m') (mm_approvals n)"
  shows "isl (snd (memory_forget env n v' (JStr p) (JStr (q @ '':'' @ i)) reason' actor' at'))"
proof -
  obtain a where "used (mm_approvals m') a (delete_operation_id (p @ '':'' @ q) i)" using forget_used[OF assms(1)] by blast
  then have "used (mm_approvals n) a (delete_operation_id p (q @ '':'' @ i))"
    using uses_grow_used[OF assms(2)] by (simp add: delete_operation_id_def)
  then show ?thesis by (rule forget_reused)
qed

end
