(* ===== verification/ContextAuthority.thy ===== *)
theory ContextAuthority
  imports MemoryTrust "HOL-Library.AList"
begin

text \<open>
  The authority of the sources of a model context, \<open>packages/agent-context/authority.js\<close> with the ranks of
  \<open>packages/agent-runtime-contracts/content-parts.js\<close>: every source is declared in a layer, which bounds what
  it may claim; content from data layers is untrusted unless it is memory an operator promoted; and a
  transformation never raises authority. The sources are documents the input schema has accepted.
\<close>

subsection \<open>Ranks\<close>

definition AUTHORITY_LEVELS :: "string list" where "AUTHORITY_LEVELS = [''directive'', ''operator'', ''data'']"

definition AUTHORITY_RANK :: "(string \<times> nat) list" where
  "AUTHORITY_RANK = [(''data'', 0), (''operator'', 1), (''directive'', 2)]"

definition DIRECTIVE_ORIGINS :: "string list" where "DIRECTIVE_ORIGINS = [''config'', ''operator'']"

definition CONTEXT_UNTRUSTED_ORIGINS :: "string list" where
  "CONTEXT_UNTRUSTED_ORIGINS = [''tool'', ''plugin'', ''lsp'', ''dap'', ''browser'', ''display'', ''mcp'']"

text \<open>A comparison with the rank of an unknown authority is a comparison with NaN.\<close>

definition rank_above :: "string \<Rightarrow> string \<Rightarrow> bool" where
  "rank_above a b = (case (map_of AUTHORITY_RANK a, map_of AUTHORITY_RANK b) of (Some m, Some n) \<Rightarrow> n < m | _ \<Rightarrow> False)"

definition minAuthority :: "string list \<Rightarrow> string" where
  "minAuthority authorities =
     (case authorities of
        [] \<Rightarrow> ''data''
      | a # as \<Rightarrow> foldl (\<lambda>lowest current. if rank_above lowest current then current else lowest) a as)"

definition context_error :: "string \<Rightarrow> string \<Rightarrow> jserr" where
  "context_error code message = mk_err code message"

definition deriveTransformedAuthority :: "string list \<Rightarrow> string option \<Rightarrow> string res" where
  "deriveTransformedAuthority inputs requested =
     (case requested of
        None \<Rightarrow> Inr (minAuthority inputs)
      | Some r \<Rightarrow>
          if rank_above r (minAuthority inputs)
          then Inl (context_error ''AGENT_CONTEXT_AUTHORITY_ESCALATION''
            (''transformation cannot raise authority from '' @ minAuthority inputs @ '' to '' @ r))
          else Inr r)"

subsection \<open>Layers and sources\<close>

record context_layer =
  cl_authority :: string
  cl_origin :: string
  cl_trusted :: bool

definition LAYERS :: "(string \<times> context_layer) list" where
  "LAYERS =
     [(''instructions'', \<lparr>cl_authority = ''directive'', cl_origin = ''config'', cl_trusted = True\<rparr>),
      (''current_turn'', \<lparr>cl_authority = ''operator'', cl_origin = ''operator'', cl_trusted = False\<rparr>),
      (''runtime_context'', \<lparr>cl_authority = ''data'', cl_origin = ''config'', cl_trusted = False\<rparr>),
      (''references'', \<lparr>cl_authority = ''data'', cl_origin = ''tool'', cl_trusted = False\<rparr>),
      (''memory'', \<lparr>cl_authority = ''data'', cl_origin = ''memory'', cl_trusted = False\<rparr>),
      (''media'', \<lparr>cl_authority = ''data'', cl_origin = ''tool'', cl_trusted = False\<rparr>)]"

definition sourceText :: "js \<Rightarrow> string" where
  "sourceText source =
     (if \<not> nullish (js_get source ''content'') then js_text (js_get source ''content'')
      else js_text (js_get (js_get source ''message'') ''content''))"

definition isOperatorPromotedMemory :: "string \<Rightarrow> js \<Rightarrow> js \<Rightarrow> bool" where
  "isOperatorPromotedMemory layer authority provenance \<longleftrightarrow>
     layer = ''memory'' \<and> authority = JStr ''data'' \<and> js_get provenance ''origin'' = JStr ''memory'' \<and>
     js_get provenance ''trust'' = JStr ''trusted'' \<and>
     list_ex (\<lambda>s. js_get s ''id'' = JStr ''memory.write.operator'') (js_items (js_get provenance ''transform'')) \<and>
     list_ex (\<lambda>s. js_get s ''id'' = JStr ''memory.promote'' \<and> js_get s ''input_digest'' = js_get provenance ''digest'')
       (js_items (js_get provenance ''transform''))"

record resolved_source =
  rs_authority :: js
  rs_provenance :: js
  rs_declared :: bool

definition derived_provenance :: "(string \<Rightarrow> string) \<Rightarrow> context_layer \<Rightarrow> js \<Rightarrow> js \<Rightarrow> js" where
  "derived_provenance sha256 rule source retrieved_at =
     JObj [(''origin'', JStr (cl_origin rule)), (''source_ref'', js_get source ''source_ref''),
       (''digest'', JStr (sha256 (sourceText source))), (''retrieved_at'', retrieved_at),
       (''trust'', JStr (if cl_trusted rule then ''trusted'' else ''untrusted'')), (''transform'', JArr [])]"

definition escalation :: "string \<Rightarrow> jserr" where
  "escalation message = context_error ''AGENT_CONTEXT_AUTHORITY_ESCALATION'' message"

definition check_declared :: "(string \<Rightarrow> string) \<Rightarrow> string \<Rightarrow> context_layer \<Rightarrow> js \<Rightarrow> unit res" where
  "check_declared sha256 layer rule source =
     (let authority = js_get source ''authority''; provenance = js_get source ''provenance'';
          origin = js_get provenance ''origin''; trust = js_get provenance ''trust'' in
      guards [
        (rank_above (js_text authority) (cl_authority rule), escalation (js_text authority @ '' authority is not allowed in '' @ layer)),
        (layer = ''instructions'' \<and> authority \<noteq> JStr ''directive'',
         context_error ''AGENT_CONTEXT_AUTHORITY_INVALID'' ''instruction layers carry directive authority only''),
        (authority = JStr ''directive'' \<and> (\<not> one_of origin DIRECTIVE_ORIGINS \<or> trust \<noteq> JStr ''trusted''),
         escalation ''directive authority requires a trusted config or operator origin''),
        (authority = JStr ''directive'' \<and> js_items (js_get provenance ''transform'') \<noteq> [],
         escalation ''a transformed source cannot hold directive authority''),
        (authority = JStr ''operator'' \<and> (layer \<noteq> ''current_turn'' \<or> origin \<noteq> JStr ''operator''),
         escalation ''operator authority is valid only for the current turn from the operator origin''),
        (trust \<noteq> JStr ''untrusted'' \<and> \<not> isOperatorPromotedMemory layer authority provenance \<and>
           (cl_authority rule = ''data'' \<or> one_of origin CONTEXT_UNTRUSTED_ORIGINS),
         context_error ''AGENT_CONTEXT_TRUST_ESCALATION'' (layer @ '' content must be declared untrusted'')),
        (js_get source ''source_ref'' \<noteq> js_get provenance ''source_ref'',
         context_error ''AGENT_CONTEXT_PROVENANCE_MISSING'' ''provenance does not describe this source''),
        (layer \<noteq> ''media'' \<and> js_get provenance ''digest'' \<noteq> JStr (sha256 (sourceText source)),
         context_error ''AGENT_CONTEXT_PROVENANCE_DIGEST_MISMATCH'' ''provenance digest does not match the source content'')])"

definition resolveSourceAuthority :: "(string \<Rightarrow> string) \<Rightarrow> string \<Rightarrow> js \<Rightarrow> js \<Rightarrow> resolved_source res" where
  "resolveSourceAuthority sha256 layer source retrieved_at =
     (case map_of LAYERS layer of
        None \<Rightarrow> Inl (context_error ''AGENT_CONTEXT_AUTHORITY_INVALID'' (''unknown context layer: '' @ layer))
      | Some rule \<Rightarrow>
          let authority = js_get source ''authority''; provenance = js_get source ''provenance'' in
          if authority = JUndef \<and> provenance = JUndef then
            Inr \<lparr>rs_authority = JStr (cl_authority rule), rs_provenance = derived_provenance sha256 rule source retrieved_at, rs_declared = False\<rparr>
          else if authority = JUndef \<or> provenance = JUndef then
            Inl (context_error ''AGENT_CONTEXT_PROVENANCE_MISSING'' ''a v2 source requires both authority and provenance'')
          else bind_res (check_declared sha256 layer rule source) (\<lambda>_.
            Inr \<lparr>rs_authority = authority, rs_provenance = provenance, rs_declared = True\<rparr>))"

subsection \<open>The whole input\<close>

definition media_source :: "js \<Rightarrow> js \<Rightarrow> js" where
  "media_source retrieved_at media =
     JObj [(''source_ref'', js_get media ''source_ref''), (''authority'', js_get media ''authority''),
       (''provenance'', JObj [(''origin'', js_get media ''origin''), (''source_ref'', js_get media ''source_ref''),
         (''digest'', js_get media ''digest''), (''retrieved_at'', retrieved_at), (''trust'', js_get media ''trust''),
         (''transform'', js_get media ''transform'')])]"

definition layered_sources :: "js \<Rightarrow> (string \<times> js) list" where
  "layered_sources input =
     (let at = js_get input ''occurred_at''; items = (\<lambda>k. js_items (js_get input k)) in
      map (Pair ''instructions'') (concat (map (js_items \<circ> snd) (own_fields (js_get input ''instructions'')))) @
      map (Pair ''runtime_context'') (items ''runtime_context'') @ map (Pair ''references'') (items ''references'') @
      map (Pair ''memory'') (items ''memory'') @ map (Pair ''media'' \<circ> media_source at) (items ''media'') @
      [(''current_turn'', js_get input ''current_turn'')])"

definition resolveInputAuthority :: "(string \<Rightarrow> string) \<Rightarrow> js \<Rightarrow> ((js \<times> string \<times> resolved_source) list \<times> bool) res" where
  "resolveInputAuthority sha256 input =
     bind_res (map_res (\<lambda>(layer, source).
       bind_res (resolveSourceAuthority sha256 layer source (js_get input ''occurred_at'')) (\<lambda>r.
       Inr (js_get source ''source_ref'', layer, r))) (layered_sources input)) (\<lambda>entries.
     Inr (foldl (\<lambda>resolved (ref, entry). AList.update ref entry resolved) [] entries,
       list_ex (\<lambda>(ref, layer, r). rs_declared r) entries))"

subsection \<open>What a layer admits\<close>

text \<open>
  The specification, in the terms of the documents alone: which authority, origin, trust and digest a source
  of a layer may carry.
\<close>

definition admitted :: "(string \<Rightarrow> string) \<Rightarrow> string \<Rightarrow> js \<Rightarrow> resolved_source \<Rightarrow> bool" where
  "admitted sha256 layer source r \<longleftrightarrow>
     (let authority = rs_authority r; provenance = rs_provenance r; trust = js_get provenance ''trust'' in
      (authority = JStr ''directive'' \<longrightarrow> layer = ''instructions'' \<and> trust = JStr ''trusted'' \<and>
         js_get provenance ''origin'' \<in> {JStr ''config'', JStr ''operator''} \<and> js_items (js_get provenance ''transform'') = []) \<and>
      (authority = JStr ''operator'' \<longrightarrow> layer = ''current_turn'' \<and> js_get provenance ''origin'' = JStr ''operator'') \<and>
      (layer = ''instructions'' \<longrightarrow> authority = JStr ''directive'') \<and>
      (trust \<noteq> JStr ''untrusted'' \<longrightarrow> layer = ''instructions'' \<or> layer = ''current_turn'' \<or>
         layer = ''memory'' \<and> authority = JStr ''data'' \<and> js_get provenance ''origin'' = JStr ''memory'' \<and> trust = JStr ''trusted'' \<and>
         (\<exists>s \<in> set (js_items (js_get provenance ''transform'')). js_get s ''id'' = JStr ''memory.write.operator'') \<and>
         (\<exists>s \<in> set (js_items (js_get provenance ''transform'')). js_get s ''id'' = JStr ''memory.promote'' \<and>
            js_get s ''input_digest'' = JStr (sha256 (sourceText source)))) \<and>
      js_get provenance ''source_ref'' = js_get source ''source_ref'' \<and>
      (layer \<noteq> ''media'' \<longrightarrow> js_get provenance ''digest'' = JStr (sha256 (sourceText source))))"

lemma promoted_memory_steps:
  assumes "isOperatorPromotedMemory layer authority provenance"
  shows "layer = ''memory''" "authority = JStr ''data''" "js_get provenance ''origin'' = JStr ''memory''" "js_get provenance ''trust'' = JStr ''trusted''"
    "\<exists>s \<in> set (js_items (js_get provenance ''transform'')). js_get s ''id'' = JStr ''memory.write.operator''"
    "\<exists>s \<in> set (js_items (js_get provenance ''transform'')). js_get s ''id'' = JStr ''memory.promote'' \<and> js_get s ''input_digest'' = js_get provenance ''digest''"
  using assms by (auto simp: isOperatorPromotedMemory_def list_ex_iff)

lemma directive_origin: "one_of v DIRECTIVE_ORIGINS \<Longrightarrow> v \<in> {JStr ''config'', JStr ''operator''}"
  by (cases v) (auto simp: one_of_def DIRECTIVE_ORIGINS_def)

lemma layer_cases:
  assumes "map_of LAYERS layer = Some rule"
  obtains "layer = ''instructions''" "rule = \<lparr>cl_authority = ''directive'', cl_origin = ''config'', cl_trusted = True\<rparr>"
  | "layer = ''current_turn''" "rule = \<lparr>cl_authority = ''operator'', cl_origin = ''operator'', cl_trusted = False\<rparr>"
  | "layer \<noteq> ''instructions''" "layer \<noteq> ''current_turn''" "cl_authority rule = ''data''" "\<not> cl_trusted rule"
  using assms unfolding LAYERS_def by (auto split: if_splits)

lemma guards_pass: "guards gs = Inr u \<longleftrightarrow> (\<forall>g \<in> set gs. \<not> fst g)"
  by (induction gs rule: guards.induct) auto

lemma check_declared_Inr:
  assumes "check_declared sha256 layer rule source = Inr u"
  shows "\<not> rank_above (js_text (js_get source ''authority'')) (cl_authority rule)"
    "layer = ''instructions'' \<longrightarrow> js_get source ''authority'' = JStr ''directive''"
    "js_get source ''authority'' = JStr ''directive'' \<longrightarrow> one_of (js_get (js_get source ''provenance'') ''origin'') DIRECTIVE_ORIGINS \<and>
       js_get (js_get source ''provenance'') ''trust'' = JStr ''trusted'' \<and> js_items (js_get (js_get source ''provenance'') ''transform'') = []"
    "js_get source ''authority'' = JStr ''operator'' \<longrightarrow> layer = ''current_turn'' \<and> js_get (js_get source ''provenance'') ''origin'' = JStr ''operator''"
    "js_get (js_get source ''provenance'') ''trust'' \<noteq> JStr ''untrusted'' \<longrightarrow>
       isOperatorPromotedMemory layer (js_get source ''authority'') (js_get source ''provenance'') \<or> cl_authority rule \<noteq> ''data''"
    "js_get (js_get source ''provenance'') ''source_ref'' = js_get source ''source_ref''"
    "layer \<noteq> ''media'' \<longrightarrow> js_get (js_get source ''provenance'') ''digest'' = JStr (sha256 (sourceText source))"
  using assms unfolding check_declared_def Let_def guards_pass by (simp_all del: js.inject) blast+

lemma directive_layer:
  assumes "map_of LAYERS layer = Some rule" "\<not> rank_above ''directive'' (cl_authority rule)"
  shows "layer = ''instructions''"
  using assms(1) by (rule layer_cases) (use assms(2) in \<open>simp_all add: rank_above_def AUTHORITY_RANK_def\<close>)

lemma data_layer:
  assumes "map_of LAYERS layer = Some rule" "layer \<noteq> ''instructions''" "layer \<noteq> ''current_turn''"
  shows "cl_authority rule = ''data''"
  using assms(1) by (rule layer_cases) (use assms(2,3) in simp_all)

lemma declared_admitted:
  assumes "check_declared sha256 layer rule source = Inr u" "map_of LAYERS layer = Some rule"
  shows "admitted sha256 layer source \<lparr>rs_authority = js_get source ''authority'', rs_provenance = js_get source ''provenance'', rs_declared = True\<rparr>"
proof -
  note c = check_declared_Inr[OF assms(1)]
  let ?p = "js_get source ''provenance''"
  have directive: "js_get source ''authority'' = JStr ''directive'' \<longrightarrow> layer = ''instructions''"
    using c(1) directive_layer[OF assms(2)] by auto
  have trusted: "js_get ?p ''trust'' \<noteq> JStr ''untrusted'' \<longrightarrow> layer = ''instructions'' \<or> layer = ''current_turn'' \<or>
      isOperatorPromotedMemory layer (js_get source ''authority'') ?p"
    using c(5) data_layer[OF assms(2)] by blast
  have digest: "js_get ?p ''digest'' = JStr (sha256 (sourceText source))" if "layer = ''memory''" using c(7) that by simp
  show ?thesis
    unfolding admitted_def Let_def resolved_source.select_convs
    using directive c(2-4,6,7) directive_origin trusted promoted_memory_steps[of layer "js_get source ''authority''" ?p] digest
    by (intro conjI impI) (metis (no_types, lifting))+
qed

lemma derived_admitted:
  assumes "map_of LAYERS layer = Some rule"
  shows "admitted sha256 layer source
     \<lparr>rs_authority = JStr (cl_authority rule), rs_provenance = derived_provenance sha256 rule source at, rs_declared = False\<rparr>"
  using assms
  by (rule layer_cases) (simp_all add: admitted_def Let_def derived_provenance_def js_get_JObj one_of_def DIRECTIVE_ORIGINS_def)

lemma resolve_admitted:
  assumes "resolveSourceAuthority sha256 layer source at = Inr r"
  shows "admitted sha256 layer source r"
  using assms declared_admitted derived_admitted
  by (auto simp: resolveSourceAuthority_def Let_def split: option.splits if_splits)

lemma foldl_update_mem:
  "map_of (foldl (\<lambda>m (k, v). AList.update k v m) m0 es) k = Some v \<Longrightarrow> (k, v) \<in> set es \<or> map_of m0 k = Some v"
proof (induction es arbitrary: m0)
  case (Cons e es)
  then show ?case by (cases e) (fastforce simp: update_conv' split: if_splits)
qed simp

lemma resolved_source_of:
  assumes "resolveInputAuthority sha256 input = Inr (resolved, v2)" "map_of resolved ref = Some (layer, r)"
  obtains source where "(layer, source) \<in> set (layered_sources input)" "js_get source ''source_ref'' = ref"
    "resolveSourceAuthority sha256 layer source (js_get input ''occurred_at'') = Inr r"
proof -
  obtain entries where e: "map_res (\<lambda>(layer, source).
       bind_res (resolveSourceAuthority sha256 layer source (js_get input ''occurred_at'')) (\<lambda>r.
       Inr (js_get source ''source_ref'', layer, r))) (layered_sources input) = Inr entries"
    "resolved = foldl (\<lambda>resolved (ref, entry). AList.update ref entry resolved) [] entries"
    using assms(1) unfolding resolveInputAuthority_def by auto
  have "(ref, layer, r) \<in> set entries" using foldl_update_mem assms(2) unfolding e(2) by fastforce
  then show thesis using map_res_set[OF e(1)] that by fastforce
qed

text \<open>
  C19. No source of a model context holds more authority than its layer allows: in the resolved authority of an
  accepted input, directives come only from the instruction layers, from a trusted configuration or operator origin
  and untransformed; operator authority only from the current turn; content is trusted outside these two
  layers only as memory data whose history of transformations has the write of an operator and a promotion
  of exactly the digest of this text; and the recorded provenance names the source and, in every layer but
  media, carries the digest of its text.
\<close>

theorem context_authority_bounded:
  assumes "resolveInputAuthority sha256 input = Inr (resolved, v2)" "map_of resolved ref = Some (layer, r)"
  shows "\<exists>source. (layer, source) \<in> set (layered_sources input) \<and> js_get source ''source_ref'' = ref \<and> admitted sha256 layer source r"
proof -
  obtain source where s: "(layer, source) \<in> set (layered_sources input)" "js_get source ''source_ref'' = ref"
    "resolveSourceAuthority sha256 layer source (js_get input ''occurred_at'') = Inr r"
    by (rule resolved_source_of[OF assms(1,2)])
  then show ?thesis using resolve_admitted[OF s(3)] by blast
qed

subsection \<open>Memory in a context\<close>

lemma promoted_source_proof:
  assumes "isPromotedEntry (me_sha env) (mr_entry r) p"
  shows "isOperatorPromotedMemory ''memory'' (JStr ''data'') (js_get (memory_source env p at n r True) ''provenance'')"
  using assms by (simp add: isPromotedEntry_def isOperatorPromotedMemory_def memory_source_def transform_step_def Let_def js_get_JObj ftext_def)

lemma memory_source_resolves:
  assumes "is_str (js_get (mr_entry r) ''content'')" "b \<longrightarrow> isPromotedEntry (me_sha env) (mr_entry r) p"
  shows "resolveSourceAuthority (me_sha env) ''memory'' (memory_source env p at n r b) t =
     Inr \<lparr>rs_authority = JStr ''data'', rs_provenance = js_get (memory_source env p at n r b) ''provenance'', rs_declared = True\<rparr>"
proof -
  let ?x = "memory_source env p at n r b"
  have f: "js_get ?x ''authority'' = JStr ''data''" "js_get (js_get ?x ''provenance'') ''origin'' = JStr ''memory''"
    "js_get (js_get ?x ''provenance'') ''trust'' = JStr (if b then ''trusted'' else ''untrusted'')" "js_get ?x ''provenance'' \<noteq> JUndef"
    "js_get (js_get ?x ''provenance'') ''source_ref'' = js_get ?x ''source_ref''"
    "js_get (js_get ?x ''provenance'') ''digest'' = JStr (me_sha env (ftext (mr_entry r) ''content''))"
    by (simp_all add: memory_source_def Let_def js_get_JObj AUTHORITY_def)
  have t: "sourceText ?x = ftext (mr_entry r) ''content''"
    using assms(1) by (cases "js_get (mr_entry r) ''content''") (simp_all add: sourceText_def memory_source_def Let_def js_get_JObj nullish_def ftext_def)
  have "check_declared (me_sha env) ''memory'' \<lparr>cl_authority = ''data'', cl_origin = ''memory'', cl_trusted = False\<rparr> ?x = Inr ()"
    using assms(2) promoted_source_proof[of env r p at n]
    unfolding check_declared_def Let_def guards_pass f t by (cases b) (simp_all add: f rank_above_def AUTHORITY_RANK_def)
  then show ?thesis by (simp add: resolveSourceAuthority_def LAYERS_def f Let_def bind_res_simps)
qed

text \<open>
  C21. What memory returns is what a context accepts: every item that a store of a run retrieves, promoted or not,
  resolves in the memory layer with data authority and its own provenance, so an accepted memory never blocks the
  assembly of a context and never gains authority by it.
\<close>

theorem memory_context_accepted:
  assumes "fresh_world w0" "mem_run env w0 w" "few_rows (mw_ledger w)" "memory_identifier p" "\<not> blank q" "1 \<le> n" "n \<le> MAX_LIMIT"
    "\<bar>now\<bar> \<le> 8640000000000000"
    "snd (memory_retrieve env (store_of w k) attest (JStr p) (JStr q) (JNum n) untrusted boundary now) = Inr items" "x \<in> set items"
  shows "resolveSourceAuthority (me_sha env) ''memory'' x t =
     Inr \<lparr>rs_authority = JStr ''data'', rs_provenance = js_get x ''provenance'', rs_declared = True\<rparr>"
proof -
  obtain m rs where m: "memory_state env (store_of w k) p = (m, Inr \<lparr>mt_version = length (memory_stream (mw_ledger w) p), mt_records = rs\<rparr>)"
    "records_ok env p (mw_approvals w) rs"
    by (rule run_reads[OF assms(1-4)])
  obtain key index r b where r: "map_of rs key = Some r" "x = memory_source env p (iso_of_ms now) index r b"
    "b \<longrightarrow> boundary = JStr ''context'' \<and> isAttestedPromotion env attest r p rs = Inr True"
    by (rule retrieved_item[OF m(1) _ assms(4-10)]) (use m(2) in simp_all)
  have "is_str (js_get (mr_entry r) ''content'')" using m(2) r(1) unfolding records_ok_def record_ok_def by blast
  moreover have "b \<longrightarrow> isPromotedEntry (me_sha env) (mr_entry r) p" using r(3) by (auto simp: isAttestedPromotion_def Let_def split: if_splits)
  ultimately show ?thesis unfolding r(2) by (rule memory_source_resolves)
qed

subsection \<open>Transformations\<close>

lemma rank_above_known:
  assumes "a \<in> set AUTHORITY_LEVELS" "b \<in> set AUTHORITY_LEVELS"
  shows "rank_above a b \<longleftrightarrow> the (map_of AUTHORITY_RANK b) < the (map_of AUTHORITY_RANK a)"
proof -
  have "\<exists>n. map_of AUTHORITY_RANK c = Some n" if "c \<in> set AUTHORITY_LEVELS" for c
    using that by (auto simp: AUTHORITY_LEVELS_def AUTHORITY_RANK_def)
  then obtain m n where "map_of AUTHORITY_RANK a = Some m" "map_of AUTHORITY_RANK b = Some n" using assms by meson
  then show ?thesis by (simp add: rank_above_def)
qed

lemma foldl_lowest:
  fixes lowest :: "string \<Rightarrow> string list \<Rightarrow> string"
  defines "lowest \<equiv> foldl (\<lambda>l c. if rank_above l c then c else l)"
  assumes "a \<in> set AUTHORITY_LEVELS" "set as \<subseteq> set AUTHORITY_LEVELS"
  shows "lowest a as \<in> insert a (set as) \<and> (\<forall>b \<in> insert a (set as). \<not> rank_above (lowest a as) b)"
  using assms(3)
proof (induction as rule: rev_induct)
  case Nil
  then show ?case using assms(2) by (simp add: lowest_def rank_above_known)
next
  case (snoc b as)
  then have IH: "lowest a as \<in> insert a (set as)" "\<forall>c \<in> insert a (set as). \<not> rank_above (lowest a as) c" by simp_all
  have known: "c \<in> set AUTHORITY_LEVELS" if "c \<in> insert b (insert a (set as))" for c using that snoc.prems assms(2) by auto
  have l: "lowest a (as @ [b]) = (if rank_above (lowest a as) b then b else lowest a as)" by (simp add: lowest_def)
  have "\<not> rank_above (lowest a (as @ [b])) c" if c: "c \<in> insert b (insert a (set as))" for c
    using IH known[OF c] known[of b] known[of "lowest a as"] c unfolding l by (auto simp: rank_above_known)
  then show ?case using IH(1) unfolding l by auto
qed

text \<open>A transformation never raises authority above that of any input.\<close>

lemma transformed_authority_bounded:
  assumes "deriveTransformedAuthority inputs requested = Inr a" "inputs \<noteq> []" "set inputs \<subseteq> set AUTHORITY_LEVELS"
    "case requested of None \<Rightarrow> True | Some r \<Rightarrow> r \<in> set AUTHORITY_LEVELS" "b \<in> set inputs"
  shows "\<not> rank_above a b"
proof -
  obtain x xs where inputs: "inputs = x # xs" using assms(2) by (cases inputs) auto
  have m: "minAuthority inputs \<in> set inputs" "\<not> rank_above (minAuthority inputs) b"
    using foldl_lowest[of x xs] assms(3,5) unfolding inputs minAuthority_def by auto
  have "\<not> rank_above a (minAuthority inputs)" "a \<in> set AUTHORITY_LEVELS"
    using assms(1,3,4) m(1) by (auto simp: deriveTransformedAuthority_def rank_above_known split: option.splits if_splits)
  then show ?thesis using m assms(3,5) by (auto simp: rank_above_known subset_eq)
qed

end
