(* ===== verification/MemoryDemo.thy ===== *)
theory MemoryDemo
  imports ContextAuthority "HOL-Library.Code_Target_Nat"
begin

text \<open>
  One concrete history of governed memory, evaluated by the kernel, at which the theorems on memory and on context
  authority are applied: an agent writes a note, an operator promotes it, a context retrieves the promoted note,
  and the operator forgets the original. The digest is a toy function of the right shape.
\<close>

definition note_hex :: "char \<Rightarrow> bool" where "note_hex c \<longleftrightarrow> c \<in> set ''0123456789abcdef''"

definition note_sha :: "string \<Rightarrow> string" where
  "note_sha s = take 64 (rev (filter note_hex s) @ replicate 64 (CHR ''0''))"

fun words_of :: "string \<Rightarrow> string \<Rightarrow> string list" where
  "words_of w [] = (if w = [] then [] else [w])"
| "words_of w (c # s) = (if c = CHR '' '' then (if w = [] then [] else [w]) @ words_of [] s else words_of (w @ [c]) s)"

definition note_env :: mem_env where
  "note_env = \<lparr>me_sha = note_sha, me_words = words_of [], me_scan = Some (\<lambda>s. False), me_max_ttl = MAX_TTL_SECONDS,
     me_registry = empty_registry, me_collate = id\<rparr>"

definition note_memory :: memory where
  "note_memory = \<lparr>mm_ledger = new_ledger [(WRITTEN, 1), (SUPERSEDED, 1), (EXPIRED, 1), (DELETED, 1)], mm_approvals = new_approvals,
     mm_projection = []\<rparr>"

definition note_rules :: js where
  "note_rules = JArr [JObj [(''id'', JStr ''r1''), (''source'', JStr ''user''), (''stage'', JStr ''allow''), (''decision'', JStr ''allow'')]]"

definition note_input :: "string \<Rightarrow> string \<Rightarrow> js" where
  "note_input i text = JObj [(''memory_id'', JStr i), (''scope'', JObj [(''project_id'', JStr ''p:q'')]), (''content'', JStr text),
     (''origin'', JStr ''agent''), (''trust'', JStr ''untrusted''), (''classification'', JStr ''internal''),
     (''source_ref'', JStr ''run://1''), (''ttl_seconds'', JNum 60)]"

definition note_host :: mem_host where
  "note_host = \<lparr>mh_rules = note_rules, mh_approved = JUndef, mh_actor = JUndef, mh_mode = JUndef, mh_expected = JUndef\<rparr>"

definition note_operator :: js where
  "note_operator = JObj [(''kind'', JStr ''operator''), (''id'', JStr ''op'')]"

definition note_at :: "int \<Rightarrow> int" where "note_at n = 1700000000000 + 1000 * n"

definition note_clock :: operator_clock where
  "note_clock = \<lparr>oc_issued = note_at 1, oc_now = note_at 2, oc_verify = note_at 2, oc_at = note_at 3\<rparr>"

definition note_world0 :: mem_world where
  "note_world0 = \<lparr>mw_ledger = mm_ledger note_memory, mw_approvals = mm_approvals note_memory, mw_projections = (\<lambda>k. [])\<rparr>"

definition note_write :: "mem_world \<Rightarrow> mem_world" where
  "note_write w = put_store w 0 (fst (memory_write note_env (store_of w 0) (note_input ''n1'' ''ab cd'') note_host (note_at 0) (note_at 0)))"

definition note_promote :: "mem_world \<Rightarrow> mem_world" where
  "note_promote w = put_store w 0 (fst (operator_promote note_env (store_of w 0) note_operator ''ap1'' 30000 (JStr ''p:q'') (JStr ''n1'')
     (JStr (note_sha ''ab cd'')) JUndef note_clock))"

definition note_deletion :: memory_operation where
  "note_deletion = (case memoryDeleteOperation (JStr ''p:q'') (JStr ''n1'') of Inr op \<Rightarrow> op)"

definition note_approve :: "mem_world \<Rightarrow> mem_world" where
  "note_approve w = w\<lparr>mw_approvals := fst (issue (mw_approvals w)
     (operator_approval note_deletion ''ap2'' note_operator (iso_of_ms (note_at 4)) (iso_of_ms (note_at 9))))\<rparr>"

definition note_forgetting :: "mem_world \<Rightarrow> memory \<times> unit res" where
  "note_forgetting w = memory_forget note_env (store_of w 0) (Some (operator_verifier (mo_id note_deletion) ''ap2'' (note_at 5)))
     (JStr ''p:q'') (JStr ''n1'') JUndef note_operator (note_at 5)"

definition note_forget :: "mem_world \<Rightarrow> mem_world" where
  "note_forget w = put_store w 0 (fst (note_forgetting w))"

definition note_query :: "mem_world \<Rightarrow> js list res" where
  "note_query w = snd (memory_retrieve note_env (store_of w 0) (Some (promotionAttestation (mw_approvals w))) (JStr ''p:q'') (JStr ''cd'') (JNum 5)
     (JBool True) (JStr ''context'') (note_at 4))"

definition note_status :: "mem_world \<Rightarrow> mem_status option" where
  "note_status w = (case snd (memory_inspect note_env (store_of w 0) (JStr ''p:q'') (JStr ''n1'')) of Inr x \<Rightarrow> Some (in_status x) | Inl e \<Rightarrow> None)"

definition note_trusts :: "mem_world \<Rightarrow> js list" where
  "note_trusts w = (case note_query w of Inr xs \<Rightarrow> map (\<lambda>x. js_get (js_get x ''provenance'') ''trust'') xs | Inl e \<Rightarrow> [])"

definition note_done :: "mem_world \<Rightarrow> bool" where
  "note_done w = (case snd (note_forgetting w) of Inr u \<Rightarrow> True | Inl e \<Rightarrow> False)"

definition note_rows :: "mem_world \<Rightarrow> nat" where "note_rows w = length (led_rows (mw_ledger w))"

definition note_history :: bool where
  "note_history =
     (let w1 = note_write note_world0; w2 = note_promote w1; w3 = note_approve w2; w4 = note_forget w3 in
      note_rows w1 = 1 \<and> note_rows w2 = 3 \<and> note_rows w4 = 4 \<and> note_status w1 = Some Active \<and> note_trusts w2 = [JStr ''trusted''] \<and>
      note_done w3 \<and> note_status w4 = Some Deleted)"

lemma note_history: note_history
  by code_simp

lemma note_names: "memory_identifier ''p:q''" "memory_identifier ''n1''" "\<not> blank ''cd''"
  by code_simp+

text \<open>The worlds of the history and what each of them shows.\<close>

abbreviation "note_world1 \<equiv> note_write note_world0"
abbreviation "note_world2 \<equiv> note_promote note_world1"
abbreviation "note_world3 \<equiv> note_approve note_world2"
abbreviation "note_world4 \<equiv> note_forget note_world3"

lemma note_facts:
  "note_rows note_world1 = 1" "note_rows note_world2 = 3" "note_rows note_world4 = 4" "note_status note_world1 = Some Active"
  "note_trusts note_world2 = [JStr ''trusted'']" "note_done note_world3" "note_status note_world4 = Some Deleted"
  using note_history unfolding note_history_def Let_def by blast+

lemma few_note_rows: "note_rows w < 10 \<Longrightarrow> few_rows (mw_ledger w)"
  by (simp add: few_rows_def note_rows_def MAX_SAFE_INTEGER_def)

lemma note_few:
  "few_rows (mw_ledger note_world0)" "few_rows (mw_ledger note_world1)" "few_rows (mw_ledger note_world2)"
  "few_rows (mw_ledger note_world3)" "few_rows (mw_ledger note_world4)"
proof -
  show "few_rows (mw_ledger note_world0)"
    by (simp add: few_rows_def note_world0_def note_memory_def new_ledger_def MAX_SAFE_INTEGER_def)
  show "few_rows (mw_ledger note_world1)" by (rule few_note_rows) (simp add: note_facts(1))
  show two: "few_rows (mw_ledger note_world2)" by (rule few_note_rows) (simp add: note_facts(2))
  show "few_rows (mw_ledger note_world3)" using two by (simp add: note_approve_def)
  show "few_rows (mw_ledger note_world4)" by (rule few_note_rows) (simp add: note_facts(3))
qed

lemma note_fresh: "fresh_world note_world0"
  by (simp add: fresh_world_def note_world0_def note_memory_def new_ledger_ok new_approvals_ok) (simp add: new_ledger_def)

lemma note_run1: "mem_run note_env note_world0 note_world1"
  unfolding note_write_def by (intro mem_run.step[OF mem_run.start] mem_step.store memory_op.written note_few)

lemma note_run2: "mem_run note_env note_world0 note_world2"
  unfolding note_promote_def[of note_world1] by (intro mem_run.step[OF note_run1] mem_step.store memory_op.operator note_few)

lemma note_run3: "mem_run note_env note_world0 note_world3"
  unfolding note_approve_def by (intro mem_run.step[OF note_run2] mem_step.issue note_few)

lemma note_run4: "mem_run note_env note_world1 note_world4"
proof -
  have "mem_run note_env note_world1 note_world2"
    unfolding note_promote_def[of note_world1] by (intro mem_run.step[OF mem_run.start] mem_step.store memory_op.operator note_few)
  then have "mem_run note_env note_world1 note_world3"
    unfolding note_approve_def[of note_world2] by (rule mem_run.step) (intro mem_step.issue note_few)+
  then show ?thesis
    unfolding note_forget_def[of note_world3] note_forgetting_def by (rule mem_run.step) (intro mem_step.store memory_op.forget note_few)+
qed

subsection \<open>The theorems on memory at this history\<close>

lemma note_statusE:
  assumes "note_status w = Some st"
  obtains x where "snd (memory_inspect note_env (store_of w 0) (JStr ''p:q'') (JStr ''n1'')) = Inr x" "in_status x = st"
  using assms that by (auto simp: note_status_def split: sum.splits)

lemma note_trusted:
  obtains x where "note_query note_world2 = Inr [x]" "js_get (js_get x ''provenance'') ''trust'' = JStr ''trusted''"
  using note_facts(5) that by (auto simp: note_trusts_def split: sum.splits)

lemma note_limits: "(1::int) \<le> 5" "(5::int) \<le> MAX_LIMIT" "\<bar>note_at 4\<bar> \<le> 8640000000000000"
  by (simp_all add: MAX_LIMIT_def note_at_def)

theorem memory_lifecycle_witness:
  "\<exists>x y. snd (memory_inspect note_env (store_of note_world1 0) (JStr ''p:q'') (JStr ''n1'')) = Inr x \<and> in_status x = Active \<and>
     snd (memory_inspect note_env (store_of note_world4 0) (JStr ''p:q'') (JStr ''n1'')) = Inr y \<and> in_status y = Deleted \<and>
     in_content y = in_content x"
proof -
  obtain x where x: "snd (memory_inspect note_env (store_of note_world1 0) (JStr ''p:q'') (JStr ''n1'')) = Inr x" "in_status x = Active"
    by (rule note_statusE[OF note_facts(4)])
  obtain y where y: "snd (memory_inspect note_env (store_of note_world4 0) (JStr ''p:q'') (JStr ''n1'')) = Inr y" "in_status y = Deleted"
    by (rule note_statusE[OF note_facts(7)])
  show ?thesis
    using memory_lifecycle[OF note_fresh note_run1 note_run4 note_few(2,5) note_names(1,2) x(1), of 0] x y by fastforce
qed

lemma mem_run_trans: "mem_run env w v \<Longrightarrow> mem_run env u w \<Longrightarrow> mem_run env u v"
  by (induction rule: mem_run.induct) (auto intro: mem_run.step)

theorem deletion_approved_witness:
  "\<exists>u a. u \<in> set (ap_uses (mw_approvals note_world4)) \<and> select_approval (mw_approvals note_world4) (u_approval u) = Some a \<and>
     a_operation a = ''memory.delete:p:q:n1'' \<and> a_scope a = JObj [(''memory_id'', JStr ''n1''), (''project_id'', JStr ''p:q'')]"
proof -
  obtain y where y: "snd (memory_inspect note_env (store_of note_world4 0) (JStr ''p:q'') (JStr ''n1'')) = Inr y" "in_status y = Deleted"
    by (rule note_statusE[OF note_facts(7)])
  show ?thesis
    using deletion_approved[OF note_fresh mem_run_trans[OF note_run4 note_run1] note_few(5) note_names(1,2) y] by auto
qed

theorem retrieve_ranked_witness:
  "\<exists>rs ranked items. foldEvents note_env [] (log_read (mw_ledger note_world2) (MEMORY_AGGREGATE, ''p:q'')) = Inr rs \<and>
     mset ranked = mset (filter (retrievable True (note_at 4) (tokenize note_env ''cd'')) (map snd rs)) \<and>
     note_query note_world2 = Inr items \<and> length items = 1 \<and>
     map (\<lambda>x. (js_get x ''source_ref'', js_get x ''content'')) items = map (shown ''p:q'') (take 5 ranked)"
proof -
  obtain x where x: "note_query note_world2 = Inr [x]" by (rule note_trusted)
  show ?thesis
    using retrieve_ranked[OF note_fresh note_run2 note_few(3) note_names(1,3) note_limits, of True 0
        "Some (promotionAttestation (mw_approvals note_world2))" "JStr ''context''"] x
    unfolding note_query_def by fastforce
qed

theorem trusted_memory_approved_witness:
  "\<exists>a u. a \<in> set (ap_rows (mw_approvals note_world2)) \<and> a_decision a = ''approved'' \<and>
     u \<in> set (ap_uses (mw_approvals note_world2)) \<and> u_approval u = a_id a"
proof -
  obtain x where x: "note_query note_world2 = Inr [x]" "js_get (js_get x ''provenance'') ''trust'' = JStr ''trusted''" by (rule note_trusted)
  show ?thesis
    using trusted_memory_approved[OF note_fresh note_run2 note_few(3) note_names(1,3) note_limits x(1)[unfolded note_query_def] _ x(2)] by auto
qed

theorem colliding_deletion_refused_witness:
  "\<exists>m'. note_forgetting note_world3 = (m', Inr ()) \<and>
     isl (snd (memory_forget note_env m' (Some (operator_verifier ''memory.delete:p:q:n1'' ''ap3'' 0)) (JStr ''p'') (JStr ''q:n1'') JUndef note_operator 0))"
proof -
  obtain m' where m': "note_forgetting note_world3 = (m', Inr ())"
    using note_facts(6) by (cases "note_forgetting note_world3") (auto simp: note_done_def split: sum.splits)
  have "isl (snd (memory_forget note_env m' v (JStr ''p'') (JStr (''q'' @ '':'' @ ''n1'')) reason actor at))" for v reason actor at
  proof (rule colliding_deletion_refused)
    show "memory_forget note_env (store_of note_world3 0) (Some (operator_verifier (mo_id note_deletion) ''ap2'' (note_at 5)))
        (JStr (''p'' @ '':'' @ ''q'')) (JStr ''n1'') JUndef note_operator (note_at 5) = (m', Inr ())"
      using m' by (simp add: note_forgetting_def)
    show "uses_grow (mm_approvals m') (mm_approvals m')" by (simp add: uses_grow_def)
  qed
  then show ?thesis using m' by simp
qed

theorem memory_context_accepted_witness:
  "\<exists>x. note_query note_world2 = Inr [x] \<and> resolveSourceAuthority note_sha ''memory'' x JNull =
     Inr \<lparr>rs_authority = JStr ''data'', rs_provenance = js_get x ''provenance'', rs_declared = True\<rparr> \<and>
     js_get (js_get x ''provenance'') ''trust'' = JStr ''trusted''"
proof -
  obtain x where x: "note_query note_world2 = Inr [x]" "js_get (js_get x ''provenance'') ''trust'' = JStr ''trusted''" by (rule note_trusted)
  show ?thesis
    using memory_context_accepted[OF note_fresh note_run2 note_few(3) note_names(1,3) note_limits x(1)[unfolded note_query_def]] x
    by (simp add: note_env_def)
qed

subsection \<open>The authority of a small context\<close>

definition note_text :: "string \<Rightarrow> string \<Rightarrow> js" where
  "note_text ref text = JObj [(''source_ref'', JStr ref), (''content'', JStr text)]"

definition note_context :: js where
  "note_context = JObj [(''occurred_at'', JStr ''2026-01-01T00:00:00.000Z''),
     (''instructions'', JObj [(''constitution'', JArr [note_text ''c'' ''be safe'']), (''project'', JArr [note_text ''d'' ''be quick''])]),
     (''runtime_context'', JArr []), (''references'', JArr [note_text ''e'' ''see'']), (''memory'', JArr []), (''media'', JArr []),
     (''current_turn'', JObj [(''source_ref'', JStr ''t''), (''message'', JObj [(''content'', JStr ''hello'')])])]"

definition note_resolved :: "(string \<times> resolved_source) option" where
  "note_resolved = (case resolveInputAuthority note_sha note_context of Inr (resolved, v2) \<Rightarrow> map_of resolved (JStr ''c'') | Inl e \<Rightarrow> None)"

lemma note_resolves: "case note_resolved of Some (layer, r) \<Rightarrow> rs_authority r = JStr ''directive'' | None \<Rightarrow> False"
  by code_simp

theorem context_authority_bounded_witness:
  "\<exists>source (r :: resolved_source). (''instructions'', source) \<in> set (layered_sources note_context) \<and> js_get source ''source_ref'' = JStr ''c'' \<and>
     rs_authority r = JStr ''directive'' \<and> js_get (rs_provenance r) ''digest'' = JStr (note_sha (sourceText source))"
proof -
  obtain resolved v2 layer r where r: "resolveInputAuthority note_sha note_context = Inr (resolved, v2)" "map_of resolved (JStr ''c'') = Some (layer, r)"
    "rs_authority r = JStr ''directive''"
    using note_resolves unfolding note_resolved_def by (auto split: sum.splits option.splits)
  obtain source where s: "(layer, source) \<in> set (layered_sources note_context)" "js_get source ''source_ref'' = JStr ''c''"
    "admitted note_sha layer source r"
    using context_authority_bounded[OF r(1,2)] by blast
  then have "layer = ''instructions''" "js_get (rs_provenance r) ''digest'' = JStr (note_sha (sourceText source))"
    using r(3) by (auto simp: admitted_def Let_def)
  then show ?thesis using s(1,2) r(3) by (intro exI[of _ source] exI[of _ r]) simp
qed

end
