(* ===== verification/Compaction.thy ===== *)
theory Compaction
  imports Replay
begin

text \<open>
  The compaction runtime, \<open>packages/agent-compaction/runtime.js\<close>, with the immutable checkpoint store of
  \<open>checkpoint-provider.js\<close> and the provider lookup of \<open>provider-registry.js\<close>. A compaction provider is a port: its
  answer to the \<open>n\<close>-th call is any result or error. The contract schemas are parameters: \<open>cx_schema\<close> is \<open>parseContract\<close>,
  \<open>cx_input\<close> is \<open>validatePortInput\<close> and \<open>cx_result\<close> is \<open>validatePortResult\<close>, by the name of the contract or of the
  method.
\<close>

subsection \<open>Providers and checkpoints\<close>

record compaction_entry =
  cy_manifest :: js
  cy_assess :: "js \<Rightarrow> js res"
  cy_compact :: "nat \<Rightarrow> js \<Rightarrow> js res"

record compaction_env =
  cx_sha :: "string \<Rightarrow> string"
  cx_schema :: "string \<Rightarrow> js \<Rightarrow> js res"
  cx_input :: "string \<Rightarrow> js \<Rightarrow> js res"
  cx_result :: "string \<Rightarrow> js \<Rightarrow> js \<Rightarrow> js res"
  cx_providers :: "(js \<times> compaction_entry) list"
  cx_checkpoint_id :: js

record compaction_state =
  cz_records :: "(string \<times> js) list"
  cz_calls :: nat

definition registry_error :: "string \<Rightarrow> string \<Rightarrow> jserr" where
  "registry_error message code = mk_err code message"

definition resolve_provider :: "compaction_env \<Rightarrow> js \<Rightarrow> js option \<Rightarrow> compaction_entry res" where
  "resolve_provider env provider strategy =
     (case map_of (cx_providers env) provider of
        None \<Rightarrow> Inl (registry_error ''provider is absent from this snapshot'' ''COMPACTION_PROVIDER_NOT_FOUND'')
      | Some entry \<Rightarrow>
          (case strategy of
             Some k \<Rightarrow>
               if k \<in> set (fitems (cy_manifest entry) ''strategies'') then Inr entry
               else Inl (registry_error ''provider does not declare the strategy'' ''COMPACTION_STRATEGY_NOT_FOUND'')
           | None \<Rightarrow> Inr entry))"

definition checkpoint_provider_error :: "string \<Rightarrow> string \<Rightarrow> jserr" where
  "checkpoint_provider_error message code = mk_err code message"

definition checkpoint_key :: "js \<Rightarrow> string" where
  "checkpoint_key input = js_show (js_get input ''session_id'') @ CHR 0x00 # js_show (js_get input ''checkpoint_id'')"

definition checkpoint_identity :: "compaction_env \<Rightarrow> js \<Rightarrow> unit res" where
  "checkpoint_identity env input =
     guards [(js_get input ''provider_id'' \<noteq> cx_checkpoint_id env,
       checkpoint_provider_error ''checkpoint provider identity mismatch'' ''CHECKPOINT_PROVIDER_INVALID'')]"

definition checkpoint_record :: "compaction_env \<Rightarrow> js \<Rightarrow> js" where
  "checkpoint_record env input =
     JObj [(''schema_version'', JNum 1), (''provider_id'', cx_checkpoint_id env), (''checkpoint_id'', js_get input ''checkpoint_id''),
       (''session_id'', js_get input ''session_id''),
       (''checkpoint_ref'', JStr (''checkpoint://'' @ js_show (cx_checkpoint_id env) @ ''/'' @ js_show (js_get input ''session_id'') @ ''/'' @
          js_show (js_get input ''checkpoint_id''))),
       (''payload_digest'', JStr (digest (cx_sha env) (js_get input ''payload''))), (''payload'', js_get input ''payload'')]"

definition checkpoint_put :: "compaction_env \<Rightarrow> compaction_state \<Rightarrow> js \<Rightarrow> compaction_state \<times> js res" where
  "checkpoint_put env st value =
     (case bind_res (cx_input env ''CheckpointProvider.put'' value) (\<lambda>input.
             bind_res (checkpoint_identity env input) (\<lambda>_. Inr input)) of
        Inl e \<Rightarrow> (st, Inl e)
      | Inr input \<Rightarrow>
          let new = checkpoint_record env input in
          (case map_of (cz_records st) (checkpoint_key input) of
             Some current \<Rightarrow>
               (st, if \<not> same_json current new
                    then Inl (checkpoint_provider_error ''checkpoint id is immutable'' ''CHECKPOINT_IMMUTABLE_CONFLICT'')
                    else cx_result env ''CheckpointProvider.put'' current input)
           | None \<Rightarrow>
               (st\<lparr>cz_records := cz_records st @ [(checkpoint_key input, new)]\<rparr>,
                cx_result env ''CheckpointProvider.put'' new input)))"

definition checkpoint_get :: "compaction_env \<Rightarrow> compaction_state \<Rightarrow> js \<Rightarrow> js res" where
  "checkpoint_get env st value =
     bind_res (cx_input env ''CheckpointProvider.get'' value) (\<lambda>input.
     bind_res (checkpoint_identity env input) (\<lambda>_.
     case map_of (cz_records st) (checkpoint_key input) of
       None \<Rightarrow> Inl (checkpoint_provider_error ''checkpoint is not found'' ''CHECKPOINT_NOT_FOUND'')
     | Some current \<Rightarrow> cx_result env ''CheckpointProvider.get'' current input))"

subsection \<open>The runtime\<close>

definition compaction_error :: "string \<Rightarrow> string \<Rightarrow> jserr" where
  "compaction_error message code = mk_err code message"

definition assess :: "compaction_env \<Rightarrow> js \<Rightarrow> js res" where
  "assess env value =
     bind_res (resolve_provider env (js_get value ''provider_id'') None) (\<lambda>entry.
     bind_res (cy_assess entry value) (\<lambda>result.
     cx_result env ''CompactionProvider.assess'' result value))"

definition checkpoint_request :: "compaction_env \<Rightarrow> js \<Rightarrow> fields \<Rightarrow> js" where
  "checkpoint_request env input extra =
     JObj ([(''schema_version'', JNum 1), (''provider_id'', cx_checkpoint_id env), (''checkpoint_id'', js_get input ''compaction_id''),
       (''session_id'', js_get input ''session_id'')] @ extra)"

definition recover_checkpoint :: "compaction_env \<Rightarrow> compaction_state \<Rightarrow> js \<Rightarrow> js option \<times> js res" where
  "recover_checkpoint env st input =
     (let request = checkpoint_request env input [] in
      case bind_res (checkpoint_get env st request) (\<lambda>c. cx_result env ''CheckpointProvider.get'' c request) of
        Inl e \<Rightarrow> (None, Inl e)
      | Inr c \<Rightarrow> (Some c, cx_schema env ''compaction checkpoint payload'' (js_get c ''payload'')))"

definition call_provider :: "compaction_env \<Rightarrow> compaction_state \<Rightarrow> compaction_entry \<Rightarrow> js \<Rightarrow> compaction_state \<times> js res" where
  "call_provider env st entry input =
     (st\<lparr>cz_calls := Suc (cz_calls st)\<rparr>,
      case bind_res (cy_compact entry (cz_calls st) input) (\<lambda>r. cx_result env ''CompactionProvider.compact'' r input) of
        Inl e \<Rightarrow> Inl (compaction_error ''compaction provider failed'' ''COMPACTION_PROVIDER_FAILED'')
      | Inr r \<Rightarrow> Inr r)"

definition obtain_result ::
    "compaction_env \<Rightarrow> compaction_state \<Rightarrow> compaction_entry \<Rightarrow> js \<Rightarrow> compaction_state \<times> (js option \<times> js) res" where
  "obtain_result env st entry input =
     (case recover_checkpoint env st input of
        (c, Inr result) \<Rightarrow> (st, Inr (c, result))
      | (c, Inl e) \<Rightarrow>
          if err_code e \<noteq> ''CHECKPOINT_NOT_FOUND''
          then (st, Inl (compaction_error ''checkpoint recovery failed closed'' ''COMPACTION_CHECKPOINT_RECOVERY_FAILED''))
          else (case call_provider env st entry input of
                  (st1, Inl e') \<Rightarrow> (st1, Inl e')
                | (st1, Inr result) \<Rightarrow> (st1, Inr (c, result))))"

definition json_bytes :: "js list \<Rightarrow> int" where
  "json_bytes vs = int (length (canonicalJson (JArr vs)))"

definition source_messages :: "js \<Rightarrow> js list" where
  "source_messages input = map (\<lambda>s. js_get s ''message'') (fitems input ''sources'')"

definition identity_changed :: "js \<Rightarrow> js \<Rightarrow> bool" where
  "identity_changed input result \<longleftrightarrow>
     list_ex (\<lambda>k. js_get result k \<noteq> js_get input k) [''provider_id'', ''compaction_id'', ''trigger'', ''strategy'']"

definition false_accounting :: "js \<Rightarrow> js \<Rightarrow> bool" where
  "false_accounting input result \<longleftrightarrow>
     (let before = js_get result ''before''; after = js_get result ''after'';
          before_bytes = json_bytes (source_messages input); after_bytes = json_bytes (fitems result ''replacement_messages'') in
      js_get before ''message_count'' \<noteq> JNum (int (length (fitems input ''sources''))) \<or>
      js_get before ''bytes'' \<noteq> JNum before_bytes \<or> js_get before ''tokens'' \<noteq> JNum before_bytes \<or>
      js_get after ''message_count'' \<noteq> JNum (int (length (fitems result ''replacement_messages''))) \<or>
      js_get after ''bytes'' \<noteq> JNum after_bytes \<or> js_get after ''tokens'' \<noteq> JNum after_bytes)"

definition check_result :: "compaction_env \<Rightarrow> compaction_entry \<Rightarrow> js \<Rightarrow> js \<Rightarrow> unit res" where
  "check_result env entry input result =
     guards [
       (identity_changed input result, compaction_error ''compaction result identity mismatch'' ''COMPACTION_IDENTITY_MISMATCH''),
       (js_get result ''source_digest'' \<noteq> JStr (digest (cx_sha env) (js_get input ''sources'')),
        compaction_error ''provider result does not bind the exact sources'' ''COMPACTION_SOURCE_DIGEST_MISMATCH''),
       (false_accounting input result,
        compaction_error ''provider byte or message accounting is false'' ''COMPACTION_ACCOUNTING_MISMATCH''),
       (fint (cy_manifest entry) ''max_output_bytes'' < json_bytes (fitems result ''replacement_messages''),
        compaction_error ''compaction output exceeds provider manifest cap'' ''COMPACTION_OUTPUT_CAP_EXCEEDED''),
       (js_get input ''strategy'' = JStr ''tool_result_prune'' \<and>
          \<not> same_json (JArr (map (\<lambda>m. js_get m ''tool_call_id'') (fitems result ''replacement_messages'')))
             (JArr (map (\<lambda>m. js_get m ''tool_call_id'') (source_messages input))),
        compaction_error ''tool replacements changed call identity or ordering'' ''COMPACTION_TOOL_IDENTITY_MISMATCH'')]"

definition keep_checkpoint ::
    "compaction_env \<Rightarrow> compaction_state \<Rightarrow> js \<Rightarrow> js option \<Rightarrow> js \<Rightarrow> compaction_state \<times> js res" where
  "keep_checkpoint env st input found result =
     (let request = checkpoint_request env input [(''payload'', result)];
          (st1, kept) = (case found of
             Some c \<Rightarrow> (st, Inr c)
           | None \<Rightarrow>
               (case checkpoint_put env st request of
                  (st1, r) \<Rightarrow> (st1, bind_res r (\<lambda>c. cx_result env ''CheckpointProvider.put'' c request)))) in
      (st1,
       bind_res kept (\<lambda>c.
       bind_res (guards [(js_get c ''payload_digest'' \<noteq> JStr (digest (cx_sha env) result) \<or> \<not> same_json (js_get c ''payload'') result,
         compaction_error ''checkpoint provider did not preserve the exact payload'' ''CHECKPOINT_PAYLOAD_MISMATCH'')]) (\<lambda>_.
       Inr c))))"

definition compaction_record :: "compaction_env \<Rightarrow> compaction_entry \<Rightarrow> js \<Rightarrow> js list \<Rightarrow> js \<Rightarrow> js \<Rightarrow> js" where
  "compaction_record env entry input retained checkpoint result =
     JObj [(''compaction_id'', js_get result ''compaction_id''), (''turn_id'', js_get input ''turn_id''),
       (''provider_id'', js_get result ''provider_id''), (''provider_manifest'', cy_manifest entry),
       (''checkpoint_provider_id'', cx_checkpoint_id env), (''trigger'', js_get result ''trigger''),
       (''strategy'', js_get result ''strategy''), (''checkpoint_ref'', js_get checkpoint ''checkpoint_ref''),
       (''source_event_ids'', JArr (map (\<lambda>s. js_get s ''source_event_id'') (fitems input ''sources''))),
       (''retained_source_event_ids'', JArr retained), (''source_digest'', js_get result ''source_digest''),
       (''replacement_messages'', js_get result ''replacement_messages''), (''before'', js_get result ''before''),
       (''after'', js_get result ''after''), (''pruned_tool_call_ids'', js_get result ''pruned_tool_call_ids'')]"

text \<open>
  What a call of \<open>compact\<close> ends with. \<open>Rejected\<close> is the runtime error with the code
  \<open>COMPACTION_REPLACEMENT_REJECTED\<close>, which the assembler catches. The callback of the caller may throw, refuse or
  accept; what it keeps on acceptance is returned with the record.
\<close>

datatype 'a compact_outcome = Compacted js 'a | Rejected | Failed jserr

definition compact ::
    "compaction_env \<Rightarrow> compaction_state \<Rightarrow> js \<Rightarrow> js list \<Rightarrow> (js \<Rightarrow> 'a option res) \<Rightarrow> compaction_state \<times> 'a compact_outcome" where
  "compact env st value retained accept_result =
     (case bind_res (cx_schema env ''compaction runtime input'' value) (\<lambda>input.
             bind_res (resolve_provider env (js_get input ''provider_id'') (Some (js_get input ''strategy''))) (\<lambda>entry.
             bind_res (guards [(fint (cy_manifest entry) ''max_input_bytes'' < json_bytes (source_messages input),
               compaction_error ''compaction input exceeds provider manifest cap'' ''COMPACTION_INPUT_CAP_EXCEEDED'')]) (\<lambda>_.
             Inr (input, entry)))) of
        Inl e \<Rightarrow> (st, Failed e)
      | Inr (input, entry) \<Rightarrow>
          (case obtain_result env st entry input of
             (st1, Inl e) \<Rightarrow> (st1, Failed e)
           | (st1, Inr (found, result)) \<Rightarrow>
               (case bind_res (check_result env entry input result) (\<lambda>_. accept_result result) of
                  Inl e \<Rightarrow> (st1, Failed e)
                | Inr None \<Rightarrow> (st1, Rejected)
                | Inr (Some kept) \<Rightarrow>
                    (case keep_checkpoint env st1 input found result of
                       (st2, Inl e) \<Rightarrow> (st2, Failed e)
                     | (st2, Inr c) \<Rightarrow> (st2, Compacted (compaction_record env entry input retained c result) kept)))))"

end
