(* ===== verification/ContextBudget.thy ===== *)
theory ContextBudget
  imports ContextCompose Compaction
begin

text \<open>
  The budget of a model request, the second half of \<open>packages/agent-context/context-assembler.js\<close>: what is
  required must fit; what is optional is left out greedily, replaced by a compaction of the older history, or
  refused, by the overflow policy; and a compaction that is already durable is reused.
\<close>

subsection \<open>Selecting optional context\<close>

definition budget_error :: "string \<Rightarrow> jserr" where
  "budget_error message = mk_err ''AGENT_CONTEXT_BUDGET_EXCEEDED'' message"

definition assembly_error :: "string \<Rightarrow> string \<Rightarrow> jserr" where
  "assembly_error message code = mk_err code message"

text \<open>The newest history first; after the first entry that does not fit every older one is left out.\<close>

fun select_history ::
    "token_counter \<Rightarrow> context_input \<Rightarrow> int \<Rightarrow> history_item list \<Rightarrow> history_item list \<Rightarrow> (history_item list \<times> string list) res" where
  "select_history counter input limit chosen [] = Inr (chosen, [])"
| "select_history counter input limit chosen (h # hs) =
     bind_res (compose counter input (chosen @ [h]) [] (ci_required input)) (\<lambda>candidate.
     if input_tokens candidate \<le> limit then select_history counter input limit (chosen @ [h]) hs
     else Inr (chosen, map hi_ref (h # hs)))"

fun select_memory ::
    "token_counter \<Rightarrow> context_input \<Rightarrow> int \<Rightarrow> history_item list \<Rightarrow> js list \<Rightarrow> js list \<Rightarrow> (js list \<times> string list) res" where
  "select_memory counter input limit history chosen [] = Inr (chosen, [])"
| "select_memory counter input limit history chosen (m # ms) =
     bind_res (compose counter input history (chosen @ [m]) (ci_required input)) (\<lambda>candidate.
     if input_tokens candidate \<le> limit then select_memory counter input limit history (chosen @ [m]) ms
     else bind_res (select_memory counter input limit history chosen ms) (\<lambda>(kept, omitted). Inr (kept, fref m # omitted)))"

fun select_media ::
    "token_counter \<Rightarrow> context_input \<Rightarrow> int \<Rightarrow> history_item list \<Rightarrow> js list \<Rightarrow> js list \<Rightarrow> js list \<Rightarrow> (js list \<times> string list) res" where
  "select_media counter input limit history memory chosen [] = Inr (chosen, [])"
| "select_media counter input limit history memory chosen (m # ms) =
     (if js_get m ''source_ref'' \<in> (\<lambda>r. js_get r ''source_ref'') ` set (ci_required input)
      then select_media counter input limit history memory chosen ms
      else bind_res (compose counter input history memory (chosen @ [m])) (\<lambda>candidate.
        if input_tokens candidate \<le> limit then select_media counter input limit history memory (chosen @ [m]) ms
        else bind_res (select_media counter input limit history memory chosen ms) (\<lambda>(kept, omitted). Inr (kept, fref m # omitted))))"

record selection =
  sl_history :: "history_item list"
  sl_memory :: "js list"
  sl_media :: "js list"
  sl_omitted :: "string list"

definition selectOptional :: "token_counter \<Rightarrow> context_input \<Rightarrow> int \<Rightarrow> selection res" where
  "selectOptional counter input limit =
     bind_res (select_history counter input limit [] (rev (orderedHistory (ci_history input)))) (\<lambda>(history, older).
     bind_res (select_memory counter input limit history [] (orderedMemory (fitems (ci_input input) ''memory''))) (\<lambda>(memory, unread).
     bind_res (select_media counter input limit history memory (ci_required input) (orderedMemory (fitems (ci_input input) ''media''))) (\<lambda>(media, unseen).
     Inr \<lparr>sl_history = history, sl_memory = memory, sl_media = media, sl_omitted = older @ unread @ unseen\<rparr>)))"

subsection \<open>Results\<close>

record limits =
  lm_context :: int
  lm_input :: int
  lm_reserved :: int

record budgeted =
  bd_composition :: composition
  bd_omitted :: "string list"
  bd_limits :: limits
  bd_compaction :: "js option"

definition sort_refs :: "string list \<Rightarrow> string list" where
  "sort_refs refs = sort_key code_units refs"

definition context_limits :: "js \<Rightarrow> js \<Rightarrow> int \<Rightarrow> limits res" where
  "context_limits doc manifest remaining =
     (let context_limit = min (fint (js_get manifest ''limits'') ''context_tokens'') remaining;
          reserved = fint (js_get doc ''parameters'') ''max_output_tokens'' in
      bind_res (guards [
        (context_limit < 1, budget_error ''session token budget is exhausted''),
        (fint (js_get manifest ''limits'') ''max_output_tokens'' < reserved \<or> context_limit < reserved,
         budget_error ''reserved output exceeds provider or session limits'')]) (\<lambda>_.
      Inr \<lparr>lm_context = context_limit, lm_input = context_limit - reserved, lm_reserved = reserved\<rparr>))"

definition omitted_memory :: "js list \<Rightarrow> js list \<Rightarrow> string list" where
  "omitted_memory memory retained = map fref (filter (\<lambda>m. \<not> list_ex (\<lambda>r. js_get r ''source_ref'' = js_get m ''source_ref'') retained) memory)"

definition omitted_media :: "context_input \<Rightarrow> js list \<Rightarrow> string list" where
  "omitted_media input selected = map fref (filter (\<lambda>m. m \<notin> set selected) (fitems (ci_input input) ''media''))"

subsection \<open>Resuming a durable compaction\<close>

function trim_memory ::
    "token_counter \<Rightarrow> context_input \<Rightarrow> history_item list \<Rightarrow> js list \<Rightarrow> int \<Rightarrow> js list \<Rightarrow> (js list \<times> string list) res" where
  "trim_memory counter input history media limit memory =
     (if memory = [] then Inr ([], [])
      else bind_res (compose counter input history memory media) (\<lambda>c.
        if input_tokens c \<le> limit then Inr (memory, [])
        else bind_res (trim_memory counter input history media limit (butlast memory)) (\<lambda>(kept, omitted).
          Inr (kept, fref (last memory) # omitted))))"
  by pat_completeness auto
termination
  by (relation "measure (\<lambda>(counter, input, history, media, limit, memory). length memory)") auto

declare trim_memory.simps [simp del]

definition first_or_undef :: "js list \<Rightarrow> js" where
  "first_or_undef xs = (case xs of [] \<Rightarrow> JUndef | x # _ \<Rightarrow> x)"

definition replacement_item :: "string \<Rightarrow> history_item list \<Rightarrow> js \<Rightarrow> history_item" where
  "replacement_item event compacted message =
     \<lparr>hi_event = event, hi_ref = event_ref event, hi_sequence = hi_sequence (hd compacted), hi_message = message\<rparr>"

definition resumeRecordedCompaction ::
    "token_counter \<Rightarrow> context_input \<Rightarrow> js \<Rightarrow> limits \<Rightarrow> budgeted res" where
  "resumeRecordedCompaction counter input recorded limits =
     (let doc = ci_input input;
          compacted = filter (\<lambda>h. hi_event h \<in> set (ftexts recorded ''source_event_ids'')) (orderedHistory (ci_history input));
          retained = filter (\<lambda>h. hi_event h \<in> set (ftexts recorded ''retained_source_event_ids'')) (orderedHistory (ci_history input)) in
      bind_res (guards [(js_get recorded ''compaction_id'' \<noteq> js_get doc ''compaction_id'' \<or>
          js_get recorded ''provider_id'' \<noteq> js_get doc ''compaction_provider_id'' \<or>
          js_get recorded ''event_id'' \<noteq> js_get doc ''compaction_event_id'',
        assembly_error ''durable compaction differs from the requested compaction identity'' ''AGENT_CONTEXT_COMPACTION_MISMATCH''),
        (compacted = [], type_error)]) (\<lambda>_.
      let history = replacement_item (ftext recorded ''event_id'') compacted (first_or_undef (fitems recorded ''replacement_messages'')) # retained in
      bind_res (selectOptional counter input (lm_input limits)) (\<lambda>sel.
      let start = orderedMemory (sl_memory sel) in
      bind_res (trim_memory counter input history (sl_media sel) (lm_input limits) start) (\<lambda>(memory, trimmed).
      bind_res (compose counter input history memory (sl_media sel)) (\<lambda>c.
      bind_res (guards [(lm_input limits < input_tokens c,
        budget_error ''recorded compaction replacement cannot fit the model input budget'')]) (\<lambda>_.
      Inr \<lparr>bd_composition = c,
           bd_omitted = sort_refs (map hi_ref compacted @ omitted_memory (fitems doc ''memory'') start @ trimmed @ omitted_media input (sl_media sel)),
           bd_limits = limits, bd_compaction = None\<rparr>))))))"

subsection \<open>Compacting\<close>

definition compaction_request :: "context_input \<Rightarrow> history_item list \<Rightarrow> int \<Rightarrow> js" where
  "compaction_request input compacted target =
     (let doc = ci_input input in
      JObj [(''schema_version'', JNum 1), (''provider_id'', js_get doc ''compaction_provider_id''), (''compaction_id'', js_get doc ''compaction_id''),
        (''session_id'', js_get (js_get doc ''session'') ''session_id''), (''turn_id'', js_get doc ''turn_id''),
        (''trigger'', JStr ''context_pressure''), (''strategy'', JStr ''history_summary''), (''target_tokens'', JNum target),
        (''sources'', JArr (map history_js compacted))])"

definition pressure_request :: "context_input \<Rightarrow> int \<Rightarrow> int \<Rightarrow> js" where
  "pressure_request input tokens limit =
     (let doc = ci_input input in
      JObj [(''schema_version'', JNum 1), (''provider_id'', js_get doc ''compaction_provider_id''),
        (''session_id'', js_get (js_get doc ''session'') ''session_id''), (''turn_id'', js_get doc ''turn_id''),
        (''trigger'', JStr ''context_pressure''), (''input_tokens'', JNum tokens), (''input_limit_tokens'', JNum limit)])"

definition accept_replacement ::
    "token_counter \<Rightarrow> context_input \<Rightarrow> int \<Rightarrow> history_item list \<Rightarrow> history_item list \<Rightarrow> js list \<Rightarrow> js list \<Rightarrow> js \<Rightarrow> composition option res" where
  "accept_replacement counter input limit compacted retained memory media result =
     bind_res (compose counter input
       (replacement_item (ftext (ci_input input) ''compaction_event_id'') compacted (first_or_undef (fitems result ''replacement_messages'')) #
        retained) memory media) (\<lambda>candidate.
     Inr (if limit < input_tokens candidate then None else Some candidate))"

text \<open>One attempt, then what the next one gives up: a memory from the end, then the oldest retained history.\<close>

fun compact_loop ::
    "token_counter \<Rightarrow> compaction_env \<Rightarrow> context_input \<Rightarrow> int \<Rightarrow> js list \<Rightarrow> nat \<Rightarrow> compaction_state \<Rightarrow>
     history_item list \<Rightarrow> js list \<Rightarrow> history_item list \<Rightarrow> string list \<Rightarrow>
     compaction_state \<times> (composition \<times> js \<times> history_item list \<times> string list) res" where
  "compact_loop counter env input limit media 0 st retained memory compacted omitted =
     (st, Inl (budget_error ''compaction did not converge within bounded attempts''))"
| "compact_loop counter env input limit media (Suc n) st retained memory compacted omitted =
     (case compose counter input retained memory media of
        Inl e \<Rightarrow> (st, Inl e)
      | Inr without \<Rightarrow>
          (case compact env st (compaction_request input compacted (max 1 (limit - input_tokens without)))
                  (map (\<lambda>h. JStr (hi_event h)) retained)
                  (accept_replacement counter input limit compacted retained memory media) of
             (st1, Failed e) \<Rightarrow> (st1, Inl e)
           | (st1, Compacted record_js c) \<Rightarrow> (st1, Inr (c, record_js, compacted, omitted))
           | (st1, Rejected) \<Rightarrow>
               if memory \<noteq> []
               then compact_loop counter env input limit media n st1 retained (butlast memory) compacted (omitted @ [fref (last memory)])
               else (case retained of
                       h # hs \<Rightarrow> compact_loop counter env input limit media n st1 hs memory (orderedHistory (compacted @ [h])) omitted
                     | [] \<Rightarrow> (st1, Inl (budget_error ''compaction replacement cannot fit the model input budget'')))))"

definition older_history :: "context_input \<Rightarrow> selection \<Rightarrow> history_item list" where
  "older_history input sel =
     filter (\<lambda>h. \<not> list_ex (\<lambda>r. hi_event r = hi_event h) (sl_history sel)) (orderedHistory (ci_history input))"

definition compact_context ::
    "token_counter \<Rightarrow> compaction_env \<Rightarrow> context_input \<Rightarrow> limits \<Rightarrow> int \<Rightarrow> selection \<Rightarrow> compaction_state \<Rightarrow> compaction_state \<times> budgeted res" where
  "compact_context counter env input limits tokens sel st =
     (let start = orderedMemory (sl_memory sel); memory = fitems (ci_input input) ''memory'' in
      case bind_res (assess env (pressure_request input tokens (lm_input limits))) (\<lambda>pressure.
             guards [(\<not> js_truthy (js_get pressure ''should_compact''),
               budget_error ''compaction provider declined an over-budget request'')]) of
        Inl e \<Rightarrow> (st, Inl e)
      | Inr _ \<Rightarrow>
          (case compact_loop counter env input (lm_input limits) (sl_media sel) (Suc (length (ci_history input) + length memory)) st
                  (orderedHistory (sl_history sel)) start (older_history input sel) (omitted_memory memory start) of
             (st1, Inl e) \<Rightarrow> (st1, Inl e)
           | (st1, Inr (c, record_js, compacted, omitted)) \<Rightarrow>
               (st1, Inr \<lparr>bd_composition = c,
                          bd_omitted = sort_refs (map hi_ref compacted @ omitted @ omitted_media input (sl_media sel)),
                          bd_limits = limits, bd_compaction = Some record_js\<rparr>)))"

definition fit_context ::
    "token_counter \<Rightarrow> compaction_env option \<Rightarrow> context_input \<Rightarrow> limits \<Rightarrow> compaction_state \<Rightarrow> composition \<Rightarrow> compaction_state \<times> budgeted res" where
  "fit_context counter runtime input limits st complete =
     (case selectOptional counter input (lm_input limits) of
        Inl e \<Rightarrow> (st, Inl e)
      | Inr sel \<Rightarrow>
          (case compose counter input (sl_history sel) (sl_memory sel) (sl_media sel) of
             Inl e \<Rightarrow> (st, Inl e)
           | Inr c \<Rightarrow>
               let ordinary = \<lparr>bd_composition = c, bd_omitted = sort_refs (sl_omitted sel), bd_limits = limits, bd_compaction = None\<rparr> in
               if js_get (ci_input input) ''overflow_policy'' \<noteq> JStr ''compact'' then (st, Inr ordinary)
               else (case runtime of
                       None \<Rightarrow> (st, Inl (budget_error ''compact overflow policy requires a compaction runtime''))
                     | Some env \<Rightarrow>
                         if older_history input sel = [] then (st, Inr ordinary)
                         else compact_context counter env input limits (input_tokens complete) sel st)))"

definition budget ::
    "token_counter \<Rightarrow> compaction_env option \<Rightarrow> context_input \<Rightarrow> js \<Rightarrow> int \<Rightarrow> js option \<Rightarrow> compaction_state \<Rightarrow> compaction_state \<times> budgeted res" where
  "budget counter runtime input manifest remaining recorded st =
     (let doc = ci_input input in
      case bind_res (context_limits doc manifest remaining) (\<lambda>limits.
             bind_res (compose counter input [] [] (ci_required input)) (\<lambda>base.
             bind_res (guards [(lm_input limits < input_tokens base,
               budget_error ''required model context exceeds the input budget'')]) (\<lambda>_. Inr limits))) of
        Inl e \<Rightarrow> (st, Inl e)
      | Inr limits \<Rightarrow>
          (case recorded of
             Some r \<Rightarrow> (st, resumeRecordedCompaction counter input r limits)
           | None \<Rightarrow>
               (case compose counter input (ci_history input) (fitems doc ''memory'') (fitems doc ''media'') of
                  Inl e \<Rightarrow> (st, Inl e)
                | Inr complete \<Rightarrow>
                    if input_tokens complete \<le> lm_input limits
                    then (st, Inr \<lparr>bd_composition = complete, bd_omitted = [], bd_limits = limits, bd_compaction = None\<rparr>)
                    else if js_get doc ''overflow_policy'' = JStr ''reject''
                    then (st, Inl (budget_error ''complete model context exceeds the input budget''))
                    else fit_context counter runtime input limits st complete)))"

end
