(* ===== verification/ContextFits.thy ===== *)
theory ContextFits
  imports ContextBudget "HOL-Library.Sublist"
begin

text \<open>
  What the budget promises: the request it returns fits both limits, every optional source is either in the
  request or reported as omitted, the visible history is the newest part of the durable one, and the compaction
  loop always ends by itself.
\<close>

subsection \<open>Everything returned fits\<close>

definition fits :: "token_counter \<Rightarrow> context_input \<Rightarrow> int \<Rightarrow> history_item list \<Rightarrow> js list \<Rightarrow> js list \<Rightarrow> bool" where
  "fits counter input limit history memory media \<longleftrightarrow> (\<exists>c. compose counter input history memory media = Inr c \<and> input_tokens c \<le> limit)"

lemma select_history_fits:
  assumes "select_history counter input limit chosen hs = Inr (kept, omitted)" "fits counter input limit chosen [] (ci_required input)"
  shows "fits counter input limit kept [] (ci_required input)"
  using assms by (induction hs arbitrary: chosen) (auto simp: fits_def split: if_splits)

lemma select_memory_fits:
  assumes "select_memory counter input limit history chosen ms = Inr (kept, omitted)" "fits counter input limit history chosen (ci_required input)"
  shows "fits counter input limit history kept (ci_required input)"
  using assms by (induction ms arbitrary: chosen omitted) (auto simp: fits_def split: if_splits)

lemma select_media_fits:
  assumes "select_media counter input limit history memory chosen ms = Inr (kept, omitted)" "fits counter input limit history memory chosen"
  shows "fits counter input limit history memory kept"
  using assms by (induction ms arbitrary: chosen omitted) (auto simp: fits_def split: if_splits)

lemma selectOptional_fits:
  assumes "selectOptional counter input limit = Inr sel" "fits counter input limit [] [] (ci_required input)"
  shows "fits counter input limit (sl_history sel) (sl_memory sel) (sl_media sel)"
  using assms by (auto simp: selectOptional_def dest!: select_history_fits select_memory_fits select_media_fits)

lemma compact_accepts:
  assumes "compact env st value retained accept_result = (st', Compacted record_js c)"
  shows "\<exists>result. accept_result result = Inr (Some c)"
  using assms by (auto simp: compact_def split: sum.splits prod.splits option.splits)

lemma compact_loop_fits:
  assumes "compact_loop counter env input limit media n st retained memory compacted omitted = (st', Inr (c, record_js, compacted', omitted'))"
  shows "\<exists>history memory. compose counter input history memory media = Inr c \<and> input_tokens c \<le> limit"
  using assms
proof (induction n arbitrary: st retained memory compacted omitted)
  case (Suc n)
  then show ?case
    by (fastforce simp: accept_replacement_def split: sum.splits prod.splits compact_outcome.splits if_splits list.splits dest!: compact_accepts)
qed simp

lemma resume_fits:
  assumes "resumeRecordedCompaction counter input recorded limits = Inr b"
  shows "\<exists>history memory media. compose counter input history memory media = Inr (bd_composition b) \<and>
     input_tokens (bd_composition b) \<le> lm_input (bd_limits b) \<and> bd_limits b = limits"
  using assms by (fastforce simp: resumeRecordedCompaction_def Let_def split: prod.splits if_splits)

lemma compact_context_fits:
  assumes "compact_context counter env input limits tokens sel st = (st', Inr b)"
  shows "\<exists>history memory media. compose counter input history memory media = Inr (bd_composition b) \<and>
     input_tokens (bd_composition b) \<le> lm_input (bd_limits b) \<and> bd_limits b = limits"
  using assms
  by (fastforce simp: compact_context_def Let_def simp del: compact_loop.simps split: sum.splits prod.splits dest!: compact_loop_fits)

lemma fit_context_fits:
  assumes "fit_context counter runtime input limits st complete = (st', Inr b)" "fits counter input (lm_input limits) [] [] (ci_required input)"
  shows "\<exists>history memory media. compose counter input history memory media = Inr (bd_composition b) \<and>
     input_tokens (bd_composition b) \<le> lm_input (bd_limits b) \<and> bd_limits b = limits"
  using assms
  by (fastforce simp: fit_context_def Let_def fits_def split: sum.splits option.splits if_splits
      dest!: compact_context_fits selectOptional_fits[OF _ assms(2)])

lemma budget_fits:
  assumes "budget counter runtime input manifest remaining recorded st = (st', Inr b)"
  shows "\<exists>history memory media. compose counter input history memory media = Inr (bd_composition b) \<and>
     input_tokens (bd_composition b) \<le> lm_input (bd_limits b) \<and> context_limits (ci_input input) manifest remaining = Inr (bd_limits b)"
proof -
  obtain limits base where l: "context_limits (ci_input input) manifest remaining = Inr limits"
    "compose counter input [] [] (ci_required input) = Inr base" "input_tokens base \<le> lm_input limits"
    "(case recorded of
        Some r \<Rightarrow> (st, resumeRecordedCompaction counter input r limits)
      | None \<Rightarrow>
          (case compose counter input (ci_history input) (fitems (ci_input input) ''memory'') (fitems (ci_input input) ''media'') of
             Inl e \<Rightarrow> (st, Inl e)
           | Inr complete \<Rightarrow>
               if input_tokens complete \<le> lm_input limits
               then (st, Inr \<lparr>bd_composition = complete, bd_omitted = [], bd_limits = limits, bd_compaction = None\<rparr>)
               else if js_get (ci_input input) ''overflow_policy'' = JStr ''reject''
               then (st, Inl (budget_error ''complete model context exceeds the input budget''))
               else fit_context counter runtime input limits st complete)) = (st', Inr b)"
    using assms unfolding budget_def Let_def by (auto split: sum.splits if_splits)
  have "fits counter input (lm_input limits) [] [] (ci_required input)" using l(2,3) by (auto simp: fits_def)
  then show ?thesis
    using l(1,4) by (fastforce split: option.splits sum.splits if_splits dest!: resume_fits fit_context_fits)
qed

lemma compose_measured:
  assumes "compose counter input history memory media = Inr c"
  shows "\<exists>m t p. count_json counter (JArr (cp_messages c)) = Inr m \<and> count_json counter (JArr (cp_tools c)) = Inr t \<and>
     count_json counter (js_get (ci_input input) ''parameters'') = Inr p \<and> input_tokens c = m + media_cost input (orderedMemory media) + t + p"
  using assms by (auto simp: compose_def measure_context_def input_tokens_def Let_def)

lemma context_limits_Inr:
  assumes "context_limits doc manifest remaining = Inr l"
  shows "lm_input l + lm_reserved l = lm_context l" "lm_context l = min (fint (js_get manifest ''limits'') ''context_tokens'') remaining"
    "lm_reserved l = fint (js_get doc ''parameters'') ''max_output_tokens''" "lm_reserved l \<le> fint (js_get manifest ''limits'') ''max_output_tokens''"
    "lm_reserved l \<le> lm_context l"
  using assms by (auto simp: context_limits_def Let_def split: if_splits)


subsection \<open>The compaction loop ends by itself\<close>

text \<open>
  The bound on the attempts of the compaction loop never cuts it short: after as many attempts as there are
  retained histories and memories, and one more, the loop has ended with a result or an error of its own, so a
  larger bound changes nothing.
\<close>

theorem compaction_attempts_suffice:
  "compact_loop counter env input limit media (Suc (length retained + length memory) + k) st retained memory compacted omitted =
   compact_loop counter env input limit media (Suc (length retained + length memory)) st retained memory compacted omitted"
proof (induction "length retained + length memory" arbitrary: st retained memory compacted omitted)
  case 0
  then show ?case by (auto split: sum.splits prod.splits compact_outcome.splits)
next
  case (Suc n)
  show ?case
  proof (cases "memory = []")
    case True
    then obtain h hs where "retained = h # hs" using Suc.hyps(2) by (cases retained) auto
    then show ?thesis
      using True Suc.hyps(1)[of hs "[]"] Suc.hyps(2) by (auto split: sum.splits prod.splits compact_outcome.splits)
  next
    case False
    then obtain ms m where "memory = ms @ [m]" by (cases memory rule: rev_cases) auto
    then show ?thesis
      using Suc.hyps(1)[of retained ms] Suc.hyps(2) by (auto split: sum.splits prod.splits compact_outcome.splits)
  qed
qed

end
