(* ===== verification/ContextHistory.thy ===== *)
theory ContextHistory
  imports ContextFits
begin

text \<open>
  Which optional sources end up in a request: the visible history is the newest part of the durable one, every
  optional source is either used or reported as omitted, exactly once, and a compaction replaces exactly the older
  history it names.
\<close>

subsection \<open>Order\<close>

definition chronological :: "history_item list \<Rightarrow> bool" where
  "chronological hs \<longleftrightarrow> sorted_wrt (<) (map hi_sequence hs)"

lemma chronological_append: "chronological (xs @ ys) \<Longrightarrow> chronological xs \<and> chronological ys"
  by (simp add: chronological_def sorted_wrt_append)

lemma orderedHistory_chronological:
  assumes "chronological xs" "mset ys = mset xs"
  shows "orderedHistory ys = xs"
proof -
  let ?key = "\<lambda>h. (hi_sequence h, code_units (hi_ref h))"
  have "sorted_wrt (\<lambda>a b. ?key a < ?key b) xs"
    using assms(1) unfolding chronological_def sorted_wrt_map by (rule sorted_wrt_mono_rel[rotated]) auto
  then have "sorted_wrt (<) (map ?key xs)" unfolding sorted_wrt_map .
  then have "sorted (map ?key xs)" "distinct (map ?key xs)" by (simp_all add: strict_sorted_iff)
  moreover have "set ys = set xs" using assms(2) by (rule mset_eq_setD)
  ultimately show ?thesis
    unfolding orderedHistory_def using sort_key_inj_key_eq[OF assms(2), of ?key] by (simp add: distinct_map)
qed

lemma orderedHistory_id: "chronological xs \<Longrightarrow> orderedHistory xs = xs"
  by (rule orderedHistory_chronological) simp_all

lemma mset_ordered [simp]: "mset (orderedMemory ms) = mset ms" "mset (orderedHistory hs) = mset hs" "mset (sort_refs rs) = mset rs"
  by (simp_all add: orderedMemory_def orderedHistory_def sort_refs_def)

lemma set_ordered [simp]: "set (orderedMemory ms) = set ms"
  by (simp add: orderedMemory_def)

lemma orderedMemory_idem [simp]: "orderedMemory (orderedMemory ms) = orderedMemory ms"
  by (simp add: orderedMemory_def sort_key_id_if_sorted sorted_sort_key)

lemma compose_ordered_history: "orderedHistory hs = orderedHistory hs' \<Longrightarrow> compose counter input hs memory media = compose counter input hs' memory media"
  by (simp add: compose_def context_messages_def context_refs_def)

lemma compose_ordered_memory: "orderedMemory ms = orderedMemory ms' \<Longrightarrow> compose counter input hs ms media = compose counter input hs ms' media"
  by (simp add: compose_def context_messages_def context_refs_def source_records_def)

subsection \<open>The selection\<close>

lemma select_history_splits:
  assumes "select_history counter input limit chosen hs = Inr (kept, omitted)"
  shows "\<exists>new rest. hs = new @ rest \<and> kept = chosen @ new \<and> omitted = map hi_ref rest"
  using assms
proof (induction hs arbitrary: chosen)
  case (Cons h hs)
  obtain c where c: "compose counter input (chosen @ [h]) [] (ci_required input) = Inr c" using Cons.prems by auto
  show ?case
  proof (cases "input_tokens c \<le> limit")
    case True
    then obtain new rest where "hs = new @ rest" "kept = (chosen @ [h]) @ new" "omitted = map hi_ref rest"
      using Cons.IH[of "chosen @ [h]"] Cons.prems c by auto
    then show ?thesis by (intro exI[of _ "h # new"] exI[of _ rest]) simp
  qed (use Cons.prems c in \<open>auto intro: exI[of _ "[]"]\<close>)
qed simp

lemma subset_add_mset: "A \<subseteq># B \<Longrightarrow> A \<subseteq># add_mset x B"
  by (metis add_mset_add_single mset_subset_eq_add_left subset_mset.order_trans)

lemma select_memory_splits:
  assumes "select_memory counter input limit history chosen ms = Inr (kept, omitted)"
  shows "\<exists>new. kept = chosen @ new \<and> mset new \<subseteq># mset ms \<and> mset (map fref new) + mset omitted = mset (map fref ms)"
  using assms
proof (induction ms arbitrary: chosen omitted)
  case (Cons m ms)
  obtain c where c: "compose counter input history (chosen @ [m]) (ci_required input) = Inr c" using Cons.prems by auto
  show ?case
  proof (cases "input_tokens c \<le> limit")
    case True
    then obtain new where "kept = (chosen @ [m]) @ new" "mset new \<subseteq># mset ms" "mset (map fref new) + mset omitted = mset (map fref ms)"
      using Cons.IH[of "chosen @ [m]"] Cons.prems c by auto
    then show ?thesis by (intro exI[of _ "m # new"]) auto
  next
    case False
    then obtain om where om: "select_memory counter input limit history chosen ms = Inr (kept, om)" "omitted = fref m # om"
      using Cons.prems c by auto
    then show ?thesis using Cons.IH[OF om(1)] by (auto intro: subset_add_mset)
  qed
qed simp

abbreviation required_ref :: "context_input \<Rightarrow> js \<Rightarrow> bool" where
  "required_ref input m \<equiv> js_get m ''source_ref'' \<in> (\<lambda>r. js_get r ''source_ref'') ` set (ci_required input)"

lemma select_media_splits:
  assumes "select_media counter input limit history memory chosen ms = Inr (kept, omitted)"
  shows "\<exists>new. kept = chosen @ new \<and> mset new \<subseteq># mset (filter (\<lambda>m. \<not> required_ref input m) ms) \<and>
     mset (map fref new) + mset omitted = mset (map fref (filter (\<lambda>m. \<not> required_ref input m) ms))"
  using assms
proof (induction ms arbitrary: chosen omitted)
  case (Cons m ms)
  show ?case
  proof (cases "required_ref input m")
    case True
    then show ?thesis using Cons by fastforce
  next
    case False
    then obtain c where c: "compose counter input history memory (chosen @ [m]) = Inr c" using Cons.prems by auto
    show ?thesis
    proof (cases "input_tokens c \<le> limit")
      case True
      then obtain new where "kept = (chosen @ [m]) @ new" "mset new \<subseteq># mset (filter (\<lambda>m. \<not> required_ref input m) ms)"
        "mset (map fref new) + mset omitted = mset (map fref (filter (\<lambda>m. \<not> required_ref input m) ms))"
        using Cons.IH[of "chosen @ [m]"] Cons.prems c False by auto
      then show ?thesis using False by (intro exI[of _ "m # new"]) auto
    next
      case over: False
      then obtain om where om: "select_media counter input limit history memory chosen ms = Inr (kept, om)" "omitted = fref m # om"
        using Cons.prems c False by auto
      then show ?thesis using Cons.IH[OF om(1)] False by (auto intro: subset_add_mset)
    qed
  qed
qed simp

text \<open>
  What the input schema and the durable session make of an input: history in the order of its sequence numbers,
  distinct events and references, and required media among the declared ones.
\<close>

definition context_ok :: "context_input \<Rightarrow> bool" where
  "context_ok input \<longleftrightarrow>
     chronological (ci_history input) \<and> distinct (map hi_event (ci_history input)) \<and>
     distinct (map (\<lambda>m. js_get m ''source_ref'') (fitems (ci_input input) ''memory'')) \<and>
     distinct (map (\<lambda>m. js_get m ''source_ref'') (fitems (ci_input input) ''media'')) \<and>
     (\<exists>R. ci_required input = filter (\<lambda>m. js_get m ''source_ref'' \<in> R) (fitems (ci_input input) ''media''))"

lemma required_media:
  assumes "context_ok input"
  shows "set (ci_required input) \<subseteq> set (fitems (ci_input input) ''media'')"
    "mset (ci_required input) + mset (filter (\<lambda>m. \<not> required_ref input m) (fitems (ci_input input) ''media'')) = mset (fitems (ci_input input) ''media'')"
proof -
  let ?media = "fitems (ci_input input) ''media''"
  obtain R where R: "ci_required input = filter (\<lambda>m. js_get m ''source_ref'' \<in> R) ?media" using assms unfolding context_ok_def by blast
  then show "set (ci_required input) \<subseteq> set ?media" by auto
  have "filter (\<lambda>m. \<not> required_ref input m) ?media = filter (\<lambda>m. js_get m ''source_ref'' \<notin> R) ?media"
    unfolding R by (intro filter_cong) auto
  then show "mset (ci_required input) + mset (filter (\<lambda>m. \<not> required_ref input m) ?media) = mset ?media"
    unfolding R by simp
qed

lemma map_fref_sum: "mset xs + mset ys = mset zs \<Longrightarrow> mset (map fref xs) + mset (map fref ys) = mset (map fref zs)"
  by (metis image_mset_union mset_map)

lemma selection_splits:
  assumes "selectOptional counter input limit = Inr sel" "context_ok input"
  obtains older where "ci_history input = older @ orderedHistory (sl_history sel)" "mset (sl_history sel) = mset (orderedHistory (sl_history sel))"
    "mset (sl_memory sel) \<subseteq># mset (fitems (ci_input input) ''memory'')" "mset (sl_media sel) \<subseteq># mset (fitems (ci_input input) ''media'')"
    "set (ci_required input) \<subseteq> set (sl_media sel)"
    "mset (sl_omitted sel) + mset (map fref (sl_memory sel)) + mset (map fref (sl_media sel)) =
       mset (map hi_ref older) + mset (map fref (fitems (ci_input input) ''memory'')) + mset (map fref (fitems (ci_input input) ''media''))"
proof -
  let ?memory = "fitems (ci_input input) ''memory''" and ?media = "fitems (ci_input input) ''media''"
  obtain oh om ou where s: "select_history counter input limit [] (rev (orderedHistory (ci_history input))) = Inr (sl_history sel, oh)"
    "select_memory counter input limit (sl_history sel) [] (orderedMemory ?memory) = Inr (sl_memory sel, om)"
    "select_media counter input limit (sl_history sel) (sl_memory sel) (ci_required input) (orderedMemory ?media) = Inr (sl_media sel, ou)"
    "sl_omitted sel = oh @ om @ ou"
    using assms(1) by (auto simp: selectOptional_def)
  have ch: "chronological (ci_history input)" using assms(2) by (simp add: context_ok_def)
  obtain rest where rest: "rev (ci_history input) = sl_history sel @ rest" "oh = map hi_ref rest"
    using select_history_splits[OF s(1)] unfolding orderedHistory_id[OF ch] by auto
  have hist: "ci_history input = rev rest @ rev (sl_history sel)" by (metis rest(1) rev_append rev_rev_ident)
  have kept: "orderedHistory (sl_history sel) = rev (sl_history sel)"
    by (rule orderedHistory_chronological) (use chronological_append[of "rev rest"] ch hist in simp_all)
  have mem: "mset (sl_memory sel) \<subseteq># mset ?memory" "mset (map fref (sl_memory sel)) + mset om = mset (map fref ?memory)"
    using select_memory_splits[OF s(2)] by auto
  obtain new where new: "sl_media sel = ci_required input @ new" "mset new \<subseteq># mset (filter (\<lambda>m. \<not> required_ref input m) (orderedMemory ?media))"
    "mset (map fref new) + mset ou = mset (map fref (filter (\<lambda>m. \<not> required_ref input m) (orderedMemory ?media)))"
    using select_media_splits[OF s(3)] by auto
  have "mset (map fref (ci_required input)) + mset (map fref (filter (\<lambda>m. \<not> required_ref input m) (orderedMemory ?media))) = mset (map fref ?media)"
    using map_fref_sum[of "ci_required input" "filter (\<lambda>m. \<not> required_ref input m) (orderedMemory ?media)" ?media] required_media(2)[OF assms(2)] by simp
  then have med: "mset (map fref (sl_media sel)) + mset ou = mset (map fref ?media)"
    using new(1,3) by (simp add: union_assoc)
  show thesis
  proof (rule that[of "rev rest"])
    show "mset (sl_omitted sel) + mset (map fref (sl_memory sel)) + mset (map fref (sl_media sel)) =
       mset (map hi_ref (rev rest)) + mset (map fref ?memory) + mset (map fref ?media)"
      unfolding s(4) rest(2) mem(2)[symmetric] med[symmetric] by (simp add: rev_map[symmetric] ac_simps)
    show "mset (sl_media sel) \<subseteq># mset ?media"
      using new(2) unfolding new(1) required_media(2)[OF assms(2), symmetric] by simp
  qed (use hist kept mem(1) new(1) in auto)
qed

subsection \<open>The compaction loop\<close>

text \<open>The input schema of the compaction runtime returns what it accepts.\<close>

definition compaction_laws :: "compaction_env \<Rightarrow> bool" where
  "compaction_laws env \<longleftrightarrow> (\<forall>v v'. cx_schema env ''compaction runtime input'' v = Inr v' \<longrightarrow> v' = v)"

lemma compact_Compacted:
  assumes "compact env st value retained accept_result = (st', Compacted r c)" "compaction_laws env"
  obtains entry result checkpoint where "accept_result result = Inr (Some c)" "check_result env entry value result = Inr ()"
    "r = compaction_record env entry value retained checkpoint result"
proof -
  obtain input entry result checkpoint where "cx_schema env ''compaction runtime input'' value = Inr input"
    "accept_result result = Inr (Some c)" "check_result env entry input result = Inr ()"
    "r = compaction_record env entry input retained checkpoint result"
    using assms(1) by (auto simp: compact_def split: sum.splits prod.splits option.splits)
  then show thesis using that assms(2) unfolding compaction_laws_def by metis
qed

lemma record_fields:
  assumes "r = compaction_record env entry (compaction_request input compacted target) retained checkpoint result"
  shows "js_get r ''source_event_ids'' = str_array (map hi_event compacted)" "js_get r ''retained_source_event_ids'' = JArr retained"
    "js_get r ''replacement_messages'' = js_get result ''replacement_messages''" "js_get r ''source_digest'' = js_get result ''source_digest''"
    "js_get r ''turn_id'' = js_get (ci_input input) ''turn_id''" "is_obj r"
  using assms by (simp_all add: compaction_record_def compaction_request_def Let_def js_get_JObj fitems_def str_array_def history_js_def)

definition compacted_with ::
    "token_counter \<Rightarrow> (string \<Rightarrow> string) \<Rightarrow> context_input \<Rightarrow> js list \<Rightarrow> composition \<Rightarrow> js \<Rightarrow> history_item list \<Rightarrow> history_item list \<Rightarrow>
     js list \<Rightarrow> bool" where
  "compacted_with counter sha256 input media c r older kept memory \<longleftrightarrow>
     is_obj r \<and> compose counter input (replacement_item (ftext (ci_input input) ''compaction_event_id'') older
       (first_or_undef (fitems r ''replacement_messages'')) # kept) memory media = Inr c \<and>
     js_get r ''source_event_ids'' = str_array (map hi_event older) \<and> js_get r ''retained_source_event_ids'' = str_array (map hi_event kept) \<and>
     js_get r ''turn_id'' = js_get (ci_input input) ''turn_id'' \<and> js_get r ''source_digest'' = JStr (digest sha256 (JArr (map history_js older)))"

lemma compact_compacted_with:
  assumes "compact env st (compaction_request input compacted target) (map (\<lambda>h. JStr (hi_event h)) retained)
      (accept_replacement counter input limit compacted retained memory media) = (st', Compacted r c)" "compaction_laws env"
  shows "compacted_with counter (cx_sha env) input media c r compacted retained memory"
proof -
  obtain entry result checkpoint where a: "accept_replacement counter input limit compacted retained memory media result = Inr (Some c)"
    "check_result env entry (compaction_request input compacted target) result = Inr ()"
    "r = compaction_record env entry (compaction_request input compacted target) (map (\<lambda>h. JStr (hi_event h)) retained) checkpoint result"
    by (rule compact_Compacted[OF assms])
  note f = record_fields[OF a(3)]
  have "js_get result ''source_digest'' = JStr (digest (cx_sha env) (JArr (map history_js compacted)))"
    using a(2) by (simp add: check_result_def compaction_request_def Let_def js_get_JObj split: if_splits)
  then show ?thesis
    using a(1) f by (auto simp: compacted_with_def accept_replacement_def fitems_def str_array_def split: if_splits)
qed

lemma compact_loop_splits:
  assumes "compact_loop counter env input limit media n st retained memory compacted omitted = (st', Inr (c, r, older, left))"
    "compaction_laws env" "chronological (compacted @ retained)" "compacted \<noteq> []"
  shows "\<exists>kept used. compacted @ retained = older @ kept \<and> older \<noteq> [] \<and> set used \<subseteq> set memory \<and>
     mset left + mset (map fref used) = mset omitted + mset (map fref memory) \<and> compacted_with counter (cx_sha env) input media c r older kept used"
  using assms(1,3,4)
proof (induction n arbitrary: st retained memory compacted omitted)
  case (Suc n)
  obtain without where w: "compose counter input retained memory media = Inr without" using Suc.prems(1) by (auto split: sum.splits)
  obtain st1 o1 where c1: "compact env st (compaction_request input compacted (max 1 (limit - input_tokens without)))
      (map (\<lambda>h. JStr (hi_event h)) retained) (accept_replacement counter input limit compacted retained memory media) = (st1, o1)"
    by (metis surj_pair)
  show ?case
  proof (cases o1)
    case (Compacted r' c')
    then show ?thesis
      using Suc.prems w c1 compact_compacted_with[OF _ assms(2)] by (intro exI[of _ retained] exI[of _ memory]) auto
  next
    case Failed
    then show ?thesis using Suc.prems w c1 by simp
  next
    case Rejected
    show ?thesis
    proof (cases "memory = []")
      case False
      then obtain ms m where m: "memory = ms @ [m]" by (cases memory rule: rev_cases) auto
      have "compact_loop counter env input limit media n st1 retained ms compacted (omitted @ [fref m]) = (st', Inr (c, r, older, left))"
        using Suc.prems(1) w c1 Rejected m by simp
      from Suc.IH[OF this Suc.prems(2,3)] obtain kept used where "compacted @ retained = older @ kept" "older \<noteq> []" "set used \<subseteq> set ms"
        "mset left + mset (map fref used) = mset (omitted @ [fref m]) + mset (map fref ms)" "compacted_with counter (cx_sha env) input media c r older kept used"
        by blast
      then show ?thesis unfolding m by (intro exI[of _ kept] exI[of _ used]) auto
    next
      case True
      then obtain h hs where h: "retained = h # hs" using Suc.prems(1) w c1 Rejected by (cases retained) auto
      have o: "orderedHistory (compacted @ [h]) = compacted @ [h]"
        by (rule orderedHistory_id) (use Suc.prems(2) h chronological_append[of "compacted @ [h]" hs] in simp)
      have "compact_loop counter env input limit media n st1 hs memory (compacted @ [h]) omitted = (st', Inr (c, r, older, left))"
        using Suc.prems(1) w c1 Rejected True h o by simp
      from Suc.IH[OF this] show ?thesis using Suc.prems(2) h by simp
    qed
  qed
qed simp

subsection \<open>Accounting\<close>

lemma filter_rest:
  assumes "distinct (map f xs)" "mset ys \<subseteq># mset xs"
  shows "mset (filter (\<lambda>x. f x \<notin> f ` set ys) xs) + mset ys = mset xs"
proof -
  have d: "distinct xs" "inj_on f (set xs)" using assms(1) by (simp_all add: distinct_map)
  have sub: "set ys \<subseteq> set xs" using set_mset_mono[OF assms(2)] by simp
  have "count (mset ys) a \<le> count (mset xs) a" for a using assms(2) by (rule mset_subset_eq_count)
  then have "count (mset ys) a = (if a \<in> set ys then 1 else 0)" for a
    using d(1) sub unfolding distinct_count_atmost_1 by (metis count_eq_zero_iff le_antisym less_one linorder_not_less set_mset_mset subsetD)
  then have "distinct ys" unfolding distinct_count_atmost_1 by blast
  have "filter (\<lambda>x. f x \<in> f ` set ys) xs = filter (\<lambda>x. x \<in> set ys) xs"
    by (rule filter_cong) (use d(2) sub in \<open>auto simp: inj_on_def\<close>)
  moreover have "mset (filter (\<lambda>x. x \<in> set ys) xs) = mset ys"
    using \<open>distinct ys\<close> d(1) sub by (subst set_eq_iff_mset_eq_distinct[symmetric]) auto
  ultimately have "{#x \<in># mset xs. f x \<in> f ` set ys#} = mset ys" by (metis mset_filter)
  then show ?thesis using multiset_partition[of "mset xs" "\<lambda>x. f x \<in> f ` set ys"] by (simp add: add.commute)
qed

lemma omitted_memory_rest:
  assumes "distinct (map (\<lambda>m. js_get m ''source_ref'') ms)" "mset kept \<subseteq># mset ms"
  shows "mset (omitted_memory ms kept) + mset (map fref kept) = mset (map fref ms)"
proof -
  have "omitted_memory ms kept = map fref (filter (\<lambda>m. js_get m ''source_ref'' \<notin> (\<lambda>m. js_get m ''source_ref'') ` set kept) ms)"
    unfolding omitted_memory_def by (rule arg_cong[of _ _ "map fref"], rule filter_cong) (auto simp: list_ex_iff image_iff)
  then show ?thesis using map_fref_sum[OF filter_rest[OF assms]] by simp
qed

lemma omitted_media_rest:
  assumes "context_ok input" "mset kept \<subseteq># mset (fitems (ci_input input) ''media'')"
  shows "mset (omitted_media input kept) + mset (map fref kept) = mset (map fref (fitems (ci_input input) ''media''))"
proof -
  have "distinct (map (\<lambda>m. m) (fitems (ci_input input) ''media''))" using assms(1) by (simp add: context_ok_def distinct_map)
  from map_fref_sum[OF filter_rest[OF this assms(2)]] show ?thesis by (simp add: omitted_media_def)
qed

lemma older_history_prefix:
  assumes "context_ok input" "ci_history input = older @ orderedHistory (sl_history sel)" 
  shows "older_history input sel = older"
proof -
  have s: "set (orderedHistory (sl_history sel)) = set (sl_history sel)" by (simp add: orderedHistory_def)
  have "orderedHistory (ci_history input) = ci_history input" using assms(1) by (simp add: context_ok_def orderedHistory_id)
  moreover have "distinct (map hi_event older)" "hi_event ` set older \<inter> hi_event ` set (sl_history sel) = {}"
    using assms(1) unfolding context_ok_def assms(2) s[symmetric] by simp_all
  moreover have "filter (\<lambda>h. \<forall>r \<in> set (sl_history sel). hi_event r \<noteq> hi_event h) (orderedHistory (sl_history sel)) = []"
    using s by (auto simp: filter_empty_conv)
  moreover have "filter (\<lambda>h. \<forall>r \<in> set (sl_history sel). hi_event r \<noteq> hi_event h) older = older"
    using calculation(3) by (intro filter_True) force
  ultimately show ?thesis unfolding older_history_def assms(2) by (simp add: list_ex_iff)
qed

definition accounted :: "context_input \<Rightarrow> string list \<Rightarrow> history_item list \<Rightarrow> js list \<Rightarrow> js list \<Rightarrow> bool" where
  "accounted input omitted kept memory media \<longleftrightarrow>
     mset omitted + mset (map hi_ref kept) + mset (map fref memory) + mset (map fref media) =
     mset (map hi_ref (ci_history input)) + mset (map fref (fitems (ci_input input) ''memory'')) + mset (map fref (fitems (ci_input input) ''media''))"

lemma compact_context_splits:
  assumes "compact_context counter env input limits tokens sel st = (st', Inr b)" "selectOptional counter input limit = Inr sel"
    "context_ok input" "compaction_laws env" "older_history input sel \<noteq> []"
  shows "\<exists>older kept memory media r. ci_history input = older @ kept \<and> older \<noteq> [] \<and> bd_compaction b = Some r \<and>
     accounted input (bd_omitted b) kept memory media \<and> set (ci_required input) \<subseteq> set media \<and>
     compacted_with counter (cx_sha env) input media (bd_composition b) r older kept memory \<and>
     set memory \<subseteq> set (fitems (ci_input input) ''memory'') \<and> set media \<subseteq> set (fitems (ci_input input) ''media'')"
proof -
  let ?memory = "fitems (ci_input input) ''memory''" and ?start = "orderedMemory (sl_memory sel)"
  obtain older where s: "ci_history input = older @ orderedHistory (sl_history sel)" "mset (sl_memory sel) \<subseteq># mset ?memory"
    "mset (sl_media sel) \<subseteq># mset (fitems (ci_input input) ''media'')" "set (ci_required input) \<subseteq> set (sl_media sel)"
    by (rule selection_splits[OF assms(2,3)])
  note o = older_history_prefix[OF assms(3) s(1)]
  obtain c r compacted left where l: "compact_loop counter env input (lm_input limits) (sl_media sel) (Suc (length (ci_history input) + length ?memory)) st
      (orderedHistory (sl_history sel)) ?start older (omitted_memory ?memory ?start) = (st', Inr (c, r, compacted, left))"
    "b = \<lparr>bd_composition = c, bd_omitted = sort_refs (map hi_ref compacted @ left @ omitted_media input (sl_media sel)),
         bd_limits = limits, bd_compaction = Some r\<rparr>"
    using assms(1) unfolding compact_context_def Let_def o by (auto simp del: compact_loop.simps split: sum.splits prod.splits)
  obtain kept used where k: "ci_history input = compacted @ kept" "compacted \<noteq> []"
    "mset left + mset (map fref used) = mset (omitted_memory ?memory ?start) + mset (map fref ?start)"
    "compacted_with counter (cx_sha env) input (sl_media sel) c r compacted kept used" "set used \<subseteq> set ?start"
    using compact_loop_splits[OF l(1) assms(4)] assms(3,5) unfolding o s(1) context_ok_def by auto
  have "mset left + mset (map fref used) = mset (map fref ?memory)"
    using k(3) omitted_memory_rest[of ?memory ?start] assms(3) s(2) by (simp add: context_ok_def)
  moreover have "mset (omitted_media input (sl_media sel)) + mset (map fref (sl_media sel)) = mset (map fref (fitems (ci_input input) ''media''))"
    by (rule omitted_media_rest[OF assms(3) s(3)])
  ultimately have "accounted input (bd_omitted b) kept used (sl_media sel)"
    unfolding accounted_def l(2) k(1) by (simp add: ac_simps)
  moreover have "set used \<subseteq> set ?memory" "set (sl_media sel) \<subseteq> set (fitems (ci_input input) ''media'')"
    using k(5) set_mset_mono[OF s(2)] set_mset_mono[OF s(3)] by auto
  ultimately show ?thesis
    using k s(4) unfolding l(2) by (intro exI[of _ compacted] exI[of _ kept] exI[of _ used] exI[of _ "sl_media sel"] exI[of _ r]) simp
qed

lemma fit_context_splits:
  assumes "fit_context counter runtime input limits st complete = (st', Inr b)" "context_ok input"
    "case runtime of None \<Rightarrow> True | Some env \<Rightarrow> compaction_laws env"
  shows "\<exists>older kept memory media. ci_history input = older @ kept \<and> accounted input (bd_omitted b) kept memory media \<and>
     set (ci_required input) \<subseteq> set media \<and> set media \<subseteq> set (fitems (ci_input input) ''media'') \<and>
     set memory \<subseteq> set (fitems (ci_input input) ''memory'') \<and>
     (case bd_compaction b of
        None \<Rightarrow> compose counter input kept memory media = Inr (bd_composition b)
      | Some r \<Rightarrow> older \<noteq> [] \<and> (\<exists>env. runtime = Some env \<and>
          compacted_with counter (cx_sha env) input media (bd_composition b) r older kept memory))"
proof -
  obtain sel c where sel: "selectOptional counter input (lm_input limits) = Inr sel" "compose counter input (sl_history sel) (sl_memory sel) (sl_media sel) = Inr c"
    using assms(1) by (auto simp: fit_context_def split: sum.splits)
  let ?ordinary = "\<lparr>bd_composition = c, bd_omitted = sort_refs (sl_omitted sel), bd_limits = limits, bd_compaction = None\<rparr>"
  obtain older where s: "ci_history input = older @ orderedHistory (sl_history sel)" "set (ci_required input) \<subseteq> set (sl_media sel)"
    "mset (sl_memory sel) \<subseteq># mset (fitems (ci_input input) ''memory'')" "mset (sl_media sel) \<subseteq># mset (fitems (ci_input input) ''media'')"
    "mset (sl_omitted sel) + mset (map fref (sl_memory sel)) + mset (map fref (sl_media sel)) =
       mset (map hi_ref older) + mset (map fref (fitems (ci_input input) ''memory'')) + mset (map fref (fitems (ci_input input) ''media''))"
    by (rule selection_splits[OF sel(1) assms(2)])
  consider "b = ?ordinary"
    | env where "runtime = Some env" "older_history input sel \<noteq> []" "compact_context counter env input limits (input_tokens complete) sel st = (st', Inr b)"
    using assms(1) sel by (auto simp: fit_context_def Let_def split: if_splits option.splits)
  then show ?thesis
  proof cases
    case 1
    have "accounted input (bd_omitted ?ordinary) (orderedHistory (sl_history sel)) (sl_memory sel) (sl_media sel)"
      using arg_cong[OF s(5), of "\<lambda>m. m + mset (map hi_ref (orderedHistory (sl_history sel)))"]
      unfolding accounted_def s(1) by (simp add: ac_simps)
    moreover have "compose counter input (orderedHistory (sl_history sel)) (sl_memory sel) (sl_media sel) = Inr c"
      using sel(2) compose_ordered_history[of "orderedHistory (sl_history sel)" "sl_history sel"] chronological_append[of older] assms(2) s(1)
      by (simp add: orderedHistory_id context_ok_def)
    ultimately show ?thesis
      unfolding 1 using s(1,2) set_mset_mono[OF s(3)] set_mset_mono[OF s(4)] by (intro exI[of _ older] exI[of _ "orderedHistory (sl_history sel)"] exI[of _ "sl_memory sel"] exI[of _ "sl_media sel"]) simp
  next
    case 2
    then show ?thesis
      using compact_context_splits[OF 2(3) sel(1) assms(2) _ 2(2)] assms(3) by fastforce
  qed
qed

lemma budget_splits:
  assumes "budget counter runtime input manifest remaining None st = (st', Inr b)" "context_ok input"
    "case runtime of None \<Rightarrow> True | Some env \<Rightarrow> compaction_laws env"
  shows "\<exists>older kept memory media. ci_history input = older @ kept \<and> accounted input (bd_omitted b) kept memory media \<and>
     set (ci_required input) \<subseteq> set media \<and> set media \<subseteq> set (fitems (ci_input input) ''media'') \<and>
     set memory \<subseteq> set (fitems (ci_input input) ''memory'') \<and>
     (case bd_compaction b of
        None \<Rightarrow> compose counter input kept memory media = Inr (bd_composition b)
      | Some r \<Rightarrow> older \<noteq> [] \<and> (\<exists>env. runtime = Some env \<and>
          compacted_with counter (cx_sha env) input media (bd_composition b) r older kept memory))"
proof -
  let ?memory = "fitems (ci_input input) ''memory''" and ?media = "fitems (ci_input input) ''media''"
  obtain limits complete where c: "compose counter input (ci_history input) ?memory ?media = Inr complete"
    "b = \<lparr>bd_composition = complete, bd_omitted = [], bd_limits = limits, bd_compaction = None\<rparr> \<or>
     fit_context counter runtime input limits st complete = (st', Inr b)"
    using assms(1) by (auto simp: budget_def Let_def split: sum.splits if_splits)
  from c(2) show ?thesis
  proof
    assume b: "b = \<lparr>bd_composition = complete, bd_omitted = [], bd_limits = limits, bd_compaction = None\<rparr>"
    show ?thesis
      unfolding b using c(1) required_media(1)[OF assms(2)]
      by (intro exI[of _ "[]"] exI[of _ "ci_history input"] exI[of _ ?memory] exI[of _ ?media]) (simp add: accounted_def)
  qed (rule fit_context_splits[OF _ assms(2,3)])
qed

text \<open>
  Nothing optional disappears silently: a request that is assembled without resuming a durable compaction shows
  the newest part of the durable history, alone or after the replacement of all the older history by a compaction
  whose record names exactly the replaced and the retained events; and every history entry, memory and media of
  the input is either in the request or among the omitted references, exactly once, the required media always
  in it.
\<close>

theorem optional_context_accounted:
  assumes "budget counter runtime input manifest remaining None st = (st', Inr b)" "context_ok input"
    "case runtime of None \<Rightarrow> True | Some env \<Rightarrow> compaction_laws env"
  shows "\<exists>older kept memory media. ci_history input = older @ kept \<and> accounted input (bd_omitted b) kept memory media \<and>
     set (ci_required input) \<subseteq> set media \<and> set media \<subseteq> set (fitems (ci_input input) ''media'') \<and>
     set memory \<subseteq> set (fitems (ci_input input) ''memory'') \<and>
     (case bd_compaction b of
        None \<Rightarrow> compose counter input kept memory media = Inr (bd_composition b)
      | Some r \<Rightarrow> older \<noteq> [] \<and> (\<exists>env. runtime = Some env \<and>
          compacted_with counter (cx_sha env) input media (bd_composition b) r older kept memory))"
  by (rule budget_splits[OF assms])

end
