(* ===== verification/ContextAccepted.thy ===== *)
theory ContextAccepted
  imports ContextHistory
begin

text \<open>
  The assembler and the session reducer: the reducer accepts the history the assembler shows, it refuses one whose
  order by sequence differs from its order by turn, and a compaction whose sources grew is refused when the
  assembly is repeated over the checkpoint it left.
\<close>

subsection \<open>The visible history\<close>

lemma system_role [simp]: "ftext (system_message c) ''role'' = ''system''"
  by (simp add: system_message_def ftext_def js_get_JObj)

lemma instructions_system: "m \<in> snd ` set (orderedInstructions v) \<Longrightarrow> ftext m ''role'' = ''system''"
  by (auto simp: orderedInstructions_def instructionMessage_def)

lemma quoted_system [simp]: "ftext (quotedData kind source meta) ''role'' = ''system''"
  by (simp add: quotedData_def)

definition spoken :: "history_item list \<Rightarrow> bool" where
  "spoken hs \<longleftrightarrow> list_all (\<lambda>h. ftext (hi_message h) ''role'' \<noteq> ''system'') hs"

lemma visible_messages:
  assumes "spoken hs" "fitems request ''messages'' = context_messages input hs memory"
  shows "visible_history request = map hi_message (orderedHistory hs)"
proof -
  have h: "filter (\<lambda>m. ftext m ''role'' \<noteq> ''system'') (map hi_message (orderedHistory hs)) = map hi_message (orderedHistory hs)"
    using assms(1) by (intro filter_True) (auto simp: spoken_def list_all_iff orderedHistory_def)
  have "filter (\<lambda>m. ftext m ''role'' \<noteq> ''system'') (map snd (orderedInstructions v)) = []" for v
    using instructions_system by (auto simp: filter_empty_conv)
  then show ?thesis
    using h unfolding visible_history_def assms(2) context_messages_def Let_def by (simp add: butlast_append filter_empty_conv)
qed

lemma compose_fields:
  assumes "compose counter input hs memory media = Inr c"
  shows "cp_messages c = context_messages input hs memory" "cp_source_refs c = context_refs input hs memory media"
  using assms by (auto simp: compose_def Let_def)

definition other_refs :: "context_input \<Rightarrow> string list" where
  "other_refs input =
     [CONTEXT_PRECEDENCE_REF, fref (js_get (ci_input input) ''current_turn''), event_ref (ftext (ci_input input) ''compaction_event_id'')] @
     map fref (required_sources input) @ map fref (fitems (ci_input input) ''memory'') @ map fref (fitems (ci_input input) ''media'') @
     map (\<lambda>t. ftext t ''governance_ref'') (context_tools input)"

lemma set_context_refs:
  assumes "set memory \<subseteq> set (fitems (ci_input input) ''memory'')" "set media \<subseteq> set (fitems (ci_input input) ''media'')"
  shows "hi_ref ` set hs \<subseteq> set (context_refs input hs memory media)"
    "set (context_refs input hs memory media) \<subseteq> hi_ref ` set hs \<union> set (other_refs input)"
  using assms by (auto simp: context_refs_def other_refs_def orderedHistory_def)

lemma event_ref_inject [simp]: "event_ref a = event_ref b \<longleftrightarrow> a = b"
  by (simp add: event_ref_def)

lemma ordinary_accepted:
  assumes "visible = map hi_message kept" "durable = older @ kept" "hi_ref ` set kept \<subseteq> set refs"
  shows "\<not> ordinary_invalid visible durable refs"
  using assms by (cases "kept = []") (auto simp: ordinary_invalid_def Let_def same_json_def list_ex_iff)

lemma filter_events:
  assumes "distinct (map hi_event (older @ kept))"
  shows "filter (\<lambda>h. hi_event h \<in> hi_event ` set kept) (older @ kept) = kept" "filter (\<lambda>h. hi_event h \<in> hi_event ` set older) (older @ kept) = older"
proof -
  have "hi_event ` set older \<inter> hi_event ` set kept = {}" using assms by simp
  then have "filter (\<lambda>h. hi_event h \<in> hi_event ` set kept) older = []" "filter (\<lambda>h. hi_event h \<in> hi_event ` set older) kept = []"
    by (auto simp: filter_empty_conv)
  then show "filter (\<lambda>h. hi_event h \<in> hi_event ` set kept) (older @ kept) = kept" "filter (\<lambda>h. hi_event h \<in> hi_event ` set older) (older @ kept) = older"
    by (simp_all add: filter_id_conv)
qed

lemma compacted_accepted:
  assumes "compacted_with counter sha256 input media c r older kept memory" "older \<noteq> []" "context_ok input" "ci_history input = older @ kept"
    "spoken (replacement_item i older (first_or_undef (fitems r ''replacement_messages'')) # kept)"
    "i = ftext (ci_input input) ''compaction_event_id''"
    "\<forall>h \<in> set (ci_history input). hi_ref h = event_ref (hi_event h) \<and> hi_ref h \<notin> set (other_refs input)"
    "set memory \<subseteq> set (fitems (ci_input input) ''memory'')" "set media \<subseteq> set (fitems (ci_input input) ''media'')"
    "fitems request ''messages'' = cp_messages c" "ev_payload e = r" "ev_id e = i"
  shows "\<not> compacted_invalid (with_event_id e) (visible_history request) (ci_history input) (cp_source_refs c)"
proof -
  let ?m = "first_or_undef (fitems r ''replacement_messages'')" and ?h = "replacement_item i older (first_or_undef (fitems r ''replacement_messages''))"
  have r: "compose counter input (?h # kept) memory media = Inr c" "js_get r ''source_event_ids'' = str_array (map hi_event older)"
    "js_get r ''retained_source_event_ids'' = str_array (map hi_event kept)" "is_obj r"
    using assms(1) unfolding compacted_with_def assms(6) by blast+
  have get: "js_get (with_event_id e) k = (if k = ''event_id'' then JStr i else js_get r k)" for k
    using assms(11,12) r(4) by (cases r) (auto simp: with_event_id_def js_get_def map_of_put_field)
  have "chronological (?h # kept)"
    using assms(2-4) by (cases older) (auto simp: context_ok_def chronological_def replacement_item_def sorted_wrt_append)
  then have vis: "visible_history request = ?m # map hi_message kept"
    using visible_messages[OF assms(5), of request input memory] assms(10) compose_fields(1)[OF r(1)]
    by (simp add: orderedHistory_id replacement_item_def)
  have d: "distinct (map hi_event (older @ kept))" using assms(3,4) by (simp add: context_ok_def)
  have events: "set (ftexts (with_event_id e) ''retained_source_event_ids'') = hi_event ` set kept"
    "set (ftexts (with_event_id e) ''source_event_ids'') = hi_event ` set older"
    by (simp_all add: ftexts_def fitems_def get r str_array_def image_image)
  have refs: "hi_ref ` set (?h # kept) \<subseteq> set (cp_source_refs c)" "set (cp_source_refs c) \<subseteq> hi_ref ` set (?h # kept) \<union> set (other_refs input)"
    unfolding compose_fields(2)[OF r(1)] by (rule set_context_refs[OF assms(8,9)])+
  have "hi_ref h \<notin> set (cp_source_refs c)" if "h \<in> set older" for h
  proof -
    have "h \<in> set (ci_history input)" using that assms(4) by simp
    then have h: "hi_ref h = event_ref (hi_event h)" "hi_ref h \<notin> set (other_refs input)" using assms(7) by blast+
    have "hi_event h \<notin> hi_event ` set kept" using d that by auto
    then have "hi_ref h \<notin> hi_ref ` set kept" using assms(4,7) h(1) by auto
    moreover have "hi_ref ?h \<in> set (other_refs input)" by (simp add: other_refs_def replacement_item_def assms(6))
    ultimately show ?thesis using refs(2) h(2) by auto
  qed
  then have "\<not> list_ex (\<lambda>h. hi_ref h \<in> set (cp_source_refs c)) older" by (auto simp: list_ex_iff)
  moreover have "fitems (with_event_id e) ''replacement_messages'' = fitems r ''replacement_messages''" "ftext (with_event_id e) ''event_id'' = i"
    by (simp_all add: fitems_def ftext_def get)
  moreover have "event_ref i \<in> set (cp_source_refs c)" using refs(1) by (simp add: replacement_item_def)
  ultimately show ?thesis
    using refs(1) unfolding compacted_invalid_def Let_def retained_items_def events assms(4) filter_events[OF d] vis
    by (auto simp: list_ex_iff same_json_def first_or_undef_def split: list.splits)
qed

text \<open>
  The session reducer accepts the history of every assembled request: for an input whose history is the durable
  history of its turn, a request that is not compacted shows a durable contiguous suffix, and for a compacted one
  the reducer accepts the record as a partition of the durable history, with the digest of the replaced part, and
  the request as its replacement followed by the retained part. The hypotheses say that durable messages have no
  system role and that no source of another kind uses the reference of a durable event.
\<close>

theorem assembled_history_accepted:
  assumes "budget counter runtime input manifest remaining None st = (st', Inr b)" "context_ok input"
    "case runtime of None \<Rightarrow> True | Some env \<Rightarrow> compaction_laws env"
    "durableHistory s (ftext (ci_input input) ''turn_id'') = ci_history input" "tn_request t = None" "tn_context_compaction t = None"
    "spoken (ci_history input)" "\<forall>h \<in> set (ci_history input). hi_ref h = event_ref (hi_event h) \<and> hi_ref h \<notin> set (other_refs input)"
    "\<forall>r. bd_compaction b = Some r \<longrightarrow> ftext (first_or_undef (fitems r ''replacement_messages'')) ''role'' \<noteq> ''system''"
    "fitems request ''messages'' = cp_messages (bd_composition b)"
  shows "case bd_compaction b of
      None \<Rightarrow> \<not> ordinary_invalid (visible_history request) (ci_history input) (cp_source_refs (bd_composition b))
    | Some r \<Rightarrow> (\<exists>older env. runtime = Some env \<and> context_sources s t r = Inr older \<and>
          ftext r ''source_digest'' = digest (cx_sha env) (JArr (map history_js older))) \<and>
        (\<forall>e. ev_payload e = r \<and> ev_id e = ftext (ci_input input) ''compaction_event_id'' \<longrightarrow>
           \<not> compacted_invalid (with_event_id e) (visible_history request) (ci_history input) (cp_source_refs (bd_composition b)))"
proof -
  obtain older kept memory media where k: "ci_history input = older @ kept" "set media \<subseteq> set (fitems (ci_input input) ''media'')"
    "set memory \<subseteq> set (fitems (ci_input input) ''memory'')"
    "case bd_compaction b of
        None \<Rightarrow> compose counter input kept memory media = Inr (bd_composition b)
      | Some r \<Rightarrow> older \<noteq> [] \<and> (\<exists>env. runtime = Some env \<and>
          compacted_with counter (cx_sha env) input media (bd_composition b) r older kept memory)"
    using budget_splits[OF assms(1-3)] by blast
  show ?thesis
  proof (cases "bd_compaction b")
    case None
    then have c: "compose counter input kept memory media = Inr (bd_composition b)" using k(4) by simp
    have "spoken kept" "chronological kept" using assms(2,7) k(1) chronological_append[of older] by (simp_all add: spoken_def context_ok_def)
    then have "visible_history request = map hi_message kept"
      using visible_messages[of kept request input memory] assms(10) compose_fields(1)[OF c] by (simp add: orderedHistory_id)
    then show ?thesis
      using ordinary_accepted[OF _ k(1)] set_context_refs(1)[OF k(3,2)] compose_fields(2)[OF c] None by simp
  next
    case (Some r)
    then obtain env where r: "older \<noteq> []" "runtime = Some env" "compacted_with counter (cx_sha env) input media (bd_composition b) r older kept memory"
      using k(4) by auto
    have "context_sources s t r = Inr older"
      using r(3) assms(4-6) k(1) unfolding context_sources_def compacted_with_def
      by (simp add: Let_def ftext_def fitems_def str_array_def same_json_def bind_res_simps)
    moreover have "ftext r ''source_digest'' = digest (cx_sha env) (JArr (map history_js older))"
      using r(3) by (simp add: compacted_with_def ftext_def)
    moreover have "spoken (replacement_item i older (first_or_undef (fitems r ''replacement_messages'')) # kept)" for i
      using assms(7,9) Some k(1) by (simp add: spoken_def replacement_item_def)
    ultimately show ?thesis
      using compacted_accepted[OF r(3,1) assms(2) k(1) _ _ assms(8) k(3,2) assms(10)] Some r(2) by auto
  qed
qed

text \<open>
  The assembler orders history by sequence number and the reducer by turn: when the two orders of a durable
  history differ, which happens as soon as a turn starts before the answer of an earlier one has ended, the
  reducer refuses every request that shows this history completely.
\<close>

theorem interleaved_history_refused:
  assumes "compose counter input (ci_history input) memory media = Inr c" "spoken (ci_history input)"
    "\<not> same_json (JArr (map hi_message (orderedHistory (ci_history input)))) (JArr (map hi_message (ci_history input)))"
    "fitems request ''messages'' = cp_messages c"
  shows "ordinary_invalid (visible_history request) (ci_history input) (cp_source_refs c)"
proof -
  have "visible_history request = map hi_message (orderedHistory (ci_history input))"
    using visible_messages[OF assms(2)] assms(4) compose_fields(1)[OF assms(1)] by simp
  moreover have "ci_history input \<noteq> []" using assms(3) by (auto simp: orderedHistory_def same_json_def)
  moreover have "length (orderedHistory (ci_history input)) = length (ci_history input)" by (simp add: orderedHistory_def)
  ultimately show ?thesis using assms(3) by (auto simp: ordinary_invalid_def Let_def)
qed

subsection \<open>Repeating an assembly\<close>

text \<open>The contracts return what they accept and never report that a checkpoint is missing.\<close>

definition port_laws :: "compaction_env \<Rightarrow> bool" where
  "port_laws env \<longleftrightarrow>
     (\<forall>name v v'. cx_schema env name v = Inr v' \<longrightarrow> v' = v) \<and> (\<forall>name v v'. cx_input env name v = Inr v' \<longrightarrow> v' = v) \<and>
     (\<forall>name v i v'. cx_result env name v i = Inr v' \<longrightarrow> v' = v) \<and>
     (\<forall>name v e. cx_schema env name v = Inl e \<longrightarrow> err_code e \<noteq> ''CHECKPOINT_NOT_FOUND'') \<and>
     (\<forall>name v e. cx_input env name v = Inl e \<longrightarrow> err_code e \<noteq> ''CHECKPOINT_NOT_FOUND'') \<and>
     (\<forall>name v i e. cx_result env name v i = Inl e \<longrightarrow> err_code e \<noteq> ''CHECKPOINT_NOT_FOUND'')"

lemma port_laws_compaction: "port_laws env \<Longrightarrow> compaction_laws env"
  by (simp add: port_laws_def compaction_laws_def)

lemma port_same:
  assumes "port_laws env"
  shows "cx_schema env name v = Inr v' \<Longrightarrow> v' = v" "cx_input env name v = Inr v' \<Longrightarrow> v' = v" "cx_result env name v i = Inr v' \<Longrightarrow> v' = v"
  using assms unfolding port_laws_def by blast+

definition kept_sources :: "compaction_env \<Rightarrow> compaction_state \<Rightarrow> js \<Rightarrow> js option" where
  "kept_sources env st input =
     map_option (\<lambda>c. js_get (js_get c ''payload'') ''source_digest'') (map_of (cz_records st) (checkpoint_key (checkpoint_request env input [])))"

lemma key_payload [simp]: "checkpoint_key (checkpoint_request env input [(''payload'', p)]) = checkpoint_key (checkpoint_request env input [])"
  by (simp add: checkpoint_key_def checkpoint_request_def js_get_JObj)

lemma recover_found:
  assumes "recover_checkpoint env st input = (c, Inr result)" "port_laws env"
  obtains k where "c = Some k" "map_of (cz_records st) (checkpoint_key (checkpoint_request env input [])) = Some k" "result = js_get k ''payload''"
  using assms(1) by (auto simp: recover_checkpoint_def checkpoint_get_def Let_def split: sum.splits option.splits dest!: port_same[OF assms(2)])

lemma recover_missing:
  assumes "recover_checkpoint env st input = (c, Inl e)" "err_code e = ''CHECKPOINT_NOT_FOUND''" "port_laws env"
  shows "c = None" "map_of (cz_records st) (checkpoint_key (checkpoint_request env input [])) = None"
proof -
  have no: "cx_schema env name v \<noteq> Inl e" "cx_input env name v \<noteq> Inl e" "cx_result env name v i \<noteq> Inl e" for name v i
    using assms(2,3) unfolding port_laws_def by metis+
  have "checkpoint_identity env v \<noteq> Inl e" for v
    using assms(2) by (auto simp: checkpoint_identity_def checkpoint_provider_error_def)
  then show "c = None" "map_of (cz_records st) (checkpoint_key (checkpoint_request env input [])) = None"
    using assms(1) no by (auto simp: recover_checkpoint_def checkpoint_get_def Let_def bind_res_def split: sum.splits option.splits dest!: port_same[OF assms(3)])
qed

lemma put_new:
  assumes "checkpoint_put env st (checkpoint_request env input [(''payload'', result)]) = (st', Inr k)" "port_laws env"
    "map_of (cz_records st) (checkpoint_key (checkpoint_request env input [])) = None"
  shows "\<exists>c. map_of (cz_records st') (checkpoint_key (checkpoint_request env input [])) = Some c \<and> js_get c ''payload'' = result"
proof -
  let ?q = "checkpoint_request env input [(''payload'', result)]"
  have q: "js_get ?q ''payload'' = result" by (simp add: checkpoint_request_def js_get_JObj)
  have "st' = st\<lparr>cz_records := cz_records st @ [(checkpoint_key ?q, checkpoint_record env ?q)]\<rparr>"
    using assms(1,3) by (auto simp: checkpoint_put_def Let_def split: sum.splits option.splits dest!: port_same[OF assms(2)])
  then show ?thesis using assms(3) by (simp add: map_add_def checkpoint_record_def js_get_JObj q)
qed

lemma compact_keeps_sources:
  assumes "compact env st value retained accept_result = (st', Compacted r c)" "port_laws env"
  shows "kept_sources env st' value = Some (JStr (digest (cx_sha env) (js_get value ''sources'')))"
proof -
  obtain input entry st1 found result k where s: "cx_schema env ''compaction runtime input'' value = Inr input"
    "obtain_result env st entry input = (st1, Inr (found, result))" "check_result env entry input result = Inr ()"
    "keep_checkpoint env st1 input found result = (st', Inr k)"
    using assms(1) by (auto simp: compact_def split: sum.splits prod.splits option.splits)
  have input: "input = value" by (rule port_same(1)[OF assms(2) s(1)])
  have digest: "js_get result ''source_digest'' = JStr (digest (cx_sha env) (js_get value ''sources''))"
    using s(3) unfolding input by (simp add: check_result_def split: if_splits)
  obtain f o1 where rec: "recover_checkpoint env st value = (f, o1)" by (metis surj_pair)
  show ?thesis
  proof (cases o1)
    case (Inr x)
    then have "found = f" "st1 = st" "result = x" using s(2) rec unfolding input by (auto simp: obtain_result_def)
    moreover obtain k' where "f = Some k'" "map_of (cz_records st) (checkpoint_key (checkpoint_request env value [])) = Some k'" "x = js_get k' ''payload''"
      by (rule recover_found[OF rec[unfolded Inr] assms(2)])
    ultimately show ?thesis using s(4) digest by (auto simp: keep_checkpoint_def kept_sources_def Let_def)
  next
    case (Inl e)
    then have e: "err_code e = ''CHECKPOINT_NOT_FOUND''" using s(2) rec unfolding input by (auto simp: obtain_result_def split: if_splits)
    note miss = recover_missing[OF rec[unfolded Inl] e assms(2)]
    have st1: "found = None" "cz_records st1 = cz_records st"
      using s(2) rec Inl e miss(1) unfolding input by (auto simp: obtain_result_def call_provider_def split: sum.splits)
    obtain k0 where "checkpoint_put env st1 (checkpoint_request env value [(''payload'', result)]) = (st', Inr k0)"
      using s(4) unfolding input st1(1) by (auto simp: keep_checkpoint_def Let_def split: prod.splits)
    from put_new[OF this assms(2)] show ?thesis using miss(2) st1(2) digest by (auto simp: kept_sources_def)
  qed
qed

lemma compact_other_sources:
  assumes "kept_sources env st value = Some d" "d \<noteq> JStr (digest (cx_sha env) (js_get value ''sources''))" "port_laws env"
  shows "\<exists>st' e. compact env st value retained accept_result = (st', Failed e)"
proof -
  obtain k where k: "map_of (cz_records st) (checkpoint_key (checkpoint_request env value [])) = Some k" "js_get (js_get k ''payload'') ''source_digest'' = d"
    using assms(1) by (auto simp: kept_sources_def)
  obtain f o1 where rec: "recover_checkpoint env st value = (f, o1)" by (metis surj_pair)
  have found: "\<exists>x e. obtain_result env st entry value = (st, Inr (x, js_get k ''payload'')) \<or> obtain_result env st entry value = (st, Inl e)" for entry
  proof (cases o1)
    case (Inr x)
    then obtain k' where "f = Some k'" "k' = k" "x = js_get k' ''payload''" using recover_found[OF rec[unfolded Inr] assms(3)] k(1) by auto
    then show ?thesis using rec Inr by (auto simp: obtain_result_def)
  next
    case (Inl e)
    then have "err_code e \<noteq> ''CHECKPOINT_NOT_FOUND''" using recover_missing(2)[OF rec[unfolded Inl] _ assms(3)] k(1) by auto
    then show ?thesis using rec Inl by (simp add: obtain_result_def)
  qed
  have "\<exists>e. check_result env entry value (js_get k ''payload'') = Inl e" for entry
    using assms(2) k(2) by (simp add: check_result_def)
  then have bad: "\<exists>e. bind_res (check_result env entry value (js_get k ''payload'')) g = Inl e" for entry and g :: "unit \<Rightarrow> 'a option res"
    by (metis bind_res_simps(1))
  let ?pre = "bind_res (cx_schema env ''compaction runtime input'' value) (\<lambda>input.
     bind_res (resolve_provider env (js_get input ''provider_id'') (Some (js_get input ''strategy''))) (\<lambda>entry.
     bind_res (guards [(fint (cy_manifest entry) ''max_input_bytes'' < json_bytes (source_messages input),
       compaction_error ''compaction input exceeds provider manifest cap'' ''COMPACTION_INPUT_CAP_EXCEEDED'')]) (\<lambda>_.
     Inr (input, entry))))"
  show ?thesis
  proof (cases ?pre)
    case (Inl e)
    then show ?thesis unfolding compact_def by simp
  next
    case (Inr x)
    then obtain v entry where x: "cx_schema env ''compaction runtime input'' value = Inr v" "x = (v, entry)" by auto
    then have pre: "?pre = Inr (value, entry)" using Inr port_same(1)[OF assms(3) x(1)] by simp
    obtain y e where "obtain_result env st entry value = (st, Inr (y, js_get k ''payload'')) \<or> obtain_result env st entry value = (st, Inl e)"
      using found by blast
    then show ?thesis
    proof
      assume "obtain_result env st entry value = (st, Inr (y, js_get k ''payload''))"
      then show ?thesis using bad[of entry "\<lambda>_. accept_result (js_get k ''payload'')"] unfolding compact_def pre by auto
    next
      assume "obtain_result env st entry value = (st, Inl e)"
      then show ?thesis unfolding compact_def pre by simp
    qed
  qed
qed

lemma kept_sources_request:
  "kept_sources env st (compaction_request input compacted target) = kept_sources env st (compaction_request input [] 0)"
  by (simp add: kept_sources_def checkpoint_request_def compaction_request_def Let_def js_get_JObj checkpoint_key_def)

lemma compact_loop_keeps:
  assumes "compact_loop counter env input limit media n st retained memory compacted omitted = (st', Inr (c, r, older, left))" "port_laws env"
  shows "kept_sources env st' (compaction_request input [] 0) = Some (js_get r ''source_digest'')"
  using assms(1)
proof (induction n arbitrary: st retained memory compacted omitted)
  case (Suc n)
  have keep: "kept_sources env st1 (compaction_request input [] 0) = Some (js_get x ''source_digest'')"
    if "compact env st0 (compaction_request input hs target) (map (\<lambda>h. JStr (hi_event h)) ks)
        (accept_replacement counter input limit hs ks ms media) = (st1, Compacted x y)" for st0 st1 hs target ks ms x y
    using compact_keeps_sources[OF that assms(2)] compact_compacted_with[OF that port_laws_compaction[OF assms(2)]]
    unfolding kept_sources_request[of env st1 input hs] by (simp add: compaction_request_def Let_def js_get_JObj compacted_with_def)
  show ?case
    using Suc.prems by (auto split: sum.splits prod.splits compact_outcome.splits if_splits list.splits dest: Suc.IH keep)
qed simp

lemma compact_loop_stops:
  assumes "compact_loop counter env input limit media (Suc n) st retained memory compacted omitted = (st', Inr x)" "port_laws env"
    "kept_sources env st'' (compaction_request input [] 0) = Some d" "d \<noteq> JStr (digest (cx_sha env) (JArr (map history_js compacted)))"
  shows "isl (snd (compact_loop counter env input limit media (Suc n) st'' retained memory compacted omitted))"
proof -
  obtain without where w: "compose counter input retained memory media = Inr without" using assms(1) by (auto split: sum.splits)
  let ?request = "compaction_request input compacted (max 1 (limit - input_tokens without))"
  have "kept_sources env st'' ?request = Some d" using assms(3) by (subst kept_sources_request)
  moreover have "d \<noteq> JStr (digest (cx_sha env) (js_get ?request ''sources''))"
    using assms(4) by (simp add: compaction_request_def Let_def js_get_JObj)
  ultimately obtain u e where "compact env st'' ?request (map (\<lambda>h. JStr (hi_event h)) retained)
      (accept_replacement counter input limit compacted retained memory media) = (u, Failed e)"
    using compact_other_sources[OF _ _ assms(2)] by blast
  then show ?thesis using w by simp
qed

lemma compact_context_not_repeatable:
  assumes "compact_context counter env input limits tokens sel st = (st', Inr b)" "bd_compaction b = Some r" "port_laws env"
    "js_get r ''source_digest'' \<noteq> JStr (digest (cx_sha env) (JArr (map history_js (older_history input sel))))"
  shows "isl (snd (compact_context counter env input limits tokens sel st'))"
proof -
  let ?start = "orderedMemory (sl_memory sel)" and ?memory = "fitems (ci_input input) ''memory''"
  let ?loop = "\<lambda>s. compact_loop counter env input (lm_input limits) (sl_media sel) (Suc (length (ci_history input) + length ?memory)) s
    (orderedHistory (sl_history sel)) ?start (older_history input sel) (omitted_memory ?memory ?start)"
  obtain c older left where l: "?loop st = (st', Inr (c, r, older, left))"
    using assms(1,2) by (auto simp: compact_context_def Let_def simp del: compact_loop.simps split: sum.splits prod.splits)
  have "isl (snd (?loop st'))"
    by (rule compact_loop_stops[OF l assms(3) compact_loop_keeps[OF l assms(3)] assms(4)])
  then obtain u e where "?loop st' = (u, Inl e)" by (cases "?loop st'") (auto simp: isl_def)
  then show ?thesis using assms(1) by (auto simp: compact_context_def Let_def simp del: compact_loop.simps split: sum.splits)
qed

lemma budget_compacts:
  assumes "budget counter (Some env) input manifest remaining None st = (st', Inr b)" "bd_compaction b = Some r"
  obtains tokens sel where "selectOptional counter input (lm_input (bd_limits b)) = Inr sel"
    "budget counter (Some env) input manifest remaining None = compact_context counter env input (bd_limits b) tokens sel"
proof -
  obtain limits complete where c: "compose counter input (ci_history input) (fitems (ci_input input) ''memory'') (fitems (ci_input input) ''media'') = Inr complete"
    "\<And>s. budget counter (Some env) input manifest remaining None s = fit_context counter (Some env) input limits s complete"
    using assms by (auto simp: budget_def Let_def split: sum.splits if_splits)
  obtain sel where s: "selectOptional counter input (lm_input limits) = Inr sel"
    "\<And>s. fit_context counter (Some env) input limits s complete = compact_context counter env input limits (input_tokens complete) sel s"
    using assms c(2)[of st] by (auto simp: fit_context_def Let_def split: sum.splits if_splits)
  have "bd_limits b = limits" using assms(1) c(2)[of st] s(2)[of st] compact_context_fits by metis
  moreover have "budget counter (Some env) input manifest remaining None = compact_context counter env input limits (input_tokens complete) sel"
    using s(2) c(2) by (simp add: fun_eq_iff)
  ultimately show thesis using that[of sel "input_tokens complete"] s(1) by simp
qed

text \<open>
  A compaction whose sources grew cannot be repeated: when an assembly has given up retained history before its
  replacement was accepted, the checkpoint it leaves behind is bound to the larger set of sources, and assembling
  the same context again over this checkpoint, for instance after the events could not be appended, always fails,
  for every provider, because the first attempt asks for the smaller set.
\<close>

theorem grown_compaction_not_repeatable:
  assumes "budget counter (Some env) input manifest remaining None st = (st', Inr b)" "bd_compaction b = Some r" "port_laws env"
    "selectOptional counter input (lm_input (bd_limits b)) = Inr sel"
    "js_get r ''source_digest'' \<noteq> JStr (digest (cx_sha env) (JArr (map history_js (older_history input sel))))"
  shows "isl (snd (budget counter (Some env) input manifest remaining None st'))"
proof -
  obtain tokens sel' where s: "selectOptional counter input (lm_input (bd_limits b)) = Inr sel'"
    "budget counter (Some env) input manifest remaining None = compact_context counter env input (bd_limits b) tokens sel'"
    by (rule budget_compacts[OF assms(1,2)])
  then show ?thesis
    using compact_context_not_repeatable[of counter env input "bd_limits b" tokens sel st st' b r] assms by simp
qed

end
