(* ===== verification/ContextDemo.thy ===== *)
theory ContextDemo
  imports ContextAccepted "HOL-Library.Code_Target_Nat"
begin

text \<open>
  A small context, assembled by the definitions themselves: two entries of history of which the budget admits
  the newer one.
\<close>

definition talk_source :: "string \<Rightarrow> string \<Rightarrow> js" where
  "talk_source ref content = JObj [(''source_ref'', JStr ref), (''content'', JStr content)]"

definition talk_message :: "string \<Rightarrow> js" where
  "talk_message content = JObj [(''role'', JStr ''user''), (''content'', JStr content)]"

definition talk_document :: js where
  "talk_document = JObj [(''occurred_at'', JStr ''2026-01-01T00:00:00.000Z''), (''turn_id'', JStr ''t''),
     (''instructions'', JObj [(''constitution'', JArr [talk_source ''c'' ''be safe''])]),
     (''runtime_context'', JArr []), (''references'', JArr []), (''memory'', JArr []), (''media'', JArr []), (''tools'', JArr []),
     (''parameters'', JObj [(''max_output_tokens'', JNum 10)]), (''overflow_policy'', JStr ''drop_optional''),
     (''current_turn'', JObj [(''source_ref'', JStr ''t''), (''message'', talk_message ''hello'')])]"

definition talk_history :: "history_item list" where
  "talk_history = map (\<lambda>(i, n). \<lparr>hi_event = i, hi_ref = event_ref i, hi_sequence = n, hi_message = talk_message i\<rparr>) [(''a'', 1), (''b'', 2)]"

definition talk_authority :: "(js \<times> string \<times> resolved_source) list" where
  "talk_authority = (case resolveInputAuthority (\<lambda>t. t) talk_document of Inr (resolved, v2) \<Rightarrow> resolved | Inl e \<Rightarrow> [])"

definition talk_input :: context_input where
  "talk_input = \<lparr>ci_input = talk_document, ci_history = talk_history, ci_authority = talk_authority, ci_media_tokens = [], ci_required = []\<rparr>"

definition talk_manifest :: js where
  "talk_manifest = JObj [(''limits'', JObj [(''context_tokens'', JNum 520), (''max_output_tokens'', JNum 20)])]"

definition talk_state :: compaction_state where
  "talk_state = \<lparr>cz_records = [], cz_calls = 0\<rparr>"

definition talk_fits :: bool where
  "talk_fits = (case snd (budget ConservativeUtf8TokenCounter None talk_input talk_manifest 1000 None talk_state) of
     Inl e \<Rightarrow> False | Inr b \<Rightarrow> bd_omitted b = [''session-event://a''])"

lemma talk_fits: talk_fits
  by code_simp


end
