(* ===== verification/Spec2Isabelle.thy ===== *)
theory Spec2Isabelle
  imports PolicyLattice GovernedSystem Scheduler ReplayRecovery ProjectionLoops SessionDemo MemoryDemo ContextDemo
begin

text \<open>
  Verification of the governed core of enterprise-hseos: the JavaScript packages through which agents act, and
  the durable stores behind them. Paths below are relative to \<open>src/\<close>.

  \<^bold>\<open>The program and its parts.\<close> Every effect of an agent is an operation that the governed runtime
  (\<open>packages/governed-execution/runtime.js\<close>) admits, dispatches to a provider and settles. It asks the
  permission lattice (\<open>packages/agent-policy-lattice\<close>), consumes a single-use approval where one is demanded
  (\<open>tools/mcp-project-state/lib/execution-approval-store.js\<close>), and records each phase as a fact that the event
  registry validates (\<open>tools/lib/governed-execution/event-registry.js\<close>) and the append-only ledger keeps
  (\<open>execution-event-ledger.js\<close>); the caller receives an envelope (\<open>canonical-envelope.js\<close>). A bounded scheduler
  (\<open>scheduler.js\<close>) queues the operations. From the ledger, the projection store
  (\<open>execution-projections.js\<close>) derives the table of runs. Agent sessions live in the same ledger: the session
  store (\<open>packages/agent-session-store/session-event-store.js\<close>) appends, reads and forks them, and the
  reducer (\<open>replay.js\<close>) rebuilds their state and the recovery plan. Governed memory
  (\<open>packages/agent-memory\<close>) is a third use of the ledger, with approvals for promotion and deletion; what
  memory and every other source may say in a model context is decided by
  \<open>packages/agent-context/authority.js\<close>, and the context itself is composed, measured, cut and compacted by
  \<open>context-assembler.js\<close> and \<open>packages/agent-compaction\<close>.

  \<^bold>\<open>Theories, in the order of their use.\<close>
  \<^item> Prelude, StrictJson, JsonText: JavaScript values, results with thrown errors, timestamps and UUIDs; strict and
    canonical JSON; JSON as text with its printer and parser, where a component compares, measures or hashes text
    (round trip and injectivity of the printer).
  \<^item> Envelope, PolicyLattice, EventRegistry: result envelopes and when they are canonical; evaluation of
    permission rules, derivation of child authority and configuration merges (dispatch exactly characterised,
    authority never widened along a chain); registration, validation, upcasting and reading of facts.
  \<^item> Ledger, ApprovalStore: the two stores of the governed core with their tables as lists of rows, their
    constraints and triggers as branches, and their metrics. The ledger only grows, two new commits never
    share an expected version, a batch is all or nothing; an approval is granted at most once. The locale
    \<open>event_log\<close> states what the clients of the ledger rely on and is interpreted on it.
  \<^item> Runtime, GovernedSystem, Scheduler: the runtime as functions between its suspension points, concurrent
    executions as a step relation over one database, and the scheduler with its queue, barrier and close.
    At most one dispatch per operation and only after durable start facts; no dispatch that needs an approval,
    by contract or by policy, without one; a reported outcome is durable or reported in doubt; every request
    is answered at most once, limits hold, the queue does not idle, and closing can hang.
  \<^item> ToolStub, Replay, ReplayCorrect, ReplayLimits, ReplayRecovery: the reducer with all its handlers, the pruned
    tool results it checks, and the recovery plan. Final tool outcomes, settled terminal sessions, limits,
    exact stream accounting, refinement of a three-phase lifecycle, existence of a plan.
  \<^item> Views, Projections, ProjectionSound, ProjectionLoops: the locale \<open>incremental_view\<close> of state derived from a
    log, interpreted on the projection and on the session reducer; the projection tables under any
    interleaving of processes and stale reads, the health report, reconciliation and rebuild with termination.
  \<^item> SessionStore, SessionSound, SessionAppend, SessionCommit, SessionFork, SessionDemo: the session store with
    its cache, transactions and lineage checks. The cache is invisible; appends and forks are read back; a
    late commit and a fork keep each session that could be replayed replayable; a fork never widens authority;
    a stray cause is accepted and makes the session unreadable.
  \<^item> MemoryPolicy, MemoryStore, MemorySound, MemoryRun, MemoryTrust, MemoryDemo: governed memory and runs of any
    number of stores over one ledger and one pair of approval tables. Entries are immutable and move forward,
    retrieval is ranked, trust and deletion rest on consumed approvals whose resource scope names the entry,
    and joined operation identifiers collide.
  \<^item> ContextAuthority, ContextCompose, Compaction, ContextBudget, ContextFits, ContextHistory, ContextAccepted,
    ContextDemo: authority of context sources against the specification \<open>admitted\<close>; composition, budget and
    compaction. Every assembled request fits, nothing optional disappears silently, the bound of the compaction
    loop is never what ends it, and the reducer accepts the history shown unless turns interleave.

  Each property stands in the theory of its component, after a text that gives its number and states it. The
  Demo theories, and the ends of other theories, evaluate the definitions on concrete inputs at which the
  properties apply.

  \<^bold>\<open>Parameters.\<close> Code outside the modelled files is an argument: SHA-256 (any function; where a property needs
  more the hypothesis says so), the zod schemas of sessions with the law \<open>schema_laws\<close> (a schema returns what
  it accepts, up to the order of keys) and of the compaction ports (\<open>compaction_laws\<close>, \<open>port_laws\<close>), the
  provider and its answers, clocks and identifiers, the credential scanner, the Unicode words of a text, the
  collation of \<open>localeCompare\<close>, the token counter, the compaction provider and the approval resolver. The
  witnesses instantiate them.

  \<^bold>\<open>Conventions.\<close> Values are finite trees of plain objects; an object lists its own properties in order. A string
  is the list of its UTF-8 bytes. Numbers are exact integers or decimals, which agrees with the language below
  \<open>2 ^ 53\<close> and for decimals of at most fifteen digits. Stored JSON is kept as the canonical value its text
  denotes. Property access on a record of the program that is keyed by data sees the inherited name
  \<open>constructor\<close> where the code would and a property depends on it; other inherited names, \<open>__proto__\<close> keys
  (which the schema library drops) and a tool call named \<open>constructor\<close> in a recovery plan are not modelled.
  Foreign writers of the session store write rows that hydrate, other connections never change or remove rows
  of the approval tables (their triggers forbid it), a store reads the version and the rows of a stream in one
  step, and so does a batch of reconciliation; the step relation of ProjectionSound also allows older reads.

  \<^bold>\<open>Bounds.\<close> The JSON parser has fuel \<open>2 * length + 1\<close>, which \<open>parse_canonical\<close> proves enough for every printed
  text. The retry loops of projections are partial functions into options and are proved to return. The
  compaction loop has the bound of the code, proved never to be the reason it ends. Ledgers have fewer than
  \<open>2 ^ 53 - 1\<close> rows (\<open>small\<close>, \<open>few_rows\<close>), the range of a full read in the code.

  \<^bold>\<open>Not modelled.\<close> The agent runtime and orchestration (composition around asynchronous model streams, whose
  durable decisions are events of the reducer), model, tool and environment providers, message transport,
  isolation attestation, the control SDK and managed governance (sockets, signatures, remote services), SQL
  text and migrations beyond the constraints the stores rely on, schemas (third-party evaluation), command
  line, installers and user interface; of the context assembler, the recording of the assembled request and the
  media store.
\<close>

end
